(* ===== verification/Nemu_Prelude.thy ===== *)
theory Nemu_Prelude
  imports Main "HOL-Library.Word" "HOL-Library.Monad_Syntax" "HOL-Library.Signed_Division"
begin

text \<open>
  What every component of the development shares: the C integer types as machine words,
  bit-fields of unions, single flags, little-endian \<open>memcpy\<close> between an integer and a byte
  array, and the generic contract of a field (a getter and a setter) as a locale.

  Results of type \<open>'a option\<close>: \<open>None\<close> is a call that does not return normally, because an
  \<open>assert\<close> of the source fails, because the source's behaviour is undefined (an array index
  out of range), or because it recurses without bound. \<open>do\<close> blocks sequence such calls.
\<close>

unbundle bit_operations_syntax

type_synonym u8 = "8 word"
type_synonym u16 = "16 word"
type_synonym u32 = "32 word"
type_synonym u64 = "64 word"

named_theorems bf_simps \<open>bits of bit-fields and flags\<close>
named_theorems alu_simps \<open>characterisations of the ALU's helper functions\<close>
named_theorems frame_simps \<open>which state components an operation leaves alone\<close>

section \<open>Fields: the contract of a getter and a setter\<close>

locale field_access =
  fixes get :: "'s \<Rightarrow> 'v"
    and put :: "'v \<Rightarrow> 's \<Rightarrow> 's"
    and norm :: "'v \<Rightarrow> 'v"
  assumes get_put: "get (put v s) = norm v"
    and put_get: "put (get s) s = s"
    and put_put: "put v (put w s) = put v s"
    and norm_get: "norm (get s) = get s"
begin

lemma norm_idem: "norm (norm v) = norm v"
  by (metis get_put norm_get)

lemma put_norm_get: "get (put (get s) t) = get s"
  by (simp add: get_put norm_get)

lemma put_back: "put (get s) (put v s) = s"
  by (simp add: put_put put_get)

lemma put_norm: "put (norm v) s = put v s"
  by (metis get_put put_get put_put)

lemma put_inj: "put v s = put w s \<Longrightarrow> norm v = norm w"
  by (metis get_put)

end

section \<open>Bit-fields of a union, and flags\<close>

text \<open>
  A C bit-field of \<open>n\<close> bits that starts at bit \<open>lo\<close> of its union's integer: reading it, and
  assigning to it, which truncates the value and leaves the other bits alone.
\<close>

definition bf_get :: "nat \<Rightarrow> nat \<Rightarrow> 'a::len word \<Rightarrow> 'a word" where
  "bf_get lo n w = take_bit n (drop_bit lo w)"

definition bf_put :: "nat \<Rightarrow> nat \<Rightarrow> 'a::len word \<Rightarrow> 'a word \<Rightarrow> 'a word" where
  "bf_put lo n v w = (w AND NOT (push_bit lo (mask n))) OR push_bit lo (take_bit n v)"

definition set_flag :: "nat \<Rightarrow> bool \<Rightarrow> 'a::len word \<Rightarrow> 'a word" where
  "set_flag i b w = (if b then Bit_Operations.set_bit i w else Bit_Operations.unset_bit i w)"

lemma bit_bf_get [bf_simps]:
  "bit (bf_get lo n w) i \<longleftrightarrow> i < n \<and> bit w (lo + i)" for w :: "'a::len word"
  by (auto simp: bf_get_def bit_simps ac_simps dest: bit_imp_le_length)

lemma bit_bf_put [bf_simps]:
  "bit (bf_put lo n v w) i \<longleftrightarrow>
     i < LENGTH('a) \<and> (if lo \<le> i \<and> i < lo + n then bit v (i - lo) else bit w i)"
  for w v :: "'a::len word"
  by (auto simp: bf_put_def bit_simps dest: bit_imp_le_length)

lemma bit_set_flag [simp, bf_simps]:
  "bit (set_flag i b w) j \<longleftrightarrow> (if j = i then b \<and> i < LENGTH('a) else bit w j)" for w :: "'a::len word"
  by (auto simp: set_flag_def bit_simps dest: bit_imp_le_length)

lemma bf_get_bf_put [simp]:
  "lo + n \<le> LENGTH('a) \<Longrightarrow> bf_get lo n (bf_put lo n v w) = take_bit n v" for w v :: "'a::len word"
  by (rule bit_word_eqI) (auto simp: bf_simps bit_simps)

lemma bf_get_bf_put_other:
  "lo + n \<le> lo' \<or> lo' + m \<le> lo \<Longrightarrow> bf_get lo' m (bf_put lo n v w) = bf_get lo' m w" for w v :: "'a::len word"
  by (rule bit_word_eqI) (auto simp: bf_simps bit_simps dest: bit_imp_le_length)

lemma bf_put_bf_get: "bf_put lo n (bf_get lo n w) w = w" for w :: "'a::len word"
  by (rule bit_word_eqI) (auto simp: bf_simps)

lemma bf_put_bf_put: "bf_put lo n v (bf_put lo n u w) = bf_put lo n v w" for w v u :: "'a::len word"
  by (rule bit_word_eqI) (auto simp: bf_simps)

lemma take_bit_bf_get [simp]: "take_bit n (bf_get lo n w) = bf_get lo n w" for w :: "'a::len word"
  by (simp add: bf_get_def)

lemma unat_bf_get_less: "unat (bf_get lo n w) < 2 ^ n" for w :: "'a::len word"
  by (simp add: bf_get_def unsigned_take_bit_eq)

text \<open>Every bit-field inside its integer satisfies the contract of a field.\<close>

lemma bitfield_access:
  "lo + n \<le> LENGTH('a) \<Longrightarrow>
   field_access (bf_get lo n) (bf_put lo n :: 'a::len word \<Rightarrow> _) (take_bit n)"
  by unfold_locales (simp_all add: bf_put_bf_get bf_put_bf_put)

section \<open>Loops over a list that may fail\<close>

primrec foldM :: "('x \<Rightarrow> 's \<Rightarrow> 's option) \<Rightarrow> 'x list \<Rightarrow> 's \<Rightarrow> 's option" where
  "foldM f [] s = Some s"
| "foldM f (x # xs) s = do { s' \<leftarrow> f x s; foldM f xs s' }"

primrec mapM :: "('x \<Rightarrow> 'y option) \<Rightarrow> 'x list \<Rightarrow> 'y list option" where
  "mapM f [] = Some []"
| "mapM f (x # xs) = do { y \<leftarrow> f x; ys \<leftarrow> mapM f xs; Some (y # ys) }"

lemma foldM_append: "foldM f (xs @ ys) s = do { s' \<leftarrow> foldM f xs s; foldM f ys s' }"
  by (induction xs arbitrary: s) simp_all

lemma foldM_invariant:
  assumes "\<And>x s s'. P s \<Longrightarrow> f x s = Some s' \<Longrightarrow> P s'" "P s" "foldM f xs s = Some s'"
  shows "P s'"
  using assms(2,3)
proof (induction xs arbitrary: s)
  case (Cons x xs)
  from Cons.prems obtain t where "f x s = Some t" "foldM f xs t = Some s'" by (auto split: bind_splits)
  with Cons assms(1) show ?case by blast
qed simp

lemma mapM_Some_length: "mapM f xs = Some ys \<Longrightarrow> length ys = length xs"
  by (induction xs arbitrary: ys) (auto split: bind_splits)

section \<open>Little-endian memcpy\<close>

text \<open>
  \<open>mem_get m a n\<close> is \<open>ret = 0; memcpy(&ret, m + a, n)\<close> on a little-endian host, and
  \<open>mem_put m a n d\<close> is \<open>memcpy(m + a, &d, n)\<close>, for an array of bytes indexed by a word.
\<close>

fun mem_get :: "('a::len word \<Rightarrow> u8) \<Rightarrow> 'a word \<Rightarrow> nat \<Rightarrow> u32" where
  "mem_get m a 0 = 0"
| "mem_get m a (Suc n) = ucast (m a) OR push_bit 8 (mem_get m (a + 1) n)"

fun mem_put :: "('a::len word \<Rightarrow> u8) \<Rightarrow> 'a word \<Rightarrow> nat \<Rightarrow> u32 \<Rightarrow> ('a word \<Rightarrow> u8)" where
  "mem_put m a 0 d = m"
| "mem_put m a (Suc n) d = (mem_put m (a + 1) n (drop_bit 8 d))(a := ucast d)"

lemma mem_put_outside:
  "n \<le> unat (b - a) \<Longrightarrow> mem_put m a n d b = m b" for a :: "'a::len word"
proof (induction m a n d rule: mem_put.induct)
  case (1 m a d)
  show ?case by simp
next
  case (2 m a n d)
  then have ne: "b - a \<noteq> 0" by auto
  then have "unat (b - (a + 1)) = unat (b - a) - 1"
    by (simp add: diff_diff_add [symmetric] unat_minus_one)
  with 2 ne show ?case by auto
qed

lemma mem_get_cong:
  "(\<And>i. i < n \<Longrightarrow> m (a + of_nat i) = m' (a + of_nat i)) \<Longrightarrow> mem_get m a n = mem_get m' a n"
  for a :: "'a::len word"
proof (induction m a n rule: mem_get.induct)
  case (1 m a)
  show ?case by simp
next
  case (2 m a n)
  have "mem_get m (a + 1) n = mem_get m' (a + 1) n"
    by (rule "2.IH") (use "2.prems" [of "Suc i" for i] in \<open>simp add: ac_simps\<close>)
  moreover have "m a = m' a" using "2.prems" [of 0] by simp
  ultimately show ?case by simp
qed

lemma mem_get_mem_put_disjoint:
  "(\<And>i. i < k \<Longrightarrow> n \<le> unat (b + of_nat i - a)) \<Longrightarrow> mem_get (mem_put m a n d) b k = mem_get m b k"
  for a :: "'a::len word"
  by (rule mem_get_cong) (simp add: mem_put_outside)

lemma bit_mem_get:
  "bit (mem_get m a n) i \<longleftrightarrow> i < 32 \<and> i < 8 * n \<and> bit (m (a + of_nat (i div 8))) (i mod 8)"
  for a :: "'a::len word"
proof (induction m a n arbitrary: i rule: mem_get.induct)
  case (1 m a)
  show ?case by simp
next
  case (2 m a n)
  show ?case
  proof (cases "i < 8")
    case True
    then show ?thesis by (simp add: bit_simps)
  next
    case False
    then have "i div 8 = Suc ((i - 8) div 8)" "i mod 8 = (i - 8) mod 8"
      by (simp_all add: div_if [of i] mod_if [of i])
    with False show ?thesis
      by (simp add: bit_simps "2.IH" add.assoc) (auto simp: add.commute [of 1] dest: bit_imp_le_length)
  qed
qed

lemma take_bit_bytes_Suc:
  "ucast (ucast d :: u8) OR push_bit 8 (take_bit (8 * n) (drop_bit 8 d)) = take_bit (8 * Suc n) d" for d :: u32
  by (rule bit_word_eqI) (auto simp: bit_simps)

lemma mem_get_mem_put_same:
  "n \<le> 4 \<Longrightarrow> 2 < LENGTH('a) \<Longrightarrow> mem_get (mem_put m a n d) a n = take_bit (8 * n) d" for a :: "'a::len word"
proof (induction m a n d rule: mem_put.induct)
  case (1 m a d)
  show ?case by simp
next
  case (2 m a n d)
  have "mem_get ((mem_put m (a + 1) n (drop_bit 8 d))(a := ucast d)) (a + 1) n
      = mem_get (mem_put m (a + 1) n (drop_bit 8 d)) (a + 1) n"
  proof (rule mem_get_cong)
    fix i
    assume "i < n"
    with "2.prems" have "Suc i < 2 ^ 3" by simp
    also have "(2::nat) ^ 3 \<le> 2 ^ LENGTH('a)" using "2.prems" by (intro power_increasing) auto
    finally have "unat (of_nat (Suc i) :: 'a word) = Suc i"
      by (simp only: unat_of_nat mod_less)
    then have "(1 + of_nat i :: 'a word) \<noteq> 0"
      by (metis of_nat_Suc unat_eq_zero nat.distinct(1))
    then show "((mem_put m (a + 1) n (drop_bit 8 d))(a := ucast d)) (a + 1 + of_nat i) =
      mem_put m (a + 1) n (drop_bit 8 d) (a + 1 + of_nat i)"
      by (simp add: add.assoc)
  qed
  with 2 show ?case
    by (simp add: take_bit_bytes_Suc del: fun_upd_apply) (simp add: take_bit_bytes_Suc [simplified])
qed

lemma mem_get_bound: "mem_get m a n = take_bit (8 * n) (mem_get m a n)" for a :: "'a::len word"
  by (rule bit_word_eqI) (simp add: bit_simps bit_mem_get)

end
