(* ===== verification/Nemu_State.thy ===== *)
theory Nemu_State
  imports Nemu_Prelude
begin

text \<open>
  The state of NEMU: the registers of \<open>nemu/include/cpu/reg.h\<close> and \<open>reg_fpu.h\<close>, the operands
  of \<open>operand.h\<close>, the emulator's global variables of \<open>cpu.c\<close>, the physical memory of
  \<open>memory.c\<close> and the state of the devices, as one record that every operation takes and
  returns. A union of an integer with bit-fields is the integer, read and written through
  \<open>bf_get\<close>, \<open>bf_put\<close>, \<open>bit\<close> and \<open>set_flag\<close>.
\<close>

section \<open>EFLAGS, CR0, CR3\<close>

text \<open>The one-bit fields of \<open>eflags\<close>, as booleans.\<close>

definition CF :: "u32 \<Rightarrow> bool" where "CF ef = bit ef 0"
definition PF :: "u32 \<Rightarrow> bool" where "PF ef = bit ef 2"
definition ZF :: "u32 \<Rightarrow> bool" where "ZF ef = bit ef 6"
definition SF :: "u32 \<Rightarrow> bool" where "SF ef = bit ef 7"
definition IF :: "u32 \<Rightarrow> bool" where "IF ef = bit ef 9"
definition DF :: "u32 \<Rightarrow> bool" where "DF ef = bit ef 10"
definition OF :: "u32 \<Rightarrow> bool" where "OF ef = bit ef 11"
definition VM :: "u32 \<Rightarrow> bool" where "VM ef = bit ef 17"

definition put_CF :: "bool \<Rightarrow> u32 \<Rightarrow> u32" where "put_CF b ef = set_flag 0 b ef"
definition put_PF :: "bool \<Rightarrow> u32 \<Rightarrow> u32" where "put_PF b ef = set_flag 2 b ef"
definition put_ZF :: "bool \<Rightarrow> u32 \<Rightarrow> u32" where "put_ZF b ef = set_flag 6 b ef"
definition put_SF :: "bool \<Rightarrow> u32 \<Rightarrow> u32" where "put_SF b ef = set_flag 7 b ef"
definition put_IF :: "bool \<Rightarrow> u32 \<Rightarrow> u32" where "put_IF b ef = set_flag 9 b ef"
definition put_DF :: "bool \<Rightarrow> u32 \<Rightarrow> u32" where "put_DF b ef = set_flag 10 b ef"
definition put_OF :: "bool \<Rightarrow> u32 \<Rightarrow> u32" where "put_OF b ef = set_flag 11 b ef"

lemmas flag_get_defs = CF_def PF_def ZF_def SF_def IF_def DF_def OF_def VM_def
lemmas flag_put_defs = put_CF_def put_PF_def put_ZF_def put_SF_def put_IF_def put_DF_def put_OF_def

lemma flag_of_put [simp]:
  "CF (put_CF b ef) = b" "CF (put_PF b ef) = CF ef" "CF (put_ZF b ef) = CF ef" "CF (put_SF b ef) = CF ef" "CF (put_OF b ef) = CF ef"
  "PF (put_CF b ef) = PF ef" "PF (put_PF b ef) = b" "PF (put_ZF b ef) = PF ef" "PF (put_SF b ef) = PF ef" "PF (put_OF b ef) = PF ef"
  "ZF (put_CF b ef) = ZF ef" "ZF (put_PF b ef) = ZF ef" "ZF (put_ZF b ef) = b" "ZF (put_SF b ef) = ZF ef" "ZF (put_OF b ef) = ZF ef"
  "SF (put_CF b ef) = SF ef" "SF (put_PF b ef) = SF ef" "SF (put_ZF b ef) = SF ef" "SF (put_SF b ef) = b" "SF (put_OF b ef) = SF ef"
  "OF (put_CF b ef) = OF ef" "OF (put_PF b ef) = OF ef" "OF (put_ZF b ef) = OF ef" "OF (put_SF b ef) = OF ef" "OF (put_OF b ef) = b"
  "DF (put_CF b ef) = DF ef" "DF (put_PF b ef) = DF ef" "DF (put_ZF b ef) = DF ef" "DF (put_SF b ef) = DF ef" "DF (put_OF b ef) = DF ef"
  "IF (put_CF b ef) = IF ef" "IF (put_PF b ef) = IF ef" "IF (put_ZF b ef) = IF ef" "IF (put_SF b ef) = IF ef" "IF (put_OF b ef) = IF ef"
  by (simp_all add: flag_get_defs flag_put_defs)

lemma flag_of_put_IF_DF [simp]:
  "IF (put_IF b ef) = b" "DF (put_DF b ef) = b" "DF (put_IF b ef) = DF ef" "IF (put_DF b ef) = IF ef"
  "CF (put_IF b ef) = CF ef" "ZF (put_IF b ef) = ZF ef" "SF (put_IF b ef) = SF ef" "OF (put_IF b ef) = OF ef" "PF (put_IF b ef) = PF ef"
  by (simp_all add: flag_get_defs flag_put_defs)

text \<open>The bits of EFLAGS other than the five arithmetic flags the ALU writes.\<close>

definition same_system_flags :: "u32 \<Rightarrow> u32 \<Rightarrow> bool" where
  "same_system_flags ef ef' \<longleftrightarrow>
     (\<forall>i \<in> set [0..<32]. i \<notin> {0, 2, 6, 7, 11} \<longrightarrow> bit ef' i = bit ef i)"

lemma same_system_flagsI:
  "(\<And>i. i \<notin> {0, 2, 6, 7, 11} \<Longrightarrow> bit ef' i = bit ef i) \<Longrightarrow> same_system_flags ef ef'"
  by (auto simp: same_system_flags_def)

lemma same_system_flags_refl [simp]: "same_system_flags ef ef"
  by (simp add: same_system_flags_def)

lemma same_system_flags_put [simp]:
  "same_system_flags ef (put_CF b ef') = same_system_flags ef ef'"
  "same_system_flags ef (put_PF b ef') = same_system_flags ef ef'"
  "same_system_flags ef (put_ZF b ef') = same_system_flags ef ef'"
  "same_system_flags ef (put_SF b ef') = same_system_flags ef ef'"
  "same_system_flags ef (put_OF b ef') = same_system_flags ef ef'"
  by (auto simp: same_system_flags_def flag_put_defs)

lemma same_system_flags_IF: "same_system_flags ef ef' \<Longrightarrow> IF ef' = IF ef"
  by (simp add: same_system_flags_def IF_def)

lemma same_system_flags_DF: "same_system_flags ef ef' \<Longrightarrow> DF ef' = DF ef"
  by (simp add: same_system_flags_def DF_def)

definition cr0_pe :: "u32 \<Rightarrow> bool" where "cr0_pe v = bit v 0"
definition cr0_pg :: "u32 \<Rightarrow> bool" where "cr0_pg v = bit v 31"
definition cr3_pdbr :: "u32 \<Rightarrow> u32" where "cr3_pdbr v = bf_get 12 20 v"

section \<open>Registers\<close>

text \<open>
  A segment register: the visible selector \<open>val\<close> (fields \<open>rpl\<close>, \<open>ti\<close>, \<open>index\<close>) and the
  invisible descriptor cache.
\<close>

record SegReg =
  sr_val :: u16
  sr_base :: u32
  sr_limit :: u32
  sr_type :: u32
  sr_privilege_level :: u32
  sr_soft_use :: u32

definition sel_index :: "u16 \<Rightarrow> u32" where "sel_index v = ucast (bf_get 3 13 v)"

record CPU_STATE =
  gpr :: "nat \<Rightarrow> u32"
  eip :: u32
  eflags :: u32
  gdtr_limit :: u16
  gdtr_base :: u32
  segReg :: "nat \<Rightarrow> SegReg"
  cr0 :: u32
  cr3 :: u32
  idtr_limit :: u16
  idtr_base :: u32
  intr :: u8

abbreviation (input) "REG_AL \<equiv> 0 :: u32"
abbreviation (input) "REG_CL \<equiv> 1 :: u32"
abbreviation (input) "REG_AH \<equiv> 4 :: u32"
abbreviation (input) "REG_AX \<equiv> 0 :: u32"
abbreviation (input) "REG_DX \<equiv> 2 :: u32"
abbreviation (input) "REG_SP \<equiv> 4 :: u32"
abbreviation (input) "REG_BP \<equiv> 5 :: u32"
abbreviation (input) "REG_EAX \<equiv> 0 :: u32"
abbreviation (input) "REG_ECX \<equiv> 1 :: u32"
abbreviation (input) "REG_EDX \<equiv> 2 :: u32"
abbreviation (input) "REG_EBX \<equiv> 3 :: u32"
abbreviation (input) "REG_ESP \<equiv> 4 :: u32"
abbreviation (input) "REG_ESI \<equiv> 6 :: u32"
abbreviation (input) "REG_EDI \<equiv> 7 :: u32"

abbreviation (input) "SREG_ES \<equiv> 0 :: nat"
abbreviation (input) "SREG_CS \<equiv> 1 :: nat"
abbreviation (input) "SREG_SS \<equiv> 2 :: nat"
abbreviation (input) "SREG_DS \<equiv> 3 :: nat"
abbreviation (input) "SREG_FS \<equiv> 4 :: nat"
abbreviation (input) "SREG_GS \<equiv> 5 :: nat"

text \<open>The union of a general-purpose register with its 16-bit and two 8-bit parts.\<close>

definition gpr_16 :: "u32 \<Rightarrow> u16" where "gpr_16 r = ucast r"
definition gpr_8 :: "nat \<Rightarrow> u32 \<Rightarrow> u8" where "gpr_8 i r = ucast (drop_bit (8 * i) r)"
definition put_gpr_16 :: "u16 \<Rightarrow> u32 \<Rightarrow> u32" where "put_gpr_16 v r = bf_put 0 16 (ucast v) r"
definition put_gpr_8 :: "nat \<Rightarrow> u8 \<Rightarrow> u32 \<Rightarrow> u32" where "put_gpr_8 i v r = bf_put (8 * i) 8 (ucast v) r"

lemma gpr_16_access: "field_access gpr_16 put_gpr_16 id"
  by unfold_locales
    (auto simp: gpr_16_def put_gpr_16_def bf_put_bf_put intro!: bit_word_eqI simp: bf_simps bit_simps split: if_splits)

lemma gpr_8_access: "i < 4 \<Longrightarrow> field_access (gpr_8 i) (put_gpr_8 i) id"
  by unfold_locales
    (auto simp: gpr_8_def put_gpr_8_def bf_put_bf_put intro!: bit_word_eqI simp: bf_simps bit_simps split: if_splits)

interpretation gpr16: field_access gpr_16 put_gpr_16 id
  by (rule gpr_16_access)

interpretation gpr8_low: field_access "gpr_8 0" "put_gpr_8 0" id
  by (rule gpr_8_access) simp

interpretation gpr8_high: field_access "gpr_8 1" "put_gpr_8 1" id
  by (rule gpr_8_access) simp

lemma gpr_8_other:
  "i \<noteq> j \<Longrightarrow> i < 4 \<Longrightarrow> j < 4 \<Longrightarrow> gpr_8 j (put_gpr_8 i v r) = gpr_8 j r"
  by (rule bit_word_eqI) (auto simp: gpr_8_def put_gpr_8_def bf_simps bit_simps)

section \<open>Operands\<close>

datatype opr_type = OPR_IMM | OPR_REG | OPR_MEM | OPR_CREG | OPR_SREG

record MEM_ADDR =
  disp :: u32
  base :: u32
  index :: u32
  scale :: u32

record OPERAND =
  o_type :: opr_type
  o_addr :: u32
  o_sreg :: nat
  o_val :: u32
  o_size :: nat
  o_mem_addr :: MEM_ADDR

definition MEM_ADDR_NA :: u32 where "MEM_ADDR_NA = 0xffffffff"

section \<open>Devices and monitor\<close>

datatype mmio_callback = Vga_vmem_io_handler

record MMIO_t =
  low :: u32
  high :: u32
  mmio_space :: u32
  callback :: mmio_callback

record MMIO =
  mmio_space_pool :: "u32 \<Rightarrow> u8"
  mmio_space_free_index :: u32
  maps :: "MMIO_t list"

text \<open>
  The static variables of \<open>vga.c\<close>, \<open>timer.c\<close> and \<open>keyboard.c\<close>. The palette is its bytes, and
  \<open>color_ptr\<close> an offset into it (\<open>None\<close> the null pointer); \<open>pixel_buf\<close> is the SDL surface's pixels
  by row and column.
\<close>

record VGA =
  vga_active :: bool
  vga_last_time :: u64
  vga_time_interval :: u64
  vmem_base :: u32
  vmem_dirty :: bool
  line_dirty :: "nat \<Rightarrow> bool"
  vga_crtc_regs :: "nat \<Rightarrow> u8"
  palette :: "nat \<Rightarrow> u8"
  color_ptr :: "nat option"
  pixel_buf :: "nat \<Rightarrow> nat \<Rightarrow> u8"

record TIMER =
  timer_active :: bool
  timer_last_time :: u64
  time_interval :: u64

record KEYBOARD =
  scan_code_buf :: u8
  keyboard_active :: bool
  keyboard_last_time :: u64

text \<open>
  The IDE controller, and the host file \<open>disk_fp\<close> behind it: its bytes and its position.
  \<open>stack_junk\<close> of the machine stands for the indeterminate bytes of the uninitialised local
  that \<open>fread\<close> fills only in part.
\<close>

record IDE =
  disk_idx :: u32
  sector :: u32
  byte_cnt :: u32
  ide_write :: bool
  disk_data :: "u8 list"
  disk_pos :: nat

datatype nemu_state = NEMU_STOP | NEMU_RUN | NEMU_READY | NEMU_BREAK

datatype bp_type = BREAKPOINT | WATCHPOINT

record BP =
  ori_byte :: u8
  bp_enable :: bool
  in_use :: bool
  NO :: nat
  bp_addr :: u32
  bp_expr :: string
  old_val :: u32
  new_val :: u32
  bp_type :: bp_type
  bp_next :: "nat option"

record BP_POOL =
  bp_list :: "nat \<Rightarrow> BP"
  head :: "nat option"
  free_list :: "nat option"

record machine = CPU_STATE +
  regStack :: "nat \<Rightarrow> u32"
  fpu_status :: u16
  fpu_control :: u16
  hw_mem :: "u32 \<Rightarrow> u8"
  io_port :: "u16 \<Rightarrow> u8"
  mmio :: MMIO
  vga :: VGA
  ide :: IDE
  i8259_intr_no :: u8
  timer :: TIMER
  keyboard :: KEYBOARD
  serial_out :: "u8 list"
  gpu_addr :: u32
  nemu_st :: nemu_state
  data_size :: nat
  has_prefix :: bool
  is_nemu_hlt :: bool
  opr_src :: OPERAND
  opr_dest :: OPERAND
  stack_junk :: u32
  bps :: BP_POOL

text \<open>The named registers of the union.\<close>

abbreviation (input) eax :: "machine \<Rightarrow> u32" where "eax s \<equiv> gpr s 0"
abbreviation (input) ecx :: "machine \<Rightarrow> u32" where "ecx s \<equiv> gpr s 1"
abbreviation (input) edx :: "machine \<Rightarrow> u32" where "edx s \<equiv> gpr s 2"
abbreviation (input) ebx :: "machine \<Rightarrow> u32" where "ebx s \<equiv> gpr s 3"
abbreviation (input) esp :: "machine \<Rightarrow> u32" where "esp s \<equiv> gpr s 4"
abbreviation (input) ebp :: "machine \<Rightarrow> u32" where "ebp s \<equiv> gpr s 5"
abbreviation (input) esi :: "machine \<Rightarrow> u32" where "esi s \<equiv> gpr s 6"
abbreviation (input) edi :: "machine \<Rightarrow> u32" where "edi s \<equiv> gpr s 7"

definition set_gpr :: "nat \<Rightarrow> u32 \<Rightarrow> machine \<Rightarrow> machine" where
  "set_gpr i v s = s\<lparr>gpr := (gpr s)(i := v)\<rparr>"

lemma set_gpr_simps [simp]:
  "gpr (set_gpr i v s) j = (if j = i then v else gpr s j)"
  "eip (set_gpr i v s) = eip s" "eflags (set_gpr i v s) = eflags s"
  "segReg (set_gpr i v s) = segReg s" "cr0 (set_gpr i v s) = cr0 s" "cr3 (set_gpr i v s) = cr3 s"
  "hw_mem (set_gpr i v s) = hw_mem s" "mmio (set_gpr i v s) = mmio s" "ide (set_gpr i v s) = ide s"
  "data_size (set_gpr i v s) = data_size s" "stack_junk (set_gpr i v s) = stack_junk s"
  "opr_src (set_gpr i v s) = opr_src s" "opr_dest (set_gpr i v s) = opr_dest s"
  "vga (set_gpr i v s) = vga s" "gdtr_base (set_gpr i v s) = gdtr_base s"
  "gdtr_limit (set_gpr i v s) = gdtr_limit s" "idtr_base (set_gpr i v s) = idtr_base s"
  "idtr_limit (set_gpr i v s) = idtr_limit s" "has_prefix (set_gpr i v s) = has_prefix s"
  by (simp_all add: set_gpr_def)


text \<open>The zero-initialised globals of a C program, which a run starts from.\<close>

definition SegReg0 :: SegReg where
  "SegReg0 = \<lparr>sr_val = 0, sr_base = 0, sr_limit = 0, sr_type = 0, sr_privilege_level = 0, sr_soft_use = 0\<rparr>"

definition OPERAND0 :: OPERAND where
  "OPERAND0 = \<lparr>o_type = OPR_IMM, o_addr = 0, o_sreg = 0, o_val = 0, o_size = 0,
     o_mem_addr = \<lparr>disp = 0, base = 0, index = 0, scale = 0\<rparr>\<rparr>"

definition BP0 :: BP where
  "BP0 = \<lparr>ori_byte = 0, bp_enable = False, in_use = False, NO = 0, bp_addr = 0, bp_expr = [],
     old_val = 0, new_val = 0, bp_type = BREAKPOINT, bp_next = None\<rparr>"

definition machine0 :: machine where
  "machine0 = \<lparr>gpr = (\<lambda>_. 0), eip = 0, eflags = 0, gdtr_limit = 0, gdtr_base = 0, segReg = (\<lambda>_. SegReg0),
     cr0 = 0, cr3 = 0, idtr_limit = 0, idtr_base = 0, intr = 0, regStack = (\<lambda>_. 0), fpu_status = 0,
     fpu_control = 0, hw_mem = (\<lambda>_. 0), io_port = (\<lambda>_. 0),
     mmio = \<lparr>mmio_space_pool = (\<lambda>_. 0), mmio_space_free_index = 0, maps = []\<rparr>,
     vga = \<lparr>vga_active = False, vga_last_time = 0, vga_time_interval = 0, vmem_base = 0, vmem_dirty = False,
       line_dirty = (\<lambda>_. False), vga_crtc_regs = (\<lambda>_. 0), palette = (\<lambda>_. 0), color_ptr = None,
       pixel_buf = (\<lambda>_ _. 0)\<rparr>,
     ide = \<lparr>disk_idx = 0, sector = 0, byte_cnt = 0, ide_write = False, disk_data = [], disk_pos = 0\<rparr>,
     i8259_intr_no = 255, timer = \<lparr>timer_active = False, timer_last_time = 0, time_interval = 0\<rparr>,
     keyboard = \<lparr>scan_code_buf = 0, keyboard_active = False, keyboard_last_time = 0\<rparr>,
     serial_out = [], gpu_addr = 0, nemu_st = NEMU_STOP, data_size = 32, has_prefix = False,
     is_nemu_hlt = False, opr_src = OPERAND0, opr_dest = OPERAND0, stack_junk = 0,
     bps = \<lparr>bp_list = (\<lambda>_. BP0), head = None, free_list = None\<rparr>\<rparr>"

lemma machine0_simps [simp]:
  "gpr machine0 = (\<lambda>_. 0)" "eip machine0 = 0" "eflags machine0 = 0" "gdtr_limit machine0 = 0"
  "gdtr_base machine0 = 0" "segReg machine0 = (\<lambda>_. SegReg0)" "cr0 machine0 = 0" "cr3 machine0 = 0"
  "idtr_limit machine0 = 0" "idtr_base machine0 = 0" "intr machine0 = 0" "hw_mem machine0 = (\<lambda>_. 0)"
  "io_port machine0 = (\<lambda>_. 0)" "maps (mmio machine0) = []" "data_size machine0 = 32"
  "has_prefix machine0 = False" "opr_src machine0 = OPERAND0" "opr_dest machine0 = OPERAND0"
  "stack_junk machine0 = 0" "nemu_st machine0 = NEMU_STOP" "i8259_intr_no machine0 = 255"
  "regStack machine0 = (\<lambda>_. 0)" "fpu_status machine0 = 0" "fpu_control machine0 = 0"
  by (simp_all add: machine0_def)

lemma SegReg0_simps [simp]: "sr_val SegReg0 = 0" "sr_base SegReg0 = 0"
  by (simp_all add: SegReg0_def)

end
