(* ===== verification/Memory.thy ===== *)
theory Memory
  imports Nemu_State
begin

text \<open>
  \<open>nemu/src/memory/memory.c\<close>, \<open>mmu/page.c\<close>, \<open>mmu/segment.c\<close> and \<open>device/io/mm_io.c\<close>: the
  path of a memory access from a virtual address through segmentation and paging to the physical
  memory or to a memory-mapped device. Reads return only a value: nothing on their path changes
  the state that is modelled. A length is the number of bytes.
\<close>

section \<open>Physical memory\<close>

definition MEM_SIZE_B :: u32 where "MEM_SIZE_B = 128 * 1024 * 1024"
definition QDISK_BASE :: u32 where "QDISK_BASE = 3300 * 1024 * 1024"

text \<open>
  The bound check of the source compares the 32-bit sum \<open>paddr + len\<close>. Where it passes although
  the bytes are not all in the array, the \<open>memcpy\<close> behind it is undefined; so is one of more
  than the four bytes of the local variable.
\<close>

definition mem_check :: "u32 \<Rightarrow> nat \<Rightarrow> bool" where
  "mem_check paddr len \<longleftrightarrow> paddr + of_nat len < MEM_SIZE_B"

definition in_array :: "u32 \<Rightarrow> nat \<Rightarrow> bool" where
  "in_array paddr len \<longleftrightarrow> unat paddr + len \<le> unat MEM_SIZE_B \<and> len \<le> 4"

definition hw_mem_read :: "machine \<Rightarrow> u32 \<Rightarrow> nat \<Rightarrow> u32 option" where
  "hw_mem_read s paddr len =
     (if \<not> mem_check paddr len then None
      else if \<not> in_array paddr len then None
      else Some (mem_get (hw_mem s) paddr len))"

definition hw_mem_write :: "machine \<Rightarrow> u32 \<Rightarrow> nat \<Rightarrow> u32 \<Rightarrow> machine option" where
  "hw_mem_write s paddr len data =
     (if \<not> mem_check paddr len then None
      else if \<not> in_array paddr len then None
      else Some (s\<lparr>hw_mem := mem_put (hw_mem s) paddr len data\<rparr>))"

definition init_mem :: "machine \<Rightarrow> machine" where
  "init_mem s = s\<lparr>hw_mem := (\<lambda>_. 0)\<rparr>"

section \<open>Memory-mapped devices\<close>

definition MMIO_SPACE_MAX :: u32 where "MMIO_SPACE_MAX = 256 * 1024"
definition NR_MAP :: nat where "NR_MAP = 8"

definition add_mmio_map :: "u32 \<Rightarrow> u32 \<Rightarrow> mmio_callback \<Rightarrow> MMIO \<Rightarrow> (u32 \<times> MMIO) option" where
  "add_mmio_map addr len cb m =
     (if \<not> length (maps m) < NR_MAP then None
      else if \<not> mmio_space_free_index m + len \<le> MMIO_SPACE_MAX then None
      else let space_base = mmio_space_free_index m in
        Some (space_base,
          m\<lparr>maps := maps m @ [\<lparr>low = addr, high = addr + len - 1, mmio_space = space_base, callback = cb\<rparr>],
            mmio_space_free_index := mmio_space_free_index m + len\<rparr>))"

definition clear_mmio_map :: "MMIO \<Rightarrow> MMIO" where
  "clear_mmio_map m = m\<lparr>maps := [], mmio_space_free_index := 0\<rparr>"

text \<open>The search loop of \<open>is_mmio\<close> from index \<open>i\<close>; \<open>None\<close> is the result -1.\<close>

fun is_mmio_from :: "MMIO_t list \<Rightarrow> nat \<Rightarrow> u32 \<Rightarrow> nat option" where
  "is_mmio_from [] i addr = None"
| "is_mmio_from (r # rs) i addr =
     (if addr \<ge> low r \<and> addr \<le> high r then Some i else is_mmio_from rs (Suc i) addr)"

definition is_mmio :: "MMIO \<Rightarrow> u32 \<Rightarrow> nat option" where
  "is_mmio m addr = is_mmio_from (maps m) 0 addr"

definition CTR_ROW :: nat where "CTR_ROW = 200"
definition CTR_COL :: nat where "CTR_COL = 320"

definition vga_vmem_io_handler :: "u32 \<Rightarrow> nat \<Rightarrow> bool \<Rightarrow> machine \<Rightarrow> machine" where
  "vga_vmem_io_handler addr len is_write s =
     (if is_write then
        let line = unat (addr - 0xa0000) div CTR_COL in
        if line < CTR_ROW then
          s\<lparr>vga := (vga s)\<lparr>line_dirty := (line_dirty (vga s))(line := True), vmem_dirty := True\<rparr>\<rparr>
        else s
      else s)"

fun run_mmio_callback :: "mmio_callback \<Rightarrow> u32 \<Rightarrow> nat \<Rightarrow> bool \<Rightarrow> machine \<Rightarrow> machine" where
  "run_mmio_callback Vga_vmem_io_handler addr len is_write s = vga_vmem_io_handler addr len is_write s"

definition len_ok :: "nat \<Rightarrow> bool" where "len_ok len \<longleftrightarrow> len = 1 \<or> len = 2 \<or> len = 4"

text \<open>\<open>~0u >> ((4 - len) << 3)\<close>\<close>

definition mmio_mask :: "nat \<Rightarrow> u32" where "mmio_mask len = drop_bit (8 * (4 - len)) (NOT 0)"

definition in_pool :: "u32 \<Rightarrow> nat \<Rightarrow> bool" where
  "in_pool off len \<longleftrightarrow> unat off + len \<le> unat MMIO_SPACE_MAX"

definition mmio_read :: "machine \<Rightarrow> u32 \<Rightarrow> nat \<Rightarrow> nat \<Rightarrow> (u32 \<times> machine) option" where
  "mmio_read s addr len map_NO =
     (if \<not> len_ok len then None
      else if \<not> map_NO < length (maps (mmio s)) then None
      else let m = maps (mmio s) ! map_NO; off = mmio_space m + (addr - low m) in
        if \<not> in_pool off 4 then None
        else let data = mem_get (mmio_space_pool (mmio s)) off 4 AND mmio_mask len in
          Some (data, run_mmio_callback (callback m) addr len False s))"

text \<open>\<open>memcpy_with_mask\<close> on the bytes of the pool, byte by byte from the first.\<close>

fun memcpy_with_mask :: "(u32 \<Rightarrow> u8) \<Rightarrow> u32 \<Rightarrow> u32 \<Rightarrow> nat \<Rightarrow> u32 \<Rightarrow> (u32 \<Rightarrow> u8)" where
  "memcpy_with_mask dest a src 0 mask' = dest"
| "memcpy_with_mask dest a src (Suc n) mask' =
     memcpy_with_mask (if (ucast mask' :: u8) \<noteq> 0 then dest(a := ucast src) else dest)
       (a + 1) (drop_bit 8 src) n (drop_bit 8 mask')"

definition mmio_write :: "machine \<Rightarrow> u32 \<Rightarrow> nat \<Rightarrow> u32 \<Rightarrow> nat \<Rightarrow> machine option" where
  "mmio_write s addr len data map_NO =
     (if \<not> len_ok len then None
      else if \<not> map_NO < length (maps (mmio s)) then None
      else let m = maps (mmio s) ! map_NO; off = mmio_space m + (addr - low m) in
        if \<not> in_pool off len then None
        else let pool = memcpy_with_mask (mmio_space_pool (mmio s)) off data len (mmio_mask len);
                 s = s\<lparr>mmio := (mmio s)\<lparr>mmio_space_pool := pool\<rparr>\<rparr>
             in Some (run_mmio_callback (callback m) addr len True s))"

section \<open>Physical addresses\<close>

definition paddr_read :: "machine \<Rightarrow> u32 \<Rightarrow> nat \<Rightarrow> u32 option" where
  "paddr_read s paddr len =
     (if \<not> mem_check paddr len then None
      else case is_mmio (mmio s) paddr of
        None \<Rightarrow> hw_mem_read s paddr len
      | Some map_num \<Rightarrow> map_option fst (mmio_read s paddr len map_num))"

definition paddr_write :: "machine \<Rightarrow> u32 \<Rightarrow> nat \<Rightarrow> u32 \<Rightarrow> machine option" where
  "paddr_write s paddr len data =
     (if \<not> mem_check paddr len then None
      else case is_mmio (mmio s) paddr of
        None \<Rightarrow> hw_mem_write s paddr len data
      | Some map_num \<Rightarrow> mmio_write s paddr len data map_num)"

section \<open>Paging\<close>

definition pt_present :: "u32 \<Rightarrow> bool" where "pt_present e = bit e 0"
definition pt_page_frame :: "u32 \<Rightarrow> u32" where "pt_page_frame e = bf_get 12 20 e"
definition la_offset :: "u32 \<Rightarrow> u32" where "la_offset a = bf_get 0 12 a"
definition la_page_entry_index :: "u32 \<Rightarrow> u32" where "la_page_entry_index a = bf_get 12 10 a"
definition la_page_directory_index :: "u32 \<Rightarrow> u32" where "la_page_directory_index a = bf_get 22 10 a"

definition page_translate :: "machine \<Rightarrow> u32 \<Rightarrow> u32 option" where
  "page_translate s laddr = do {
     let page_directory_base = cr3_pdbr (cr3 s);
     let PDE_addr = push_bit 12 page_directory_base + la_page_directory_index laddr * 4;
     pde \<leftarrow> paddr_read s PDE_addr 4;
     if \<not> pt_present pde then None else do {
     let PTE_addr = push_bit 12 (pt_page_frame pde) + la_page_entry_index laddr * 4;
     pte \<leftarrow> paddr_read s PTE_addr 4;
     if \<not> pt_present pte then None
     else Some (push_bit 12 (pt_page_frame pte) + la_offset laddr)
     }
   }"

section \<open>Linear addresses\<close>

definition PAGE :: "u32 \<Rightarrow> u32" where "PAGE x = x AND 0xfffff000"
definition NEXTPAGE :: "u32 \<Rightarrow> u32" where "NEXTPAGE x = (x + 4095) div 4096 * 4096"

definition to_paddr :: "machine \<Rightarrow> u32 \<Rightarrow> u32 option" where
  "to_paddr s laddr = (if cr0_pg (cr0 s) then page_translate s laddr else Some laddr)"

text \<open>
  An access that crosses a page boundary is split in two by a recursive call for each part. The
  recursion is the source's own, and diverges where the source's does (on an empty access at the
  start of a page); a shift by 32 bits or more is undefined.
\<close>

partial_function (option) laddr_read :: "machine \<Rightarrow> u32 \<Rightarrow> nat \<Rightarrow> u32 option" where
  [code]: "laddr_read s laddr len =
     (if PAGE laddr \<noteq> PAGE (laddr + of_nat len - 1) then
        let lowlen = unat (NEXTPAGE laddr - laddr) in
        do {
          low \<leftarrow> laddr_read s laddr lowlen;
          high \<leftarrow> laddr_read s (NEXTPAGE laddr) (len - lowlen);
          if 32 \<le> lowlen * 8 then None else Some (push_bit (lowlen * 8) high OR low)
        }
      else do {
        paddr \<leftarrow> to_paddr s laddr;
        paddr_read s paddr len
      })"

partial_function (option) laddr_write :: "machine \<Rightarrow> u32 \<Rightarrow> nat \<Rightarrow> u32 \<Rightarrow> machine option" where
  [code]: "laddr_write s laddr len data =
     (if PAGE laddr \<noteq> PAGE (laddr + of_nat len - 1) then
        let lowlen = unat (NEXTPAGE laddr - laddr) in
        if 32 \<le> lowlen * 8 then None else
        do {
          s' \<leftarrow> laddr_write s laddr lowlen (data AND (push_bit (lowlen * 8) 1 - 1));
          laddr_write s' (NEXTPAGE laddr) (len - lowlen) (drop_bit (lowlen * 8) data)
        }
      else do {
        paddr \<leftarrow> to_paddr s laddr;
        paddr_write s paddr len data
      })"

section \<open>Segmentation\<close>

text \<open>A segment descriptor is two 32-bit words.\<close>

record SegDesc =
  sd_val0 :: u32
  sd_val1 :: u32

definition limit_15_0 :: "SegDesc \<Rightarrow> u32" where "limit_15_0 d = bf_get 0 16 (sd_val0 d)"
definition base_15_0 :: "SegDesc \<Rightarrow> u32" where "base_15_0 d = bf_get 16 16 (sd_val0 d)"
definition base_23_16 :: "SegDesc \<Rightarrow> u32" where "base_23_16 d = bf_get 0 8 (sd_val1 d)"
definition desc_type :: "SegDesc \<Rightarrow> u32" where "desc_type d = bf_get 8 4 (sd_val1 d)"
definition segment_type :: "SegDesc \<Rightarrow> u32" where "segment_type d = bf_get 12 1 (sd_val1 d)"
definition desc_privilege_level :: "SegDesc \<Rightarrow> u32" where "desc_privilege_level d = bf_get 13 2 (sd_val1 d)"
definition limit_19_16 :: "SegDesc \<Rightarrow> u32" where "limit_19_16 d = bf_get 16 4 (sd_val1 d)"
definition desc_soft_use :: "SegDesc \<Rightarrow> u32" where "desc_soft_use d = bf_get 20 1 (sd_val1 d)"
definition granularity :: "SegDesc \<Rightarrow> u32" where "granularity d = bf_get 23 1 (sd_val1 d)"
definition base_31_24 :: "SegDesc \<Rightarrow> u32" where "base_31_24 d = bf_get 24 8 (sd_val1 d)"

definition get_base :: "SegDesc \<Rightarrow> u32" where
  "get_base desc =
     ((0 OR base_15_0 desc) OR push_bit 16 (base_23_16 desc)) OR push_bit 24 (base_31_24 desc)"

definition get_limit :: "SegDesc \<Rightarrow> u32" where
  "get_limit desc = (0 OR limit_15_0 desc) OR push_bit 16 (limit_19_16 desc)"

definition get_type :: "SegDesc \<Rightarrow> u32" where
  "get_type desc = (0 OR desc_type desc) OR push_bit 4 (segment_type desc)"

definition segment_translate :: "machine \<Rightarrow> u32 \<Rightarrow> nat \<Rightarrow> u32 option" where
  "segment_translate s offset sreg =
     (if sreg < 6 then Some (sr_base (segReg s sreg) + offset) else None)"

text \<open>The descriptor read by the unused \<open>get_seg_desc\<close>: its second word is read at \<open>desc_addr + 1\<close>.\<close>

definition get_seg_desc :: "machine \<Rightarrow> u32 \<Rightarrow> SegDesc option" where
  "get_seg_desc s index' = do {
     let desc_addr = gdtr_base s + index' * 8;
     v0 \<leftarrow> laddr_read s (desc_addr + 0) 4;
     v1 \<leftarrow> laddr_read s (desc_addr + 1) 4;
     Some \<lparr>sd_val0 = v0, sd_val1 = v1\<rparr>
   }"

definition flat_checks :: "SegDesc \<Rightarrow> bool" where
  "flat_checks desc \<longleftrightarrow> base_15_0 desc = 0 \<and> base_23_16 desc = 0 \<and> base_31_24 desc = 0 \<and>
     limit_15_0 desc = push_bit 16 1 - 1 \<and> limit_19_16 desc = push_bit 4 1 - 1 \<and> granularity desc = 1"

definition load_sreg :: "nat \<Rightarrow> machine \<Rightarrow> machine option" where
  "load_sreg sreg s =
     (if \<not> sreg \<le> 5 then None else do {
        let reg = segReg s sreg;
        let index' = sel_index (sr_val reg);
        let desc_addr = gdtr_base s + index' * 8;
        v0 \<leftarrow> laddr_read s (desc_addr + 0) 4;
        v1 \<leftarrow> laddr_read s (desc_addr + 4) 4;
        let desc = \<lparr>sd_val0 = v0, sd_val1 = v1\<rparr>;
        if \<not> flat_checks desc then None
        else Some (s\<lparr>segReg := (segReg s)(sreg :=
          reg\<lparr>sr_base := get_base desc, sr_limit := get_limit desc, sr_type := get_type desc,
              sr_privilege_level := desc_privilege_level desc, sr_soft_use := desc_soft_use desc\<rparr>)\<rparr>)
      })"

section \<open>Virtual addresses\<close>

text \<open>
  Addresses from \<open>QDISK_BASE\<close> up are a window on the disk file: \<open>fread\<close> stores the bytes that
  the file has there into an uninitialised variable, whose other bytes are \<open>stack_junk\<close>. The file
  is opened for reading only, so that the \<open>fwrite\<close> of a write changes nothing.
\<close>

definition disk_byte :: "machine \<Rightarrow> nat \<Rightarrow> nat \<Rightarrow> nat \<Rightarrow> u8" where
  "disk_byte s pos len i =
     (if i < len \<and> pos + i < length (disk_data (ide s)) then disk_data (ide s) ! (pos + i)
      else ucast (drop_bit (8 * i) (stack_junk s)))"

definition disk_word :: "machine \<Rightarrow> nat \<Rightarrow> nat \<Rightarrow> u32" where
  "disk_word s pos len =
     ucast (disk_byte s pos len 0) OR push_bit 8 (ucast (disk_byte s pos len 1)) OR
     push_bit 16 (ucast (disk_byte s pos len 2)) OR push_bit 24 (ucast (disk_byte s pos len 3))"

definition to_laddr :: "machine \<Rightarrow> u32 \<Rightarrow> nat \<Rightarrow> u32 option" where
  "to_laddr s vaddr sreg = (if cr0_pe (cr0 s) then segment_translate s vaddr sreg else Some vaddr)"

definition vaddr_read :: "machine \<Rightarrow> u32 \<Rightarrow> nat \<Rightarrow> nat \<Rightarrow> u32 option" where
  "vaddr_read s vaddr sreg len =
     (if \<not> len_ok len then None
      else if vaddr \<ge> QDISK_BASE then Some (disk_word s (unat (vaddr - QDISK_BASE)) len)
      else do {
        laddr \<leftarrow> to_laddr s vaddr sreg;
        laddr_read s laddr len
      })"

definition vaddr_write :: "machine \<Rightarrow> u32 \<Rightarrow> nat \<Rightarrow> nat \<Rightarrow> u32 \<Rightarrow> machine option" where
  "vaddr_write s vaddr sreg len data =
     (if \<not> len_ok len then None
      else if vaddr \<ge> QDISK_BASE then Some s
      else do {
        laddr \<leftarrow> to_laddr s vaddr sreg;
        laddr_write s laddr len data
      })"

definition instr_fetch :: "machine \<Rightarrow> u32 \<Rightarrow> nat \<Rightarrow> u32 option" where
  "instr_fetch s vaddr len = (if \<not> len_ok len then None else vaddr_read s vaddr SREG_CS len)"

end
