(* ===== verification/Operand.thy ===== *)
theory Operand
  imports Memory
begin

text \<open>
  \<open>nemu/src/cpu/decode/operand.c\<close>, \<open>modrm.c\<close>, \<open>sib.c\<close>, the register lookup of \<open>cpu/reg.c\<close> and
  the operand decoders of \<open>nemu/include/cpu/instr_helper.h\<close>. An operand is a value that the
  functions take and return; the two global operands \<open>opr_src\<close> and \<open>opr_dest\<close> are in the
  machine. The emulator runs with \<open>verbose = false\<close>: what it only prints is left out.
\<close>

section \<open>Reading and writing an operand\<close>

definition cut_size :: "nat \<Rightarrow> u32 \<Rightarrow> u32 option" where
  "cut_size n v =
     (if n = 8 then Some (v AND 0xff) else if n = 16 then Some (v AND 0xffff)
      else if n = 32 then Some v else None)"

definition reg_read :: "machine \<Rightarrow> u32 \<Rightarrow> nat \<Rightarrow> u32 option" where
  "reg_read s addr n =
     (if \<not> addr < 8 then None
      else if n = 8 then Some (ucast (gpr_8 (unat addr div 4) (gpr s (unat addr mod 4))))
      else Some (gpr s (unat addr)))"

definition operand_read :: "OPERAND \<Rightarrow> machine \<Rightarrow> OPERAND option" where
  "operand_read opr s = do {
     v \<leftarrow> (case o_type opr of
       OPR_MEM \<Rightarrow> vaddr_read s (o_addr opr) (o_sreg opr) (o_size opr div 8)
     | OPR_IMM \<Rightarrow> vaddr_read s (o_addr opr) SREG_CS (o_size opr div 8)
     | OPR_REG \<Rightarrow> reg_read s (o_addr opr) (o_size opr)
     | OPR_CREG \<Rightarrow> (if o_addr opr = 0 then Some (cr0 s) else if o_addr opr = 3 then Some (cr3 s) else None)
     | OPR_SREG \<Rightarrow> (if o_addr opr < 6 then Some (ucast (sr_val (segReg s (unat (o_addr opr))))) else None));
     v \<leftarrow> cut_size (o_size opr) v;
     Some (opr\<lparr>o_val := v\<rparr>)
   }"

definition reg_write :: "u32 \<Rightarrow> nat \<Rightarrow> u32 \<Rightarrow> machine \<Rightarrow> machine option" where
  "reg_write addr n v s =
     (if \<not> addr < 8 then None
      else if n = 8 then
        let r = unat addr mod 4 in Some (set_gpr r (put_gpr_8 (unat addr div 4) (ucast v) (gpr s r)) s)
      else if n = 16 then let r = unat addr in Some (set_gpr r (put_gpr_16 (ucast v) (gpr s r)) s)
      else if n = 32 then Some (set_gpr (unat addr) v s)
      else None)"

definition operand_write :: "OPERAND \<Rightarrow> machine \<Rightarrow> machine option" where
  "operand_write opr s =
     (case o_type opr of
       OPR_MEM \<Rightarrow> vaddr_write s (o_addr opr) (o_sreg opr) (o_size opr div 8) (o_val opr)
     | OPR_REG \<Rightarrow> reg_write (o_addr opr) (o_size opr) (o_val opr) s
     | OPR_IMM \<Rightarrow> None
     | OPR_CREG \<Rightarrow> (if o_addr opr = 0 then Some (s\<lparr>cr0 := o_val opr\<rparr>)
                    else if o_addr opr = 3 then Some (s\<lparr>cr3 := o_val opr\<rparr>) else None)
     | OPR_SREG \<Rightarrow> (if o_addr opr < 6 then
          let r = unat (o_addr opr) in
          Some (s\<lparr>segReg := (segReg s)(r := (segReg s r)\<lparr>sr_val := ucast (o_val opr)\<rparr>)\<rparr>)
        else None))"

section \<open>SIB and ModR/M\<close>

definition sib_base :: "u8 \<Rightarrow> nat" where "sib_base v = unat (bf_get 0 3 v)"
definition sib_index :: "u8 \<Rightarrow> nat" where "sib_index v = unat (bf_get 3 3 v)"
definition sib_ss :: "u8 \<Rightarrow> nat" where "sib_ss v = unat (bf_get 6 2 v)"

definition modrm_rm_field :: "u8 \<Rightarrow> nat" where "modrm_rm_field v = unat (bf_get 0 3 v)"
definition modrm_reg_opcode :: "u8 \<Rightarrow> nat" where "modrm_reg_opcode v = unat (bf_get 3 3 v)"
definition modrm_mod :: "u8 \<Rightarrow> nat" where "modrm_mod v = unat (bf_get 6 2 v)"

text \<open>Setting one component of the operand's address for display.\<close>

definition put_disp :: "u32 \<Rightarrow> OPERAND \<Rightarrow> OPERAND" where
  "put_disp v opr = opr\<lparr>o_mem_addr := (o_mem_addr opr)\<lparr>disp := v\<rparr>\<rparr>"
definition put_base :: "nat \<Rightarrow> OPERAND \<Rightarrow> OPERAND" where
  "put_base v opr = opr\<lparr>o_mem_addr := (o_mem_addr opr)\<lparr>base := of_nat v\<rparr>\<rparr>"
definition put_index_scale :: "nat \<Rightarrow> u32 \<Rightarrow> OPERAND \<Rightarrow> OPERAND" where
  "put_index_scale i sc opr = opr\<lparr>o_mem_addr := (o_mem_addr opr)\<lparr>index := of_nat i, scale := sc\<rparr>\<rparr>"

definition parse_sib :: "u32 \<Rightarrow> nat \<Rightarrow> OPERAND \<Rightarrow> machine \<Rightarrow> (u32 \<times> OPERAND) option" where
  "parse_sib pc md opr s = do {
     b \<leftarrow> instr_fetch s pc 1;
     let sib = (ucast b :: u8);
     let opr = opr\<lparr>o_sreg := (if sib_base sib = 5 \<or> sib_base sib = 4 then SREG_SS else SREG_DS)\<rparr>;
     let (idx, opr) =
       (if sib_index sib \<noteq> 4 then
          (gpr s (sib_index sib) * 2 ^ sib_ss sib, put_index_scale (sib_index sib) (2 ^ sib_ss sib) opr)
        else (0, opr));
     if md = 0 \<and> sib_base sib = 5 then do {
       disp32 \<leftarrow> instr_fetch s (pc + 1) 4;
       Some (5, put_disp disp32 (opr\<lparr>o_addr := idx + disp32\<rparr>))
     }
     else if md = 0 \<or> md = 1 \<or> md = 2 then
       Some (1, put_base (sib_base sib) (opr\<lparr>o_addr := gpr s (sib_base sib) + idx\<rparr>))
     else None
   }"

definition case_mod_00 :: "u32 \<Rightarrow> u8 \<Rightarrow> OPERAND \<Rightarrow> machine \<Rightarrow> (u32 \<times> OPERAND) option" where
  "case_mod_00 pc modrm opr s =
     (let len = 0; rm = modrm_rm_field modrm in
      if rm = 4 then do {
        (n, opr) \<leftarrow> parse_sib (pc + 1) (modrm_mod modrm) (opr\<lparr>o_type := OPR_MEM\<rparr>) s;
        Some (len + n, opr)
      }
      else if rm = 5 then do {
        d \<leftarrow> instr_fetch s (pc + 1) 4;
        Some (len + 4, put_disp d (opr\<lparr>o_type := OPR_MEM, o_sreg := SREG_DS, o_addr := d\<rparr>))
      }
      else Some (len, put_base rm (opr\<lparr>o_type := OPR_MEM, o_sreg := SREG_DS, o_addr := gpr s rm\<rparr>)))"

definition case_mod_01 :: "u32 \<Rightarrow> u8 \<Rightarrow> OPERAND \<Rightarrow> machine \<Rightarrow> (u32 \<times> OPERAND) option" where
  "case_mod_01 pc modrm opr s =
     (let len = 0; rm = modrm_rm_field modrm in do {
        (len, opr, disp8) \<leftarrow>
          (if rm = 4 then do {
             (n, opr) \<leftarrow> parse_sib (pc + 1) (modrm_mod modrm) (opr\<lparr>o_type := OPR_MEM\<rparr>) s;
             d \<leftarrow> instr_fetch s (pc + 2) 1;
             Some (len + n + 1, opr, ucast d :: u8)
           }
           else do {
             d \<leftarrow> instr_fetch s (pc + 1) 1;
             Some (len + 1, put_base rm (opr\<lparr>o_type := OPR_MEM, o_addr := gpr s rm,
                     o_sreg := (if rm = 5 then SREG_SS else SREG_DS)\<rparr>), ucast d)
           });
        Some (len, put_disp (scast disp8) (opr\<lparr>o_addr := scast disp8 + o_addr opr\<rparr>))
      })"

definition case_mod_10 :: "u32 \<Rightarrow> u8 \<Rightarrow> OPERAND \<Rightarrow> machine \<Rightarrow> (u32 \<times> OPERAND) option" where
  "case_mod_10 pc modrm opr s =
     (let len = 0; rm = modrm_rm_field modrm in do {
        (len, opr, disp32) \<leftarrow>
          (if rm = 4 then do {
             (n, opr) \<leftarrow> parse_sib (pc + 1) (modrm_mod modrm) (opr\<lparr>o_type := OPR_MEM\<rparr>) s;
             d \<leftarrow> instr_fetch s (pc + 2) 4;
             Some (len + n + 4, opr, d)
           }
           else do {
             d \<leftarrow> instr_fetch s (pc + 1) 4;
             Some (len + 4, put_base rm (opr\<lparr>o_type := OPR_MEM, o_addr := gpr s rm,
                     o_sreg := (if rm = 5 then SREG_SS else SREG_DS)\<rparr>), d)
           });
        Some (len, put_disp disp32 (opr\<lparr>o_addr := disp32 + o_addr opr\<rparr>))
      })"

definition case_mod_11 :: "u8 \<Rightarrow> OPERAND \<Rightarrow> (u32 \<times> OPERAND) option" where
  "case_mod_11 modrm opr = Some (0, opr\<lparr>o_type := OPR_REG, o_addr := of_nat (modrm_rm_field modrm)\<rparr>)"

definition parse_rm_32 :: "u32 \<Rightarrow> u8 \<Rightarrow> OPERAND \<Rightarrow> machine \<Rightarrow> (u32 \<times> OPERAND) option" where
  "parse_rm_32 pc modrm opr s = do {
     let len = 1;
     (n, opr) \<leftarrow>
       (if modrm_mod modrm = 0 then case_mod_00 pc modrm opr s
        else if modrm_mod modrm = 1 then case_mod_01 pc modrm opr s
        else if modrm_mod modrm = 2 then case_mod_10 pc modrm opr s
        else case_mod_11 modrm opr);
     Some (len + n, opr)
   }"

definition modrm_r_rm :: "u32 \<Rightarrow> OPERAND \<Rightarrow> OPERAND \<Rightarrow> machine \<Rightarrow> (u32 \<times> OPERAND \<times> OPERAND) option" where
  "modrm_r_rm pc r rm s = do {
     b \<leftarrow> instr_fetch s pc 1;
     let modrm = (ucast b :: u8);
     let r = r\<lparr>o_type := OPR_REG, o_addr := of_nat (modrm_reg_opcode modrm)\<rparr>;
     (len, rm) \<leftarrow> parse_rm_32 pc modrm rm s;
     Some (len, r, rm)
   }"

definition modrm_opcode_rm :: "u32 \<Rightarrow> OPERAND \<Rightarrow> machine \<Rightarrow> (u32 \<times> u8 \<times> OPERAND) option" where
  "modrm_opcode_rm pc rm s = do {
     b \<leftarrow> instr_fetch s pc 1;
     let modrm = (ucast b :: u8);
     (len, rm) \<leftarrow> parse_rm_32 pc modrm rm s;
     Some (len, of_nat (modrm_reg_opcode modrm), rm)
   }"

definition modrm_opcode :: "u32 \<Rightarrow> machine \<Rightarrow> (u32 \<times> u8) option" where
  "modrm_opcode pc s = do {
     b \<leftarrow> instr_fetch s pc 1;
     let modrm = (ucast b :: u8);
     Some (1, of_nat (modrm_reg_opcode modrm))
   }"

definition modrm_rm :: "u32 \<Rightarrow> OPERAND \<Rightarrow> machine \<Rightarrow> (u32 \<times> OPERAND) option" where
  "modrm_rm pc rm s = do {
     b \<leftarrow> instr_fetch s pc 1;
     let modrm = (ucast b :: u8);
     parse_rm_32 pc modrm rm s
   }"

section \<open>Register names\<close>

definition reg_names_l :: "string list" where
  "reg_names_l = [''eax'', ''ecx'', ''edx'', ''ebx'', ''esp'', ''ebp'', ''esi'', ''edi'']"
definition reg_names_w :: "string list" where
  "reg_names_w = [''ax'', ''cx'', ''dx'', ''bx'', ''sp'', ''bp'', ''si'', ''di'']"
definition reg_names_b :: "string list" where
  "reg_names_b = [''al'', ''cl'', ''dl'', ''bl'', ''ah'', ''ch'', ''dh'', ''bh'']"

fun find_name :: "string list \<Rightarrow> nat \<Rightarrow> string \<Rightarrow> nat option" where
  "find_name [] i reg = None"
| "find_name (n # ns) i reg = (if n = reg then Some i else find_name ns (Suc i) reg)"

text \<open>The result and the flag \<open>*success\<close>.\<close>

definition get_reg_val :: "machine \<Rightarrow> string \<Rightarrow> u32 \<times> bool" where
  "get_reg_val s reg =
     (case find_name reg_names_l 0 reg of Some i \<Rightarrow> (gpr s i, True) | None \<Rightarrow>
     (case find_name reg_names_w 0 reg of Some i \<Rightarrow> (ucast (gpr_16 (gpr s i)), True) | None \<Rightarrow>
     (case find_name reg_names_b 0 reg of Some i \<Rightarrow> (ucast (gpr_8 (i div 4) (gpr s (i mod 4))), True) | None \<Rightarrow>
      if reg = ''eip'' then (eip s, True)
      else if reg = ''eflags'' then (eflags s, True)
      else (0, False))))"

section \<open>Instruction entries\<close>

type_synonym instr_func = "u32 \<Rightarrow> u8 \<Rightarrow> machine \<Rightarrow> (u32 \<times> machine) option"

text \<open>
  A local operand starts with indeterminate contents; only its value is ever read before it is
  written. The two most frequent initialisations of one.
\<close>

definition fresh :: "machine \<Rightarrow> OPERAND" where "fresh s = OPERAND0\<lparr>o_val := stack_junk s\<rparr>"

definition local_opr :: "machine \<Rightarrow> nat \<Rightarrow> OPERAND" where "local_opr s n = (fresh s)\<lparr>o_size := n\<rparr>"

definition reg_opr :: "machine \<Rightarrow> u32 \<Rightarrow> nat \<Rightarrow> OPERAND" where
  "reg_opr s r n = (fresh s)\<lparr>o_type := OPR_REG, o_addr := r, o_size := n\<rparr>"

definition imm_opr :: "machine \<Rightarrow> u32 \<Rightarrow> nat \<Rightarrow> OPERAND" where
  "imm_opr s a n = (fresh s)\<lparr>o_type := OPR_IMM, o_addr := a, o_size := n\<rparr>"

definition mem_opr :: "machine \<Rightarrow> nat \<Rightarrow> u32 \<Rightarrow> nat \<Rightarrow> OPERAND" where
  "mem_opr s sr a n = (fresh s)\<lparr>o_type := OPR_MEM, o_sreg := sr, o_addr := a, o_size := n\<rparr>"

text \<open>A call of an ALU function, which works on \<open>cpu.eflags\<close>.\<close>

definition alu2 :: "(u32 \<Rightarrow> u32 \<Rightarrow> nat \<Rightarrow> u32 \<Rightarrow> 'r \<times> u32) \<Rightarrow> u32 \<Rightarrow> u32 \<Rightarrow> nat \<Rightarrow> machine \<Rightarrow> 'r \<times> machine" where
  "alu2 f a b n s = (let (r, ef) = f a b n (eflags s) in (r, s\<lparr>eflags := ef\<rparr>))"

definition alu2_opt ::
  "(u32 \<Rightarrow> u32 \<Rightarrow> nat \<Rightarrow> u32 \<Rightarrow> ('r \<times> u32) option) \<Rightarrow> u32 \<Rightarrow> u32 \<Rightarrow> nat \<Rightarrow> machine \<Rightarrow> ('r \<times> machine) option" where
  "alu2_opt f a b n s = map_option (\<lambda>(r, ef). (r, s\<lparr>eflags := ef\<rparr>)) (f a b n (eflags s))"

section \<open>The decoders of the instruction macros\<close>

datatype suffix = sf_b | sf_w | sf_l | sf_v | sf_bv | sf_short | sf_near

definition set_sizes :: "nat \<Rightarrow> nat \<Rightarrow> machine \<Rightarrow> machine" where
  "set_sizes a b s = s\<lparr>opr_src := (opr_src s)\<lparr>o_size := a\<rparr>, opr_dest := (opr_dest s)\<lparr>o_size := b\<rparr>\<rparr>"

fun decode_data_size :: "suffix \<Rightarrow> machine \<Rightarrow> machine" where
  "decode_data_size sf_b s = set_sizes 8 8 s"
| "decode_data_size sf_w s = set_sizes 16 16 s"
| "decode_data_size sf_l s = set_sizes 32 32 s"
| "decode_data_size sf_v s = set_sizes (data_size s) (data_size s) s"
| "decode_data_size sf_bv s = set_sizes 8 (data_size s) s"
| "decode_data_size sf_short s = set_sizes 8 8 s"
| "decode_data_size sf_near s = set_sizes 32 32 s"

type_synonym decoder = "u32 \<Rightarrow> u8 \<Rightarrow> u32 \<Rightarrow> machine \<Rightarrow> (u32 \<times> machine) option"

definition size_bytes :: "OPERAND \<Rightarrow> u32" where "size_bytes opr = of_nat (o_size opr div 8)"

definition decode_operand_rm :: decoder where
  "decode_operand_rm pc opcode len s = do {
     (n, src) \<leftarrow> modrm_rm (pc + 1) (opr_src s) s;
     Some (len + n, s\<lparr>opr_src := src\<rparr>)
   }"

definition decode_operand_r :: decoder where
  "decode_operand_r pc opcode len s =
     Some (len, s\<lparr>opr_src := (opr_src s)\<lparr>o_type := OPR_REG, o_addr := ucast (opcode AND 7)\<rparr>\<rparr>)"

definition decode_operand_a :: decoder where
  "decode_operand_a pc opcode len s =
     Some (len, s\<lparr>opr_src := (opr_src s)\<lparr>o_type := OPR_REG, o_addr := REG_AL\<rparr>\<rparr>)"

definition decode_operand_i :: decoder where
  "decode_operand_i pc opcode len s =
     (let src = (opr_src s)\<lparr>o_type := OPR_IMM, o_sreg := SREG_CS, o_addr := pc + 1\<rparr>
      in Some (len + size_bytes src, s\<lparr>opr_src := src\<rparr>))"

definition decode_operand_r2rm :: decoder where
  "decode_operand_r2rm pc opcode len s = do {
     (n, src, dest) \<leftarrow> modrm_r_rm (pc + 1) (opr_src s) (opr_dest s) s;
     Some (len + n, s\<lparr>opr_src := src, opr_dest := dest\<rparr>)
   }"

definition decode_operand_rm2r :: decoder where
  "decode_operand_rm2r pc opcode len s = do {
     (n, dest, src) \<leftarrow> modrm_r_rm (pc + 1) (opr_dest s) (opr_src s) s;
     Some (len + n, s\<lparr>opr_src := src, opr_dest := dest\<rparr>)
   }"

definition decode_operand_i2rm :: decoder where
  "decode_operand_i2rm pc opcode len s = do {
     (n, dest) \<leftarrow> modrm_rm (pc + 1) (opr_dest s) s;
     let len = len + n;
     let src = (opr_src s)\<lparr>o_type := OPR_IMM, o_sreg := SREG_CS, o_addr := pc + len\<rparr>;
     Some (len + size_bytes src, s\<lparr>opr_src := src, opr_dest := dest\<rparr>)
   }"

definition decode_operand_i2r :: decoder where
  "decode_operand_i2r pc opcode len s =
     (let len = len + size_bytes (opr_src s);
          src = (opr_src s)\<lparr>o_type := OPR_IMM, o_sreg := SREG_CS, o_addr := pc + 1\<rparr>;
          dest = (opr_dest s)\<lparr>o_type := OPR_REG, o_addr := ucast (opcode AND 7)\<rparr>
      in Some (len, s\<lparr>opr_src := src, opr_dest := dest\<rparr>))"

definition decode_operand_i2a :: decoder where
  "decode_operand_i2a pc opcode len s =
     (let src = (opr_src s)\<lparr>o_type := OPR_IMM, o_sreg := SREG_CS, o_addr := pc + 1\<rparr>;
          dest = (opr_dest s)\<lparr>o_type := OPR_REG, o_addr := REG_AL\<rparr>
      in Some (len + size_bytes src, s\<lparr>opr_src := src, opr_dest := dest\<rparr>))"

definition decode_operand_c2rm :: decoder where
  "decode_operand_c2rm pc opcode len s = do {
     (n, dest) \<leftarrow> modrm_rm (pc + 1) (opr_dest s) s;
     let src = (opr_src s)\<lparr>o_type := OPR_REG, o_addr := REG_CL\<rparr>;
     Some (len + n, s\<lparr>opr_src := src, opr_dest := dest\<rparr>)
   }"

definition decode_operand_o2a :: decoder where
  "decode_operand_o2a pc opcode len s = do {
     a \<leftarrow> instr_fetch s (pc + 1) 4;
     let src = (opr_src s)\<lparr>o_type := OPR_MEM, o_sreg := SREG_DS, o_addr := a\<rparr>;
     let dest = (opr_dest s)\<lparr>o_type := OPR_REG, o_addr := REG_AL\<rparr>;
     Some (len + 4, s\<lparr>opr_src := src, opr_dest := dest\<rparr>)
   }"

definition decode_operand_a2o :: decoder where
  "decode_operand_a2o pc opcode len s = do {
     a \<leftarrow> instr_fetch s (pc + 1) 4;
     let dest = (opr_dest s)\<lparr>o_type := OPR_MEM, o_sreg := SREG_DS, o_addr := a\<rparr>;
     let src = (opr_src s)\<lparr>o_type := OPR_REG, o_addr := REG_AL\<rparr>;
     Some (len + 4, s\<lparr>opr_src := src, opr_dest := dest\<rparr>)
   }"

text \<open>
  \<open>make_instr_impl_1op\<close>, \<open>make_instr_impl_2op\<close> (the macros differ only in what they print) and
  their variants with a condition.
\<close>

definition make_instr_impl :: "decoder \<Rightarrow> suffix \<Rightarrow> (machine \<Rightarrow> machine option) \<Rightarrow> instr_func" where
  "make_instr_impl decode sf execute pc opcode s = do {
     let len = 1;
     let s = decode_data_size sf s;
     (len, s) \<leftarrow> decode pc opcode len s;
     s \<leftarrow> execute s;
     Some (len, s)
   }"

definition make_instr_impl_cc ::
  "decoder \<Rightarrow> suffix \<Rightarrow> (machine \<Rightarrow> bool) \<Rightarrow> (machine \<Rightarrow> machine option) \<Rightarrow> (machine \<Rightarrow> machine option) \<Rightarrow> instr_func" where
  "make_instr_impl_cc decode sf cond pass fail pc opcode s = do {
     let len = 1;
     let s = decode_data_size sf s;
     (len, s) \<leftarrow> decode pc opcode len s;
     s \<leftarrow> (if cond s then pass s else fail s);
     Some (len, s)
   }"

definition read_src :: "machine \<Rightarrow> machine option" where
  "read_src s = map_option (\<lambda>opr. s\<lparr>opr_src := opr\<rparr>) (operand_read (opr_src s) s)"

definition read_dest :: "machine \<Rightarrow> machine option" where
  "read_dest s = map_option (\<lambda>opr. s\<lparr>opr_dest := opr\<rparr>) (operand_read (opr_dest s) s)"

definition set_src_val :: "u32 \<Rightarrow> machine \<Rightarrow> machine" where
  "set_src_val v s = s\<lparr>opr_src := (opr_src s)\<lparr>o_val := v\<rparr>\<rparr>"

definition set_dest_val :: "u32 \<Rightarrow> machine \<Rightarrow> machine" where
  "set_dest_val v s = s\<lparr>opr_dest := (opr_dest s)\<lparr>o_val := v\<rparr>\<rparr>"

section \<open>Conditions\<close>

definition condition_e :: "machine \<Rightarrow> bool" where "condition_e s = ZF (eflags s)"
definition condition_a :: "machine \<Rightarrow> bool" where "condition_a s = (\<not> CF (eflags s) \<and> \<not> ZF (eflags s))"
definition condition_ae :: "machine \<Rightarrow> bool" where "condition_ae s = (\<not> CF (eflags s))"
definition condition_b :: "machine \<Rightarrow> bool" where "condition_b s = CF (eflags s)"
definition condition_be :: "machine \<Rightarrow> bool" where "condition_be s = (CF (eflags s) \<or> ZF (eflags s))"
definition condition_o :: "machine \<Rightarrow> bool" where "condition_o s = OF (eflags s)"
definition condition_p :: "machine \<Rightarrow> bool" where "condition_p s = PF (eflags s)"
definition condition_s :: "machine \<Rightarrow> bool" where "condition_s s = SF (eflags s)"
definition condition_ne :: "machine \<Rightarrow> bool" where "condition_ne s = (\<not> ZF (eflags s))"
definition condition_na :: "machine \<Rightarrow> bool" where "condition_na s = (CF (eflags s) \<or> ZF (eflags s))"
definition condition_no :: "machine \<Rightarrow> bool" where "condition_no s = (\<not> OF (eflags s))"
definition condition_np :: "machine \<Rightarrow> bool" where "condition_np s = (\<not> PF (eflags s))"
definition condition_ns :: "machine \<Rightarrow> bool" where "condition_ns s = (\<not> SF (eflags s))"
definition condition_g :: "machine \<Rightarrow> bool" where
  "condition_g s = (\<not> ZF (eflags s) \<and> SF (eflags s) = OF (eflags s))"
definition condition_ge :: "machine \<Rightarrow> bool" where "condition_ge s = (SF (eflags s) = OF (eflags s))"
definition condition_l :: "machine \<Rightarrow> bool" where "condition_l s = (SF (eflags s) \<noteq> OF (eflags s))"
definition condition_le :: "machine \<Rightarrow> bool" where
  "condition_le s = (ZF (eflags s) \<or> SF (eflags s) \<noteq> OF (eflags s))"
definition condition_ecxz :: "machine \<Rightarrow> bool" where "condition_ecxz s = (ecx s = 0)"
definition condition_c :: "machine \<Rightarrow> bool" where "condition_c s = CF (eflags s)"

lemmas condition_defs = condition_e_def condition_a_def condition_ae_def condition_b_def condition_be_def
  condition_o_def condition_p_def condition_s_def condition_ne_def condition_na_def condition_no_def
  condition_np_def condition_ns_def condition_g_def condition_ge_def condition_l_def condition_le_def
  condition_ecxz_def condition_c_def

end
