(* ===== verification/Alu.thy ===== *)
theory Alu
  imports Nemu_State
begin

text \<open>
  \<open>nemu/src/cpu/alu.c\<close>: the arithmetic and logic unit. The source works on the global
  \<open>cpu.eflags\<close>; here each function takes the value of EFLAGS last and returns the new one
  with its result. \<open>i32\<close>, \<open>u32\<close> arguments are 32-bit words; a conversion of a signed
  argument to \<open>u64\<close> is \<open>scast\<close>, of an unsigned one \<open>ucast\<close>. Signed overflow wraps, as
  the compiled code does. A failed \<open>assert\<close> is \<open>None\<close>.
\<close>

section \<open>Helpers\<close>

definition positive :: "u32 \<Rightarrow> nat \<Rightarrow> bool" where
  "positive x sz = (let sign_bit = (ucast (signed_drop_bit (sz - 1) x) :: u8) in sign_bit = 0)"

definition cut :: "u64 \<Rightarrow> nat \<Rightarrow> u64" where
  "cut x sz = (if sz = 64 then x else x AND (push_bit sz 1 - 1))"

text \<open>\<open>cut\<close> between 32-bit variables: of an \<open>i32\<close> (sign-extended by the call) and of a \<open>u32\<close>.\<close>

definition cut_i32 :: "u32 \<Rightarrow> nat \<Rightarrow> u32" where "cut_i32 x sz = ucast (cut (scast x) sz)"
definition cut_u32 :: "u32 \<Rightarrow> nat \<Rightarrow> u32" where "cut_u32 x sz = ucast (cut (ucast x) sz)"

definition set_OF_add :: "u32 \<Rightarrow> u32 \<Rightarrow> nat \<Rightarrow> u32 \<Rightarrow> u32" where
  "set_OF_add a b sz ef =
     (let a = cut_i32 a sz; b = cut_i32 b sz; r = cut_i32 (a + b) sz
      in put_OF (positive a sz = positive b sz \<and> positive r sz \<noteq> positive a sz) ef)"

definition set_OF_sub :: "u32 \<Rightarrow> u32 \<Rightarrow> u32 \<Rightarrow> nat \<Rightarrow> u32 \<Rightarrow> u32" where
  "set_OF_sub a b result sz ef =
     (let a = cut_i32 a sz; b = cut_i32 b sz
      in put_OF (positive a sz \<noteq> positive b sz \<and> positive a sz \<noteq> positive result sz) ef)"

definition set_SF :: "u32 \<Rightarrow> nat \<Rightarrow> u32 \<Rightarrow> u32" where
  "set_SF result sz ef = (if positive result sz then put_SF False ef else put_SF True ef)"

definition set_ZF :: "u32 \<Rightarrow> nat \<Rightarrow> u32 \<Rightarrow> u32" where
  "set_ZF result sz ef = (let result = cut_i32 result sz in put_ZF (result = 0) ef)"

definition set_CF_add :: "u32 \<Rightarrow> u32 \<Rightarrow> nat \<Rightarrow> u32 \<Rightarrow> u32" where
  "set_CF_add a b sz ef =
     (let a = cut_u32 a sz; b = cut_u32 b sz; r = cut_u32 (a + b) sz in put_CF (r < a) ef)"

definition set_CF_sub :: "u32 \<Rightarrow> u32 \<Rightarrow> nat \<Rightarrow> u32 \<Rightarrow> u32" where
  "set_CF_sub a b sz ef = put_CF (a < b) ef"

text \<open>The loop of \<open>set_PF\<close> over the low eight bits.\<close>

fun PF_count :: "nat \<Rightarrow> u8 \<Rightarrow> u32 \<Rightarrow> u8" where
  "PF_count 0 count x = count"
| "PF_count (Suc n) count x =
     PF_count n (if x AND 1 \<noteq> 0 then count + 1 else count) (drop_bit 1 x)"

definition set_PF :: "u32 \<Rightarrow> u32 \<Rightarrow> u32" where
  "set_PF x ef = (let count = PF_count 8 0 x in put_PF (count mod 2 \<noteq> 1) ef)"

section \<open>Addition and subtraction\<close>

definition alu_add :: "u32 \<Rightarrow> u32 \<Rightarrow> nat \<Rightarrow> u32 \<Rightarrow> u32 \<times> u32" where
  "alu_add src dest sz ef =
     (let result = src + dest;
          result = cut_u32 result sz;
          ef = set_OF_add src dest sz ef;
          ef = set_SF result sz ef;
          ef = set_ZF result sz ef;
          ef = set_CF_add src dest sz ef;
          ef = set_PF result ef
      in (result, ef))"

definition alu_adc :: "u32 \<Rightarrow> u32 \<Rightarrow> nat \<Rightarrow> u32 \<Rightarrow> u32 \<times> u32" where
  "alu_adc src dest sz ef =
     (let src = cut_u32 src sz;
          dest = cut_u32 dest sz;
          (a, ef) = alu_add src (of_bool (CF ef)) sz ef;
          CF_backup = CF ef;
          (b, ef) = alu_add a dest sz ef;
          ef = put_CF (CF ef \<or> CF_backup) ef;
          ef = put_OF (positive src sz = positive dest sz \<and> positive src sz \<noteq> positive b sz) ef
      in (b, ef))"

definition alu_sub :: "u32 \<Rightarrow> u32 \<Rightarrow> nat \<Rightarrow> u32 \<Rightarrow> u32 \<times> u32" where
  "alu_sub src dest sz ef =
     (let src = cut_u32 src sz;
          dest = cut_u32 dest sz;
          (result, ef) = alu_add dest (- src) sz ef;
          ef = set_OF_sub dest src result sz ef;
          ef = set_SF result sz ef;
          ef = set_ZF result sz ef;
          ef = set_PF result ef;
          ef = set_CF_sub dest src sz ef
      in (result, ef))"

definition alu_sbb :: "u32 \<Rightarrow> u32 \<Rightarrow> nat \<Rightarrow> u32 \<Rightarrow> u32 \<times> u32" where
  "alu_sbb src dest sz ef =
     (let src = cut_u32 src sz;
          dest = cut_u32 dest sz;
          CF_backup = CF ef;
          (a, ef) = alu_sub src dest sz ef;
          stage1_cf = CF ef;
          (result, ef) = alu_sub (of_bool CF_backup) a sz ef;
          ef = set_OF_sub dest src result sz ef;
          ef = set_SF result sz ef;
          ef = set_ZF result sz ef;
          ef = set_PF result ef;
          ef = put_CF (CF ef \<or> stage1_cf) ef
      in (result, ef))"

section \<open>Sign extension, multiplication and division\<close>

definition sign_ext :: "u32 \<Rightarrow> nat \<Rightarrow> u32 option" where
  "sign_ext x sz =
     (if sz = 16 \<or> sz = 8 \<or> sz = 32 then
        Some (if sz = 8 then scast (ucast (x AND 0xff) :: u8)
              else if sz = 16 then scast (ucast (x AND 0xffff) :: u16)
              else x)
      else None)"

definition sign_ext_64 :: "u32 \<Rightarrow> nat \<Rightarrow> u64 option" where
  "sign_ext_64 x sz =
     (if sz = 16 \<or> sz = 8 \<or> sz = 32 then
        Some (if sz = 8 then scast (ucast (x AND 0xff) :: u8)
              else if sz = 16 then scast (ucast (x AND 0xffff) :: u16)
              else scast x)
      else None)"

definition set_CFOF :: "u32 \<Rightarrow> u32" where "set_CFOF ef = put_OF True (put_CF True ef)"
definition clear_CFOF :: "u32 \<Rightarrow> u32" where "clear_CFOF ef = put_OF False (put_CF False ef)"

definition MUL_SET_FLAGS :: "'a::len word \<Rightarrow> u32 \<Rightarrow> u32" where
  "MUL_SET_FLAGS reg ef =
     (if reg = 0 then put_OF False (put_CF False ef) else put_OF True (put_CF True ef))"

definition alu_mul :: "u32 \<Rightarrow> u32 \<Rightarrow> nat \<Rightarrow> u32 \<Rightarrow> (u64 \<times> u32) option" where
  "alu_mul src dest sz ef =
     (let src = cut_u32 src sz;
          dest = cut_u32 dest sz;
          result = (if sz \<noteq> 32 then cut (ucast (src * dest)) (sz * 2) else ucast src * ucast dest)
      in if sz = 8 then Some (result, MUL_SET_FLAGS (ucast (cut (drop_bit 8 result) 8) :: u8) ef)
         else if sz = 16 then Some (result, MUL_SET_FLAGS (ucast (cut (drop_bit 16 result) 16) :: u16) ef)
         else if sz = 32 then Some (result, MUL_SET_FLAGS (ucast (cut (drop_bit 32 result) 32) :: u32) ef)
         else None)"

text \<open>The sign extension of an \<open>i32\<close> operand when the size is not 64: \<open>(i64)(i32)sign_ext(cut(x, size), size)\<close>.\<close>

definition alu_imul :: "u32 \<Rightarrow> u32 \<Rightarrow> nat \<Rightarrow> u32 \<Rightarrow> (u64 \<times> u32) option" where
  "alu_imul src dest sz ef = do {
     src \<leftarrow> (if sz \<noteq> 64 then sign_ext (cut_i32 src sz) sz else Some src);
     dest \<leftarrow> (if sz \<noteq> 64 then sign_ext (cut_i32 dest sz) sz else Some dest);
     let result = (scast src * scast dest :: u64);
     if sz = 8 then
       let r8 = (ucast (cut result 8) :: u8); r16 = (ucast (cut result 16) :: u16)
       in Some (result, if r16 = scast r8 then clear_CFOF ef else set_CFOF ef)
     else if sz = 16 then
       let r16 = (ucast (cut result 16) :: u16); r32 = (ucast (cut result 32) :: u32)
       in Some (result, if r32 = scast r16 then clear_CFOF ef else set_CFOF ef)
     else if sz = 32 then
       let r32 = (ucast (cut result 32) :: u32); r64 = result
       in Some (result, if r64 = scast r32 then clear_CFOF ef else set_CFOF ef)
     else None
   }"

definition alu_div :: "u64 \<Rightarrow> u64 \<Rightarrow> nat \<Rightarrow> u32 option" where
  "alu_div src dest sz =
     (let src = cut src sz; dest = cut dest sz
      in if src \<noteq> 0 then let res = (ucast (dest div src) :: u32) in Some (cut_u32 res sz) else None)"

text \<open>
  C's signed 64-bit division truncates, and traps on the one quotient that overflows.
\<close>

definition div_i64 :: "u64 \<Rightarrow> u64 \<Rightarrow> u64 option" where
  "div_i64 a b = (if b = 0 \<or> sint a = - (2 ^ 63) \<and> sint b = - 1 then None
                  else Some (word_of_int (sint a sdiv sint b)))"

definition alu_idiv :: "u64 \<Rightarrow> u64 \<Rightarrow> nat \<Rightarrow> u32 option" where
  "alu_idiv src dest sz = do {
     src \<leftarrow> (if sz \<noteq> 64 then map_option scast (sign_ext (ucast (cut src sz)) sz) else Some src);
     dest \<leftarrow> (if sz \<noteq> 64 then map_option scast (sign_ext (ucast (cut dest sz)) sz) else Some dest);
     if src \<noteq> 0 then map_option ucast (div_i64 dest src) else None
   }"

text \<open>\<open>alu_mod\<close> has no size argument: it reads the global \<open>data_size\<close>, here its first argument.\<close>

definition alu_mod :: "nat \<Rightarrow> u64 \<Rightarrow> u64 \<Rightarrow> u32 option" where
  "alu_mod g_data_size src dest =
     (let src = cut src g_data_size; dest = cut dest g_data_size
      in if src \<noteq> 0 then let res = (ucast (dest mod src) :: u32) in Some (cut_u32 res g_data_size) else None)"

definition alu_imod :: "u64 \<Rightarrow> u64 \<Rightarrow> u32 option" where
  "alu_imod src dest = do {
     quo \<leftarrow> alu_idiv src dest 64;
     Some (ucast (dest - src * scast quo))
   }"

section \<open>Logic and shifts\<close>

definition alu_and :: "u32 \<Rightarrow> u32 \<Rightarrow> nat \<Rightarrow> u32 \<Rightarrow> u32 \<times> u32" where
  "alu_and src dest sz ef =
     (let src = cut_u32 src sz;
          dest = cut_u32 dest sz;
          ef = put_CF False ef;
          ef = put_OF False ef;
          result = src AND dest;
          ef = set_PF result ef;
          ef = set_SF result sz ef;
          ef = set_ZF result sz ef
      in (result, ef))"

definition alu_xor :: "u32 \<Rightarrow> u32 \<Rightarrow> nat \<Rightarrow> u32 \<Rightarrow> u32 \<times> u32" where
  "alu_xor src dest sz ef =
     (let src = cut_u32 src sz;
          dest = cut_u32 dest sz;
          result = src XOR dest;
          ef = put_CF False ef;
          ef = put_OF False ef;
          ef = set_SF result sz ef;
          ef = set_ZF result sz ef;
          ef = set_PF result ef
      in (result, ef))"

definition alu_or :: "u32 \<Rightarrow> u32 \<Rightarrow> nat \<Rightarrow> u32 \<Rightarrow> u32 \<times> u32" where
  "alu_or src dest sz ef =
     (let src = cut_u32 src sz;
          dest = cut_u32 dest sz;
          result = src OR dest;
          ef = put_OF False ef;
          ef = put_CF False ef;
          ef = set_SF result sz ef;
          ef = set_ZF result sz ef;
          ef = set_PF result ef
      in (result, ef))"

text \<open>The \<open>while (count != 0)\<close> loops of the shifts, by recursion on \<open>count\<close>.\<close>

fun shl_loop :: "nat \<Rightarrow> u32 \<Rightarrow> nat \<Rightarrow> u32 \<Rightarrow> u32 \<times> u32" where
  "shl_loop 0 dest sz ef = (dest, ef)"
| "shl_loop (Suc count) dest sz ef =
     (let ef = put_CF (drop_bit (sz - 1) dest AND 1 \<noteq> 0) ef;
          dest = dest * 2;
          dest = cut_u32 dest sz
      in shl_loop count dest sz ef)"

definition alu_shl :: "u32 \<Rightarrow> u32 \<Rightarrow> nat \<Rightarrow> u32 \<Rightarrow> u32 \<times> u32" where
  "alu_shl src dest sz ef =
     (let src = cut_u32 src sz;
          dest = cut_u32 dest sz;
          (dest, ef) = shl_loop (unat src) dest sz ef;
          ef = (if src = 1 then put_OF ((drop_bit (sz - 1) dest AND 1 \<noteq> 0) \<noteq> CF ef) ef else ef);
          ef = set_ZF dest sz ef;
          ef = set_PF dest ef;
          ef = set_SF dest sz ef
      in (dest, ef))"

fun shr_loop :: "nat \<Rightarrow> u32 \<Rightarrow> nat \<Rightarrow> u32 \<Rightarrow> u32 \<times> u32" where
  "shr_loop 0 dest sz ef = (dest, ef)"
| "shr_loop (Suc count) dest sz ef =
     (let ef = put_CF (dest AND 1 \<noteq> 0) ef;
          dest = dest div 2;
          dest = cut_u32 dest sz
      in shr_loop count dest sz ef)"

definition alu_shr :: "u32 \<Rightarrow> u32 \<Rightarrow> nat \<Rightarrow> u32 \<Rightarrow> u32 \<times> u32" where
  "alu_shr src dest sz ef =
     (let src = cut_u32 src sz;
          dest = cut_u32 dest sz;
          (dest, ef) = shr_loop (unat src) dest sz ef;
          ef = (if src = 1 then put_OF (drop_bit (sz - 1) dest AND 1 \<noteq> 0) ef else ef);
          ef = set_ZF dest sz ef;
          ef = set_PF dest ef;
          ef = set_SF dest sz ef
      in (dest, ef))"

fun sar_loop :: "nat \<Rightarrow> u32 \<Rightarrow> u32 \<Rightarrow> u32 \<times> u32" where
  "sar_loop 0 result ef = (result, ef)"
| "sar_loop (Suc count) result ef =
     (let ef = put_CF (result AND 1 \<noteq> 0) ef;
          result = signed_drop_bit 1 result
      in sar_loop count result ef)"

definition alu_sar :: "u32 \<Rightarrow> u32 \<Rightarrow> nat \<Rightarrow> u32 \<Rightarrow> (u32 \<times> u32) option" where
  "alu_sar src dest sz ef = (
     let src = cut_u32 src sz;
         dest = cut_u32 dest sz
     in do {
     result \<leftarrow> sign_ext dest sz;
     let (result, ef) = sar_loop (unat src) result ef;
     let result = cut_i32 result sz;
     let ef = (if src = 1 then put_OF False ef else ef);
     let ef = set_ZF result sz ef;
     let ef = set_PF result ef;
     let ef = set_SF result sz ef;
     Some (result, ef)
   })"

definition alu_sal :: "u32 \<Rightarrow> u32 \<Rightarrow> nat \<Rightarrow> u32 \<Rightarrow> u32 \<times> u32" where
  "alu_sal src dest sz ef = alu_shl src dest sz ef"

end
