(* ===== verification/Instr_Arith.thy ===== *)
theory Instr_Arith
  imports Operand Alu
begin

text \<open>
  The arithmetic, logic and shift instructions of \<open>nemu/src/cpu/instr\<close>: \<open>add.c\<close>, \<open>adc.c\<close>,
  \<open>sub.c\<close>, \<open>sbb.c\<close>, \<open>and.c\<close>, \<open>or.c\<close>, \<open>xor.c\<close>, \<open>not.c\<close>, \<open>neg.c\<close>, \<open>inc.c\<close>, \<open>dec.c\<close>, \<open>cmp.c\<close>,
  \<open>test.c\<close>, \<open>shl.c\<close>, \<open>shr.c\<close>, \<open>sar.c\<close>, \<open>mul.c\<close>, \<open>imul.c\<close>, \<open>div.c\<close>, \<open>idiv.c\<close>, \<open>bt.c\<close>, \<open>cbw.c\<close>
  and \<open>cltd.c\<close>. A handler takes the address of its opcode byte, the opcode and the machine, and
  returns the length it tells the caller to advance \<open>eip\<close> by, and the new machine.
\<close>

section \<open>The implementations behind the instruction macros\<close>

definition write_src :: "u32 \<Rightarrow> machine \<Rightarrow> machine option" where
  "write_src v s = (let s = set_src_val v s in operand_write (opr_src s) s)"

definition write_dest :: "u32 \<Rightarrow> machine \<Rightarrow> machine option" where
  "write_dest v s = (let s = set_dest_val v s in operand_write (opr_dest s) s)"

definition adc_execute :: "machine \<Rightarrow> machine option" where
  "adc_execute s = do {
     s \<leftarrow> read_src s;
     s \<leftarrow> read_dest s;
     v \<leftarrow> sign_ext (o_val (opr_src s)) (o_size (opr_src s));
     let (r, s) = alu2 alu_adc v (o_val (opr_dest s)) (o_size (opr_dest s)) s;
     write_dest r s
   }"
definition adc_i2a_b :: instr_func where
  "adc_i2a_b = make_instr_impl decode_operand_i2a sf_b adc_execute"
definition adc_i2a_v :: instr_func where
  "adc_i2a_v = make_instr_impl decode_operand_i2a sf_v adc_execute"
definition adc_i2rm_b :: instr_func where
  "adc_i2rm_b = make_instr_impl decode_operand_i2rm sf_b adc_execute"
definition adc_i2rm_v :: instr_func where
  "adc_i2rm_v = make_instr_impl decode_operand_i2rm sf_v adc_execute"
definition adc_i2rm_bv :: instr_func where
  "adc_i2rm_bv = make_instr_impl decode_operand_i2rm sf_bv adc_execute"
definition adc_r2rm_b :: instr_func where
  "adc_r2rm_b = make_instr_impl decode_operand_r2rm sf_b adc_execute"
definition adc_r2rm_v :: instr_func where
  "adc_r2rm_v = make_instr_impl decode_operand_r2rm sf_v adc_execute"
definition adc_rm2r_b :: instr_func where
  "adc_rm2r_b = make_instr_impl decode_operand_rm2r sf_b adc_execute"
definition adc_rm2r_v :: instr_func where
  "adc_rm2r_v = make_instr_impl decode_operand_rm2r sf_v adc_execute"

definition sbb_execute :: "machine \<Rightarrow> machine option" where
  "sbb_execute s = do {
     s \<leftarrow> read_src s;
     s \<leftarrow> read_dest s;
     v \<leftarrow> sign_ext (o_val (opr_src s)) (o_size (opr_src s));
     let (r, s) = alu2 alu_sbb v (o_val (opr_dest s)) (o_size (opr_dest s)) s;
     write_dest r s
   }"
definition sbb_i2a_b :: instr_func where
  "sbb_i2a_b = make_instr_impl decode_operand_i2a sf_b sbb_execute"
definition sbb_i2a_v :: instr_func where
  "sbb_i2a_v = make_instr_impl decode_operand_i2a sf_v sbb_execute"
definition sbb_i2rm_b :: instr_func where
  "sbb_i2rm_b = make_instr_impl decode_operand_i2rm sf_b sbb_execute"
definition sbb_i2rm_v :: instr_func where
  "sbb_i2rm_v = make_instr_impl decode_operand_i2rm sf_v sbb_execute"
definition sbb_i2rm_bv :: instr_func where
  "sbb_i2rm_bv = make_instr_impl decode_operand_i2rm sf_bv sbb_execute"
definition sbb_r2rm_b :: instr_func where
  "sbb_r2rm_b = make_instr_impl decode_operand_r2rm sf_b sbb_execute"
definition sbb_r2rm_v :: instr_func where
  "sbb_r2rm_v = make_instr_impl decode_operand_r2rm sf_v sbb_execute"
definition sbb_rm2r_b :: instr_func where
  "sbb_rm2r_b = make_instr_impl decode_operand_rm2r sf_b sbb_execute"
definition sbb_rm2r_v :: instr_func where
  "sbb_rm2r_v = make_instr_impl decode_operand_rm2r sf_v sbb_execute"

definition or_execute :: "machine \<Rightarrow> machine option" where
  "or_execute s = do {
     s \<leftarrow> read_src s;
     s \<leftarrow> read_dest s;
     v \<leftarrow> sign_ext (o_val (opr_src s)) (o_size (opr_src s));
     let (r, s) = alu2 alu_or v (o_val (opr_dest s)) (o_size (opr_dest s)) s;
     write_dest r s
   }"
definition or_i2a_b :: instr_func where
  "or_i2a_b = make_instr_impl decode_operand_i2a sf_b or_execute"
definition or_i2a_v :: instr_func where
  "or_i2a_v = make_instr_impl decode_operand_i2a sf_v or_execute"
definition or_i2rm_b :: instr_func where
  "or_i2rm_b = make_instr_impl decode_operand_i2rm sf_b or_execute"
definition or_i2rm_v :: instr_func where
  "or_i2rm_v = make_instr_impl decode_operand_i2rm sf_v or_execute"
definition or_i2rm_bv :: instr_func where
  "or_i2rm_bv = make_instr_impl decode_operand_i2rm sf_bv or_execute"
definition or_r2rm_b :: instr_func where
  "or_r2rm_b = make_instr_impl decode_operand_r2rm sf_b or_execute"
definition or_r2rm_v :: instr_func where
  "or_r2rm_v = make_instr_impl decode_operand_r2rm sf_v or_execute"
definition or_rm2r_b :: instr_func where
  "or_rm2r_b = make_instr_impl decode_operand_rm2r sf_b or_execute"
definition or_rm2r_v :: instr_func where
  "or_rm2r_v = make_instr_impl decode_operand_rm2r sf_v or_execute"

definition xor_execute :: "machine \<Rightarrow> machine option" where
  "xor_execute s = do {
     s \<leftarrow> read_src s;
     s \<leftarrow> read_dest s;
     v \<leftarrow> sign_ext (o_val (opr_src s)) (o_size (opr_src s));
     let (r, s) = alu2 alu_xor v (o_val (opr_dest s)) (o_size (opr_dest s)) s;
     write_dest r s
   }"
definition xor_i2a_b :: instr_func where
  "xor_i2a_b = make_instr_impl decode_operand_i2a sf_b xor_execute"
definition xor_i2a_v :: instr_func where
  "xor_i2a_v = make_instr_impl decode_operand_i2a sf_v xor_execute"
definition xor_i2rm_b :: instr_func where
  "xor_i2rm_b = make_instr_impl decode_operand_i2rm sf_b xor_execute"
definition xor_i2rm_v :: instr_func where
  "xor_i2rm_v = make_instr_impl decode_operand_i2rm sf_v xor_execute"
definition xor_i2rm_bv :: instr_func where
  "xor_i2rm_bv = make_instr_impl decode_operand_i2rm sf_bv xor_execute"
definition xor_r2rm_b :: instr_func where
  "xor_r2rm_b = make_instr_impl decode_operand_r2rm sf_b xor_execute"
definition xor_r2rm_v :: instr_func where
  "xor_r2rm_v = make_instr_impl decode_operand_r2rm sf_v xor_execute"
definition xor_rm2r_b :: instr_func where
  "xor_rm2r_b = make_instr_impl decode_operand_rm2r sf_b xor_execute"
definition xor_rm2r_v :: instr_func where
  "xor_rm2r_v = make_instr_impl decode_operand_rm2r sf_v xor_execute"

definition shl_execute_2op :: "machine \<Rightarrow> machine option" where
  "shl_execute_2op s = do {
     s \<leftarrow> read_src s;
     s \<leftarrow> read_dest s;
     let (r, s) = alu2 alu_shl (o_val (opr_src s)) (o_val (opr_dest s)) (o_size (opr_dest s)) s;
     write_dest r s
   }"

definition shl_execute_1op :: "machine \<Rightarrow> machine option" where
  "shl_execute_1op s = do {
     s \<leftarrow> read_src s;
     let (r, s) = alu2 alu_shl 1 (o_val (opr_src s)) (o_size (opr_src s)) s;
     write_src r s
   }"

definition shr_execute_2op :: "machine \<Rightarrow> machine option" where
  "shr_execute_2op s = do {
     s \<leftarrow> read_src s;
     s \<leftarrow> read_dest s;
     let (r, s) = alu2 alu_shr (o_val (opr_src s)) (o_val (opr_dest s)) (o_size (opr_dest s)) s;
     write_dest r s
   }"

definition shr_execute_1op :: "machine \<Rightarrow> machine option" where
  "shr_execute_1op s = do {
     s \<leftarrow> read_src s;
     let (r, s) = alu2 alu_shr 1 (o_val (opr_src s)) (o_size (opr_src s)) s;
     write_src r s
   }"

definition sar_execute_2op :: "machine \<Rightarrow> machine option" where
  "sar_execute_2op s = do {
     s \<leftarrow> read_src s;
     s \<leftarrow> read_dest s;
     (r, s) \<leftarrow> alu2_opt alu_sar (o_val (opr_src s)) (o_val (opr_dest s)) (o_size (opr_dest s)) s;
     write_dest r s
   }"

definition sar_execute_1op :: "machine \<Rightarrow> machine option" where
  "sar_execute_1op s = do {
     s \<leftarrow> read_src s;
     (r, s) \<leftarrow> alu2_opt alu_sar 1 (o_val (opr_src s)) (o_size (opr_src s)) s;
     write_src r s
   }"
definition shl_i2rm_b :: instr_func where
  "shl_i2rm_b = make_instr_impl decode_operand_i2rm sf_b shl_execute_2op"
definition shl_i2rm_bv :: instr_func where
  "shl_i2rm_bv = make_instr_impl decode_operand_i2rm sf_bv shl_execute_2op"
definition shl_c2rm_b :: instr_func where
  "shl_c2rm_b = make_instr_impl decode_operand_c2rm sf_b shl_execute_2op"
definition shl_c2rm_bv :: instr_func where
  "shl_c2rm_bv = make_instr_impl decode_operand_c2rm sf_bv shl_execute_2op"
definition shl_rm_b :: instr_func where
  "shl_rm_b = make_instr_impl decode_operand_rm sf_b shl_execute_1op"
definition shl_rm_v :: instr_func where
  "shl_rm_v = make_instr_impl decode_operand_rm sf_v shl_execute_1op"
definition shr_i2rm_b :: instr_func where
  "shr_i2rm_b = make_instr_impl decode_operand_i2rm sf_b shr_execute_2op"
definition shr_i2rm_bv :: instr_func where
  "shr_i2rm_bv = make_instr_impl decode_operand_i2rm sf_bv shr_execute_2op"
definition shr_c2rm_b :: instr_func where
  "shr_c2rm_b = make_instr_impl decode_operand_c2rm sf_b shr_execute_2op"
definition shr_c2rm_bv :: instr_func where
  "shr_c2rm_bv = make_instr_impl decode_operand_c2rm sf_bv shr_execute_2op"
definition shr_rm_b :: instr_func where
  "shr_rm_b = make_instr_impl decode_operand_rm sf_b shr_execute_1op"
definition shr_rm_v :: instr_func where
  "shr_rm_v = make_instr_impl decode_operand_rm sf_v shr_execute_1op"
definition sar_i2rm_b :: instr_func where
  "sar_i2rm_b = make_instr_impl decode_operand_i2rm sf_b sar_execute_2op"
definition sar_i2rm_bv :: instr_func where
  "sar_i2rm_bv = make_instr_impl decode_operand_i2rm sf_bv sar_execute_2op"
definition sar_c2rm_b :: instr_func where
  "sar_c2rm_b = make_instr_impl decode_operand_c2rm sf_b sar_execute_2op"
definition sar_c2rm_bv :: instr_func where
  "sar_c2rm_bv = make_instr_impl decode_operand_c2rm sf_bv sar_execute_2op"
definition sar_rm_b :: instr_func where
  "sar_rm_b = make_instr_impl decode_operand_rm sf_b sar_execute_1op"
definition sar_rm_v :: instr_func where
  "sar_rm_v = make_instr_impl decode_operand_rm sf_v sar_execute_1op"

definition neg_execute :: "machine \<Rightarrow> machine option" where
  "neg_execute s = do {
     s \<leftarrow> read_src s;
     let (r, s) = alu2 alu_sub (o_val (opr_src s)) 0 (o_size (opr_src s)) s;
     write_src r s
   }"

definition not_execute :: "machine \<Rightarrow> machine option" where
  "not_execute s = do {
     s \<leftarrow> read_src s;
     write_src (NOT (o_val (opr_src s))) s
   }"
definition neg_rm_b :: instr_func where
  "neg_rm_b = make_instr_impl decode_operand_rm sf_b neg_execute"
definition neg_rm_v :: instr_func where
  "neg_rm_v = make_instr_impl decode_operand_rm sf_v neg_execute"
definition not_rm_b :: instr_func where
  "not_rm_b = make_instr_impl decode_operand_rm sf_b not_execute"
definition not_rm_v :: instr_func where
  "not_rm_v = make_instr_impl decode_operand_rm sf_v not_execute"

text \<open>A shift by 32 or more in \<open>bt\<close> is undefined.\<close>

definition bt_execute :: "machine \<Rightarrow> machine option" where
  "bt_execute s = do {
     s \<leftarrow> read_src s;
     s \<leftarrow> read_dest s;
     let n = unat (o_val (opr_src s));
     if n < 32 then Some (s\<lparr>eflags := put_CF (drop_bit n (o_val (opr_dest s)) AND 1 \<noteq> 0) (eflags s)\<rparr>)
     else None
   }"

definition bt_r2rm_v :: instr_func where
  "bt_r2rm_v = make_instr_impl decode_operand_r2rm sf_v bt_execute"

definition cbw_execute :: "machine \<Rightarrow> machine option" where
  "cbw_execute s = do {
     s \<leftarrow> read_src s;
     v \<leftarrow> (if o_size (opr_src s) = 16 then sign_ext (o_val (opr_src s)) 8
          else sign_ext (o_val (opr_src s)) 16);
     write_src v s
   }"

definition cbw_a_v :: instr_func where
  "cbw_a_v = make_instr_impl decode_operand_a sf_v cbw_execute"

section \<open>Instructions on local operands\<close>

text \<open>\<open>add.c\<close>\<close>

definition add_04 :: instr_func where
  "add_04 pc opcode s = do {
     let len = 1;
     let r = reg_opr s REG_AL 8;
     let imm = imm_opr s (pc + len) 8;
     let len = len + size_bytes imm;
     r \<leftarrow> operand_read r s;
     imm \<leftarrow> operand_read imm s;
     let (v, s) = alu2 alu_add (o_val r) (o_val imm) 8 s;
     s \<leftarrow> operand_write (r\<lparr>o_val := v\<rparr>) s;
     Some (len, s)
   }"

definition add_05 :: instr_func where
  "add_05 pc opcode s = do {
     let len = 1;
     let r = reg_opr s REG_AX (data_size s);
     let imm = imm_opr s (pc + len) (data_size s);
     let len = len + size_bytes imm;
     r \<leftarrow> operand_read r s;
     imm \<leftarrow> operand_read imm s;
     let (v, s) = alu2 alu_add (o_val r) (o_val imm) (data_size s) s;
     s \<leftarrow> operand_write (r\<lparr>o_val := v\<rparr>) s;
     Some (len, s)
   }"

definition add_80 :: instr_func where
  "add_80 pc opcode s = do {
     let len = 1;
     (n, rm) \<leftarrow> modrm_rm (pc + len) (local_opr s 8) s;
     let len = len + n;
     let imm = imm_opr s (pc + len) 8;
     let len = len + size_bytes imm;
     rm \<leftarrow> operand_read rm s;
     imm \<leftarrow> operand_read imm s;
     let (v, s) = alu2 alu_add (o_val rm) (o_val imm) 8 s;
     s \<leftarrow> operand_write (rm\<lparr>o_val := v\<rparr>) s;
     Some (len, s)
   }"

definition add_81 :: instr_func where
  "add_81 pc opcode s = do {
     let len = 1;
     (n, rm) \<leftarrow> modrm_rm (pc + len) (local_opr s (data_size s)) s;
     let len = len + n;
     let imm = imm_opr s (pc + len) (data_size s);
     let len = len + size_bytes imm;
     rm \<leftarrow> operand_read rm s;
     imm \<leftarrow> operand_read imm s;
     let (v, s) = alu2 alu_add (o_val rm) (o_val imm) (data_size s) s;
     s \<leftarrow> operand_write (rm\<lparr>o_val := v\<rparr>) s;
     Some (len, s)
   }"

definition add_83 :: instr_func where
  "add_83 pc opcode s = do {
     let len = 1;
     (n, rm) \<leftarrow> modrm_rm (pc + len) (local_opr s (data_size s)) s;
     let len = len + n;
     let imm = imm_opr s (pc + len) 8;
     let len = len + size_bytes imm;
     rm \<leftarrow> operand_read rm s;
     imm \<leftarrow> operand_read imm s;
     i \<leftarrow> sign_ext (o_val imm) 8;
     let (v, s) = alu2 alu_add (o_val rm) i (data_size s) s;
     s \<leftarrow> operand_write (rm\<lparr>o_val := v\<rparr>) s;
     Some (len, s)
   }"

definition add_00 :: instr_func where
  "add_00 pc opcode s = do {
     let len = 1;
     (n, r, rm) \<leftarrow> modrm_r_rm (pc + len) (local_opr s 8) (local_opr s 8) s;
     let len = len + n;
     r \<leftarrow> operand_read r s;
     rm \<leftarrow> operand_read rm s;
     let (v, s) = alu2 alu_add (o_val rm) (o_val r) 8 s;
     s \<leftarrow> operand_write (rm\<lparr>o_val := v\<rparr>) s;
     Some (len, s)
   }"

definition add_01 :: instr_func where
  "add_01 pc opcode s = do {
     let len = 1;
     (n, r, rm) \<leftarrow> modrm_r_rm (pc + len) (local_opr s (data_size s)) (local_opr s (data_size s)) s;
     let len = len + n;
     rm \<leftarrow> operand_read rm s;
     r \<leftarrow> operand_read r s;
     let (v, s) = alu2 alu_add (o_val r) (o_val rm) (data_size s) s;
     s \<leftarrow> operand_write (rm\<lparr>o_val := v\<rparr>) s;
     Some (len, s)
   }"

definition add_02 :: instr_func where
  "add_02 pc opcode s = do {
     let len = 1;
     (n, r, rm) \<leftarrow> modrm_r_rm (pc + len) (local_opr s 8) (local_opr s 8) s;
     let len = len + n;
     rm \<leftarrow> operand_read rm s;
     r \<leftarrow> operand_read r s;
     let (v, s) = alu2 alu_add (o_val rm) (o_val r) 8 s;
     s \<leftarrow> operand_write (r\<lparr>o_val := v\<rparr>) s;
     Some (len, s)
   }"

definition add_03 :: instr_func where
  "add_03 pc opcode s = do {
     let len = 1;
     (n, r, rm) \<leftarrow> modrm_r_rm (pc + len) (local_opr s (data_size s)) (local_opr s (data_size s)) s;
     let len = len + n;
     r \<leftarrow> operand_read r s;
     rm \<leftarrow> operand_read rm s;
     let (v, s) = alu2 alu_add (o_val r) (o_val rm) (data_size s) s;
     s \<leftarrow> operand_write (r\<lparr>o_val := v\<rparr>) s;
     Some (len, s)
   }"

text \<open>\<open>and.c\<close>, whose operations share \<open>do_and\<close>.\<close>

definition do_and :: "OPERAND \<Rightarrow> OPERAND \<Rightarrow> machine \<Rightarrow> machine option" where
  "do_and dest src s = do {
     dest \<leftarrow> operand_read dest s;
     src \<leftarrow> operand_read src s;
     v \<leftarrow> (if o_size src < o_size dest then sign_ext (o_val src) (o_size src) else Some (o_val src));
     let (r, s) = alu2 alu_and v (o_val dest) (o_size dest) s;
     operand_write (dest\<lparr>o_val := r\<rparr>) s
   }"

definition and_24 :: instr_func where
  "and_24 pc opcode s = do {
     let len = 1;
     let r = reg_opr s REG_AL 8;
     let imm = imm_opr s (pc + len) 8;
     let len = len + size_bytes imm;
     s \<leftarrow> do_and r imm s;
     Some (len, s)
   }"

definition and_25 :: instr_func where
  "and_25 pc opcode s = do {
     let len = 1;
     let r = reg_opr s REG_AX (data_size s);
     let imm = imm_opr s (pc + len) (data_size s);
     let len = len + size_bytes imm;
     s \<leftarrow> do_and r imm s;
     Some (len, s)
   }"

definition and_80 :: instr_func where
  "and_80 pc opcode s = do {
     let len = 1;
     (n, rm) \<leftarrow> modrm_rm (pc + len) (local_opr s 8) s;
     let len = len + n;
     let imm = imm_opr s (pc + len) 8;
     let len = len + size_bytes imm;
     s \<leftarrow> do_and rm imm s;
     Some (len, s)
   }"

definition and_81 :: instr_func where
  "and_81 pc opcode s = do {
     let len = 1;
     (n, rm) \<leftarrow> modrm_rm (pc + len) (local_opr s (data_size s)) s;
     let len = len + n;
     let imm = imm_opr s (pc + len) (data_size s);
     let len = len + size_bytes imm;
     s \<leftarrow> do_and rm imm s;
     Some (len, s)
   }"

definition and_83 :: instr_func where
  "and_83 pc opcode s = do {
     let len = 1;
     (n, rm) \<leftarrow> modrm_rm (pc + len) (local_opr s (data_size s)) s;
     let len = len + n;
     let imm = imm_opr s (pc + len) 8;
     let len = len + size_bytes imm;
     s \<leftarrow> do_and rm imm s;
     Some (len, s)
   }"

definition and_20 :: instr_func where
  "and_20 pc opcode s = do {
     let len = 1;
     (n, r, rm) \<leftarrow> modrm_r_rm (pc + len) (local_opr s 8) (local_opr s 8) s;
     let len = len + n;
     s \<leftarrow> do_and rm r s;
     Some (len, s)
   }"

definition and_21 :: instr_func where
  "and_21 pc opcode s = do {
     let len = 1;
     (n, r, rm) \<leftarrow> modrm_r_rm (pc + len) (local_opr s (data_size s)) (local_opr s (data_size s)) s;
     let len = len + n;
     s \<leftarrow> do_and rm r s;
     Some (len, s)
   }"

definition and_22 :: instr_func where
  "and_22 pc opcode s = do {
     let len = 1;
     (n, r, rm) \<leftarrow> modrm_r_rm (pc + len) (local_opr s 8) (local_opr s 8) s;
     let len = len + n;
     s \<leftarrow> do_and r rm s;
     Some (len, s)
   }"

definition and_23 :: instr_func where
  "and_23 pc opcode s = do {
     let len = 1;
     (n, r, rm) \<leftarrow> modrm_r_rm (pc + len) (local_opr s (data_size s)) (local_opr s (data_size s)) s;
     let len = len + n;
     s \<leftarrow> do_and r rm s;
     Some (len, s)
   }"

text \<open>\<open>cmp.c\<close>: the result of the subtraction is dropped.\<close>

definition cmp_3c :: instr_func where
  "cmp_3c pc opcode s = do {
     let len = 1;
     let r = reg_opr s REG_AL 8;
     let imm = imm_opr s (pc + len) 8;
     let len = len + size_bytes imm;
     r \<leftarrow> operand_read r s;
     imm \<leftarrow> operand_read imm s;
     let (v, s) = alu2 alu_sub (o_val imm) (o_val r) 8 s;
     Some (len, s)
   }"

definition cmp_3d :: instr_func where
  "cmp_3d pc opcode s = do {
     let len = 1;
     let r = reg_opr s REG_AX (data_size s);
     let imm = imm_opr s (pc + len) (data_size s);
     let len = len + size_bytes imm;
     imm \<leftarrow> operand_read imm s;
     r \<leftarrow> operand_read r s;
     let (v, s) = alu2 alu_sub (o_val imm) (o_val r) (data_size s) s;
     Some (len, s)
   }"

definition cmp_80 :: instr_func where
  "cmp_80 pc opcode s = do {
     let len = 1;
     (n, rm) \<leftarrow> modrm_rm (pc + len) (local_opr s 8) s;
     let len = len + n;
     let imm = imm_opr s (pc + len) 8;
     let len = len + size_bytes imm;
     imm \<leftarrow> operand_read imm s;
     rm \<leftarrow> operand_read rm s;
     let (v, s) = alu2 alu_sub (o_val imm) (o_val rm) 8 s;
     Some (len, s)
   }"

definition cmp_81 :: instr_func where
  "cmp_81 pc opcode s = do {
     let len = 1;
     (n, rm) \<leftarrow> modrm_rm (pc + len) (local_opr s (data_size s)) s;
     let len = len + n;
     let imm = imm_opr s (pc + len) (data_size s);
     let len = len + size_bytes imm;
     rm \<leftarrow> operand_read rm s;
     imm \<leftarrow> operand_read imm s;
     let (v, s) = alu2 alu_sub (o_val imm) (o_val rm) (data_size s) s;
     Some (len, s)
   }"

definition cmp_83 :: instr_func where
  "cmp_83 pc opcode s = do {
     let len = 1;
     (n, rm) \<leftarrow> modrm_rm (pc + 1) (local_opr s (data_size s)) s;
     let len = len + n;
     let imm = imm_opr s (pc + len) 8;
     let len = len + size_bytes imm;
     imm \<leftarrow> operand_read imm s;
     rm \<leftarrow> operand_read rm s;
     i \<leftarrow> sign_ext (o_val imm) 8;
     let (v, s) = alu2 alu_sub i (o_val rm) (data_size s) s;
     Some (len, s)
   }"

definition cmp_38 :: instr_func where
  "cmp_38 pc opcode s = do {
     let len = 1;
     (n, r, rm) \<leftarrow> modrm_r_rm (pc + len) (local_opr s 8) (local_opr s 8) s;
     let len = len + n;
     r \<leftarrow> operand_read r s;
     rm \<leftarrow> operand_read rm s;
     let (v, s) = alu2 alu_sub (o_val r) (o_val rm) 8 s;
     Some (len, s)
   }"

definition cmp_39 :: instr_func where
  "cmp_39 pc opcode s = do {
     let len = 1;
     (n, r, rm) \<leftarrow> modrm_r_rm (pc + len) (local_opr s (data_size s)) (local_opr s (data_size s)) s;
     let len = len + n;
     r \<leftarrow> operand_read r s;
     rm \<leftarrow> operand_read rm s;
     let (v, s) = alu2 alu_sub (o_val r) (o_val rm) (data_size s) s;
     Some (len, s)
   }"

definition cmp_3a :: instr_func where
  "cmp_3a pc opcode s = do {
     let len = 1;
     (n, r, rm) \<leftarrow> modrm_r_rm (pc + len) (local_opr s 8) (local_opr s 8) s;
     let len = len + n;
     r \<leftarrow> operand_read r s;
     rm \<leftarrow> operand_read rm s;
     let (v, s) = alu2 alu_sub (o_val rm) (o_val r) 8 s;
     Some (len, s)
   }"

definition cmp_3b :: instr_func where
  "cmp_3b pc opcode s = do {
     let len = 1;
     (n, r, rm) \<leftarrow> modrm_r_rm (pc + len) (local_opr s (data_size s)) (local_opr s (data_size s)) s;
     let len = len + n;
     r \<leftarrow> operand_read r s;
     rm \<leftarrow> operand_read rm s;
     let (v, s) = alu2 alu_sub (o_val rm) (o_val r) (data_size s) s;
     Some (len, s)
   }"

text \<open>\<open>sub.c\<close>: its three families of macro-generated handlers.\<close>

definition make_sub_2x_impl :: "(machine \<Rightarrow> nat) \<Rightarrow> u32 \<Rightarrow> instr_func" where
  "make_sub_2x_impl sz reg pc opcode s = do {
     let len = 1;
     let r = reg_opr s reg (sz s);
     let imm = imm_opr s (pc + len) (sz s);
     let len = len + size_bytes imm;
     imm \<leftarrow> operand_read imm s;
     r \<leftarrow> operand_read r s;
     let (v, s) = alu2 alu_sub (o_val imm) (o_val r) (sz s) s;
     s \<leftarrow> operand_write (r\<lparr>o_val := v\<rparr>) s;
     Some (len, s)
   }"

definition sub_2c :: instr_func where "sub_2c = make_sub_2x_impl (\<lambda>_. 8) REG_AL"
definition sub_2d :: instr_func where "sub_2d = make_sub_2x_impl data_size REG_AX"

definition make_sub8x_impl :: "(machine \<Rightarrow> nat) \<Rightarrow> (machine \<Rightarrow> nat) \<Rightarrow> instr_func" where
  "make_sub8x_impl rmsize immsize pc opcode s = do {
     let len = 1;
     (n, rm) \<leftarrow> modrm_rm (pc + len) (local_opr s (rmsize s)) s;
     let len = len + n;
     let imm = imm_opr s (pc + len) (immsize s);
     let len = len + size_bytes imm;
     rm \<leftarrow> operand_read rm s;
     imm \<leftarrow> operand_read imm s;
     i \<leftarrow> sign_ext (o_val imm) (immsize s);
     let (v, s) = alu2 alu_sub i (o_val rm) (o_size rm) s;
     s \<leftarrow> operand_write (rm\<lparr>o_val := v\<rparr>) s;
     Some (len, s)
   }"

definition sub_80 :: instr_func where "sub_80 = make_sub8x_impl (\<lambda>_. 8) (\<lambda>_. 8)"
definition sub_81 :: instr_func where "sub_81 = make_sub8x_impl data_size data_size"
definition sub_83 :: instr_func where "sub_83 = make_sub8x_impl data_size (\<lambda>_. 8)"

definition make_sub2x_impl :: "(machine \<Rightarrow> nat) \<Rightarrow> (machine \<Rightarrow> nat) \<Rightarrow> bool \<Rightarrow> instr_func" where
  "make_sub2x_impl rmsize rsize rm_on_left pc opcode s = do {
     let len = 1;
     (n, r, rm) \<leftarrow> modrm_r_rm (pc + len) (local_opr s (rsize s)) (local_opr s (rmsize s)) s;
     let len = len + n;
     r \<leftarrow> operand_read r s;
     rm \<leftarrow> operand_read rm s;
     if rm_on_left then do {
       let (v, s) = alu2 alu_sub (o_val r) (o_val rm) (rmsize s) s;
       s \<leftarrow> operand_write (rm\<lparr>o_val := v\<rparr>) s;
       Some (len, s)
     }
     else do {
       let (v, s) = alu2 alu_sub (o_val rm) (o_val r) (rsize s) s;
       s \<leftarrow> operand_write (r\<lparr>o_val := v\<rparr>) s;
       Some (len, s)
     }
   }"

definition sub_28 :: instr_func where "sub_28 = make_sub2x_impl (\<lambda>_. 8) (\<lambda>_. 8) True"
definition sub_29 :: instr_func where "sub_29 = make_sub2x_impl data_size data_size True"
definition sub_2a :: instr_func where "sub_2a = make_sub2x_impl (\<lambda>_. 8) (\<lambda>_. 8) False"
definition sub_2b :: instr_func where "sub_2b = make_sub2x_impl data_size data_size False"

text \<open>\<open>test.c\<close>: the operand is written back with the value that was read.\<close>

definition test_a8 :: instr_func where
  "test_a8 pc opcode s = do {
     let len = 1;
     let r = reg_opr s REG_AL 8;
     let imm = imm_opr s (pc + len) 8;
     let len = len + size_bytes imm;
     r \<leftarrow> operand_read r s;
     imm \<leftarrow> operand_read imm s;
     let (v, s) = alu2 alu_and (o_val r) (o_val imm) 8 s;
     s \<leftarrow> operand_write r s;
     Some (len, s)
   }"

definition test_a9 :: instr_func where
  "test_a9 pc opcode s = do {
     let len = 1;
     let r = reg_opr s REG_AL (data_size s);
     let imm = imm_opr s (pc + len) (data_size s);
     let len = len + size_bytes imm;
     r \<leftarrow> operand_read r s;
     imm \<leftarrow> operand_read imm s;
     let (v, s) = alu2 alu_and (o_val r) (o_val imm) (data_size s) s;
     s \<leftarrow> operand_write r s;
     Some (len, s)
   }"

definition test_f6 :: instr_func where
  "test_f6 pc opcode s = do {
     let len = 1;
     (n, rm) \<leftarrow> modrm_rm (pc + len) (local_opr s 8) s;
     let len = len + n;
     let imm = imm_opr s (pc + len) 8;
     let len = len + size_bytes imm;
     imm \<leftarrow> operand_read imm s;
     rm \<leftarrow> operand_read rm s;
     let (v, s) = alu2 alu_and (o_val rm) (o_val imm) 8 s;
     s \<leftarrow> operand_write rm s;
     Some (len, s)
   }"

definition test_f7 :: instr_func where
  "test_f7 pc opcode s = do {
     let len = 1;
     (n, rm) \<leftarrow> modrm_rm (pc + len) (local_opr s (data_size s)) s;
     let len = len + n;
     let imm = imm_opr s (pc + len) (data_size s);
     let len = len + size_bytes imm;
     imm \<leftarrow> operand_read imm s;
     rm \<leftarrow> operand_read rm s;
     let (v, s) = alu2 alu_and (o_val rm) (o_val imm) (data_size s) s;
     s \<leftarrow> operand_write rm s;
     Some (len, s)
   }"

definition test_84 :: instr_func where
  "test_84 pc opcode s = do {
     let len = 1;
     (n, r, rm) \<leftarrow> modrm_r_rm (pc + len) (local_opr s 8) (local_opr s 8) s;
     let len = len + n;
     r \<leftarrow> operand_read r s;
     rm \<leftarrow> operand_read rm s;
     let (v, s) = alu2 alu_and (o_val r) (o_val rm) 8 s;
     s \<leftarrow> operand_write rm s;
     Some (len, s)
   }"

definition test_85 :: instr_func where
  "test_85 pc opcode s = do {
     let len = 1;
     (n, r, rm) \<leftarrow> modrm_r_rm (pc + len) (local_opr s (data_size s)) (local_opr s (data_size s)) s;
     let len = len + n;
     r \<leftarrow> operand_read r s;
     rm \<leftarrow> operand_read rm s;
     let (v, s) = alu2 alu_and (o_val r) (o_val rm) (data_size s) s;
     s \<leftarrow> operand_write rm s;
     Some (len, s)
   }"

text \<open>\<open>inc.c\<close>, \<open>dec.c\<close>\<close>

definition inc_fe :: instr_func where
  "inc_fe pc opcode s = do {
     let len = 1;
     (n, rm) \<leftarrow> modrm_rm (pc + len) (local_opr s 8) s;
     let len = len + n;
     rm \<leftarrow> operand_read rm s;
     let (v, s) = alu2 alu_add (o_val rm) 1 8 s;
     s \<leftarrow> operand_write (rm\<lparr>o_val := v\<rparr>) s;
     Some (len, s)
   }"

definition inc_ff :: instr_func where
  "inc_ff pc opcode s = do {
     let len = 1;
     (n, rm) \<leftarrow> modrm_rm (pc + len) (local_opr s (data_size s)) s;
     let len = len + n;
     rm \<leftarrow> operand_read rm s;
     let (v, s) = alu2 alu_add (o_val rm) 1 (data_size s) s;
     s \<leftarrow> operand_write (rm\<lparr>o_val := v\<rparr>) s;
     Some (len, s)
   }"

definition inc_40 :: instr_func where
  "inc_40 pc opcode s = do {
     let len = 1;
     let r = reg_opr s (ucast (opcode mod 8)) (data_size s);
     r \<leftarrow> operand_read r s;
     let (v, s) = alu2 alu_add (o_val r) 1 (data_size s) s;
     s \<leftarrow> operand_write (r\<lparr>o_val := v\<rparr>) s;
     Some (len, s)
   }"

definition dec_fe :: instr_func where
  "dec_fe pc opcode s = do {
     let len = 1;
     (n, rm) \<leftarrow> modrm_rm (pc + len) (local_opr s 8) s;
     let len = len + n;
     rm \<leftarrow> operand_read rm s;
     let (v, s) = alu2 alu_sub 1 (o_val rm) 8 s;
     s \<leftarrow> operand_write (rm\<lparr>o_val := v\<rparr>) s;
     Some (len, s)
   }"

definition dec_ff :: instr_func where
  "dec_ff pc opcode s = do {
     let len = 1;
     (n, rm) \<leftarrow> modrm_rm (pc + len) (local_opr s (data_size s)) s;
     let len = len + n;
     rm \<leftarrow> operand_read rm s;
     let (v, s) = alu2 alu_sub 1 (o_val rm) (data_size s) s;
     s \<leftarrow> operand_write (rm\<lparr>o_val := v\<rparr>) s;
     Some (len, s)
   }"

definition dec_48 :: instr_func where
  "dec_48 pc opcode s = do {
     let len = 1;
     let r = reg_opr s (ucast (opcode mod 8)) (data_size s);
     r \<leftarrow> operand_read r s;
     let (v, s) = alu2 alu_sub 1 (o_val r) (data_size s) s;
     s \<leftarrow> operand_write (r\<lparr>o_val := v\<rparr>) s;
     Some (len, s)
   }"

text \<open>\<open>mul.c\<close>: the flags of \<open>alu_mul\<close> are overwritten from the high half of the product.\<close>

definition set_CF_OF :: "bool \<Rightarrow> machine \<Rightarrow> machine" where
  "set_CF_OF b s = s\<lparr>eflags := put_CF b (put_OF b (eflags s))\<rparr>"

definition mul_rm2a_b :: instr_func where
  "mul_rm2a_b pc opcode s = do {
     let len = 1;
     let al = reg_opr s REG_AL 8;
     (n, rm) \<leftarrow> modrm_rm (pc + 1) (local_opr s 8) s;
     let len = len + n;
     al \<leftarrow> operand_read al s;
     rm \<leftarrow> operand_read rm s;
     (r64, s) \<leftarrow> alu2_opt alu_mul (o_val rm) (o_val al) 8 s;
     let res = (ucast r64 :: u32);
     s \<leftarrow> operand_write ((reg_opr s REG_AX 16)\<lparr>o_val := res\<rparr>) s;
     let s = (if drop_bit 8 res AND 0xff = 0 then set_CF_OF False s else set_CF_OF True s);
     Some (len, s)
   }"

definition mul_rm2a_v :: instr_func where
  "mul_rm2a_v pc opcode s = do {
     let len = 1;
     let a = reg_opr s REG_EAX (data_size s);
     (n, rm) \<leftarrow> modrm_rm (pc + 1) (local_opr s (data_size s)) s;
     let len = len + n;
     a \<leftarrow> operand_read a s;
     rm \<leftarrow> operand_read rm s;
     (ax, dx, s) \<leftarrow>
       (if data_size s = 16 then do {
          (r64, s) \<leftarrow> alu2_opt alu_mul (o_val rm) (o_val a) 16 s;
          let res = (ucast r64 :: u32);
          Some ((reg_opr s REG_AX 16)\<lparr>o_val := res AND 0xffff\<rparr>,
                (reg_opr s REG_DX 16)\<lparr>o_val := drop_bit 16 res AND 0xffff\<rparr>, s)
        }
        else do {
          (res, s) \<leftarrow> alu2_opt alu_mul (o_val rm) (o_val a) 32 s;
          Some ((reg_opr s REG_AX 32)\<lparr>o_val := ucast (res AND 0xffffffff)\<rparr>,
                (reg_opr s REG_DX 32)\<lparr>o_val := ucast (drop_bit 32 res AND 0xffffffff)\<rparr>, s)
        });
     s \<leftarrow> operand_write ax s;
     s \<leftarrow> operand_write dx s;
     let s = (if o_val dx = 0 then set_CF_OF False s else set_CF_OF True s);
     Some (len, s)
   }"

text \<open>\<open>imul.c\<close>. A result assigned to a 32-bit variable is its low half.\<close>

definition imul_0faf :: instr_func where
  "imul_0faf pc opcode s = do {
     let len = 1;
     (n, r, rm) \<leftarrow> modrm_r_rm (pc + 1) (local_opr s (data_size s)) (local_opr s (data_size s)) s;
     let len = len + n;
     r \<leftarrow> operand_read r s;
     rm \<leftarrow> operand_read rm s;
     a \<leftarrow> sign_ext (o_val rm) (data_size s);
     b \<leftarrow> sign_ext (o_val r) (data_size s);
     (res, s) \<leftarrow> alu2_opt alu_imul a b (data_size s) s;
     s \<leftarrow> operand_write (r\<lparr>o_val := ucast res\<rparr>) s;
     Some (len, s)
   }"

definition imul_f6 :: instr_func where
  "imul_f6 pc opcode s = do {
     let len = 1;
     let al = reg_opr s REG_AL 8;
     (n, rm) \<leftarrow> modrm_rm (pc + 1) (local_opr s 8) s;
     let len = len + n;
     al \<leftarrow> operand_read al s;
     rm \<leftarrow> operand_read rm s;
     a \<leftarrow> sign_ext (o_val rm) 8;
     b \<leftarrow> sign_ext (o_val al) 8;
     (r64, s) \<leftarrow> alu2_opt alu_imul a b 8 s;
     let res = (ucast r64 :: u32);
     s \<leftarrow> operand_write ((reg_opr s REG_AX 16)\<lparr>o_val := res\<rparr>) s;
     Some (len, s)
   }"

definition imul_f7 :: instr_func where
  "imul_f7 pc opcode s = do {
     let len = 1;
     let a = reg_opr s REG_EAX (data_size s);
     (n, rm) \<leftarrow> modrm_rm (pc + 1) (local_opr s (data_size s)) s;
     let len = len + n;
     a \<leftarrow> operand_read a s;
     rm \<leftarrow> operand_read rm s;
     (ax, dx, s) \<leftarrow>
       (if data_size s = 16 then do {
          x \<leftarrow> sign_ext (o_val rm) 16;
          y \<leftarrow> sign_ext (o_val a) 16;
          (r64, s) \<leftarrow> alu2_opt alu_imul x y 16 s;
          let res = (ucast r64 :: u32);
          Some ((reg_opr s REG_AX 16)\<lparr>o_val := res AND 0xffff\<rparr>,
                (reg_opr s REG_DX 16)\<lparr>o_val := signed_drop_bit 16 res AND 0xffff\<rparr>, s)
        }
        else do {
          x \<leftarrow> sign_ext (o_val rm) 32;
          y \<leftarrow> sign_ext (o_val a) 32;
          (res, s) \<leftarrow> alu2_opt alu_imul x y 32 s;
          Some ((reg_opr s REG_AX 32)\<lparr>o_val := ucast (res AND 0xffffffff)\<rparr>,
                (reg_opr s REG_DX 32)\<lparr>o_val := ucast (signed_drop_bit 32 res AND 0xffffffff)\<rparr>, s)
        });
     s \<leftarrow> operand_write ax s;
     s \<leftarrow> operand_write dx s;
     Some (len, s)
   }"

definition imul_69 :: instr_func where
  "imul_69 pc opcode s = do {
     let len = 1;
     (n, r, rm) \<leftarrow> modrm_r_rm (pc + 1) (local_opr s (data_size s)) (local_opr s (data_size s)) s;
     let len = len + n;
     let imm = imm_opr s (pc + len) (data_size s);
     rm \<leftarrow> operand_read rm s;
     imm \<leftarrow> operand_read imm s;
     a \<leftarrow> sign_ext (o_val imm) (data_size s);
     b \<leftarrow> sign_ext (o_val rm) (data_size s);
     (res, s) \<leftarrow> alu2_opt alu_imul a b (data_size s) s;
     s \<leftarrow> operand_write (r\<lparr>o_val := ucast res\<rparr>) s;
     Some (len + size_bytes imm, s)
   }"

definition imul_6b :: instr_func where
  "imul_6b pc opcode s = do {
     let len = 1;
     (n, r, rm) \<leftarrow> modrm_r_rm (pc + 1) (local_opr s (data_size s)) (local_opr s (data_size s)) s;
     let len = len + n;
     let imm = imm_opr s (pc + len) 8;
     rm \<leftarrow> operand_read rm s;
     imm \<leftarrow> operand_read imm s;
     a \<leftarrow> sign_ext (o_val imm) 8;
     b \<leftarrow> sign_ext (o_val rm) (data_size s);
     (res, s) \<leftarrow> alu2_opt alu_imul a b (data_size s) s;
     s \<leftarrow> operand_write (r\<lparr>o_val := ucast res\<rparr>) s;
     Some (len + 1, s)
   }"

text \<open>\<open>div.c\<close>, \<open>idiv.c\<close>: \<open>alu_mod\<close> takes its width from the global \<open>data_size\<close>, also in the 8-bit form.\<close>

definition div_rm2a_b :: instr_func where
  "div_rm2a_b pc opcode s = do {
     let len = 1;
     ax \<leftarrow> operand_read (reg_opr s REG_AX 16) s;
     (n, rm) \<leftarrow> modrm_rm (pc + 1) (local_opr s 8) s;
     let len = len + n;
     rm \<leftarrow> operand_read rm s;
     quotient \<leftarrow> alu_div (ucast (o_val rm)) (ucast (o_val ax)) 8;
     remainder \<leftarrow> alu_mod (data_size s) (ucast (o_val rm)) (ucast (o_val ax));
     s \<leftarrow> operand_write ((reg_opr s REG_AH 8)\<lparr>o_val := remainder\<rparr>) s;
     s \<leftarrow> operand_write ((reg_opr s REG_AL 8)\<lparr>o_val := quotient\<rparr>) s;
     Some (len, s)
   }"

definition div_rm2a_v :: instr_func where
  "div_rm2a_v pc opcode s = do {
     let len = 1;
     a \<leftarrow> operand_read (reg_opr s REG_EAX (data_size s)) s;
     d \<leftarrow> operand_read (reg_opr s REG_EDX (data_size s)) s;
     (n, rm) \<leftarrow> modrm_rm (pc + 1) (local_opr s (data_size s)) s;
     let len = len + n;
     rm \<leftarrow> operand_read rm s;
     let dividend = (if data_size s = 16 then ucast (push_bit 16 (o_val d) OR o_val a)
                     else push_bit 32 (ucast (o_val d)) OR ucast (o_val a) :: u64);
     quotient \<leftarrow> alu_div (ucast (o_val rm)) dividend (data_size s);
     remainder \<leftarrow> alu_mod (data_size s) (ucast (o_val rm)) dividend;
     s \<leftarrow> operand_write (a\<lparr>o_val := quotient\<rparr>) s;
     s \<leftarrow> operand_write (d\<lparr>o_val := remainder\<rparr>) s;
     Some (len, s)
   }"

definition idiv_f6 :: instr_func where
  "idiv_f6 pc opcode s = do {
     let len = 1;
     ax \<leftarrow> operand_read (reg_opr s REG_AX 16) s;
     (n, rm) \<leftarrow> modrm_rm (pc + 1) (local_opr s 8) s;
     let len = len + n;
     rm \<leftarrow> operand_read rm s;
     x \<leftarrow> sign_ext_64 (o_val rm) 8;
     y \<leftarrow> sign_ext_64 (o_val ax) 16;
     quotient \<leftarrow> alu_idiv x y 8;
     remainder \<leftarrow> alu_imod x y;
     s \<leftarrow> operand_write ((reg_opr s REG_AH 8)\<lparr>o_val := remainder\<rparr>) s;
     s \<leftarrow> operand_write ((reg_opr s REG_AL 8)\<lparr>o_val := quotient\<rparr>) s;
     Some (len, s)
   }"

definition idiv_f7 :: instr_func where
  "idiv_f7 pc opcode s = do {
     let len = 1;
     a \<leftarrow> operand_read (reg_opr s REG_EAX (data_size s)) s;
     d \<leftarrow> operand_read (reg_opr s REG_EDX (data_size s)) s;
     (n, rm) \<leftarrow> modrm_rm (pc + 1) (local_opr s (data_size s)) s;
     let len = len + n;
     rm \<leftarrow> operand_read rm s;
     (x, y) \<leftarrow>
       (if data_size s = 16 then do {
          x \<leftarrow> sign_ext_64 (o_val rm) 16;
          y \<leftarrow> sign_ext_64 (push_bit 16 (o_val d) OR o_val a) 32;
          Some (x, y)
        }
        else do {
          x \<leftarrow> sign_ext_64 (o_val rm) 32;
          Some (x, push_bit 32 (ucast (o_val d)) OR ucast (o_val a))
        });
     quotient \<leftarrow> alu_idiv x y (data_size s);
     remainder \<leftarrow> alu_imod x y;
     s \<leftarrow> operand_write (a\<lparr>o_val := quotient\<rparr>) s;
     s \<leftarrow> operand_write (d\<lparr>o_val := remainder\<rparr>) s;
     Some (len, s)
   }"

text \<open>\<open>cltd.c\<close>: the sign is that of the 32-bit variable, whatever the operand size.\<close>

definition cltd :: instr_func where
  "cltd pc opcode s = do {
     let ax = reg_opr s REG_AX (data_size s);
     let dx = reg_opr s REG_DX (data_size s);
     ax \<leftarrow> operand_read ax s;
     let dxval = (if bit (o_val ax) 31 then NOT 0 else 0);
     s \<leftarrow> operand_write (dx\<lparr>o_val := dxval\<rparr>) s;
     Some (1, s)
   }"

end
