(* ===== verification/Devices.thy ===== *)
theory Devices
  imports Memory
begin

text \<open>
  The devices of \<open>nemu/src/device\<close>: the interrupt controller \<open>i8259_pic.c\<close>, the port bus
  \<open>io/port_io.c\<close>, and the handlers of \<open>dev/ide.c\<close>, \<open>serial.c\<close>, \<open>timer.c\<close>, \<open>keyboard.c\<close>,
  \<open>vga.c\<close> and \<open>gpu.c\<close>. The host's clock, its SDL event queue and the screen surface are inputs and
  outputs: the time and the pending events are arguments, the pixels a field of the state.
\<close>

section \<open>The interrupt controller\<close>

definition I8259_NO_INTR :: u8 where "I8259_NO_INTR = 255"
definition IRQ_BASE :: u8 where "IRQ_BASE = 32"

definition i8259_query_intr_no :: "machine \<Rightarrow> u8" where
  "i8259_query_intr_no s = i8259_intr_no s"

text \<open>The comparison of the priorities is on \<open>int\<close>, where the difference can be negative.\<close>

definition i8259_raise_intr :: "u8 \<Rightarrow> machine \<Rightarrow> machine" where
  "i8259_raise_intr irq_no s =
     (let s = (if i8259_intr_no s = I8259_NO_INTR \<or>
                  i8259_intr_no s \<noteq> I8259_NO_INTR \<and> uint irq_no > uint (i8259_intr_no s) - uint IRQ_BASE
               then s\<lparr>i8259_intr_no := irq_no + IRQ_BASE\<rparr> else s)
      in s\<lparr>intr := 1\<rparr>)"

definition i8259_ack_intr :: "machine \<Rightarrow> machine" where
  "i8259_ack_intr s = s\<lparr>i8259_intr_no := I8259_NO_INTR, intr := 0\<rparr>"

definition i8259_init :: "machine \<Rightarrow> machine" where
  "i8259_init s = s\<lparr>i8259_intr_no := I8259_NO_INTR\<rparr>"

section \<open>The port space\<close>

definition in_ports :: "u16 \<Rightarrow> nat \<Rightarrow> bool" where
  "in_ports port len \<longleftrightarrow> unat port + len \<le> 65536 \<and> len \<le> 4"

definition write_io_port :: "u16 \<Rightarrow> nat \<Rightarrow> u32 \<Rightarrow> machine \<Rightarrow> machine option" where
  "write_io_port port len data s =
     (if in_ports port len then Some (s\<lparr>io_port := mem_put (io_port s) port len data\<rparr>) else None)"

definition read_io_port :: "machine \<Rightarrow> u16 \<Rightarrow> nat \<Rightarrow> u32 option" where
  "read_io_port s port len = (if in_ports port len then Some (mem_get (io_port s) port len) else None)"

section \<open>The disk controller\<close>

definition IDE_PORT_BASE :: u16 where "IDE_PORT_BASE = 0x1F0"
definition IDE_IRQ :: u8 where "IDE_IRQ = 14"

definition init_ide :: "u8 list \<Rightarrow> machine \<Rightarrow> machine option" where
  "init_ide file s =
     write_io_port (IDE_PORT_BASE + 7) 1 0x40 (s\<lparr>ide := (ide s)\<lparr>disk_data := file, disk_pos := 0, disk_idx := 0\<rparr>\<rparr>)"

text \<open>
  \<open>fread(&buf, 4, 1, disk_fp)\<close> stores the bytes that are there and advances over them. A seek to a
  position that is negative as a signed 32-bit offset fails and moves nothing.
\<close>

definition disk_fread4 :: "machine \<Rightarrow> u32 \<times> machine" where
  "disk_fread4 s =
     (let pos = disk_pos (ide s); n = min 4 (length (disk_data (ide s)) - pos)
      in (disk_word s pos 4, s\<lparr>ide := (ide s)\<lparr>disk_pos := pos + n\<rparr>\<rparr>))"

definition disk_fseek :: "u32 \<Rightarrow> machine \<Rightarrow> machine" where
  "disk_fseek off s = (if bit off 31 then s else s\<lparr>ide := (ide s)\<lparr>disk_pos := unat off\<rparr>\<rparr>)"

definition ide_count :: "machine \<Rightarrow> machine option" where
  "ide_count s =
     (let s = s\<lparr>ide := (ide s)\<lparr>byte_cnt := byte_cnt (ide s) + 4\<rparr>\<rparr>
      in if byte_cnt (ide s) = 512 then write_io_port (IDE_PORT_BASE + 7) 1 0x40 s else Some s)"

definition ide_command :: "machine \<Rightarrow> machine option" where
  "ide_command s = do {
     cmd \<leftarrow> read_io_port s (IDE_PORT_BASE + 7) 1;
     if cmd = 0x20 \<or> cmd = 0x30 then do {
       r6 \<leftarrow> read_io_port s (IDE_PORT_BASE + 6) 1;
       r5 \<leftarrow> read_io_port s (IDE_PORT_BASE + 5) 1;
       r4 \<leftarrow> read_io_port s (IDE_PORT_BASE + 4) 1;
       r3 \<leftarrow> read_io_port s (IDE_PORT_BASE + 3) 1;
       let sec = push_bit 24 (r6 AND 0x1f) OR push_bit 16 r5 OR push_bit 8 r4 OR r3;
       let s = s\<lparr>ide := (ide s)\<lparr>sector := sec, disk_idx := push_bit 9 sec\<rparr>\<rparr>;
       let s = disk_fseek (disk_idx (ide s)) s;
       let s = s\<lparr>ide := (ide s)\<lparr>byte_cnt := 0\<rparr>\<rparr>;
       if cmd = 0x20 then do {
         let s = s\<lparr>ide := (ide s)\<lparr>ide_write := False\<rparr>\<rparr>;
         s \<leftarrow> write_io_port (IDE_PORT_BASE + 7) 1 0x40 s;
         Some (i8259_raise_intr IDE_IRQ s)
       }
       else Some (s\<lparr>ide := (ide s)\<lparr>ide_write := True\<rparr>\<rparr>)
     }
     else if cmd = 0xc8 then Some s
     else None
   }"

definition handler_ide :: "u16 \<Rightarrow> nat \<Rightarrow> bool \<Rightarrow> machine \<Rightarrow> machine option" where
  "handler_ide port len is_write s =
     (if \<not> byte_cnt (ide s) \<le> 512 then None
      else if is_write then
        if port = IDE_PORT_BASE \<and> len = 4 then
          if \<not> ide_write (ide s) then None
          else do { buf \<leftarrow> read_io_port s IDE_PORT_BASE 4; ide_count s }
        else if port = IDE_PORT_BASE + 7 then ide_command s
        else Some s
      else
        if port = IDE_PORT_BASE \<and> len = 4 then
          if ide_write (ide s) then None
          else do {
            let (buf, s) = disk_fread4 s;
            s \<leftarrow> write_io_port IDE_PORT_BASE 4 buf s;
            ide_count s
          }
        else Some s)"

section \<open>Serial line, timer, keyboard\<close>

definition SERIAL_PORT :: u16 where "SERIAL_PORT = 0x3F8"
definition TIMER_PORT :: u16 where "TIMER_PORT = 0x40"
definition TIMER_IRQ :: u8 where "TIMER_IRQ = 0"
definition KEYBOARD_DATA_PORT :: u16 where "KEYBOARD_DATA_PORT = 0x60"
definition KEYBOARD_IRQ :: u8 where "KEYBOARD_IRQ = 1"

definition handler_serial :: "u16 \<Rightarrow> nat \<Rightarrow> bool \<Rightarrow> machine \<Rightarrow> machine option" where
  "handler_serial port len is_write s =
     (if is_write then
        if len \<noteq> 1 then None
        else if port = SERIAL_PORT then do {
          c \<leftarrow> read_io_port s port 1;
          Some (s\<lparr>serial_out := serial_out s @ [ucast c]\<rparr>)
        }
        else Some s
      else Some s)"

definition init_serial :: "machine \<Rightarrow> machine option" where
  "init_serial s = write_io_port (SERIAL_PORT + 5) 1 0x20 s"

definition timer_intr :: "machine \<Rightarrow> machine" where
  "timer_intr s = (if nemu_st s = NEMU_RUN then i8259_raise_intr TIMER_IRQ s else s)"

definition do_timer :: "u64 \<Rightarrow> machine \<Rightarrow> machine" where
  "do_timer current_time s =
     (if timer_active (timer s) \<and> current_time - timer_last_time (timer s) \<ge> time_interval (timer s)
      then let s = timer_intr s in s\<lparr>timer := (timer s)\<lparr>timer_last_time := current_time\<rparr>\<rparr>
      else s)"

definition timer_start :: "u64 \<Rightarrow> int \<Rightarrow> machine \<Rightarrow> machine option" where
  "timer_start current_time hz s =
     (if hz = 0 then None
      else Some (s\<lparr>timer := \<lparr>timer_active = True, timer_last_time = current_time,
                             time_interval = word_of_int (1000 sdiv hz)\<rparr>\<rparr>))"

definition timer_stop :: "machine \<Rightarrow> machine" where
  "timer_stop s = s\<lparr>timer := (timer s)\<lparr>timer_active := False\<rparr>\<rparr>"

definition handler_timer :: "u16 \<Rightarrow> nat \<Rightarrow> bool \<Rightarrow> machine \<Rightarrow> machine option" where
  "handler_timer port len is_write s = Some s"

definition sym2scancode :: "u8 list list" where
  "sym2scancode = [
   [0, 0, 0, 0, 0, 0, 0, 0, 14, 15, 0, 0, 0, 28, 0, 0, 0, 0, 0, 0, 0, 0, 0, 0, 0, 0, 0, 1, 0, 0, 0, 0,
    57, 0, 0, 0, 0, 0, 0, 40, 0, 0, 0, 0, 51, 12, 52, 53, 11, 2, 3, 4, 5, 6, 7, 8, 9, 10, 0, 39, 0, 13, 0, 0,
    0, 0, 0, 0, 0, 0, 0, 0, 0, 0, 0, 0, 0, 0, 0, 0, 0, 0, 0, 0, 0, 0, 0, 0, 0, 0, 0, 26, 43, 27, 0, 0,
    41, 30, 48, 46, 32, 18, 33, 34, 35, 23, 36, 37, 38, 50, 49, 24, 25, 16, 19, 31, 20, 22, 47, 17, 45, 21, 44, 0, 0, 0, 0, 83],
   [0, 0, 0, 0, 0, 0, 0, 0, 0, 0, 0, 0, 0, 0, 0, 0, 0, 72, 80, 77, 75, 82, 71, 79, 73, 81, 59, 60, 61, 62, 63, 64,
    65, 66, 67, 68, 87, 88, 0, 0, 0, 0, 0, 0, 69, 58, 70, 54, 42, 29, 29, 56, 56, 0, 0, 0, 0, 0, 0, 0, 0, 0, 0, 0,
    0, 0, 0, 0, 0, 0, 0, 0, 0, 0, 0, 0, 0, 0, 0, 0, 0, 0, 0, 0, 0, 0, 0, 0, 0, 0, 0, 0, 0, 0, 0, 0,
    0, 0, 0, 0, 0, 0, 0, 0, 0, 0, 0, 0, 0, 0, 0, 0, 0, 0, 0, 0, 0, 0, 0, 0, 0, 0, 0, 0, 0, 0, 0, 0]]"

text \<open>An index outside the two rows of 128 codes is out of the array's bounds.\<close>

definition scancode :: "u32 \<Rightarrow> u8 option" where
  "scancode keysym =
     (let r = unat (drop_bit 8 keysym); c = unat (keysym AND 0xff)
      in if r < 2 \<and> c < 128 then Some (sym2scancode ! r ! c) else None)"

definition keyboard_down :: "u32 \<Rightarrow> machine \<Rightarrow> machine option" where
  "keyboard_down keysym s = do {
     code \<leftarrow> scancode keysym;
     let s = s\<lparr>keyboard := (keyboard s)\<lparr>scan_code_buf := code\<rparr>\<rparr>;
     Some (i8259_raise_intr KEYBOARD_IRQ s)
   }"

definition keyboard_up :: "u32 \<Rightarrow> machine \<Rightarrow> machine option" where
  "keyboard_up keysym s = do {
     code \<leftarrow> scancode keysym;
     let s = s\<lparr>keyboard := (keyboard s)\<lparr>scan_code_buf := code OR 0x80\<rparr>\<rparr>;
     Some (i8259_raise_intr KEYBOARD_IRQ s)
   }"

definition handler_keyboard_data :: "u16 \<Rightarrow> nat \<Rightarrow> bool \<Rightarrow> machine \<Rightarrow> machine option" where
  "handler_keyboard_data port len is_write s =
     (if \<not> is_write then write_io_port port len (ucast (scan_code_buf (keyboard s))) s else Some s)"

definition keyboard_start :: "u64 \<Rightarrow> machine \<Rightarrow> machine" where
  "keyboard_start current_time s =
     s\<lparr>keyboard := (keyboard s)\<lparr>keyboard_active := True, keyboard_last_time := current_time\<rparr>\<rparr>"

definition keyboard_stop :: "machine \<Rightarrow> machine" where
  "keyboard_stop s = s\<lparr>keyboard := (keyboard s)\<lparr>keyboard_active := False\<rparr>\<rparr>"

datatype SDL_Event = SDL_QUIT | SDL_KEYDOWN u32 | SDL_KEYUP u32 | SDL_OTHER

fun handle_event :: "SDL_Event \<Rightarrow> machine \<Rightarrow> machine option" where
  "handle_event SDL_QUIT s =
     Some (s\<lparr>nemu_st := NEMU_STOP, keyboard := (keyboard s)\<lparr>keyboard_active := False\<rparr>\<rparr>)"
| "handle_event (SDL_KEYDOWN keysym) s = keyboard_down keysym s"
| "handle_event (SDL_KEYUP keysym) s = keyboard_up keysym s"
| "handle_event SDL_OTHER s = Some s"

definition do_keyboard :: "u64 \<Rightarrow> SDL_Event list \<Rightarrow> machine \<Rightarrow> machine option" where
  "do_keyboard current_time events s =
     (if keyboard_active (keyboard s) \<and> current_time - keyboard_last_time (keyboard s) \<ge> 1 then do {
        s \<leftarrow> foldM handle_event events s;
        Some (s\<lparr>keyboard := (keyboard s)\<lparr>keyboard_last_time := current_time\<rparr>\<rparr>)
      }
      else Some s)"

section \<open>VGA\<close>

definition VGA_DAC_READ_INDEX :: u16 where "VGA_DAC_READ_INDEX = 0x3C7"
definition VGA_DAC_WRITE_INDEX :: u16 where "VGA_DAC_WRITE_INDEX = 0x3C8"
definition VGA_DAC_DATA :: u16 where "VGA_DAC_DATA = 0x3C9"
definition VGA_CRTC_INDEX :: u16 where "VGA_CRTC_INDEX = 0x3D4"
definition VGA_CRTC_DATA :: u16 where "VGA_CRTC_DATA = 0x3D5"
definition VGA_HZ :: int where "VGA_HZ = 25"

definition draw_pixel :: "nat \<Rightarrow> nat \<Rightarrow> u8 \<Rightarrow> (nat \<Rightarrow> nat \<Rightarrow> u8) \<Rightarrow> (nat \<Rightarrow> nat \<Rightarrow> u8)" where
  "draw_pixel x y color_idx buf = buf(y := (buf y)(x := color_idx))"

text \<open>One dirty line: each of its pixels is drawn as a square of four.\<close>

definition draw_cell :: "(u32 \<Rightarrow> u8) \<Rightarrow> u32 \<Rightarrow> nat \<Rightarrow> nat \<Rightarrow> (nat \<Rightarrow> nat \<Rightarrow> u8) \<Rightarrow> (nat \<Rightarrow> nat \<Rightarrow> u8)" where
  "draw_cell pool base' i j buf =
     (let color_idx = pool (base' + of_nat (i * CTR_COL + j));
          buf = draw_pixel (2 * j) (2 * i) color_idx buf;
          buf = draw_pixel (2 * j) (2 * i + 1) color_idx buf;
          buf = draw_pixel (2 * j + 1) (2 * i) color_idx buf
      in draw_pixel (2 * j + 1) (2 * i + 1) color_idx buf)"

definition draw_line :: "(u32 \<Rightarrow> u8) \<Rightarrow> u32 \<Rightarrow> nat \<Rightarrow> (nat \<Rightarrow> nat \<Rightarrow> u8) \<Rightarrow> (nat \<Rightarrow> nat \<Rightarrow> u8)" where
  "draw_line pool base' i buf = fold (draw_cell pool base' i) [0..<CTR_COL] buf"

definition do_update_screen_graphic_mode :: "machine \<Rightarrow> machine" where
  "do_update_screen_graphic_mode s =
     (let v = vga s;
          buf = fold (\<lambda>i buf. if line_dirty v i
                               then draw_line (mmio_space_pool (mmio s)) (Nemu_State.vmem_base v) i buf else buf)
                     [0..<CTR_ROW] (pixel_buf v)
      in s\<lparr>vga := v\<lparr>pixel_buf := buf\<rparr>\<rparr>)"

definition update_screen :: "machine \<Rightarrow> machine" where
  "update_screen s =
     (if vmem_dirty (vga s) then
        let s = do_update_screen_graphic_mode s
        in s\<lparr>vga := (vga s)\<lparr>vmem_dirty := False,
               line_dirty := (\<lambda>i. if i < CTR_ROW then False else line_dirty (vga s) i)\<rparr>\<rparr>
      else s)"

text \<open>
  The palette is 256 entries of four bytes. A store through the null pointer or behind the table is
  undefined; the call of \<open>SDL_SetPalette\<close> at the end of the table changes no modelled state.
\<close>

definition vga_dac_io_handler :: "u16 \<Rightarrow> nat \<Rightarrow> bool \<Rightarrow> machine \<Rightarrow> machine option" where
  "vga_dac_io_handler port len is_write s =
     (if port = VGA_DAC_WRITE_INDEX \<and> is_write then do {
        n \<leftarrow> read_io_port s port 1;
        Some (s\<lparr>vga := (vga s)\<lparr>color_ptr := Some (4 * unat n)\<rparr>\<rparr>)
      }
      else if port = VGA_DAC_DATA \<and> is_write then do {
        p \<leftarrow> color_ptr (vga s);
        if \<not> p < 1024 then None else do {
          b \<leftarrow> read_io_port s port 1;
          let p' = p + 1;
          let p'' = (if p' mod 4 = 3 then p' + 1 else p');
          Some (s\<lparr>vga := (vga s)\<lparr>palette := (palette (vga s))(p := ucast (push_bit 2 b)),
                                 color_ptr := Some p''\<rparr>\<rparr>)
        }
      }
      else Some s)"

definition vga_crtc_io_handler :: "u16 \<Rightarrow> nat \<Rightarrow> bool \<Rightarrow> machine \<Rightarrow> machine option" where
  "vga_crtc_io_handler port len is_write s =
     (if port = VGA_CRTC_INDEX \<and> is_write then do {
        n \<leftarrow> read_io_port s port 1;
        if unat n < 19 then write_io_port (port + 1) 1 (ucast (vga_crtc_regs (vga s) (unat n))) s else None
      }
      else if port = VGA_CRTC_DATA \<and> is_write then do {
        n \<leftarrow> read_io_port s VGA_CRTC_INDEX 1;
        v \<leftarrow> read_io_port s VGA_CRTC_DATA 1;
        if unat n < 19 then
          Some (s\<lparr>vga := (vga s)\<lparr>vga_crtc_regs := (vga_crtc_regs (vga s))(unat n := ucast v)\<rparr>\<rparr>)
        else None
      }
      else Some s)"

definition vga_init :: "u64 \<Rightarrow> machine \<Rightarrow> machine option" where
  "vga_init current_time s = do {
     (space, m) \<leftarrow> add_mmio_map 0xa0000 0x20000 Vga_vmem_io_handler (mmio s);
     Some (s\<lparr>mmio := m, vga := (vga s)\<lparr>Nemu_State.vmem_base := space, vga_active := True,
                vga_time_interval := word_of_int (1000 sdiv VGA_HZ), vga_last_time := current_time\<rparr>\<rparr>)
   }"

definition vga_close :: "machine \<Rightarrow> machine" where
  "vga_close s =
     s\<lparr>vga := (vga s)\<lparr>vmem_dirty := False, vga_active := False\<rparr>, mmio := clear_mmio_map (mmio s)\<rparr>"

definition do_vga :: "u64 \<Rightarrow> machine \<Rightarrow> machine" where
  "do_vga current_time s =
     (if vga_active (vga s) \<and> current_time - vga_last_time (vga s) \<ge> vga_time_interval (vga s)
      then let s = update_screen s in s\<lparr>vga := (vga s)\<lparr>vga_last_time := current_time\<rparr>\<rparr>
      else s)"

text \<open>\<open>do_devices\<close> of \<open>sdl.c\<close>: each device reads the clock for itself.\<close>

definition do_devices :: "u64 \<Rightarrow> u64 \<Rightarrow> u64 \<Rightarrow> SDL_Event list \<Rightarrow> machine \<Rightarrow> machine option" where
  "do_devices t1 t2 t3 events s = do {
     let s = do_timer t1 s;
     s \<leftarrow> do_keyboard t2 events s;
     Some (do_vga t3 s)
   }"

section \<open>GPU\<close>

definition GPU_DATA_PORT_BASE :: u16 where "GPU_DATA_PORT_BASE = 0x5da"
definition GPU_CMD_PORT :: u16 where "GPU_CMD_PORT = 0x5de"

definition gpu_data_handler :: "u16 \<Rightarrow> nat \<Rightarrow> bool \<Rightarrow> machine \<Rightarrow> machine option" where
  "gpu_data_handler port len is_write s =
     (if \<not> is_write then Some s
      else if \<not> (port \<ge> GPU_DATA_PORT_BASE \<and> port < GPU_DATA_PORT_BASE + 4) then None
      else do {
        b \<leftarrow> read_io_port s port 1;
        Some (s\<lparr>gpu_addr := bf_put (8 * unat (port - GPU_DATA_PORT_BASE)) 8 b (gpu_addr s)\<rparr>)
      })"

text \<open>\<open>LOAD\<close> copies a structure out of the guest's memory byte by byte; its fields are then read from the copy.\<close>

definition gpu_load :: "machine \<Rightarrow> u32 \<Rightarrow> nat \<Rightarrow> u8 list option" where
  "gpu_load s addr n = mapM (\<lambda>i. map_option ucast (vaddr_read s (addr + of_nat i) SREG_DS 1)) [0..<n]"

definition get_u16 :: "u8 list \<Rightarrow> nat \<Rightarrow> u16" where
  "get_u16 bs i = ucast (bs ! i) OR push_bit 8 (ucast (bs ! (i + 1)))"

definition get_u32 :: "u8 list \<Rightarrow> nat \<Rightarrow> u32" where
  "get_u32 bs i = ucast (get_u16 bs i) OR push_bit 16 (ucast (get_u16 bs (i + 2)))"

text \<open>
  The layout of \<open>SDL_Surface\<close> on the 32-bit target: \<open>w\<close> at 8, \<open>pixels\<close> at 32, 36 bytes in all;
  of \<open>SDL_Rect\<close>: \<open>x\<close>, \<open>y\<close>, \<open>w\<close>, \<open>h\<close> at 0, 2, 4, 6.
\<close>

definition gpu_pixel :: "u32 \<Rightarrow> u32 \<Rightarrow> u32 \<Rightarrow> u32 \<Rightarrow> u32 \<Rightarrow> u32 \<Rightarrow> machine \<Rightarrow> machine option" where
  "gpu_pixel spix sw dpix dw y x s = do {
     data \<leftarrow> vaddr_read s (spix + y * sw + x) SREG_DS 1;
     vaddr_write s (dpix + y * dw + x) SREG_DS 1 (data AND 0xff)
   }"

definition gpu_cmd_handler :: "u16 \<Rightarrow> nat \<Rightarrow> bool \<Rightarrow> machine \<Rightarrow> machine option" where
  "gpu_cmd_handler port len is_write s =
     (if \<not> is_write then Some s else do {
        cmd \<leftarrow> gpu_load s (gpu_addr s) 16;
        srcs \<leftarrow> gpu_load s (get_u32 cmd 0) 36;
        dsts \<leftarrow> gpu_load s (get_u32 cmd 4) 36;
        srcr \<leftarrow> gpu_load s (get_u32 cmd 8) 8;
        dstr \<leftarrow> gpu_load s (get_u32 cmd 12) 8;
        let x0 = scast (get_u16 srcr 0);
        let y0 = scast (get_u16 srcr 2);
        foldM (\<lambda>dy. foldM (\<lambda>dx. gpu_pixel (get_u32 srcs 32) (get_u32 srcs 8) (get_u32 dsts 32) (get_u32 dsts 8)
                                    (y0 + of_nat dy) (x0 + of_nat dx))
                      [0..<unat (get_u16 srcr 4)])
          [0..<unat (get_u16 srcr 6)] s
      })"

section \<open>The port bus\<close>

definition pio_handler_table :: "(u16 \<times> (u16 \<Rightarrow> nat \<Rightarrow> bool \<Rightarrow> machine \<Rightarrow> machine option)) list" where
  "pio_handler_table =
     [(IDE_PORT_BASE + 0, handler_ide), (IDE_PORT_BASE + 1, handler_ide),
      (IDE_PORT_BASE + 2, handler_ide), (IDE_PORT_BASE + 3, handler_ide),
      (IDE_PORT_BASE + 4, handler_ide), (IDE_PORT_BASE + 5, handler_ide),
      (IDE_PORT_BASE + 6, handler_ide), (IDE_PORT_BASE + 7, handler_ide),
      (KEYBOARD_DATA_PORT, handler_keyboard_data),
      (SERIAL_PORT + 0, handler_serial), (SERIAL_PORT + 1, handler_serial),
      (SERIAL_PORT + 2, handler_serial), (SERIAL_PORT + 3, handler_serial),
      (SERIAL_PORT + 4, handler_serial), (SERIAL_PORT + 5, handler_serial),
      (SERIAL_PORT + 6, handler_serial), (SERIAL_PORT + 7, handler_serial),
      (TIMER_PORT + 0, handler_timer), (TIMER_PORT + 1, handler_timer),
      (TIMER_PORT + 2, handler_timer), (TIMER_PORT + 3, handler_timer),
      (VGA_DAC_READ_INDEX, vga_dac_io_handler), (VGA_DAC_WRITE_INDEX, vga_dac_io_handler),
      (VGA_DAC_DATA, vga_dac_io_handler), (VGA_CRTC_INDEX, vga_crtc_io_handler),
      (VGA_CRTC_DATA, vga_crtc_io_handler),
      (GPU_DATA_PORT_BASE + 0, gpu_data_handler), (GPU_DATA_PORT_BASE + 1, gpu_data_handler),
      (GPU_DATA_PORT_BASE + 2, gpu_data_handler), (GPU_DATA_PORT_BASE + 3, gpu_data_handler),
      (GPU_CMD_PORT, gpu_cmd_handler)]"

definition pio_handle :: "u16 \<Rightarrow> nat \<Rightarrow> bool \<Rightarrow> machine \<Rightarrow> machine option" where
  "pio_handle port len is_write s =
     (case map_of pio_handler_table port of None \<Rightarrow> None | Some handler \<Rightarrow> handler port len is_write s)"

definition pio_write :: "u16 \<Rightarrow> nat \<Rightarrow> u32 \<Rightarrow> machine \<Rightarrow> machine option" where
  "pio_write port len data s =
     (if \<not> len_ok len then None else do { s \<leftarrow> write_io_port port len data s; pio_handle port len True s })"

definition pio_read :: "u16 \<Rightarrow> nat \<Rightarrow> machine \<Rightarrow> (u32 \<times> machine) option" where
  "pio_read port len s =
     (if \<not> len_ok len then None else do {
        s \<leftarrow> pio_handle port len False s;
        v \<leftarrow> read_io_port s port len;
        Some (v, s)
      })"

end
