(* ===== verification/Instr_Move.thy ===== *)
theory Instr_Move
  imports Instr_Arith Devices
begin

text \<open>
  The instructions of \<open>nemu/src/cpu/instr\<close> that move data: \<open>mov.c\<close>, \<open>cmov.c\<close>, \<open>setcc.c\<close>,
  \<open>lea.c\<close>, the stack (\<open>push.c\<close>, \<open>pop.c\<close>, \<open>leave.c\<close>), the string operations (\<open>movs.c\<close>,
  \<open>cmps.c\<close>, \<open>stos.c\<close>), the ports (\<open>in.c\<close>, \<open>out.c\<close>), the descriptor tables (\<open>lgdt.c\<close>,
  \<open>lidt.c\<close>), and the flags (\<open>flags.c\<close>, \<open>cli.c\<close>, \<open>sti.c\<close>).
\<close>

section \<open>mov, cmov, setcc, lea\<close>

definition mov_execute :: "machine \<Rightarrow> machine option" where
  "mov_execute s = do {
     s \<leftarrow> read_src s;
     write_dest (o_val (opr_src s)) s
   }"

definition mov_r2rm_b :: instr_func where "mov_r2rm_b = make_instr_impl decode_operand_r2rm sf_b mov_execute"
definition mov_r2rm_v :: instr_func where "mov_r2rm_v = make_instr_impl decode_operand_r2rm sf_v mov_execute"
definition mov_rm2r_b :: instr_func where "mov_rm2r_b = make_instr_impl decode_operand_rm2r sf_b mov_execute"
definition mov_rm2r_v :: instr_func where "mov_rm2r_v = make_instr_impl decode_operand_rm2r sf_v mov_execute"
definition mov_i2rm_b :: instr_func where "mov_i2rm_b = make_instr_impl decode_operand_i2rm sf_b mov_execute"
definition mov_i2rm_v :: instr_func where "mov_i2rm_v = make_instr_impl decode_operand_i2rm sf_v mov_execute"
definition mov_i2r_b :: instr_func where "mov_i2r_b = make_instr_impl decode_operand_i2r sf_b mov_execute"
definition mov_i2r_v :: instr_func where "mov_i2r_v = make_instr_impl decode_operand_i2r sf_v mov_execute"
definition mov_a2o_b :: instr_func where "mov_a2o_b = make_instr_impl decode_operand_a2o sf_b mov_execute"
definition mov_a2o_v :: instr_func where "mov_a2o_v = make_instr_impl decode_operand_a2o sf_v mov_execute"
definition mov_o2a_b :: instr_func where "mov_o2a_b = make_instr_impl decode_operand_o2a sf_b mov_execute"
definition mov_o2a_v :: instr_func where "mov_o2a_v = make_instr_impl decode_operand_o2a sf_v mov_execute"

definition mov_zrm82r_v :: instr_func where
  "mov_zrm82r_v pc opcode s = do {
     let len = 1;
     (n, r, rm) \<leftarrow> modrm_r_rm (pc + 1) (local_opr s (data_size s)) (local_opr s 8) s;
     let len = len + n;
     rm \<leftarrow> operand_read rm s;
     s \<leftarrow> operand_write (r\<lparr>o_val := o_val rm\<rparr>) s;
     Some (len, s)
   }"

definition mov_zrm162r_l :: instr_func where
  "mov_zrm162r_l pc opcode s = do {
     let len = 1;
     (n, r, rm) \<leftarrow> modrm_r_rm (pc + 1) (local_opr s 32) (local_opr s 16) s;
     let len = len + n;
     rm \<leftarrow> operand_read rm s;
     s \<leftarrow> operand_write (r\<lparr>o_val := o_val rm\<rparr>) s;
     Some (len, s)
   }"

definition mov_srm82r_v :: instr_func where
  "mov_srm82r_v pc opcode s = do {
     let len = 1;
     (n, r, rm) \<leftarrow> modrm_r_rm (pc + 1) (local_opr s (data_size s)) (local_opr s 8) s;
     let len = len + n;
     rm \<leftarrow> operand_read rm s;
     v \<leftarrow> sign_ext (o_val rm) 8;
     s \<leftarrow> operand_write (r\<lparr>o_val := v\<rparr>) s;
     Some (len, s)
   }"

definition mov_srm162r_l :: instr_func where
  "mov_srm162r_l pc opcode s = do {
     let len = 1;
     (n, r, rm) \<leftarrow> modrm_r_rm (pc + 1) (local_opr s 32) (local_opr s 16) s;
     let len = len + n;
     rm \<leftarrow> operand_read rm s;
     v \<leftarrow> sign_ext (o_val rm) 16;
     s \<leftarrow> operand_write (r\<lparr>o_val := v\<rparr>) s;
     Some (len, s)
   }"

definition mov_8e :: instr_func where
  "mov_8e pc opcode s = do {
     let len = 1;
     (n, sreg, rm) \<leftarrow> modrm_r_rm (pc + len) (local_opr s 16) (local_opr s 16) s;
     let len = len + n;
     let sreg = sreg\<lparr>o_type := OPR_SREG\<rparr>;
     rm \<leftarrow> operand_read rm s;
     s \<leftarrow> operand_write (sreg\<lparr>o_val := o_val rm\<rparr>) s;
     s \<leftarrow> load_sreg (unat (o_addr sreg)) s;
     Some (len, s)
   }"

definition mov_8c :: instr_func where
  "mov_8c pc opcode s = do {
     let len = 1;
     (n, sreg, rm) \<leftarrow> modrm_r_rm (pc + len) (local_opr s 16) (local_opr s 16) s;
     let len = len + n;
     let sreg = sreg\<lparr>o_type := OPR_SREG\<rparr>;
     sreg \<leftarrow> operand_read sreg s;
     s \<leftarrow> operand_write (rm\<lparr>o_val := o_val sreg\<rparr>) s;
     Some (len, s)
   }"

definition mov_from_cr :: instr_func where
  "mov_from_cr pc opcode s = do {
     let len = 1;
     (n, cr, rm) \<leftarrow> modrm_r_rm (pc + len) (local_opr s 32) (local_opr s 32) s;
     let len = len + n;
     let cr = cr\<lparr>o_type := OPR_CREG\<rparr>;
     cr \<leftarrow> operand_read cr s;
     s \<leftarrow> operand_write (rm\<lparr>o_val := o_val cr\<rparr>) s;
     Some (len, s)
   }"

definition mov_to_cr :: instr_func where
  "mov_to_cr pc opcode s = do {
     let len = 1;
     (n, cr, rm) \<leftarrow> modrm_r_rm (pc + len) (local_opr s 32) (local_opr s 32) s;
     let len = len + n;
     let cr = cr\<lparr>o_type := OPR_CREG\<rparr>;
     rm \<leftarrow> operand_read rm s;
     s \<leftarrow> operand_write (cr\<lparr>o_val := o_val rm\<rparr>) s;
     Some (len, s)
   }"

definition cmov_cc :: "(machine \<Rightarrow> bool) \<Rightarrow> instr_func" where
  "cmov_cc cond = make_instr_impl_cc decode_operand_rm2r sf_v cond
     (\<lambda>s. do { s \<leftarrow> read_src s; write_dest (o_val (opr_src s)) s }) Some"

definition setcc :: "(machine \<Rightarrow> bool) \<Rightarrow> instr_func" where
  "setcc cond = make_instr_impl_cc decode_operand_rm sf_b cond (write_src 1) (write_src 0)"

definition lea_8d :: instr_func where
  "lea_8d pc opcode s = do {
     let len = 1;
     (n, r, m) \<leftarrow> modrm_r_rm (pc + len) (local_opr s (data_size s)) (local_opr s (data_size s)) s;
     let len = len + n;
     s \<leftarrow> operand_write (r\<lparr>o_val := o_addr m\<rparr>) s;
     Some (len, s)
   }"

section \<open>The stack\<close>

definition pop :: "nat \<Rightarrow> machine \<Rightarrow> (u32 \<times> machine) option" where
  "pop sz s = do {
     esp \<leftarrow> operand_read (reg_opr s REG_ESP 32) s;
     stack \<leftarrow> operand_read (mem_opr s SREG_SS (o_val esp) sz) s;
     s \<leftarrow> operand_write (esp\<lparr>o_val := o_val esp + of_nat (o_size stack div 8)\<rparr>) s;
     Some (o_val stack, s)
   }"

definition push :: "u32 \<Rightarrow> nat \<Rightarrow> machine \<Rightarrow> machine option" where
  "push data sz s = do {
     esp \<leftarrow> operand_read (reg_opr s REG_ESP 32) s;
     let esp = esp\<lparr>o_val := o_val esp - of_nat (sz div 8)\<rparr>;
     s \<leftarrow> operand_write esp s;
     operand_write ((mem_opr s SREG_SS (o_val esp) sz)\<lparr>o_val := data\<rparr>) s
   }"

definition pop_8f :: instr_func where
  "pop_8f pc opcode s = do {
     let len = 1;
     (n, m) \<leftarrow> modrm_rm (pc + len) (local_opr s (data_size s)) s;
     let len = len + n;
     if o_type m \<noteq> OPR_MEM then None else do {
       (v, s) \<leftarrow> pop (o_size m) s;
       s \<leftarrow> operand_write (m\<lparr>o_val := v\<rparr>) s;
       Some (len, s)
     }
   }"

definition pop_58 :: instr_func where
  "pop_58 pc opcode s = do {
     let len = 1;
     let r = reg_opr s (ucast (opcode mod 8)) (data_size s);
     (v, s) \<leftarrow> pop (o_size r) s;
     s \<leftarrow> operand_write (r\<lparr>o_val := v\<rparr>) s;
     Some (len, s)
   }"

text \<open>The assignment of a popped value to a register of the union, \<open>cpu.edi = pop(32)\<close>.\<close>

definition pop_to :: "nat \<Rightarrow> machine \<Rightarrow> machine option" where
  "pop_to r s = do { (v, s) \<leftarrow> pop 32 s; Some (set_gpr r v s) }"

definition popa :: instr_func where
  "popa pc opcode s = do {
     s \<leftarrow> pop_to 7 s;
     s \<leftarrow> pop_to 6 s;
     s \<leftarrow> pop_to 5 s;
     let s = set_gpr 4 (esp s + 4) s;
     s \<leftarrow> pop_to 3 s;
     s \<leftarrow> pop_to 2 s;
     s \<leftarrow> pop_to 1 s;
     s \<leftarrow> pop_to 0 s;
     Some (1, s)
   }"

definition push_ff :: instr_func where
  "push_ff pc opcode s = do {
     let len = 1;
     (n, m) \<leftarrow> modrm_rm (pc + len) (local_opr s (data_size s)) s;
     let len = len + n;
     if o_type m \<noteq> OPR_MEM then None else do {
       m \<leftarrow> operand_read m s;
       s \<leftarrow> push (o_val m) (o_size m) s;
       Some (len, s)
     }
   }"

definition push_50 :: instr_func where
  "push_50 pc opcode s = do {
     r \<leftarrow> operand_read (reg_opr s (ucast (opcode mod 8)) (data_size s)) s;
     s \<leftarrow> push (o_val r) (o_size r) s;
     Some (1, s)
   }"

definition push_6a :: instr_func where
  "push_6a pc opcode s = do {
     let len = 1;
     let imm = imm_opr s (pc + len) 8;
     let len = len + size_bytes imm;
     imm \<leftarrow> operand_read imm s;
     s \<leftarrow> push (o_val imm) (data_size s) s;
     Some (len, s)
   }"

definition push_68 :: instr_func where
  "push_68 pc opcode s = do {
     let len = 1;
     let imm = imm_opr s (pc + len) (data_size s);
     let len = len + size_bytes imm;
     imm \<leftarrow> operand_read imm s;
     s \<leftarrow> push (o_val imm) (o_size imm) s;
     Some (len, s)
   }"

text \<open>A selector is pushed with the 16 bits of its C type.\<close>

definition PUSH_SEGREG :: "nat \<Rightarrow> machine \<Rightarrow> machine option" where
  "PUSH_SEGREG r s = push (ucast (sr_val (segReg s r))) 16 s"

definition push_cs :: instr_func where "push_cs pc opcode s = do { s \<leftarrow> PUSH_SEGREG SREG_CS s; Some (1, s) }"
definition push_ss :: instr_func where "push_ss pc opcode s = do { s \<leftarrow> PUSH_SEGREG SREG_SS s; Some (1, s) }"
definition push_ds :: instr_func where "push_ds pc opcode s = do { s \<leftarrow> PUSH_SEGREG SREG_DS s; Some (1, s) }"
definition push_es :: instr_func where "push_es pc opcode s = do { s \<leftarrow> PUSH_SEGREG SREG_ES s; Some (1, s) }"
definition push_fs :: instr_func where "push_fs pc opcode s = do { s \<leftarrow> PUSH_SEGREG SREG_FS s; Some (2, s) }"
definition push_gs :: instr_func where "push_gs pc opcode s = do { s \<leftarrow> PUSH_SEGREG SREG_GS s; Some (2, s) }"

definition pusha :: instr_func where
  "pusha pc opcode s = do {
     let tmp = esp s;
     s \<leftarrow> push (eax s) 32 s;
     s \<leftarrow> push (ecx s) 32 s;
     s \<leftarrow> push (edx s) 32 s;
     s \<leftarrow> push (ebx s) 32 s;
     s \<leftarrow> push tmp 32 s;
     s \<leftarrow> push (ebp s) 32 s;
     s \<leftarrow> push (esi s) 32 s;
     s \<leftarrow> push (edi s) 32 s;
     Some (1, s)
   }"

definition leave_c9 :: instr_func where
  "leave_c9 pc opcode s = do {
     let len = 1;
     let sp = reg_opr s REG_SP 32;
     let bp = reg_opr s REG_BP 32;
     bp \<leftarrow> operand_read bp s;
     s \<leftarrow> operand_write (sp\<lparr>o_val := o_val bp\<rparr>) s;
     let bp = bp\<lparr>o_size := data_size s\<rparr>;
     (v, s) \<leftarrow> pop 32 s;
     s \<leftarrow> operand_write (bp\<lparr>o_val := v\<rparr>) s;
     Some (len, s)
   }"

section \<open>String operations\<close>

definition string_step :: "nat \<Rightarrow> machine \<Rightarrow> u32" where
  "string_step n s = (if \<not> DF (eflags s) then of_nat n else - of_nat n)"

definition add_gpr :: "nat \<Rightarrow> u32 \<Rightarrow> machine \<Rightarrow> machine" where
  "add_gpr r v s = set_gpr r (gpr s r + v) s"

definition movs_v :: instr_func where
  "movs_v pc opcode s = do {
     let msi = mem_opr s SREG_DS (esi s) (data_size s);
     let mdi = mem_opr s SREG_DS (edi s) (data_size s);
     msi \<leftarrow> operand_read msi s;
     s \<leftarrow> operand_write (mdi\<lparr>o_val := o_val msi\<rparr>) s;
     let incDec = string_step (data_size s div 8) s;
     let s = add_gpr 6 incDec s;
     let s = add_gpr 7 incDec s;
     Some (1, s)
   }"

definition movs_b :: instr_func where
  "movs_b pc opcode s = do {
     let msi = mem_opr s SREG_DS (esi s) 8;
     let mdi = mem_opr s SREG_DS (edi s) 8;
     msi \<leftarrow> operand_read msi s;
     s \<leftarrow> operand_write (mdi\<lparr>o_val := o_val msi\<rparr>) s;
     let incDec = string_step 1 s;
     let s = add_gpr 6 incDec s;
     let s = add_gpr 7 incDec s;
     Some (1, s)
   }"

definition cmps_v :: instr_func where
  "cmps_v pc opcode s = do {
     let msi = mem_opr s SREG_DS (esi s) (data_size s);
     let mdi = mem_opr s SREG_DS (edi s) (data_size s);
     msi \<leftarrow> operand_read msi s;
     mdi \<leftarrow> operand_read mdi s;
     let (v, s) = alu2 alu_sub (o_val mdi) (o_val msi) (data_size s) s;
     let incDec = string_step (data_size s div 8) s;
     let s = add_gpr 6 incDec s;
     let s = add_gpr 7 incDec s;
     Some (1, s)
   }"

definition cmps_b :: instr_func where
  "cmps_b pc opcode s = do {
     let msi = mem_opr s SREG_DS (esi s) 8;
     let mdi = mem_opr s SREG_DS (edi s) 8;
     msi \<leftarrow> operand_read msi s;
     mdi \<leftarrow> operand_read mdi s;
     let (v, s) = alu2 alu_sub (o_val mdi) (o_val msi) (data_size s) s;
     let incDec = string_step 1 s;
     let s = add_gpr 6 incDec s;
     let s = add_gpr 7 incDec s;
     Some (1, s)
   }"

definition stos_b :: instr_func where
  "stos_b pc opcode s = do {
     let mdi = mem_opr s SREG_ES (edi s) 8;
     al \<leftarrow> operand_read (reg_opr s REG_AL 8) s;
     let incDec = string_step 1 s;
     let s = add_gpr 7 incDec s;
     s \<leftarrow> operand_write (mdi\<lparr>o_val := o_val al\<rparr>) s;
     Some (1, s)
   }"

definition stos_v :: instr_func where
  "stos_v pc opcode s = do {
     let mdi = mem_opr s SREG_ES (edi s) (data_size s);
     al \<leftarrow> operand_read (reg_opr s REG_AX (data_size s)) s;
     let incDec = string_step (data_size s div 8) s;
     let s = add_gpr 7 incDec s;
     s \<leftarrow> operand_write (mdi\<lparr>o_val := o_val al\<rparr>) s;
     Some (1, s)
   }"

section \<open>Ports\<close>

definition in_e4 :: instr_func where
  "in_e4 pc opcode s = do {
     let len = 1;
     imm \<leftarrow> operand_read (imm_opr s (pc + len) 8) s;
     (v, s) \<leftarrow> pio_read (ucast (o_val imm)) 1 s;
     s \<leftarrow> operand_write ((reg_opr s REG_EAX 8)\<lparr>o_val := v\<rparr>) s;
     Some (2, s)
   }"

definition in_e5 :: instr_func where
  "in_e5 pc opcode s = do {
     let len = 1;
     imm \<leftarrow> operand_read (imm_opr s (pc + len) 8) s;
     let len = len + size_bytes imm;
     (v, s) \<leftarrow> pio_read (ucast (o_val imm)) (data_size s div 8) s;
     s \<leftarrow> operand_write ((reg_opr s REG_EAX (data_size s))\<lparr>o_val := v\<rparr>) s;
     Some (len, s)
   }"

definition in_ec :: instr_func where
  "in_ec pc opcode s = do {
     let len = 1;
     src \<leftarrow> operand_read (reg_opr s REG_EDX 16) s;
     (v, s) \<leftarrow> pio_read (ucast (o_val src)) 1 s;
     s \<leftarrow> operand_write ((reg_opr s REG_EAX (data_size s))\<lparr>o_val := v\<rparr>) s;
     Some (len, s)
   }"

definition in_ed :: instr_func where
  "in_ed pc opcode s = do {
     let len = 1;
     src \<leftarrow> operand_read (reg_opr s REG_EDX 16) s;
     (v, s) \<leftarrow> pio_read (ucast (o_val src)) (data_size s div 8) s;
     s \<leftarrow> operand_write ((reg_opr s REG_EAX (data_size s))\<lparr>o_val := v\<rparr>) s;
     Some (len, s)
   }"

definition out_e6 :: instr_func where
  "out_e6 pc opcode s = do {
     let len = 1;
     imm \<leftarrow> operand_read (imm_opr s (pc + len) 8) s;
     let len = len + size_bytes imm;
     al \<leftarrow> operand_read (reg_opr s REG_EAX 8) s;
     s \<leftarrow> pio_write (ucast (o_val imm)) 1 (o_val al) s;
     Some (len, s)
   }"

text \<open>The immediate is never read: the port is whatever the local variable held.\<close>

definition out_e7 :: instr_func where
  "out_e7 pc opcode s = do {
     let len = 1;
     let imm = imm_opr s (pc + len) 8;
     let len = len + size_bytes imm;
     al \<leftarrow> operand_read (reg_opr s REG_EAX 8) s;
     s \<leftarrow> pio_write (ucast (o_val imm)) (data_size s div 8) (o_val al) s;
     Some (len, s)
   }"

definition out_ee :: instr_func where
  "out_ee pc opcode s = do {
     dst \<leftarrow> operand_read (reg_opr s REG_EDX 16) s;
     content \<leftarrow> operand_read (reg_opr s REG_EAX 8) s;
     s \<leftarrow> pio_write (ucast (o_val dst)) 1 (o_val content) s;
     Some (1, s)
   }"

definition out_ef :: instr_func where
  "out_ef pc opcode s = do {
     dst \<leftarrow> operand_read (reg_opr s REG_EDX 16) s;
     content \<leftarrow> operand_read (reg_opr s REG_EAX (data_size s)) s;
     s \<leftarrow> pio_write (ucast (o_val dst)) (data_size s div 8) (o_val content) s;
     Some (1, s)
   }"

section \<open>Descriptor tables and flags\<close>

definition lgdt :: instr_func where
  "lgdt pc opcode s = do {
     let len = 1;
     (n, mem) \<leftarrow> modrm_rm (pc + len) (local_opr s 4) s;
     let len = len + n;
     limit \<leftarrow> laddr_read s (o_addr mem) 2;
     base' \<leftarrow> laddr_read s (o_addr mem + 2) 4;
     Some (len, s\<lparr>gdtr_base := base', gdtr_limit := ucast limit\<rparr>)
   }"

definition lidt :: instr_func where
  "lidt pc opcode s = do {
     let len = 1;
     (n, mem) \<leftarrow> modrm_rm (pc + len) (local_opr s 4) s;
     let len = len + n;
     limit \<leftarrow> instr_fetch s (o_addr mem) 2;
     offset \<leftarrow> instr_fetch s (o_addr mem + 2) 4;
     Some (len, s\<lparr>idtr_limit := ucast limit, idtr_base := offset\<rparr>)
   }"

definition cld :: instr_func where "cld pc opcode s = Some (1, s\<lparr>eflags := put_DF False (eflags s)\<rparr>)"
definition clc :: instr_func where "clc pc opcode s = Some (1, s\<lparr>eflags := put_CF False (eflags s)\<rparr>)"
definition cli :: instr_func where "cli pc opcode s = Some (1, s\<lparr>eflags := put_IF False (eflags s)\<rparr>)"
definition sti :: instr_func where "sti pc opcode s = Some (1, s\<lparr>eflags := put_IF True (eflags s)\<rparr>)"

definition sahf :: instr_func where
  "sahf pc opcode s =
     Some (1, s\<lparr>eflags := (eflags s AND 0xffff0000) OR ucast (gpr_8 1 (gpr s 0))\<rparr>)"

end
