(* ===== verification/Instr_Control.thy ===== *)
theory Instr_Control
  imports Instr_Move
begin

text \<open>
  Control transfers: \<open>nemu/src/cpu/intr.c\<close>, and \<open>jcc.c\<close>, \<open>jmp.c\<close>, \<open>call.c\<close>, \<open>ret.c\<close>,
  \<open>int_.c\<close>, \<open>iret.c\<close>, \<open>hlt.c\<close>, \<open>nop.c\<close>, \<open>inv.c\<close> and \<open>nemu_trap.c\<close> of \<open>nemu/src/cpu/instr\<close>. The
  caller adds the returned length to \<open>eip\<close> afterwards; a handler that has set \<open>eip\<close> itself returns 0.
\<close>

section \<open>Interrupts\<close>

definition gate_offset_15_0 :: "u32 \<Rightarrow> u32 \<Rightarrow> u32" where "gate_offset_15_0 v0 v1 = bf_get 0 16 v0"
definition gate_selector :: "u32 \<Rightarrow> u32 \<Rightarrow> u32" where "gate_selector v0 v1 = bf_get 16 16 v0"
definition gate_type :: "u32 \<Rightarrow> u32 \<Rightarrow> u32" where "gate_type v0 v1 = bf_get 8 4 v1"
definition gate_offset_31_16 :: "u32 \<Rightarrow> u32 \<Rightarrow> u32" where "gate_offset_31_16 v0 v1 = bf_get 16 16 v1"

definition set_cs :: "u16 \<Rightarrow> machine \<Rightarrow> machine" where
  "set_cs v s = s\<lparr>segReg := (segReg s)(SREG_CS := (segReg s SREG_CS)\<lparr>sr_val := v\<rparr>)\<rparr>"

definition raise_intr :: "u8 \<Rightarrow> machine \<Rightarrow> machine option" where
  "raise_intr intr_no s = do {
     s \<leftarrow> push (eflags s) 32 s;
     s \<leftarrow> push (ucast (sr_val (segReg s SREG_CS))) 32 s;
     s \<leftarrow> push (eip s) 32 s;
     if \<not> unat intr_no < unat (idtr_limit s) then None else do {
       let addr = idtr_base s + ucast intr_no * 8;
       v0 \<leftarrow> laddr_read s addr 4;
       v1 \<leftarrow> laddr_read s (addr + 4) 4;
       if gate_type v0 v1 = 0x5 then None
       else if gate_type v0 v1 = 0x6 \<or> gate_type v0 v1 = 0x7 then None
       else
         let s = (if gate_type v0 v1 = 0xe then s\<lparr>eflags := put_IF False (eflags s)\<rparr> else s);
             s = set_cs (ucast (gate_selector v0 v1)) s
         in Some (s\<lparr>eip := push_bit 16 (gate_offset_31_16 v0 v1) OR gate_offset_15_0 v0 v1\<rparr>)
     }
   }"

definition raise_sw_intr :: "u8 \<Rightarrow> machine \<Rightarrow> machine option" where
  "raise_sw_intr intr_no s = raise_intr intr_no (s\<lparr>eip := eip s + 2\<rparr>)"

definition int_3 :: instr_func where
  "int_3 pc opcode s = do { s \<leftarrow> raise_intr 3 s; Some (1, s) }"

definition int_imm :: instr_func where
  "int_imm pc opcode s = do {
     let len = 1;
     let imm = imm_opr s (pc + len) 8;
     imm \<leftarrow> operand_read imm s;
     s \<leftarrow> raise_sw_intr (ucast (o_val imm)) s;
     Some (0, s)
   }"

definition into :: instr_func where
  "into pc opcode s = do {
     s \<leftarrow> (if OF (eflags s) then raise_intr 4 s else Some s);
     Some (1, s)
   }"

definition iret :: instr_func where
  "iret pc opcode s =
     (if \<not> cr0_pe (cr0 s) then None else do {
        (v, s) \<leftarrow> pop 32 s;
        let s = s\<lparr>eip := v\<rparr>;
        (v, s) \<leftarrow> pop 32 s;
        let s = set_cs (ucast v) s;
        (v, s) \<leftarrow> pop 32 s;
        let s = s\<lparr>eflags := v\<rparr>;
        Some (0, s)
      })"

section \<open>Jumps\<close>

definition jcc_pass :: "machine \<Rightarrow> machine option" where
  "jcc_pass s = do {
     s \<leftarrow> read_src s;
     v \<leftarrow> sign_ext (o_val (opr_src s)) (o_size (opr_src s));
     Some (s\<lparr>eip := eip s + v\<rparr>)
   }"

definition jcc :: "suffix \<Rightarrow> (machine \<Rightarrow> bool) \<Rightarrow> instr_func" where
  "jcc sf cond = make_instr_impl_cc decode_operand_i sf cond jcc_pass Some"

definition jmp_near :: instr_func where
  "jmp_near pc opcode s = do {
     rel \<leftarrow> operand_read (imm_opr s (pc + 1) (data_size s)) s;
     offset \<leftarrow> sign_ext (o_val rel) (data_size s);
     Some (1 + size_bytes rel, s\<lparr>eip := eip s + offset\<rparr>)
   }"

definition jmp_eb :: instr_func where
  "jmp_eb pc opcode s = do {
     let len = 1;
     let rel = imm_opr s (pc + len) 8;
     let len = len + size_bytes rel;
     rel \<leftarrow> operand_read rel s;
     offset \<leftarrow> sign_ext (o_val rel) 8;
     Some (len, s\<lparr>eip := eip s + offset\<rparr>)
   }"

definition jmp_near_indirect :: instr_func where
  "jmp_near_indirect pc opcode s = do {
     let len = 1;
     (n, rm) \<leftarrow> modrm_rm (pc + len) (local_opr s (data_size s)) s;
     rm \<leftarrow> operand_read rm s;
     Some (0, s\<lparr>eip := o_val rm\<rparr>)
   }"

definition desc_present :: "SegDesc \<Rightarrow> bool" where "desc_present d = bit (sd_val1 d) 15"

definition jmp_far :: instr_func where
  "jmp_far pc opcode s = do {
     offset \<leftarrow> instr_fetch s (pc + 1) 4;
     sel \<leftarrow> instr_fetch s (pc + 1 + 4) 2;
     let selector = (ucast sel :: u16);
     let s = (if \<not> cr0_pe (cr0 s) \<or> cr0_pe (cr0 s) \<and> VM (eflags s)
              then (set_cs selector s)\<lparr>eip := offset\<rparr> else s);
     if cr0_pe (cr0 s) \<and> \<not> VM (eflags s) then do {
       desc \<leftarrow> get_seg_desc s (ucast selector);
       if \<not> desc_present desc then None
       else if \<not> offset < get_limit desc then None
       else do {
         let s = (set_cs selector s)\<lparr>eip := offset\<rparr>;
         s \<leftarrow> load_sreg SREG_CS s;
         Some (0, s)
       }
     }
     else Some (0, s)
   }"

section \<open>Calls and returns\<close>

definition call_e8 :: instr_func where
  "call_e8 pc opcode s = do {
     let len = 1;
     let cw = imm_opr s (pc + len) (data_size s);
     let len = len + size_bytes cw;
     cw \<leftarrow> operand_read cw s;
     s \<leftarrow> push (eip s + len) (data_size s) s;
     if data_size s = 16 then Some (len, s\<lparr>eip := (eip s + o_val cw) AND 0x0000FFFF\<rparr>)
     else Some (len, s\<lparr>eip := eip s + o_val cw\<rparr>)
   }"

definition call_ff_2 :: instr_func where
  "call_ff_2 pc opcode s = do {
     let len = 1;
     (n, rm) \<leftarrow> modrm_rm (pc + len) (local_opr s (data_size s)) s;
     let len = len + n;
     rm \<leftarrow> operand_read rm s;
     s \<leftarrow> push (eip s + len) (data_size s) s;
     if data_size s = 16 then Some (0, s\<lparr>eip := o_val rm AND 0x0000FFFF\<rparr>)
     else Some (0, s\<lparr>eip := o_val rm\<rparr>)
   }"

definition call_ff_3 :: instr_func where
  "call_ff_3 pc opcode s = do {
     let len = 1;
     s \<leftarrow> push (ucast (sr_val (segReg s SREG_CS))) (data_size s) s;
     s \<leftarrow> push (eip s + 2 + of_nat (data_size s div 8)) (data_size s) s;
     s \<leftarrow>
       (if cr0_pe (cr0 s) \<and> \<not> VM (eflags s) \<or> \<not> cr0_pe (cr0 s) then do {
          offset \<leftarrow> instr_fetch s (eip s + len) (data_size s div 8);
          let len = len + of_nat (data_size s div 8);
          segment \<leftarrow> instr_fetch s (eip s + len) 2;
          Some ((set_cs (ucast segment) s)\<lparr>eip := offset\<rparr>)
        }
        else None);
     s \<leftarrow> load_sreg SREG_CS s;
     Some (0, s)
   }"

definition ret_c3 :: instr_func where
  "ret_c3 pc opcode s = do {
     (v, s) \<leftarrow> pop (data_size s) s;
     let s = s\<lparr>eip := v\<rparr>;
     let s = (if data_size s = 16 then s\<lparr>eip := eip s AND 0xFFFF\<rparr> else s);
     Some (0, s)
   }"

text \<open>\<open>esp\<close> is read back where it should be written: its sum with the immediate is lost.\<close>

definition ret_c2 :: instr_func where
  "ret_c2 pc opcode s = do {
     let len = 1;
     let imm = imm_opr s (eip s + len) 16;
     imm \<leftarrow> operand_read imm s;
     (v, s) \<leftarrow> pop (data_size s) s;
     let s = s\<lparr>eip := v\<rparr>;
     let s = (if data_size s = 16 then s\<lparr>eip := eip s AND 0xFFFF\<rparr> else s);
     esp \<leftarrow> operand_read (reg_opr s REG_ESP 32) s;
     let esp = esp\<lparr>o_val := o_val esp + o_val imm\<rparr>;
     esp \<leftarrow> operand_read esp s;
     Some (0, s)
   }"

section \<open>The rest\<close>

definition nop :: instr_func where "nop pc opcode s = Some (1, s)"

definition hlt :: instr_func where "hlt pc opcode s = Some (1, s\<lparr>is_nemu_hlt := True\<rparr>)"

text \<open>\<open>inv\<close> shows the bytes around \<open>eip\<close> and fails its \<open>assert(0)\<close>.\<close>

definition inv :: instr_func where
  "inv pc opcode s = do {
     let pc = (if has_prefix s then pc - 1 else pc);
     temp0 \<leftarrow> instr_fetch s pc 4;
     temp1 \<leftarrow> instr_fetch s (pc + 4) 4;
     None
   }"

text \<open>
  Trap 4 prints \<open>edx\<close> bytes from \<open>ecx\<close> on; the output of the guest, as that of the serial line,
  goes to the host's standard output. Trap 110 only calls the scoring hook.
\<close>

definition trap_putchar :: "u32 \<Rightarrow> nat \<Rightarrow> machine \<Rightarrow> machine option" where
  "trap_putchar a i s = do {
     c \<leftarrow> vaddr_read s (a + of_nat i) SREG_DS 1;
     Some (s\<lparr>serial_out := serial_out s @ [ucast c]\<rparr>)
   }"

definition nemu_trap :: instr_func where
  "nemu_trap pc opcode s = do {
     s \<leftarrow> (if eax s = 4 then foldM (trap_putchar (ecx s)) [0..<unat (edx s)] s
          else if eax s = 110 then Some s
          else Some (s\<lparr>nemu_st := NEMU_STOP\<rparr>));
     Some (1, s)
   }"

definition break_point :: instr_func where
  "break_point pc opcode s = Some (1, s\<lparr>nemu_st := NEMU_BREAK\<rparr>)"

end
