(* ===== verification/Memory_Correct.thy ===== *)
theory Memory_Correct
  imports Memory
begin

text \<open>
  What the memory path does: when an access succeeds, that it reads and writes the bytes it should whatever page
  boundary it crosses, and that the bytes written are read back, on plain RAM and through the page tables.
\<close>

section \<open>Bounds\<close>

lemma unat_MEM_SIZE_B: "unat MEM_SIZE_B = 0x8000000"
  by (simp add: MEM_SIZE_B_def)

lemma mem_ok_iff:
  "n \<le> 4 \<Longrightarrow> mem_check p n \<and> in_array p n \<longleftrightarrow> unat p + n < 0x8000000"
proof -
  assume n: "n \<le> 4"
  have "unat (p + of_nat n) = unat p + n" if "unat p + n < 2 ^ 32"
    using that n by (subst unat_add_lem[THEN iffD1]) (simp_all add: unat_of_nat)
  then show ?thesis
    using n by (auto simp: mem_check_def in_array_def unat_MEM_SIZE_B word_less_nat_alt)
qed

lemma hw_mem_read_eq:
  "n \<le> 4 \<Longrightarrow> hw_mem_read s p n = (if unat p + n < 0x8000000 then Some (mem_get (hw_mem s) p n) else None)"
  using mem_ok_iff [of n p] by (auto simp: hw_mem_read_def)

lemma hw_mem_write_eq:
  "n \<le> 4 \<Longrightarrow> hw_mem_write s p n d =
     (if unat p + n < 0x8000000 then Some (s\<lparr>hw_mem := mem_put (hw_mem s) p n d\<rparr>) else None)"
  using mem_ok_iff [of n p] by (auto simp: hw_mem_write_def)

lemma mem_check_ok: "n \<le> 4 \<Longrightarrow> unat p + n < 0x8000000 \<Longrightarrow> mem_check p n"
  using mem_ok_iff by blast

lemma paddr_ram:
  assumes "n \<le> 4" "unat p + n < 0x8000000" "is_mmio (mmio s) p = None"
  shows "paddr_read s p n = Some (mem_get (hw_mem s) p n)"
    and "paddr_write s p n d = Some (s\<lparr>hw_mem := mem_put (hw_mem s) p n d\<rparr>)"
  using assms by (simp_all add: paddr_read_def paddr_write_def mem_check_ok hw_mem_read_eq hw_mem_write_eq)

section \<open>Page crossings\<close>

text \<open>How many bytes are left in the page of an address.\<close>

definition page_rest :: "u32 \<Rightarrow> nat" where "page_rest a = 4096 - unat a mod 4096"

lemma page_rest_bounds: "1 \<le> page_rest a" "page_rest a \<le> 4096"
  by (simp_all add: page_rest_def Suc_le_eq)

lemma unat_add_nat: "unat (a + of_nat k) = (unat a + k) mod 2 ^ 32" for a :: u32
  by (simp add: unat_word_ariths unat_of_nat mod_simps)

lemma unat_less_32: "unat a < 4294967296" for a :: u32
  using unsigned_less [of a] by simp

lemma unat_round: "unat (x div 4096 * 4096) = unat x div 4096 * 4096" for x :: u32
proof -
  have "unat x div 4096 * 4096 < 4294967296"
    using unat_less_32 [of x] div_times_less_eq_dividend [of "unat x" 4096]
    by (rule order_le_less_trans [rotated])
  then show ?thesis by (simp add: unat_word_ariths unat_div)
qed

lemma unat_PAGE: "unat (PAGE a) = unat a div 4096 * 4096"
proof -
  have "PAGE a = push_bit 12 (drop_bit 12 a)"
  proof (rule bit_word_eqI)
    fix i assume i: "i < LENGTH(32)"
    have "(0xfffff000 :: u32) = NOT (mask 12)" by (simp add: mask_eq_exp_minus_1)
    then have "PAGE a = a AND NOT (mask 12)" by (simp only: PAGE_def)
    with i show "bit (PAGE a) i = bit (push_bit 12 (drop_bit 12 a)) i"
      by (auto simp: bit_simps)
  qed
  also have "\<dots> = a div 4096 * 4096" by (simp add: push_bit_eq_mult drop_bit_eq_div)
  finally show ?thesis by (simp add: unat_round)
qed

lemma split_page:
  fixes a :: u32
  obtains q r where "unat a = 4096 * q + r" "r < 4096" "q < 1048576"
proof (rule that)
  show "unat a = 4096 * (unat a div 4096) + unat a mod 4096" by simp
  show "unat a mod 4096 < 4096" by simp
  show "unat a div 4096 < 1048576" using unat_less_32 [of a] by (simp add: less_mult_imp_div_less)
qed

lemma page_arith:
  fixes q r k :: nat
  assumes "r < 4096" "q < 1048576" "k \<le> 4096"
  shows "(4096 * q + r + k) mod 4294967296 =
     (if r + k < 4096 then 4096 * q + (r + k)
      else if Suc q < 1048576 then 4096 * (q + (r + k) div 4096) + (r + k) mod 4096
      else (r + k) - 4096)"
proof (cases "r + k < 4096")
  case True
  with assms show ?thesis by simp
next
  case False
  show ?thesis
  proof (cases "Suc q < 1048576")
    case True
    with assms False show ?thesis by simp
  next
    case q: False
    then have "4096 * q + r + k = (r + k - 4096) + 4294967296" using assms False by simp
    moreover have "r + k - 4096 < 4294967296" using assms by simp
    ultimately have "(4096 * q + r + k) mod 4294967296 = r + k - 4096"
      by (metis mod_add_self2 mod_less)
    with q False show ?thesis by simp
  qed
qed

lemma PAGE_eq_iff:
  assumes "1 \<le> n" "n \<le> 4096"
  shows "PAGE a = PAGE (a + of_nat n - 1) \<longleftrightarrow> n \<le> page_rest a"
proof -
  obtain k where k: "n = Suc k" "k \<le> 4095" using assms by (cases n) auto
  have e: "a + of_nat n - 1 = a + of_nat k" by (simp add: k)
  obtain q r where q: "unat a = 4096 * q + r" "r < 4096" "q < 1048576" by (rule split_page)
  have d: "(4096 * q + r) div 4096 = q" using q by simp
  have "(4096 * q + r + k) mod 4294967296 div 4096 = q \<longleftrightarrow> r + k < 4096"
    using q k
    by (auto simp: page_arith)
  with q k d show ?thesis
    unfolding e
    by (simp add: word_unat_eq_iff unat_PAGE unat_add_nat page_rest_def) linarith
qed

lemma NEXTPAGE_eq:
  assumes "page_rest a < 4096"
  shows "NEXTPAGE a = a + of_nat (page_rest a)"
proof -
  obtain q r where q: "unat a = 4096 * q + r" "r < 4096" "q < 1048576" by (rule split_page)
  have p: "page_rest a = 4096 - r" using q by (simp add: page_rest_def)
  with assms have "0 < r" using q by simp
  then have e: "unat a + 4095 = 4096 * Suc q + (r - 1)" using q by simp
  have "unat (NEXTPAGE a) = (unat a + 4095) mod 4294967296 div 4096 * 4096"
    using unat_add_nat [of a 4095] by (simp add: NEXTPAGE_def unat_round)
  also have "\<dots> = (if Suc q < 1048576 then 4096 * Suc q else 0)"
  proof (cases "Suc q < 1048576")
    case True
    with q have "(4096 * Suc q + (r - 1)) mod 4294967296 = 4096 * Suc q + (r - 1)"
      by (intro mod_less) simp
    moreover have "(4096 * Suc q + (r - 1)) div 4096 * 4096 = 4096 * Suc q"
      using q by (subst div_mult_self4) simp_all
    ultimately show ?thesis using True unfolding e by simp
  next
    case False
    with q have "4096 * Suc q = 4294967296" by simp
    then have "(4096 * Suc q + (r - 1)) mod 4294967296 = r - 1"
      using q by (simp only: mod_add_self1) simp
    then show ?thesis using False q unfolding e by simp
  qed
  also have "\<dots> = (unat a + (4096 - r)) mod 4294967296"
    using q by (cases "q = 1048575") (simp_all add: page_arith)
  finally show ?thesis
    using p by (simp add: word_unat_eq_iff unat_add_nat)
qed

lemma page_rest_next: "page_rest a < 4096 \<Longrightarrow> page_rest (NEXTPAGE a) = 4096"
  by (simp add: page_rest_def NEXTPAGE_def unat_round)

text \<open>An access that stays in its page is one physical access; one that does not is two.\<close>

lemma laddr_read_page:
  "1 \<le> n \<Longrightarrow> n \<le> page_rest a \<Longrightarrow> laddr_read s a n = do { p \<leftarrow> to_paddr s a; paddr_read s p n }"
  using PAGE_eq_iff [of n a] page_rest_bounds [of a] by (subst laddr_read.simps) simp

lemma laddr_write_page:
  "1 \<le> n \<Longrightarrow> n \<le> page_rest a \<Longrightarrow> laddr_write s a n d = do { p \<leftarrow> to_paddr s a; paddr_write s p n d }"
  using PAGE_eq_iff [of n a] page_rest_bounds [of a] by (subst laddr_write.simps) simp

lemma cross_rest:
  assumes "page_rest a < n" "n \<le> 4"
  shows "unat (NEXTPAGE a - a) = page_rest a" "NEXTPAGE a = a + of_nat (page_rest a)"
    "1 \<le> n - page_rest a" "n - page_rest a \<le> page_rest (NEXTPAGE a)" "\<not> n \<le> page_rest a"
    "\<not> 32 \<le> page_rest a * 8"
  using assms NEXTPAGE_eq [of a] page_rest_next [of a] by (simp_all add: unat_of_nat)

lemma laddr_read_cross:
  assumes c: "page_rest a < n" "n \<le> 4"
  shows "laddr_read s a n = do {
     p \<leftarrow> to_paddr s a; lo \<leftarrow> paddr_read s p (page_rest a);
     q \<leftarrow> to_paddr s (NEXTPAGE a); hi \<leftarrow> paddr_read s q (n - page_rest a);
     Some (push_bit (page_rest a * 8) hi OR lo) }"
proof -
  have "laddr_read s a n = do {
      lo \<leftarrow> laddr_read s a (page_rest a);
      hi \<leftarrow> laddr_read s (NEXTPAGE a) (n - page_rest a);
      Some (push_bit (page_rest a * 8) hi OR lo) }"
    using c PAGE_eq_iff [of n a] cross_rest [OF c]
    by (subst laddr_read.simps) (simp add: Let_def)
  then show ?thesis
    using cross_rest [OF c] page_rest_bounds [of a]
    by (simp add: laddr_read_page)
qed

lemma laddr_write_cross:
  assumes c: "page_rest a < n" "n \<le> 4"
  shows "laddr_write s a n d = do {
     p \<leftarrow> to_paddr s a;
     s1 \<leftarrow> paddr_write s p (page_rest a) (d AND (push_bit (page_rest a * 8) 1 - 1));
     q \<leftarrow> to_paddr s1 (NEXTPAGE a);
     paddr_write s1 q (n - page_rest a) (drop_bit (page_rest a * 8) d) }"
proof -
  have "laddr_write s a n d = do {
     s1 \<leftarrow> laddr_write s a (page_rest a) (d AND (push_bit (page_rest a * 8) 1 - 1));
     laddr_write s1 (NEXTPAGE a) (n - page_rest a) (drop_bit (page_rest a * 8) d) }"
    using c PAGE_eq_iff [of n a] cross_rest [OF c]
    by (subst laddr_write.simps) (simp add: Let_def)
  then show ?thesis
    using cross_rest [OF c] page_rest_bounds [of a]
    by (simp add: laddr_write_page)
qed

section \<open>Plain RAM\<close>

definition lram :: "machine \<Rightarrow> u32 \<Rightarrow> nat \<Rightarrow> bool" where
  "lram s la n \<longleftrightarrow> 1 \<le> n \<and> n \<le> 4 \<and> \<not> cr0_pg (cr0 s) \<and> unat la + n < 0x8000000 \<and>
     (\<forall>i\<in>set [0..<n]. is_mmio (mmio s) (la + of_nat i) = None)"

lemma mem_get_add:
  "mem_get m a (k + j) = push_bit (k * 8) (mem_get m (a + of_nat k) j) OR mem_get m a k"
  for a :: "'a::len word"
proof (induction k arbitrary: a)
  case (Suc k)
  have "mem_get m (a + 1) (k + j) = push_bit (k * 8) (mem_get m (a + of_nat (Suc k)) j) OR mem_get m (a + 1) k"
    using Suc.IH [of "a + 1"] by (simp add: add.assoc)
  then show ?case
    by (simp add: push_bit_push_bit or.assoc or.left_commute push_bit_or ac_simps)
qed simp

lemma mem_get_split:
  "k \<le> n \<Longrightarrow> mem_get m a n = push_bit (k * 8) (mem_get m (a + of_nat k) (n - k)) OR mem_get m a k"
  for a :: "'a::len word"
  using mem_get_add [of m a k "n - k"] by simp

lemma mem_put_apply:
  "n \<le> 4 \<Longrightarrow> 2 < LENGTH('a) \<Longrightarrow> mem_put m a n d b =
     (if unat (b - a) < n then ucast (drop_bit (8 * unat (b - a)) d) else m b)" for a :: "'a::len word"
proof (induction m a n d rule: mem_put.induct)
  case (1 m a d)
  show ?case by simp
next
  case (2 m a n d)
  show ?case
  proof (cases "b = a")
    case False
    then have "unat (b - a) \<noteq> 0" by (simp add: unat_eq_0)
    then have "8 * (unat (b - a) - 1) + 8 = 8 * unat (b - a)" by simp
    moreover have "unat (b - (a + 1)) = unat (b - a) - 1"
      using False by (simp add: diff_diff_add [symmetric] unat_minus_one)
    ultimately show ?thesis using 2 False
      by (auto simp: drop_bit_drop_bit simp del: One_nat_def)
  qed simp
qed

lemma lram_le: "lram s la n \<Longrightarrow> 1 \<le> k \<Longrightarrow> k \<le> n \<Longrightarrow> lram s la k"
  by (auto simp: lram_def)

lemma lram_shift:
  assumes "lram s la n" "k < n"
  shows "lram s (la + of_nat k) (n - k)"
proof -
  have u: "unat (la + of_nat k) = unat la + k"
    using assms by (simp add: lram_def unat_add_nat)
  have "is_mmio (mmio s) (la + of_nat k + of_nat i) = None" if "i < n - k" for i
  proof -
    have "\<forall>j<n. is_mmio (mmio s) (la + of_nat j) = None" using assms by (simp add: lram_def)
    from this [rule_format, of "k + i"] that show ?thesis by (simp add: add.assoc)
  qed
  with assms u show ?thesis by (auto simp: lram_def)
qed

lemma lram_paddr:
  assumes "lram s la n"
  shows "to_paddr s la = Some la" "paddr_read s la n = Some (mem_get (hw_mem s) la n)"
    "paddr_write s la n d = Some (s\<lparr>hw_mem := mem_put (hw_mem s) la n d\<rparr>)"
proof -
  have "is_mmio (mmio s) (la + of_nat 0) = None"
    using assms unfolding lram_def by (metis atLeastLessThan_iff less_le_trans less_numeral_extra(1) set_upt zero_le)
  then show "paddr_read s la n = Some (mem_get (hw_mem s) la n)"
    "paddr_write s la n d = Some (s\<lparr>hw_mem := mem_put (hw_mem s) la n d\<rparr>)"
    using assms by (simp_all add: lram_def paddr_ram)
qed (use assms in \<open>simp add: lram_def to_paddr_def\<close>)

lemma lram_hw_mem [simp]: "lram (s\<lparr>hw_mem := m\<rparr>) la n = lram s la n"
  by (simp add: lram_def)

lemma laddr_read_ram:
  assumes "lram s la n"
  shows "laddr_read s la n = Some (mem_get (hw_mem s) la n)"
proof (cases "n \<le> page_rest la")
  case True
  moreover have "1 \<le> n" using assms by (simp add: lram_def)
  ultimately show ?thesis using assms by (simp add: laddr_read_page lram_paddr)
next
  case False
  then have c: "page_rest la < n" "n \<le> 4" using assms by (auto simp: lram_def)
  note lo = lram_paddr [OF lram_le [OF assms page_rest_bounds(1) [of la]]]
  note hi = lram_paddr [OF lram_shift [OF assms c(1)]]
  from c show ?thesis
    by (simp add: laddr_read_cross lo hi cross_rest(2)) (simp add: mem_get_split [of "page_rest la" n])
qed

lemma unat_diff_nat:
  "k \<le> 4 \<Longrightarrow> unat (b - (a + of_nat k)) = (if k \<le> unat (b - a) then unat (b - a) - k else unat (b - a) + 4294967296 - k)"
  for a b :: u32
proof -
  assume k: "k \<le> 4"
  have "b - (a + of_nat k) = (b - a) - of_nat k" by simp
  moreover have "unat (of_nat k :: u32) = k" using k by (simp add: unat_of_nat)
  ultimately show ?thesis
    by (simp only: unat_sub_if') simp
qed

lemma mem_put_split:
  fixes a :: u32
  assumes "k \<le> n" "n \<le> 4"
  shows "mem_put (mem_put m a k (d AND (2 ^ (k * 8) - 1))) (a + of_nat k) (n - k) (drop_bit (k * 8) d)
    = mem_put m a n d"
proof (rule ext)
  fix b
  have m: "d AND (2 ^ (k * 8) - 1) = take_bit (k * 8) d"
    by (simp add: take_bit_eq_mask mask_eq_exp_minus_1)
  have e: "(ucast (drop_bit (8 * u) (take_bit (k * 8) d)) :: u8) = ucast (drop_bit (8 * u) d)" if "u < k" for u
    using that by (intro bit_word_eqI) (auto simp: bit_simps)
  show "mem_put (mem_put m a k (d AND (2 ^ (k * 8) - 1))) (a + of_nat k) (n - k) (drop_bit (k * 8) d) b
    = mem_put m a n d b"
  proof (cases "unat (b - a) < k")
    case True
    with assms have "\<not> unat (b - (a + of_nat k)) < n - k"
      by (simp add: unat_diff_nat)
    with True assms show ?thesis unfolding m by (simp add: mem_put_apply e)
  next
    case False
    with assms have "unat (b - (a + of_nat k)) = unat (b - a) - k"
      by (simp add: unat_diff_nat)
    moreover have "8 * (unat (b - a) - k) + k * 8 = 8 * unat (b - a)" using False by simp
    ultimately show ?thesis using False assms unfolding m by (auto simp: mem_put_apply drop_bit_drop_bit)
  qed
qed

lemma laddr_write_ram:
  assumes "lram s la n"
  shows "laddr_write s la n d = Some (s\<lparr>hw_mem := mem_put (hw_mem s) la n d\<rparr>)"
proof (cases "n \<le> page_rest la")
  case True
  moreover have "1 \<le> n" using assms by (simp add: lram_def)
  ultimately show ?thesis using assms by (simp add: laddr_write_page lram_paddr)
next
  case False
  then have c: "page_rest la < n" "n \<le> 4" using assms by (auto simp: lram_def)
  note lo = lram_paddr [OF lram_le [OF assms page_rest_bounds(1) [of la]]]
  have "lram (s\<lparr>hw_mem := m\<rparr>) (la + of_nat (page_rest la)) (n - page_rest la)" for m
    using lram_shift [OF assms c(1)] by simp
  note hi = lram_paddr [OF this]
  from c show ?thesis
    by (simp add: laddr_write_cross lo hi cross_rest(2) mem_put_split)
qed

section \<open>Translation, byte by byte\<close>

lemma same_page:
  fixes a :: u32
  assumes "k < page_rest a"
  shows "drop_bit 12 (a + of_nat k) = drop_bit 12 a" "la_offset (a + of_nat k) = la_offset a + of_nat k"
proof -
  obtain q r where q: "unat a = 4096 * q + r" "r < 4096" "q < 1048576" by (rule split_page)
  from assms q have k: "r + k < 4096" by (simp add: page_rest_def)
  with q have u: "unat (a + of_nat k) = 4096 * q + (r + k)" by (simp add: unat_add_nat page_arith)
  have "unat (drop_bit 12 (a + of_nat k)) = unat (drop_bit 12 a)"
    using q k by (simp add: drop_bit_eq_div unat_div u)
  then show "drop_bit 12 (a + of_nat k) = drop_bit 12 a" by (simp only: word_unat_eq_iff)
  have o: "unat (la_offset x) = unat x mod 4096" for x
    by (simp add: la_offset_def bf_get_def unsigned_take_bit_eq take_bit_eq_mod unat_mod)
  have m: "(4096 * q + (r + k)) mod 4096 = r + k" using k by (simp only: mod_mult_self4 mod_less)
  have "unat (la_offset (a + of_nat k)) = unat (la_offset a + of_nat k)"
    using q k m by (simp add: o u unat_add_nat add.assoc)
  then show "la_offset (a + of_nat k) = la_offset a + of_nat k" by (simp only: word_unat_eq_iff)
qed

lemma same_page_index:
  assumes "k < page_rest a"
  shows "la_page_entry_index (a + of_nat k) = la_page_entry_index a"
    "la_page_directory_index (a + of_nat k) = la_page_directory_index a"
proof -
  have "la_page_entry_index x = take_bit 10 (drop_bit 12 x)"
    "la_page_directory_index x = take_bit 10 (drop_bit 10 (drop_bit 12 x))" for x
    by (simp_all add: la_page_entry_index_def la_page_directory_index_def bf_get_def drop_bit_drop_bit)
  then show "la_page_entry_index (a + of_nat k) = la_page_entry_index a"
    "la_page_directory_index (a + of_nat k) = la_page_directory_index a"
    by (simp_all only: same_page [OF assms])
qed

lemma to_paddr_add:
  assumes "k < page_rest a"
  shows "to_paddr s (a + of_nat k) = map_option (\<lambda>p. p + of_nat k) (to_paddr s a)"
  using assms
  by (auto simp: to_paddr_def page_translate_def same_page_index same_page(2) Let_def add.assoc
      split: option.splits bind_splits)

lemma paddr_read_byte:
  assumes "maps (mmio s) = []" "paddr_read s p n = Some v" "n \<le> 4" "i < n"
  shows "unat (p + of_nat i) < 0x8000000" "take_bit 8 (drop_bit (8 * i) v) = ucast (hw_mem s (p + of_nat i))"
proof -
  from assms have v: "v = mem_get (hw_mem s) p n" "unat p + n < 0x8000000"
    by (auto simp: paddr_read_def is_mmio_def hw_mem_read_eq split: if_splits)
  with assms show "unat (p + of_nat i) < 0x8000000" by (simp add: unat_add_nat)
  show "take_bit 8 (drop_bit (8 * i) v) = ucast (hw_mem s (p + of_nat i))"
  proof (rule bit_word_eqI)
    fix b
    show "bit (take_bit 8 (drop_bit (8 * i) v)) b = bit (ucast (hw_mem s (p + of_nat i)) :: u32) b"
      using assms v by (cases "b < 8") (auto simp: bit_simps bit_mem_get dest: bit_imp_le_length)
  qed
qed

lemma laddr_read_byte:
  assumes m: "maps (mmio s) = []" and n: "1 \<le> n" "n \<le> 4" and v: "laddr_read s la n = Some v" and i: "i < n"
  shows "\<exists>p. to_paddr s (la + of_nat i) = Some p \<and> unat p < 0x8000000 \<and>
     take_bit 8 (drop_bit (8 * i) v) = ucast (hw_mem s p)"
proof (cases "n \<le> page_rest la")
  case True
  with n v obtain p where p: "to_paddr s la = Some p" "paddr_read s p n = Some v"
    by (auto simp: laddr_read_page split: bind_splits)
  show ?thesis
    using p paddr_read_byte [OF m p(2) n(2) i] i True by (auto simp: to_paddr_add)
next
  case False
  let ?k = "page_rest la"
  have c: "?k < n" "n \<le> 4" using False n by auto
  note x = cross_rest [OF c]
  from v c obtain p lo q hi where
    p: "to_paddr s la = Some p" "paddr_read s p ?k = Some lo"
    and q: "to_paddr s (NEXTPAGE la) = Some q" "paddr_read s q (n - ?k) = Some hi"
    and e: "v = push_bit (?k * 8) hi OR lo"
    by (auto simp: laddr_read_cross split: bind_splits)
  have lo: "lo = take_bit (8 * ?k) lo"
    using p(2) m c by (auto simp: paddr_read_def is_mmio_def hw_mem_read_eq mem_get_bound [symmetric] split: if_splits)
  show ?thesis
  proof (cases "i < ?k")
    case True
    have "take_bit 8 (drop_bit (8 * i) v) = take_bit 8 (drop_bit (8 * i) lo)"
      using True by (intro bit_word_eqI) (auto simp: e bit_simps)
    then show ?thesis
      using p paddr_read_byte [OF m p(2) _ True] c True by (auto simp: to_paddr_add)
  next
    case False
    define j where "j = i - ?k"
    have j: "i = ?k + j" "j < n - ?k" using False i by (auto simp: j_def)
    have "take_bit 8 (drop_bit (8 * i) v) = take_bit 8 (drop_bit (8 * j) hi)"
    proof (rule bit_word_eqI)
      fix b
      have "\<not> bit lo (8 * i + b)"
        by (subst lo) (simp add: bit_take_bit_iff j)
      moreover have "8 * i + b - ?k * 8 = 8 * j + b" "?k * 8 \<le> 8 * i + b" using j by simp_all
      moreover have "8 * i + b < 32" if "b < 8" using that i n by simp
      ultimately show "bit (take_bit 8 (drop_bit (8 * i) v)) b = bit (take_bit 8 (drop_bit (8 * j) hi)) b"
        by (auto simp: e bit_simps)
    qed
    moreover have la: "la + of_nat i = NEXTPAGE la + of_nat j" by (simp add: x(2) j)
    moreover have "n - ?k \<le> 4" using n by simp
    ultimately show ?thesis
      unfolding la
      using q paddr_read_byte [OF m q(2) _ j(2)] j x(4) by (auto simp: to_paddr_add)
  qed
qed

section \<open>What a write leaves alone\<close>

text \<open>A write changes the memory, the memory of the devices and the screen's dirty marks only.\<close>

lemma paddr_write_frame:
  assumes "paddr_write s p n d = Some t"
  shows "t\<lparr>hw_mem := m, mmio := x, vga := v\<rparr> = s\<lparr>hw_mem := m, mmio := x, vga := v\<rparr>"
proof -
  have cb: "run_mmio_callback c a k w u \<lparr>hw_mem := m, mmio := x, vga := v\<rparr> = u\<lparr>hw_mem := m, mmio := x, vga := v\<rparr>" for c a k w u
    by (cases c) (simp add: vga_vmem_io_handler_def Let_def)
  show ?thesis
    using assms by (auto simp: paddr_write_def hw_mem_write_def mmio_write_def cb Let_def split: if_splits option.splits)
qed

lemma laddr_write_frame:
  assumes "laddr_write s a n d = Some t"
  shows "t\<lparr>hw_mem := m, mmio := x, vga := v\<rparr> = s\<lparr>hw_mem := m, mmio := x, vga := v\<rparr>"
  using assms
proof (rule laddr_write.raw_induct
    [where P = "\<lambda>s a n d t. t\<lparr>hw_mem := m, mmio := x, vga := v\<rparr> = s\<lparr>hw_mem := m, mmio := x, vga := v\<rparr>", rotated])
  fix f :: "machine \<Rightarrow> u32 \<Rightarrow> nat \<Rightarrow> u32 \<Rightarrow> machine option" and s a n d t
  assume IH: "\<And>s a n d t. f s a n d = Some t \<Longrightarrow> t\<lparr>hw_mem := m, mmio := x, vga := v\<rparr> = s\<lparr>hw_mem := m, mmio := x, vga := v\<rparr>"
    and e: "(if PAGE a \<noteq> PAGE (a + of_nat n - 1)
      then let lowlen = unat (NEXTPAGE a - a)
           in if 32 \<le> lowlen * 8 then None
              else f s a lowlen (d AND push_bit (lowlen * 8) 1 - 1) \<bind>
                   (\<lambda>s'. f s' (NEXTPAGE a) (n - lowlen) (drop_bit (lowlen * 8) d))
      else to_paddr s a \<bind> (\<lambda>paddr. paddr_write s paddr n d)) = Some t"
  from e show "t\<lparr>hw_mem := m, mmio := x, vga := v\<rparr> = s\<lparr>hw_mem := m, mmio := x, vga := v\<rparr>"
    by (auto simp: Let_def paddr_write_frame dest!: IH split: if_splits bind_splits)
qed

lemma vaddr_write_frame:
  "vaddr_write s a r n d = Some t \<Longrightarrow> t\<lparr>hw_mem := m, mmio := x, vga := v\<rparr> = s\<lparr>hw_mem := m, mmio := x, vga := v\<rparr>"
  by (auto simp: vaddr_write_def laddr_write_frame split: if_splits bind_splits)

section \<open>Virtual accesses to plain RAM\<close>

definition lin :: "machine \<Rightarrow> nat \<Rightarrow> u32 \<Rightarrow> u32" where
  "lin s sreg a = (if cr0_pe (cr0 s) then sr_base (segReg s sreg) + a else a)"

definition ram :: "machine \<Rightarrow> nat \<Rightarrow> u32 \<Rightarrow> nat \<Rightarrow> bool" where
  "ram s sreg a n \<longleftrightarrow> sreg < 6 \<and> len_ok n \<and> a < QDISK_BASE \<and> lram s (lin s sreg a) n"

lemma ram_lin: "ram s sreg a n \<Longrightarrow> to_laddr s a sreg = Some (lin s sreg a)"
  by (simp add: ram_def to_laddr_def lin_def segment_translate_def)

lemma ram_dest:
  "ram s sreg a n \<Longrightarrow> len_ok n \<and> \<not> QDISK_BASE \<le> a \<and> lram s (lin s sreg a) n"
  by (auto simp: ram_def)

lemma vaddr_read_ram:
  assumes "ram s sreg a n"
  shows "vaddr_read s a sreg n = Some (mem_get (hw_mem s) (lin s sreg a) n)"
  using ram_dest [OF assms] by (simp add: vaddr_read_def ram_lin [OF assms] laddr_read_ram)

lemma vaddr_write_ram:
  assumes "ram s sreg a n"
  shows "vaddr_write s a sreg n d = Some (s\<lparr>hw_mem := mem_put (hw_mem s) (lin s sreg a) n d\<rparr>)"
  using ram_dest [OF assms] by (simp add: vaddr_write_def ram_lin [OF assms] laddr_write_ram)

lemma lin_hw_mem [simp]: "lin (s\<lparr>hw_mem := m\<rparr>) sreg a = lin s sreg a"
  by (simp add: lin_def)

lemma ram_hw_mem [simp]: "ram (s\<lparr>hw_mem := m\<rparr>) sreg a n = ram s sreg a n"
  by (simp add: ram_def)

lemma mem_word_simps:
  "mem_get m a 4 = ucast (m a) OR push_bit 8 (ucast (m (a + 1)) OR push_bit 8 (ucast (m (a + 1 + 1)) OR
     push_bit 8 (ucast (m (a + 1 + 1 + 1)) OR push_bit 8 0)))"
  "mem_put m a 4 d = ((((m(a + 1 + 1 + 1 := ucast (drop_bit 8 (drop_bit 8 (drop_bit 8 d)))))
     (a + 1 + 1 := ucast (drop_bit 8 (drop_bit 8 d))))(a + 1 := ucast (drop_bit 8 d)))(a := ucast d))"
  for a :: "'a::len word"
  by (simp_all add: numeral_eq_Suc)

lemma mem_get_zero: "mem_get (\<lambda>_. 0) a n = 0" for a :: "'a::len word"
  by (rule bit_word_eqI) (simp add: bit_mem_get)

lemma ram_machine0:
  "sreg < 6 \<Longrightarrow> len_ok n \<Longrightarrow> unat a + n < 0x8000000 \<Longrightarrow> ram machine0 sreg a n"
  by (auto simp: ram_def lram_def machine0_def lin_def cr0_pe_def cr0_pg_def is_mmio_def len_ok_def
      QDISK_BASE_def word_less_nat_alt)

section \<open>Virtual accesses through the page tables\<close>

text \<open>Where the bytes of the memory put a linear address: the entry of the page directory, the entry of the page
  table, and the physical address that they assign, in the arithmetic of the architecture.\<close>

definition pde_at :: "machine \<Rightarrow> u32 \<Rightarrow> u32" where
  "pde_at s la = (cr3 s AND 0xfffff000) + 4 * (la div 0x400000)"

definition pte_at :: "machine \<Rightarrow> u32 \<Rightarrow> u32" where
  "pte_at s la = (mem_get (hw_mem s) (pde_at s la) 4 AND 0xfffff000) + 4 * (la div 0x1000 mod 0x400)"

definition entry_ok :: "machine \<Rightarrow> u32 \<Rightarrow> bool" where
  "entry_ok s e \<longleftrightarrow> unat e + 4 < 0x8000000 \<and> is_mmio (mmio s) e = None \<and> odd (mem_get (hw_mem s) e 4)"

definition placed_at :: "machine \<Rightarrow> u32 \<Rightarrow> u32 \<Rightarrow> bool" where
  "placed_at s la p \<longleftrightarrow>
     (if cr0_pg (cr0 s) then entry_ok s (pde_at s la) \<and> entry_ok s (pte_at s la) \<and>
        p = (mem_get (hw_mem s) (pte_at s la) 4 AND 0xfffff000) + la mod 0x1000
      else p = la)"

text \<open>The bytes of the tables that place it.\<close>

definition walk_bytes :: "machine \<Rightarrow> u32 \<Rightarrow> u32 set" where
  "walk_bytes s la = (if cr0_pg (cr0 s) then (\<lambda>i. pde_at s la + of_nat i) ` {..<4} \<union> (\<lambda>i. pte_at s la + of_nat i) ` {..<4} else {})"

lemma frame_of_entry: "push_bit 12 (bf_get 12 20 w) = w AND 0xfffff000" for w :: u32
proof -
  have "(0xfffff000 :: u32) = NOT (mask 12)" by (simp add: mask_eq_exp_minus_1)
  then have "w AND 0xfffff000 = w AND NOT (mask 12)" by simp
  moreover have "push_bit 12 (bf_get 12 20 w) = w AND NOT (mask 12)"
    by (rule bit_word_eqI) (auto simp: bit_simps bf_get_def)
  ultimately show ?thesis by simp
qed

lemma address_parts:
  "la_page_directory_index a = a div 0x400000" "la_page_entry_index a = a div 0x1000 mod 0x400" "la_offset a = a mod 0x1000"
proof -
  have "drop_bit 22 a = take_bit 10 (drop_bit 22 a)" by (rule bit_word_eqI) (auto simp: bit_simps dest: bit_imp_le_length)
  then show "la_page_directory_index a = a div 0x400000"
    by (simp add: la_page_directory_index_def bf_get_def drop_bit_eq_div)
qed (simp_all add: la_page_entry_index_def la_offset_def bf_get_def drop_bit_eq_div take_bit_eq_mod)

lemma placed_to_paddr: "placed_at s la p \<Longrightarrow> to_paddr s la = Some p"
  by (simp add: placed_at_def to_paddr_def page_translate_def Let_def pt_page_frame_def cr3_pdbr_def frame_of_entry
      address_parts pde_at_def [symmetric] pte_at_def [symmetric] mult.commute [of _ 4] entry_ok_def paddr_ram pt_present_def
      bit_0 split: if_splits)

lemma placed_at_keep:
  assumes "placed_at s la p" "\<And>b. b \<in> walk_bytes s la \<Longrightarrow> m b = hw_mem s b"
  shows "placed_at (s\<lparr>hw_mem := m\<rparr>) la p"
proof (cases "cr0_pg (cr0 s)")
  case True
  have e: "mem_get m (pde_at s la) 4 = mem_get (hw_mem s) (pde_at s la) 4"
    "mem_get m (pte_at s la) 4 = mem_get (hw_mem s) (pte_at s la) 4"
    using True by (auto intro!: mem_get_cong assms(2) simp: walk_bytes_def)
  then have "pde_at (s\<lparr>hw_mem := m\<rparr>) la = pde_at s la" "pte_at (s\<lparr>hw_mem := m\<rparr>) la = pte_at s la"
    by (simp_all add: pde_at_def pte_at_def)
  with e assms(1) True show ?thesis by (simp add: placed_at_def entry_ok_def)
qed (use assms(1) in \<open>simp add: placed_at_def\<close>)

lemma mem_get_bytes:
  "(\<And>i. i < n \<Longrightarrow> m (a + of_nat i) = ucast (drop_bit (8 * i) d)) \<Longrightarrow> mem_get m a n = take_bit (8 * n) d"
  for a :: "'a::len word"
  by (rule bit_word_eqI) (auto simp: bit_mem_get bit_simps)

text \<open>Where the bytes from a linear address are, in plain memory.\<close>

definition plain_at :: "machine \<Rightarrow> u32 \<Rightarrow> nat \<Rightarrow> (nat \<Rightarrow> u32) \<Rightarrow> bool" where
  "plain_at s la n pa \<longleftrightarrow>
     (\<forall>i<n. placed_at s (la + of_nat i) (pa i) \<and> unat (pa i) + 1 < 0x8000000 \<and> is_mmio (mmio s) (pa i) = None)"

text \<open>They are different, and none of them belongs to the tables that map them.\<close>

definition apart_from_tables :: "machine \<Rightarrow> u32 \<Rightarrow> nat \<Rightarrow> (nat \<Rightarrow> u32) \<Rightarrow> bool" where
  "apart_from_tables s la n pa \<longleftrightarrow> inj_on pa {..<n} \<and> (\<forall>i<n. \<forall>j<n. pa i \<notin> walk_bytes s (la + of_nat j))"

text \<open>The part of it in one page is a range of the memory.\<close>

lemma plain_page:
  assumes pl: "plain_at s la n pa" and n: "1 \<le> n" "n \<le> 4" "n \<le> page_rest la"
  shows "laddr_read s la n = Some (mem_get (hw_mem s) (pa 0) n)"
    "laddr_write s la n d = Some (s\<lparr>hw_mem := mem_put (hw_mem s) (pa 0) n d\<rparr>)"
    "i < n \<Longrightarrow> pa i = pa 0 + of_nat i"
proof -
  have t: "to_paddr s (la + of_nat i) = Some (pa i)" if "i < n" for i
    using pl that by (simp add: plain_at_def placed_to_paddr)
  from t [of 0] n(1) have z: "to_paddr s la = Some (pa 0)" by simp
  have e: "pa i = pa 0 + of_nat i" if "i < n" for i
    using t [OF that] to_paddr_add [of i la s] z that n(3) by simp
  then show "i < n \<Longrightarrow> pa i = pa 0 + of_nat i" .
  have p: "unat (pa 0) < 0x8000000" "is_mmio (mmio s) (pa 0) = None" using pl n(1) by (auto simp: plain_at_def)
  then have "unat (pa 0 + of_nat (n - 1)) = unat (pa 0) + (n - 1)" using n(2) by (simp add: unat_add_nat)
  moreover have "unat (pa (n - 1)) + 1 < 0x8000000" using pl n(1) by (simp add: plain_at_def)
  ultimately have "unat (pa 0) + n < 0x8000000" using e [of "n - 1"] n(1) by simp
  with z p n show "laddr_read s la n = Some (mem_get (hw_mem s) (pa 0) n)"
    "laddr_write s la n d = Some (s\<lparr>hw_mem := mem_put (hw_mem s) (pa 0) n d\<rparr>)"
    by (simp_all add: laddr_read_page laddr_write_page paddr_ram)
qed

lemma plain_page_write:
  assumes pl: "plain_at s la n pa" and n: "1 \<le> n" "n \<le> 4" "n \<le> page_rest la"
  obtains m where "laddr_write s la n d = Some (s\<lparr>hw_mem := m\<rparr>)"
    "\<And>i. i < n \<Longrightarrow> m (pa i) = ucast (drop_bit (8 * i) d)" "\<And>b. b \<notin> pa ` {..<n} \<Longrightarrow> m b = hw_mem s b"
proof (rule that [OF plain_page(2) [OF assms, of d]])
  note e = plain_page(3) [OF assms]
  show "mem_put (hw_mem s) (pa 0) n d (pa i) = ucast (drop_bit (8 * i) d)" if "i < n" for i
    using that n(2) by (subst e [OF that]) (simp add: mem_put_apply unat_of_nat)
  show "mem_put (hw_mem s) (pa 0) n d b = hw_mem s b" if "b \<notin> pa ` {..<n}" for b
  proof (rule mem_put_outside, rule ccontr)
    assume "\<not> n \<le> unat (b - pa 0)"
    then have "unat (b - pa 0) < n" by simp
    moreover from e [OF this] have "pa (unat (b - pa 0)) = b" by simp
    ultimately show False using that by (metis image_eqI lessThan_iff)
  qed
qed

lemma plain_page_read:
  assumes pl: "plain_at s la n pa" and n: "1 \<le> n" "n \<le> 4" "n \<le> page_rest la"
    and b: "\<And>i. i < n \<Longrightarrow> hw_mem s (pa i) = ucast (drop_bit (8 * i) d)"
  shows "laddr_read s la n = Some (take_bit (8 * n) d)"
proof -
  have "mem_get (hw_mem s) (pa 0) n = take_bit (8 * n) d"
    by (rule mem_get_bytes) (metis b plain_page(3) [OF pl n])
  then show ?thesis by (simp add: plain_page(1) [OF pl n])
qed

lemma plain_at_parts:
  "plain_at s la n pa \<Longrightarrow> k \<le> n \<Longrightarrow> plain_at s la k pa \<and> plain_at s (la + of_nat k) (n - k) (\<lambda>j. pa (k + j))"
proof
  assume a: "plain_at s la n pa" "k \<le> n"
  then show "plain_at s la k pa" by (simp add: plain_at_def)
  have "la + of_nat k + of_nat i = la + of_nat (k + i)" for i by simp
  with a show "plain_at s (la + of_nat k) (n - k) (\<lambda>j. pa (k + j))"
    by (simp only: plain_at_def) (simp del: of_nat_add)
qed

lemma laddr_read_placed:
  assumes pl: "plain_at s la n pa" and n: "1 \<le> n" "n \<le> 4"
    and b: "\<And>i. i < n \<Longrightarrow> hw_mem s (pa i) = ucast (drop_bit (8 * i) d)"
  shows "laddr_read s la n = Some (take_bit (8 * n) d)"
proof (cases "n \<le> page_rest la")
  case True
  then show ?thesis using plain_page_read assms by blast
next
  case False
  then have c: "page_rest la < n" "n \<le> 4" using n by auto
  note x = cross_rest [OF c]
  let ?k = "page_rest la"
  have k: "1 \<le> ?k" "?k \<le> 4" "?k \<le> n" using c page_rest_bounds(1) [of la] by simp_all
  note parts = plain_at_parts [OF pl k(3)]
  have lo: "laddr_read s la ?k = Some (take_bit (8 * ?k) d)"
    by (rule plain_page_read [where pa = pa]) (use parts k b in simp_all)
  have hi: "laddr_read s (NEXTPAGE la) (n - ?k) = Some (take_bit (8 * (n - ?k)) (drop_bit (8 * ?k) d))"
    by (rule plain_page_read [where pa = "\<lambda>j. pa (?k + j)"])
      (use parts x c b [of "?k + i" for i] in \<open>simp_all add: drop_bit_drop_bit algebra_simps\<close>)
  have "laddr_read s la n = do { lo \<leftarrow> laddr_read s la ?k; hi \<leftarrow> laddr_read s (NEXTPAGE la) (n - ?k);
      Some (push_bit (?k * 8) hi OR lo) }"
    using x(3,4) k by (simp add: laddr_read_cross [OF c] laddr_read_page)
  moreover have "push_bit (?k * 8) (take_bit (8 * (n - ?k)) (drop_bit (8 * ?k) d)) OR take_bit (8 * ?k) d = take_bit (8 * n) d"
    using c by (intro bit_word_eqI) (auto simp: bit_simps)
  ultimately show ?thesis by (simp add: lo hi)
qed

lemma laddr_write_placed:
  assumes pl: "plain_at s la n pa" and t: "apart_from_tables s la n pa" and n: "1 \<le> n" "n \<le> 4"
  obtains m where "laddr_write s la n d = Some (s\<lparr>hw_mem := m\<rparr>)"
    "\<And>i. i < n \<Longrightarrow> m (pa i) = ucast (drop_bit (8 * i) d)" "\<And>b. b \<notin> pa ` {..<n} \<Longrightarrow> m b = hw_mem s b"
proof (cases "n \<le> page_rest la")
  case True
  then show ?thesis using plain_page_write [OF pl n] that by metis
next
  case False
  then have c: "page_rest la < n" "n \<le> 4" using n by auto
  note x = cross_rest [OF c]
  let ?k = "page_rest la" and ?lo = "d AND (push_bit (page_rest la * 8) 1 - 1)" and ?hi = "drop_bit (page_rest la * 8) d"
  have k: "1 \<le> ?k" "?k \<le> 4" "?k \<le> n" using c page_rest_bounds(1) [of la] by simp_all
  note parts = plain_at_parts [OF pl k(3)]
  obtain m1 where m1: "laddr_write s la ?k ?lo = Some (s\<lparr>hw_mem := m1\<rparr>)"
    "\<And>i. i < ?k \<Longrightarrow> m1 (pa i) = ucast (drop_bit (8 * i) ?lo)" "\<And>b. b \<notin> pa ` {..<?k} \<Longrightarrow> m1 b = hw_mem s b"
    using plain_page_write [OF _ k(1,2) order_refl, of s pa ?lo] parts by blast
  let ?s1 = "s\<lparr>hw_mem := m1\<rparr>" and ?pa = "\<lambda>j. pa (?k + j)"
  have "plain_at ?s1 (NEXTPAGE la) (n - ?k) ?pa"
    unfolding plain_at_def
  proof (intro allI impI)
    fix j assume j: "j < n - ?k"
    have "m1 b = hw_mem s b" if "b \<in> walk_bytes s (NEXTPAGE la + of_nat j)" for b
    proof (rule m1(3), rule notI)
      assume "b \<in> pa ` {..<?k}"
      then obtain i where "i < ?k" "b = pa i" by blast
      moreover have "NEXTPAGE la + of_nat j = la + of_nat (?k + j)" by (simp add: x(2))
      ultimately show False using t that j k(3) unfolding apart_from_tables_def
        by (metis less_diff_conv add.commute order_less_le_trans)
    qed
    then show "placed_at ?s1 (NEXTPAGE la + of_nat j) (?pa j) \<and> unat (?pa j) + 1 < 0x8000000 \<and> is_mmio (mmio ?s1) (?pa j) = None"
      using parts j x(2) by (auto simp: plain_at_def intro: placed_at_keep)
  qed
  moreover have "n - ?k \<le> 4" using c by simp
  ultimately obtain m2 where
    m2: "laddr_write ?s1 (NEXTPAGE la) (n - ?k) ?hi = Some (?s1\<lparr>hw_mem := m2\<rparr>)"
    "\<And>j. j < n - ?k \<Longrightarrow> m2 (?pa j) = ucast (drop_bit (8 * j) ?hi)" "\<And>b. b \<notin> ?pa ` {..<n - ?k} \<Longrightarrow> m2 b = m1 b"
    by (rule plain_page_write [OF _ x(3) _ x(4), of ?s1 ?pa ?hi]) simp_all
  have parts_disjoint: "pa i \<notin> ?pa ` {..<n - ?k}" if "i < ?k" for i
    using t that k(3) unfolding apart_from_tables_def inj_on_def by force
  have lo: "ucast (drop_bit (8 * i) ?lo) = (ucast (drop_bit (8 * i) d) :: u8)" if "i < ?k" for i
    using that by (intro bit_word_eqI) (auto simp: bit_simps mask_eq_exp_minus_1 [symmetric] push_bit_eq_mult dest: bit_imp_le_length)
  show ?thesis
  proof (rule that)
    have "laddr_write s la n d = do { s1 \<leftarrow> laddr_write s la ?k ?lo; laddr_write s1 (NEXTPAGE la) (n - ?k) ?hi }"
      using x(3,4) k by (simp add: laddr_write_cross [OF c] laddr_write_page)
    also have "\<dots> = Some (s\<lparr>hw_mem := m2\<rparr>)" unfolding m1(1) Option.bind.bind_lunit m2(1) by simp
    finally show "laddr_write s la n d = Some (s\<lparr>hw_mem := m2\<rparr>)" .
    show "m2 (pa i) = ucast (drop_bit (8 * i) d)" if "i < n" for i
    proof (cases "i < ?k")
      case True
      then show ?thesis using m2(3) [OF parts_disjoint] m1(2) lo by simp
    next
      case False
      then show ?thesis using m2(2) [of "i - ?k"] that c by (simp add: drop_bit_drop_bit algebra_simps)
    qed
    show "m2 b = hw_mem s b" if "b \<notin> pa ` {..<n}" for b
    proof -
      have "b \<notin> ?pa ` {..<n - ?k}" "b \<notin> pa ` {..<?k}" using that k(3) by auto
      then show ?thesis by (simp add: m2(3) m1(3))
    qed
  qed
qed

section \<open>The properties\<close>

text \<open>the bound check accepts an access of up to four bytes exactly when it ends before the last byte of
  the physical memory; in particular the last byte itself is never accessible.\<close>

theorem hw_mem_bounds:
  "n \<le> 4 \<Longrightarrow>
     hw_mem_read s p n = (if unat p + n < 128 * 1024 * 1024 then Some (mem_get (hw_mem s) p n) else None) \<and>
     hw_mem_read s (128 * 1024 * 1024 - 1) 1 = None"
  by (simp add: hw_mem_read_eq)

theorem hw_mem_bounds_witness: "hw_mem_read machine0 0x7fffffc 4 = None \<and> hw_mem_read machine0 0x7fffffb 4 = Some 0"
  using hw_mem_bounds [of 4 machine0 "0x7fffffc"] hw_mem_bounds [of 4 machine0 "0x7fffffb"]
  by (simp add: machine0_def mem_get_zero)

text \<open>C6: a write of 1, 2 or 4 bytes at a virtual address, whose bytes the segment, and with paging on the page tables
  in the memory, put at the physical addresses \<open>pa 0\<close>, \<open>pa 1\<close> and so on, succeeds, stores the bytes of the
  value there, from the lowest on, and changes nothing else; reading gives the value back. The bytes may lie in
  two pages with frames anywhere in the memory, as long as they differ and do not belong to the tables themselves.\<close>

theorem vaddr_write_read:
  assumes "sreg < 6" "len_ok n" "a < QDISK_BASE"
    and "plain_at s (lin s sreg a) n pa" "apart_from_tables s (lin s sreg a) n pa"
  shows "\<exists>m. vaddr_write s a sreg n d = Some (s\<lparr>hw_mem := m\<rparr>) \<and>
     vaddr_read (s\<lparr>hw_mem := m\<rparr>) a sreg n = Some (take_bit (8 * n) d) \<and>
     (\<forall>i<n. m (pa i) = ucast (drop_bit (8 * i) d)) \<and> (\<forall>b. b \<notin> pa ` {..<n} \<longrightarrow> m b = hw_mem s b)"
proof -
  have n: "1 \<le> n" "n \<le> 4" using assms(2) by (auto simp: len_ok_def)
  obtain m where m: "laddr_write s (lin s sreg a) n d = Some (s\<lparr>hw_mem := m\<rparr>)"
    "\<And>i. i < n \<Longrightarrow> m (pa i) = ucast (drop_bit (8 * i) d)" "\<And>b. b \<notin> pa ` {..<n} \<Longrightarrow> m b = hw_mem s b"
    using laddr_write_placed [OF assms(4,5) n, of d] by blast
  have "placed_at (s\<lparr>hw_mem := m\<rparr>) (lin s sreg a + of_nat i) (pa i)" if "i < n" for i
    using assms(4,5) that unfolding plain_at_def apart_from_tables_def by (intro placed_at_keep m(3)) blast+
  then have "plain_at (s\<lparr>hw_mem := m\<rparr>) (lin s sreg a) n pa" using assms(4) by (simp add: plain_at_def)
  from laddr_read_placed [OF this n, of d] m(2)
  have "laddr_read (s\<lparr>hw_mem := m\<rparr>) (lin s sreg a) n = Some (take_bit (8 * n) d)" by simp
  moreover have "to_laddr t a sreg = Some (lin t sreg a)" for t
    using assms(1) by (simp add: to_laddr_def lin_def segment_translate_def)
  moreover have "\<not> QDISK_BASE \<le> a" using assms(3) by simp
  ultimately show ?thesis
    using assms(2) m by (intro exI [of _ m]) (simp add: vaddr_write_def vaddr_read_def)
qed

text \<open>Two consecutive pages, 1 and 2, in the frames 5 and 3; the tables are in the frames 1 and 2.\<close>

definition two_pages :: machine where
  "two_pages = machine0\<lparr>cr0 := 0x80000001, cr3 := 0x1000,
     hw_mem := mem_put (mem_put (mem_put (\<lambda>_. 0) 0x1000 4 0x2001) 0x2004 4 0x5001) 0x2008 4 0x3001\<rparr>"

lemma two_pages_place:
  "plain_at two_pages 0x1ffe 4 (\<lambda>i. if i < 2 then 0x5ffe + of_nat i else 0x3000 + of_nat (i - 2))"
  "apart_from_tables two_pages 0x1ffe 4 (\<lambda>i. if i < 2 then 0x5ffe + of_nat i else 0x3000 + of_nat (i - 2))"
proof -
  let ?pa = "\<lambda>i. if i < 2 then 0x5ffe + of_nat i else 0x3000 + of_nat (i - 2) :: u32"
  have four: "(\<forall>i<4. P i) \<longleftrightarrow> P 0 \<and> P 1 \<and> P 2 \<and> P 3" for P :: "nat \<Rightarrow> bool"
    by (auto simp: numeral_eq_Suc less_Suc_eq)
  have set4: "{..<4::nat} = {0, 1, 2, 3}" by (auto simp: numeral_eq_Suc)
  have c: "cr0 two_pages = 0x80000001" "cr3 two_pages = 0x1000" "is_mmio (mmio two_pages) x = None" for x
    by (simp_all add: two_pages_def is_mmio_def)
  have e: "mem_get (hw_mem two_pages) 0x1000 4 = 0x2001" "mem_get (hw_mem two_pages) 0x2004 4 = 0x5001"
    "mem_get (hw_mem two_pages) 0x2008 4 = 0x3001"
    by (simp_all add: two_pages_def mem_word_simps)
  show "plain_at two_pages 0x1ffe 4 ?pa"
    unfolding plain_at_def four by (simp add: placed_at_def entry_ok_def pde_at_def pte_at_def cr0_pg_def c e)
  show "apart_from_tables two_pages 0x1ffe 4 ?pa"
    unfolding apart_from_tables_def four set4 by (simp add: inj_on_def walk_bytes_def set4 pde_at_def pte_at_def cr0_pg_def c e)
qed

theorem vaddr_write_read_witness:
  "\<exists>m. vaddr_write two_pages 0x1ffe SREG_DS 4 0x12345678 = Some (two_pages\<lparr>hw_mem := m\<rparr>) \<and>
     vaddr_read (two_pages\<lparr>hw_mem := m\<rparr>) 0x1ffe SREG_DS 4 = Some 0x12345678 \<and>
     m 0x5ffe = 0x78 \<and> m 0x5fff = 0x56 \<and> m 0x3000 = 0x34 \<and> m 0x3001 = 0x12"
proof -
  have l: "lin two_pages SREG_DS 0x1ffe = 0x1ffe" by (simp add: lin_def two_pages_def)
  from vaddr_write_read [of SREG_DS 4 "0x1ffe" two_pages, unfolded l, OF _ _ _ two_pages_place, of "0x12345678"]
  obtain m where m: "vaddr_write two_pages 0x1ffe SREG_DS 4 0x12345678 = Some (two_pages\<lparr>hw_mem := m\<rparr>)"
    "vaddr_read (two_pages\<lparr>hw_mem := m\<rparr>) 0x1ffe SREG_DS 4 = Some (take_bit 32 0x12345678)"
    "\<forall>i<4. m (if i < 2 then 0x5ffe + of_nat i else 0x3000 + of_nat (i - 2)) = ucast (drop_bit (8 * i) (0x12345678 :: u32))"
    by (auto simp: len_ok_def QDISK_BASE_def)
  show ?thesis
    using m(1,2) m(3) [rule_format, of 0] m(3) [rule_format, of 1] m(3) [rule_format, of 2] m(3) [rule_format, of 3]
    by (intro exI [of _ m]) simp
qed

text \<open>Under paging, too, a successful read of up to four bytes returns, byte for byte, the physical
  bytes that the page tables assign to the linear addresses \<open>la\<close>, \<open>la + 1\<close> and so on, each translated
  for itself.\<close>

theorem laddr_read_bytewise:
  "maps (mmio s) = [] \<Longrightarrow> 1 \<le> n \<Longrightarrow> n \<le> 4 \<Longrightarrow> laddr_read s la n = Some v \<Longrightarrow> i < n \<Longrightarrow>
     \<exists>p. to_paddr s (la + of_nat i) = Some p \<and> unat p < 0x8000000 \<and>
       take_bit 8 (drop_bit (8 * i) v) = ucast (hw_mem s p)"
  by (rule laddr_read_byte)

definition page_machine :: machine where
  "page_machine = machine0\<lparr>cr0 := 0x80000001, cr3 := 0x1000,
     hw_mem := mem_put (mem_put (mem_put (\<lambda>_. 0) 0x1000 4 0x2001) 0x2004 4 0x5001) 0x5010 4 0xabcd\<rparr>"

lemma page_machine_simps [simp]:
  "cr0 page_machine = 0x80000001" "cr3 page_machine = 0x1000"
  "hw_mem page_machine = mem_put (mem_put (mem_put (\<lambda>_. 0) 0x1000 4 0x2001) 0x2004 4 0x5001) 0x5010 4 0xabcd"
  "maps (mmio page_machine) = []"
  by (simp_all add: page_machine_def machine0_def)

theorem laddr_read_bytewise_witness:
  "\<exists>p. to_paddr page_machine (0x1010 + 1) = Some p \<and> (ucast (hw_mem page_machine p) :: u32) = 0xab"
proof -
  have "page_translate page_machine 0x1010 = Some 0x5010"
    by (simp add: page_translate_def Let_def paddr_ram is_mmio_def cr3_pdbr_def bf_get_def mem_word_simps
        la_page_directory_index_def la_page_entry_index_def la_offset_def pt_present_def pt_page_frame_def)
  then have "laddr_read page_machine 0x1010 4 = Some 0xabcd"
    by (simp add: laddr_read_page page_rest_def to_paddr_def cr0_pg_def paddr_ram is_mmio_def mem_word_simps)
  from laddr_read_bytewise [OF _ _ _ this, of 1] show ?thesis by auto
qed

text \<open>once \<open>load_sreg\<close> has accepted a descriptor, translation through that segment register is the
  identity, and its limit is the whole address space.\<close>

theorem load_sreg_flat:
  "load_sreg sreg s = Some s' \<Longrightarrow>
     segment_translate s' a sreg = Some a \<and> sr_limit (segReg s' sreg) = 0xfffff \<and>
     sr_val (segReg s' sreg) = sr_val (segReg s sreg) \<and> s' = s\<lparr>segReg := segReg s'\<rparr>"
  by (auto simp: load_sreg_def Let_def flat_checks_def get_base_def get_limit_def segment_translate_def
      split: if_splits bind_splits)


definition gdt_machine :: machine where
  "gdt_machine = machine0\<lparr>hw_mem := mem_put (mem_put (\<lambda>_. 0) 0 4 0xffff) 4 4 0xcf9200\<rparr>"

lemma gdt_machine_simps [simp]:
  "gdtr_base gdt_machine = 0" "segReg gdt_machine = (\<lambda>_. SegReg0)"
  by (simp_all add: gdt_machine_def)

lemma gdt_lram: "n \<in> {1, 2, 3, 4} \<Longrightarrow> unat a + n < 0x8000000 \<Longrightarrow> lram gdt_machine a n"
  by (auto simp: gdt_machine_def lram_def machine0_def cr0_pg_def is_mmio_def)

theorem load_sreg_flat_witness:
  "\<exists>s'. load_sreg SREG_DS gdt_machine = Some s' \<and> segment_translate s' 0x1234 SREG_DS = Some 0x1234"
proof -
  have "laddr_read gdt_machine 0 4 = Some 0xffff" "laddr_read gdt_machine 4 4 = Some 0xcf9200"
    by (simp_all add: laddr_read_ram gdt_lram) (simp_all add: gdt_machine_def mem_word_simps)
  then have "\<exists>s'. load_sreg SREG_DS gdt_machine = Some s'"
    by (simp add: load_sreg_def Let_def sel_index_def flat_checks_def
        limit_15_0_def base_15_0_def base_23_16_def base_31_24_def limit_19_16_def granularity_def bf_get_def)
  then show ?thesis using load_sreg_flat by blast
qed
end
