(* ===== verification/Stack.thy ===== *)
theory Stack
  imports Instr_Control Memory_Correct
begin

text \<open>
  The stack: what \<open>push\<close> and \<open>pop\<close> promise, as a locale, its interpretation on the model of
  \<open>push.c\<close> and \<open>pop.c\<close>, and the instructions that rest on it: \<open>pusha\<close> and \<open>popa\<close>, \<open>call\<close> and
  \<open>ret\<close>, the entry into an interrupt handler and \<open>iret\<close>.
\<close>

section \<open>The contract of a stack\<close>

text \<open>
  \<open>stk s ws n\<close>: the words \<open>ws\<close> are on top of the stack of \<open>s\<close>, topmost first, and there is room for
  \<open>n\<close> more. \<open>same s t\<close>: the states differ at most in the stack.
\<close>

locale word_stack =
  fixes psh :: "'w \<Rightarrow> 's \<Rightarrow> 's option"
    and pp :: "'s \<Rightarrow> ('w \<times> 's) option"
    and stk :: "'s \<Rightarrow> 'w list \<Rightarrow> nat \<Rightarrow> bool"
    and same :: "'s \<Rightarrow> 's \<Rightarrow> bool"
  assumes psh_law: "stk s ws (Suc n) \<Longrightarrow> \<exists>t. psh w s = Some t \<and> stk t (w # ws) n \<and> same s t"
    and pp_law: "stk s (w # ws) n \<Longrightarrow> \<exists>t. pp s = Some (w, t) \<and> stk t ws (Suc n) \<and> same s t"
    and same_refl: "same s s"
    and same_trans: "same s t \<Longrightarrow> same t u \<Longrightarrow> same s u"
begin

lemma psh_all:
  "stk s ws (length vs + n) \<Longrightarrow> \<exists>t. foldM psh vs s = Some t \<and> stk t (rev vs @ ws) n \<and> same s t"
proof (induction vs arbitrary: s ws)
  case Nil
  then show ?case by (simp add: same_refl)
next
  case (Cons v vs)
  then obtain t where t: "psh v s = Some t" "stk t (v # ws) (length vs + n)" "same s t"
    using psh_law [of s ws "length vs + n" v] by auto
  from Cons.IH [OF t(2)] t show ?case by (auto intro: same_trans)
qed

primrec pops :: "nat \<Rightarrow> 's \<Rightarrow> ('w list \<times> 's) option" where
  "pops 0 s = Some ([], s)"
| "pops (Suc k) s = do { (w, s) \<leftarrow> pp s; (ws, s) \<leftarrow> pops k s; Some (w # ws, s) }"

lemma pops_all:
  "stk s (vs @ ws) n \<Longrightarrow>
   \<exists>t. pops (length vs) s = Some (vs, t) \<and> stk t ws (n + length vs) \<and> same s t"
proof (induction vs arbitrary: s n)
  case Nil
  then show ?case by (simp add: same_refl)
next
  case (Cons v vs)
  then obtain t where t: "pp s = Some (v, t)" "stk t (vs @ ws) (Suc n)" "same s t"
    using pp_law [of s v "vs @ ws" n] by auto
  from Cons.IH [OF t(2)] t show ?case by (auto intro: same_trans)
qed

text \<open>Last in, first out.\<close>

lemma lifo:
  "stk s ws (length vs + n) \<Longrightarrow>
   \<exists>t u. foldM psh vs s = Some t \<and> pops (length vs) t = Some (rev vs, u) \<and>
     stk u ws (n + length vs) \<and> same s u"
  using psh_all [of s ws vs n] pops_all [of _ "rev vs" ws n] by (fastforce intro: same_trans)

end

section \<open>push and pop on RAM\<close>

text \<open>\<open>n\<close> consecutive bytes of plain RAM at a virtual address.\<close>

definition ram_region :: "machine \<Rightarrow> nat \<Rightarrow> u32 \<Rightarrow> nat \<Rightarrow> bool" where
  "ram_region s sreg a n \<longleftrightarrow> sreg < 6 \<and> \<not> cr0_pg (cr0 s) \<and> unat a + n \<le> unat QDISK_BASE \<and>
     unat (lin s sreg a) + n < 0x8000000 \<and> (\<forall>i<n. is_mmio (mmio s) (lin s sreg a + of_nat i) = None)"

lemma lin_add: "lin s sreg (a + b) = lin s sreg a + b"
  by (simp add: lin_def)

lemma unat_QDISK_BASE: "unat QDISK_BASE = 3460300800"
  by (simp add: QDISK_BASE_def)

lemma ram_region_ram:
  assumes "ram_region s sreg a n" "k + m \<le> n" "len_ok m"
  shows "ram s sreg (a + of_nat k) m"
proof -
  note r = assms(1)[unfolded ram_region_def]
  have m: "1 \<le> m" "m \<le> 4" using assms(3) by (auto simp: len_ok_def)
  have u: "unat (a + of_nat k) = unat a + k" "unat (lin s sreg a + of_nat k) = unat (lin s sreg a) + k"
    using r assms(2) m by (simp_all add: unat_add_nat unat_QDISK_BASE)
  have "is_mmio (mmio s) (lin s sreg a + of_nat k + of_nat i) = None" if "i < m" for i
    using r assms(2) that by (metis (no_types, lifting) add.assoc less_le_trans nat_add_left_cancel_less of_nat_add)
  then show ?thesis
    using r assms m u by (auto simp: ram_def lram_def lin_add word_less_nat_alt unat_QDISK_BASE)
qed

text \<open>\<open>b\<close> is the address just above the words.\<close>

definition stack_of :: "u32 \<Rightarrow> machine \<Rightarrow> u32 list \<Rightarrow> nat \<Rightarrow> bool" where
  "stack_of b s ws n \<longleftrightarrow> 4 * n \<le> unat (esp s) \<and>
     ram_region s SREG_SS (esp s - of_nat (4 * n)) (4 * n + 4 * length ws) \<and>
     (\<forall>i<length ws. mem_get (hw_mem s) (lin s SREG_SS (esp s) + of_nat (4 * i)) 4 = ws ! i) \<and>
     b = esp s + of_nat (4 * length ws)"

text \<open>Two machines that differ at most in \<open>esp\<close> and in the memory.\<close>

definition same_but_stack :: "machine \<Rightarrow> machine \<Rightarrow> bool" where
  "same_but_stack s t \<longleftrightarrow> t = s\<lparr>gpr := (gpr s)(4 := esp t), hw_mem := hw_mem t\<rparr>"

text \<open>What RAM is, and where an address points, does not depend on registers, flags or contents.\<close>

lemma ram_frame [frame_simps]:
  "lin (set_gpr i v s) = lin s" "lin (s\<lparr>gpr := g\<rparr>) = lin s" "lin (s\<lparr>eflags := e\<rparr>) = lin s"
  "lin (s\<lparr>eip := e\<rparr>) = lin s"
  "ram (set_gpr i v s) = ram s" "ram (s\<lparr>gpr := g\<rparr>) = ram s" "ram (s\<lparr>eflags := e\<rparr>) = ram s"
  "ram (s\<lparr>eip := e\<rparr>) = ram s"
  "ram_region (set_gpr i v s) = ram_region s" "ram_region (s\<lparr>gpr := g\<rparr>) = ram_region s"
  "ram_region (s\<lparr>eflags := e\<rparr>) = ram_region s" "ram_region (s\<lparr>eip := e\<rparr>) = ram_region s"
  "lin (s\<lparr>hw_mem := m\<rparr>) = lin s" "ram (s\<lparr>hw_mem := m\<rparr>) = ram s"
  "ram_region (s\<lparr>hw_mem := m\<rparr>) = ram_region s"
  by (auto simp: fun_eq_iff lin_def ram_def lram_def ram_region_def)

lemma vaddr_gpr [frame_simps]:
  "ram s sreg a n \<Longrightarrow> vaddr_read (s\<lparr>gpr := g\<rparr>) a sreg n = vaddr_read s a sreg n"
  by (simp add: vaddr_read_ram frame_simps)

lemma push_eq:
  assumes "len_ok (sz div 8)" "ram s SREG_SS (esp s - of_nat (sz div 8)) (sz div 8)"
  shows "push v sz s =
     Some (s\<lparr>gpr := (gpr s)(4 := esp s - of_nat (sz div 8)),
             hw_mem := mem_put (hw_mem s) (lin s SREG_SS (esp s - of_nat (sz div 8))) (sz div 8) v\<rparr>)"
proof -
  let ?s = "set_gpr 4 (esp s - of_nat (sz div 8)) s"
  have "ram ?s SREG_SS (esp s - of_nat (sz div 8)) (sz div 8)" using assms(2) by (simp add: frame_simps)
  note w = vaddr_write_ram [OF this, of v]
  show ?thesis
    by (simp add: push_def operand_read_def operand_write_def reg_opr_def mem_opr_def reg_read_def reg_write_def
        cut_size_def w frame_simps) (simp add: set_gpr_def)
qed

lemma pop_eq:
  assumes "sz = 16 \<or> sz = 32" "ram s SREG_SS (esp s) (sz div 8)"
  shows "pop sz s =
     Some (mem_get (hw_mem s) (lin s SREG_SS (esp s)) (sz div 8), s\<lparr>gpr := (gpr s)(4 := esp s + of_nat (sz div 8))\<rparr>)"
proof -
  have "cut_size sz (mem_get (hw_mem s) a (sz div 8)) = Some (mem_get (hw_mem s) a (sz div 8))" for a
    using assms(1) mem_get_bound [of "hw_mem s" a 2]
    by (auto simp: cut_size_def take_bit_eq_mask mask_eq_exp_minus_1)
  then show ?thesis
    using vaddr_read_ram [OF assms(2)]
    by (simp add: pop_def operand_read_def operand_write_def reg_opr_def mem_opr_def reg_read_def reg_write_def
        cut_size_def [of 32] set_gpr_def)
qed

lemma stack_of_ram:
  assumes "stack_of b s ws n"
  shows "0 < n \<Longrightarrow> ram s SREG_SS (esp s - 4) 4"
    and "i < length ws \<Longrightarrow> ram s SREG_SS (esp s + of_nat (4 * i)) 4"
proof -
  have len: "len_ok 4" by (simp add: len_ok_def)
  have r: "ram_region s SREG_SS (esp s - of_nat (4 * n)) (4 * n + 4 * length ws)"
    using assms by (simp add: stack_of_def)
  have e: "esp s - of_nat (4 * n) + of_nat (4 * n + k) = esp s + of_nat k" for k
    by simp
  show "0 < n \<Longrightarrow> ram s SREG_SS (esp s - 4) 4"
    using ram_region_ram [OF r, of "4 * (n - 1)" 4] len
    by (cases n) (simp_all add: algebra_simps)
  show "i < length ws \<Longrightarrow> ram s SREG_SS (esp s + of_nat (4 * i)) 4"
    using ram_region_ram [OF r, of "4 * n + 4 * i" 4] len by (simp add: e [of "4 * i", simplified])
qed

lemma same_but_stackI: "same_but_stack s (s\<lparr>gpr := (gpr s)(4 := e), hw_mem := m\<rparr>)"
  by (simp add: same_but_stack_def)

lemma same_but_stackE:
  assumes "same_but_stack s t"
  obtains e m where "t = s\<lparr>gpr := (gpr s)(4 := e), hw_mem := m\<rparr>"
  using assms by (auto simp: same_but_stack_def)

lemma same_but_stack_trans: "same_but_stack s t \<Longrightarrow> same_but_stack t u \<Longrightarrow> same_but_stack s u"
  by (elim same_but_stackE) (simp add: same_but_stackI)

lemma stack_bytes:
  assumes "4 * j + 8 \<le> 2 ^ 27" "i < 4"
  shows "4 \<le> unat (a + 4 + of_nat (4 * j) + of_nat i - a :: u32)"
proof -
  have "a + 4 + of_nat (4 * j) + of_nat i - a = (of_nat (4 + 4 * j + i) :: u32)"
    by simp
  moreover have "4 + 4 * j + i < 2 ^ 32" using assms by simp
  ultimately show ?thesis
    by (simp only: unat_of_nat) simp
qed

lemma push_law:
  assumes st: "stack_of b s ws (Suc n)"
  shows "\<exists>t. push w 32 s = Some t \<and> stack_of b t (w # ws) n \<and> same_but_stack s t"
proof -
  let ?a = "lin s SREG_SS (esp s - 4)"
  let ?t = "s\<lparr>gpr := (gpr s)(4 := esp s - 4), hw_mem := mem_put (hw_mem s) ?a 4 w\<rparr>"
  note r = st[unfolded stack_of_def]
  have p: "push w 32 s = Some ?t"
    using push_eq [of 32 s w] stack_of_ram(1) [OF st] by (simp add: len_ok_def)
  have len: "4 * length ws < 2 ^ 27" using r by (auto simp: ram_region_def)
  have e: "unat (esp s - 4) = unat (esp s) - 4"
    using r unat_sub [of 4 "esp s"] by (simp add: word_le_nat_alt)
  have rr: "ram_region ?t = ram_region s" and et: "esp ?t = esp s - 4" by (simp_all add: frame_simps)
  note reg = r[THEN conjunct2, THEN conjunct1]
  have shift: "esp s - 4 - of_nat (4 * n) = esp s - of_nat (4 * Suc n)"
    "4 * n + 4 * length (w # ws) = 4 * Suc n + 4 * length ws" by simp_all
  have c: "mem_get (hw_mem ?t) (lin ?t SREG_SS (esp ?t) + of_nat (4 * i)) 4 = (w # ws) ! i"
    if "i < Suc (length ws)" for i
  proof (cases i)
    case 0
    then show ?thesis by (simp add: frame_simps mem_get_mem_put_same take_bit_word_eq_self)
  next
    case (Suc j)
    with that have j: "j < length ws" by simp
    have "lin s SREG_SS (esp s) = ?a + 4" by (simp add: lin_add [symmetric])
    moreover have "mem_get (mem_put (hw_mem s) ?a 4 w) (?a + 4 + of_nat (4 * j)) 4
        = mem_get (hw_mem s) (?a + 4 + of_nat (4 * j)) 4"
      by (rule mem_get_mem_put_disjoint) (rule stack_bytes, use j len in auto)
    ultimately show ?thesis using j r Suc by (simp add: frame_simps add.assoc)
  qed
  have "stack_of b ?t (w # ws) n"
    unfolding stack_of_def
  proof (intro conjI allI impI)
    show "4 * n \<le> unat (esp ?t)" unfolding et e using r [THEN conjunct1] by simp
    show "b = esp ?t + of_nat (4 * length (w # ws))" using r by simp
    show "ram_region ?t SREG_SS (esp ?t - of_nat (4 * n)) (4 * n + 4 * length (w # ws))"
      unfolding rr et shift by (rule reg)
  qed (use c in simp)
  with p show ?thesis by (auto intro: same_but_stackI)
qed

lemma pop_law:
  assumes st: "stack_of b s (w # ws) n"
  shows "\<exists>t. pop 32 s = Some (w, t) \<and> stack_of b t ws (Suc n) \<and> same_but_stack s t"
proof -
  let ?t = "s\<lparr>gpr := (gpr s)(4 := esp s + 4)\<rparr>"
  note r = st[unfolded stack_of_def]
  note reg = r[THEN conjunct2, THEN conjunct1]
  have "mem_get (hw_mem s) (lin s SREG_SS (esp s)) 4 = w"
    using r [THEN conjunct2, THEN conjunct2, THEN conjunct1, rule_format, of 0] by simp
  then have p: "pop 32 s = Some (w, ?t)"
    using pop_eq [of 32 s] stack_of_ram(2) [OF st, of 0] by simp
  have b: "unat (esp s - of_nat (4 * n)) + (4 * n + 4 * length (w # ws)) \<le> unat QDISK_BASE"
    using reg by (simp only: ram_region_def)
  have "unat (of_nat (4 * n) :: u32) = 4 * n"
    using r [THEN conjunct1] unat_less_32 [of "esp s"] by (simp only: unat_of_nat) simp
  then have "unat (esp s - of_nat (4 * n)) = unat (esp s) - 4 * n"
    using r [THEN conjunct1] unat_sub [of "of_nat (4 * n)" "esp s"] by (simp only: word_le_nat_alt)
  with b r [THEN conjunct1] have "unat (esp s) + 4 < 2 ^ 32" by (simp add: unat_QDISK_BASE)
  then have e: "unat (esp s + 4) = unat (esp s) + 4"
    using unat_add_nat [of "esp s" 4] by simp
  have rr: "ram_region ?t = ram_region s" and et: "esp ?t = esp s + 4" by (simp_all add: frame_simps)
  have shift: "esp s + 4 - of_nat (4 * Suc n) = esp s - of_nat (4 * n)"
    "4 * Suc n + 4 * length ws = 4 * n + 4 * length (w # ws)" by simp_all
  have c: "mem_get (hw_mem s) (lin s SREG_SS (esp s + 4) + of_nat (4 * i)) 4 = ws ! i" if "i < length ws" for i
  proof -
    have "mem_get (hw_mem s) (lin s SREG_SS (esp s) + of_nat (4 * Suc i)) 4 = (w # ws) ! Suc i"
      by (rule r [THEN conjunct2, THEN conjunct2, THEN conjunct1, rule_format]) (use that in simp)
    moreover have "lin s SREG_SS (esp s + 4) + of_nat (4 * i) = lin s SREG_SS (esp s) + of_nat (4 * Suc i)"
      by (simp add: lin_add add.assoc)
    ultimately show ?thesis by (simp only:) simp
  qed
  have "stack_of b ?t ws (Suc n)"
    unfolding stack_of_def
  proof (intro conjI allI impI)
    show "4 * Suc n \<le> unat (esp ?t)" unfolding et e using r [THEN conjunct1] by simp
    show "b = esp ?t + of_nat (4 * length ws)" using r by simp
    show "ram_region ?t SREG_SS (esp ?t - of_nat (4 * Suc n)) (4 * Suc n + 4 * length ws)"
      unfolding rr et shift by (rule reg)
  qed (use c in \<open>simp add: frame_simps\<close>)
  with p same_but_stackI [where s = s and e = "esp s + 4" and m = "hw_mem s"] show ?thesis by simp
qed

interpretation stack: word_stack "\<lambda>w. push w 32" "pop 32" "stack_of b" same_but_stack for b
  by unfold_locales (fact push_law, fact pop_law, simp add: same_but_stack_def, fact same_but_stack_trans)

text \<open>A push and a pop keep the control registers and the rest of what the instructions look at.\<close>

lemma same_but_stack_simps:
  assumes "same_but_stack s t"
  shows "i \<noteq> 4 \<Longrightarrow> gpr t i = gpr s i" "eip t = eip s" "eflags t = eflags s" "segReg t = segReg s"
    "cr0 t = cr0 s" "cr3 t = cr3 s" "idtr_base t = idtr_base s" "idtr_limit t = idtr_limit s"
    "data_size t = data_size s" "mmio t = mmio s" "lin t = lin s" "ram t = ram s" "ram_region t = ram_region s"
  using assms by (auto elim!: same_but_stackE simp: frame_simps)

lemma push_pushes:
  assumes "stack_of b s ws (Suc n)"
  obtains t where "push w 32 s = Some t" "stack_of b t (w # ws) n" "same_but_stack s t"
  using push_law [OF assms] by blast

lemma pop_pops:
  assumes "stack_of b s (w # ws) n"
  obtains t where "pop 32 s = Some (w, t)" "stack_of b t ws (Suc n)" "same_but_stack s t"
  using pop_law [OF assms] by blast

lemma stack_of_frame [frame_simps]:
  "stack_of b (s\<lparr>eip := e\<rparr>) = stack_of b s" "stack_of b (s\<lparr>eflags := f\<rparr>) = stack_of b s"
  by (simp_all add: fun_eq_iff stack_of_def frame_simps)

lemma stack_of_set_gpr [frame_simps]: "i \<noteq> 4 \<Longrightarrow> stack_of b (set_gpr i v s) = stack_of b s"
  by (simp add: fun_eq_iff stack_of_def frame_simps)

text \<open>With the same bottom, the depth of the stack fixes \<open>esp\<close>.\<close>

lemma stack_of_esp: "stack_of b s ws n \<Longrightarrow> esp s = b - of_nat (4 * length ws)"
  by (simp add: stack_of_def)

section \<open>pusha and popa\<close>

text \<open>
  A rule for programs that start with a push, and one for programs that start with a pop: the stack
  grows and shrinks, and the state remains the same but for the stack as a state \<open>s0\<close> of reference.
\<close>

lemma push_rule:
  assumes st: "stack_of b s ws (Suc n)" and same: "same_but_stack s0 s"
    and rest: "\<And>t. stack_of b t (w # ws) n \<Longrightarrow> same_but_stack s0 t \<Longrightarrow> \<exists>x. f t = Some x \<and> Q x"
  shows "\<exists>x. push w 32 s \<bind> f = Some x \<and> Q x"
proof -
  obtain t where "push w 32 s = Some t" "stack_of b t (w # ws) n" "same_but_stack s t"
    by (rule push_pushes [OF st])
  with rest [of t] same_but_stack_trans [OF same, of t] show ?thesis by simp
qed

lemma pop_rule:
  assumes st: "stack_of b s (w # ws) n" and same: "same_but_stack s0 s"
    and rest: "\<And>t. stack_of b t ws (Suc n) \<Longrightarrow> same_but_stack s0 t \<Longrightarrow> \<exists>x. f (w, t) = Some x \<and> Q x"
  shows "\<exists>x. pop 32 s \<bind> f = Some x \<and> Q x"
proof -
  obtain t where "pop 32 s = Some (w, t)" "stack_of b t ws (Suc n)" "same_but_stack s t"
    by (rule pop_pops [OF st])
  with rest [of t] same_but_stack_trans [OF same, of t] show ?thesis by simp
qed

lemma same_gpr: "same_but_stack s t \<Longrightarrow> i \<noteq> 4 \<Longrightarrow> gpr t i = gpr s i"
  by (rule same_but_stack_simps)

definition regs_below :: "machine \<Rightarrow> u32 list" where
  "regs_below s = [edi s, esi s, ebp s, esp s, ebx s, edx s, ecx s, eax s]"

lemma pusha_stack:
  assumes st: "stack_of b s ws (8 + n)"
  shows "\<exists>x. pusha pc op s = Some x \<and>
     fst x = 1 \<and> same_but_stack s (snd x) \<and> stack_of b (snd x) (regs_below s @ ws) n"
proof -
  have r: "same_but_stack s s" by (simp add: same_but_stack_def)
  have "stack_of b s ws (Suc (Suc (Suc (Suc (Suc (Suc (Suc (Suc n))))))))"
    using st by (simp add: eval_nat_numeral)
  then show ?thesis
    unfolding pusha_def Let_def
    apply (rule push_rule [OF _ r])
    apply ((rule push_rule, assumption, assumption)+)
    apply (simp add: regs_below_def same_gpr)
    done
qed

lemma pop_to_stack:
  assumes st: "stack_of b s (w # ws) n" and r: "r \<noteq> 4"
  shows "pop_to r s = Some (set_gpr r w (set_gpr 4 (esp s + 4) s))"
    "stack_of b (set_gpr r w (set_gpr 4 (esp s + 4) s)) ws (Suc n)"
proof -
  obtain t where t: "pop 32 s = Some (w, t)" "stack_of b t ws (Suc n)" "same_but_stack s t"
    by (rule pop_pops [OF st])
  have "t = set_gpr 4 (esp s + 4) s"
    using t(1) pop_eq [of 32 s] stack_of_ram(2) [OF st, of 0] by (simp add: set_gpr_def)
  with t r show "pop_to r s = Some (set_gpr r w (set_gpr 4 (esp s + 4) s))"
    "stack_of b (set_gpr r w (set_gpr 4 (esp s + 4) s)) ws (Suc n)"
    by (simp_all add: pop_to_def frame_simps)
qed

lemma pop_to_rule:
  assumes "stack_of b s (w # ws) n" "r \<noteq> 4"
    and "\<And>t. t = set_gpr r w (set_gpr 4 (esp s + 4) s) \<Longrightarrow> stack_of b t ws (Suc n) \<Longrightarrow> \<exists>x. f t = Some x \<and> Q x"
  shows "\<exists>x. pop_to r s \<bind> f = Some x \<and> Q x"
  using assms pop_to_stack [OF assms(1,2)] by simp

text \<open>The popped value of \<open>esp\<close> is skipped.\<close>

lemma skip_stack:
  assumes st: "stack_of b s (w # ws) n"
  shows "stack_of b (set_gpr 4 (esp s + 4) s) ws (Suc n)"
proof -
  obtain t where t: "pop 32 s = Some (w, t)" "stack_of b t ws (Suc n)"
    by (rule pop_pops [OF st])
  have "t = set_gpr 4 (esp s + 4) s"
    using t(1) pop_eq [of 32 s] stack_of_ram(2) [OF st, of 0] by (simp add: set_gpr_def)
  with t show ?thesis by simp
qed

lemma skip_rule:
  assumes "stack_of b s (w # ws) n"
    and "\<And>t. t = set_gpr 4 (esp s + 4) s \<Longrightarrow> stack_of b t ws (Suc n) \<Longrightarrow> \<exists>x. f t = Some x \<and> Q x"
  shows "\<exists>x. f (set_gpr 4 (esp s + 4) s) = Some x \<and> Q x"
  using assms(2) skip_stack [OF assms(1)] by simp

lemma popa_stack:
  assumes st: "stack_of b s ([v7, v6, v5, v4, v3, v2, v1, v0] @ ws) n"
  shows "\<exists>x. popa pc op s = Some x \<and> fst x = 1 \<and> stack_of b (snd x) ws (8 + n) \<and>
     (\<exists>e. snd x = s\<lparr>gpr := (gpr s)(0 := v0, 1 := v1, 2 := v2, 3 := v3, 4 := e, 5 := v5, 6 := v6, 7 := v7)\<rparr>)"
  using st unfolding popa_def Let_def append_Cons
  apply (rule pop_to_rule, simp)
  apply (rule pop_to_rule, assumption, simp)
  apply (rule pop_to_rule, assumption, simp)
  apply (rule skip_rule, assumption)
  apply (rule pop_to_rule, assumption, simp)
  apply (rule pop_to_rule, assumption, simp)
  apply (rule pop_to_rule, assumption, simp)
  apply (rule pop_to_rule, assumption, simp)
  subgoal premises p for t7 t6 t5 t4 t3 t2 t1 t0
  proof -
    have "stack_of b t0 ws (8 + n)" using p(16) by (simp add: eval_nat_numeral)
    moreover have "t0 = s\<lparr>gpr := (gpr s)(0 := v0, 1 := v1, 2 := v2, 3 := v3, 4 := esp s + 32,
        5 := v5, 6 := v6, 7 := v7)\<rparr>"
      using p by (simp add: set_gpr_def fun_eq_iff)
    ultimately show ?thesis by auto
  qed
  done

section \<open>Calls\<close>

text \<open>A stack that a machine without paging has, for the witnesses.\<close>

lemma stack_of_empty:
  "ram_region s SREG_SS (esp s - of_nat (4 * n)) (4 * n) \<Longrightarrow> 4 * n \<le> unat (esp s) \<Longrightarrow>
   stack_of (esp s) s [] n"
  by (simp add: stack_of_def)

lemma imm_read:
  "ram s SREG_CS a (n div 8) \<Longrightarrow> n \<in> {8, 16, 32} \<Longrightarrow>
   operand_read (imm_opr s a n) s = Some ((imm_opr s a n)\<lparr>o_val := mem_get (hw_mem s) (lin s SREG_CS a) (n div 8)\<rparr>)"
  using mem_get_bound [of "hw_mem s" "lin s SREG_CS a" 1] mem_get_bound [of "hw_mem s" "lin s SREG_CS a" 2]
  by (auto simp: operand_read_def imm_opr_def vaddr_read_ram cut_size_def take_bit_eq_mask mask_eq_exp_minus_1)

lemma same_but_stack_upd:
  assumes "same_but_stack s t"
  shows "same_but_stack (s\<lparr>eip := a\<rparr>) (t\<lparr>eip := a\<rparr>)"
    "same_but_stack (s\<lparr>eflags := f\<rparr>) (t\<lparr>eflags := f\<rparr>)"
    "same_but_stack (set_cs c s) (set_cs c t)"
proof -
  from assms obtain e m where t: "t = s\<lparr>gpr := (gpr s)(4 := e), hw_mem := m\<rparr>" by (rule same_but_stackE)
  show "same_but_stack (s\<lparr>eip := a\<rparr>) (t\<lparr>eip := a\<rparr>)"
    "same_but_stack (s\<lparr>eflags := f\<rparr>) (t\<lparr>eflags := f\<rparr>)"
    "same_but_stack (set_cs c s) (set_cs c t)"
    unfolding t by (simp_all add: same_but_stack_def set_cs_def)
qed

lemma call_e8_stack:
  assumes st: "stack_of b s ws (Suc n)" and d: "data_size s = 32" and r: "ram s SREG_CS (pc + 1) 4"
  shows "\<exists>t. call_e8 pc op s = Some (5, t) \<and> stack_of b t ((eip s + 5) # ws) n \<and>
     same_but_stack (s\<lparr>eip := eip s + mem_get (hw_mem s) (lin s SREG_CS (pc + 1)) 4\<rparr>) t"
proof -
  obtain t where t: "push (eip s + 5) 32 s = Some t" "stack_of b t ((eip s + 5) # ws) n" "same_but_stack s t"
    by (rule push_pushes [OF st])
  have rd: "operand_read (imm_opr s (pc + 1) 32) s =
      Some ((imm_opr s (pc + 1) 32)\<lparr>o_val := mem_get (hw_mem s) (lin s SREG_CS (pc + 1)) 4\<rparr>)"
    using imm_read [of s "pc + 1" 32] r by simp
  have "call_e8 pc op s = Some (5, t\<lparr>eip := eip s + mem_get (hw_mem s) (lin s SREG_CS (pc + 1)) 4\<rparr>)"
    using t(1) same_but_stack_simps [OF t(3)]
    by (simp add: call_e8_def d rd size_bytes_def) (simp add: imm_opr_def)
  with t show ?thesis by (auto simp: frame_simps same_but_stack_upd)
qed

lemma ret_c3_stack:
  assumes st: "stack_of b s (a # ws) n" and d: "data_size s = 32"
  shows "\<exists>t. ret_c3 pc op s = Some (0, t) \<and> stack_of b t ws (Suc n) \<and> same_but_stack (s\<lparr>eip := a\<rparr>) t"
proof -
  obtain t where t: "pop 32 s = Some (a, t)" "stack_of b t ws (Suc n)" "same_but_stack s t"
    by (rule pop_pops [OF st])
  then show ?thesis
    using same_but_stack_simps [OF t(3)] by (auto simp: ret_c3_def d Let_def frame_simps same_but_stack_upd)
qed

section \<open>Interrupts\<close>

lemma set_cs_frame [frame_simps]:
  "lin (set_cs c s) = lin s" "ram_region (set_cs c s) = ram_region s" "stack_of b (set_cs c s) = stack_of b s"
  by (auto simp: fun_eq_iff lin_def ram_region_def stack_of_def set_cs_def)

lemma set_cs_commute: "(set_cs c s)\<lparr>eflags := f\<rparr> = set_cs c (s\<lparr>eflags := f\<rparr>)"
  by (cases s) (simp add: set_cs_def)

lemma eflags_self: "eflags s = f \<Longrightarrow> s\<lparr>eflags := f\<rparr> = s" for s :: machine
  by (cases s) auto

text \<open>
  The two words of the gate of interrupt \<open>no\<close> are RAM that the three words of the frame do not touch;
  a 32-bit interrupt or trap gate.
\<close>

definition gate_addr :: "machine \<Rightarrow> u8 \<Rightarrow> u32" where "gate_addr s no = idtr_base s + ucast no * 8"

definition gate_word :: "machine \<Rightarrow> u8 \<Rightarrow> nat \<Rightarrow> u32" where
  "gate_word s no k = mem_get (hw_mem s) (gate_addr s no + of_nat (4 * k)) 4"

definition gate_ok :: "machine \<Rightarrow> u8 \<Rightarrow> bool" where
  "gate_ok s no \<longleftrightarrow> unat no < unat (idtr_limit s) \<and>
     lram s (gate_addr s no) 4 \<and> lram s (gate_addr s no + 4) 4 \<and>
     (\<forall>i<8. 12 \<le> unat (gate_addr s no + of_nat i - lin s SREG_SS (esp s - 12))) \<and>
     (gate_type (gate_word s no 0) (gate_word s no 1) = 0xe \<or>
      gate_type (gate_word s no 0) (gate_word s no 1) = 0xf)"

definition gate_offset :: "machine \<Rightarrow> u8 \<Rightarrow> u32" where
  "gate_offset s no = push_bit 16 (gate_offset_31_16 (gate_word s no 0) (gate_word s no 1)) OR
     gate_offset_15_0 (gate_word s no 0) (gate_word s no 1)"

definition gate_flags :: "machine \<Rightarrow> u8 \<Rightarrow> u32" where
  "gate_flags s no =
     (if gate_type (gate_word s no 0) (gate_word s no 1) = 0xe then put_IF False (eflags s) else eflags s)"

lemma push_mem:
  assumes "stack_of b s ws (Suc n)" "push w 32 s = Some t"
  shows "hw_mem t = mem_put (hw_mem s) (lin s SREG_SS (esp s - 4)) 4 w" "esp t = esp s - 4"
  using push_eq [of 32 s w] stack_of_ram(1) [OF assms(1)] assms(2) by (auto simp: len_ok_def)

lemma frame_disjoint:
  fixes x a :: u32
  assumes "12 \<le> unat (x - a)" "k \<le> 8"
  shows "4 \<le> unat (x - (a + of_nat k))"
proof -
  have "x - (a + of_nat k) = (x - a) - of_nat k" by simp
  moreover have "of_nat k \<le> x - a"
    using assms by (simp add: word_le_nat_alt unat_of_nat)
  then have "unat ((x - a) - of_nat k) = unat (x - a) - k"
    using assms(2) by (simp add: unat_sub unat_of_nat)
  ultimately show ?thesis using assms by (simp only:)
qed

lemma raise_intr_stack:
  assumes st: "stack_of b s ws (3 + n)" and g: "gate_ok s no"
  shows "\<exists>t. raise_intr no s = Some t \<and>
     stack_of b t (eip s # ucast (sr_val (segReg s SREG_CS)) # eflags s # ws) n \<and>
     same_but_stack (set_cs (ucast (gate_selector (gate_word s no 0) (gate_word s no 1))) s
       \<lparr>eflags := gate_flags s no, eip := gate_offset s no\<rparr>) t"
proof -
  have st': "stack_of b s ws (Suc (Suc (Suc n)))" using st by (simp add: eval_nat_numeral)
  let ?cs = "ucast (sr_val (segReg s SREG_CS)) :: u32"
  obtain t1 where t1: "push (eflags s) 32 s = Some t1" "stack_of b t1 (eflags s # ws) (Suc (Suc n))" "same_but_stack s t1"
    by (rule push_pushes [OF st'])
  obtain t2 where t2: "push ?cs 32 t1 = Some t2" "stack_of b t2 (?cs # eflags s # ws) (Suc n)" "same_but_stack t1 t2"
    by (rule push_pushes [OF t1(2)])
  obtain t3 where t3: "push (eip s) 32 t2 = Some t3" "stack_of b t3 (eip s # ?cs # eflags s # ws) n" "same_but_stack t2 t3"
    by (rule push_pushes [OF t2(2)])
  note same = same_but_stack_trans [OF same_but_stack_trans [OF t1(3) t2(3)] t3(3)]
  note s1 = same_but_stack_simps [OF t1(3)] and s2 = same_but_stack_simps [OF t2(3)]
    and s3 = same_but_stack_simps [OF same]
  have m: "hw_mem t3 = mem_put (mem_put (mem_put (hw_mem s) (lin s SREG_SS (esp s - 4)) 4 (eflags s))
      (lin s SREG_SS (esp s - 8)) 4 ?cs) (lin s SREG_SS (esp s - 12)) 4 (eip s)"
    using push_mem [OF st' t1(1)] push_mem [OF t1(2) t2(1)] push_mem [OF t2(2) t3(1)] s1 s2 by simp
  have word: "mem_get (hw_mem t3) (gate_addr s no + of_nat (4 * k)) 4 = gate_word s no k" if "k < 2" for k
  proof -
    have d: "4 \<le> unat (gate_addr s no + of_nat (4 * k) + of_nat i - lin s SREG_SS (esp s - of_nat (12 - j)))"
      if "i < 4" "j \<in> {0, 4, 8}" for i j
    proof -
      have "12 \<le> unat (gate_addr s no + of_nat (4 * k + i) - lin s SREG_SS (esp s - 12))"
      proof -
        have "\<forall>i<8. 12 \<le> unat (gate_addr s no + of_nat i - lin s SREG_SS (esp s - 12))"
          using g unfolding gate_ok_def by blast
        from this [rule_format, of "4 * k + i"] that(1) \<open>k < 2\<close> show ?thesis by linarith
      qed
      then have "4 \<le> unat (gate_addr s no + of_nat (4 * k + i) - (lin s SREG_SS (esp s - 12) + of_nat j))"
        by (rule frame_disjoint) (use that in auto)
      moreover have "lin s SREG_SS (esp s - 12) + of_nat j = lin s SREG_SS (esp s - of_nat (12 - j))"
        unfolding lin_add [symmetric] using that by (auto simp: algebra_simps)
      ultimately show ?thesis by (simp add: add.assoc)
    qed
    show ?thesis
      unfolding m gate_word_def
      using d [of _ 0] d [of _ 4] d [of _ 8]
      by (simp add: mem_get_mem_put_disjoint)
  qed
  have ram: "lram t3 = lram s" using s3 by (simp add: fun_eq_iff lram_def)
  have rd: "laddr_read t3 (idtr_base t3 + ucast no * 8) 4 = Some (gate_word s no 0)"
    "laddr_read t3 (idtr_base t3 + ucast no * 8 + 4) 4 = Some (gate_word s no 1)"
    using g word [of 0] word [of 1] s3(7) by (simp_all add: gate_ok_def ram laddr_read_ram gate_addr_def)
  have "raise_intr no s = Some (set_cs (ucast (gate_selector (gate_word s no 0) (gate_word s no 1)))
      (t3\<lparr>eflags := gate_flags s no\<rparr>) \<lparr>eip := gate_offset s no\<rparr>)"
    using g s1 s2 s3 t1(1) t2(1) t3(1) rd
    by (auto simp: eflags_self [OF s3(3)] raise_intr_def gate_ok_def gate_flags_def gate_offset_def Let_def)
  moreover have "same_but_stack (set_cs (ucast (gate_selector (gate_word s no 0) (gate_word s no 1)))
      (s\<lparr>eflags := gate_flags s no\<rparr>) \<lparr>eip := gate_offset s no\<rparr>)
    (set_cs (ucast (gate_selector (gate_word s no 0) (gate_word s no 1)))
      (t3\<lparr>eflags := gate_flags s no\<rparr>) \<lparr>eip := gate_offset s no\<rparr>)"
    by (intro same_but_stack_upd same)
  ultimately show ?thesis using t3(2) by (auto simp: frame_simps set_cs_commute)
qed

lemma ucast_16_32 [simp]: "ucast (ucast c :: u32) = c" for c :: u16
  by (rule bit_word_eqI) (auto simp: bit_simps)

lemma iret_stack:
  assumes st: "stack_of b s (a # c # f # ws) n" and pe: "cr0_pe (cr0 s)"
  shows "\<exists>t. iret pc op s = Some (0, t) \<and> stack_of b t ws (3 + n) \<and>
     same_but_stack (set_cs (ucast c) (s\<lparr>eip := a, eflags := f\<rparr>)) t"
proof -
  obtain t1 where t1: "pop 32 s = Some (a, t1)" "stack_of b t1 (c # f # ws) (Suc n)" "same_but_stack s t1"
    by (rule pop_pops [OF st])
  have "stack_of b (t1\<lparr>eip := a\<rparr>) (c # f # ws) (Suc n)" using t1(2) by (simp add: frame_simps)
  then obtain t2 where t2: "pop 32 (t1\<lparr>eip := a\<rparr>) = Some (c, t2)" "stack_of b t2 (f # ws) (Suc (Suc n))"
    "same_but_stack (t1\<lparr>eip := a\<rparr>) t2"
    by (rule pop_pops)
  have "stack_of b (set_cs (ucast c) t2) (f # ws) (Suc (Suc n))" using t2(2) by (simp add: frame_simps)
  then obtain t3 where t3: "pop 32 (set_cs (ucast c) t2) = Some (f, t3)" "stack_of b t3 ws (Suc (Suc (Suc n)))"
    "same_but_stack (set_cs (ucast c) t2) t3"
    by (rule pop_pops)
  have "iret pc op s = Some (0, t3\<lparr>eflags := f\<rparr>)"
    using pe t1 t2 t3 by (simp add: iret_def)
  moreover have "same_but_stack (set_cs (ucast c) (s\<lparr>eip := a, eflags := f\<rparr>)) (t3\<lparr>eflags := f\<rparr>)"
  proof -
    have "same_but_stack (set_cs (ucast c) (s\<lparr>eip := a\<rparr>)) t3"
      by (rule same_but_stack_trans [OF same_but_stack_upd(3) t3(3)],
          rule same_but_stack_trans [OF same_but_stack_upd(1) [OF t1(3)] t2(3)])
    from same_but_stack_upd(2) [OF this, of f] show ?thesis by (simp add: set_cs_commute)
  qed
  ultimately show ?thesis using t3(2) by (simp add: frame_simps eval_nat_numeral)
qed


section \<open>The properties\<close>

text \<open>C7: pushing any list of words and popping as many returns them in reverse order and restores
  every register; the state differs only in the memory below the stack pointer.\<close>

theorem push_pop_lifo:
  "stack_of b s ws (length vs + n) \<Longrightarrow>
     \<exists>t u. foldM (\<lambda>w. push w 32) vs s = Some t \<and> stack.pops (length vs) t = Some (rev vs, u) \<and>
       stack_of b u ws (n + length vs) \<and> u = s\<lparr>hw_mem := hw_mem u\<rparr>"
proof -
  assume st: "stack_of b s ws (length vs + n)"
  from stack.lifo [OF st] obtain t u where u: "foldM (\<lambda>w. push w 32) vs s = Some t"
    "stack.pops (length vs) t = Some (rev vs, u)" "stack_of b u ws (n + length vs)" "same_but_stack s u" by blast
  from u(4) stack_of_esp [OF u(3)] stack_of_esp [OF st] have "u = s\<lparr>hw_mem := hw_mem u\<rparr>"
    by (auto elim!: same_but_stackE simp: fun_upd_idem)
  with u show ?thesis by blast
qed

text \<open>\<open>popa\<close> after \<open>pusha\<close> restores the whole processor, the stack pointer included.\<close>

theorem pusha_popa:
  "stack_of b s ws (8 + n) \<Longrightarrow>
     \<exists>t u. pusha pc op s = Some (1, t) \<and> popa pc' op' t = Some (1, u) \<and>
       stack_of b u ws (8 + n) \<and> u = s\<lparr>hw_mem := hw_mem u\<rparr>"
proof -
  assume st: "stack_of b s ws (8 + n)"
  from pusha_stack [OF st, of pc op] obtain t where t: "pusha pc op s = Some (1, t)"
    "same_but_stack s t" "stack_of b t (regs_below s @ ws) n" by auto
  from popa_stack [of b t "edi s" "esi s" "ebp s" "esp s" "ebx s" "edx s" "ecx s" "eax s" ws n pc' op'] t(3)
  obtain u e where u: "popa pc' op' t = Some (1, u)" "stack_of b u ws (8 + n)"
    "u = t\<lparr>gpr := (gpr t)(0 := eax s, 1 := ecx s, 2 := edx s, 3 := ebx s, 4 := e, 5 := ebp s, 6 := esi s, 7 := edi s)\<rparr>"
    by (auto simp: regs_below_def)
  have "e = esp s" using stack_of_esp [OF u(2)] stack_of_esp [OF st] u(3) by simp
  moreover have "gpr t = (gpr s)(4 := esp t)" using t(2) by (auto elim!: same_but_stackE)
  ultimately have "gpr u = gpr s" using u(3) by (auto simp: fun_eq_iff)
  with u(3) t(2) have "u = s\<lparr>hw_mem := hw_mem u\<rparr>"
    by (auto elim!: same_but_stackE)
  with t u show ?thesis by blast
qed

text \<open>C8: a near call followed by a return comes back to the instruction after the call, with the
  stack pointer and every register restored. The main loop adds the returned lengths 5 and 0.\<close>

theorem call_ret:
  "stack_of b s ws (Suc n) \<Longrightarrow> data_size s = 32 \<Longrightarrow> ram s SREG_CS (eip s + 1) 4 \<Longrightarrow>
     \<exists>t u. call_e8 (eip s) op s = Some (5, t) \<and> ret_c3 pc' op' (t\<lparr>eip := eip t + 5\<rparr>) = Some (0, u) \<and>
       eip t = eip s + mem_get (hw_mem s) (lin s SREG_CS (eip s + 1)) 4 \<and>
       u = s\<lparr>eip := eip s + 5, hw_mem := hw_mem u\<rparr>"
proof -
  assume st: "stack_of b s ws (Suc n)" and d: "data_size s = 32" and r: "ram s SREG_CS (eip s + 1) 4"
  let ?tgt = "eip s + mem_get (hw_mem s) (lin s SREG_CS (eip s + 1)) 4"
  from call_e8_stack [OF st d r] obtain t where t: "call_e8 (eip s) op s = Some (5, t)"
    "stack_of b t ((eip s + 5) # ws) n" "same_but_stack (s\<lparr>eip := ?tgt\<rparr>) t" by blast
  have st2: "stack_of b (t\<lparr>eip := eip t + 5\<rparr>) ((eip s + 5) # ws) n" using t(2) by (simp add: frame_simps)
  have "data_size (t\<lparr>eip := eip t + 5\<rparr>) = 32" using same_but_stack_simps(9) [OF t(3)] d by simp
  from ret_c3_stack [OF st2 this, of pc' op'] obtain u where u:
    "ret_c3 pc' op' (t\<lparr>eip := eip t + 5\<rparr>) = Some (0, u)" "stack_of b u ws (Suc n)"
    "same_but_stack (t\<lparr>eip := eip s + 5\<rparr>) u" by auto
  have "u = s\<lparr>eip := eip s + 5, hw_mem := hw_mem u\<rparr>"
    using u(3) t(3) stack_of_esp [OF u(2)] stack_of_esp [OF st]
    by (auto elim!: same_but_stackE simp: fun_upd_idem)
  with t u same_but_stack_simps(2) [OF t(3)] show ?thesis by auto
qed

text \<open>C9: delivering an interrupt through a 32-bit gate saves flags, code segment and instruction pointer,
  enters the handler with IF cleared by an interrupt gate and kept by a trap gate, and \<open>iret\<close> brings
  the processor back to exactly the interrupted state.\<close>

theorem interrupt_iret:
  "stack_of b s ws (3 + n) \<Longrightarrow> gate_ok s no \<Longrightarrow> cr0_pe (cr0 s) \<Longrightarrow>
     \<exists>t u. raise_intr no s = Some t \<and> eip t = gate_offset s no \<and> eflags t = gate_flags s no \<and>
       stack_of b t (eip s # ucast (sr_val (segReg s SREG_CS)) # eflags s # ws) n \<and>
       iret pc op t = Some (0, u) \<and> u = s\<lparr>hw_mem := hw_mem u\<rparr>"
proof -
  assume st: "stack_of b s ws (3 + n)" and g: "gate_ok s no" and pe: "cr0_pe (cr0 s)"
  let ?sel = "ucast (gate_selector (gate_word s no 0) (gate_word s no 1)) :: u16"
  from raise_intr_stack [OF st g] obtain t where t: "raise_intr no s = Some t"
    "stack_of b t (eip s # ucast (sr_val (segReg s SREG_CS)) # eflags s # ws) n"
    "same_but_stack (set_cs ?sel s \<lparr>eflags := gate_flags s no, eip := gate_offset s no\<rparr>) t" by blast
  have "cr0_pe (cr0 t)" using pe same_but_stack_simps(5) [OF t(3)] by (simp add: set_cs_def)
  from iret_stack [OF t(2) this, of pc op] obtain u where u: "iret pc op t = Some (0, u)" "stack_of b u ws (3 + n)"
    "same_but_stack (set_cs (sr_val (segReg s SREG_CS)) (t\<lparr>eip := eip s, eflags := eflags s\<rparr>)) u" by auto
  have "u = s\<lparr>hw_mem := hw_mem u\<rparr>"
    using t(3) u(3) stack_of_esp [OF u(2)] stack_of_esp [OF st]
    by (cases s) (auto elim!: same_but_stackE simp: set_cs_def fun_upd_idem)
  moreover have "eip t = gate_offset s no" "eflags t = gate_flags s no"
    using same_but_stack_simps(2,3) [OF t(3)] by simp_all
  ultimately show ?thesis using t u by blast
qed

text \<open>
  A machine in protected mode whose interrupt table, at address 0x1000, starts with an interrupt gate
  for selector 8 and address 0x34567; the stack is at 0x8000.
\<close>

definition intr_machine :: machine where
  "intr_machine = machine0\<lparr>cr0 := 1, idtr_base := 0x1000, idtr_limit := 0x7ff, eflags := 0x202, eip := 0x1234,
     gpr := (\<lambda>i. if i = 4 then 0x8000 else 0),
     hw_mem := mem_put (mem_put (\<lambda>_. 0) 0x1000 4 0x00084567) 0x1004 4 0x00038e00\<rparr>"

lemma intr_machine_simps [simp]:
  "cr0 intr_machine = 1" "idtr_base intr_machine = 0x1000" "idtr_limit intr_machine = 0x7ff"
  "gpr intr_machine i = (if i = 4 then 0x8000 else 0)" "eip intr_machine = 0x1234" "eflags intr_machine = 0x202"
  "segReg intr_machine = (\<lambda>_. SegReg0)" "maps (mmio intr_machine) = []" "data_size intr_machine = 32"
  by (simp_all add: intr_machine_def)

lemma intr_machine_region:
  "sreg < 6 \<Longrightarrow> unat a + n < 0x8000000 \<Longrightarrow> ram_region intr_machine sreg a n"
  by (simp add: ram_region_def lin_def cr0_pg_def is_mmio_def unat_QDISK_BASE)

lemma intr_machine_stack: "stack_of 0x8000 intr_machine [] 1024"
  using stack_of_empty [of intr_machine 1024] by (simp add: intr_machine_region)

lemma intr_machine_words: "gate_word intr_machine 0 0 = 0x00084567" "gate_word intr_machine 0 1 = 0x00038e00"
  by (simp_all add: gate_word_def gate_addr_def) (simp_all add: intr_machine_def mem_word_simps)

lemma intr_machine_gate: "gate_ok intr_machine 0"
proof -
  have "\<forall>i<8. 12 \<le> unat (gate_addr intr_machine 0 + of_nat i - lin intr_machine SREG_SS (esp intr_machine - 12))"
  proof (intro allI impI)
    fix i :: nat
    assume "i < 8"
    then have "i \<in> {0, 1, 2, 3, 4, 5, 6, 7}" by auto
    then show "12 \<le> unat (gate_addr intr_machine 0 + of_nat i - lin intr_machine SREG_SS (esp intr_machine - 12))"
      by (auto simp: gate_addr_def lin_def)
  qed
  moreover have "lram intr_machine a 4" if "unat a + 4 < 0x8000000" for a
    using that by (simp add: lram_def cr0_pg_def is_mmio_def)
  ultimately show ?thesis
    by (simp add: gate_ok_def intr_machine_words [simplified] gate_type_def bf_get_def) (simp add: gate_addr_def)
qed

lemma length_3: "length [1, 2, 3 :: u32] = 3" and rev_3: "rev [1, 2, 3 :: u32] = [3, 2, 1]"
  by simp_all

theorem push_pop_lifo_witness:
  "\<exists>t u. foldM (\<lambda>w. push w 32) [1, 2, 3] intr_machine = Some t \<and>
     stack.pops 3 t = Some ([3, 2, 1], u) \<and> u = intr_machine\<lparr>hw_mem := hw_mem u\<rparr>"
proof -
  have "stack_of 0x8000 intr_machine [] (length [1, 2, 3 :: u32] + 1021)" using intr_machine_stack by simp
  from push_pop_lifo [OF this] show ?thesis by (simp only: length_3 rev_3) blast
qed

theorem pusha_popa_witness:
  "\<exists>t u. pusha 0 0 intr_machine = Some (1, t) \<and> popa 0 0 t = Some (1, u) \<and> u = intr_machine\<lparr>hw_mem := hw_mem u\<rparr>"
  using pusha_popa [of "0x8000" intr_machine "[]" 1016 0 0 0 0] intr_machine_stack by auto

theorem call_ret_witness:
  "\<exists>t u. call_e8 0x1234 0xe8 intr_machine = Some (5, t) \<and>
     ret_c3 0 0xc3 (t\<lparr>eip := eip t + 5\<rparr>) = Some (0, u) \<and> eip u = 0x1239"
proof -
  have "ram intr_machine SREG_CS (eip intr_machine + 1) 4"
    using ram_region_ram [OF intr_machine_region, of SREG_CS "0x1235" 4 0 4] by (simp add: len_ok_def)
  with call_ret [of "0x8000" intr_machine "[]" 1023 "0xe8" 0 "0xc3"] intr_machine_stack
  obtain t u where c: "call_e8 (eip intr_machine) 0xe8 intr_machine = Some (5, t)"
    "ret_c3 0 0xc3 (t\<lparr>eip := eip t + 5\<rparr>) = Some (0, u)"
    and u: "u = intr_machine\<lparr>eip := eip intr_machine + 5, hw_mem := hw_mem u\<rparr>" by auto
  have "eip u = 0x1239" by (subst u) simp
  with c show ?thesis by simp
qed

theorem interrupt_iret_witness:
  "\<exists>t u. raise_intr 0 intr_machine = Some t \<and> eip t = 0x34567 \<and> \<not> IF (eflags t) \<and>
     iret 0 0xcf t = Some (0, u) \<and> u = intr_machine\<lparr>hw_mem := hw_mem u\<rparr>"
proof -
  have "stack_of 0x8000 intr_machine [] (3 + 1021)" "cr0_pe (cr0 intr_machine)"
    using intr_machine_stack by (simp_all add: cr0_pe_def)
  from interrupt_iret [OF this(1) intr_machine_gate this(2), of 0 "0xcf"] obtain t u where
    "raise_intr 0 intr_machine = Some t" "eip t = gate_offset intr_machine 0" "eflags t = gate_flags intr_machine 0"
    "iret 0 0xcf t = Some (0, u)" "u = intr_machine\<lparr>hw_mem := hw_mem u\<rparr>" by blast
  moreover have "gate_offset intr_machine 0 = 0x34567" "\<not> IF (gate_flags intr_machine 0)"
    by (simp_all add: gate_offset_def gate_flags_def intr_machine_words [simplified] gate_type_def
        gate_offset_31_16_def gate_offset_15_0_def bf_get_def)
  ultimately show ?thesis by metis
qed

end
