(* ===== verification/Alu_Correct.thy ===== *)
theory Alu_Correct
  imports Alu
begin

text \<open>
  Correctness of the ALU against integer arithmetic. \<open>uval sz x\<close> and \<open>sval sz x\<close> read the low
  \<open>sz\<close> bits of a word as an unsigned and as a two's-complement number. Every helper of the
  source is first rewritten into its meaning (collection \<open>alu_simps\<close>); the operations then
  follow by linear arithmetic on these readings.
\<close>

section \<open>The reference readings\<close>

definition valid_size :: "nat \<Rightarrow> bool" where
  "valid_size sz \<longleftrightarrow> sz = 8 \<or> sz = 16 \<or> sz = 32"

definition uval :: "nat \<Rightarrow> u32 \<Rightarrow> int" where "uval sz x = take_bit sz (uint x)"
definition sval :: "nat \<Rightarrow> u32 \<Rightarrow> int" where "sval sz x = signed_take_bit (sz - 1) (uint x)"

definition in_srange :: "nat \<Rightarrow> int \<Rightarrow> bool" where
  "in_srange sz k \<longleftrightarrow> - (2 ^ (sz - 1)) \<le> k \<and> k < 2 ^ (sz - 1)"

definition even_parity :: "u32 \<Rightarrow> bool" where
  "even_parity x = even (length (filter (bit x) [0..<8]))"

lemma valid_size_cases:
  "valid_size sz \<Longrightarrow> (sz = 8 \<Longrightarrow> P) \<Longrightarrow> (sz = 16 \<Longrightarrow> P) \<Longrightarrow> (sz = 32 \<Longrightarrow> P) \<Longrightarrow> P"
  by (auto simp: valid_size_def)

lemma valid_sizes [simp]: "valid_size 8" "valid_size 16" "valid_size 32"
  by (simp_all add: valid_size_def)

lemma valid_size_le: "valid_size sz \<Longrightarrow> sz \<le> 32" "valid_size sz \<Longrightarrow> 0 < sz"
  by (auto simp: valid_size_def)

lemma uval_bounds: "0 \<le> uval sz x" "uval sz x < 2 ^ sz"
  by (simp_all add: uval_def)

lemma uint_take_bit: "uint (take_bit sz x) = uval sz x"
  by (simp add: uval_def unsigned_take_bit_eq)

lemma uval_take_bit [simp]: "uval sz (take_bit sz x) = uval sz x"
  by (simp add: uval_def unsigned_take_bit_eq)

lemma take_bit_eq_iff_uval: "take_bit sz x = take_bit sz y \<longleftrightarrow> uval sz x = uval sz y" for x y :: u32
  by (simp add: word_uint_eq_iff uint_take_bit)

lemma take_bit_0_iff_uval: "take_bit sz x = 0 \<longleftrightarrow> uval sz x = 0" for x :: u32
  using take_bit_eq_iff_uval [of sz x 0] by (simp add: uval_def)

lemma uval_add: "sz \<le> 32 \<Longrightarrow> uval sz (x + y) = (uval sz x + uval sz y) mod 2 ^ sz"
  by (simp add: uval_def uint_word_arith_bintrs take_bit_add flip: take_bit_eq_mod)

lemma uval_diff: "sz \<le> 32 \<Longrightarrow> uval sz (x - y) = (uval sz x - uval sz y) mod 2 ^ sz"
  by (simp add: uval_def uint_word_arith_bintrs take_bit_diff flip: take_bit_eq_mod)

lemma uval_minus: "sz \<le> 32 \<Longrightarrow> uval sz (- y) = (- uval sz y) mod 2 ^ sz"
  using uval_diff [of sz 0 y] by (simp add: uval_def)

lemma uval_of_bool: "0 < sz \<Longrightarrow> uval sz (of_bool b) = of_bool b"
  by (cases b) (simp_all add: uval_def)

lemma bit_top_int: "0 \<le> k \<Longrightarrow> k < 2 ^ Suc n \<Longrightarrow> bit k n \<longleftrightarrow> 2 ^ n \<le> k" for k :: int
proof (cases "2 ^ n \<le> k")
  case True
  assume "0 \<le> k" "k < 2 ^ Suc n"
  with True have "k div 2 ^ n = 1" by (intro int_div_pos_eq [where r = "k - 2 ^ n"]) auto
  with True show ?thesis by (simp add: bit_iff_odd)
next
  case False
  assume "0 \<le> k" "k < 2 ^ Suc n"
  with False show ?thesis by (simp add: bit_iff_odd div_pos_pos_trivial)
qed

lemma bit_sign_uval: "valid_size sz \<Longrightarrow> bit x (sz - 1) \<longleftrightarrow> 2 ^ (sz - 1) \<le> uval sz x"
proof -
  assume v: "valid_size sz"
  then have "bit (uval sz x) (sz - 1) = bit x (sz - 1)"
    by (auto simp: uval_def bit_take_bit_iff bit_uint_iff dest: valid_size_le bit_imp_le_length)
  moreover have "Suc (sz - 1) = sz" using v by (auto simp: valid_size_def)
  ultimately show ?thesis
    using bit_top_int [of "uval sz x" "sz - 1"] uval_bounds [of sz x] by simp
qed

lemma sval_uval: "valid_size sz \<Longrightarrow> sval sz x = uval sz x - (if bit x (sz - 1) then 2 ^ sz else 0)"
  by (auto simp: sval_def uval_def signed_take_bit_eq_take_bit_minus valid_size_def bit_uint_iff
      dest: bit_imp_le_length)

lemma sval_take_bit [simp]: "valid_size sz \<Longrightarrow> sval sz (take_bit sz x) = sval sz x"
  by (auto simp: sval_uval bit_simps valid_size_def)

lemma sval_range: "valid_size sz \<Longrightarrow> in_srange sz (sval sz x)"
  by (auto simp: in_srange_def sval_def valid_size_def signed_take_bit_int_greater_eq_minus_exp
      signed_take_bit_int_less_exp)

section \<open>The helpers' meaning\<close>

lemma cut_take_bit: "sz \<le> 64 \<Longrightarrow> cut x sz = take_bit sz x"
proof (cases "sz = 64")
  case True
  then show ?thesis by (simp add: cut_def take_bit_word_eq_self)
next
  case False
  then show ?thesis by (simp add: cut_def take_bit_eq_mask mask_eq_exp_minus_1 push_bit_eq_mult)
qed

lemma cut_u32_take_bit [alu_simps]: "sz \<le> 32 \<Longrightarrow> cut_u32 x sz = take_bit sz x"
  by (auto simp: cut_u32_def cut_take_bit intro!: bit_word_eqI simp: bit_simps)

lemma cut_i32_take_bit [alu_simps]: "sz \<le> 32 \<Longrightarrow> cut_i32 x sz = take_bit sz x"
  by (auto simp: cut_i32_def cut_take_bit intro!: bit_word_eqI simp: bit_simps)

lemma positive_take_bit [alu_simps]:
  "valid_size sz \<Longrightarrow> positive (take_bit sz x) sz \<longleftrightarrow> \<not> bit x (sz - 1)"
proof -
  assume v: "valid_size sz"
  let ?s = "ucast (signed_drop_bit (sz - 1) (take_bit sz x)) :: u8"
  have b: "bit ?s i \<longleftrightarrow> i < 8 \<and> (i = 0 \<or> sz = 32) \<and> bit x (sz - 1)" for i
    using v by (rule valid_size_cases)
      (auto simp: bit_simps less_Suc_eq numeral_eq_Suc dest: bit_imp_le_length)
  show ?thesis
  proof
    assume "positive (take_bit sz x) sz"
    then have "\<not> bit ?s 0" by (simp add: positive_def)
    then show "\<not> bit x (sz - 1)" using b [of 0] by simp
  next
    assume "\<not> bit x (sz - 1)"
    then have "?s = 0" using b by (intro bit_word_eqI) simp
    then show "positive (take_bit sz x) sz" by (simp add: positive_def)
  qed
qed

lemma set_SF_eq [alu_simps]:
  "valid_size sz \<Longrightarrow> set_SF (take_bit sz r) sz ef = put_SF (bit r (sz - 1)) ef"
  by (simp add: set_SF_def alu_simps)

lemma set_ZF_eq [alu_simps]: "valid_size sz \<Longrightarrow> set_ZF r sz ef = put_ZF (uval sz r = 0) ef"
  by (simp add: set_ZF_def alu_simps valid_size_le take_bit_0_iff_uval)

lemma PF_count_eq:
  "PF_count n c x = c + of_nat (length (filter (bit x) [0..<n]))"
proof (induction n arbitrary: c x)
  case 0
  show ?case by simp
next
  case (Suc n)
  have "[0..<Suc n] = 0 # map Suc [0..<n]"
    by (simp add: upt_conv_Cons map_Suc_upt del: upt_Suc)
  then have "length (filter (bit x) [0..<Suc n]) =
      of_bool (bit x 0) + length (filter (bit (drop_bit 1 x)) [0..<n])"
    by (simp add: filter_map o_def bit_drop_bit_eq del: upt_Suc)
  moreover have "x AND 1 \<noteq> 0 \<longleftrightarrow> bit x 0"
    by (simp add: and_one_eq bit_0 odd_iff_mod_2_eq_one)
  ultimately show ?case
    by (simp add: Suc.IH del: upt_Suc)
qed

lemma even_count: "k \<le> 8 \<Longrightarrow> (of_nat k :: u8) mod 2 \<noteq> 1 \<longleftrightarrow> even k"
proof -
  assume "k \<le> 8"
  then have "k \<in> {0, 1, 2, 3, 4, 5, 6, 7, 8}" by auto
  then show ?thesis by auto
qed

lemma set_PF_eq [alu_simps]: "set_PF x ef = put_PF (even_parity x) ef"
proof -
  let ?k = "length (filter (bit x) [0..<8])"
  have "?k \<le> 8" using length_filter_le [of "bit x" "[0..<8]"] by simp
  then have "(of_nat ?k :: u8) mod 2 \<noteq> 1 \<longleftrightarrow> even ?k"
    by (rule even_count)
  then show ?thesis
    by (simp add: set_PF_def Let_def PF_count_eq even_parity_def del: upt_rec_numeral)
qed

text \<open>
  Addition with a carry bit, as the bits decide it: the sum overflows as a signed number exactly
  when both operands have one sign and the result the other, and as an unsigned number exactly
  when the sum of the readings reaches \<open>2 ^ sz\<close>.
\<close>

lemma mod_once_up: "0 \<le> k \<Longrightarrow> k < 2 * m \<Longrightarrow> k mod m = (if k < m then k else k - m)" for k m :: int
proof (cases "k < m")
  case False
  assume "0 \<le> k" "k < 2 * m"
  with False have "(k - m) mod m = k - m" by (intro mod_pos_pos_trivial) auto
  with False show ?thesis by simp
qed (simp add: mod_pos_pos_trivial)

lemma mod_once_down: "- m \<le> k \<Longrightarrow> k < m \<Longrightarrow> k mod m = (if 0 \<le> k then k else k + m)" for k m :: int
proof (cases "0 \<le> k")
  case False
  assume "- m \<le> k" "k < m"
  with False have "(k + m) mod m = k + m" by (intro mod_pos_pos_trivial) auto
  with False show ?thesis by simp
qed (simp add: mod_pos_pos_trivial)

lemma uval_add_if:
  "sz \<le> 32 \<Longrightarrow> uval sz (x + y) =
     (if uval sz x + uval sz y < 2 ^ sz then uval sz x + uval sz y else uval sz x + uval sz y - 2 ^ sz)"
  using uval_bounds [of sz x] uval_bounds [of sz y]
  by (simp only: uval_add) (rule mod_once_up; simp)

lemma uval_diff_if:
  "sz \<le> 32 \<Longrightarrow> uval sz (x - y) =
     (if uval sz y \<le> uval sz x then uval sz x - uval sz y else uval sz x - uval sz y + 2 ^ sz)"
  using uval_bounds [of sz x] uval_bounds [of sz y]
  by (simp only: uval_diff) (subst mod_once_down; simp)

lemma sval_uval_if:
  "valid_size sz \<Longrightarrow> sval sz x = (if 2 ^ (sz - 1) \<le> uval sz x then uval sz x - 2 ^ sz else uval sz x)"
  by (simp only: sval_uval bit_sign_uval) simp

lemma overflow_arith:
  fixes h a b r c :: int
  assumes "0 \<le> a" "a < 2 * h" "0 \<le> b" "b < 2 * h" "0 \<le> c" "c \<le> 1"
  shows "r = (if a + b + c < 2 * h then a + b + c else a + b + c - 2 * h) \<Longrightarrow>
      ((h \<le> a) = (h \<le> b) \<and> (h \<le> r) \<noteq> (h \<le> a)) =
      (\<not> (- h \<le> (if h \<le> a then a - 2 * h else a) + (if h \<le> b then b - 2 * h else b) + c \<and>
        (if h \<le> a then a - 2 * h else a) + (if h \<le> b then b - 2 * h else b) + c < h))"
    and "r = (if b + c \<le> a then a - b - c else a - b - c + 2 * h) \<Longrightarrow>
      ((h \<le> a) \<noteq> (h \<le> b) \<and> (h \<le> a) \<noteq> (h \<le> r)) =
      (\<not> (- h \<le> (if h \<le> a then a - 2 * h else a) - (if h \<le> b then b - 2 * h else b) - c \<and>
        (if h \<le> a then a - 2 * h else a) - (if h \<le> b then b - 2 * h else b) - c < h))"
  using assms by (auto split: if_splits)

lemma two_half: "valid_size sz \<Longrightarrow> (2::int) ^ sz = 2 * 2 ^ (sz - 1)"
  by (erule valid_size_cases) simp_all

lemma add_overflow:
  assumes v: "valid_size sz" and c: "c = 0 \<or> c = 1"
    and r: "uval sz r = (if uval sz x + uval sz y + c < 2 ^ sz then uval sz x + uval sz y + c
                      else uval sz x + uval sz y + c - 2 ^ sz)"
  shows "(bit x (sz - 1) = bit y (sz - 1) \<and> bit r (sz - 1) \<noteq> bit x (sz - 1))
     \<longleftrightarrow> \<not> in_srange sz (sval sz x + sval sz y + c)"
  unfolding bit_sign_uval [OF v] in_srange_def sval_uval_if [OF v]
  unfolding two_half [OF v]
  by (rule overflow_arith(1))
    (use c r uval_bounds [of sz x] uval_bounds [of sz y] in \<open>auto simp: two_half [OF v]\<close>)

lemma sub_overflow:
  assumes v: "valid_size sz" and c: "c = 0 \<or> c = 1"
    and r: "uval sz r = (if uval sz y + c \<le> uval sz x then uval sz x - uval sz y - c
                      else uval sz x - uval sz y - c + 2 ^ sz)"
  shows "(bit x (sz - 1) \<noteq> bit y (sz - 1) \<and> bit x (sz - 1) \<noteq> bit r (sz - 1))
     \<longleftrightarrow> \<not> in_srange sz (sval sz x - sval sz y - c)"
  unfolding bit_sign_uval [OF v] in_srange_def sval_uval_if [OF v]
  unfolding two_half [OF v]
  by (rule overflow_arith(2))
    (use c r uval_bounds [of sz x] uval_bounds [of sz y] in \<open>auto simp: two_half [OF v]\<close>)

lemma set_CF_add_eq [alu_simps]:
  "valid_size sz \<Longrightarrow> set_CF_add a b sz ef = put_CF (2 ^ sz \<le> uval sz a + uval sz b) ef"
  using uval_bounds [of sz a] uval_bounds [of sz b]
  by (simp add: set_CF_add_def Let_def alu_simps valid_size_le word_less_def uint_take_bit uval_add_if not_less)

lemma set_CF_sub_eq [alu_simps]:
  "set_CF_sub (take_bit sz a) (take_bit sz b) sz ef = put_CF (uval sz a < uval sz b) ef"
  by (simp add: set_CF_sub_def word_less_def uint_take_bit)

lemma set_OF_add_eq [alu_simps]:
  assumes v: "valid_size sz"
  shows "set_OF_add a b sz ef = put_OF (\<not> in_srange sz (sval sz a + sval sz b)) ef"
  using add_overflow [OF v, where c = 0 and r = "take_bit sz a + take_bit sz b" and x = "take_bit sz a" and y = "take_bit sz b"] v
  by (simp add: set_OF_add_def Let_def alu_simps valid_size_le uval_add_if bit_take_bit_iff)

lemma set_OF_sub_eq [alu_simps]:
  "valid_size sz \<Longrightarrow> set_OF_sub a b (take_bit sz r) sz ef =
     put_OF (bit a (sz - 1) \<noteq> bit b (sz - 1) \<and> bit a (sz - 1) \<noteq> bit r (sz - 1)) ef"
  by (simp only: set_OF_sub_def Let_def alu_simps valid_size_le not_not simp_thms)
    (cases "bit a (sz - 1)"; cases "bit b (sz - 1)"; cases "bit r (sz - 1)"; simp)

section \<open>Addition and subtraction\<close>

text \<open>The flags that depend on the result alone.\<close>

definition result_flags :: "nat \<Rightarrow> u32 \<Rightarrow> u32 \<Rightarrow> bool" where
  "result_flags sz r ef \<longleftrightarrow>
     (ZF ef \<longleftrightarrow> r = 0) \<and> (SF ef \<longleftrightarrow> sval sz r < 0) \<and> (PF ef \<longleftrightarrow> even_parity r)"

lemma sval_neg: "valid_size sz \<Longrightarrow> sval sz r < 0 \<longleftrightarrow> bit r (sz - 1)"
  using uval_bounds [of sz r] by (auto simp: sval_uval)

lemma result_flags_take_bit [alu_simps]:
  "valid_size sz \<Longrightarrow> result_flags sz (take_bit sz r) ef \<longleftrightarrow>
     (ZF ef \<longleftrightarrow> uval sz r = 0) \<and> (SF ef \<longleftrightarrow> bit r (sz - 1)) \<and> (PF ef \<longleftrightarrow> even_parity (take_bit sz r))"
  by (simp add: result_flags_def sval_neg take_bit_0_iff_uval)

lemma bit_top_cong:
  "valid_size sz \<Longrightarrow> take_bit sz x = take_bit sz y \<Longrightarrow> bit x (sz - Suc 0) = bit y (sz - Suc 0)" for x y :: u32
  by (metis One_nat_def bit_take_bit_iff diff_less valid_size_le(2) zero_less_one)

lemma bit_top_take_bit:
  "valid_size sz \<Longrightarrow> bit (take_bit sz x) (sz - Suc 0) = bit x (sz - Suc 0)" for x :: u32
  by (rule bit_top_cong) simp_all

lemma alu_add_eq:
  "valid_size sz \<Longrightarrow> alu_add a b sz ef =
     (take_bit sz (a + b),
      put_PF (even_parity (take_bit sz (a + b)))
       (put_CF (2 ^ sz \<le> uval sz a + uval sz b)
         (put_ZF (uval sz (a + b) = 0)
           (put_SF (bit (a + b) (sz - 1))
             (put_OF (\<not> in_srange sz (sval sz a + sval sz b)) ef)))))"
  by (simp add: alu_add_def Let_def alu_simps valid_size_le)

lemma alu_add_system:
  "valid_size sz \<Longrightarrow> same_system_flags ef (snd (alu_add a b sz ef))"
  by (simp add: alu_add_eq)

lemma alu_sub_eq:
  assumes v: "valid_size sz"
  shows "alu_sub a b sz ef =
     (take_bit sz (b - a),
      put_CF (uval sz b < uval sz a)
       (put_PF (even_parity (take_bit sz (b - a)))
         (put_ZF (uval sz (b - a) = 0)
           (put_SF (bit (b - a) (sz - 1))
             (put_OF (\<not> in_srange sz (sval sz b - sval sz a))
               (snd (alu_add (take_bit sz b) (- take_bit sz a) sz ef)))))))"
proof -
  have t: "take_bit sz (take_bit sz b - take_bit sz a) = take_bit sz (b - a)"
    using v by (simp add: take_bit_eq_iff_uval uval_diff valid_size_le)
  have o: "(bit b (sz - 1) \<noteq> bit a (sz - 1) \<and> bit b (sz - 1) \<noteq> bit (b - a) (sz - 1))
      \<longleftrightarrow> \<not> in_srange sz (sval sz b - sval sz a)"
    using sub_overflow [OF v, where c = 0 and r = "b - a" and x = b and y = a] v
    by (simp add: uval_diff_if valid_size_le)
  have u: "uval sz (take_bit sz b - take_bit sz a) = uval sz (b - a)"
    using t by (simp add: take_bit_eq_iff_uval)
  note b = bit_top_cong [OF v t]
  show ?thesis
    using v t o u b
    by (simp add: alu_sub_def alu_add_eq Let_def alu_simps valid_size_le bit_top_take_bit)
qed

lemma alu_sub_system:
  "valid_size sz \<Longrightarrow> same_system_flags ef (snd (alu_sub a b sz ef))"
  by (simp add: alu_sub_eq alu_add_system)

lemma positive_take [alu_simps]: "valid_size sz \<Longrightarrow> positive (take_bit sz x) sz = (\<not> bit x (sz - Suc 0))"
  using positive_take_bit [of sz x] by simp

lemma alu_adc_eq:
  assumes v: "valid_size sz"
  shows "fst (alu_adc a b sz ef) = take_bit sz (a + b + of_bool (CF ef))"
    and "CF (snd (alu_adc a b sz ef)) \<longleftrightarrow> 2 ^ sz \<le> uval sz a + uval sz b + of_bool (CF ef)"
    and "OF (snd (alu_adc a b sz ef)) \<longleftrightarrow> \<not> in_srange sz (sval sz a + sval sz b + of_bool (CF ef))"
    and "result_flags sz (fst (alu_adc a b sz ef)) (snd (alu_adc a b sz ef))"
    and "same_system_flags ef (snd (alu_adc a b sz ef))"
proof -
  define c where "c = (of_bool (CF ef) :: u32)"
  define ci where "ci = (of_bool (CF ef) :: int)"
  let ?a1 = "take_bit sz (take_bit sz a + c)"
  have c: "uval sz c = ci" using v by (simp add: uval_of_bool valid_size_le c_def ci_def)
  have ci: "0 \<le> ci" "ci \<le> 1" by (simp_all add: ci_def)
  have u1: "uval sz ?a1 = (if uval sz a + ci < 2 ^ sz then uval sz a + ci else uval sz a + ci - 2 ^ sz)"
    using v c by (simp add: uval_add_if valid_size_le)
  have t: "take_bit sz (?a1 + take_bit sz b) = take_bit sz (a + b + c)"
    using v by (simp add: take_bit_eq_iff_uval uval_add valid_size_le mod_simps ac_simps)
  have u: "uval sz (?a1 + take_bit sz b) = uval sz (a + b + c)"
    using t by (simp add: take_bit_eq_iff_uval)
  note bt = bit_top_cong [OF v t]
  have "uval sz (a + b + c) = (uval sz a + uval sz b + ci) mod 2 ^ sz"
    using v by (simp add: uval_add c valid_size_le mod_simps)
  also have "\<dots> = (if uval sz a + uval sz b + ci < 2 ^ sz
      then uval sz a + uval sz b + ci else uval sz a + uval sz b + ci - 2 ^ sz)"
    by (rule mod_once_up) (use uval_bounds [of sz a] uval_bounds [of sz b] ci in linarith)+
  finally have r: "uval sz (a + b + c) = (if uval sz a + uval sz b + ci < 2 ^ sz
      then uval sz a + uval sz b + ci else uval sz a + uval sz b + ci - 2 ^ sz)" .
  have O: "(bit a (sz - 1) = bit b (sz - 1) \<and> bit (a + b + c) (sz - 1) \<noteq> bit a (sz - 1))
      \<longleftrightarrow> \<not> in_srange sz (sval sz a + sval sz b + ci)"
    by (rule add_overflow [OF v _ r]) (simp add: ci_def)
  have E: "alu_adc a b sz ef = (take_bit sz (a + b + c),
      put_OF (bit a (sz - 1) = bit b (sz - 1) \<and> bit (a + b + c) (sz - 1) \<noteq> bit a (sz - 1))
       (put_CF (2 ^ sz \<le> uval sz ?a1 + uval sz b \<or> 2 ^ sz \<le> uval sz a + ci)
        (snd (alu_add ?a1 (take_bit sz b) sz (snd (alu_add (take_bit sz a) c sz ef))))))"
    using v t c bt
    by (simp add: alu_adc_def alu_add_eq Let_def alu_simps valid_size_le flip: c_def)
      (cases "bit a (sz - 1)"; cases "bit b (sz - 1)"; simp)
  show "fst (alu_adc a b sz ef) = take_bit sz (a + b + of_bool (CF ef))"
    by (simp add: E flip: c_def)
  show "CF (snd (alu_adc a b sz ef)) \<longleftrightarrow> 2 ^ sz \<le> uval sz a + uval sz b + of_bool (CF ef)"
    using uval_bounds [of sz a] uval_bounds [of sz b] ci u1
    by (simp add: E flip: ci_def) auto
  show "OF (snd (alu_adc a b sz ef)) \<longleftrightarrow> \<not> in_srange sz (sval sz a + sval sz b + of_bool (CF ef))"
    using v O by (simp add: E alu_simps flip: ci_def)
  show "result_flags sz (fst (alu_adc a b sz ef)) (snd (alu_adc a b sz ef))"
    using v t u bt by (simp add: E alu_simps alu_add_eq)
  show "same_system_flags ef (snd (alu_adc a b sz ef))"
    using v by (simp add: E alu_add_eq)
qed

lemma alu_sbb_eq:
  assumes v: "valid_size sz"
  shows "fst (alu_sbb a b sz ef) = take_bit sz (b - a - of_bool (CF ef))"
    and "CF (snd (alu_sbb a b sz ef)) \<longleftrightarrow> uval sz b < uval sz a + of_bool (CF ef)"
    and "OF (snd (alu_sbb a b sz ef)) \<longleftrightarrow> \<not> in_srange sz (sval sz b - sval sz a - of_bool (CF ef))"
    and "result_flags sz (fst (alu_sbb a b sz ef)) (snd (alu_sbb a b sz ef))"
    and "same_system_flags ef (snd (alu_sbb a b sz ef))"
proof -
  define c where "c = (of_bool (CF ef) :: u32)"
  define ci where "ci = (of_bool (CF ef) :: int)"
  let ?a1 = "take_bit sz (take_bit sz b - take_bit sz a)"
  have c: "uval sz c = ci" using v by (simp add: uval_of_bool valid_size_le c_def ci_def)
  have ci: "0 \<le> ci" "ci \<le> 1" by (simp_all add: ci_def)
  have u1: "uval sz ?a1 = (if uval sz a \<le> uval sz b then uval sz b - uval sz a
                           else uval sz b - uval sz a + 2 ^ sz)"
    using v by (simp add: uval_diff_if valid_size_le)
  have t: "take_bit sz (?a1 - c) = take_bit sz (b - a - c)"
    using v by (simp add: take_bit_eq_iff_uval uval_diff valid_size_le mod_simps)
  have u: "uval sz (?a1 - c) = uval sz (b - a - c)"
    using t by (simp add: take_bit_eq_iff_uval)
  note bt = bit_top_cong [OF v t]
  have "uval sz (b - a - c) = (uval sz b - uval sz a - ci) mod 2 ^ sz"
    using v by (simp add: uval_diff c valid_size_le mod_simps)
  also have "\<dots> = (if 0 \<le> uval sz b - uval sz a - ci
      then uval sz b - uval sz a - ci else uval sz b - uval sz a - ci + 2 ^ sz)"
    by (rule mod_once_down) (use uval_bounds [of sz a] uval_bounds [of sz b] ci in linarith)+
  finally have r: "uval sz (b - a - c) = (if uval sz a + ci \<le> uval sz b
      then uval sz b - uval sz a - ci else uval sz b - uval sz a - ci + 2 ^ sz)"
    by (simp split: if_splits)
  have O: "(bit b (sz - 1) \<noteq> bit a (sz - 1) \<and> bit b (sz - 1) \<noteq> bit (b - a - c) (sz - 1))
      \<longleftrightarrow> \<not> in_srange sz (sval sz b - sval sz a - ci)"
    by (rule sub_overflow [OF v _ r]) (simp add: ci_def)
  have E: "\<exists>ef2. same_system_flags ef ef2 \<and> alu_sbb a b sz ef = (take_bit sz (b - a - c),
      put_CF (uval sz ?a1 < ci \<or> uval sz b < uval sz a)
       (put_PF (even_parity (take_bit sz (b - a - c)))
        (put_ZF (uval sz (b - a - c) = 0)
         (put_SF (bit (b - a - c) (sz - 1))
          (put_OF (bit b (sz - 1) \<noteq> bit a (sz - 1) \<and> bit b (sz - 1) \<noteq> bit (b - a - c) (sz - 1)) ef2)))))"
    (is "\<exists>ef2. _ \<and> _ = ?R ef2")
  proof (intro exI conjI)
    let ?ef2 = "snd (alu_sub c ?a1 sz (snd (alu_sub (take_bit sz a) (take_bit sz b) sz ef)))"
    show "alu_sbb a b sz ef = ?R ?ef2"
      using v t u c bt
      by (simp add: alu_sbb_def alu_sub_eq Let_def alu_simps valid_size_le bit_top_take_bit flip: c_def)
    show "same_system_flags ef ?ef2"
      using v by (simp add: alu_sub_eq alu_add_eq)
  qed
  then obtain ef2 where E: "same_system_flags ef ef2" "alu_sbb a b sz ef = ?R ef2" by blast
  show "fst (alu_sbb a b sz ef) = take_bit sz (b - a - of_bool (CF ef))"
    by (simp add: E flip: c_def)
  show "CF (snd (alu_sbb a b sz ef)) \<longleftrightarrow> uval sz b < uval sz a + of_bool (CF ef)"
    using uval_bounds [of sz a] uval_bounds [of sz b] ci u1
    by (simp add: E flip: ci_def) auto
  show "OF (snd (alu_sbb a b sz ef)) \<longleftrightarrow> \<not> in_srange sz (sval sz b - sval sz a - of_bool (CF ef))"
    using v O by (simp add: E flip: ci_def)
  show "result_flags sz (fst (alu_sbb a b sz ef)) (snd (alu_sbb a b sz ef))"
    using v u bt by (simp add: E alu_simps)
  show "same_system_flags ef (snd (alu_sbb a b sz ef))"
    using v by (simp add: E)
qed

section \<open>Logic and shifts\<close>

lemma alu_logic_eq:
  assumes v: "valid_size sz"
  shows "alu_and a b sz ef = (take_bit sz (a AND b),
      put_ZF (uval sz (a AND b) = 0) (put_SF (bit (a AND b) (sz - 1))
        (put_PF (even_parity (take_bit sz (a AND b))) (put_OF False (put_CF False ef)))))"
    and "alu_or a b sz ef = (take_bit sz (a OR b),
      put_PF (even_parity (take_bit sz (a OR b))) (put_ZF (uval sz (a OR b) = 0)
        (put_SF (bit (a OR b) (sz - 1)) (put_CF False (put_OF False ef)))))"
    and "alu_xor a b sz ef = (take_bit sz (a XOR b),
      put_PF (even_parity (take_bit sz (a XOR b))) (put_ZF (uval sz (a XOR b) = 0)
        (put_SF (bit (a XOR b) (sz - 1)) (put_OF False (put_CF False ef)))))"
  using v
  by (simp_all add: alu_and_def alu_or_def alu_xor_def Let_def alu_simps valid_size_le
      flip: take_bit_and take_bit_or take_bit_xor)

text \<open>\<open>n\<close> single-bit shifts are one shift by \<open>n\<close>; CF is the last bit shifted out.\<close>

lemma and_1_bit: "drop_bit n x AND 1 \<noteq> 0 \<longleftrightarrow> bit x n" for x :: u32
  by (simp add: and_one_eq bit_iff_odd_drop_bit odd_iff_mod_2_eq_one)

lemma and_1_bit0: "x AND 1 \<noteq> 0 \<longleftrightarrow> bit x 0" for x :: u32
  using and_1_bit [of 0 x] by simp

lemma put_CF_put_CF [simp]: "put_CF b (put_CF c ef) = put_CF b ef"
  by (rule bit_word_eqI) (simp add: flag_put_defs)

lemma bit_mul2: "bit (d * 2) k \<longleftrightarrow> 0 < k \<and> k < 32 \<and> bit d (k - 1)" for d :: u32
  by (auto simp add: mult.commute [of d] bit_double_iff)

lemma bit_div2: "bit (d div 2) k \<longleftrightarrow> bit d (Suc k)" for d :: u32
  by (simp add: bit_Suc)

lemma take_bit_mul2: "take_bit sz (take_bit sz d * 2) = take_bit sz (d * 2)" for d :: u32
  by (rule bit_word_eqI) (auto simp: bit_simps bit_mul2)

lemma push_bit_mul2: "push_bit n (d * 2) = push_bit (Suc n) d" for d :: u32
  by (rule bit_word_eqI) (auto simp: bit_simps bit_mul2)

lemma shl_loop_eq:
  "valid_size sz \<Longrightarrow> shl_loop n (take_bit sz d) sz ef =
     (take_bit sz (push_bit n d),
      if n = 0 then ef else put_CF (n \<le> sz \<and> bit d (sz - n)) ef)"
proof (induction n arbitrary: d ef)
  case 0
  then show ?case by simp
next
  case (Suc n)
  have sz: "0 < sz" "sz \<le> 32" using Suc.prems by (simp_all add: valid_size_le)
  have "shl_loop (Suc n) (take_bit sz d) sz ef =
      shl_loop n (take_bit sz (d * 2)) sz (put_CF (bit d (sz - 1)) ef)"
    using sz by (simp add: Let_def and_1_bit cut_u32_take_bit take_bit_mul2 bit_take_bit_iff)
  also have "\<dots> = (take_bit sz (push_bit n (d * 2)),
      put_CF (if n = 0 then bit d (sz - 1) else n \<le> sz \<and> bit (d * 2) (sz - n)) ef)"
    using Suc.prems by (simp add: Suc.IH)
  also have "(if n = 0 then bit d (sz - 1) else n \<le> sz \<and> bit (d * 2) (sz - n))
      \<longleftrightarrow> Suc n \<le> sz \<and> bit d (sz - Suc n)"
    using sz by (auto simp: bit_mul2)
  finally show ?case by (simp only: push_bit_mul2 nat.distinct if_False)
qed

lemma cut_div2: "sz \<le> 32 \<Longrightarrow> cut_u32 (take_bit sz d div 2) sz = take_bit sz (take_bit sz d div 2)"
  by (simp add: cut_u32_take_bit)

lemma take_bit_div2: "take_bit sz (take_bit sz d div 2) = take_bit sz d div 2" for d :: u32
  by (rule bit_word_eqI) (auto simp: bit_simps bit_div2)

lemma drop_bit_div2: "drop_bit n (d div 2) = drop_bit (Suc n) d" for d :: u32
  by (rule bit_word_eqI) (auto simp: bit_simps bit_div2)

lemma shr_loop_eq:
  "sz \<le> 32 \<Longrightarrow> take_bit sz d = d \<Longrightarrow> shr_loop n d sz ef =
     (drop_bit n d, if n = 0 then ef else put_CF (bit d (n - 1)) ef)"
proof (induction n arbitrary: d ef)
  case 0
  then show ?case by simp
next
  case (Suc n)
  have t: "take_bit sz (d div 2) = d div 2"
    using take_bit_div2 [of sz d] Suc.prems by simp
  have "shr_loop (Suc n) d sz ef = shr_loop n (d div 2) sz (put_CF (bit d 0) ef)"
    using Suc.prems t by (simp add: Let_def and_1_bit0 cut_u32_take_bit)
  also have "\<dots> = (drop_bit n (d div 2),
      if n = 0 then put_CF (bit d 0) ef else put_CF (bit (d div 2) (n - 1)) ef)"
    using Suc.IH [OF Suc.prems(1) t] by simp
  also have "\<dots> = (drop_bit (Suc n) d, put_CF (bit d n) ef)"
    by (simp add: drop_bit_div2 bit_div2)
  finally show ?case by simp
qed

lemma sar_loop_eq:
  "sar_loop n d ef = (signed_drop_bit n d, if n = 0 then ef else put_CF (bit d (min 31 (n - 1))) ef)"
proof (induction n arbitrary: d ef)
  case 0
  then show ?case by simp
next
  case (Suc n)
  have e: "signed_drop_bit n (signed_drop_bit 1 d) = signed_drop_bit (Suc n) d"
    by (rule bit_word_eqI) (auto simp: bit_simps)
  have b: "bit (signed_drop_bit 1 d) (min 31 (n - 1)) = bit d (min 31 n)" if "n \<noteq> 0"
  proof (cases "n \<le> 31")
    case True
    then show ?thesis using that by (cases "n = 31") (auto simp: bit_simps min_def)
  next
    case False
    then show ?thesis by (auto simp: bit_simps min_def)
  qed
  have "sar_loop (Suc n) d ef = sar_loop n (signed_drop_bit 1 d) (put_CF (bit d 0) ef)"
    by (simp add: Let_def and_1_bit0)
  also have "\<dots> = (signed_drop_bit (Suc n) d, put_CF (bit d (min 31 n)) ef)"
    unfolding Suc.IH e by (cases "n = 0") (use b in \<open>simp_all del: One_nat_def\<close>)
  finally show ?case by simp
qed


definition shift_count :: "nat \<Rightarrow> u32 \<Rightarrow> nat" where "shift_count sz src = unat (take_bit sz src)"

lemma shift_count_uval: "int (shift_count sz src) = uval sz src"
  by (simp add: shift_count_def uint_take_bit flip: uint_nat)

lemma alu_shl_eq:
  assumes v: "valid_size sz"
  shows "\<exists>ef1. alu_shl src d sz ef =
     (take_bit sz (push_bit (shift_count sz src) d), ef1)
     \<and> (CF ef1 \<longleftrightarrow> (if shift_count sz src = 0 then CF ef
          else shift_count sz src \<le> sz \<and> bit d (sz - shift_count sz src)))
     \<and> result_flags sz (take_bit sz (push_bit (shift_count sz src) d)) ef1
     \<and> same_system_flags ef ef1"
  using v
  by (simp add: alu_shl_def Let_def alu_simps valid_size_le shl_loop_eq shift_count_def)

lemma alu_shr_eq:
  assumes v: "valid_size sz"
  shows "\<exists>ef1. alu_shr src d sz ef = (drop_bit (shift_count sz src) (take_bit sz d), ef1)
     \<and> (CF ef1 \<longleftrightarrow> (if shift_count sz src = 0 then CF ef
          else bit (take_bit sz d) (shift_count sz src - 1)))
     \<and> result_flags sz (drop_bit (shift_count sz src) (take_bit sz d)) ef1
     \<and> same_system_flags ef ef1"
proof -
  let ?r = "drop_bit (shift_count sz src) (take_bit sz d)"
  have r: "take_bit sz ?r = ?r" by (rule bit_word_eqI) (auto simp: bit_simps)
  have f: "set_ZF ?r sz ef = put_ZF (?r = 0) ef" "set_SF ?r sz ef = put_SF (bit ?r (sz - 1)) ef" for ef
    using set_ZF_eq [OF v, of ?r] set_SF_eq [OF v, of ?r] r by (simp_all add: take_bit_0_iff_uval [symmetric])
  have "shift_count sz src = 1" if "take_bit sz src = 1"
    using that by (simp add: shift_count_def)
  then show ?thesis
    using v f
    by (simp add: alu_shr_def Let_def cut_u32_take_bit set_PF_eq valid_size_le shr_loop_eq
        result_flags_def sval_neg flip: shift_count_def)
qed

lemma and_ff: "x AND 0xff = take_bit 8 x" "x AND 0xffff = take_bit 16 x" for x :: u32
  by (simp_all add: take_bit_eq_mask mask_eq_exp_minus_1)

lemma scast_sval:
  "scast (ucast x :: u8) = (word_of_int (sval 8 x) :: 'a::len word)"
  "scast (ucast x :: u16) = (word_of_int (sval 16 x) :: 'a::len word)"
  "scast x = (word_of_int (sval 32 x) :: 'a::len word)" for x :: u32
  by (simp_all add: sval_def unsigned_ucast_eq sint_uint scast_eq signed_take_bit_take_bit)

lemma word_of_sval_32 [simp]: "word_of_int (sval 32 x) = x"
  using scast_sval(3) [of x, where 'a = 32] by simp

lemma sint_of_sval: "valid_size sz \<Longrightarrow> sint (word_of_int (sval sz x) :: u32) = sval sz x"
  using sval_range [of sz x]
  by (auto simp: in_srange_def valid_size_def sint_sbintrunc' intro!: signed_take_bit_int_eq_self)

lemma signed_drop_bit_int: "signed_drop_bit n w = word_of_int (sint w div 2 ^ n)" for w :: u32
proof -
  have "sint (signed_drop_bit n w) = sint w div 2 ^ n"
    by (simp add: sint_signed_drop_bit_eq drop_bit_eq_div)
  from arg_cong [OF this, of "word_of_int :: int \<Rightarrow> u32"] show ?thesis by simp
qed

lemma ucast_take:
  "ucast (take_bit 8 x) = (ucast x :: u8)" "ucast (take_bit 16 x) = (ucast x :: u16)" for x :: u32
  by (rule bit_word_eqI, simp add: bit_simps)+

lemma sign_ext_eq: "valid_size sz \<Longrightarrow> sign_ext (take_bit sz x) sz = Some (word_of_int (sval sz x))"
  by (erule valid_size_cases)
    (simp_all add: sign_ext_def and_ff scast_sval ucast_take take_bit_word_eq_self)

lemma alu_sar_eq:
  assumes v: "valid_size sz"
  shows "\<exists>ef1. alu_sar src d sz ef =
       Some (take_bit sz (word_of_int (sval sz d div 2 ^ shift_count sz src)), ef1)
     \<and> (CF ef1 \<longleftrightarrow> (if shift_count sz src = 0 then CF ef
          else bit d (min (sz - 1) (shift_count sz src - 1))))
     \<and> result_flags sz (take_bit sz (word_of_int (sval sz d div 2 ^ shift_count sz src))) ef1
     \<and> same_system_flags ef ef1"
proof -
  let ?w = "word_of_int (sval sz d) :: u32" and ?n = "shift_count sz src"
  note s = sint_of_sval [OF v, of d]
  have r: "signed_drop_bit ?n ?w = word_of_int (sval sz d div 2 ^ ?n)"
    using signed_drop_bit_int [of ?n ?w] s by simp
  have b: "bit ?w (min 31 k) = bit d (min (sz - 1) k)" for k
    using v by (auto simp: sval_def bit_simps valid_size_def min_def bit_uint_iff)
  have "?n = 1" if "take_bit sz src = 1"
    using that by (simp add: shift_count_def)
  then show ?thesis
    using v r b b [of 0]
    by (simp add: alu_sar_def Let_def alu_simps valid_size_le sign_ext_eq sar_loop_eq
       flip: shift_count_def)
qed

section \<open>Multiplication and division\<close>

text \<open>
  The two widening multiplications, on the product as an integer: the high half decides CF and OF.
\<close>

lemma uval_prod_less: "uval sz a * uval sz b < 2 ^ (2 * sz)"
proof -
  have "uval sz a * uval sz b < 2 ^ sz * 2 ^ sz"
    using uval_bounds [of sz a] uval_bounds [of sz b] by (intro mult_strict_mono) auto
  then show ?thesis by (simp add: power_add mult_2)
qed

lemma int_div_less: "0 < m \<Longrightarrow> k < n * m \<Longrightarrow> k div m < n" for k m n :: int
  by (smt (verit) div_mult_mod_eq mult_right_mono pos_mod_sign)

lemma high_half_0:
  fixes x :: u64
  assumes "0 \<le> k" "k < 2 ^ (2 * sz)" "uint x = k" "sz \<le> 32"
  shows "take_bit sz (drop_bit sz x) = 0 \<longleftrightarrow> k < 2 ^ sz"
proof -
  have "take_bit 64 (uint x) = uint x" by (rule take_bit_int_eq_self) (use uint_lt2p [of x] in auto)
  then have "uint (take_bit sz (drop_bit sz x)) = take_bit sz (drop_bit sz k)"
    by (simp add: unsigned_take_bit_eq unsigned_drop_bit_eq assms(3))
  also have "\<dots> = k div 2 ^ sz"
    using assms int_div_less [of "2 ^ sz" k "2 ^ sz"]
    by (simp add: take_bit_int_eq_self_iff drop_bit_eq_div pos_imp_zdiv_nonneg_iff flip: power_add mult_2)
  finally have "take_bit sz (drop_bit sz x) = 0 \<longleftrightarrow> k div 2 ^ sz = 0"
    by (metis uint_0_iff)
  then show ?thesis using assms(1) by (auto simp: zdiv_eq_0_iff)
qed

lemma take_bit_uval [simp]: "sz \<le> n \<Longrightarrow> take_bit n (uval sz x) = uval sz x"
  by (simp add: uval_def min_absorb2)

lemma uval_prod_mod:
  "2 * sz \<le> n \<Longrightarrow> uval sz a * uval sz b mod 2 ^ n = uval sz a * uval sz b"
proof (rule mod_pos_pos_trivial)
  assume "2 * sz \<le> n"
  then have "(2::int) ^ (2 * sz) \<le> 2 ^ n" by (intro power_increasing) auto
  with uval_prod_less [of sz a b] show "uval sz a * uval sz b < 2 ^ n" by (rule order_less_le_trans)
qed (simp add: uval_bounds)

lemma alu_mul_result:
  assumes v: "valid_size sz"
  shows "uint (if sz \<noteq> 32 then cut (ucast (take_bit sz a * take_bit sz b)) (sz * 2)
     else ucast (take_bit sz a) * ucast (take_bit sz b) :: u64) = uval sz a * uval sz b"
  using v
proof (rule valid_size_cases)
  assume "sz = 32"
  moreover have "uint (ucast (take_bit 32 x) :: u64) = uval 32 x" for x :: u32
    by (simp only: unsigned_ucast_eq uint_take_bit) simp
  ultimately show ?thesis
    using uval_prod_mod [of 32 64 a b] by (simp add: uint_word_ariths del: take_bit_word_eq_self)
next
  have e: "uint (take_bit n (ucast w :: u64)) = uint w mod 2 ^ n" if "n \<le> 32" for n and w :: u32
    using that by (simp only: unsigned_take_bit_eq unsigned_ucast_eq)
      (simp add: min_absorb1 flip: take_bit_eq_mod)
  {
    assume "sz = 8"
    then show ?thesis using uval_prod_mod [of 8 32 a b] uval_prod_mod [of 8 16 a b]
      by (simp add: cut_take_bit e uint_word_ariths uint_take_bit)
  next
    assume "sz = 16"
    then show ?thesis using uval_prod_mod [of 16 32 a b]
      by (simp add: cut_take_bit e uint_word_ariths uint_take_bit)
  }
qed

lemma alu_mul_eq:
  assumes v: "valid_size sz"
  shows "\<exists>p ef1. alu_mul a b sz ef = Some (p, ef1) \<and> uint p = uval sz a * uval sz b
     \<and> (CF ef1 \<longleftrightarrow> 2 ^ sz \<le> uval sz a * uval sz b) \<and> OF ef1 = CF ef1
     \<and> same_system_flags ef ef1"
proof -
  let ?p = "if sz \<noteq> 32 then cut (ucast (take_bit sz a * take_bit sz b)) (sz * 2)
     else ucast (take_bit sz a) * ucast (take_bit sz b) :: u64"
  note p = alu_mul_result [OF v, of a b]
  have h: "take_bit sz (drop_bit sz ?p) = 0 \<longleftrightarrow> uval sz a * uval sz b < 2 ^ sz"
    by (rule high_half_0 [OF _ uval_prod_less p]) (use v in \<open>auto simp: uval_bounds valid_size_def\<close>)
  have z: "(ucast (take_bit 8 x) :: u8) = 0 \<longleftrightarrow> take_bit 8 x = 0"
      "(ucast (take_bit 16 x) :: u16) = 0 \<longleftrightarrow> take_bit 16 x = 0"
      "(ucast (take_bit 32 x) :: u32) = 0 \<longleftrightarrow> take_bit 32 x = 0" for x :: u64
    by (auto simp: word_uint_eq_iff unsigned_ucast_eq unsigned_take_bit_eq)
  have "alu_mul a b sz ef = Some (?p, if uval sz a * uval sz b < 2 ^ sz
      then put_OF False (put_CF False ef) else put_OF True (put_CF True ef))"
    unfolding h [symmetric] using v
    by (rule valid_size_cases)
      (simp_all add: alu_mul_def Let_def cut_u32_take_bit cut_take_bit MUL_SET_FLAGS_def z
        take_bit_word_eq_self)
  with p show ?thesis by auto
qed

text \<open>Signed multiplication: the product fits the 64-bit result at every operand size.\<close>

lemma sval_prod_range: "valid_size sz \<Longrightarrow> \<bar>sval sz a * sval sz b\<bar> \<le> 2 ^ (2 * (sz - 1))"
proof -
  assume v: "valid_size sz"
  have "\<bar>sval sz a\<bar> \<le> 2 ^ (sz - 1)" "\<bar>sval sz b\<bar> \<le> 2 ^ (sz - 1)"
    using sval_range [OF v, of a] sval_range [OF v, of b] by (auto simp: in_srange_def)
  then have "\<bar>sval sz a * sval sz b\<bar> \<le> 2 ^ (sz - 1) * 2 ^ (sz - 1)"
    by (simp add: abs_mult mult_mono)
  then show ?thesis by (simp add: power_add mult_2)
qed

lemma signed_take_bit_eq_self_iff: "signed_take_bit n k = k \<longleftrightarrow> - (2 ^ n) \<le> k \<and> k < 2 ^ n" for k :: int
  by (metis signed_take_bit_int_eq_self signed_take_bit_int_greater_eq_minus_exp signed_take_bit_int_less_exp)

lemma word_of_int_srange:
  assumes "- (2 ^ (LENGTH('a) - 1)) \<le> k" "k < 2 ^ (LENGTH('a) - 1)" "n < LENGTH('a)"
  shows "(word_of_int k :: 'a::len word) = word_of_int (signed_take_bit n k) \<longleftrightarrow> - (2 ^ n) \<le> k \<and> k < 2 ^ n"
proof -
  have "(word_of_int k :: 'a word) = word_of_int (signed_take_bit n k) \<longleftrightarrow>
      sint (word_of_int k :: 'a word) = sint (word_of_int (signed_take_bit n k) :: 'a word)"
    by (auto intro: signed_word_eqI)
  also have "\<dots> \<longleftrightarrow> k = signed_take_bit n k"
    using assms by (simp add: sint_sbintrunc' signed_take_bit_int_eq_self signed_take_bit_signed_take_bit)
  finally show ?thesis using signed_take_bit_eq_self_iff [of n k] by auto
qed

lemma scast_word_of_int:
  "scast (word_of_int k :: 'a::len word) = (word_of_int (signed_take_bit (LENGTH('a) - 1) k) :: 'b::len word)"
  by (simp add: scast_eq sint_sbintrunc')

lemma ucast_cut_word_of_int:
  "ucast (cut (word_of_int k) 8) = (word_of_int k :: u8)"
  "ucast (cut (word_of_int k) 16) = (word_of_int k :: u16)"
  "ucast (cut (word_of_int k) 32) = (word_of_int k :: u32)"
  by (rule bit_word_eqI, simp add: cut_take_bit bit_simps)+

lemma alu_imul_eq:
  assumes v: "valid_size sz"
  shows "\<exists>p ef1. alu_imul a b sz ef = Some (p, ef1) \<and> sint p = sval sz a * sval sz b
     \<and> (CF ef1 \<longleftrightarrow> \<not> in_srange sz (sval sz a * sval sz b)) \<and> OF ef1 = CF ef1
     \<and> same_system_flags ef ef1"
proof -
  define k where "k = sval sz a * sval sz b"
  define p where "p = (word_of_int k :: u64)"
  have b: "\<bar>k\<bar> \<le> 2 ^ (2 * (sz - 1))" using sval_prod_range [OF v] by (simp add: k_def)
  have "scast (word_of_int (sval sz x) :: u32) = (word_of_int (sval sz x) :: u64)" for x
    by (simp add: scast_eq sint_of_sval [OF v])
  then have pe: "scast (word_of_int (sval sz a) :: u32) * scast (word_of_int (sval sz b) :: u32) = p"
    by (simp add: p_def k_def)
  have ps: "sint p = k"
    using v b by (auto simp: p_def sint_sbintrunc' valid_size_def abs_le_iff intro!: signed_take_bit_int_eq_self)
  have c8: "(ucast (cut p 16) :: u16) = scast (ucast (cut p 8) :: u8) \<longleftrightarrow> in_srange 8 k" if "sz = 8"
    unfolding p_def ucast_cut_word_of_int scast_word_of_int in_srange_def
    using word_of_int_srange [of k 7, where 'a = 16] b that
    by (simp add: abs_le_iff)
  have c16: "(ucast (cut p 32) :: u32) = scast (ucast (cut p 16) :: u16) \<longleftrightarrow> in_srange 16 k" if "sz = 16"
    unfolding p_def ucast_cut_word_of_int scast_word_of_int in_srange_def
    using word_of_int_srange [of k 15, where 'a = 32] b that
    by (simp add: abs_le_iff)
  have c32: "p = scast (ucast (cut p 32) :: u32) \<longleftrightarrow> in_srange 32 k" if "sz = 32"
    unfolding p_def ucast_cut_word_of_int scast_word_of_int in_srange_def
    using word_of_int_srange [of k 31, where 'a = 64] b that
    by (simp add: abs_le_iff)
  have "alu_imul a b sz ef = Some (p, if in_srange sz k then clear_CFOF ef else set_CFOF ef)"
    using v
    by (rule valid_size_cases)
      (use c8 c16 c32 pe in \<open>simp_all add: alu_imul_def Let_def cut_i32_take_bit sign_ext_eq
        del: scast_eq\<close>)
  with ps show ?thesis by (auto simp: clear_CFOF_def set_CFOF_def k_def)
qed

lemma alu_div_eq:
  assumes v: "valid_size sz"
  shows "alu_div src dest sz =
     (if take_bit sz src = 0 then None
      else Some (ucast (take_bit sz dest div take_bit sz src)))"
    and "alu_mod sz src dest =
     (if take_bit sz src = 0 then None
      else Some (ucast (take_bit sz dest mod take_bit sz src)))"
proof -
  have le: "take_bit sz (ucast q :: u32) = ucast q" if "unat q \<le> unat (take_bit sz dest)" for q :: u64
  proof -
    have "unat q < 2 ^ sz"
      using that by (simp add: unsigned_take_bit_eq) (meson order_le_less_trans take_bit_nat_less_exp)
    then have "take_bit sz q = q"
      by (simp add: word_unat_eq_iff unsigned_take_bit_eq take_bit_nat_eq_self)
    then have "(ucast q :: u32) = ucast (take_bit sz q)" by simp
    also have "\<dots> = take_bit sz (ucast q)" by (rule bit_word_eqI) (auto simp: bit_simps)
    finally show ?thesis by simp
  qed
  have c: "sz \<le> 64" "sz \<le> 32" using v by (auto simp: valid_size_def)
  show "alu_div src dest sz = (if take_bit sz src = 0 then None
      else Some (ucast (take_bit sz dest div take_bit sz src)))"
    using c by (simp add: alu_div_def Let_def cut_take_bit cut_u32_take_bit le unat_div)
  show "alu_mod sz src dest = (if take_bit sz src = 0 then None
      else Some (ucast (take_bit sz dest mod take_bit sz src)))"
    using c by (simp add: alu_mod_def Let_def cut_take_bit cut_u32_take_bit le unat_mod)
qed

section \<open>The ALU's properties\<close>

text \<open>C1: \<open>alu_add\<close> returns the sum modulo \<open>2 ^ size\<close>; CF reports unsigned overflow, OF signed
  overflow, ZF, SF and PF describe the result, and no other bit of EFLAGS changes.\<close>

theorem alu_add_correct:
  "valid_size sz \<Longrightarrow> case alu_add src dest sz ef of (r, ef') \<Rightarrow>
     uint r = (uval sz dest + uval sz src) mod 2 ^ sz \<and>
     (CF ef' \<longleftrightarrow> 2 ^ sz \<le> uval sz dest + uval sz src) \<and>
     (OF ef' \<longleftrightarrow> \<not> in_srange sz (sval sz dest + sval sz src)) \<and>
     result_flags sz r ef' \<and> same_system_flags ef ef'"
  by (simp add: alu_add_eq result_flags_take_bit uint_take_bit uval_add valid_size_le add.commute)

theorem alu_add_correct_witness:
  "uint (fst (alu_add 0xff 2 8 0)) = 1 \<and> CF (snd (alu_add 0xff 2 8 0))"
  using alu_add_correct [where sz = 8 and src = "0xff" and dest = 2 and ef = 0]
  by (simp add: uval_def split_beta)

text \<open>C2: \<open>alu_sub\<close> returns \<open>dest - src\<close> modulo \<open>2 ^ size\<close>; CF is the unsigned borrow, OF the signed
  overflow; with the conditions of the \<open>jcc\<close> instructions these flags decide the comparisons.\<close>

theorem alu_sub_correct:
  "valid_size sz \<Longrightarrow> case alu_sub src dest sz ef of (r, ef') \<Rightarrow>
     uint r = (uval sz dest - uval sz src) mod 2 ^ sz \<and>
     (CF ef' \<longleftrightarrow> uval sz dest < uval sz src) \<and>
     (OF ef' \<longleftrightarrow> \<not> in_srange sz (sval sz dest - sval sz src)) \<and>
     result_flags sz r ef' \<and> same_system_flags ef ef'"
  by (simp add: alu_sub_eq result_flags_take_bit uint_take_bit uval_diff valid_size_le alu_add_system)

theorem alu_sub_correct_witness:
  "uint (fst (alu_sub 1 0x80 8 0)) = 0x7f \<and> OF (snd (alu_sub 1 0x80 8 0))"
  using alu_sub_correct [where sz = 8 and src = 1 and dest = "0x80" and ef = 0]
  by (simp add: uval_def sval_def in_srange_def split_beta)

text \<open>\<open>alu_adc\<close> and \<open>alu_sbb\<close>, which the source builds from two calls of \<open>alu_add\<close> and
  \<open>alu_sub\<close>, compute the three-term sum and difference with the carry coming in, and CF and OF are those
  of the whole computation, not of its second half.\<close>

theorem alu_adc_sbb_correct:
  "valid_size sz \<Longrightarrow>
     (case alu_adc src dest sz ef of (r, ef') \<Rightarrow>
       uint r = (uval sz dest + uval sz src + of_bool (CF ef)) mod 2 ^ sz \<and>
       (CF ef' \<longleftrightarrow> 2 ^ sz \<le> uval sz dest + uval sz src + of_bool (CF ef)) \<and>
       (OF ef' \<longleftrightarrow> \<not> in_srange sz (sval sz dest + sval sz src + of_bool (CF ef))) \<and>
       result_flags sz r ef' \<and> same_system_flags ef ef') \<and>
     (case alu_sbb src dest sz ef of (r, ef') \<Rightarrow>
       uint r = (uval sz dest - uval sz src - of_bool (CF ef)) mod 2 ^ sz \<and>
       (CF ef' \<longleftrightarrow> uval sz dest < uval sz src + of_bool (CF ef)) \<and>
       (OF ef' \<longleftrightarrow> \<not> in_srange sz (sval sz dest - sval sz src - of_bool (CF ef))) \<and>
       result_flags sz r ef' \<and> same_system_flags ef ef')"
proof -
  assume v: "valid_size sz"
  have "uint (take_bit sz (src + dest + of_bool (CF ef))) =
      (uval sz dest + uval sz src + of_bool (CF ef)) mod 2 ^ sz"
    using v by (simp add: uint_take_bit uval_add uval_of_bool valid_size_le mod_simps add.commute del: of_bool_eq_iff)
  moreover have "uint (take_bit sz (dest - src - of_bool (CF ef))) =
      (uval sz dest - uval sz src - of_bool (CF ef)) mod 2 ^ sz"
    using v by (simp add: uint_take_bit uval_diff uval_of_bool valid_size_le mod_simps)
  ultimately show ?thesis
    using alu_adc_eq [OF v, where a = src and b = dest and ef = ef]
      alu_sbb_eq [OF v, where a = src and b = dest and ef = ef]
    by (simp add: split_beta add.commute)
qed

theorem alu_adc_sbb_correct_witness:
  "uint (fst (alu_adc 0xff 0 8 1)) = 0 \<and> CF (snd (alu_adc 0xff 0 8 1))"
  using alu_adc_sbb_correct [where sz = 8 and src = "0xff" and dest = 0 and ef = 1]
  by (simp add: uval_def CF_def split_beta)

text \<open>the logical operations are bitwise on \<open>size\<close> bits and clear CF and OF.\<close>

theorem alu_logic_correct:
  "valid_size sz \<Longrightarrow>
     (case alu_and src dest sz ef of (r, ef') \<Rightarrow> r = take_bit sz (dest AND src) \<and>
       \<not> CF ef' \<and> \<not> OF ef' \<and> result_flags sz r ef' \<and> same_system_flags ef ef') \<and>
     (case alu_or src dest sz ef of (r, ef') \<Rightarrow> r = take_bit sz (dest OR src) \<and>
       \<not> CF ef' \<and> \<not> OF ef' \<and> result_flags sz r ef' \<and> same_system_flags ef ef') \<and>
     (case alu_xor src dest sz ef of (r, ef') \<Rightarrow> r = take_bit sz (dest XOR src) \<and>
       \<not> CF ef' \<and> \<not> OF ef' \<and> result_flags sz r ef' \<and> same_system_flags ef ef')"
  by (simp add: alu_logic_eq result_flags_take_bit and.commute or.commute xor.commute
      flip: take_bit_and take_bit_or take_bit_xor)

theorem alu_logic_correct_witness: "fst (alu_xor 0xf0 0xff 8 1) = 0x0f"
  using alu_logic_correct [where sz = 8 and src = "0xf0" and dest = "0xff" and ef = 1]
  by (simp add: split_beta)

text \<open>C3: the shift loops, which the source runs one bit at a time and without masking the count to
  five bits, are single shifts by the whole count, whatever it is: \<open>shl\<close> multiplies, \<open>shr\<close> divides the
  unsigned reading, \<open>sar\<close> divides the signed reading rounding down; CF is the last bit shifted out, and a
  count of zero leaves it alone.\<close>

theorem alu_shift_correct:
  "valid_size sz \<Longrightarrow> n = shift_count sz src \<Longrightarrow>
     (\<exists>ef'. alu_shl src dest sz ef = (take_bit sz (push_bit n dest), ef') \<and>
       (CF ef' \<longleftrightarrow> (if n = 0 then CF ef else n \<le> sz \<and> bit dest (sz - n))) \<and>
       result_flags sz (take_bit sz (push_bit n dest)) ef' \<and> same_system_flags ef ef') \<and>
     (\<exists>ef'. alu_shr src dest sz ef = (drop_bit n (take_bit sz dest), ef') \<and>
       (CF ef' \<longleftrightarrow> (if n = 0 then CF ef else bit (take_bit sz dest) (n - 1))) \<and>
       result_flags sz (drop_bit n (take_bit sz dest)) ef' \<and> same_system_flags ef ef') \<and>
     (\<exists>ef'. alu_sar src dest sz ef = Some (take_bit sz (word_of_int (sval sz dest div 2 ^ n)), ef') \<and>
       (CF ef' \<longleftrightarrow> (if n = 0 then CF ef else bit dest (min (sz - 1) (n - 1)))) \<and>
       result_flags sz (take_bit sz (word_of_int (sval sz dest div 2 ^ n))) ef' \<and> same_system_flags ef ef')"
  by (simp only: alu_shl_eq alu_shr_eq alu_sar_eq)

theorem alu_shift_correct_witness: "fst (alu_shr 4 0xabf0 16 0) = 0xabf"
  using alu_shift_correct [of 16 4 4 "0xabf0" 0] by (auto simp: shift_count_def)

text \<open>C4: \<open>alu_mul\<close> and \<open>alu_imul\<close> return the whole product of the unsigned and of the signed
  readings, and set CF and OF exactly when it does not fit \<open>size\<close> bits.\<close>

theorem alu_mul_imul_correct:
  "valid_size sz \<Longrightarrow>
     (\<exists>p ef'. alu_mul src dest sz ef = Some (p, ef') \<and> uint p = uval sz src * uval sz dest \<and>
       (CF ef' \<longleftrightarrow> 2 ^ sz \<le> uval sz src * uval sz dest) \<and> OF ef' = CF ef' \<and> same_system_flags ef ef') \<and>
     (\<exists>p ef'. alu_imul src dest sz ef = Some (p, ef') \<and> sint p = sval sz src * sval sz dest \<and>
       (CF ef' \<longleftrightarrow> \<not> in_srange sz (sval sz src * sval sz dest)) \<and> OF ef' = CF ef' \<and> same_system_flags ef ef')"
  using alu_mul_eq [of sz src dest ef] alu_imul_eq [of sz src dest ef] by blast

theorem alu_mul_imul_correct_witness: "\<exists>p ef'. alu_imul 0xff 0x80 8 0 = Some (p, ef') \<and> sint p = 128"
  using alu_mul_imul_correct [of 8 "0xff" "0x80" 0] by (auto simp: sval_def)

text \<open>C5: \<open>alu_div\<close> and \<open>alu_mod\<close> fail their assertion exactly on a divisor whose low \<open>size\<close> bits are
  zero, and otherwise divide the low \<open>size\<close> bits of the dividend: the half of the double-width dividend
  that the instruction places above them has no influence.\<close>

theorem alu_div_mod_correct:
  "valid_size sz \<Longrightarrow>
     alu_div src dest sz = (if take_bit sz src = 0 then None
       else Some (ucast (take_bit sz dest div take_bit sz src))) \<and>
     alu_mod sz src dest = (if take_bit sz src = 0 then None
       else Some (ucast (take_bit sz dest mod take_bit sz src))) \<and>
     alu_div src (dest OR push_bit sz hi) sz = alu_div src dest sz"
proof -
  assume v: "valid_size sz"
  have "take_bit sz (dest OR push_bit sz hi) = take_bit sz dest"
    by (rule bit_word_eqI) (auto simp: bit_simps)
  with v show ?thesis by (simp add: alu_div_eq)
qed

theorem alu_div_mod_correct_witness: "alu_div 2 0x100000000 32 = Some 0"
  using alu_div_mod_correct [of 32 2 0 1] by simp

end
