(* ===== verification/Control_Correct.thy ===== *)
theory Control_Correct
  imports Stack Alu_Correct
begin

text \<open>
  Comparisons and the control flow that rests on them: the flags that a subtraction leaves behind
  make the sixteen conditions of \<open>jcc\<close>, \<open>setcc\<close> and \<open>cmovcc\<close> the relations between the operands
  that their names promise; \<open>jcc\<close> jumps by its sign-extended operand exactly when its condition holds.
\<close>

section \<open>Conditions after a comparison\<close>

text \<open>A signed comparison is the sign of the difference, corrected by the overflow.\<close>

lemma signed_less_arith:
  fixes h a b r :: int
  assumes "0 \<le> a" "a < 2 * h" "0 \<le> b" "b < 2 * h"
    and "r = (if b \<le> a then a - b else a - b + 2 * h)"
  shows "((h \<le> r) \<noteq> (\<not> (- h \<le> (if h \<le> a then a - 2 * h else a) - (if h \<le> b then b - 2 * h else b) \<and>
        (if h \<le> a then a - 2 * h else a) - (if h \<le> b then b - 2 * h else b) < h))) =
      ((if h \<le> a then a - 2 * h else a) < (if h \<le> b then b - 2 * h else b))"
  using assms by (auto split: if_splits)

lemma signed_less_bits:
  assumes v: "valid_size sz"
  shows "(bit (x - y) (sz - 1) \<noteq> (\<not> in_srange sz (sval sz x - sval sz y))) \<longleftrightarrow> sval sz x < sval sz y"
  unfolding bit_sign_uval [OF v] in_srange_def sval_uval_if [OF v] two_half [OF v]
  by (rule signed_less_arith)
    (use uval_bounds [of sz x] uval_bounds [of sz y] v in
      \<open>simp_all add: uval_diff_if valid_size_le two_half [OF v]\<close>)

lemma uval_diff_zero: "valid_size sz \<Longrightarrow> uval sz (x - y) = 0 \<longleftrightarrow> uval sz x = uval sz y"
  using uval_bounds [of sz x] uval_bounds [of sz y] by (auto simp: uval_diff_if valid_size_le)

lemma sval_eq_iff_uval: "valid_size sz \<Longrightarrow> sval sz x = sval sz y \<longleftrightarrow> uval sz x = uval sz y"
  using uval_bounds [of sz x] uval_bounds [of sz y] by (auto simp: sval_uval_if split: if_splits)

text \<open>The flags after a comparison of \<open>dest\<close> with \<open>src\<close>, as the relations they encode.\<close>

lemma compare_flags:
  assumes v: "valid_size sz" and s: "eflags s = snd (alu_sub src dest sz ef)"
  shows "CF (eflags s) \<longleftrightarrow> uval sz dest < uval sz src"
    and "ZF (eflags s) \<longleftrightarrow> uval sz dest = uval sz src"
    and "SF (eflags s) \<noteq> OF (eflags s) \<longleftrightarrow> sval sz dest < sval sz src"
    and "SF (eflags s) = OF (eflags s) \<longleftrightarrow> sval sz src \<le> sval sz dest"
    and "SF (eflags s) \<longleftrightarrow> sval sz (dest - src) < 0"
    and "OF (eflags s) \<longleftrightarrow> \<not> in_srange sz (sval sz dest - sval sz src)"
  using signed_less_bits [OF v, of dest src] v
  by (auto simp: s alu_sub_eq uval_diff_zero sval_neg not_less [symmetric])

section \<open>jcc\<close>

text \<open>The conditions that the dispatch tables give to \<open>jcc\<close>.\<close>

definition jcc_conditions :: "(machine \<Rightarrow> bool) list" where
  "jcc_conditions = [condition_o, condition_no, condition_b, condition_ae, condition_e, condition_ne,
     condition_na, condition_be, condition_a, condition_s, condition_ns, condition_p, condition_np,
     condition_l, condition_ge, condition_le, condition_g, condition_ecxz]"

lemma jcc_condition_operands:
  "cond \<in> set jcc_conditions \<Longrightarrow> cond (s\<lparr>opr_src := a, opr_dest := b\<rparr>) = cond s"
  by (auto simp: jcc_conditions_def condition_defs)

lemma operand_read_imm:
  assumes "o_type opr = OPR_IMM" "o_size opr \<in> {8, 16, 32}"
    and "ram s SREG_CS (o_addr opr) (o_size opr div 8)"
  shows "operand_read opr s =
    Some (opr\<lparr>o_val := mem_get (hw_mem s) (lin s SREG_CS (o_addr opr)) (o_size opr div 8)\<rparr>)"
  using assms mem_get_bound [of "hw_mem s" "lin s SREG_CS (o_addr opr)" 1]
    mem_get_bound [of "hw_mem s" "lin s SREG_CS (o_addr opr)" 2]
  by (auto simp: operand_read_def vaddr_read_ram cut_size_def take_bit_eq_mask mask_eq_exp_minus_1)

definition jcc_size :: "suffix \<Rightarrow> nat" where
  "jcc_size sf = (if sf = sf_short then 8 else 32)"

lemma sign_ext_mem_get:
  "sz = 8 \<or> sz = 32 \<Longrightarrow>
   sign_ext (mem_get m a (sz div 8)) sz = Some (of_int (sval sz (mem_get m a (sz div 8))))"
  using sign_ext_eq [of sz "mem_get m a (sz div 8)"] mem_get_bound [of m a "sz div 8"]
  by auto

lemma ram_operands [frame_simps]:
  "ram (s\<lparr>opr_src := a\<rparr>) = ram s" "ram (s\<lparr>opr_dest := b\<rparr>) = ram s"
  "lin (s\<lparr>opr_src := a\<rparr>) = lin s" "lin (s\<lparr>opr_dest := b\<rparr>) = lin s"
  by (auto simp: fun_eq_iff ram_def lram_def lin_def)

lemma sign_ext_byte: "sign_ext (ucast (m :: u8)) 8 = Some (of_int (sval 8 (ucast m)))"
proof -
  have "take_bit 8 (ucast m :: u32) = ucast m" by (rule bit_word_eqI) (auto simp: bit_simps dest: bit_imp_le_length)
  with sign_ext_eq [of 8 "ucast m"] show ?thesis by simp
qed

lemma sign_ext_32: "sign_ext v 32 = Some (of_int (sval 32 v))"
  by (simp add: sign_ext_def)

lemma set_opr_eq:
  "s\<lparr>opr_src := a, opr_dest := b\<rparr> = s\<lparr>opr_src := a', opr_dest := b', eip := e\<rparr> \<longleftrightarrow> a = a' \<and> b = b' \<and> e = eip s"
  "s\<lparr>opr_src := a, opr_dest := b, eip := e\<rparr> = s\<lparr>opr_src := a', opr_dest := b', eip := e'\<rparr> \<longleftrightarrow>
    a = a' \<and> b = b' \<and> e = e'" for s :: machine
  by (cases s; auto)+

lemma set_opr_order: "s\<lparr>opr_dest := b, opr_src := a\<rparr> = s\<lparr>opr_src := a, opr_dest := b\<rparr>" for s :: machine
  by (cases s) simp

lemma read_esp:
  "operand_read (reg_opr s REG_ESP 32\<lparr>o_val := v\<rparr>) s = Some (reg_opr s REG_ESP 32\<lparr>o_val := esp s\<rparr>)"
  "operand_read (reg_opr s REG_ESP 32) s = Some (reg_opr s REG_ESP 32\<lparr>o_val := esp s\<rparr>)"
  by (simp_all add: operand_read_def reg_opr_def reg_read_def cut_size_def)

section \<open>The properties\<close>

text \<open>C10: after \<open>alu_sub\<close> of \<open>src\<close> from \<open>dest\<close>, which is what \<open>cmp\<close> computes, the conditions
  b, ae, be, a (na, c) are the unsigned comparisons of the operands, l, ge, le, g the signed ones, e and ne
  equality, s and o the sign and the overflow of the difference.\<close>

theorem compare_conditions:
  "valid_size sz \<Longrightarrow> t = s\<lparr>eflags := snd (alu_sub src dest sz (eflags s))\<rparr> \<Longrightarrow>
     condition_e t = (uval sz dest = uval sz src) \<and> condition_ne t = (uval sz dest \<noteq> uval sz src) \<and>
     condition_b t = (uval sz dest < uval sz src) \<and> condition_c t = (uval sz dest < uval sz src) \<and>
     condition_ae t = (uval sz src \<le> uval sz dest) \<and>
     condition_be t = (uval sz dest \<le> uval sz src) \<and> condition_na t = (uval sz dest \<le> uval sz src) \<and>
     condition_a t = (uval sz src < uval sz dest) \<and>
     condition_l t = (sval sz dest < sval sz src) \<and> condition_ge t = (sval sz src \<le> sval sz dest) \<and>
     condition_le t = (sval sz dest \<le> sval sz src) \<and> condition_g t = (sval sz src < sval sz dest) \<and>
     condition_s t = (sval sz (dest - src) < 0) \<and> condition_ns t = (0 \<le> sval sz (dest - src)) \<and>
     condition_o t = (\<not> in_srange sz (sval sz dest - sval sz src)) \<and>
     condition_no t = in_srange sz (sval sz dest - sval sz src)"
proof -
  assume v: "valid_size sz" and t: "t = s\<lparr>eflags := snd (alu_sub src dest sz (eflags s))\<rparr>"
  then have "eflags t = snd (alu_sub src dest sz (eflags s))" by simp
  note f = compare_flags [OF v this]
  have "(sval sz dest = sval sz src) = (uval sz dest = uval sz src)" using v by (rule sval_eq_iff_uval)
  with f show ?thesis by (auto simp: condition_defs)
qed

theorem compare_conditions_witness:
  "condition_b (machine0\<lparr>eflags := snd (alu_sub 0xff 1 8 (eflags machine0))\<rparr>) \<and>
   condition_g (machine0\<lparr>eflags := snd (alu_sub 0xff 1 8 (eflags machine0))\<rparr>)"
  using compare_conditions [where sz = 8 and src = "0xff" and dest = 1 and s = machine0, OF _ refl]
  by (simp add: uval_def sval_def)

text \<open>a conditional jump, short or near, under any condition of the dispatch tables: it moves \<open>eip\<close> by
  its sign-extended operand exactly when the condition holds, changes nothing else but the two global
  operands, and returns the length of the opcode byte and the operand.\<close>

theorem jcc_correct:
  "sf = sf_short \<or> sf = sf_near \<Longrightarrow> cond \<in> set jcc_conditions \<Longrightarrow>
   ram s SREG_CS (pc + 1) (jcc_size sf div 8) \<Longrightarrow>
     \<exists>a b. jcc sf cond pc op s = Some (1 + of_nat (jcc_size sf div 8), s\<lparr>opr_src := a, opr_dest := b,
       eip := (if cond s
               then eip s + of_int (sval (jcc_size sf) (mem_get (hw_mem s) (lin s SREG_CS (pc + 1)) (jcc_size sf div 8)))
               else eip s)\<rparr>)"
  by (elim disjE; simp add: jcc_def make_instr_impl_cc_def Let_def set_sizes_def decode_operand_i_def jcc_pass_def
      read_src_def operand_read_imm jcc_size_def frame_simps size_bytes_def jcc_condition_operands
      sign_ext_byte sign_ext_32 set_opr_order set_opr_eq; blast)

text \<open>A machine at 0x1000 with the bytes 74 FE, a jump to itself if equal, and ZF set.\<close>

definition jump_machine :: machine where
  "jump_machine = machine0\<lparr>eip := 0x1000, eflags := 0x42, hw_mem := (\<lambda>_. 0)(0x1000 := 0x74, 0x1001 := 0xfe)\<rparr>"

lemma jump_machine_ram: "n \<in> {1, 2, 4} \<Longrightarrow> ram jump_machine SREG_CS 0x1001 n"
  by (auto simp: ram_def lram_def lin_def jump_machine_def cr0_pe_def cr0_pg_def is_mmio_def len_ok_def QDISK_BASE_def)

theorem jcc_correct_witness:
  "\<exists>t. jcc sf_short condition_e 0x1000 0x74 jump_machine = Some (2, t) \<and> eip t = 0xffe"
proof -
  have "condition_e \<in> set jcc_conditions" by (simp add: jcc_conditions_def)
  moreover have "ram jump_machine SREG_CS (0x1000 + 1) (jcc_size sf_short div 8)"
    using jump_machine_ram [of 1] by (simp add: jcc_size_def)
  ultimately obtain a b where e: "jcc sf_short condition_e 0x1000 0x74 jump_machine =
     Some (1 + of_nat (jcc_size sf_short div 8), jump_machine\<lparr>opr_src := a, opr_dest := b,
       eip := (if condition_e jump_machine
               then eip jump_machine + of_int (sval (jcc_size sf_short) (mem_get (hw_mem jump_machine)
                 (lin jump_machine SREG_CS (0x1000 + 1)) (jcc_size sf_short div 8)))
               else eip jump_machine)\<rparr>)"
    using jcc_correct [of sf_short condition_e jump_machine "0x1000" "0x74"] by blast
  show ?thesis
    unfolding e by (simp add: jcc_size_def condition_e_def ZF_def jump_machine_def lin_def cr0_pe_def sval_def)
qed

text \<open>\<open>ret imm16\<close> behaves exactly as a plain \<open>ret\<close> whatever its operand: it never releases the
  arguments of the call, since its last step reads \<open>esp\<close> back where it should write the sum.\<close>

theorem ret_imm_ignored:
  "stack_of b s (a # ws) n \<Longrightarrow> data_size s = 32 \<Longrightarrow> ram s SREG_CS (eip s + 1) 2 \<Longrightarrow>
     ret_c2 pc op s = ret_c3 pc' op' s \<and>
     (\<exists>t. ret_c2 pc op s = Some (0, t) \<and> eip t = a \<and> esp t = esp s + 4)"
proof -
  assume st: "stack_of b s (a # ws) n" and d: "data_size s = 32" and r: "ram s SREG_CS (eip s + 1) 2"
  obtain t where t: "pop 32 s = Some (a, t)" "stack_of b t ws (Suc n)" "same_but_stack s t"
    by (rule pop_pops [OF st])
  have "esp t = esp s + 4"
    using stack_of_esp [OF st] stack_of_esp [OF t(2)] by simp
  with t d r imm_read [of s "eip s + 1" 16] show ?thesis
    by (simp add: ret_c2_def ret_c3_def same_but_stack_simps [OF t(3)] read_esp Let_def)
qed

theorem ret_imm_ignored_witness:
  "\<exists>t. ret_c2 0 0xc2 (intr_machine\<lparr>gpr := (\<lambda>i. if i = 4 then 0x7ffc else 0)\<rparr>) = Some (0, t) \<and> esp t = 0x8000"
proof -
  let ?s = "intr_machine\<lparr>gpr := (\<lambda>i. if i = 4 then 0x7ffc else 0)\<rparr>"
  have "stack_of 0x8000 ?s [0] 1000"
    by (simp add: stack_of_def frame_simps intr_machine_region)
      (simp add: lin_def intr_machine_def mem_word_simps mem_get_zero)
  moreover have "ram ?s SREG_CS (eip ?s + 1) 2"
    using ram_region_ram [OF intr_machine_region, of SREG_CS "0x1235" 4 0 2] by (simp add: len_ok_def frame_simps)
  moreover have "data_size ?s = 32" by simp
  ultimately obtain t where "ret_c2 0 0xc2 ?s = Some (0, t)" "esp t = esp ?s + 4"
    using ret_imm_ignored [of "0x8000" ?s 0 "[]" 1000 0 "0xc2" 0 "0xc3"] by blast
  then show ?thesis by simp
qed

end
