(* ===== verification/Fpu.thy ===== *)
theory Fpu
  imports Operand
begin

text \<open>
  The floating-point unit: \<open>nemu/src/cpu/fpu.c\<close> and \<open>nemu/src/cpu/instr/x87.c\<close>. Single-precision
  numbers are their 32 bits; \<open>FLOAT\<close>'s fields are bit-fields of them. The emulator does its own
  single-precision arithmetic on these bits, and the conversions and comparisons of C's
  \<open>float\<close> and \<open>double\<close> that the source leaves to the language are modelled on the IEEE-754 bits,
  round to nearest even.
\<close>

section \<open>The fields of the unions\<close>

definition f_fraction :: "u32 \<Rightarrow> u32" where "f_fraction v = bf_get 0 23 v"
definition f_exponent :: "u32 \<Rightarrow> u32" where "f_exponent v = bf_get 23 8 v"
definition f_sign :: "u32 \<Rightarrow> u32" where "f_sign v = bf_get 31 1 v"

text \<open>The three assignments that build a result: each field takes the low bits of its value.\<close>

definition f_pack :: "u32 \<Rightarrow> u32 \<Rightarrow> u32 \<Rightarrow> u32" where
  "f_pack sg expo frac = bf_put 0 23 frac (bf_put 23 8 expo (bf_put 31 1 sg 0))"

definition st_top :: "machine \<Rightarrow> nat" where "st_top s = unat (bf_get 11 3 (fpu_status s))"

definition put_top :: "nat \<Rightarrow> machine \<Rightarrow> machine" where
  "put_top t s = s\<lparr>fpu_status := bf_put 11 3 (of_nat t) (fpu_status s)\<rparr>"

definition put_c023 :: "bool \<Rightarrow> bool \<Rightarrow> bool \<Rightarrow> machine \<Rightarrow> machine" where
  "put_c023 c0 c2 c3 s =
     s\<lparr>fpu_status := set_flag 8 c0 (set_flag 10 c2 (set_flag 14 c3 (fpu_status s)))\<rparr>"

definition P_ZERO_F :: u32 where "P_ZERO_F = 0"
definition N_ZERO_F :: u32 where "N_ZERO_F = 0x80000000"
definition P_INF_F :: u32 where "P_INF_F = 0x7f800000"
definition N_INF_F :: u32 where "N_INF_F = 0xff800000"
definition P_NAN_F :: u32 where "P_NAN_F = 0x7fc00000"
definition N_NAN_F :: u32 where "N_NAN_F = 0xffc00000"

lemmas fpu_consts = P_ZERO_F_def N_ZERO_F_def P_INF_F_def N_INF_F_def P_NAN_F_def N_NAN_F_def

section \<open>internal_normalize\<close>

text \<open>One shift to the right that keeps the sticky bit.\<close>

definition shift_sticky :: "u64 \<Rightarrow> u64" where
  "shift_sticky g = drop_bit 1 g OR (g AND 1)"

lemma unat_drop_bit: "unat (drop_bit k g) = unat g div 2 ^ k" for g :: "'a::len word"
  by (rule trans [OF unat_drop_bit_eq]) (rule drop_bit_eq_div)

lemma unat_shift_sticky:
  "unat (shift_sticky g) = unat g div 2 + (if even (unat g div 2) then unat g mod 2 else 0)"
proof -
  have "unat (shift_sticky g) = (unat g div 2) OR (unat g mod 2)"
    by (simp add: shift_sticky_def unsigned_or_eq unat_drop_bit unsigned_and_eq and_one_eq unat_mod)
  then show ?thesis
    by (cases "even (unat g)") (auto simp: or_Suc_0_eq mod_2_eq_odd)
qed

lemma shift_sticky_less: "1 < unat g \<Longrightarrow> unat (shift_sticky g) < unat g"
  by (simp add: unat_shift_sticky) presburger

lemma shift_sticky_le: "unat (shift_sticky g) \<le> unat g"
  by (simp add: unat_shift_sticky) presburger

text \<open>
  The two loops, each with its measure. The exponent is an \<open>int32_t\<close> that stays far from its
  bounds, and is an integer here.
\<close>

function norm_right :: "int \<Rightarrow> u64 \<Rightarrow> int \<times> u64" where
  "norm_right expo g =
     (if (drop_bit 26 g > 1 \<and> expo < 0xff) \<or> (g > 4 \<and> expo < 0)
      then norm_right (expo + 1) (shift_sticky g) else (expo, g))"
  by pat_completeness auto
termination
proof (relation "measure (\<lambda>(expo, g). unat g)")
  fix expo :: int and g :: u64
  assume "(drop_bit 26 g > 1 \<and> expo < 0xff) \<or> (g > 4 \<and> expo < 0)"
  then have "1 < unat g"
    by (auto simp: word_less_nat_alt unat_drop_bit)
  then show "((expo + 1, shift_sticky g), expo, g) \<in> measure (\<lambda>(expo, g). unat g)"
    by (simp add: shift_sticky_less word_less_nat_alt)
qed simp

declare norm_right.simps [simp del]

function norm_left :: "int \<Rightarrow> u64 \<Rightarrow> int \<times> u64" where
  "norm_left expo g =
     (if drop_bit 26 g = 0 \<and> expo > 0 then norm_left (expo - 1) (push_bit 1 g) else (expo, g))"
  by pat_completeness auto
termination by (relation "measure (\<lambda>(expo, g). nat expo)") auto

declare norm_left.simps [simp del]

text \<open>The normalisation proper: whether the result is an overflow, its exponent and significand.\<close>

definition norm_phase :: "int \<Rightarrow> u64 \<Rightarrow> bool \<times> int \<times> u64" where
  "norm_phase expo g =
     (if drop_bit 26 g > 1 \<or> expo < 0 then
        let (expo, g) = norm_right expo g;
            (over, expo, g) =
              (if expo \<ge> 0xff then (True, uint (f_exponent P_INF_F), ucast (f_fraction P_INF_F))
               else (False, expo, g));
            g = (if expo = 0 then shift_sticky g else g)
        in if expo < 0 then (True, 0, 0) else (over, expo, g)
      else if drop_bit 26 g = 0 \<and> expo > 0 then
        let (expo, g) = norm_left expo g
        in (False, expo, if expo = 0 then shift_sticky g else g)
      else if expo = 0 \<and> drop_bit 26 g = 1 then (False, expo + 1, g)
      else (False, expo, g))"

text \<open>Rounding to nearest even on the guard, round and sticky bits: the fraction, and whether it grew.\<close>

definition round_phase :: "u64 \<Rightarrow> u64 \<times> bool" where
  "round_phase g =
     (let grs = g AND 7; frac = drop_bit 3 g
      in if grs < 4 then (frac, False)
         else if grs > 4 then (frac + 1, True)
         else if frac mod 2 = 0 then (frac, False) else (frac + 1, True))"

definition f_result :: "u32 \<Rightarrow> int \<Rightarrow> u64 \<Rightarrow> u32" where
  "f_result sg expo g = f_pack sg (word_of_int expo AND 0xff) (ucast g)"

lemma norm_right_post:
  "norm_right expo g = (e', g') \<Longrightarrow>
   \<not> ((drop_bit 26 g' > 1 \<and> e' < 0xff) \<or> (g' > 4 \<and> e' < 0)) \<and> expo \<le> e'"
proof (induction expo g rule: norm_right.induct)
  case (1 expo g)
  show ?case
  proof (cases "(drop_bit 26 g > 1 \<and> expo < 0xff) \<or> (g > 4 \<and> expo < 0)")
    case True
    with 1 show ?thesis by (subst (asm) (2) norm_right.simps) force
  next
    case False
    with 1 show ?thesis by (subst (asm) (2) norm_right.simps) simp
  qed
qed

lemma unat_push_bit_1: "unat g < 2 ^ 63 \<Longrightarrow> unat (push_bit 1 g) = 2 * unat g" for g :: u64
  by (simp add: push_bit_eq_mult unat_word_ariths)

lemma drop_bit_26_0: "drop_bit 26 g = 0 \<longleftrightarrow> unat g < 2 ^ 26" for g :: u64
  by (simp add: unat_eq_zero [symmetric] unat_drop_bit div_eq_0_iff del: unat_eq_zero)

lemma drop_bit_26_1: "drop_bit 26 g > 1 \<longleftrightarrow> unat g \<ge> 2 ^ 27" for g :: u64
  by (simp add: word_less_nat_alt unat_drop_bit) (auto simp: less_eq_div_iff_mult_less_eq Suc_le_eq [symmetric])

lemma norm_left_post:
  "norm_left expo g = (e', g') \<Longrightarrow> unat g < 2 ^ 27 \<Longrightarrow> 0 \<le> expo \<Longrightarrow>
   unat g' < 2 ^ 27 \<and> 0 \<le> e' \<and> e' \<le> expo \<and> (k dvd unat g \<longrightarrow> k dvd unat g')"
proof (induction expo g rule: norm_left.induct)
  case (1 expo g)
  show ?case
  proof (cases "drop_bit 26 g = 0 \<and> expo > 0")
    case True
    then have "unat (push_bit 1 g) = 2 * unat g" "unat g < 2 ^ 26"
      by (simp_all add: unat_push_bit_1 [simplified] drop_bit_26_0)
    with True 1 show ?thesis by (subst (asm) (2) norm_left.simps) (auto simp: dvd_mult)
  next
    case False
    with 1 show ?thesis by (subst (asm) (2) norm_left.simps) simp
  qed
qed

text \<open>
  A fraction that was rounded up is normalised again. The second pass never rounds, which is why
  the recursion ends.
\<close>

definition rounds_up :: "int \<Rightarrow> u64 \<Rightarrow> bool" where
  "rounds_up expo g = (case norm_phase expo g of (over, expo', g') \<Rightarrow> \<not> over \<and> snd (round_phase g'))"


lemma unat_and_7: "unat (g AND 7) = unat g mod 8" for g :: u64
proof -
  have "g AND 7 = take_bit 3 g" by (simp add: take_bit_eq_mask mask_eq_exp_minus_1)
  then show ?thesis by (simp only: unsigned_take_bit_eq) (simp add: take_bit_eq_mod)
qed

lemma round_phase_dvd: "8 dvd unat g \<Longrightarrow> round_phase g = (drop_bit 3 g, False)"
  by (simp add: round_phase_def Let_def word_less_nat_alt unat_and_7)

lemma round_phase_bound:
  assumes "round_phase g = (frac, up)" "unat g < 2 ^ 27"
  shows "unat frac \<le> 2 ^ 24"
proof -
  have "unat (drop_bit 3 g) < 2 ^ 24" using assms(2) by (simp add: unat_drop_bit less_mult_imp_div_less)
  moreover from this have "unat (drop_bit 3 g + 1) = unat (drop_bit 3 g) + 1"
    by (simp add: unat_word_ariths)
  ultimately show ?thesis
    using assms(1) by (auto simp: round_phase_def Let_def split: if_splits)
qed

lemma norm_right_bound:
  "norm_right expo g = (e', g') \<Longrightarrow> e' < 255 \<Longrightarrow> unat g' < 2 ^ 27"
  using norm_right_post [of expo g e' g'] by (auto simp: drop_bit_26_1 simp del: power_numeral)

lemma norm_phase_post:
  assumes "norm_phase expo g = (False, e', g')"
  shows "unat g' < 2 ^ 27 \<and> 0 \<le> e'"
proof -
  obtain e1 g1 e2 g2 where R: "norm_right expo g = (e1, g1)" and L: "norm_left expo g = (e2, g2)"
    by fastforce
  have left: "drop_bit 26 g = 0 \<Longrightarrow> 0 < expo \<Longrightarrow> unat g2 < 2 ^ 27 \<and> 0 \<le> e2"
    using norm_left_post [OF L, of 1] by (simp add: drop_bit_26_0)
  show ?thesis
    using assms norm_right_bound [OF R] left shift_sticky_le [of g1] shift_sticky_le [of g2]
      drop_bit_26_1 [of g]
    by (auto simp: norm_phase_def R L Let_def simp del: power_numeral split: if_splits)
qed

lemma norm_right_top:
  assumes "unat g = 2 ^ 27" "0 \<le> expo" "expo < 255"
  shows "norm_right expo g = (expo + 1, shift_sticky g)" "unat (shift_sticky g) = 2 ^ 26"
proof -
  show half: "unat (shift_sticky g) = 2 ^ 26" using assms(1) by (simp add: unat_shift_sticky)
  have "1 < drop_bit 26 g" using assms(1) by (simp add: drop_bit_26_1)
  moreover have "\<not> 1 < drop_bit 26 (shift_sticky g)" using half by (simp add: drop_bit_26_1)
  ultimately show "norm_right expo g = (expo + 1, shift_sticky g)"
    using assms(2,3) by (subst norm_right.simps, subst norm_right.simps) simp
qed

lemma norm_left_dvd:
  assumes "norm_left expo g = (e', g')" "unat g < 2 ^ 26" "0 < expo" "8 dvd unat g"
  shows "16 dvd unat g'"
proof -
  have g: "unat (push_bit 1 g) = 2 * unat g" using assms(2) by (simp add: unat_push_bit_1 [simplified])
  have "norm_left (expo - 1) (push_bit 1 g) = (e', g')"
    using assms by (subst (asm) norm_left.simps) (simp add: drop_bit_26_0)
  then have "16 dvd unat (push_bit 1 g) \<longrightarrow> 16 dvd unat g'"
    by (rule norm_left_post [THEN conjunct2, THEN conjunct2, THEN conjunct2]) (use assms g in auto)
  moreover have "16 dvd 2 * unat g" using assms(4) by presburger
  ultimately show ?thesis by (simp only: g)
qed

lemma norm_phase_dvd:
  assumes "8 dvd unat g" "unat g \<le> 2 ^ 27" "0 \<le> expo" "norm_phase expo g = (False, e', g')"
  shows "8 dvd unat g'"
proof (cases "drop_bit 26 g > 1")
  case True
  with assms(2) have g: "unat g = 2 ^ 27" by (simp add: drop_bit_26_1)
  show ?thesis
  proof (cases "expo < 255")
    case True
    with assms(3,4) \<open>drop_bit 26 g > 1\<close> norm_right_top [OF g assms(3) True]
    show ?thesis by (auto simp: norm_phase_def Let_def split: if_splits)
  next
    case False
    then have "norm_right expo g = (expo, g)" by (subst norm_right.simps) simp
    with False assms(4) \<open>drop_bit 26 g > 1\<close> show ?thesis by (auto simp: norm_phase_def Let_def)
  qed
next
  case False
  obtain e2 g2 where L: "norm_left expo g = (e2, g2)" by fastforce
  have "16 dvd unat g2 \<Longrightarrow> 8 dvd unat (shift_sticky g2)"
    by (simp add: unat_shift_sticky) presburger
  moreover have "16 dvd unat g2 \<Longrightarrow> 8 dvd unat g2" by presburger
  ultimately show ?thesis
    using False assms norm_left_dvd [OF L _ _ assms(1)]
    by (auto simp: norm_phase_def Let_def L drop_bit_26_0 split: if_splits)
qed

lemma rounds_up_once:
  assumes "norm_phase expo g = (False, e', g')" "round_phase g' = (frac, True)"
  shows "\<not> rounds_up e' (push_bit 3 frac)"
proof -
  note b = norm_phase_post [OF assms(1)]
  with round_phase_bound [OF assms(2)] have f: "unat frac \<le> 2 ^ 24" by simp
  then have p: "unat (push_bit 3 frac) = 8 * unat frac"
    by (simp add: push_bit_eq_mult unat_word_ariths)
  with f b show ?thesis
    by (auto simp: rounds_up_def round_phase_dvd split: prod.splits dest!: norm_phase_dvd [rotated 3])
qed

lemma rounds_up_decreases:
  assumes "norm_phase expo g = (False, e', g')" "round_phase g' = (frac, True)"
  shows "rounds_up expo g \<and> \<not> rounds_up e' (push_bit 3 frac)"
  using rounds_up_once [OF assms] assms by (simp add: rounds_up_def)

function internal_normalize :: "u32 \<Rightarrow> int \<Rightarrow> u64 \<Rightarrow> u32" where
  "internal_normalize sg expo g =
     (case norm_phase expo g of (over, expo, g) \<Rightarrow>
        if over then f_result sg expo g
        else (case round_phase g of (frac, up) \<Rightarrow>
                if up then internal_normalize sg expo (push_bit 3 frac)
                else f_result sg expo frac))"
  by pat_completeness auto
termination
  by (relation "measure (\<lambda>(sg, expo, g). if rounds_up expo g then 1 else 0)")
    (auto dest: rounds_up_decreases [OF sym sym])


declare internal_normalize.simps [simp del]

section \<open>Arithmetic\<close>

text \<open>The tables of corner cases: triples of the operands \<open>a\<close>, \<open>b\<close> and the result.\<close>

fun corner_lookup :: "(u32 \<times> u32 \<times> u32) list \<Rightarrow> u32 \<Rightarrow> u32 \<Rightarrow> u32 option" where
  "corner_lookup [] a b = None"
| "corner_lookup ((x, y, res) # rules) a b = (if a = x \<and> b = y then Some res else corner_lookup rules a b)"

definition corner_add :: "(u32 \<times> u32 \<times> u32) list" where
  "corner_add =
    [(P_ZERO_F, P_ZERO_F, P_ZERO_F), (N_ZERO_F, P_ZERO_F, P_ZERO_F), (P_ZERO_F, N_ZERO_F, P_ZERO_F),
     (N_ZERO_F, N_ZERO_F, N_ZERO_F), (P_INF_F, N_INF_F, N_NAN_F), (N_INF_F, P_INF_F, N_NAN_F),
     (P_INF_F, P_NAN_F, P_NAN_F), (P_INF_F, N_NAN_F, N_NAN_F), (N_INF_F, P_NAN_F, P_NAN_F),
     (N_INF_F, N_NAN_F, N_NAN_F), (N_NAN_F, P_NAN_F, P_NAN_F)]"

definition corner_sub :: "(u32 \<times> u32 \<times> u32) list" where
  "corner_sub =
    [(P_ZERO_F, P_ZERO_F, P_ZERO_F), (N_ZERO_F, P_ZERO_F, N_ZERO_F), (P_ZERO_F, N_ZERO_F, P_ZERO_F),
     (N_ZERO_F, N_ZERO_F, P_ZERO_F), (P_NAN_F, P_NAN_F, P_NAN_F), (N_NAN_F, P_NAN_F, P_NAN_F),
     (P_NAN_F, N_NAN_F, P_NAN_F), (N_NAN_F, N_NAN_F, N_NAN_F)]"

definition corner_mul :: "(u32 \<times> u32 \<times> u32) list" where
  "corner_mul =
    [(P_ZERO_F, P_INF_F, N_NAN_F), (P_ZERO_F, N_INF_F, N_NAN_F), (N_ZERO_F, P_INF_F, N_NAN_F),
     (N_ZERO_F, N_INF_F, N_NAN_F), (P_INF_F, P_ZERO_F, N_NAN_F), (P_INF_F, N_ZERO_F, N_NAN_F),
     (N_INF_F, P_ZERO_F, N_NAN_F), (N_INF_F, N_ZERO_F, N_NAN_F)]"

definition corner_div :: "(u32 \<times> u32 \<times> u32) list" where
  "corner_div =
    [(P_ZERO_F, P_ZERO_F, N_NAN_F), (N_ZERO_F, P_ZERO_F, N_NAN_F), (P_ZERO_F, N_ZERO_F, N_NAN_F),
     (N_ZERO_F, N_ZERO_F, N_NAN_F), (P_INF_F, P_ZERO_F, P_INF_F), (N_INF_F, P_ZERO_F, N_INF_F),
     (P_INF_F, N_ZERO_F, N_INF_F), (N_INF_F, N_ZERO_F, P_INF_F), (P_INF_F, P_INF_F, N_NAN_F),
     (N_INF_F, P_INF_F, N_NAN_F), (P_INF_F, N_INF_F, N_NAN_F), (N_INF_F, N_INF_F, N_NAN_F)]"

text \<open>The significand with its hidden bit, and the alignment loop of the addition.\<close>

definition significand :: "u32 \<Rightarrow> u32" where
  "significand v = (if f_exponent v \<noteq> 0 then f_fraction v OR 0x800000 else f_fraction v)"

definition unbiased :: "u32 \<Rightarrow> int" where
  "unbiased v = (if f_exponent v = 0 then - 126 else uint (f_exponent v) - 127)"

fun align_loop :: "nat \<Rightarrow> u32 \<Rightarrow> u32 \<Rightarrow> u32" where
  "align_loop 0 sticky g = g"
| "align_loop (Suc k) sticky g =
     (let sticky = sticky OR (g AND 1)
      in align_loop k sticky (drop_bit 1 g OR sticky))"

definition is_zero_F :: "u32 \<Rightarrow> bool" where "is_zero_F v \<longleftrightarrow> v = P_ZERO_F \<or> v = N_ZERO_F"
definition is_inf_F :: "u32 \<Rightarrow> bool" where "is_inf_F v \<longleftrightarrow> v = P_INF_F \<or> v = N_INF_F"
definition is_nan_F :: "u32 \<Rightarrow> bool" where "is_nan_F v \<longleftrightarrow> v = P_NAN_F \<or> v = N_NAN_F"

definition add_sorted :: "u32 \<Rightarrow> u32 \<Rightarrow> u32" where
  "add_sorted fa fb =
     (let shift = unbiased fb - unbiased fa;
          sig_a = push_bit 3 (significand fa);
          sig_b = push_bit 3 (significand fb);
          sig_a = align_loop (nat shift) 0 sig_a;
          sig_a = (if f_sign fa \<noteq> 0 then sig_a * (- 1) else sig_a);
          sig_b = (if f_sign fb \<noteq> 0 then sig_b * (- 1) else sig_b);
          sig_res = sig_a + sig_b;
          (sg, sig_res) = (if drop_bit 31 sig_res \<noteq> 0 then (1, sig_res * (- 1)) else (0, sig_res))
      in internal_normalize sg (uint (f_exponent fb)) (ucast sig_res))"

definition internal_float_add :: "u32 \<Rightarrow> u32 \<Rightarrow> u32" where
  "internal_float_add b a =
     (case corner_lookup corner_add a b of
        Some res \<Rightarrow> res
      | None \<Rightarrow>
          if is_zero_F a then b
          else if is_zero_F b then a
          else if f_exponent a = 0xff then a
          else if f_exponent b = 0xff then b
          else if f_exponent a > f_exponent b then add_sorted b a
          else add_sorted a b)"

definition internal_float_sub :: "u32 \<Rightarrow> u32 \<Rightarrow> u32" where
  "internal_float_sub b a =
     (case corner_lookup corner_sub a b of
        Some res \<Rightarrow> res
      | None \<Rightarrow>
          if is_nan_F a then a
          else if is_nan_F b then b
          else internal_float_add (bf_put 31 1 (NOT (f_sign b)) b) a)"

text \<open>The exponent of a denormal is counted as 1.\<close>

definition eff_exponent :: "u32 \<Rightarrow> int" where
  "eff_exponent v = (if f_exponent v = 0 then 1 else uint (f_exponent v))"

definition signed_zero :: "u32 \<Rightarrow> u32 \<Rightarrow> u32" where
  "signed_zero a b = (if f_sign a XOR f_sign b \<noteq> 0 then N_ZERO_F else P_ZERO_F)"

definition signed_inf :: "u32 \<Rightarrow> u32 \<Rightarrow> u32" where
  "signed_inf a b = (if f_sign a XOR f_sign b \<noteq> 0 then N_INF_F else P_INF_F)"

definition internal_float_mul :: "u32 \<Rightarrow> u32 \<Rightarrow> u32" where
  "internal_float_mul b a =
     (case corner_lookup corner_mul a b of
        Some res \<Rightarrow> res
      | None \<Rightarrow>
          if is_nan_F a \<or> is_nan_F b then (if a = P_NAN_F \<or> b = P_NAN_F then P_NAN_F else N_NAN_F)
          else if is_zero_F a then signed_zero a b
          else if is_zero_F b then signed_zero a b
          else if is_inf_F a then signed_inf a b
          else if is_inf_F b then signed_inf a b
          else
            let sig_res = (ucast (significand a) :: u64) * ucast (significand b);
                ae = eff_exponent a - 127; be = eff_exponent b - 127;
                re = ae + be - 20
            in internal_normalize (f_sign a XOR f_sign b) (re + 127) sig_res)"

text \<open>
  The two loops that maintain the precision of a quotient; either runs forever on 0. Each counts
  its shifts.
\<close>

partial_function (option) div_shift_a :: "u64 \<Rightarrow> int \<Rightarrow> (u64 \<times> int) option" where
  [code]: "div_shift_a g shift =
     (if drop_bit 63 g = 0 then div_shift_a (push_bit 1 g) (shift + 1) else Some (g, shift))"

partial_function (option) div_shift_b :: "u64 \<Rightarrow> int \<Rightarrow> (u64 \<times> int) option" where
  [code]: "div_shift_b g shift =
     (if g AND 1 = 0 then div_shift_b (drop_bit 1 g) (shift + 1) else Some (g, shift))"

definition internal_float_div :: "u32 \<Rightarrow> u32 \<Rightarrow> u32 option" where
  "internal_float_div b a =
     (case corner_lookup corner_div a b of
        Some res \<Rightarrow> Some res
      | None \<Rightarrow>
          if is_nan_F a \<or> is_nan_F b then Some (if a = P_NAN_F \<or> b = P_NAN_F then P_NAN_F else N_NAN_F)
          else if is_inf_F a then Some (signed_inf a b)
          else if is_zero_F b then Some (signed_inf a b)
          else if is_zero_F a then Some (bf_put 31 1 (f_sign a XOR f_sign b) a)
          else if is_inf_F b then Some (signed_zero a b)
          else do {
            (sig_a, shift) \<leftarrow> div_shift_a (ucast (significand a)) 0;
            (sig_b, shift) \<leftarrow> div_shift_b (ucast (significand b)) shift;
            let sig_res = sig_a div sig_b;
            let exp_res = eff_exponent a - eff_exponent b + 127 - (shift - 23 - 3);
            Some (internal_normalize (f_sign a XOR f_sign b) exp_res sig_res)
          })"

section \<open>The conversions and comparisons of the language\<close>

text \<open>
  \<open>ieee_round m e\<close> is the magnitude, as 31 bits, of the single-precision number nearest to
  \<open>m * 2 ^ e\<close>, ties to even; too large a number is the infinity. A subnormal result and the
  carry into the exponent come out of the encoding itself.
\<close>

fun bit_length :: "nat \<Rightarrow> nat" where
  "bit_length m = (if m = 0 then 0 else Suc (bit_length (m div 2)))"

declare bit_length.simps [simp del]

definition round_even :: "nat \<Rightarrow> nat \<Rightarrow> nat" where
  "round_even m k =
     (let q = m div 2 ^ k; r = m mod 2 ^ k
      in if 2 * r > 2 ^ k \<or> 2 * r = 2 ^ k \<and> odd q then q + 1 else q)"

definition ieee_bits :: "nat \<Rightarrow> int \<Rightarrow> nat" where
  "ieee_bits m e =
     (let u = max (e + int (bit_length m) - 24) (- 149);
          q = (if u \<le> e then m * 2 ^ nat (e - u) else round_even m (nat (u - e)))
      in nat (u + 149) * 2 ^ 23 + q)"

definition ieee_round :: "nat \<Rightarrow> int \<Rightarrow> nat" where
  "ieee_round m e = (if m = 0 then 0 else min (ieee_bits m e) 0x7f800000)"

definition sign_bit :: "bool \<Rightarrow> nat" where "sign_bit b = (if b then 2 ^ 31 else 0)"

text \<open>\<open>(float)\<close> of a \<open>double\<close>, given by its 64 bits.\<close>

definition double_to_float :: "u64 \<Rightarrow> u32" where
  "double_to_float d =
     (let sg = bit d 63; expo = unat (bf_get 52 11 d); frac = unat (bf_get 0 52 d)
      in of_nat (sign_bit sg +
           (if expo = 2047 then (if frac = 0 then 0x7f800000 else 0x7fc00000 + frac div 2 ^ 29 mod 2 ^ 22)
            else if expo = 0 then ieee_round frac (- 1074)
            else ieee_round (2 ^ 52 + frac) (int expo - 1075))))"

text \<open>\<open>(double)\<close> of a \<open>float\<close>.\<close>

definition float_to_double :: "u32 \<Rightarrow> u64" where
  "float_to_double v =
     (let sg = (if bit v 31 then 2 ^ 63 else 0); expo = unat (f_exponent v); frac = unat (f_fraction v)
      in of_nat (sg +
           (if expo = 255 then
              (if frac = 0 then 2047 * 2 ^ 52 else 2047 * 2 ^ 52 + 2 ^ 51 + frac mod 2 ^ 22 * 2 ^ 29)
            else if expo = 0 then
              (if frac = 0 then 0
               else (bit_length frac + 873) * 2 ^ 52 + (frac * 2 ^ (53 - bit_length frac) - 2 ^ 52))
            else (expo + 896) * 2 ^ 52 + frac * 2 ^ 29)))"

text \<open>\<open>(float)\<close> of an \<open>int\<close>.\<close>

definition int_to_float :: "u32 \<Rightarrow> u32" where
  "int_to_float v = of_nat (sign_bit (sint v < 0) + ieee_round (nat \<bar>sint v\<bar>) 0)"

text \<open>\<open>(int)\<close> of a \<open>float\<close>: towards zero; undefined where the value does not fit.\<close>

definition float_to_int :: "u32 \<Rightarrow> u32 option" where
  "float_to_int v =
     (let expo = eff_exponent v; m = uint (significand v);
          mag = (if expo \<ge> 150 then m * 2 ^ nat (expo - 150) else m div 2 ^ nat (150 - expo));
          i = (if bit v 31 then - mag else mag)
      in if f_exponent v = 255 \<or> i < - (2 ^ 31) \<or> i \<ge> 2 ^ 31 then None else Some (word_of_int i))"

text \<open>\<open>a < b\<close>: the order of the sign-magnitude integers, except on a NaN.\<close>

definition float_nan :: "u32 \<Rightarrow> bool" where
  "float_nan v \<longleftrightarrow> f_exponent v = 255 \<and> f_fraction v \<noteq> 0"

definition float_key :: "u32 \<Rightarrow> int" where
  "float_key v = (let mag = uint (bf_get 0 31 v) in if bit v 31 then - mag else mag)"

definition float_less :: "u32 \<Rightarrow> u32 \<Rightarrow> bool" where
  "float_less a b \<longleftrightarrow> \<not> float_nan a \<and> \<not> float_nan b \<and> float_key a < float_key b"

section \<open>The register stack\<close>

definition st_idx :: "machine \<Rightarrow> u32 \<Rightarrow> nat" where
  "st_idx s idx = unat ((of_nat (st_top s) + idx) mod 8)"

definition set_st :: "nat \<Rightarrow> u32 \<Rightarrow> machine \<Rightarrow> machine" where
  "set_st i v s = s\<lparr>regStack := (regStack s)(i := v)\<rparr>"

definition fpu_load :: "u32 \<Rightarrow> machine \<Rightarrow> machine" where
  "fpu_load val s =
     (let s = put_top (if st_top s = 0 then 7 else st_top s - 1) s
      in set_st (st_top s) val s)"

definition fpu_store :: "machine \<Rightarrow> u32 \<times> machine" where
  "fpu_store s = (regStack s (st_top s), put_top ((st_top s + 1) mod 8) s)"

definition fpu_peek :: "machine \<Rightarrow> u32" where "fpu_peek s = regStack s (st_top s)"

definition fpu_add :: "u32 \<Rightarrow> machine \<Rightarrow> machine" where
  "fpu_add val s = set_st (st_top s) (internal_float_add val (regStack s (st_top s))) s"

definition fpu_add_idx :: "u32 \<Rightarrow> u32 \<Rightarrow> machine \<Rightarrow> machine" where
  "fpu_add_idx idx store_idx s =
     (let a = regStack s (st_top s); b = regStack s (st_idx s idx)
      in set_st (st_idx s store_idx) (internal_float_add b a) s)"

definition fpu_sub :: "u32 \<Rightarrow> machine \<Rightarrow> machine" where
  "fpu_sub val s = set_st (st_top s) (internal_float_sub val (regStack s (st_top s))) s"

definition fpu_mul :: "u32 \<Rightarrow> machine \<Rightarrow> machine" where
  "fpu_mul val s = set_st (st_top s) (internal_float_mul val (regStack s (st_top s))) s"

definition fpu_mul_idx :: "u32 \<Rightarrow> u32 \<Rightarrow> machine \<Rightarrow> machine" where
  "fpu_mul_idx idx store_idx s =
     (let a = regStack s (st_top s); b = regStack s (st_idx s idx)
      in set_st (st_idx s store_idx) (internal_float_mul b a) s)"

definition fpu_div :: "u32 \<Rightarrow> machine \<Rightarrow> machine option" where
  "fpu_div val s = do {
     v \<leftarrow> internal_float_div val (regStack s (st_top s));
     Some (set_st (st_top s) v s)
   }"

definition fpu_xch :: "u32 \<Rightarrow> machine \<Rightarrow> machine" where
  "fpu_xch idx s =
     (let i = st_idx s idx; temp = regStack s (st_top s);
          s = set_st (st_top s) (regStack s i) s
      in set_st i temp s)"

definition fpu_copy :: "u32 \<Rightarrow> machine \<Rightarrow> machine" where
  "fpu_copy idx s = set_st (st_idx s idx) (regStack s (st_top s)) s"

definition fpu_cmp :: "u32 \<Rightarrow> machine \<Rightarrow> machine" where
  "fpu_cmp idx s =
     (let a = regStack s (st_top s); b = regStack s (st_idx s idx)
      in if float_less b a then put_c023 False False False s
         else if float_less a b then put_c023 True False False s
         else put_c023 False False True s)"

definition put_zpc :: "bool \<Rightarrow> bool \<Rightarrow> bool \<Rightarrow> machine \<Rightarrow> machine" where
  "put_zpc z p c s = s\<lparr>eflags := put_ZF z (put_PF p (put_CF c (eflags s)))\<rparr>"

definition fpu_cmpi :: "u32 \<Rightarrow> machine \<Rightarrow> machine" where
  "fpu_cmpi idx s =
     (let a = regStack s (st_top s); b = regStack s (st_idx s idx)
      in if float_less b a then put_zpc False False False s
         else if float_less a b then put_zpc False False True s
         else put_zpc True False False s)"

end
