(* ===== verification/X87.thy ===== *)
theory X87
  imports Fpu Instr_Arith
begin

text \<open>
  The floating-point instructions, \<open>nemu/src/cpu/instr/x87.c\<close>. A handler whose second byte is a
  register form (\<open>0xC0\<close> to \<open>0xC7\<close> and the like) works on the register stack; any other byte is a
  ModR/M byte of a memory operand.
\<close>

text \<open>
  What the memory forms share: decode \<open>opr_src\<close> and read it; read the two halves of a \<open>double\<close>;
  decode \<open>opr_dest\<close>; write the two halves of a \<open>double\<close>.
\<close>

definition x87_read_src :: "nat \<Rightarrow> u32 \<Rightarrow> machine \<Rightarrow> (u32 \<times> machine) option" where
  "x87_read_src n pc s = do {
     (k, src) \<leftarrow> modrm_rm (pc + 1) ((opr_src s)\<lparr>o_size := n\<rparr>) s;
     s \<leftarrow> read_src (s\<lparr>opr_src := src\<rparr>);
     Some (1 + k, s)
   }"

definition x87_read_double :: "u32 \<Rightarrow> machine \<Rightarrow> (u32 \<times> u64 \<times> machine) option" where
  "x87_read_double pc s = do {
     (len, s) \<leftarrow> x87_read_src 32 pc s;
     let lo = o_val (opr_src s);
     s \<leftarrow> read_src (s\<lparr>opr_src := (opr_src s)\<lparr>o_addr := o_addr (opr_src s) + 4\<rparr>\<rparr>);
     let hi = o_val (opr_src s);
     Some (len, push_bit 32 (ucast hi) OR ucast lo, s)
   }"

definition x87_dest :: "nat \<Rightarrow> u32 \<Rightarrow> machine \<Rightarrow> (u32 \<times> machine) option" where
  "x87_dest n pc s = do {
     (k, dest) \<leftarrow> modrm_rm (pc + 1) ((opr_dest s)\<lparr>o_size := n\<rparr>) s;
     Some (1 + k, s\<lparr>opr_dest := dest\<rparr>)
   }"

definition x87_write_double :: "u64 \<Rightarrow> machine \<Rightarrow> machine option" where
  "x87_write_double d s = do {
     s \<leftarrow> write_dest (ucast d) s;
     write_dest (ucast (drop_bit 32 d)) (s\<lparr>opr_dest := (opr_dest s)\<lparr>o_addr := o_addr (opr_dest s) + 4\<rparr>\<rparr>)
   }"

text \<open>The register number of a register form whose second bytes start at \<open>first\<close>.\<close>

definition st_form :: "u32 \<Rightarrow> u32 \<Rightarrow> bool" where
  "st_form first b \<longleftrightarrow> first \<le> b \<and> b \<le> first + 7"

section \<open>Loads\<close>

definition x87_fldl :: instr_func where
  "x87_fldl pc opcode s = do {
     (len, d, s) \<leftarrow> x87_read_double pc s;
     Some (len, fpu_load (double_to_float d) s)
   }"

definition x87_flds :: instr_func where
  "x87_flds pc opcode s = do {
     (len, s) \<leftarrow> x87_read_src 32 pc s;
     Some (len, fpu_load (o_val (opr_src s)) s)
   }"

definition x87_fildl :: instr_func where
  "x87_fildl pc opcode s = do {
     (len, s) \<leftarrow> x87_read_src 32 pc s;
     Some (len, fpu_load (int_to_float (o_val (opr_src s))) s)
   }"

definition x87_fldx :: instr_func where
  "x87_fldx pc opcode s = do {
     b \<leftarrow> instr_fetch s (pc + 1) 1;
     if b = 0xE8 then Some (2, fpu_load 0x3f800000 s)
     else if 0xE9 \<le> b \<and> b \<le> 0xED then None
     else if b = 0xEE then Some (2, fpu_load 0 s)
     else do {
       (len, s) \<leftarrow> x87_dest 16 pc s;
       s \<leftarrow> read_dest s;
       Some (len, s\<lparr>fpu_control := ucast (o_val (opr_dest s))\<rparr>)
     }
   }"

section \<open>Arithmetic\<close>

definition x87_fadds :: instr_func where
  "x87_fadds pc opcode s = do {
     b \<leftarrow> instr_fetch s (pc + 1) 1;
     if st_form 0xC0 b then Some (2, fpu_add_idx (b AND 7) 0 s)
     else do {
       (len, s) \<leftarrow> x87_read_src 32 pc s;
       Some (len, fpu_add (o_val (opr_src s)) s)
     }
   }"

definition x87_faddx :: instr_func where
  "x87_faddx pc opcode s = do {
     b \<leftarrow> instr_fetch s (pc + 1) 1;
     if st_form 0xC0 b then Some (2, snd (fpu_store (fpu_add_idx (b AND 7) (b AND 7) s)))
     else do {
       (len, s) \<leftarrow> x87_read_src 16 pc s;
       Some (len, fpu_add (int_to_float (o_val (opr_src s))) s)
     }
   }"

definition x87_faddlx :: instr_func where
  "x87_faddlx pc opcode s = do {
     b \<leftarrow> instr_fetch s (pc + 1) 1;
     if st_form 0xC0 b then Some (2, fpu_add_idx (b AND 7) (b AND 7) s)
     else do {
       (len, d, s) \<leftarrow> x87_read_double pc s;
       Some (len, fpu_add (double_to_float d) s)
     }
   }"

definition x87_fsubs :: instr_func where
  "x87_fsubs pc opcode s = do {
     (len, s) \<leftarrow> x87_read_src 32 pc s;
     Some (len, fpu_sub (o_val (opr_src s)) s)
   }"

definition x87_fmuls :: instr_func where
  "x87_fmuls pc opcode s = do {
     (len, s) \<leftarrow> x87_read_src 32 pc s;
     Some (len, fpu_mul (o_val (opr_src s)) s)
   }"

definition x87_fmullx :: instr_func where
  "x87_fmullx pc opcode s = do {
     b \<leftarrow> instr_fetch s (pc + 1) 1;
     if st_form 0xC8 b then Some (2, fpu_mul_idx (b AND 7) (b AND 7) s)
     else do {
       (len, d, s) \<leftarrow> x87_read_double pc s;
       Some (len, fpu_mul (double_to_float d) s)
     }
   }"

definition x87_fdivs :: instr_func where
  "x87_fdivs pc opcode s = do {
     (len, s) \<leftarrow> x87_read_src 32 pc s;
     s \<leftarrow> fpu_div (o_val (opr_src s)) s;
     Some (len, s)
   }"

section \<open>Stores and exchanges\<close>

definition x87_fstps :: instr_func where
  "x87_fstps pc opcode s = do {
     (len, s) \<leftarrow> x87_dest 32 pc s;
     let (v, s) = fpu_store s;
     s \<leftarrow> write_dest v s;
     Some (len, s)
   }"

definition x87_fsts :: instr_func where
  "x87_fsts pc opcode s = do {
     (len, s) \<leftarrow> x87_dest 32 pc s;
     s \<leftarrow> write_dest (fpu_peek s) s;
     Some (len, s)
   }"

definition x87_fstpx :: instr_func where
  "x87_fstpx pc opcode s = do {
     b \<leftarrow> instr_fetch s (pc + 1) 1;
     if st_form 0xD8 b then Some (2, snd (fpu_store (fpu_copy (b AND 7) s)))
     else do {
       (len, s) \<leftarrow> x87_dest 32 pc s;
       let (v, s) = fpu_store s;
       s \<leftarrow> x87_write_double (float_to_double v) s;
       Some (len, s)
     }
   }"

definition x87_fstx :: instr_func where
  "x87_fstx pc opcode s = do {
     b \<leftarrow> instr_fetch s (pc + 1) 1;
     if st_form 0xD0 b then Some (2, fpu_copy (b AND 7) s)
     else do {
       (len, s) \<leftarrow> x87_dest 32 pc s;
       s \<leftarrow> x87_write_double (float_to_double (fpu_peek s)) s;
       Some (len, s)
     }
   }"

definition x87_fxch :: instr_func where
  "x87_fxch pc opcode s = do {
     b \<leftarrow> instr_fetch s (pc + 1) 1;
     Some (2, fpu_xch (b AND 7) s)
   }"

definition x87_fistpl :: instr_func where
  "x87_fistpl pc opcode s = do {
     (len, s) \<leftarrow> x87_dest 32 pc s;
     let (u, s) = fpu_store s;
     i \<leftarrow> float_to_int u;
     s \<leftarrow> write_dest i s;
     Some (len, s)
   }"

section \<open>Comparisons\<close>

definition x87_fucompp :: instr_func where
  "x87_fucompp pc opcode s = Some (2, snd (fpu_store (snd (fpu_store (fpu_cmp 1 s)))))"

definition x87_fucom :: instr_func where
  "x87_fucom pc opcode s = do { b \<leftarrow> instr_fetch s (pc + 1) 1; Some (2, fpu_cmp (b AND 7) s) }"

definition x87_fucomi :: instr_func where
  "x87_fucomi pc opcode s = do { b \<leftarrow> instr_fetch s (pc + 1) 1; Some (2, fpu_cmpi (b AND 7) s) }"

definition x87_fcomi :: instr_func where "x87_fcomi pc opcode s = x87_fucomi pc opcode s"

definition x87_fucomip :: instr_func where
  "x87_fucomip pc opcode s = do {
     b \<leftarrow> instr_fetch s (pc + 1) 1;
     Some (2, snd (fpu_store (fpu_cmpi (b AND 7) s)))
   }"

definition x87_fcomip :: instr_func where "x87_fcomip pc opcode s = x87_fucomip pc opcode s"

definition x87_fucomp :: instr_func where
  "x87_fucomp pc opcode s = do {
     b \<leftarrow> instr_fetch s (pc + 1) 1;
     Some (2, snd (fpu_store (fpu_cmp (b AND 7) s)))
   }"

section \<open>Status and control\<close>

definition x87_fnstsw :: instr_func where
  "x87_fnstsw pc opcode s = Some (2, set_gpr 0 (put_gpr_16 (fpu_status s) (eax s)) s)"

definition x87_fnstcw :: instr_func where
  "x87_fnstcw pc opcode s = do {
     (len, s) \<leftarrow> x87_dest 16 pc s;
     s \<leftarrow> write_dest (ucast (fpu_control s)) s;
     Some (len, s)
   }"

end
