(* ===== verification/Opcode.thy ===== *)
theory Opcode
  imports Instr_Control X87
begin

text \<open>
  Instruction dispatch: the tables of \<open>nemu/src/cpu/decode/opcode.c\<close>, the groups of
  \<open>instr/group.c\<close>, and the prefixes of \<open>data_size.c\<close>, \<open>opcode_2_byte.c\<close> and \<open>rep_repe.c\<close>. A
  table holds the handlers in the order of the source; a conditional instruction is its shared
  handler at the condition. Handlers that call back into \<open>opcode_entry\<close> take the function that
  runs an entry as an argument.
\<close>

section \<open>Groups\<close>

text \<open>
  \<open>make_group_impl\<close>: the opcode field of the ModR/M byte selects the handler, which gets that
  field as its opcode.
\<close>

definition make_group_impl :: "instr_func list \<Rightarrow> instr_func" where
  "make_group_impl entries pc opcode s = do {
     (n, op_code) \<leftarrow> modrm_opcode (pc + 1) s;
     (entries ! unat op_code) pc op_code s
   }"

definition group_1_b_entry :: "instr_func list" where
  "group_1_b_entry = [
    add_80, or_i2rm_b, adc_i2rm_b, sbb_i2rm_b,
    and_80, sub_80, xor_i2rm_b, cmp_80]"

definition group_1_v_entry :: "instr_func list" where
  "group_1_v_entry = [
    add_81, or_i2rm_v, adc_i2rm_v, sbb_i2rm_v,
    and_81, sub_81, xor_i2rm_v, cmp_81]"

definition group_1_bv_entry :: "instr_func list" where
  "group_1_bv_entry = [
    add_83, or_i2rm_bv, adc_i2rm_bv, sbb_i2rm_bv,
    and_83, sub_83, xor_i2rm_bv, cmp_83]"

definition group_2_b_entry :: "instr_func list" where
  "group_2_b_entry = [
    inv, inv, inv, inv,
    shl_i2rm_b, shr_i2rm_b, inv, sar_i2rm_b]"

definition group_2_v_entry :: "instr_func list" where
  "group_2_v_entry = [
    inv, inv, inv, inv,
    shl_i2rm_bv, shr_i2rm_bv, inv, sar_i2rm_bv]"

definition group_2_1b_entry :: "instr_func list" where
  "group_2_1b_entry = [
    inv, inv, inv, inv,
    shl_rm_b, shr_rm_b, inv, sar_rm_b]"

definition group_2_1v_entry :: "instr_func list" where
  "group_2_1v_entry = [
    inv, inv, inv, inv,
    shl_rm_v, shr_rm_v, inv, sar_rm_v]"

definition group_2_cb_entry :: "instr_func list" where
  "group_2_cb_entry = [
    inv, inv, inv, inv,
    shl_c2rm_b, inv, shr_c2rm_b, sar_c2rm_b]"

definition group_2_cv_entry :: "instr_func list" where
  "group_2_cv_entry = [
    inv, inv, inv, inv,
    shl_c2rm_bv, inv, shr_c2rm_bv, sar_c2rm_bv]"

definition group_3_b_entry :: "instr_func list" where
  "group_3_b_entry = [
    test_f6, inv, not_rm_b, neg_rm_b,
    mul_rm2a_b, imul_f6, div_rm2a_b, idiv_f6]"

definition group_3_v_entry :: "instr_func list" where
  "group_3_v_entry = [
    test_f7, inv, not_rm_v, neg_rm_v,
    mul_rm2a_v, imul_f7, div_rm2a_v, idiv_f7]"

definition group_4_entry :: "instr_func list" where
  "group_4_entry = [
    inc_fe, dec_fe, inv, inv,
    inv, inv, inv, inv]"

definition group_5_indirect_entry :: "instr_func list" where
  "group_5_indirect_entry = [
    inc_ff, dec_ff, call_ff_2, call_ff_3,
    jmp_near_indirect, inv, push_ff, inv]"

definition group_7_entry :: "instr_func list" where
  "group_7_entry = [
    inv, inv, lgdt, lidt,
    inv, inv, inv, inv]"

definition group_x87_d8_entry :: "instr_func list" where
  "group_x87_d8_entry = [
    x87_fadds, x87_fmuls, inv, inv,
    x87_fsubs, inv, x87_fdivs, inv]"

definition group_x87_d9_entry :: "instr_func list" where
  "group_x87_d9_entry = [
    x87_flds, x87_fxch, x87_fsts, x87_fstps,
    inv, x87_fldx, inv, x87_fnstcw]"

definition group_x87_da_entry :: "instr_func list" where
  "group_x87_da_entry = [
    inv, inv, inv, inv,
    inv, x87_fucompp, inv, inv]"

definition group_x87_db_entry :: "instr_func list" where
  "group_x87_db_entry = [
    x87_fildl, inv, inv, x87_fistpl,
    inv, x87_fucomi, x87_fcomi, inv]"

definition group_x87_dc_entry :: "instr_func list" where
  "group_x87_dc_entry = [
    x87_faddlx, x87_fmullx, inv, inv,
    inv, inv, inv, inv]"

definition group_x87_dd_entry :: "instr_func list" where
  "group_x87_dd_entry = [
    x87_fldl, inv, x87_fstx, x87_fstpx,
    x87_fucom, x87_fucomp, inv, inv]"

definition group_x87_de_entry :: "instr_func list" where
  "group_x87_de_entry = [
    x87_faddx, inv, inv, inv,
    inv, inv, inv, inv]"

definition group_x87_df_entry :: "instr_func list" where
  "group_x87_df_entry = [
    inv, inv, inv, inv,
    x87_fnstsw, x87_fucomip, x87_fcomip, inv]"

lemmas group_entry_defs =
  group_1_b_entry_def group_1_v_entry_def group_1_bv_entry_def group_2_b_entry_def group_2_v_entry_def group_2_1b_entry_def group_2_1v_entry_def group_2_cb_entry_def group_2_cv_entry_def group_3_b_entry_def group_3_v_entry_def group_4_entry_def group_5_indirect_entry_def group_7_entry_def group_x87_d8_entry_def group_x87_d9_entry_def group_x87_da_entry_def group_x87_db_entry_def group_x87_dc_entry_def group_x87_dd_entry_def group_x87_de_entry_def group_x87_df_entry_def

definition group_1_b :: instr_func where "group_1_b = make_group_impl group_1_b_entry"
definition group_1_v :: instr_func where "group_1_v = make_group_impl group_1_v_entry"
definition group_1_bv :: instr_func where "group_1_bv = make_group_impl group_1_bv_entry"
definition group_2_b :: instr_func where "group_2_b = make_group_impl group_2_b_entry"
definition group_2_v :: instr_func where "group_2_v = make_group_impl group_2_v_entry"
definition group_2_1b :: instr_func where "group_2_1b = make_group_impl group_2_1b_entry"
definition group_2_1v :: instr_func where "group_2_1v = make_group_impl group_2_1v_entry"
definition group_2_cb :: instr_func where "group_2_cb = make_group_impl group_2_cb_entry"
definition group_2_cv :: instr_func where "group_2_cv = make_group_impl group_2_cv_entry"
definition group_3_b :: instr_func where "group_3_b = make_group_impl group_3_b_entry"
definition group_3_v :: instr_func where "group_3_v = make_group_impl group_3_v_entry"
definition group_4 :: instr_func where "group_4 = make_group_impl group_4_entry"
definition group_5_indirect :: instr_func where "group_5_indirect = make_group_impl group_5_indirect_entry"
definition group_7 :: instr_func where "group_7 = make_group_impl group_7_entry"
definition group_x87_d8 :: instr_func where "group_x87_d8 = make_group_impl group_x87_d8_entry"
definition group_x87_d9 :: instr_func where "group_x87_d9 = make_group_impl group_x87_d9_entry"
definition group_x87_da :: instr_func where "group_x87_da = make_group_impl group_x87_da_entry"
definition group_x87_db :: instr_func where "group_x87_db = make_group_impl group_x87_db_entry"
definition group_x87_dc :: instr_func where "group_x87_dc = make_group_impl group_x87_dc_entry"
definition group_x87_dd :: instr_func where "group_x87_dd = make_group_impl group_x87_dd_entry"
definition group_x87_de :: instr_func where "group_x87_de = make_group_impl group_x87_de_entry"
definition group_x87_df :: instr_func where "group_x87_df = make_group_impl group_x87_df_entry"

section \<open>Two-byte opcodes\<close>

definition opcode_2_byte_entry :: "instr_func list" where
  "opcode_2_byte_entry = [
    inv, group_7, inv, inv,
    inv, inv, inv, inv,
    inv, inv, inv, inv,
    inv, inv, inv, inv,
    inv, inv, inv, inv,
    inv, inv, inv, inv,
    inv, inv, inv, inv,
    inv, inv, inv, inv,
    mov_from_cr, inv, mov_to_cr, inv,
    inv, inv, inv, inv,
    inv, inv, inv, inv,
    inv, inv, inv, inv,
    inv, inv, inv, inv,
    inv, inv, inv, inv,
    inv, inv, inv, inv,
    inv, inv, inv, inv,
    inv, cmov_cc condition_no, cmov_cc condition_b, cmov_cc condition_ae,
    cmov_cc condition_e, cmov_cc condition_ne, cmov_cc condition_be, cmov_cc condition_a,
    cmov_cc condition_s, cmov_cc condition_ns, cmov_cc condition_p, cmov_cc condition_np,
    cmov_cc condition_l, cmov_cc condition_ge, cmov_cc condition_le, cmov_cc condition_g,
    inv, inv, inv, inv,
    inv, inv, inv, inv,
    inv, inv, inv, inv,
    inv, inv, inv, inv,
    inv, inv, inv, inv,
    inv, inv, inv, inv,
    inv, inv, inv, inv,
    inv, inv, inv, inv,
    inv, inv, inv, inv,
    inv, inv, inv, inv,
    inv, inv, inv, inv,
    inv, inv, inv, inv,
    jcc sf_near condition_o, jcc sf_near condition_no, jcc sf_near condition_b, jcc sf_near condition_ae,
    jcc sf_near condition_e, jcc sf_near condition_ne, jcc sf_near condition_na, jcc sf_near condition_a,
    jcc sf_near condition_s, jcc sf_near condition_ns, jcc sf_near condition_p, jcc sf_near condition_np,
    jcc sf_near condition_l, jcc sf_near condition_ge, jcc sf_near condition_le, jcc sf_near condition_g,
    inv, inv, setcc condition_c, setcc condition_ae,
    setcc condition_e, setcc condition_ne, setcc condition_be, setcc condition_a,
    setcc condition_s, setcc condition_ns, setcc condition_p, setcc condition_np,
    setcc condition_l, setcc condition_ge, setcc condition_le, setcc condition_g,
    push_fs, inv, inv, bt_r2rm_v,
    inv, inv, inv, inv,
    push_gs, inv, inv, inv,
    inv, inv, inv, imul_0faf,
    inv, inv, inv, inv,
    inv, inv, mov_zrm82r_v, mov_zrm162r_l,
    inv, inv, inv, inv,
    inv, inv, mov_srm82r_v, mov_srm162r_l,
    inv, inv, inv, inv,
    inv, inv, inv, inv,
    inv, inv, inv, inv,
    inv, inv, inv, inv,
    inv, inv, inv, inv,
    inv, inv, inv, inv,
    inv, inv, inv, inv,
    inv, inv, inv, inv,
    inv, inv, inv, inv,
    inv, inv, inv, inv,
    inv, inv, inv, inv,
    inv, inv, inv, inv,
    inv, inv, inv, inv,
    inv, inv, inv, inv,
    inv, inv, inv, inv,
    inv, inv, inv, inv]"

definition opcode_2_byte :: instr_func where
  "opcode_2_byte pc opcode s = do {
     let s = s\<lparr>has_prefix := True\<rparr>;
     b \<leftarrow> instr_fetch s (pc + 1) 1;
     let op = ucast b;
     (n, s) \<leftarrow> (opcode_2_byte_entry ! unat op) (pc + 1) op s;
     Some (1 + n, s\<lparr>has_prefix := False\<rparr>)
   }"

section \<open>Prefixes\<close>

definition data_size_16 :: "instr_func \<Rightarrow> instr_func" where
  "data_size_16 entry pc opcode s = do {
     let s = s\<lparr>data_size := 16, has_prefix := True\<rparr>;
     b \<leftarrow> instr_fetch s (pc + 1) 1;
     let op_code = ucast b;
     (len, s) \<leftarrow> entry (pc + 1) op_code s;
     Some (1 + len, s\<lparr>data_size := 32, has_prefix := False\<rparr>)
   }"

text \<open>
  The loop of \<open>rep\<close>, over one execution of the repeated instruction; it may run forever, if that
  instruction writes \<open>ecx\<close>. The four string comparisons leave it when \<open>ZF\<close> is 1.
\<close>

definition rep_stops :: "u8 \<Rightarrow> machine \<Rightarrow> bool" where
  "rep_stops op s \<longleftrightarrow> (op = 0xA6 \<or> op = 0xA7 \<or> op = 0xAE \<or> op = 0xAF) \<and> ZF (eflags s)"

partial_function (option) rep_loop :: "(machine \<Rightarrow> machine option) \<Rightarrow> u8 \<Rightarrow> machine \<Rightarrow> machine option" where
  [code]: "rep_loop run op s =
     (if ecx s \<noteq> 0 then do {
        s \<leftarrow> run s;
        let s = set_gpr 1 (ecx s - 1) s;
        if rep_stops op s then Some s else rep_loop run op s
      }
      else Some s)"

definition rep_repe :: "instr_func \<Rightarrow> instr_func" where
  "rep_repe entry pc opcode s = do {
     b \<leftarrow> instr_fetch s (pc + 1) 1;
     let op = ucast b;
     if op = 0xc3 then do {
       (n, s) \<leftarrow> entry (pc + 1) op s;
       Some (0, s)
     }
     else do {
       s \<leftarrow> rep_loop (\<lambda>s. map_option snd (entry (pc + 1) op s)) op s;
       Some (1 + 1, s)
     }
   }"

section \<open>One-byte opcodes\<close>

definition opcode_entry :: "instr_func \<Rightarrow> instr_func list" where
  "opcode_entry entry = [
    add_00, add_01, add_02, add_03,
    add_04, add_05, push_es, inv,
    or_r2rm_b, or_r2rm_v, or_rm2r_b, or_rm2r_v,
    or_i2a_b, or_i2a_v, push_cs, opcode_2_byte,
    adc_r2rm_b, adc_r2rm_v, adc_rm2r_b, adc_rm2r_v,
    adc_i2a_b, adc_i2a_v, push_ss, inv,
    sbb_r2rm_b, sbb_r2rm_v, sbb_rm2r_b, sbb_rm2r_v,
    sbb_i2a_b, sbb_i2a_v, push_ds, inv,
    and_20, and_21, and_22, and_23,
    and_24, and_25, inv, inv,
    sub_28, sub_29, sub_2a, sub_2b,
    sub_2c, sub_2d, inv, inv,
    xor_r2rm_b, xor_r2rm_v, xor_rm2r_b, xor_rm2r_v,
    xor_i2a_b, xor_i2a_v, inv, inv,
    cmp_38, cmp_39, cmp_3a, cmp_3b,
    cmp_3c, cmp_3d, inv, inv,
    inc_40, inc_40, inc_40, inc_40,
    inc_40, inc_40, inc_40, inc_40,
    dec_48, dec_48, dec_48, dec_48,
    dec_48, dec_48, dec_48, dec_48,
    push_50, push_50, push_50, push_50,
    push_50, push_50, push_50, push_50,
    pop_58, pop_58, pop_58, pop_58,
    pop_58, pop_58, pop_58, pop_58,
    pusha, popa, inv, inv,
    inv, inv, data_size_16 entry, inv,
    push_68, imul_69, push_6a, imul_6b,
    inv, inv, inv, inv,
    inv, jcc sf_short condition_no, jcc sf_short condition_b, jcc sf_short condition_ae,
    jcc sf_short condition_e, jcc sf_short condition_ne, jcc sf_short condition_na, jcc sf_short condition_a,
    jcc sf_short condition_s, jcc sf_short condition_ns, inv, inv,
    jcc sf_short condition_l, jcc sf_short condition_ge, jcc sf_short condition_le, jcc sf_short condition_g,
    group_1_b, group_1_v, nemu_trap, group_1_bv,
    test_84, test_85, inv, inv,
    mov_r2rm_b, mov_r2rm_v, mov_rm2r_b, mov_rm2r_v,
    mov_8c, lea_8d, mov_8e, pop_8f,
    nop, inv, inv, inv,
    inv, inv, inv, inv,
    cbw_a_v, cltd, inv, inv,
    inv, inv, sahf, inv,
    mov_o2a_b, mov_o2a_v, mov_a2o_b, mov_a2o_v,
    movs_b, movs_v, cmps_b, cmps_v,
    test_a8, test_a9, stos_b, stos_v,
    inv, inv, inv, inv,
    mov_i2r_b, mov_i2r_b, mov_i2r_b, mov_i2r_b,
    mov_i2r_b, mov_i2r_b, mov_i2r_b, mov_i2r_b,
    mov_i2r_v, mov_i2r_v, mov_i2r_v, mov_i2r_v,
    mov_i2r_v, mov_i2r_v, mov_i2r_v, mov_i2r_v,
    group_2_b, group_2_v, ret_c2, ret_c3,
    inv, inv, mov_i2rm_b, mov_i2rm_v,
    inv, leave_c9, inv, inv,
    int_3, int_imm, into, iret,
    group_2_1b, group_2_1v, group_2_cb, group_2_cv,
    inv, inv, inv, inv,
    group_x87_d8, group_x87_d9, group_x87_da, group_x87_db,
    group_x87_dc, group_x87_dd, group_x87_de, group_x87_df,
    inv, inv, inv, jcc sf_short condition_ecxz,
    in_e4, in_e5, out_e6, out_e7,
    call_e8, jmp_near, jmp_far, jmp_eb,
    in_ec, in_ed, out_ee, out_ef,
    inv, break_point, inv, rep_repe entry,
    hlt, inv, group_3_b, group_3_v,
    clc, inv, cli, sti,
    cld, inv, group_4, group_5_indirect]"

text \<open>
  \<open>opcode_entry[op](eip, op)\<close>. The prefixes recurse into the table, one level for each prefix byte,
  without a bound in the source: a depth that exceeds the fuel \<open>d\<close> stands for the overflow of the
  host's stack. An instruction without these prefixes needs fuel 1.
\<close>

fun exec_opcode :: "nat \<Rightarrow> instr_func" where
  "exec_opcode 0 pc op s = None"
| "exec_opcode (Suc d) pc op s = (opcode_entry (exec_opcode d) ! unat op) pc op s"

lemma length_opcode_entry [simp]: "length (opcode_entry entry) = 256"
  by (simp add: opcode_entry_def)

lemma length_opcode_2_byte_entry [simp]: "length opcode_2_byte_entry = 256"
  by (simp add: opcode_2_byte_entry_def)

end
