(* ===== verification/Breakpoint.thy ===== *)
theory Breakpoint
  imports Memory
begin

text \<open>
  The monitor's breakpoints and watchpoints: \<open>nemu/src/monitor/breakpoint.c\<close>, and \<open>expr\<close> of
  \<open>nemu/src/monitor/expr.c\<close>. The pool \<open>bp_list\<close> holds 32 nodes; the lists \<open>head\<close> (in use) and
  \<open>free_\<close> are linked through \<open>next\<close>. A pointer to a node is its number, \<open>None\<close> the null pointer. A
  breakpoint replaces the byte at its address by \<open>INT3_CODE\<close> and remembers the original.
\<close>

definition NR_BP :: nat where "NR_BP = 32"
definition INT3_CODE :: u32 where "INT3_CODE = 0xf1"

definition bp_at :: "machine \<Rightarrow> nat \<Rightarrow> BP" where "bp_at s i = bp_list (bps s) i"

definition upd_bp :: "nat \<Rightarrow> (BP \<Rightarrow> BP) \<Rightarrow> machine \<Rightarrow> machine" where
  "upd_bp i f s = s\<lparr>bps := (bps s)\<lparr>bp_list := (bp_list (bps s))(i := f (bp_list (bps s) i))\<rparr>\<rparr>"

definition set_head :: "nat option \<Rightarrow> machine \<Rightarrow> machine" where
  "set_head p s = s\<lparr>bps := (bps s)\<lparr>head := p\<rparr>\<rparr>"

definition set_free :: "nat option \<Rightarrow> machine \<Rightarrow> machine" where
  "set_free p s = s\<lparr>bps := (bps s)\<lparr>free_list := p\<rparr>\<rparr>"

section \<open>expr\<close>

text \<open>
  \<open>make_token\<close> matches runs of spaces and plus signs, one token each, and gives up at any other
  character; more than 32 tokens overflow the array. \<open>expr\<close> ignores its verdict.
\<close>

fun make_token :: "nat \<Rightarrow> string \<Rightarrow> bool option" where
  "make_token nr_token [] = Some True"
| "make_token nr_token (c # cs) =
     (if c = CHR '' '' then
        if nr_token \<ge> 32 then None
        else (case cs of
                [] \<Rightarrow> Some True
              | c' # _ \<Rightarrow> make_token (if c' = CHR '' '' then nr_token else nr_token + 1) cs)
      else if c = CHR ''+'' then if nr_token \<ge> 32 then None else make_token (nr_token + 1) cs
      else Some False)"

text \<open>
  \<open>strtol(e, NULL, 16)\<close> and, on a string that starts with \<open>0x\<close>, \<open>strtol(e, NULL, 0)\<close>, of the host's
  C library with a 32-bit \<open>long\<close>: out of range, the result is the nearest \<open>long\<close>.
\<close>

definition is_space :: "char \<Rightarrow> bool" where
  "is_space c \<longleftrightarrow> of_char c = (32::nat) \<or> (9::nat) \<le> of_char c \<and> of_char c \<le> (13::nat)"

definition hex_digit :: "char \<Rightarrow> nat option" where
  "hex_digit c =
     (let n = of_char c :: nat
      in if 48 \<le> n \<and> n \<le> 57 then Some (n - 48)
         else if 97 \<le> n \<and> n \<le> 102 then Some (n - 87)
         else if 65 \<le> n \<and> n \<le> 70 then Some (n - 55)
         else None)"

fun hex_value :: "nat \<Rightarrow> string \<Rightarrow> nat" where
  "hex_value acc [] = acc"
| "hex_value acc (c # cs) = (case hex_digit c of None \<Rightarrow> acc | Some d \<Rightarrow> hex_value (16 * acc + d) cs)"

definition skip_0x :: "string \<Rightarrow> string" where
  "skip_0x cs =
     (case cs of
        CHR ''0'' # x # d # ds \<Rightarrow>
          if (x = CHR ''x'' \<or> x = CHR ''X'') \<and> hex_digit d \<noteq> None then d # ds else cs
      | _ \<Rightarrow> cs)"

definition strtol_hex :: "string \<Rightarrow> int" where
  "strtol_hex e =
     (let e = dropWhile is_space e;
          (neg, e) = (case e of CHR ''-'' # r \<Rightarrow> (True, r) | CHR ''+'' # r \<Rightarrow> (False, r) | _ \<Rightarrow> (False, e));
          v = int (hex_value 0 (skip_0x e))
      in if neg then max (- v) (- (2 ^ 31)) else min v (2 ^ 31 - 1))"

definition expr :: "string \<Rightarrow> u32 option" where
  "expr e = do {
     ok \<leftarrow> make_token 0 e;
     Some (word_of_int (strtol_hex e))
   }"

section \<open>The pool\<close>

definition init_bp_list :: "machine \<Rightarrow> machine" where
  "init_bp_list s =
     (let nodes = (\<lambda>i. if i < NR_BP
            then (bp_at s i)\<lparr>NO := i, in_use := False, bp_next := if i = NR_BP - 1 then None else Some (i + 1)\<rparr>
            else bp_at s i)
      in s\<lparr>bps := \<lparr>bp_list = nodes, head = None, free_list = Some 0\<rparr>\<rparr>)"

definition new_BP :: "machine \<Rightarrow> (nat \<times> machine) option" where
  "new_BP s =
     (case free_list (bps s) of
        None \<Rightarrow> None
      | Some p \<Rightarrow>
          let s = set_free (bp_next (bp_at s p)) s
          in if in_use (bp_at s p) then None
             else Some (p, upd_bp p (\<lambda>b. b\<lparr>in_use := True\<rparr>) s))"

definition free_BP :: "nat \<Rightarrow> machine \<Rightarrow> machine option" where
  "free_BP p s =
     (if \<not> p < NR_BP \<or> \<not> in_use (bp_at s p) then None
      else do {
        s \<leftarrow> (if bp_type (bp_at s p) = WATCHPOINT then Some s
             else vaddr_write s (bp_addr (bp_at s p)) SREG_CS 1 (ucast (ori_byte (bp_at s p))));
        let s = upd_bp p (\<lambda>b. b\<lparr>in_use := False, bp_next := free_list (bps s)\<rparr>) s;
        Some (set_free (Some p) s)
      })"

definition link_head :: "nat \<Rightarrow> machine \<Rightarrow> machine" where
  "link_head p s = set_head (Some p) (upd_bp p (\<lambda>b. b\<lparr>bp_next := head (bps s)\<rparr>) s)"

definition set_breakpoint :: "u32 \<Rightarrow> machine \<Rightarrow> (nat \<times> machine) option" where
  "set_breakpoint addr s = do {
     (p, s) \<leftarrow> new_BP s;
     let s = upd_bp p (\<lambda>b. b\<lparr>bp_type := BREAKPOINT, bp_addr := addr\<rparr>) s;
     v \<leftarrow> instr_fetch s addr 1;
     let s = upd_bp p (\<lambda>b. b\<lparr>ori_byte := ucast v\<rparr>) s;
     s \<leftarrow> vaddr_write s addr SREG_CS 1 INT3_CODE;
     let s = upd_bp p (\<lambda>b. b\<lparr>bp_enable := True\<rparr>) s;
     let s = link_head p s;
     Some (NO (bp_at s p), s)
   }"

definition set_watchpoint :: "string \<Rightarrow> machine \<Rightarrow> (nat \<times> machine) option" where
  "set_watchpoint e s = do {
     val \<leftarrow> expr e;
     (p, s) \<leftarrow> new_BP s;
     let s = upd_bp p (\<lambda>b. b\<lparr>bp_type := WATCHPOINT, bp_expr := e, old_val := val, bp_enable := True\<rparr>) s;
     let s = link_head p s;
     Some (NO (bp_at s p), s)
   }"

section \<open>The loops over a list\<close>

text \<open>\<open>for (p = head; p != NULL; p = p->next)\<close>, with a body that may change the machine.\<close>

partial_function (option) bp_walk ::
  "(nat \<Rightarrow> machine \<Rightarrow> machine option) \<Rightarrow> nat option \<Rightarrow> machine \<Rightarrow> machine option" where
  [code]: "bp_walk body p s =
     (case p of
        None \<Rightarrow> Some s
      | Some i \<Rightarrow> do { s \<leftarrow> body i s; bp_walk body (bp_next (bp_at s i)) s })"

text \<open>The search of \<open>delete_breakpoint\<close>: the node and its predecessor.\<close>

partial_function (option) find_NO ::
  "machine \<Rightarrow> nat \<Rightarrow> nat option \<Rightarrow> nat option \<Rightarrow> (nat option \<times> nat option) option" where
  [code]: "find_NO s no prev p =
     (case p of
        None \<Rightarrow> Some (prev, None)
      | Some i \<Rightarrow> if NO (bp_at s i) = no then Some (prev, p) else find_NO s no p (bp_next (bp_at s i)))"

definition delete_breakpoint :: "nat \<Rightarrow> machine \<Rightarrow> (bool \<times> machine) option" where
  "delete_breakpoint no s = do {
     (prev, p) \<leftarrow> find_NO s no None (head (bps s));
     (case p of
        None \<Rightarrow> Some (False, s)
      | Some i \<Rightarrow> do {
          let s = (case prev of
                     None \<Rightarrow> set_head (bp_next (bp_at s i)) s
                   | Some j \<Rightarrow> upd_bp j (\<lambda>b. b\<lparr>bp_next := bp_next (bp_at s i)\<rparr>) s);
          s \<leftarrow> free_BP i s;
          Some (True, s)
        })
   }"

partial_function (option) delete_all_breakpoint_recursively :: "nat option \<Rightarrow> machine \<Rightarrow> machine option" where
  [code]: "delete_all_breakpoint_recursively p s =
     (case p of
        None \<Rightarrow> Some s
      | Some i \<Rightarrow> do {
          s \<leftarrow> (if bp_next (bp_at s i) \<noteq> None
               then delete_all_breakpoint_recursively (bp_next (bp_at s i)) s else Some s);
          free_BP i s
        })"

definition delete_all_breakpoint :: "machine \<Rightarrow> machine option" where
  "delete_all_breakpoint s = do {
     s \<leftarrow> delete_all_breakpoint_recursively (head (bps s)) s;
     Some (set_head None s)
   }"

partial_function (option) find_bp_from :: "machine \<Rightarrow> u32 \<Rightarrow> nat option \<Rightarrow> nat option option" where
  [code]: "find_bp_from s addr p =
     (case p of
        None \<Rightarrow> Some None
      | Some i \<Rightarrow>
          if \<not> in_use (bp_at s i) then None
          else if bp_type (bp_at s i) = BREAKPOINT \<and> bp_addr (bp_at s i) = addr then Some p
          else find_bp_from s addr (bp_next (bp_at s i)))"

definition find_breakpoint :: "machine \<Rightarrow> u32 \<Rightarrow> nat option option" where
  "find_breakpoint s addr = find_bp_from s addr (head (bps s))"

definition resume_body :: "nat \<Rightarrow> machine \<Rightarrow> machine option" where
  "resume_body i s =
     (if \<not> in_use (bp_at s i) then None
      else if bp_type (bp_at s i) = BREAKPOINT then do {
        s \<leftarrow> vaddr_write s (bp_addr (bp_at s i)) SREG_CS 1 INT3_CODE;
        Some (upd_bp i (\<lambda>b. b\<lparr>bp_enable := True\<rparr>) s)
      }
      else Some s)"

definition resume_breakpoints :: "machine \<Rightarrow> machine option" where
  "resume_breakpoints s = bp_walk resume_body (head (bps s)) s"

definition mask_body :: "nat \<Rightarrow> machine \<Rightarrow> machine option" where
  "mask_body i s =
     (if \<not> in_use (bp_at s i) then None
      else if bp_type (bp_at s i) = BREAKPOINT
      then vaddr_write s (bp_addr (bp_at s i)) SREG_CS 1 (ucast (ori_byte (bp_at s i)))
      else Some s)"

definition mask_breakpoints :: "machine \<Rightarrow> machine option" where
  "mask_breakpoints s = bp_walk mask_body (head (bps s)) s"

partial_function (option) scan_from :: "nat option \<Rightarrow> machine \<Rightarrow> (nat option \<times> machine) option" where
  [code]: "scan_from p s =
     (case p of
        None \<Rightarrow> Some (None, s)
      | Some i \<Rightarrow>
          if \<not> in_use (bp_at s i) then None
          else if bp_type (bp_at s i) = WATCHPOINT then do {
            v \<leftarrow> expr (bp_expr (bp_at s i));
            let s = upd_bp i (\<lambda>b. b\<lparr>new_val := v\<rparr>) s;
            if old_val (bp_at s i) \<noteq> v then Some (p, s) else scan_from (bp_next (bp_at s i)) s
          }
          else scan_from (bp_next (bp_at s i)) s)"

definition scan_watchpoint :: "machine \<Rightarrow> (nat option \<times> machine) option" where
  "scan_watchpoint s = scan_from (head (bps s)) s"

end
