(* ===== verification/Cpu.thy ===== *)
theory Cpu
  imports Opcode Breakpoint
begin

text \<open>
  The processor's main loop, \<open>nemu/src/cpu/cpu.c\<close>: initialisation, one instruction, the interrupt
  check, and \<open>exec\<close> with its breakpoints, watchpoints and devices.
\<close>

definition init_cpu :: "u32 \<Rightarrow> machine \<Rightarrow> machine" where
  "init_cpu init_eip s =
     (let s = s\<lparr>eflags := 0, fpu_status := 0\<rparr>;
          s = s\<lparr>gpr := (\<lambda>i. if i < 8 then 0 else gpr s i), regStack := (\<lambda>i. if i < 8 then 0 else regStack s i)\<rparr>;
          s = s\<lparr>eip := init_eip\<rparr>;
          s = set_gpr 4 (push_bit 20 128 - 16) s;
          s = s\<lparr>cr0 := 0, gdtr_base := 0, gdtr_limit := 0\<rparr>;
          s = s\<lparr>segReg := (\<lambda>i. if i < 6 then SegReg0 else segReg s i)\<rparr>;
          s = s\<lparr>idtr_base := 0, idtr_limit := 0, intr := 0\<rparr>
      in i8259_init s)"

text \<open>\<open>exec_inst\<close>, with the depth of prefixes that the host's stack allows.\<close>

definition exec_inst :: "nat \<Rightarrow> machine \<Rightarrow> (u32 \<times> machine) option" where
  "exec_inst d s = do {
     b \<leftarrow> instr_fetch s (eip s) 1;
     exec_opcode d (eip s) (ucast b) s
   }"

definition do_intr :: "machine \<Rightarrow> machine option" where
  "do_intr s =
     (if intr s \<noteq> 0 \<and> IF (eflags s) then
        let s = s\<lparr>is_nemu_hlt := False\<rparr>;
            intr_no = i8259_query_intr_no s
        in if intr_no = I8259_NO_INTR then None
           else raise_intr intr_no (i8259_ack_intr s)
      else Some s)"

text \<open>
  What an iteration gets from the host: the three clock readings of \<open>do_devices\<close> and the events of
  the window.
\<close>

type_synonym host_input = "u64 \<times> u64 \<times> u64 \<times> SDL_Event list"

text \<open>
  The part of an iteration that runs an instruction. The result says whether a watchpoint was hit,
  which leaves the loop at once.
\<close>

definition check_breakpoint :: "machine \<Rightarrow> machine option" where
  "check_breakpoint s =
     (if nemu_st s = NEMU_BREAK then do {
        bp \<leftarrow> find_breakpoint s (eip s - 1);
        (case bp of
           None \<Rightarrow> Some s
         | Some i \<Rightarrow> do {
             s \<leftarrow> vaddr_write s (bp_addr (bp_at s i)) SREG_CS 1 (ucast (ori_byte (bp_at s i)));
             Some (s\<lparr>eip := eip s - 1\<rparr>)
           })
      }
      else Some s)"

definition check_watchpoint :: "machine \<Rightarrow> (bool \<times> machine) option" where
  "check_watchpoint s = do {
     (wp, s) \<leftarrow> scan_watchpoint s;
     (case wp of
        None \<Rightarrow> Some (False, s)
      | Some i \<Rightarrow>
          let s = upd_bp i (\<lambda>b. b\<lparr>old_val := new_val b\<rparr>) s
          in Some (True, s\<lparr>nemu_st := NEMU_READY\<rparr>))
   }"

definition run_instruction :: "nat \<Rightarrow> bool \<Rightarrow> machine \<Rightarrow> (bool \<times> machine) option" where
  "run_instruction d hit_break_rerun s = do {
     s \<leftarrow> do_intr s;
     (instr_len, s) \<leftarrow> exec_inst d s;
     let s = s\<lparr>eip := eip s + instr_len\<rparr>;
     s \<leftarrow> (if hit_break_rerun then resume_breakpoints s else Some s);
     s \<leftarrow> check_breakpoint s;
     check_watchpoint s
   }"

definition device_step :: "host_input \<Rightarrow> machine \<Rightarrow> machine option" where
  "device_step inp s = (case inp of (t1, t2, t3, events) \<Rightarrow> do {
     s \<leftarrow> do_devices t1 t2 t3 events s;
     do_intr s
   })"

text \<open>
  The loop of \<open>exec\<close>: \<open>k\<close> counts its iterations, which take their host input from \<open>env\<close>. A halted
  processor does not count \<open>n\<close> down, so the loop ends only when an interrupt wakes it.
\<close>

partial_function (option) exec_loop ::
  "nat \<Rightarrow> (nat \<Rightarrow> host_input) \<Rightarrow> nat \<Rightarrow> u32 \<Rightarrow> bool \<Rightarrow> machine \<Rightarrow> (u32 \<times> machine) option" where
  [code]: "exec_loop d env k n hit s =
     (if n > 0 \<and> nemu_st s = NEMU_RUN then
        if \<not> is_nemu_hlt s then do {
          (stop, s) \<leftarrow> run_instruction d hit s;
          if stop then Some (n - 1, s)
          else do {
            s \<leftarrow> device_step (env k) s;
            exec_loop d env (k + 1) (n - 1) False s
          }
        }
        else do {
          s \<leftarrow> device_step (env k) s;
          exec_loop d env (k + 1) n hit s
        }
      else Some (n, s))"

definition exec :: "nat \<Rightarrow> (nat \<Rightarrow> host_input) \<Rightarrow> u32 \<Rightarrow> machine \<Rightarrow> machine option" where
  "exec d env n s = do {
     let hit_break_rerun = (nemu_st s = NEMU_BREAK);
     let s = s\<lparr>nemu_st := NEMU_RUN\<rparr>;
     (n, s) \<leftarrow> exec_loop d env 0 n hit_break_rerun s;
     Some (if nemu_st s = NEMU_STOP then s
           else if n = 0 then s\<lparr>nemu_st := NEMU_READY\<rparr> else s)
   }"

end
