(* ===== verification/Interrupts.thy ===== *)
theory Interrupts
  imports Control_Correct Cpu
begin

text \<open>
  The interrupt controller as a state machine: requests of the devices, acknowledgements of the
  processor, and everything else. What the controller promises is a locale, a latch that keeps the
  most urgent request; the model of \<open>i8259_pic.c\<close> is its interpretation. Every operation of the
  devices, the port bus and the main loop that touches the controller is a run of the step relation.
\<close>

section \<open>The contract of a priority latch\<close>

locale priority_latch =
  fixes req :: "'i::linorder \<Rightarrow> 's \<Rightarrow> 's"
    and clear :: "'s \<Rightarrow> 's"
    and latched :: "'s \<Rightarrow> 'i option"
    and legal :: "'i \<Rightarrow> bool"
    and ok :: "'s \<Rightarrow> bool"
  assumes ok_req: "ok s \<Longrightarrow> legal i \<Longrightarrow> ok (req i s)"
    and ok_clear: "ok s \<Longrightarrow> ok (clear s)"
    and latched_req: "ok s \<Longrightarrow> legal i \<Longrightarrow>
      latched (req i s) = Some (case latched s of None \<Rightarrow> i | Some j \<Rightarrow> max i j)"
    and latched_clear: "latched (clear s) = None"
begin

lemma ok_reqs: "ok s \<Longrightarrow> list_all legal js \<Longrightarrow> ok (fold req js s)"
  by (induction js arbitrary: s) (auto simp: ok_req)

text \<open>However many requests arrive in whatever order: the largest since the last clearing is latched.\<close>

lemma latched_reqs:
  "ok s \<Longrightarrow> latched s = None \<Longrightarrow> list_all legal js \<Longrightarrow>
   latched (fold req js s) = (if js = [] then None else Some (Max (set js)))"
proof (induction js rule: rev_induct)
  case Nil
  then show ?case by simp
next
  case (snoc j js)
  have "ok (fold req js s)" using snoc by (simp add: ok_reqs)
  with snoc show ?case by (cases "js = []") (simp_all add: latched_req max.commute)
qed

end

section \<open>The i8259 as a latch\<close>

text \<open>The interrupt lines that the latch can tell from \<open>I8259_NO_INTR\<close>: 32 + 223 is 255 itself.\<close>

definition legal_irq :: "nat \<Rightarrow> bool" where "legal_irq i \<longleftrightarrow> i < 223"

definition pic_latched :: "machine \<Rightarrow> nat option" where
  "pic_latched s = (if i8259_query_intr_no s = I8259_NO_INTR then None
                    else Some (unat (i8259_query_intr_no s) - 32))"

text \<open>The request line of the processor is up exactly while something is latched.\<close>

definition pic_ok :: "machine \<Rightarrow> bool" where
  "pic_ok s \<longleftrightarrow> (intr s \<noteq> 0 \<longleftrightarrow> i8259_intr_no s \<noteq> I8259_NO_INTR) \<and> 32 \<le> unat (i8259_intr_no s)"

lemma unat_irq: "legal_irq i \<Longrightarrow> unat (of_nat i + IRQ_BASE) = i + 32" "legal_irq i \<Longrightarrow> unat (of_nat i :: u8) = i"
  by (simp_all add: legal_irq_def IRQ_BASE_def unat_word_ariths unat_of_nat)

lemma irq_not_none: "legal_irq i \<Longrightarrow> of_nat i + IRQ_BASE \<noteq> I8259_NO_INTR"
  using unat_irq(1) [of i] by (auto simp: I8259_NO_INTR_def legal_irq_def)

lemma raise_intr_no_eq:
  assumes "pic_ok s" "legal_irq i"
  shows "i8259_intr_no (i8259_raise_intr (of_nat i) s) =
    (if i8259_intr_no s = I8259_NO_INTR \<or> unat (i8259_intr_no s) - 32 < i then of_nat i + IRQ_BASE else i8259_intr_no s)"
proof -
  have "uint (of_nat i :: u8) > uint (i8259_intr_no s) - uint IRQ_BASE \<longleftrightarrow> unat (i8259_intr_no s) - 32 < i"
  proof -
    have u: "uint (of_nat i :: u8) = int i" unfolding uint_nat unat_irq(2) [OF assms(2)] by (rule refl)
    have v: "uint IRQ_BASE = 32" by (simp add: IRQ_BASE_def)
    have "32 \<le> unat (i8259_intr_no s)" using assms(1) by (simp add: pic_ok_def)
    then show ?thesis unfolding u v uint_nat [of "i8259_intr_no s"] by linarith
  qed
  then show ?thesis by (simp add: i8259_raise_intr_def Let_def)
qed

lemma raise_intr_no:
  assumes "pic_ok s" "legal_irq i"
  shows "unat (i8259_intr_no (i8259_raise_intr (of_nat i) s)) =
      (case pic_latched s of None \<Rightarrow> i + 32 | Some j \<Rightarrow> max i j + 32)"
    "i8259_intr_no (i8259_raise_intr (of_nat i) s) \<noteq> I8259_NO_INTR"
proof -
  have "32 \<le> unat (i8259_intr_no s)" using assms(1) by (simp add: pic_ok_def)
  then show "unat (i8259_intr_no (i8259_raise_intr (of_nat i) s)) =
      (case pic_latched s of None \<Rightarrow> i + 32 | Some j \<Rightarrow> max i j + 32)"
    unfolding raise_intr_no_eq [OF assms] pic_latched_def i8259_query_intr_no_def
    using unat_irq(1) [OF assms(2)] by (simp add: max_def)
  show "i8259_intr_no (i8259_raise_intr (of_nat i) s) \<noteq> I8259_NO_INTR"
    unfolding raise_intr_no_eq [OF assms] using irq_not_none [OF assms(2)] by simp
qed

interpretation pic: priority_latch "\<lambda>i. i8259_raise_intr (of_nat i)" i8259_ack_intr pic_latched legal_irq pic_ok
proof unfold_locales
  fix s and i :: nat
  assume a: "pic_ok s" "legal_irq i"
  note r = raise_intr_no [OF a]
  have "intr (i8259_raise_intr (of_nat i) s) = 1" by (simp add: i8259_raise_intr_def Let_def)
  with r show "pic_ok (i8259_raise_intr (of_nat i) s)"
    by (simp add: pic_ok_def split: option.splits)
  show "pic_latched (i8259_raise_intr (of_nat i) s) = Some (case pic_latched s of None \<Rightarrow> i | Some j \<Rightarrow> max i j)"
    using r by (simp add: pic_latched_def [of "i8259_raise_intr x y" for x y] i8259_query_intr_no_def
        split: option.splits)
qed (simp_all add: pic_ok_def i8259_ack_intr_def pic_latched_def i8259_query_intr_no_def I8259_NO_INTR_def)

section \<open>The step relation\<close>

text \<open>The three lines that the program raises: timer, keyboard and disk.\<close>

datatype pic_event = Request nat | Ack | Other

definition pic_view :: "machine \<Rightarrow> u8 \<times> u8" where "pic_view s = (i8259_intr_no s, intr s)"

inductive pic_step :: "machine \<Rightarrow> pic_event \<Rightarrow> machine \<Rightarrow> bool" where
  request: "i \<in> {0, 1, 14} \<Longrightarrow> pic_view t = pic_view (i8259_raise_intr (of_nat i) s) \<Longrightarrow> pic_step s (Request i) t"
| ack: "intr s \<noteq> 0 \<Longrightarrow> IF (eflags s) \<Longrightarrow> pic_view t = pic_view (i8259_ack_intr s) \<Longrightarrow> pic_step s Ack t"
| other: "pic_view t = pic_view s \<Longrightarrow> pic_step s Other t"

inductive_cases pic_stepE: "pic_step s e t"
inductive_simps pic_step_simps: "pic_step s (Request i) t" "pic_step s Ack t" "pic_step s Other t"

inductive pic_run :: "machine \<Rightarrow> pic_event list \<Rightarrow> machine \<Rightarrow> bool" where
  run_nil: "pic_run s [] s"
| run_snoc: "pic_run s es t \<Longrightarrow> pic_step t e u \<Longrightarrow> pic_run s (es @ [e]) u"

text \<open>The requests since the last acknowledgement.\<close>

definition since_ack :: "pic_event list \<Rightarrow> nat list" where
  "since_ack es = [i. Request i \<leftarrow> rev (takeWhile (\<lambda>e. e \<noteq> Ack) (rev es))]"

lemma since_ack_simps [simp]:
  "since_ack [] = []" "since_ack (es @ [Ack]) = []" "since_ack (es @ [Other]) = since_ack es"
  "since_ack (es @ [Request i]) = since_ack es @ [i]"
  by (simp_all add: since_ack_def)

lemma pic_view_cong:
  assumes "pic_view t = pic_view s"
  shows "pic_ok t = pic_ok s" "pic_latched t = pic_latched s"
    "pic_view (i8259_raise_intr i t) = pic_view (i8259_raise_intr i s)"
    "pic_view (i8259_ack_intr t) = pic_view (i8259_ack_intr s)"
  using assms
  by (auto simp: pic_view_def pic_ok_def pic_latched_def i8259_query_intr_no_def i8259_raise_intr_def Let_def
      i8259_ack_intr_def)

text \<open>The controller after a run has seen the requests since the last acknowledgement, and nothing else.\<close>

lemma pic_run_view:
  assumes "pic_run s es t" "pic_ok s" "pic_latched s = None"
  shows "\<exists>u. pic_ok u \<and> pic_latched u = None \<and>
     pic_view t = pic_view (fold (\<lambda>i. i8259_raise_intr (of_nat i)) (since_ack es) u) \<and>
     list_all legal_irq (since_ack es)"
  using assms
proof (induction rule: pic_run.induct)
  case (run_nil s)
  then show ?case by auto
next
  case (run_snoc s es t e u)
  then obtain v where v: "pic_ok v" "pic_latched v = None" "list_all legal_irq (since_ack es)"
    "pic_view t = pic_view (fold (\<lambda>i. i8259_raise_intr (of_nat i)) (since_ack es) v)" by blast
  from run_snoc.hyps(2) show ?case
  proof (cases rule: pic_step.cases)
    case (request i)
    moreover have "legal_irq i" using request(2) by (auto simp: legal_irq_def)
    ultimately show ?thesis
      using v by (intro exI [of _ v]) (simp add: pic_view_cong(3) [OF v(4)])
  next
    case ack
    have "pic_ok (i8259_ack_intr t)"
      using pic.ok_clear pic.ok_reqs [OF v(1,3)] pic_view_cong(1) [OF v(4)] by blast
    with ack show ?thesis
      by (intro exI [of _ "i8259_ack_intr t"]) (simp add: pic.latched_clear)
  next
    case other
    with v show ?thesis by (intro exI [of _ v]) simp
  qed
qed

lemma pic_run_latched:
  assumes "pic_run s es t" "pic_ok s" "pic_latched s = None"
  shows "pic_ok t" "pic_latched t = (if since_ack es = [] then None else Some (Max (set (since_ack es))))"
proof -
  from pic_run_view [OF assms] obtain u where u: "pic_ok u" "pic_latched u = None" "list_all legal_irq (since_ack es)"
    "pic_view t = pic_view (fold (\<lambda>i. i8259_raise_intr (of_nat i)) (since_ack es) u)" by blast
  from pic_view_cong(1,2) [OF u(4)] pic.ok_reqs [OF u(1,3)] pic.latched_reqs [OF u(1-3)]
  show "pic_ok t" "pic_latched t = (if since_ack es = [] then None else Some (Max (set (since_ack es))))"
    by simp_all
qed

section \<open>What the emulator does to the controller\<close>

lemma unat_less_8: "unat x < 256" for x :: u8
  using unsigned_less [of x] by simp

lemma pic_run_trans: "pic_run s es t \<Longrightarrow> pic_run t fs u \<Longrightarrow> pic_run s (es @ fs) u"
  by (rotate_tac, induction rule: pic_run.induct) (auto simp flip: append_assoc intro: pic_run.intros)

lemma pic_run_one: "pic_step s e t \<Longrightarrow> pic_run s [e] t"
  using pic_run.run_snoc [OF run_nil] by fastforce

lemma pic_run_other: "pic_view t = pic_view s \<Longrightarrow> pic_run s [Other] t"
  by (rule pic_run_one) (rule pic_step.other)

text \<open>\<open>quiet es\<close>: no acknowledgement among the events. A computation that may fail is a quiet run.\<close>

definition quiet_run :: "machine \<Rightarrow> machine \<Rightarrow> bool" where
  "quiet_run s t \<longleftrightarrow> (\<exists>es. Ack \<notin> set es \<and> pic_run s es t)"

lemma quiet_runI: "Ack \<notin> set es \<Longrightarrow> pic_run s es t \<Longrightarrow> quiet_run s t"
  by (auto simp: quiet_run_def)

lemma quiet_runE:
  assumes "quiet_run s t"
  obtains es where "Ack \<notin> set es" "pic_run s es t"
  using assms by (auto simp: quiet_run_def)

lemma quiet_run_refl [intro]: "quiet_run s s"
  by (rule quiet_runI [OF _ run_nil]) simp

lemma quiet_run_view: "pic_view t = pic_view s \<Longrightarrow> quiet_run s t"
  by (rule quiet_runI [OF _ pic_run_other]) simp_all

lemma quiet_run_trans:
  assumes "quiet_run s t" "quiet_run t u"
  shows "quiet_run s u"
proof -
  obtain es where es: "Ack \<notin> set es" "pic_run s es t" by (rule quiet_runE [OF assms(1)])
  obtain fs where fs: "Ack \<notin> set fs" "pic_run t fs u" by (rule quiet_runE [OF assms(2)])
  from es(1) fs(1) show ?thesis by (intro quiet_runI [OF _ pic_run_trans [OF es(2) fs(2)]]) simp
qed

lemma quiet_run_request:
  assumes "i \<in> {0, 1, 14}"
  shows "quiet_run s (i8259_raise_intr (of_nat i) s)"
  by (rule quiet_runI [OF _ pic_run_one [OF pic_step.request [OF assms refl]]]) simp

lemma quiet_run_foldM:
  assumes "\<And>x s t. f x s = Some t \<Longrightarrow> quiet_run s t" "foldM f xs s = Some t"
  shows "quiet_run s t"
  using assms(2)
proof (induction xs arbitrary: s)
  case (Cons x xs)
  then obtain u where "f x s = Some u" "quiet_run u t" by (auto split: bind_splits)
  with assms(1) show ?case by (blast intro: quiet_run_trans)
qed auto

lemma write_io_port_view: "write_io_port p n d s = Some t \<Longrightarrow> pic_view t = pic_view s"
  by (auto simp: write_io_port_def pic_view_def split: if_splits)

lemma pic_view_frame: "t\<lparr>hw_mem := m, mmio := x, vga := v\<rparr> = s\<lparr>hw_mem := m, mmio := x, vga := v\<rparr> \<Longrightarrow> pic_view t = pic_view s"
  by (cases s; cases t) (simp add: pic_view_def)

lemma vaddr_write_view: "vaddr_write s a r n d = Some t \<Longrightarrow> pic_view t = pic_view s"
  by (rule pic_view_frame) (rule vaddr_write_frame)

lemma vaddr_write_quiet: "vaddr_write s a r n d = Some t \<Longrightarrow> quiet_run s t"
  by (simp add: quiet_run_view vaddr_write_view)

lemma write_io_port_quiet: "write_io_port p n d s = Some t \<Longrightarrow> quiet_run s t"
  by (simp add: quiet_run_view write_io_port_view)

lemma handler_ide_quiet: "handler_ide p n w s = Some t \<Longrightarrow> quiet_run s t"
proof -
  have count: "quiet_run s t" if "ide_count s = Some t" for s t
    using that by (auto simp: ide_count_def Let_def pic_view_def dest!: write_io_port_view
        intro!: quiet_run_view split: if_splits)
  have fread: "pic_view (snd (disk_fread4 s)) = pic_view s" for s
    by (simp add: disk_fread4_def Let_def pic_view_def)
  have command: "quiet_run s t" if c: "ide_command s = Some t" for s t
  proof -
    have seek: "pic_view (disk_fseek off s) = pic_view s" for off s
      by (simp add: disk_fseek_def pic_view_def)
    have ide: "pic_view (s\<lparr>ide := i\<rparr>) = pic_view s" for s i by (simp add: pic_view_def)
    have irq: "quiet_run s (i8259_raise_intr IDE_IRQ u)" if "pic_view u = pic_view s" for u
      using quiet_run_trans [OF quiet_run_view [OF that] quiet_run_request [of 14]] by (simp add: IDE_IRQ_def)
    from c show ?thesis
      by (auto simp: ide_command_def Let_def seek ide dest!: write_io_port_view
          intro!: quiet_run_view irq split: if_splits bind_splits)
  qed
  assume "handler_ide p n w s = Some t"
  then show ?thesis
    by (auto simp: handler_ide_def dest!: count command write_io_port_view
        intro: quiet_run_trans [OF quiet_run_view] split: if_splits bind_splits prod.splits)
      (metis fread quiet_run_trans quiet_run_view snd_conv)
qed

lemma vga_handlers_quiet:
  "vga_dac_io_handler p n w s = Some t \<Longrightarrow> quiet_run s t"
  "vga_crtc_io_handler p n w s = Some t \<Longrightarrow> quiet_run s t"
  by (auto simp: vga_dac_io_handler_def vga_crtc_io_handler_def Let_def pic_view_def [of "vga_update f x" for f x]
      pic_view_def [symmetric] dest!: write_io_port_view intro!: quiet_run_view split: if_splits bind_splits)

lemma gpu_handlers_quiet:
  "gpu_data_handler p n w s = Some t \<Longrightarrow> quiet_run s t"
  "gpu_cmd_handler p n w s = Some t \<Longrightarrow> quiet_run s t"
proof -
  show "gpu_data_handler p n w s = Some t \<Longrightarrow> quiet_run s t"
    by (auto simp: gpu_data_handler_def pic_view_def intro!: quiet_run_view split: if_splits bind_splits)
  have pix: "gpu_pixel a b c d e f s = Some t \<Longrightarrow> quiet_run s t" for a b c d e f s t
    by (auto simp: gpu_pixel_def dest: vaddr_write_quiet split: bind_splits)
  have row: "foldM (\<lambda>dx. gpu_pixel a b c d e (f dx)) xs s = Some t \<Longrightarrow> quiet_run s t" for a b c d e f xs s t
    by (rule quiet_run_foldM [of "\<lambda>dx. gpu_pixel a b c d e (f dx)"]) (rule pix)
  show "gpu_cmd_handler p n w s = Some t \<Longrightarrow> quiet_run s t"
    by (auto simp: gpu_cmd_handler_def Let_def split: if_splits bind_splits)
      (erule quiet_run_foldM [rotated], erule row)
qed

lemma pio_handle_quiet: "pio_handle p n w s = Some t \<Longrightarrow> quiet_run s t"
proof -
  assume "pio_handle p n w s = Some t"
  then obtain h where h: "(p, h) \<in> set pio_handler_table" "h p n w s = Some t"
    by (auto simp: pio_handle_def split: option.splits dest: map_of_SomeD)
  have "handler_keyboard_data p n w s = Some t \<Longrightarrow> quiet_run s t"
    by (auto simp: handler_keyboard_data_def dest: write_io_port_quiet split: if_splits)
  moreover have "handler_serial p n w s = Some t \<Longrightarrow> quiet_run s t"
    by (auto simp: handler_serial_def pic_view_def intro!: quiet_run_view split: if_splits bind_splits)
  moreover have "handler_timer p n w s = Some t \<Longrightarrow> quiet_run s t"
    by (auto simp: handler_timer_def)
  moreover have "h \<in> {handler_ide, handler_keyboard_data, handler_serial, handler_timer, vga_dac_io_handler,
      vga_crtc_io_handler, gpu_data_handler, gpu_cmd_handler}"
    using h(1) unfolding pio_handler_table_def by auto
  ultimately show ?thesis
    using h(2) handler_ide_quiet vga_handlers_quiet gpu_handlers_quiet by auto
qed

lemma do_devices_quiet: "do_devices t1 t2 t3 evs s = Some t \<Longrightarrow> quiet_run s t"
proof -
  have timer: "quiet_run s (do_timer c s)" for c s
  proof -
    have "quiet_run s (timer_intr s)"
      using quiet_run_request [of 0 s] by (auto simp: timer_intr_def TIMER_IRQ_def)
    moreover have "pic_view (u\<lparr>timer := k\<rparr>) = pic_view u" for u k by (simp add: pic_view_def)
    ultimately show ?thesis
      by (auto simp: do_timer_def Let_def intro: quiet_run_trans [OF _ quiet_run_view])
  qed
  have ev: "handle_event e s = Some t \<Longrightarrow> quiet_run s t" for e s t
  proof -
    have irq: "quiet_run s (i8259_raise_intr KEYBOARD_IRQ (s\<lparr>keyboard := k\<rparr>))" for k
      using quiet_run_trans [OF quiet_run_view quiet_run_request [of 1 "s\<lparr>keyboard := k\<rparr>"]]
      by (simp add: KEYBOARD_IRQ_def pic_view_def)
    show "handle_event e s = Some t \<Longrightarrow> quiet_run s t"
      by (cases e) (auto simp: keyboard_down_def keyboard_up_def Let_def irq pic_view_def intro: quiet_run_view
          split: bind_splits)
  qed
  have kb: "do_keyboard c es s = Some t \<Longrightarrow> quiet_run s t" for c es s t
  proof -
    have "foldM handle_event es s = Some u \<Longrightarrow> quiet_run s u" for u
      by (rule quiet_run_foldM [where f = handle_event]) (rule ev)
    moreover have "pic_view (u\<lparr>keyboard := k\<rparr>) = pic_view u" for u k by (simp add: pic_view_def)
    ultimately show "do_keyboard c es s = Some t \<Longrightarrow> quiet_run s t"
      by (auto simp: do_keyboard_def intro: quiet_run_trans [OF _ quiet_run_view] split: if_splits bind_splits)
  qed
  have vga: "pic_view (do_vga c s) = pic_view s" for c s
    by (simp add: do_vga_def update_screen_def do_update_screen_graphic_mode_def Let_def pic_view_def)
  assume "do_devices t1 t2 t3 evs s = Some t"
  then obtain u where "do_keyboard t2 evs (do_timer t1 s) = Some u" "t = do_vga t3 u"
    by (auto simp: do_devices_def Let_def split: bind_splits)
  then show ?thesis using timer kb vga quiet_run_view quiet_run_trans by metis
qed

section \<open>The properties\<close>

text \<open>C15: whatever the devices, the processor and the rest of the machine do in whatever order, starting
  from an idle controller: the processor's request line is up exactly when an interrupt is pending, and
  the pending one is the highest line requested since the last acknowledgement.\<close>

theorem pic_reachable:
  "pic_run s es t \<Longrightarrow> pic_ok s \<Longrightarrow> i8259_query_intr_no s = I8259_NO_INTR \<Longrightarrow>
     (intr t \<noteq> 0 \<longleftrightarrow> since_ack es \<noteq> []) \<and>
     i8259_query_intr_no t = (if since_ack es = [] then I8259_NO_INTR
       else of_nat (Max (set (since_ack es))) + IRQ_BASE)"
proof -
  assume r: "pic_run s es t" and ok: "pic_ok s" and n: "i8259_query_intr_no s = I8259_NO_INTR"
  then have l: "pic_latched s = None" by (simp add: pic_latched_def)
  note t = pic_run_latched [OF r ok l]
  have ge: "32 \<le> unat (i8259_query_intr_no t)" using t(1) by (simp add: pic_ok_def i8259_query_intr_no_def)
  show ?thesis
  proof (cases "since_ack es = []")
    case True
    with t(2) have "i8259_query_intr_no t = I8259_NO_INTR" by (simp add: pic_latched_def split: if_splits)
    with True t(1) show ?thesis by (simp add: pic_ok_def i8259_query_intr_no_def)
  next
    case False
    with t(2) have m: "i8259_query_intr_no t \<noteq> I8259_NO_INTR"
      "unat (i8259_query_intr_no t) - 32 = Max (set (since_ack es))"
      by (auto simp: pic_latched_def split: if_splits)
    with ge have u: "unat (i8259_query_intr_no t) = Max (set (since_ack es)) + 32" by simp
    then have "i8259_query_intr_no t = of_nat (Max (set (since_ack es)) + 32)"
      using unat_less_8 [of "i8259_query_intr_no t"] by (simp only: word_unat_eq_iff unat_of_nat) simp
    with False m(1) t(1) show ?thesis by (simp add: pic_ok_def i8259_query_intr_no_def IRQ_BASE_def)
  qed
qed

theorem pic_reachable_witness:
  "i8259_query_intr_no (i8259_raise_intr 0 (i8259_raise_intr 14 (i8259_init machine0))) = 46"
proof -
  let ?s = "i8259_init machine0"
  have ok: "pic_ok ?s" "i8259_query_intr_no ?s = I8259_NO_INTR"
    by (simp_all add: pic_ok_def i8259_init_def i8259_query_intr_no_def I8259_NO_INTR_def)
  have "pic_run ?s (([] @ [Request 14]) @ [Request 0]) (i8259_raise_intr 0 (i8259_raise_intr 14 ?s))"
    by (rule run_snoc [OF run_snoc [OF run_nil]]; rule pic_step.request; simp)
  from pic_reachable [OF this ok] show ?thesis by (simp add: since_ack_def IRQ_BASE_def)
qed

text \<open>C16: every access to a port and every round of the devices is a run of the controller without an
  acknowledgement; only the interrupt check acknowledges.\<close>

theorem devices_are_quiet:
  "(pio_write port n d s = Some t \<longrightarrow> quiet_run s t) \<and>
   (pio_read port n s = Some (v, t) \<longrightarrow> quiet_run s t) \<and>
   (do_devices t1 t2 t3 evs s = Some t \<longrightarrow> quiet_run s t)"
  by (auto simp: pio_write_def pio_read_def do_devices_quiet
      dest: write_io_port_quiet pio_handle_quiet intro: quiet_run_trans split: if_splits bind_splits)

text \<open>A running machine whose timer and keyboard are on: a read command to the disk requests interrupt 14, a round
  of the devices with the timer due and a key pressed requests 0 and then 1.\<close>

definition busy_machine :: machine where
  "busy_machine = machine0\<lparr>nemu_st := NEMU_RUN, timer := \<lparr>timer_active = True, timer_last_time = 0, time_interval = 10\<rparr>,
     keyboard := \<lparr>scan_code_buf = 0, keyboard_active = True, keyboard_last_time = 0\<rparr>\<rparr>"

theorem devices_are_quiet_witness:
  "(\<exists>t. pio_write (IDE_PORT_BASE + 7) 1 0x20 busy_machine = Some t \<and> i8259_query_intr_no t = 46 \<and> intr t = 1 \<and> quiet_run busy_machine t) \<and>
   (\<exists>t. pio_read KEYBOARD_DATA_PORT 1 busy_machine = Some (0, t) \<and> quiet_run busy_machine t) \<and>
   (\<exists>t. do_devices 10 10 10 [SDL_KEYDOWN 97] busy_machine = Some t \<and> i8259_query_intr_no t = 33 \<and> intr t = 1 \<and>
      scan_code_buf (keyboard t) = 30 \<and> quiet_run busy_machine t)"
proof -
  have "\<exists>t. pio_write (IDE_PORT_BASE + 7) 1 0x20 busy_machine = Some t \<and> i8259_query_intr_no t = 46 \<and> intr t = 1"
    by (simp add: pio_write_def len_ok_def write_io_port_def in_ports_def pio_handle_def pio_handler_table_def handler_ide_def
        ide_command_def read_io_port_def disk_fseek_def i8259_raise_intr_def Let_def i8259_query_intr_no_def busy_machine_def
        machine0_def IDE_PORT_BASE_def IDE_IRQ_def IRQ_BASE_def I8259_NO_INTR_def)
  moreover have "\<exists>t. pio_read KEYBOARD_DATA_PORT 1 busy_machine = Some (0, t)"
    by (simp add: pio_read_def len_ok_def write_io_port_def in_ports_def pio_handle_def pio_handler_table_def
        handler_keyboard_data_def read_io_port_def busy_machine_def IDE_PORT_BASE_def KEYBOARD_DATA_PORT_def)
  moreover have "\<exists>t. do_devices 10 10 10 [SDL_KEYDOWN 97] busy_machine = Some t \<and> i8259_query_intr_no t = 33 \<and> intr t = 1 \<and>
      scan_code_buf (keyboard t) = 30"
    by (simp add: do_devices_def do_timer_def timer_intr_def do_keyboard_def keyboard_down_def scancode_def sym2scancode_def
       i8259_raise_intr_def Let_def i8259_query_intr_no_def busy_machine_def do_vga_def
        machine0_def TIMER_IRQ_def KEYBOARD_IRQ_def IRQ_BASE_def I8259_NO_INTR_def)
  ultimately show ?thesis using devices_are_quiet by blast
qed

text \<open>the interrupt check never fails its assertion on a controller that is in a consistent state: with
  a request and interrupts enabled it acknowledges and delivers exactly the pending interrupt to a processor
  that is no longer halted; otherwise it does nothing.\<close>

theorem do_intr_delivers:
  "pic_ok s \<Longrightarrow>
     do_intr s = (if intr s \<noteq> 0 \<and> IF (eflags s)
       then raise_intr (i8259_query_intr_no s) (s\<lparr>is_nemu_hlt := False, i8259_intr_no := I8259_NO_INTR, intr := 0\<rparr>)
       else Some s)"
  by (cases s) (auto simp: do_intr_def pic_ok_def i8259_query_intr_no_def i8259_ack_intr_def Let_def)

theorem do_intr_delivers_witness:
  "do_intr (intr_machine\<lparr>intr := 1, i8259_intr_no := 32, is_nemu_hlt := True\<rparr>) =
   raise_intr 32 (intr_machine\<lparr>is_nemu_hlt := False, i8259_intr_no := I8259_NO_INTR, intr := 0\<rparr>)"
proof -
  let ?s = "intr_machine\<lparr>intr := 1, i8259_intr_no := 32, is_nemu_hlt := True\<rparr>"
  have "pic_ok ?s" by (simp add: pic_ok_def I8259_NO_INTR_def)
  from do_intr_delivers [OF this] show ?thesis
    by (simp add: i8259_query_intr_no_def IF_def intr_machine_def)
qed

end
