(* ===== verification/Cache.thy ===== *)
theory Cache
  imports Memory_Correct
begin

text \<open>
  The optional write-through cache of \<open>nemu/src/memory/mmu/cache.c\<close> (compiled with
  \<open>CACHE_ENABLED\<close>): 128 groups of 8 blocks of 64 bytes. The cache is a value of its own beside
  the machine; an access returns the new one. A failed assertion is \<open>None\<close>, and so is a \<open>memcpy\<close>
  beyond an array.
\<close>

section \<open>Addresses, blocks, groups\<close>

definition CACHE_BLOCK_SIZE :: nat where "CACHE_BLOCK_SIZE = 64"
definition GRP_SIZE :: nat where "GRP_SIZE = 8"
definition GRP_NUM :: nat where "GRP_NUM = 64 * 1024 div (GRP_SIZE * CACHE_BLOCK_SIZE)"

definition ma_offset :: "u32 \<Rightarrow> u32" where "ma_offset a = bf_get 0 6 a"
definition ma_group_idx :: "u32 \<Rightarrow> u32" where "ma_group_idx a = bf_get 6 7 a"
definition ma_mark :: "u32 \<Rightarrow> u32" where "ma_mark a = bf_get 13 19 a"

record cache_block =
  cb_valid :: bool
  cb_mark :: u32
  cb_content :: "6 word \<Rightarrow> u8"

type_synonym cache_group = "cache_block list"
type_synonym cache = "cache_group list"

datatype cache_coverage = covered | not_loaded | cross_block

definition cache_block_init :: "cache_block \<Rightarrow> cache_block" where
  "cache_block_init this = this\<lparr>cb_valid := False, cb_mark := 0\<rparr>"

definition cache_block_load :: "machine \<Rightarrow> u32 \<Rightarrow> cache_block option" where
  "cache_block_load s mem_addr =
     (let mask' = NOT 63; mem_addr = mem_addr AND mask' in
      if mem_addr AND 63 \<noteq> 0 then None
      else if \<not> unat mem_addr + CACHE_BLOCK_SIZE \<le> unat MEM_SIZE_B then None
      else Some \<lparr>cb_valid = True, cb_mark = ma_mark mem_addr,
                 cb_content = (\<lambda>i. hw_mem s (mem_addr + ucast i))\<rparr>)"

definition cache_block_read :: "cache_block \<Rightarrow> u32 \<Rightarrow> nat \<Rightarrow> u32 option" where
  "cache_block_read this offset len =
     (if \<not> unat offset + len \<le> CACHE_BLOCK_SIZE then None
      else if \<not> len \<le> 4 then None
      else Some (mem_get (cb_content this) (ucast offset) len))"

definition cache_block_write :: "cache_block \<Rightarrow> u32 \<Rightarrow> u32 \<Rightarrow> nat \<Rightarrow> cache_block option" where
  "cache_block_write this offset data len =
     (if \<not> unat offset + len \<le> CACHE_BLOCK_SIZE then None
      else if \<not> len \<le> 4 then None
      else Some (this\<lparr>cb_content := mem_put (cb_content this) (ucast offset) len data\<rparr>))"

text \<open>The loops over the members of a group that stop at the first block with a property.\<close>

fun find_block :: "(cache_block \<Rightarrow> bool) \<Rightarrow> cache_group \<Rightarrow> nat \<Rightarrow> nat option" where
  "find_block p [] i = None"
| "find_block p (b # bs) i = (if p b then Some i else find_block p bs (Suc i))"

definition cache_group_init :: "cache_group \<Rightarrow> cache_group" where
  "cache_group_init this = map cache_block_init this"

definition cache_group_load :: "machine \<Rightarrow> cache_group \<Rightarrow> u32 \<Rightarrow> cache_group option" where
  "cache_group_load s this mem_addr =
     (case find_block (\<lambda>b. cb_valid b \<and> cb_mark b = ma_mark mem_addr) this 0 of
        Some i \<Rightarrow> map_option (\<lambda>b. this[i := b]) (cache_block_load s mem_addr)
      | None \<Rightarrow>
     (case find_block (\<lambda>b. \<not> cb_valid b) this 0 of
        Some i \<Rightarrow> map_option (\<lambda>b. this[i := b]) (cache_block_load s mem_addr)
      | None \<Rightarrow>
        let target_index = unat (eip s * 3) mod GRP_SIZE
        in map_option (\<lambda>b. this[target_index := b]) (cache_block_load s mem_addr)))"

definition cache_group_read :: "cache_group \<Rightarrow> u32 \<Rightarrow> nat \<Rightarrow> u32 option" where
  "cache_group_read this mem_addr len =
     (case find_block (\<lambda>b. cb_valid b \<and> cb_mark b = ma_mark mem_addr) this 0 of
        Some i \<Rightarrow> cache_block_read (this ! i) (ma_offset mem_addr) len
      | None \<Rightarrow> None)"

definition cache_group_write :: "cache_group \<Rightarrow> u32 \<Rightarrow> u32 \<Rightarrow> nat \<Rightarrow> cache_group option" where
  "cache_group_write this mem_addr data len =
     (case find_block (\<lambda>b. cb_valid b \<and> cb_mark b = ma_mark mem_addr) this 0 of
        Some i \<Rightarrow> map_option (\<lambda>b. this[i := b]) (cache_block_write (this ! i) (ma_offset mem_addr) data len)
      | None \<Rightarrow> Some this)"

definition cache_group_has_cache :: "cache_group \<Rightarrow> u32 \<Rightarrow> bool" where
  "cache_group_has_cache this mem_addr =
     (find_block (\<lambda>b. cb_valid b \<and> cb_mark b = ma_mark mem_addr) this 0 \<noteq> None)"

section \<open>The cache\<close>

definition cache_init :: "cache \<Rightarrow> cache" where
  "cache_init this = map cache_group_init this"

definition group_of :: "u32 \<Rightarrow> nat" where "group_of mem_addr = unat (ma_group_idx mem_addr)"

definition cache_load :: "machine \<Rightarrow> cache \<Rightarrow> u32 \<Rightarrow> cache option" where
  "cache_load s this mem_addr =
     (if \<not> group_of mem_addr < GRP_NUM then None
      else map_option (\<lambda>g. this[group_of mem_addr := g])
             (cache_group_load s (this ! group_of mem_addr) mem_addr))"

definition cache_read :: "cache \<Rightarrow> u32 \<Rightarrow> nat \<Rightarrow> u32 option" where
  "cache_read this mem_addr len = cache_group_read (this ! group_of mem_addr) mem_addr len"

definition cache_write :: "cache \<Rightarrow> u32 \<Rightarrow> u32 \<Rightarrow> nat \<Rightarrow> cache option" where
  "cache_write this mem_addr data len =
     map_option (\<lambda>g. this[group_of mem_addr := g])
       (cache_group_write (this ! group_of mem_addr) mem_addr data len)"

definition cache_has_data :: "cache \<Rightarrow> u32 \<Rightarrow> nat \<Rightarrow> cache_coverage" where
  "cache_has_data this mem_addr len =
     (if unat (ma_offset mem_addr) + len > CACHE_BLOCK_SIZE then cross_block
      else if \<not> cache_group_has_cache (this ! group_of mem_addr) mem_addr then not_loaded
      else covered)"

text \<open>The bytes that are left in the block of an address, at least one.\<close>

definition block_left :: "u32 \<Rightarrow> nat" where
  "block_left paddr = CACHE_BLOCK_SIZE - unat (ma_offset paddr)"

lemma ma_offset_less: "unat (ma_offset a) < 64"
  using unat_bf_get_less [of 0 6 a] by (simp add: ma_offset_def)

lemma block_left_pos: "0 < block_left a" "block_left a \<le> 64" "unat (ma_offset a) + block_left a = 64"
  using ma_offset_less [of a] by (simp_all add: block_left_def CACHE_BLOCK_SIZE_def)

lemma cross_block_lens:
  assumes "cache_has_data c a n = cross_block"
  shows "block_left a < n" "n - block_left a < n"
proof -
  from assms have "64 < unat (ma_offset a) + n"
    by (simp add: cache_has_data_def CACHE_BLOCK_SIZE_def split: if_splits)
  with block_left_pos [of a] show "block_left a < n" "n - block_left a < n" by linarith+
qed

text \<open>
  The second half of a write that crosses a block is \<open>data & ~low_mask\<close>, not shifted down. Shifts
  by 32 bits or more are undefined.
\<close>

function cached_write :: "u32 \<Rightarrow> nat \<Rightarrow> u32 \<Rightarrow> cache \<times> machine \<Rightarrow> (cache \<times> machine) option" where
  "cached_write paddr len data (c, s) = do {
     s \<leftarrow> hw_mem_write s paddr len data;
     (case cache_has_data c paddr len of
        cross_block \<Rightarrow>
          let left = block_left paddr; right = len - left in
          if 32 \<le> left * 8 then None else
          let low_mask = push_bit (left * 8) 1 - 1 in do {
            cs \<leftarrow> cached_write paddr left (data AND low_mask) (c, s);
            cached_write (paddr + of_nat left) right (data AND NOT low_mask) cs
          }
      | covered \<Rightarrow> do { c \<leftarrow> cache_write c paddr data len; Some (c, s) }
      | not_loaded \<Rightarrow> Some (c, s))
   }"
  by pat_completeness auto
termination
  by (relation "measure (\<lambda>(paddr, len, data, cs). len)") (simp_all add: cross_block_lens)

function cached_read :: "u32 \<Rightarrow> nat \<Rightarrow> machine \<Rightarrow> cache \<Rightarrow> (u32 \<times> cache) option" where
  "cached_read paddr len s c = do {
     (result, c) \<leftarrow>
       (case cache_has_data c paddr len of
          cross_block \<Rightarrow>
            let left = block_left paddr; right = len - left in do {
              (low, c) \<leftarrow> cached_read paddr left s c;
              (high, c) \<leftarrow> cached_read (paddr + of_nat left) right s c;
              if 32 \<le> left * 8 then None else Some (push_bit (left * 8) high OR low, c)
            }
        | not_loaded \<Rightarrow> do {
            c \<leftarrow> cache_load s c paddr;
            result \<leftarrow> cache_read c paddr len;
            Some (result, c)
          }
        | covered \<Rightarrow> do { result \<leftarrow> cache_read c paddr len; Some (result, c) });
     ground_truth \<leftarrow> hw_mem_read s paddr len;
     if result \<noteq> ground_truth then None else Some (result, c)
   }"
  by pat_completeness auto
termination
  by (relation "measure (\<lambda>(paddr, len, s, c). len)") (simp_all add: cross_block_lens)

declare cached_write.simps [simp del] and cached_read.simps [simp del]

end
