(* ===== verification/Cache_Correct.thy ===== *)
theory Cache_Correct
  imports Cache
begin

text \<open>
  The cache is invisible: it stays coherent with the memory under every access, so that the
  self-check of \<open>cached_read\<close> never fails and reads return what the memory holds. The write path
  passes states in which the cache lags behind on the bytes being written; coherence up to a set
  of addresses describes them.
\<close>

section \<open>Addresses and blocks\<close>

text \<open>The address of byte \<open>i\<close> of the block with mark \<open>mk\<close> in group \<open>g\<close>.\<close>

definition byte_addr :: "u32 \<Rightarrow> nat \<Rightarrow> 6 word \<Rightarrow> u32" where
  "byte_addr mk g i = push_bit 13 mk OR push_bit 6 (of_nat g) OR ucast i"

lemma bit_of_group: "g < 128 \<Longrightarrow> bit g n \<Longrightarrow> n < 7" for g :: nat
  using take_bit_nat_eq_self [of g 7] bit_take_bit_iff [of 7 g n] by simp

lemma byte_addr_parts:
  assumes "mk = take_bit 19 mk" "g < 128"
  shows "ma_mark (byte_addr mk g i) = mk" "group_of (byte_addr mk g i) = g" "ucast (byte_addr mk g i) = i"
proof -
  note g = bit_of_group [OF assms(2)]
  have m: "bit mk n \<Longrightarrow> n < 19" for n by (subst (asm) assms(1)) (simp add: bit_take_bit_iff)
  show "ma_mark (byte_addr mk g i) = mk"
    by (rule bit_word_eqI) (auto simp: ma_mark_def byte_addr_def bf_simps bit_simps dest: m g bit_imp_le_length)
  have "ma_group_idx (byte_addr mk g i) = of_nat g"
    by (rule bit_word_eqI) (auto simp: ma_group_idx_def byte_addr_def bf_simps bit_simps dest: m g bit_imp_le_length)
  with assms(2) show "group_of (byte_addr mk g i) = g" by (simp add: group_of_def unat_of_nat)
  show "ucast (byte_addr mk g i) = i"
    by (rule bit_word_eqI) (auto simp: byte_addr_def bit_simps dest: m g bit_imp_le_length)
qed

lemma byte_addr_eq: "byte_addr (ma_mark a) (group_of a) i = (a AND NOT 63) OR ucast i"
proof (rule bit_word_eqI)
  fix n
  have "of_nat (group_of a) = ma_group_idx a" by (simp add: group_of_def)
  moreover have "bit (63 :: u32) n \<longleftrightarrow> n < 6"
    using bit_mask_iff [where 'a = u32, of 6 n] by (auto simp: mask_eq_exp_minus_1 dest: bit_imp_le_length)
  ultimately show "bit (byte_addr (ma_mark a) (group_of a) i) n = bit ((a AND NOT 63) OR ucast i) n" if "n < LENGTH(32)"
    using that by (cases "n < 6"; cases "n < 13") (auto simp: byte_addr_def ma_mark_def ma_group_idx_def bf_simps bit_simps dest: bit_imp_le_length)
qed

lemma byte_addr_self: "byte_addr (ma_mark a) (group_of a) (ucast a) = a"
proof (rule bit_word_eqI)
  fix n
  have "bit (63 :: u32) n \<longleftrightarrow> n < 6"
    using bit_mask_iff [where 'a = u32, of 6 n] by (auto simp: mask_eq_exp_minus_1 dest: bit_imp_le_length)
  then show "bit (byte_addr (ma_mark a) (group_of a) (ucast a)) n = bit a n" if "n < LENGTH(32)"
    using that by (auto simp: byte_addr_eq bit_simps)
qed

lemma mark_bound: "ma_mark a = take_bit 19 (ma_mark a)" "group_of a < 128"
  using unat_bf_get_less [of 6 7 a] by (simp_all add: ma_mark_def group_of_def ma_group_idx_def)

lemma unat_offset: "unat (ma_offset a) = unat (ucast a :: 6 word)" "ucast (ma_offset a) = (ucast a :: 6 word)"
proof -
  show "ucast (ma_offset a) = (ucast a :: 6 word)"
    by (rule bit_word_eqI) (auto simp: ma_offset_def bf_simps bit_simps)
  have "ma_offset a = ucast (ucast a :: 6 word)"
    by (rule bit_word_eqI) (auto simp: ma_offset_def bf_simps bit_simps)
  then show "unat (ma_offset a) = unat (ucast a :: 6 word)" by (simp add: unsigned_ucast_eq unsigned_take_bit_eq)
qed

lemma byte_addr_plus: "byte_addr mk g i = byte_addr mk g 0 + ucast i"
proof -
  have "byte_addr mk g 0 + ucast i = byte_addr mk g 0 OR ucast i"
    by (rule disjunctive_add) (auto simp: byte_addr_def bit_simps dest: bit_imp_le_length)
  then show ?thesis by (simp add: byte_addr_def or.assoc)
qed

lemma unat_6: "unat i < 64" for i :: "6 word"
  using unsigned_less [of i] by simp

lemma unat_ucast_6: "unat (ucast i :: u32) = unat i" for i :: "6 word"
  using unat_6 [of i] by (simp add: unsigned_ucast_eq take_bit_nat_eq_self_iff)

text \<open>The distance of two bytes of one block.\<close>

lemma byte_addr_diff:
  "unat (byte_addr mk g i - byte_addr mk g j) =
     (if unat j \<le> unat i then unat i - unat j else unat i + 4294967296 - unat j)"
proof -
  have "byte_addr mk g i - byte_addr mk g j = ucast i - ucast j"
    by (simp add: byte_addr_plus [of mk g i] byte_addr_plus [of mk g j])
  then show ?thesis by (simp only: unat_sub_if' unat_ucast_6) simp
qed

text \<open>An access of \<open>n\<close> bytes inside a block reaches only bytes of that block, in order.\<close>

definition in_block :: "u32 \<Rightarrow> nat \<Rightarrow> bool" where "in_block a n \<longleftrightarrow> n \<le> block_left a"

lemma in_block_diff:
  assumes "in_block a n"
  shows "unat (byte_addr (ma_mark a) (group_of a) i - a) < n \<longleftrightarrow> unat (i - ucast a) < n"
    and "unat (i - ucast a) < n \<Longrightarrow> unat (byte_addr (ma_mark a) (group_of a) i - a) = unat (i - ucast a)"
proof -
  have n: "n + unat (ucast a :: 6 word) \<le> 64"
    using assms block_left_pos [of a] by (simp add: in_block_def unat_offset)
  have d: "unat (byte_addr (ma_mark a) (group_of a) i - a) =
     (if unat (ucast a :: 6 word) \<le> unat i then unat i - unat (ucast a :: 6 word)
      else unat i + 4294967296 - unat (ucast a :: 6 word))"
    using byte_addr_diff [of "ma_mark a" "group_of a" i "ucast a"] by (simp only: byte_addr_self)
  have e: "unat (i - ucast a) =
     (if unat (ucast a :: 6 word) \<le> unat i then unat i - unat (ucast a :: 6 word)
      else unat i + 64 - unat (ucast a :: 6 word))"
    by (simp only: unat_sub_if') simp
  show "unat (byte_addr (ma_mark a) (group_of a) i - a) < n \<longleftrightarrow> unat (i - ucast a) < n"
    unfolding d e using n unat_6 [of "ucast a"] by auto
  show "unat (i - ucast a) < n \<Longrightarrow> unat (byte_addr (ma_mark a) (group_of a) i - a) = unat (i - ucast a)"
    unfolding d e using n by (auto split: if_splits)
qed

lemma in_block_byte:
  assumes "in_block a n" "k < n"
  shows "a + of_nat k = byte_addr (ma_mark a) (group_of a) (ucast a + of_nat k)"
proof -
  have n: "k + unat (ucast a :: 6 word) < 64" "k < 64"
    using assms block_left_pos [of a] by (simp_all add: in_block_def unat_offset)
  then have "ucast (ucast a + of_nat k :: 6 word) = (ucast (ucast a :: 6 word) + of_nat k :: u32)"
    by (simp add: word_unat_eq_iff unat_ucast_6 unat_word_ariths unat_of_nat)
  then have "byte_addr (ma_mark a) (group_of a) (ucast a + of_nat k) =
      byte_addr (ma_mark a) (group_of a) 0 + ucast (ucast a :: 6 word) + of_nat k"
    by (simp add: byte_addr_plus [of _ _ "ucast a + of_nat k"] add.assoc)
  also have "\<dots> = a + of_nat k"
    by (simp only: byte_addr_plus [symmetric] byte_addr_self)
  finally show ?thesis by simp
qed

lemma in_block_parts:
  assumes "in_block a n" "unat (x - a) < n"
  shows "ma_mark x = ma_mark a" "group_of x = group_of a"
proof -
  have "x = byte_addr (ma_mark a) (group_of a) (ucast a + of_nat (unat (x - a)))"
    using in_block_byte [OF assms] by simp
  then show "ma_mark x = ma_mark a" "group_of x = group_of a"
    using byte_addr_parts [OF mark_bound] by metis+
qed

section \<open>Coherence\<close>

text \<open>
  Every valid block agrees with the memory except on the addresses \<open>X\<close>, lies inside the memory, and
  is the only valid block of its group with its mark.
\<close>

definition block_ok :: "(u32 \<Rightarrow> bool) \<Rightarrow> (u32 \<Rightarrow> u8) \<Rightarrow> nat \<Rightarrow> cache_block \<Rightarrow> bool" where
  "block_ok X m g b \<longleftrightarrow> cb_mark b = take_bit 19 (cb_mark b) \<and>
     unat (byte_addr (cb_mark b) g 0) + 64 \<le> unat MEM_SIZE_B \<and>
     (\<forall>i. \<not> X (byte_addr (cb_mark b) g i) \<longrightarrow> cb_content b i = m (byte_addr (cb_mark b) g i))"

definition group_ok :: "(u32 \<Rightarrow> bool) \<Rightarrow> (u32 \<Rightarrow> u8) \<Rightarrow> nat \<Rightarrow> cache_group \<Rightarrow> bool" where
  "group_ok X m g grp \<longleftrightarrow> length grp = GRP_SIZE \<and>
     (\<forall>i<GRP_SIZE. cb_valid (grp ! i) \<longrightarrow> block_ok X m g (grp ! i)) \<and>
     (\<forall>i<GRP_SIZE. \<forall>j<GRP_SIZE. cb_valid (grp ! i) \<and> cb_valid (grp ! j) \<and>
        cb_mark (grp ! i) = cb_mark (grp ! j) \<longrightarrow> i = j)"

definition coherent_but :: "(u32 \<Rightarrow> bool) \<Rightarrow> cache \<Rightarrow> machine \<Rightarrow> bool" where
  "coherent_but X c s \<longleftrightarrow> length c = GRP_NUM \<and> (\<forall>g<GRP_NUM. group_ok X (hw_mem s) g (c ! g))"

definition coherent :: "cache \<Rightarrow> machine \<Rightarrow> bool" where
  "coherent c s \<longleftrightarrow> coherent_but (\<lambda>_. False) c s"

lemma GRP_NUM_128 [simp]: "GRP_NUM = 128" and GRP_SIZE_8 [simp]: "GRP_SIZE = 8"
  by (simp_all add: GRP_NUM_def GRP_SIZE_def CACHE_BLOCK_SIZE_def)

lemma find_block_Some:
  assumes "find_block p bs k = Some i"
  shows "k \<le> i \<and> i - k < length bs \<and> p (bs ! (i - k))"
  using assms
proof (induction bs arbitrary: k)
  case (Cons b bs)
  show ?case
  proof (cases "p b")
    case False
    with Cons have "Suc k \<le> i \<and> i - Suc k < length bs \<and> p (bs ! (i - Suc k))" by simp
    then show ?thesis by (auto simp: Suc_le_eq nth_Cons' )
  qed (use Cons in auto)
qed simp

lemma find_block_None: "find_block p bs k = None \<longleftrightarrow> (\<forall>b\<in>set bs. \<not> p b)"
  by (induction bs arbitrary: k) auto

lemma group_ok_update:
  assumes "group_ok X m g grp" "i < 8" "block_ok X m g b"
    and "\<And>j. j < 8 \<Longrightarrow> j \<noteq> i \<Longrightarrow> cb_valid (grp ! j) \<Longrightarrow> cb_mark (grp ! j) \<noteq> cb_mark b"
  shows "group_ok X m g (grp[i := b])"
  using assms unfolding group_ok_def by (simp add: nth_list_update) metis

section \<open>Loading\<close>

lemma mem_get_same_bytes:
  "(\<And>i. i < n \<Longrightarrow> m (a + of_nat i) = m' (b + of_nat i)) \<Longrightarrow> mem_get m a n = mem_get m' b n"
  for a :: "'a::len word" and b :: "'b::len word"
proof (rule bit_word_eqI)
  fix k
  assume e: "\<And>i. i < n \<Longrightarrow> m (a + of_nat i) = m' (b + of_nat i)"
  show "bit (mem_get m a n) k = bit (mem_get m' b n) k"
    using e [of "k div 8"] by (auto simp: bit_mem_get less_mult_imp_div_less mult.commute)
qed

lemma block_base: "a AND NOT 63 = byte_addr (ma_mark a) (group_of a) 0"
  by (simp add: byte_addr_eq)

lemma block_byte: "(a AND NOT 63) + ucast i = byte_addr (ma_mark a) (group_of a) i"
  by (simp only: block_base byte_addr_plus [of _ _ i])

lemma block_in_memory:
  assumes "unat a < unat MEM_SIZE_B"
  shows "unat (byte_addr (ma_mark a) (group_of a) 0) + 64 \<le> unat MEM_SIZE_B"
proof -
  let ?o = "unat (ucast a :: 6 word)" and ?b = "byte_addr (ma_mark a) (group_of a) 0"
  have "?b = push_bit 6 (drop_bit 6 a)"
    by (rule bit_word_eqI) (auto simp: byte_addr_def ma_mark_def group_of_def ma_group_idx_def bf_simps bit_simps
        dest: bit_imp_le_length)
  then have "unat ?b = take_bit 32 (push_bit 6 (drop_bit 6 (unat a)))"
    using unat_less_32 [of a] by (simp add: unsigned_push_bit_eq unsigned_drop_bit_eq take_bit_nat_eq_self)
  also have "\<dots> = unat a div 64 * 64"
    using unat_less_32 [of a] by (simp add: push_bit_eq_mult drop_bit_eq_div take_bit_nat_eq_self_iff
        less_le_trans [OF le_less_trans [OF div_times_less_eq_dividend]])
  finally show ?thesis using assms by (simp add: unat_MEM_SIZE_B)
qed

lemma cache_block_load_ok:
  assumes "unat a < unat MEM_SIZE_B"
  shows "\<exists>b. cache_block_load s a = Some b \<and> cb_valid b \<and> cb_mark b = ma_mark a \<and>
     block_ok X (hw_mem s) (group_of a) b"
proof -
  let ?b = "\<lparr>cb_valid = True, cb_mark = ma_mark a, cb_content = (\<lambda>i. hw_mem s ((a AND NOT 63) + ucast i))\<rparr>"
  have "ma_mark (a AND NOT 63) = ma_mark a"
    unfolding block_base by (simp add: byte_addr_parts(1) [OF mark_bound])
  moreover have "(a AND NOT 63) AND 63 = 0" by (simp add: and.assoc)
  moreover have "unat (a AND NOT 63) + 64 \<le> unat MEM_SIZE_B"
    unfolding block_base by (rule block_in_memory [OF assms])
  ultimately have "cache_block_load s a = Some ?b"
    by (simp add: cache_block_load_def Let_def CACHE_BLOCK_SIZE_def)
  moreover have "block_ok X (hw_mem s) (group_of a) ?b"
    using block_in_memory [OF assms] mark_bound(1) [of a]
    by (simp add: block_ok_def block_byte [simplified])
  ultimately show ?thesis by simp
qed

lemma cache_group_load_ok:
  assumes g: "group_ok X (hw_mem s) (group_of a) grp" and a: "unat a < unat MEM_SIZE_B"
  shows "\<exists>grp'. cache_group_load s grp a = Some grp' \<and> group_ok X (hw_mem s) (group_of a) grp' \<and>
     cache_group_has_cache grp' a"
proof -
  obtain b where b: "cache_block_load s a = Some b" "cb_valid b" "cb_mark b = ma_mark a"
    "block_ok X (hw_mem s) (group_of a) b" using cache_block_load_ok [OF a] by blast
  have len: "length grp = 8" using g by (simp add: group_ok_def)
  let ?hit = "\<lambda>b. cb_valid b \<and> cb_mark b = ma_mark a"
  have put: "group_ok X (hw_mem s) (group_of a) (grp[i := b]) \<and> cache_group_has_cache (grp[i := b]) a"
    if i: "i < 8" and o: "\<And>j. j < 8 \<Longrightarrow> j \<noteq> i \<Longrightarrow> cb_valid (grp ! j) \<Longrightarrow> cb_mark (grp ! j) \<noteq> ma_mark a" for i
  proof
    show "group_ok X (hw_mem s) (group_of a) (grp[i := b])"
      by (rule group_ok_update [OF g i b(4)]) (use o b(3) in auto)
    have "b \<in> set (grp[i := b])" using i len by (simp add: set_update_memI)
    then show "cache_group_has_cache (grp[i := b]) a"
      using b(2,3) unfolding cache_group_has_cache_def find_block_None by blast
  qed
  show ?thesis
  proof (cases "find_block ?hit grp 0")
    case (Some i)
    with find_block_Some [OF Some] len have "i < 8" "?hit (grp ! i)" by simp_all
    with g have "\<And>j. j < 8 \<Longrightarrow> j \<noteq> i \<Longrightarrow> cb_valid (grp ! j) \<Longrightarrow> cb_mark (grp ! j) \<noteq> ma_mark a"
      unfolding group_ok_def GRP_SIZE_8 by metis
    from put [OF \<open>i < 8\<close> this] Some b(1) show ?thesis by (simp add: cache_group_load_def)
  next
    case None
    then have no: "\<And>j. j < 8 \<Longrightarrow> cb_valid (grp ! j) \<Longrightarrow> cb_mark (grp ! j) \<noteq> ma_mark a"
      using len by (auto simp: find_block_None)
    have "\<exists>i<8. cache_group_load s grp a = Some (grp[i := b])"
    proof (cases "find_block (\<lambda>b. \<not> cb_valid b) grp 0")
      case (Some i)
      with find_block_Some [OF Some] len None b(1) show ?thesis by (auto simp: cache_group_load_def)
    next
      case 2: None
      with None b(1) show ?thesis
        by (intro exI [of _ "unat (eip s * 3) mod 8"]) (simp add: cache_group_load_def)
    qed
    with put no show ?thesis by metis
  qed
qed

lemma coherent_but_update:
  assumes "coherent_but X c s" "g < 128" "group_ok X (hw_mem s) g grp"
  shows "coherent_but X (c[g := grp]) s"
  using assms by (auto simp: coherent_but_def nth_list_update)

lemma cache_load_ok:
  assumes c: "coherent_but X c s" and a: "unat a < unat MEM_SIZE_B"
  shows "\<exists>c'. cache_load s c a = Some c' \<and> coherent_but X c' s \<and> cache_group_has_cache (c' ! group_of a) a"
proof -
  have g: "group_ok X (hw_mem s) (group_of a) (c ! group_of a)" "length c = 128"
    using c mark_bound(2) [of a] by (auto simp: coherent_but_def)
  from cache_group_load_ok [OF g(1) a] obtain grp where grp: "cache_group_load s (c ! group_of a) a = Some grp"
    "group_ok X (hw_mem s) (group_of a) grp" "cache_group_has_cache grp a" by blast
  from coherent_but_update [OF c mark_bound(2) grp(2)] grp g(2) mark_bound(2) [of a] show ?thesis
    by (simp add: cache_load_def)
qed

section \<open>Reading\<close>

lemma cache_read_ok:
  assumes c: "coherent_but X c s" and h: "cache_group_has_cache (c ! group_of a) a"
    and n: "in_block a n" "n \<le> 4" and x: "\<And>k. k < n \<Longrightarrow> \<not> X (a + of_nat k)"
  shows "cache_read c a n = Some (mem_get (hw_mem s) a n)"
proof -
  let ?grp = "c ! group_of a" and ?hit = "\<lambda>b. cb_valid b \<and> cb_mark b = ma_mark a"
  have g: "group_ok X (hw_mem s) (group_of a) ?grp"
    using c mark_bound(2) [of a] by (auto simp: coherent_but_def)
  obtain i where i: "find_block ?hit ?grp 0 = Some i" using h by (auto simp: cache_group_has_cache_def)
  with find_block_Some [OF i] g have b: "i < 8" "?hit (?grp ! i)" "block_ok X (hw_mem s) (group_of a) (?grp ! i)"
    by (auto simp: group_ok_def)
  have "cb_content (?grp ! i) (ucast a + of_nat k) = hw_mem s (a + of_nat k)" if "k < n" for k
    using b(2,3) x [OF that] in_block_byte [OF n(1) that] by (auto simp: block_ok_def)
  then have "mem_get (cb_content (?grp ! i)) (ucast a :: 6 word) n = mem_get (hw_mem s) a n"
    by (rule mem_get_same_bytes)
  moreover have "unat (ma_offset a) + n \<le> CACHE_BLOCK_SIZE"
    using n(1) block_left_pos(3) [of a] by (simp add: in_block_def CACHE_BLOCK_SIZE_def)
  ultimately show ?thesis
    using i n(2) by (simp add: cache_read_def cache_group_read_def cache_block_read_def unat_offset(2))
qed

lemma not_cross: "in_block a n \<Longrightarrow> cache_has_data c a n =
    (if cache_group_has_cache (c ! group_of a) a then covered else not_loaded)"
  using block_left_pos(3) [of a] by (simp add: cache_has_data_def in_block_def CACHE_BLOCK_SIZE_def)

lemma cached_read_block:
  assumes c: "coherent c s" and n: "in_block a n" "n \<le> 4" and m: "unat a + n < 0x8000000"
  shows "\<exists>c'. cached_read a n s c = Some (mem_get (hw_mem s) a n, c') \<and> coherent c' s"
proof -
  have a: "unat a < unat MEM_SIZE_B" using m by (simp add: unat_MEM_SIZE_B)
  have gt: "hw_mem_read s a n = Some (mem_get (hw_mem s) a n)" using m n(2) by (simp add: hw_mem_read_eq)
  show ?thesis
  proof (cases "cache_group_has_cache (c ! group_of a) a")
    case True
    with cache_read_ok [OF c [unfolded coherent_def] True n] gt c show ?thesis
      by (simp add: cached_read.simps [of a n] not_cross [OF n(1)])
  next
    case False
    from cache_load_ok [OF c [unfolded coherent_def] a] obtain c' where c': "cache_load s c a = Some c'"
      "coherent_but (\<lambda>_. False) c' s" "cache_group_has_cache (c' ! group_of a) a" by blast
    with False cache_read_ok [OF c'(2,3) n] gt show ?thesis
      by (simp add: cached_read.simps [of a n] not_cross [OF n(1)] coherent_def)
  qed
qed

lemma block_next:
  assumes "unat a + block_left a < 4294967296"
  shows "ma_offset (a + of_nat (block_left a)) = 0" "block_left (a + of_nat (block_left a)) = 64"
proof -
  have "unat (ma_offset x) = take_bit 6 (unat x)" for x
    by (simp add: ma_offset_def bf_get_def unsigned_take_bit_eq)
  then have "unat (ma_offset x) = unat x mod 64" for x by (simp add: take_bit_eq_mod)
  moreover from this [of a] block_left_pos(3) [of a] have "(unat a + block_left a) mod 64 = 0"
    by (metis mod_add_left_eq mod_self)
  moreover have "unat (a + of_nat (block_left a)) = unat a + block_left a"
    using assms by (simp add: unat_add_nat)
  ultimately have "unat (ma_offset (a + of_nat (block_left a))) = 0" by simp
  then show "ma_offset (a + of_nat (block_left a)) = 0" by (simp add: unat_eq_0)
  then show "block_left (a + of_nat (block_left a)) = 64" by (simp add: block_left_def CACHE_BLOCK_SIZE_def)
qed

lemma crossing:
  assumes "\<not> in_block a n" "n \<le> 4" "unat a + n < 0x8000000"
  shows "cache_has_data c a n = cross_block" "block_left a < n" "block_left a < 4"
    "in_block a (block_left a)" "in_block (a + of_nat (block_left a)) (n - block_left a)"
    "unat (a + of_nat (block_left a)) + (n - block_left a) = unat a + n" "\<not> 32 \<le> block_left a * 8"
proof -
  show l: "block_left a < n" using assms(1) by (simp add: in_block_def)
  then show "block_left a < 4" "\<not> 32 \<le> block_left a * 8" using assms(2) by simp_all
  show "cache_has_data c a n = cross_block"
    using l block_left_pos(3) [of a] by (simp add: cache_has_data_def CACHE_BLOCK_SIZE_def)
  show "in_block a (block_left a)" by (simp add: in_block_def)
  have u: "unat (a + of_nat (block_left a)) = unat a + block_left a"
    using assms(3) l by (simp add: unat_add_nat)
  show "unat (a + of_nat (block_left a)) + (n - block_left a) = unat a + n" unfolding u using l by simp
  show "in_block (a + of_nat (block_left a)) (n - block_left a)"
    using assms l by (simp add: in_block_def block_next)
qed

lemma cached_read_ok:
  assumes c: "coherent c s" and n: "n \<le> 4" and m: "unat a + n < 0x8000000"
  shows "\<exists>c'. cached_read a n s c = Some (mem_get (hw_mem s) a n, c') \<and> coherent c' s"
proof (cases "in_block a n")
  case False
  note x = crossing [OF False n m]
  have le: "block_left a \<le> 4" "n - block_left a \<le> 4" "unat a + block_left a < 0x8000000"
    using x(2,3) n m by simp_all
  from cached_read_block [OF c x(4) le(1,3)] obtain c1 where
    c1: "cached_read a (block_left a) s c = Some (mem_get (hw_mem s) a (block_left a), c1)" "coherent c1 s" by blast
  have "unat (a + of_nat (block_left a)) + (n - block_left a) < 0x8000000" unfolding x(6) by (rule m)
  from cached_read_block [OF c1(2) x(5) le(2) this] obtain c2 where
    c2: "cached_read (a + of_nat (block_left a)) (n - block_left a) s c1 =
      Some (mem_get (hw_mem s) (a + of_nat (block_left a)) (n - block_left a), c2)" "coherent c2 s" by blast
  have "cached_read a n s c = Some (mem_get (hw_mem s) a n, c2)"
    using c1(1) c2(1) x(1,2,7) m n
    by (simp add: hw_mem_read_eq mem_get_split [of "block_left a" n, symmetric] Let_def cached_read.simps [of a n])
  with c2(2) show ?thesis by blast
qed (use cached_read_block [OF c _ n m] in blast)

section \<open>Writing\<close>

definition outside :: "(u32 \<Rightarrow> bool) \<Rightarrow> u32 \<Rightarrow> nat \<Rightarrow> u32 \<Rightarrow> bool" where
  "outside X a n x \<longleftrightarrow> X x \<and> \<not> unat (x - a) < n"

lemma outside_none: "outside (\<lambda>_. False) a n = (\<lambda>_. False)"
  by (simp add: fun_eq_iff outside_def)

lemma block_ok_other:
  assumes b: "block_ok X m g b" and g: "g < 128" "g \<noteq> group_of a \<or> cb_mark b \<noteq> ma_mark a"
    and n: "in_block a n" "n \<le> 4"
  shows "block_ok (outside X a n) (mem_put m a n d) g b"
proof -
  have mk: "cb_mark b = take_bit 19 (cb_mark b)" using b by (simp add: block_ok_def)
  have "\<not> unat (byte_addr (cb_mark b) g i - a) < n" for i
    using in_block_parts [OF n(1), of "byte_addr (cb_mark b) g i"] byte_addr_parts [OF mk g(1)] g(2) by auto
  with b n(2) show ?thesis by (simp add: block_ok_def outside_def mem_put_apply)
qed

lemma block_ok_same:
  assumes b: "block_ok X m (group_of a) b" "cb_mark b = ma_mark a" and n: "in_block a n" "n \<le> 4"
  shows "block_ok (outside X a n) (mem_put m a n d) (group_of a)
    (b\<lparr>cb_content := mem_put (cb_content b) (ucast a) n d\<rparr>)"
  using b n(2) in_block_diff [OF n(1)]
  by (simp add: block_ok_def outside_def mem_put_apply)

lemma group_ok_other:
  assumes "group_ok X m g grp" "g < 128" "in_block a n" "n \<le> 4"
    and "g \<noteq> group_of a \<or> \<not> cache_group_has_cache grp a"
  shows "group_ok (outside X a n) (mem_put m a n d) g grp"
proof -
  have "block_ok (outside X a n) (mem_put m a n d) g (grp ! i)" if i: "i < 8" "cb_valid (grp ! i)" for i
  proof (rule block_ok_other [OF _ assms(2) _ assms(3,4)])
    show "block_ok X m g (grp ! i)" using assms(1) i by (simp add: group_ok_def)
    have "grp ! i \<in> set grp" using assms(1) i by (simp add: group_ok_def)
    then show "g \<noteq> group_of a \<or> cb_mark (grp ! i) \<noteq> ma_mark a"
      using assms(5) i by (auto simp: cache_group_has_cache_def find_block_None)
  qed
  with assms(1) show ?thesis by (simp add: group_ok_def)
qed

lemma cache_group_write_ok:
  assumes g: "group_ok X m (group_of a) grp" and n: "in_block a n" "n \<le> 4" and h: "cache_group_has_cache grp a"
  shows "\<exists>grp'. cache_group_write grp a d n = Some grp' \<and>
     group_ok (outside X a n) (mem_put m a n d) (group_of a) grp'"
proof -
  let ?hit = "\<lambda>b. cb_valid b \<and> cb_mark b = ma_mark a"
  obtain i where i: "find_block ?hit grp 0 = Some i" using h by (auto simp: cache_group_has_cache_def)
  have len: "length grp = 8" using g by (simp add: group_ok_def)
  from find_block_Some [OF i] len have b: "i < 8" "?hit (grp ! i)" by simp_all
  let ?b = "(grp ! i)\<lparr>cb_content := mem_put (cb_content (grp ! i)) (ucast a) n d\<rparr>"
  have "unat (ma_offset a) + n \<le> CACHE_BLOCK_SIZE"
    using n(1) block_left_pos(3) [of a] by (simp add: in_block_def CACHE_BLOCK_SIZE_def)
  then have w: "cache_group_write grp a d n = Some (grp[i := ?b])"
    using i n(2) by (simp add: cache_group_write_def cache_block_write_def unat_offset(2))
  have other: "cb_mark (grp ! j) \<noteq> ma_mark a" if "j < 8" "j \<noteq> i" "cb_valid (grp ! j)" for j
    using g b that unfolding group_ok_def GRP_SIZE_8 by metis
  have "block_ok (outside X a n) (mem_put m a n d) (group_of a) ?b"
    by (rule block_ok_same [OF _ _ n]) (use g b in \<open>simp_all add: group_ok_def\<close>)
  moreover have "block_ok (outside X a n) (mem_put m a n d) (group_of a) (grp ! j)"
    if "j < 8" "j \<noteq> i" "cb_valid (grp ! j)" for j
    by (rule block_ok_other [OF _ mark_bound(2) _ n]) (use g that other [OF that] in \<open>simp_all add: group_ok_def\<close>)
  ultimately have ok: "block_ok (outside X a n) (mem_put m a n d) (group_of a) (grp[i := ?b] ! j)"
    if "j < 8" "cb_valid (grp ! j)" for j
    using that b len by (cases "j = i") simp_all
  have same: "cb_mark (grp[i := ?b] ! j) = cb_mark (grp ! j)" "cb_valid (grp[i := ?b] ! j) = cb_valid (grp ! j)"
    if "j < 8" for j
    using that b len by (cases "j = i"; simp)+
  have "group_ok (outside X a n) (mem_put m a n d) (group_of a) (grp[i := ?b])"
    using g ok same unfolding group_ok_def by simp
  with w show ?thesis by blast
qed

lemma cached_write_block:
  assumes c: "coherent_but X c s" and n: "in_block a n" "n \<le> 4" and m: "unat a + n < 0x8000000"
  shows "\<exists>c'. cached_write a n d (c, s) = Some (c', s\<lparr>hw_mem := mem_put (hw_mem s) a n d\<rparr>) \<and>
     coherent_but (outside X a n) c' (s\<lparr>hw_mem := mem_put (hw_mem s) a n d\<rparr>)"
proof -
  let ?m = "mem_put (hw_mem s) a n d"
  have w: "hw_mem_write s a n d = Some (s\<lparr>hw_mem := ?m\<rparr>)" using m n(2) by (simp add: hw_mem_write_eq)
  have g: "group_ok X (hw_mem s) g (c ! g)" "length c = 128" if "g < 128" for g
    using c that by (auto simp: coherent_but_def)
  have len: "length c = 128" using c by (simp add: coherent_but_def)
  show ?thesis
  proof (cases "cache_group_has_cache (c ! group_of a) a")
    case True
    from cache_group_write_ok [OF g(1) [OF mark_bound(2)] n True, of d] obtain grp where
      grp: "cache_group_write (c ! group_of a) a d n = Some grp" "group_ok (outside X a n) ?m (group_of a) grp" by blast
    have "group_ok (outside X a n) ?m g (c[group_of a := grp] ! g)" if "g < 128" for g
    proof (cases "g = group_of a")
      case True
      with grp(2) len mark_bound(2) [of a] show ?thesis by simp
    next
      case False
      with group_ok_other [OF g(1) [OF that] that n] show ?thesis by simp
    qed
    with len have "coherent_but (outside X a n) (c[group_of a := grp]) (s\<lparr>hw_mem := ?m\<rparr>)"
      by (simp add: coherent_but_def)
    with w grp(1) True show ?thesis
      by (simp add: cached_write.simps [of a n] not_cross [OF n(1)] cache_write_def)
  next
    case False
    have "group_ok (outside X a n) ?m g (c ! g)" if "g < 128" for g
      using group_ok_other [OF g(1) [OF that] that n] False by blast
    with len have "coherent_but (outside X a n) c (s\<lparr>hw_mem := ?m\<rparr>)" by (simp add: coherent_but_def)
    with w False show ?thesis by (simp add: cached_write.simps [of a n] not_cross [OF n(1)])
  qed
qed

lemma coherent_but_mono:
  "coherent_but X c s \<Longrightarrow> (\<And>x. X x \<Longrightarrow> Y x) \<Longrightarrow> coherent_but Y c s"
  unfolding coherent_but_def group_ok_def block_ok_def by meson

lemma coherent_but_mem_put:
  assumes "coherent c s" "n \<le> 4"
  shows "coherent_but (\<lambda>x. unat (x - a) < n) c (s\<lparr>hw_mem := mem_put (hw_mem s) a n d\<rparr>)"
  using assms by (simp add: coherent_def coherent_but_def group_ok_def block_ok_def mem_put_apply)

text \<open>
  What a write really stores: where it crosses into the next block, the upper part is not shifted
  down, so that byte \<open>i\<close> of the second block is byte \<open>i\<close> of the data, cleared if it belongs to the
  lower part.
\<close>

definition cross_data :: "nat \<Rightarrow> u32 \<Rightarrow> u32" where
  "cross_data k d = take_bit (8 * k) d OR push_bit (8 * k) (d AND NOT (mask (8 * k)))"

definition written_data :: "u32 \<Rightarrow> nat \<Rightarrow> u32 \<Rightarrow> u32" where
  "written_data a n d = (if in_block a n then d else cross_data (block_left a) d)"

lemma mem_put_cong_data:
  fixes a :: u32
  assumes "n \<le> 4" "take_bit (8 * n) d = take_bit (8 * n) d'"
  shows "mem_put m a n d = mem_put m a n d'"
proof (rule ext)
  fix b
  have "(ucast (drop_bit (8 * k) d) :: u8) = ucast (drop_bit (8 * k) d')" if k: "k < n" for k
  proof (rule bit_word_eqI)
    fix i assume i: "i < LENGTH(8)"
    have "bit (take_bit (8 * n) d) (8 * k + i) = bit (take_bit (8 * n) d') (8 * k + i)" by (simp only: assms(2))
    moreover have "8 * k + i < 8 * n" using k i by simp
    ultimately show "bit (ucast (drop_bit (8 * k) d) :: u8) i = bit (ucast (drop_bit (8 * k) d') :: u8) i"
      using i by (simp add: bit_simps)
  qed
  with assms(1) show "mem_put m a n d b = mem_put m a n d' b" by (simp add: mem_put_apply)
qed

lemma cross_write_mem:
  fixes a :: u32
  assumes "k < n" "n \<le> 4"
  shows "mem_put (mem_put (mem_put m a n d) a k (d AND (push_bit (k * 8) 1 - 1)))
      (a + of_nat k) (n - k) (d AND NOT (push_bit (k * 8) 1 - 1)) = mem_put m a n (cross_data k d)"
proof -
  let ?e = "cross_data k d"
  have m: "push_bit (k * 8) 1 - 1 = (mask (8 * k) :: u32)" by (simp add: mask_eq_exp_minus_1 mult.commute)
  have lo: "?e AND (2 ^ (k * 8) - 1) = d AND mask (8 * k)"
    by (rule bit_word_eqI) (auto simp: cross_data_def bit_simps mask_eq_exp_minus_1 [symmetric] mult.commute)
  have hi: "take_bit (8 * (n - k)) (drop_bit (k * 8) ?e) = take_bit (8 * (n - k)) (d AND NOT (mask (8 * k)))"
    using assms by (intro bit_word_eqI) (auto simp: cross_data_def bit_simps mult.commute)
  have "mem_put m a n ?e = mem_put (mem_put m a k (d AND mask (8 * k))) (a + of_nat k) (n - k) (drop_bit (k * 8) ?e)"
    using mem_put_split [of k n m a ?e] assms by (simp only: lo)
  also have "\<dots> = mem_put (mem_put m a k (d AND mask (8 * k))) (a + of_nat k) (n - k) (d AND NOT (mask (8 * k)))"
    by (rule mem_put_cong_data) (use assms hi in simp_all)
  also have "\<dots> = mem_put (mem_put (mem_put m a n d) a k (d AND mask (8 * k))) (a + of_nat k) (n - k) (d AND NOT (mask (8 * k)))"
  proof (rule ext)
    fix b
    have "unat (b - a) < n" if "\<not> unat (b - a) < k" "unat (b - (a + of_nat k)) < n - k"
      using that assms by (simp add: unat_diff_nat split: if_splits)
    moreover have "unat (b - (a + of_nat k)) < n - k" if "\<not> unat (b - a) < k" "unat (b - a) < n"
      using that assms by (simp add: unat_diff_nat)
    ultimately show "mem_put (mem_put m a k (d AND mask (8 * k))) (a + of_nat k) (n - k) (d AND NOT (mask (8 * k))) b =
      mem_put (mem_put (mem_put m a n d) a k (d AND mask (8 * k))) (a + of_nat k) (n - k) (d AND NOT (mask (8 * k))) b"
      using assms by (auto simp: mem_put_apply)
  qed
  finally show ?thesis unfolding m by simp
qed

lemma cached_write_ok:
  assumes c: "coherent c s" and n: "n \<le> 4" and m: "unat a + n < 0x8000000"
  shows "\<exists>c'. cached_write a n d (c, s) = Some (c', s\<lparr>hw_mem := mem_put (hw_mem s) a n (written_data a n d)\<rparr>) \<and>
     coherent c' (s\<lparr>hw_mem := mem_put (hw_mem s) a n (written_data a n d)\<rparr>)"
proof (cases "in_block a n")
  case True
  from cached_write_block [OF c [unfolded coherent_def] True n m, of d] True
  show ?thesis by (simp add: written_data_def coherent_def outside_none)
next
  case False
  note x = crossing [OF False n m]
  let ?k = "block_left a" and ?l = "push_bit (block_left a * 8) 1 - 1 :: u32"
  let ?s1 = "s\<lparr>hw_mem := mem_put (hw_mem s) a n d\<rparr>"
  have le: "?k \<le> 4" "n - ?k \<le> 4" "unat a + ?k < 0x8000000" "unat (a + of_nat ?k) + (n - ?k) < 0x8000000"
    using x(2,3) n m x(6) by simp_all
  have w: "hw_mem_write s a n d = Some ?s1" using m n by (simp add: hw_mem_write_eq)
  note cb = coherent_but_mem_put [OF c n, where a = a and d = d]
  from cached_write_block [OF cb x(4) le(1,3), of "d AND ?l"]
  obtain c1 where c1: "cached_write a ?k (d AND ?l) (c, ?s1) =
      Some (c1, ?s1\<lparr>hw_mem := mem_put (hw_mem ?s1) a ?k (d AND ?l)\<rparr>)"
    "coherent_but (outside (\<lambda>x. unat (x - a) < n) a ?k) c1 (?s1\<lparr>hw_mem := mem_put (hw_mem ?s1) a ?k (d AND ?l)\<rparr>)"
    by blast
  from cached_write_block [OF c1(2) x(5) le(2,4), of "d AND NOT ?l"]
  obtain c2 where c2: "cached_write (a + of_nat ?k) (n - ?k) (d AND NOT ?l)
        (c1, ?s1\<lparr>hw_mem := mem_put (hw_mem ?s1) a ?k (d AND ?l)\<rparr>) =
      Some (c2, s\<lparr>hw_mem := mem_put (hw_mem s) a n (cross_data ?k d)\<rparr>)"
    "coherent_but (outside (outside (\<lambda>x. unat (x - a) < n) a ?k) (a + of_nat ?k) (n - ?k)) c2
      (s\<lparr>hw_mem := mem_put (hw_mem s) a n (cross_data ?k d)\<rparr>)"
    using cross_write_mem [OF x(2) n, of "hw_mem s" a d] by auto
  have "\<not> outside (outside (\<lambda>x. unat (x - a) < n) a ?k) (a + of_nat ?k) (n - ?k) b" for b
    using x(2) n by (auto simp: outside_def unat_diff_nat split: if_splits)
  then have "coherent c2 (s\<lparr>hw_mem := mem_put (hw_mem s) a n (cross_data ?k d)\<rparr>)"
    unfolding coherent_def by (intro coherent_but_mono [OF c2(2)]) blast
  moreover have "cached_write a n d (c, s) = Some (c2, s\<lparr>hw_mem := mem_put (hw_mem s) a n (cross_data ?k d)\<rparr>)"
    using w c1(1) c2(1) x(1) x(7) by (simp add: cached_write.simps [of a n] Let_def)
  ultimately show ?thesis using False by (simp add: written_data_def)
qed

section \<open>The contract of a write-through cache\<close>

text \<open>
  A store with reads \<open>rd\<close> and writes \<open>wr\<close>, and the same store behind a cache: as long as the cache is
  coherent, the cached operations return what the plain ones return and keep it so.
\<close>

locale write_through =
  fixes rd :: "'a \<Rightarrow> 's \<Rightarrow> 'v option" and wr :: "'w \<Rightarrow> 's \<Rightarrow> 's option"
    and crd :: "'a \<Rightarrow> 'c \<times> 's \<Rightarrow> ('v \<times> 'c) option" and cwr :: "'w \<Rightarrow> 'c \<times> 's \<Rightarrow> ('c \<times> 's) option"
    and coh :: "'c \<Rightarrow> 's \<Rightarrow> bool" and okr :: "'a \<Rightarrow> bool" and okw :: "'w \<Rightarrow> bool"
  assumes crd_law: "coh c s \<Longrightarrow> okr a \<Longrightarrow> rd a s = Some v \<Longrightarrow> \<exists>c'. crd a (c, s) = Some (v, c') \<and> coh c' s"
    and cwr_law: "coh c s \<Longrightarrow> okw w \<Longrightarrow> wr w s = Some t \<Longrightarrow> \<exists>c'. cwr w (c, s) = Some (c', t) \<and> coh c' t"
begin

text \<open>A sequence of reads (\<open>Inl\<close>) and writes (\<open>Inr\<close>), and the values it reads.\<close>

fun plain :: "('a + 'w) list \<Rightarrow> 's \<Rightarrow> ('v list \<times> 's) option" where
  "plain [] s = Some ([], s)"
| "plain (Inl a # ops) s = do { v \<leftarrow> rd a s; (vs, s) \<leftarrow> plain ops s; Some (v # vs, s) }"
| "plain (Inr w # ops) s = do { s \<leftarrow> wr w s; plain ops s }"

fun through :: "('a + 'w) list \<Rightarrow> 'c \<Rightarrow> 's \<Rightarrow> ('v list \<times> 'c \<times> 's) option" where
  "through [] c s = Some ([], c, s)"
| "through (Inl a # ops) c s = do { (v, c) \<leftarrow> crd a (c, s); (vs, c, s) \<leftarrow> through ops c s; Some (v # vs, c, s) }"
| "through (Inr w # ops) c s = do { (c, s) \<leftarrow> cwr w (c, s); through ops c s }"

lemma through_plain:
  "coh c s \<Longrightarrow> list_all (case_sum okr okw) ops \<Longrightarrow> plain ops s = Some (vs, t) \<Longrightarrow>
   \<exists>c'. through ops c s = Some (vs, c', t) \<and> coh c' t"
proof (induction ops s arbitrary: c vs rule: plain.induct)
  case (2 a ops s)
  then obtain v vs' where v: "rd a s = Some v" "plain ops s = Some (vs', t)" "vs = v # vs'"
    by (auto split: bind_splits)
  from 2 have "coh c s" "okr a" by simp_all
  from crd_law [OF this v(1)] obtain c1 where c1: "crd a (c, s) = Some (v, c1)" "coh c1 s" by blast
  from "2.IH" [OF v(1) c1(2) _ v(2)] "2.prems"(2) c1(1) v(3) show ?case by auto
next
  case (3 w ops s)
  then obtain s1 where w: "wr w s = Some s1" "plain ops s1 = Some (vs, t)" by (auto split: bind_splits)
  from 3 have "coh c s" "okw w" by simp_all
  from cwr_law [OF this w(1)] obtain c1 where c1: "cwr w (c, s) = Some (c1, s1)" "coh c1 s1" by blast
  from "3.IH" [OF w(1) c1(2) _ w(2)] "3.prems"(2) c1(1) show ?case by auto
qed simp

end

definition plain_read :: "u32 \<times> nat \<Rightarrow> machine \<Rightarrow> u32 option" where
  "plain_read = (\<lambda>(a, n) s. hw_mem_read s a n)"
definition plain_write :: "u32 \<times> nat \<times> u32 \<Rightarrow> machine \<Rightarrow> machine option" where
  "plain_write = (\<lambda>(a, n, d) s. hw_mem_write s a n d)"
definition via_read :: "u32 \<times> nat \<Rightarrow> cache \<times> machine \<Rightarrow> (u32 \<times> cache) option" where
  "via_read = (\<lambda>(a, n) (c, s). cached_read a n s c)"
definition via_write :: "u32 \<times> nat \<times> u32 \<Rightarrow> cache \<times> machine \<Rightarrow> (cache \<times> machine) option" where
  "via_write = (\<lambda>(a, n, d) cs. cached_write a n d cs)"

lemma plain_apply: "plain_read (a, n) s = hw_mem_read s a n" "plain_write (a, n, d) s = hw_mem_write s a n d"
  by (simp_all add: plain_read_def plain_write_def)

lemma hw_mem_read_SomeE:
  assumes "hw_mem_read s a n = Some v"
  shows "n \<le> 4" "unat a + n < 0x8000000" "v = mem_get (hw_mem s) a n"
proof -
  show n: "n \<le> 4" using assms by (auto simp: hw_mem_read_def in_array_def split: if_splits)
  show "unat a + n < 0x8000000" "v = mem_get (hw_mem s) a n"
    using assms by (auto simp: hw_mem_read_eq [OF n] split: if_splits)
qed

lemma hw_mem_write_SomeE:
  assumes "hw_mem_write s a n d = Some t"
  shows "n \<le> 4" "unat a + n < 0x8000000" "t = s\<lparr>hw_mem := mem_put (hw_mem s) a n d\<rparr>"
proof -
  show n: "n \<le> 4" using assms by (auto simp: hw_mem_write_def in_array_def split: if_splits)
  show "unat a + n < 0x8000000" "t = s\<lparr>hw_mem := mem_put (hw_mem s) a n d\<rparr>"
    using assms by (auto simp: hw_mem_write_eq [OF n] split: if_splits)
qed

interpretation nemu_cache: write_through plain_read plain_write via_read via_write coherent
  "\<lambda>_. True" "\<lambda>(a, n, d). in_block a n"
proof unfold_locales
  fix c s r v
  assume c: "coherent c s" and "plain_read r s = Some v"
  then obtain a n where r: "r = (a, n)" "hw_mem_read s a n = Some v" by (cases r) (auto simp: plain_read_def)
  from cached_read_ok [OF c hw_mem_read_SomeE(1,2) [OF r(2)]] hw_mem_read_SomeE(3) [OF r(2)]
  show "\<exists>c'. via_read r (c, s) = Some (v, c') \<and> coherent c' s" by (auto simp: via_read_def r(1))
next
  fix c s w t
  assume c: "coherent c s" and b: "case w of (a, n, d) \<Rightarrow> in_block a n" and "plain_write w s = Some t"
  then obtain a n d where w: "w = (a, n, d)" "hw_mem_write s a n d = Some t" by (cases w) (auto simp: plain_write_def)
  from cached_write_ok [OF c hw_mem_write_SomeE(1,2) [OF w(2)], of d] hw_mem_write_SomeE(3) [OF w(2)] b
  show "\<exists>c'. via_write w (c, s) = Some (c', t) \<and> coherent c' t" by (auto simp: via_write_def w(1) written_data_def)
qed

section \<open>The properties\<close>

text \<open>C17: a read through a coherent cache, also one that crosses blocks, returns exactly what the memory
  holds, or fails exactly where the memory access fails: the self-check of \<open>cached_read\<close> never fires. The
  cache stays coherent.\<close>

theorem cached_read_correct:
  "coherent c s \<Longrightarrow>
     (case hw_mem_read s a n of
        None \<Rightarrow> cached_read a n s c = None
      | Some v \<Rightarrow> \<exists>c'. cached_read a n s c = Some (v, c') \<and> coherent c' s)"
proof (cases "hw_mem_read s a n")
  case None
  then show ?thesis by (simp add: cached_read.simps [of a n] split_beta bind_eq_None_conv)
next
  case (Some v)
  assume "coherent c s"
  from cached_read_ok [OF this hw_mem_read_SomeE(1,2) [OF Some]] Some hw_mem_read_SomeE(3) [OF Some]
  show ?thesis by simp
qed

text \<open>A cache as \<open>init_cache\<close> leaves it.\<close>

definition empty_cache :: cache where
  "empty_cache = cache_init (replicate 128 (replicate 8 \<lparr>cb_valid = False, cb_mark = 0, cb_content = (\<lambda>_. 0)\<rparr>))"

lemma empty_cache_coherent: "coherent empty_cache s"
  by (simp add: coherent_def coherent_but_def group_ok_def empty_cache_def cache_init_def cache_group_init_def
      cache_block_init_def)

text \<open>A memory with the word 0xabcd1234 at 0x103e, across the border of two blocks.\<close>

definition cache_machine :: machine where
  "cache_machine = machine0\<lparr>hw_mem := mem_put (\<lambda>_. 0) 0x103e 4 0xabcd1234\<rparr>"

lemma cache_machine_word: "mem_get (hw_mem cache_machine) 0x103e 4 = 0xabcd1234"
  by (simp add: cache_machine_def mem_get_mem_put_same take_bit_word_eq_self)

theorem cached_read_correct_witness:
  "\<exists>c'. cached_read 0x103e 4 cache_machine empty_cache = Some (0xabcd1234, c') \<and> coherent c' cache_machine"
proof -
  have "hw_mem_read cache_machine 0x103e 4 = Some 0xabcd1234"
    by (simp add: hw_mem_read_eq cache_machine_word)
  with cached_read_correct [OF empty_cache_coherent, where s = cache_machine and a = "0x103e" and n = 4] show ?thesis by simp
qed

text \<open>a write inside a block goes through to the memory, exactly as without the cache, and updates the
  block if it is loaded.\<close>

theorem cached_write_correct:
  "coherent c s \<Longrightarrow> in_block a n \<Longrightarrow>
     (case hw_mem_write s a n d of
        None \<Rightarrow> cached_write a n d (c, s) = None
      | Some t \<Rightarrow> \<exists>c'. cached_write a n d (c, s) = Some (c', t) \<and> coherent c' t)"
proof (cases "hw_mem_write s a n d")
  case None
  then show ?thesis by (simp add: cached_write.simps [of a n])
next
  case (Some t)
  assume "coherent c s" "in_block a n"
  with cached_write_ok [OF this(1) hw_mem_write_SomeE(1,2) [OF Some], of d] Some hw_mem_write_SomeE(3) [OF Some]
  show ?thesis by (simp add: written_data_def)
qed

theorem cached_write_correct_witness:
  "\<exists>c' t. cached_write 0x103c 4 7 (empty_cache, cache_machine) = Some (c', t) \<and> coherent c' t"
proof -
  have "in_block 0x103c 4"
    by (simp add: in_block_def block_left_def ma_offset_def bf_get_def CACHE_BLOCK_SIZE_def)
  from cached_write_correct [OF empty_cache_coherent this, where s = cache_machine and d = 7] show ?thesis
    by (auto simp: hw_mem_write_eq)
qed

text \<open>A write that crosses into the next block corrupts the memory: the upper part of the data is masked
  but not shifted down before it is written to the next block. A 32-bit write two bytes before the border
  stores zero in place of its upper half. The cache agrees with the corrupted memory.\<close>

theorem cached_write_cross:
  "coherent c s \<Longrightarrow> n \<le> 4 \<Longrightarrow> \<not> in_block a n \<Longrightarrow> hw_mem_write s a n (cross_data (block_left a) d) = Some t \<Longrightarrow>
     (\<exists>c'. cached_write a n d (c, s) = Some (c', t) \<and> coherent c' t) \<and>
     (block_left a = 2 \<longrightarrow> cross_data (block_left a) d = take_bit 16 d)"
proof -
  assume c: "coherent c s" and n: "n \<le> 4" "\<not> in_block a n"
    and w: "hw_mem_write s a n (cross_data (block_left a) d) = Some t"
  have "cross_data 2 d = take_bit 16 d" for d
    by (rule bit_word_eqI) (auto simp: cross_data_def bit_simps)
  with cached_write_ok [OF c n(1) hw_mem_write_SomeE(2) [OF w], of d] hw_mem_write_SomeE(3) [OF w] n(2)
  show ?thesis by (simp add: written_data_def)
qed

theorem cached_write_cross_witness:
  "\<exists>c'. cached_write 0x103e 4 0xffffffff (empty_cache, cache_machine) =
     Some (c', cache_machine\<lparr>hw_mem := mem_put (hw_mem cache_machine) 0x103e 4 0xffff\<rparr>)"
proof -
  have l: "block_left 0x103e = 2"
    by (simp add: block_left_def ma_offset_def bf_get_def CACHE_BLOCK_SIZE_def)
  have x: "cross_data 2 0xffffffff = 0xffff" by (simp add: cross_data_def mask_eq_exp_minus_1)
  have "\<not> in_block 0x103e 4" by (simp add: in_block_def l)
  from cached_write_cross [OF empty_cache_coherent _ this, where s = cache_machine and d = "0xffffffff"] show ?thesis
    by (auto simp: hw_mem_write_eq l x)
qed

text \<open>C18: any sequence of reads, and of writes that stay inside their blocks, gives through the cache the same
  values and the same memory as without it.\<close>

theorem cache_transparent:
  "coherent c s \<Longrightarrow> list_all (case_sum (\<lambda>_. True) (\<lambda>(a, n, d). in_block a n)) ops \<Longrightarrow>
   nemu_cache.plain ops s = Some (vs, t) \<Longrightarrow>
     \<exists>c'. nemu_cache.through ops c s = Some (vs, c', t) \<and> coherent c' t"
  by (rule nemu_cache.through_plain)

theorem cache_transparent_witness:
  "\<exists>c' t. nemu_cache.through [Inr (0x103c, 4, 7), Inl (0x103c, 4)] empty_cache cache_machine = Some ([7], c', t)"
proof -
  have "in_block 0x103c 4"
    by (simp add: in_block_def block_left_def ma_offset_def bf_get_def CACHE_BLOCK_SIZE_def)
  moreover have "nemu_cache.plain [Inr (0x103c, 4, 7), Inl (0x103c, 4)] cache_machine =
      Some ([7], cache_machine\<lparr>hw_mem := mem_put (hw_mem cache_machine) 0x103c 4 7\<rparr>)"
    by (simp add: nemu_cache.plain.simps plain_apply hw_mem_write_eq hw_mem_read_eq mem_get_mem_put_same)
  ultimately show ?thesis
    using cache_transparent [OF empty_cache_coherent, where s = cache_machine
      and ops = "[Inr (0x103c, 4, 7), Inl (0x103c, 4)]"]
    by auto
qed

end
