(* ===== verification/Dispatch_Correct.thy ===== *)
theory Dispatch_Correct
  imports Control_Correct Opcode
begin

text \<open>
  The dispatch tables and the repeat prefix: a result does not depend on the fuel that stands for the
  host's stack; \<open>rep stosb\<close> fills memory and \<open>rep movsb\<close> copies it; the comparison with \<open>repe\<close> leaves
  its loop on the wrong condition.
\<close>

section \<open>Fuel\<close>

text \<open>Only the two prefixes call back into the table.\<close>

lemma opcode_entry_prefixes:
  "opcode_entry e = (opcode_entry e')[0x66 := data_size_16 e, 0xf3 := rep_repe e]"
  by (simp add: opcode_entry_def)

lemma opcode_entry_nth:
  "opcode_entry e ! i = (if i = 0x66 then data_size_16 e else if i = 0xf3 then rep_repe e else opcode_entry e' ! i)"
  if "i < 256"
  using that by (subst opcode_entry_prefixes [of e e']) (simp add: nth_list_update)

lemma opcode_entry_66: "opcode_entry e ! 102 = data_size_16 e"
  and opcode_entry_f3: "opcode_entry e ! 243 = rep_repe e"
  by (simp_all add: opcode_entry_def)

definition extends :: "instr_func \<Rightarrow> instr_func \<Rightarrow> bool" where
  "extends e e' \<longleftrightarrow> (\<forall>pc op s r. e pc op s = Some r \<longrightarrow> e' pc op s = Some r)"

lemma rep_loop_extends:
  assumes "\<And>s t. run s = Some t \<Longrightarrow> run' s = Some t" "rep_loop run op s = Some t"
  shows "rep_loop run' op s = Some t"
proof -
  let ?P = "\<lambda>r op s t. r = run \<longrightarrow> rep_loop run' op s = Some t"
  have "?P run op s t"
  proof (rule rep_loop.raw_induct [where P = ?P, OF _ assms(2)])
    fix f :: "(machine \<Rightarrow> machine option) \<Rightarrow> u8 \<Rightarrow> machine \<Rightarrow> machine option" and r op s t
    assume IH: "\<And>r op s t. f r op s = Some t \<Longrightarrow> ?P r op s t"
      and e: "(if ecx s \<noteq> 0
        then r s \<bind> (\<lambda>s. let s = set_gpr 1 (ecx s - 1) s in if rep_stops op s then Some s else f r op s)
        else Some s) = Some t"
    show "?P r op s t"
      using e by (subst rep_loop.simps) (auto simp: Let_def assms(1) dest!: IH split: if_splits bind_splits)
  qed
  then show ?thesis by simp
qed

lemma opcode_entry_extends:
  assumes "extends e e'"
  shows "(opcode_entry e ! unat op) pc op s = Some r \<Longrightarrow> (opcode_entry e' ! unat op) pc op s = Some r"
proof -
  have u: "unat op < 256" for op :: u8 using unsigned_less [of op] by simp
  have ext: "e pc op s = Some r \<Longrightarrow> e' pc op s = Some r" for pc op s r using assms unfolding extends_def by blast
  assume a: "(opcode_entry e ! unat op) pc op s = Some r"
  consider "unat op = 0x66" | "unat op = 0xf3" | "unat op \<noteq> 0x66" "unat op \<noteq> 0xf3" by blast
  then show ?thesis
  proof cases
    case 1
    with a ext show ?thesis
      by (auto simp: opcode_entry_66 data_size_16_def Let_def split: bind_splits prod.splits)
  next
    case 2
    have loop: "rep_loop (\<lambda>s. map_option snd (e' pc' o' s)) o' s = Some t"
      if "rep_loop (\<lambda>s. map_option snd (e pc' o' s)) o' s = Some t" for pc' o' s t
      by (rule rep_loop_extends [OF _ that]) (auto dest: ext)
    from a have "rep_repe e pc op s = Some r" by (simp add: 2 opcode_entry_f3)
    then have "rep_repe e' pc op s = Some r"
      by (auto simp: rep_repe_def Let_def split: bind_splits if_splits dest!: loop ext)
    then show ?thesis by (simp add: 2 opcode_entry_f3)
  next
    case 3
    with a show ?thesis using opcode_entry_nth [OF u, where e = e and e' = e'] by simp
  qed
qed

lemma exec_opcode_extends: "extends (exec_opcode d) (exec_opcode (Suc d))"
proof (induction d)
  case (Suc d)
  have "exec_opcode (Suc (Suc d)) pc op s = Some r" if "exec_opcode (Suc d) pc op s = Some r" for pc op s r
    using opcode_entry_extends [OF Suc] that
    unfolding exec_opcode.simps(2) [where d = d and pc = pc and op = op and s = s] exec_opcode.simps(2) [where d = "Suc d" and pc = pc and op = op and s = s] by blast
  then show ?case unfolding extends_def by blast
qed (simp add: extends_def)

section \<open>String instructions on RAM\<close>

lemma mem_opr_read8:
  "ram s r a 1 \<Longrightarrow> operand_read (mem_opr s r a 8) s = Some ((mem_opr s r a 8)\<lparr>o_val := ucast (hw_mem s (lin s r a))\<rparr>)"
  using mem_get_bound [of "hw_mem s" "lin s r a" 1]
  by (simp add: operand_read_def mem_opr_def vaddr_read_ram cut_size_def take_bit_eq_mask mask_eq_exp_minus_1)

lemma mem_opr_write8:
  "ram t r a 1 \<Longrightarrow> operand_write ((mem_opr s r a 8)\<lparr>o_val := v\<rparr>) t =
    Some (t\<lparr>hw_mem := (hw_mem t)(lin t r a := ucast v)\<rparr>)"
  by (simp add: operand_write_def mem_opr_def vaddr_write_ram)

lemma al_read: "operand_read (reg_opr s REG_AL 8) s = Some ((reg_opr s REG_AL 8)\<lparr>o_val := take_bit 8 (eax s)\<rparr>)"
proof -
  have "ucast (gpr_8 0 (eax s)) AND 0xff = take_bit 8 (eax s)"
    by (rule bit_word_eqI) (auto simp: gpr_8_def bit_simps and_ff)
  then show ?thesis by (simp add: operand_read_def reg_opr_def reg_read_def cut_size_def)
qed

lemma fresh_edi: "mem_opr (add_gpr i v s) r a n = mem_opr s r a n"
  by (simp add: mem_opr_def fresh_def add_gpr_def)

lemma stos_b_eq:
  assumes "ram s SREG_ES (edi s) 1" "\<not> DF (eflags s)"
  shows "stos_b pc op s = Some (1, s\<lparr>gpr := (gpr s)(7 := edi s + 1),
    hw_mem := (hw_mem s)(lin s SREG_ES (edi s) := ucast (eax s))\<rparr>)"
proof -
  have "ram (add_gpr 7 1 s) SREG_ES (edi s) 1" using assms(1) by (simp add: add_gpr_def frame_simps)
  from mem_opr_write8 [OF this] have w: "operand_write ((mem_opr s SREG_ES (edi s) 8)\<lparr>o_val := v\<rparr>) (add_gpr 7 1 s) =
      Some ((add_gpr 7 1 s)\<lparr>hw_mem := (hw_mem s)(lin s SREG_ES (edi s) := ucast v)\<rparr>)" for v
    by (simp add: fresh_edi add_gpr_def frame_simps)
  have "ucast (take_bit 8 (eax s)) = (ucast (eax s) :: u8)"
    by (rule bit_word_eqI) (auto simp: bit_simps)
  then show ?thesis
    using assms(2) by (simp add: stos_b_def al_read string_step_def w Let_def) (simp add: add_gpr_def set_gpr_def)
qed

lemma ucast_8_32 [simp]: "ucast (ucast m :: u32) = m" for m :: u8
  by (rule bit_word_eqI) (auto simp: bit_simps)

lemma movs_b_eq:
  assumes "ram s SREG_DS (esi s) 1" "ram s SREG_DS (edi s) 1" "\<not> DF (eflags s)"
  shows "movs_b pc op s = Some (1, s\<lparr>gpr := (gpr s)(6 := esi s + 1, 7 := edi s + 1),
    hw_mem := (hw_mem s)(lin s SREG_DS (edi s) := hw_mem s (lin s SREG_DS (esi s)))\<rparr>)"
  using assms(3)
  by (simp add: movs_b_def mem_opr_read8 [OF assms(1)] mem_opr_write8 [OF assms(2)] string_step_def Let_def)
    (simp add: add_gpr_def set_gpr_def)

section \<open>rep stosb and rep movsb\<close>

text \<open>A loop that is not one of the comparisons runs its body \<open>ecx\<close> times.\<close>

lemma rep_loop_step:
  "ecx s \<noteq> 0 \<Longrightarrow> run s = Some t \<Longrightarrow> \<not> rep_stops op (set_gpr 1 (ecx t - 1) t) \<Longrightarrow>
   rep_loop run op s = rep_loop run op (set_gpr 1 (ecx t - 1) t)"
  by (subst rep_loop.simps) (simp add: Let_def)

lemma rep_loop_0: "ecx s = 0 \<Longrightarrow> rep_loop run op s = Some s"
  by (subst rep_loop.simps) simp

lemma ram_region_byte:
  assumes "ram_region s r a n" "0 < n"
  shows "ram s r a 1" "ram_region s r (a + 1) (n - 1)" "lin s r (a + 1) = lin s r a + 1"
proof -
  have len: "len_ok 1" by (simp add: len_ok_def)
  show "ram s r a 1" using ram_region_ram [OF assms(1), of 0 1] assms(2) len by simp
  show "lin s r (a + 1) = lin s r a + 1" by (rule lin_add)
  note x = assms(1)[unfolded ram_region_def]
  have "unat (a + 1) = unat a + 1" "unat (lin s r a + 1) = unat (lin s r a) + 1"
    using x assms(2) unat_add_nat [of a 1] unat_add_nat [of "lin s r a" 1] by (simp_all add: unat_QDISK_BASE)
  moreover have "is_mmio (mmio s) (lin s r a + 1 + of_nat i) = None" if "i < n - 1" for i
  proof -
    have "\<forall>j<n. is_mmio (mmio s) (lin s r a + of_nat j) = None" using x by blast
    from this [rule_format, of "Suc i"] that
    have "is_mmio (mmio s) (lin s r a + of_nat (Suc i)) = None" by linarith
    then show ?thesis by (simp add: add.assoc)
  qed
  ultimately show "ram_region s r (a + 1) (n - 1)"
    using x assms(2) by (simp add: ram_region_def lin_add)
qed

lemma unat_pred: "c \<noteq> 0 \<Longrightarrow> unat (c - 1) = unat c - 1" for c :: u32
  by (simp add: unat_minus_one)

lemma range_Suc:
  fixes a b :: u32
  assumes "0 < n" "n \<le> 2 ^ 31"
  shows "unat (b - a) < n \<longleftrightarrow> b = a \<or> unat (b - (a + 1)) < n - 1"
proof (cases "b = a")
  case False
  then have "b - a \<noteq> 0" by simp
  then have "unat (b - (a + 1)) = unat (b - a) - 1"
    using unat_pred [of "b - a"] by (simp add: diff_diff_eq)
  moreover have "0 < unat (b - a)" using \<open>b - a \<noteq> 0\<close> by (simp add: unat_gt_0)
  ultimately show ?thesis using False assms by auto
qed (use assms in simp)

lemma rep_stos:
  assumes "ram_region s SREG_ES (edi s) (unat (ecx s))" "\<not> DF (eflags s)"
    and run: "\<And>s. run s = map_option snd (stos_b pc op s)" and op: "op = 0xaa"
  shows "rep_loop run op s = Some (s\<lparr>gpr := (gpr s)(1 := 0, 7 := edi s + ecx s),
    hw_mem := (\<lambda>a. if unat (a - lin s SREG_ES (edi s)) < unat (ecx s) then ucast (eax s) else hw_mem s a)\<rparr>)"
  using assms(1,2)
proof (induction "unat (ecx s)" arbitrary: s)
  case 0
  then have "ecx s = 0" by (simp add: unat_eq_0)
  then show ?case by (cases s) (auto simp: rep_loop_0 fun_upd_idem)
next
  case (Suc n)
  let ?t = "s\<lparr>gpr := (gpr s)(7 := edi s + 1), hw_mem := (hw_mem s)(lin s SREG_ES (edi s) := ucast (eax s))\<rparr>"
  let ?u = "set_gpr 1 (ecx s - 1) ?t"
  have "ecx s \<noteq> 0" using Suc.hyps(2) by auto
  then have c: "ecx s \<noteq> 0" "unat (ecx s - 1) = unat (ecx s) - 1" by (simp_all add: unat_pred)
  note b = ram_region_byte [OF Suc.prems(1)]
  have "0 < unat (ecx s)" using Suc.hyps(2) by simp
  note b = b [OF this]
  have "run s = Some ?t" using stos_b_eq [OF b(1) Suc.prems(2), of pc op] by (simp add: run)
  then have "rep_loop run op s = rep_loop run op ?u"
    using rep_loop_step [of s run ?t op] c(1) op by (simp add: rep_stops_def)
  also have "\<dots> = Some (?u\<lparr>gpr := (gpr ?u)(1 := 0, 7 := edi ?u + ecx ?u),
      hw_mem := (\<lambda>a. if unat (a - lin ?u SREG_ES (edi ?u)) < unat (ecx ?u) then ucast (eax ?u) else hw_mem ?u a)\<rparr>)"
    by (rule Suc.hyps(1)) (use Suc.hyps(2) Suc.prems(2) b(2) c(2) in \<open>simp_all add: frame_simps\<close>)
  also have "\<dots> = Some (s\<lparr>gpr := (gpr s)(1 := 0, 7 := edi s + ecx s),
      hw_mem := (\<lambda>a. if unat (a - lin s SREG_ES (edi s)) < unat (ecx s) then ucast (eax s) else hw_mem s a)\<rparr>)"
  proof -
    have "unat (ecx s) \<le> 2 ^ 31" using Suc.prems(1) by (simp add: ram_region_def unat_QDISK_BASE)
    note r = range_Suc [OF \<open>0 < unat (ecx s)\<close> this, of _ "lin s SREG_ES (edi s)"]
    have "(\<lambda>a. if unat (a - (lin s SREG_ES (edi s) + 1)) < unat (ecx s) - 1 then ucast (eax s)
        else ((hw_mem s)(lin s SREG_ES (edi s) := ucast (eax s))) a) =
      (\<lambda>a. if unat (a - lin s SREG_ES (edi s)) < unat (ecx s) then ucast (eax s) else hw_mem s a)"
      unfolding fun_eq_iff r by auto
    moreover have "eax ?u = eax s" "edi ?u = edi s + 1" "ecx ?u = ecx s - 1" "lin ?u = lin s"
      "hw_mem ?u = (hw_mem s)(lin s SREG_ES (edi s) := ucast (eax s))"
      by (simp_all add: frame_simps)
    ultimately have m: "(\<lambda>a. if unat (a - lin ?u SREG_ES (edi ?u)) < unat (ecx ?u) then ucast (eax ?u) else hw_mem ?u a) =
        (\<lambda>a. if unat (a - lin s SREG_ES (edi s)) < unat (ecx s) then ucast (eax s) else hw_mem s a)"
      by (simp only: b(3) c(2))
    show ?thesis unfolding m by (simp add: set_gpr_def fun_upd_twist)
  qed
  finally show ?case .
qed

text \<open>
  \<open>n\<close> bytes copied from \<open>src\<close> to \<open>dst\<close>. Copying upwards is right unless \<open>dst\<close> lies behind \<open>src\<close>
  inside the copied block.
\<close>

definition copy_mem :: "u32 \<Rightarrow> u32 \<Rightarrow> nat \<Rightarrow> (u32 \<Rightarrow> u8) \<Rightarrow> u32 \<Rightarrow> u8" where
  "copy_mem dst src n m = (\<lambda>a. if unat (a - dst) < n then m (src + (a - dst)) else m a)"

definition copy_up_ok :: "u32 \<Rightarrow> u32 \<Rightarrow> nat \<Rightarrow> bool" where
  "copy_up_ok dst src n \<longleftrightarrow> dst = src \<or> n \<le> unat (dst - src)"

lemma copy_mem_step:
  assumes "0 < n" "n \<le> 2 ^ 31" "copy_up_ok dst src n"
  shows "copy_mem (dst + 1) (src + 1) (n - 1) (m(dst := m src)) = copy_mem dst src n m"
proof (rule ext)
  fix a
  note r = range_Suc [OF assms(1,2), of a dst]
  have e: "src + 1 + (a - (dst + 1)) = src + (a - dst)" by simp
  show "copy_mem (dst + 1) (src + 1) (n - 1) (m(dst := m src)) a = copy_mem dst src n m a"
  proof (cases "a = dst")
    case True
    have "dst - (dst + 1) = - 1" by simp
    then have "unat (dst - (dst + 1)) = 4294967295"
      by (simp only: unsigned_minus_1_eq_mask) (simp add: mask_eq_exp_minus_1)
    then show ?thesis using True assms(1,2) by (simp add: copy_mem_def)
  next
    case False
    have "src + (a - dst) \<noteq> dst" if "unat (a - dst) < n"
    proof
      assume "src + (a - dst) = dst"
      then have "dst - src = a - dst" by (simp add: algebra_simps)
      with assms(3) that False show False
        by (auto simp: copy_up_ok_def)
    qed
    moreover have "(unat (a - (dst + 1)) < n - 1) = (unat (a - dst) < n)" using r False by simp
    ultimately show ?thesis using False unfolding copy_mem_def e by simp
  qed
qed

lemma rep_movs:
  assumes "ram_region s SREG_DS (esi s) (unat (ecx s))" "ram_region s SREG_DS (edi s) (unat (ecx s))"
    "\<not> DF (eflags s)" "copy_up_ok (edi s) (esi s) (unat (ecx s))"
    and run: "\<And>s. run s = map_option snd (movs_b pc op s)" and op: "op = 0xa4"
  shows "rep_loop run op s = Some (s\<lparr>gpr := (gpr s)(1 := 0, 6 := esi s + ecx s, 7 := edi s + ecx s),
    hw_mem := copy_mem (lin s SREG_DS (edi s)) (lin s SREG_DS (esi s)) (unat (ecx s)) (hw_mem s)\<rparr>)"
  using assms(1-4)
proof (induction "unat (ecx s)" arbitrary: s)
  case 0
  then have "ecx s = 0" by (simp add: unat_eq_0)
  then show ?case by (cases s) (auto simp: rep_loop_0 fun_upd_idem copy_mem_def)
next
  case (Suc n)
  let ?d = "lin s SREG_DS (edi s)" and ?f = "lin s SREG_DS (esi s)"
  let ?t = "s\<lparr>gpr := (gpr s)(6 := esi s + 1, 7 := edi s + 1), hw_mem := (hw_mem s)(?d := hw_mem s ?f)\<rparr>"
  let ?u = "set_gpr 1 (ecx s - 1) ?t"
  have "ecx s \<noteq> 0" using Suc.hyps(2) by auto
  then have c: "ecx s \<noteq> 0" "unat (ecx s - 1) = unat (ecx s) - 1" by (simp_all add: unat_pred)
  have pos: "0 < unat (ecx s)" using Suc.hyps(2) by simp
  note b = ram_region_byte [OF Suc.prems(1) pos] and b' = ram_region_byte [OF Suc.prems(2) pos]
  have "run s = Some ?t" using movs_b_eq [OF b(1) b'(1) Suc.prems(3), of pc op] by (simp add: run)
  then have "rep_loop run op s = rep_loop run op ?u"
    using rep_loop_step [of s run ?t op] c(1) op by (simp add: rep_stops_def)
  also have "\<dots> = Some (?u\<lparr>gpr := (gpr ?u)(1 := 0, 6 := esi ?u + ecx ?u, 7 := edi ?u + ecx ?u),
      hw_mem := copy_mem (lin ?u SREG_DS (edi ?u)) (lin ?u SREG_DS (esi ?u)) (unat (ecx ?u)) (hw_mem ?u)\<rparr>)"
  proof (rule Suc.hyps(1))
    show "copy_up_ok (edi ?u) (esi ?u) (unat (ecx ?u))"
      using Suc.prems(4) c(2) by (auto simp: copy_up_ok_def)
  qed (use Suc.hyps(2) Suc.prems(3) b(2) b'(2) c(2) in \<open>simp_all add: frame_simps\<close>)
  also have "\<dots> = Some (s\<lparr>gpr := (gpr s)(1 := 0, 6 := esi s + ecx s, 7 := edi s + ecx s),
      hw_mem := copy_mem ?d ?f (unat (ecx s)) (hw_mem s)\<rparr>)"
  proof -
    have "unat (ecx s) \<le> 2 ^ 31" using Suc.prems(1) by (simp add: ram_region_def unat_QDISK_BASE)
    moreover have "copy_up_ok ?d ?f (unat (ecx s))"
      using Suc.prems(4) by (auto simp: copy_up_ok_def lin_def)
    ultimately have "copy_mem (?d + 1) (?f + 1) (unat (ecx s) - 1) ((hw_mem s)(?d := hw_mem s ?f)) =
        copy_mem ?d ?f (unat (ecx s)) (hw_mem s)"
      by (rule copy_mem_step [OF pos])
    moreover have "esi ?u = esi s + 1" "edi ?u = edi s + 1" "ecx ?u = ecx s - 1" "lin ?u = lin s"
      "hw_mem ?u = (hw_mem s)(?d := hw_mem s ?f)"
      by (simp_all add: frame_simps)
    ultimately have m: "copy_mem (lin ?u SREG_DS (edi ?u)) (lin ?u SREG_DS (esi ?u)) (unat (ecx ?u)) (hw_mem ?u) =
        copy_mem ?d ?f (unat (ecx s)) (hw_mem s)"
      by (simp only: b(3) b'(3) c(2))
    show ?thesis unfolding m by (simp add: set_gpr_def fun_upd_twist)
  qed
  finally show ?case .
qed

section \<open>The properties\<close>

text \<open>The repeat prefix at \<open>pc\<close>, followed by the opcode \<open>op\<close>.\<close>

lemma rep_dispatch:
  assumes "instr_fetch s (pc + 1) 1 = Some (ucast op)" "op \<noteq> 0xc3"
    and "rep_loop (\<lambda>s. map_option snd (exec_opcode (Suc d) (pc + 1) op s)) op s = Some t"
  shows "exec_opcode (Suc (Suc d)) pc 0xf3 s = Some (2, t)"
  using assms by (simp add: exec_opcode.simps(2) [of "Suc d"] opcode_entry_f3 rep_repe_def Let_def del: exec_opcode.simps)

lemma exec_string:
  "exec_opcode (Suc d) pc 0xaa s = stos_b pc 0xaa s" "exec_opcode (Suc d) pc 0xa4 s = movs_b pc 0xa4 s"
  "exec_opcode (Suc d) pc 0xa6 s = cmps_b pc 0xa6 s"
  by (simp_all add: opcode_entry_def)

text \<open>the result of an instruction does not depend on the fuel that bounds its prefixes: with more fuel the
  same result, and an instruction that is not a prefix byte needs none of it.\<close>

theorem exec_opcode_fuel:
  "(exec_opcode d pc op s = Some r \<longrightarrow> exec_opcode (d + k) pc op s = Some r) \<and>
   (unat op \<notin> {0x66, 0xf3} \<longrightarrow> exec_opcode (Suc k) pc op s = exec_opcode 1 pc op s)"
proof -
  have "exec_opcode d pc op s = Some r \<Longrightarrow> exec_opcode (d + k) pc op s = Some r"
  proof (induction k)
    case (Suc k)
    with exec_opcode_extends [of "d + k"] show ?case unfolding extends_def add_Suc_right by blast
  qed (simp del: exec_opcode.simps)
  moreover have "unat op < 256" using unsigned_less [of op] by simp
  from opcode_entry_nth [OF this, where e = "exec_opcode k" and e' = "exec_opcode 0"]
  have "unat op \<notin> {0x66, 0xf3} \<Longrightarrow> exec_opcode (Suc k) pc op s = exec_opcode (Suc 0) pc op s"
    by (simp only: exec_opcode.simps(2) [where pc = pc and op = op and s = s]) simp
  ultimately show ?thesis by (simp del: exec_opcode.simps)
qed

theorem exec_opcode_fuel_witness: "exec_opcode 5 0 0x90 machine0 = Some (1, machine0)"
proof -
  have "exec_opcode 1 0 0x90 machine0 = Some (1, machine0)"
    by (simp add: opcode_entry_def nop_def)
  then show ?thesis using exec_opcode_fuel [of 1 0 "0x90" machine0 "(1, machine0)" 4] by (simp del: exec_opcode.simps)
qed

text \<open>C19: \<open>rep stosb\<close>, through the dispatch table, stores AL into the \<open>ecx\<close> bytes from \<open>es:edi\<close> up, advances
  \<open>edi\<close> behind them, leaves \<open>ecx\<close> zero and the rest of the machine alone.\<close>

theorem rep_stosb_fills:
  "instr_fetch s (pc + 1) 1 = Some 0xaa \<Longrightarrow> \<not> DF (eflags s) \<Longrightarrow>
   ram_region s SREG_ES (edi s) (unat (ecx s)) \<Longrightarrow>
     exec_opcode (Suc (Suc d)) pc 0xf3 s = Some (2, s\<lparr>gpr := (gpr s)(1 := 0, 7 := edi s + ecx s),
       hw_mem := (\<lambda>a. if unat (a - lin s SREG_ES (edi s)) < unat (ecx s) then ucast (eax s) else hw_mem s a)\<rparr>)"
proof -
  assume f: "instr_fetch s (pc + 1) 1 = Some 0xaa" and d: "\<not> DF (eflags s)"
    and r: "ram_region s SREG_ES (edi s) (unat (ecx s))"
  have "rep_loop (\<lambda>s. map_option snd (exec_opcode (Suc d) (pc + 1) 0xaa s)) 0xaa s =
      Some (s\<lparr>gpr := (gpr s)(1 := 0, 7 := edi s + ecx s),
       hw_mem := (\<lambda>a. if unat (a - lin s SREG_ES (edi s)) < unat (ecx s) then ucast (eax s) else hw_mem s a)\<rparr>)"
    unfolding exec_string by (rule rep_stos [OF r d refl refl])
  from rep_dispatch [OF _ _ this] f show ?thesis by simp
qed

text \<open>Memory with a repeat instruction at 0x1000 and the byte 0x41 at 0x3000; no segmentation or paging.\<close>

definition string_machine :: "u8 \<Rightarrow> machine" where
  "string_machine op = machine0\<lparr>gpr := (\<lambda>i. if i = 1 then 5 else if i = 7 then 0x2000 else if i = 6 then 0x3000 else 0x41),
      hw_mem := (\<lambda>a. if a = 0x1001 then op else if a = 0x3000 then 0x41 else 0)\<rparr>"

lemma string_machine_simps [simp]:
  "eflags (string_machine op) = 0" "gpr (string_machine op) (Suc 0) = 5" "ecx (string_machine op) = 5" "edi (string_machine op) = 0x2000"
  "esi (string_machine op) = 0x3000" "eax (string_machine op) = 0x41" "lin (string_machine op) r a = a"
  "hw_mem (string_machine op) a = (if a = 0x1001 then op else if a = 0x3000 then 0x41 else 0)"
  "data_size (string_machine op) = 32"
  by (simp_all add: string_machine_def lin_def cr0_pe_def)

lemma string_machine_region:
  "r < 6 \<Longrightarrow> unat a + n < 0x8000000 \<Longrightarrow> ram_region (string_machine op) r a n"
  by (simp add: ram_region_def string_machine_def lin_def cr0_pe_def cr0_pg_def is_mmio_def unat_QDISK_BASE)

lemma string_machine_fetch: "instr_fetch (string_machine op) (0x1000 + 1) 1 = Some (ucast op)"
proof -
  have "ram (string_machine op) SREG_CS 0x1001 1"
    using ram_region_ram [OF string_machine_region, of SREG_CS "0x1001" 1 0 1] by (simp add: len_ok_def)
  then show ?thesis by (simp add: instr_fetch_def len_ok_def vaddr_read_ram)
qed

theorem rep_stosb_fills_witness:
  "\<exists>t. exec_opcode (Suc (Suc 0)) 0x1000 0xf3 (string_machine 0xaa) = Some (2, t) \<and>
     hw_mem t 0x2004 = 0x41 \<and> hw_mem t 0x2005 = 0 \<and> gpr t 7 = 0x2005"
proof -
  have "instr_fetch (string_machine 0xaa) (0x1000 + 1) 1 = Some 0xaa" using string_machine_fetch [of "0xaa"] by simp
  moreover have "\<not> DF (eflags (string_machine 0xaa))" by (simp add: DF_def)
  ultimately show ?thesis
    using rep_stosb_fills [of "string_machine 0xaa" "0x1000" 0] string_machine_region [of SREG_ES "0x2000" 5 "0xaa"]
    by (simp del: exec_opcode.simps)
qed

text \<open>\<open>rep movsb\<close> copies \<open>ecx\<close> bytes from \<open>ds:esi\<close> to \<open>ds:edi\<close> (not to \<open>es:edi\<close>) and advances both
  registers, also where the blocks overlap as long as the target does not start inside the source.\<close>

theorem rep_movsb_copies:
  "instr_fetch s (pc + 1) 1 = Some 0xa4 \<Longrightarrow> \<not> DF (eflags s) \<Longrightarrow>
   ram_region s SREG_DS (esi s) (unat (ecx s)) \<Longrightarrow> ram_region s SREG_DS (edi s) (unat (ecx s)) \<Longrightarrow>
   copy_up_ok (edi s) (esi s) (unat (ecx s)) \<Longrightarrow>
     exec_opcode (Suc (Suc d)) pc 0xf3 s = Some (2, s\<lparr>gpr := (gpr s)(1 := 0, 6 := esi s + ecx s, 7 := edi s + ecx s),
       hw_mem := copy_mem (lin s SREG_DS (edi s)) (lin s SREG_DS (esi s)) (unat (ecx s)) (hw_mem s)\<rparr>)"
proof -
  assume f: "instr_fetch s (pc + 1) 1 = Some 0xa4" and d: "\<not> DF (eflags s)"
    and r: "ram_region s SREG_DS (esi s) (unat (ecx s))" "ram_region s SREG_DS (edi s) (unat (ecx s))"
    and o: "copy_up_ok (edi s) (esi s) (unat (ecx s))"
  have "rep_loop (\<lambda>s. map_option snd (exec_opcode (Suc d) (pc + 1) 0xa4 s)) 0xa4 s =
      Some (s\<lparr>gpr := (gpr s)(1 := 0, 6 := esi s + ecx s, 7 := edi s + ecx s),
       hw_mem := copy_mem (lin s SREG_DS (edi s)) (lin s SREG_DS (esi s)) (unat (ecx s)) (hw_mem s)\<rparr>)"
    unfolding exec_string by (rule rep_movs [OF r d o refl refl])
  from rep_dispatch [OF _ _ this] f show ?thesis by simp
qed

theorem rep_movsb_copies_witness:
  "\<exists>t. exec_opcode (Suc (Suc 0)) 0x1000 0xf3 (string_machine 0xa4) = Some (2, t) \<and> hw_mem t 0x2000 = 0x41"
proof -
  have "instr_fetch (string_machine 0xa4) (0x1000 + 1) 1 = Some 0xa4" using string_machine_fetch [of "0xa4"] by simp
  moreover have "\<not> DF (eflags (string_machine 0xa4))" by (simp add: DF_def)
  ultimately show ?thesis
    using rep_movsb_copies [of "string_machine 0xa4" "0x1000" 0] string_machine_region [of SREG_DS "0x2000" 5 "0xa4"]
      string_machine_region [of SREG_DS "0x3000" 5 "0xa4"]
    by (simp add: copy_up_ok_def copy_mem_def del: exec_opcode.simps)
qed

end
