(* ===== verification/Kernel_Memory.thy ===== *)
theory Kernel_Memory
  imports Memory_Correct
begin

text \<open>
  The guest kernel's memory set-up: \<open>kernel/src/memory/kvm.c\<close>, \<open>mm.c\<close> and \<open>vmem.c\<close> with the macros of
  \<open>kernel/include/memory.h\<close> and \<open>x86/memory.h\<close>. The kernel runs on the machine of the emulator's model:
  it stores into \<open>hw_mem\<close> and writes the control registers. The addresses that the linker gives to the
  kernel's variables are arguments. \<open>mm_malloc\<close> is an object file without source and is a parameter.
\<close>

section \<open>Constants and macros\<close>

definition KOFFSET :: u32 where "KOFFSET = 0xC0000000"
definition PHY_MEM :: u32 where "PHY_MEM = 128 * 1024 * 1024"
definition PAGE_SIZE :: u32 where "PAGE_SIZE = 4096"
definition NR_PDE :: u32 where "NR_PDE = 1024"
definition NR_PTE :: u32 where "NR_PTE = 1024"
definition PT_SIZE :: u32 where "PT_SIZE = NR_PTE * PAGE_SIZE"

definition va_to_pa :: "u32 \<Rightarrow> u32" where "va_to_pa addr = addr - KOFFSET"
definition make_pde :: "u32 \<Rightarrow> u32" where "make_pde addr = (addr AND 0xfffff000) OR 0x7"
definition make_pte :: "u32 \<Rightarrow> u32" where "make_pte addr = (addr AND 0xfffff000) OR 0x7"

type_synonym memory = "u32 \<Rightarrow> u8"

text \<open>A store of a 32-bit variable, and the library's \<open>memset\<close> to zero and \<open>memcpy\<close>.\<close>

definition store32 :: "u32 \<Rightarrow> u32 \<Rightarrow> memory \<Rightarrow> memory" where "store32 a v m = mem_put m a 4 v"
definition load32 :: "memory \<Rightarrow> u32 \<Rightarrow> u32" where "load32 m a = mem_get m a 4"

definition memset0 :: "u32 \<Rightarrow> nat \<Rightarrow> memory \<Rightarrow> memory" where
  "memset0 a n m = (\<lambda>x. if unat (x - a) < n then 0 else m x)"

definition memcpy_mem :: "u32 \<Rightarrow> u32 \<Rightarrow> nat \<Rightarrow> memory \<Rightarrow> memory" where
  "memcpy_mem dst src n m = (\<lambda>x. if unat (x - dst) < n then m (src + (x - dst)) else m x)"

section \<open>The kernel's page tables\<close>

text \<open>The inner loop of \<open>init_page\<close>: \<open>n\<close> entries from \<open>ptable\<close> on, then the outer one.\<close>

fun fill_ptable :: "nat \<Rightarrow> u32 \<Rightarrow> u32 \<Rightarrow> memory \<Rightarrow> memory" where
  "fill_ptable 0 ptable pframe_idx m = m"
| "fill_ptable (Suc n) ptable pframe_idx m =
     fill_ptable n (ptable + 4) (pframe_idx + 1) (store32 ptable (make_pte (push_bit 12 pframe_idx)) m)"

fun fill_pdir :: "nat \<Rightarrow> u32 \<Rightarrow> u32 \<Rightarrow> u32 \<Rightarrow> u32 \<Rightarrow> memory \<Rightarrow> memory" where
  "fill_pdir 0 pdir pdir_idx ptable pframe_idx m = m"
| "fill_pdir (Suc n) pdir pdir_idx ptable pframe_idx m =
     (let m = store32 (pdir + pdir_idx * 4) (make_pde ptable) m;
          m = store32 (pdir + (pdir_idx + KOFFSET div PT_SIZE) * 4) (make_pde ptable) m;
          m = fill_ptable (unat NR_PTE) ptable pframe_idx m
      in fill_pdir n pdir (pdir_idx + 1) (ptable + 4 * NR_PTE) (pframe_idx + NR_PTE) m)"

definition init_page :: "u32 \<Rightarrow> u32 \<Rightarrow> machine \<Rightarrow> machine" where
  "init_page kpdir kptable s =
     (let pdir = va_to_pa kpdir; ptable = va_to_pa kptable;
          m = memset0 pdir (unat (NR_PDE * 4)) (hw_mem s);
          m = fill_pdir (unat (PHY_MEM div PT_SIZE)) pdir 0 ptable 0 m;
          s = s\<lparr>hw_mem := m\<rparr>;
          s = s\<lparr>cr3 := bf_put 12 20 (drop_bit 12 pdir) 0\<rparr>
      in s\<lparr>cr0 := set_flag 31 True (cr0 s)\<rparr>)"

section \<open>The kernel's segments\<close>

definition SEG_WRITABLE :: u32 where "SEG_WRITABLE = 2"
definition SEG_READABLE :: u32 where "SEG_READABLE = 2"
definition SEG_EXECUTABLE :: u32 where "SEG_EXECUTABLE = 8"
definition SEG_KERNEL_CODE :: u32 where "SEG_KERNEL_CODE = 1"
definition SEG_KERNEL_DATA :: u32 where "SEG_KERNEL_DATA = 2"
definition NR_SEGMENTS :: u32 where "NR_SEGMENTS = 3"

text \<open>\<open>set_segment\<close> assigns every bit-field of the two words of a descriptor.\<close>

definition set_segment :: "u32 \<Rightarrow> u32 \<Rightarrow> SegDesc \<Rightarrow> SegDesc" where
  "set_segment pl ty d =
     (let v0 = bf_put 0 16 0xFFFF (sd_val0 d);
          v0 = bf_put 16 16 0 v0;
          v1 = bf_put 0 8 0 (sd_val1 d);
          v1 = bf_put 8 4 ty v1;
          v1 = bf_put 12 1 1 v1;
          v1 = bf_put 13 2 pl v1;
          v1 = bf_put 15 1 1 v1;
          v1 = bf_put 16 4 0xF v1;
          v1 = bf_put 20 1 0 v1;
          v1 = bf_put 21 1 0 v1;
          v1 = bf_put 22 1 1 v1;
          v1 = bf_put 23 1 1 v1;
          v1 = bf_put 24 8 0 v1
      in \<lparr>sd_val0 = v0, sd_val1 = v1\<rparr>)"

definition load_desc :: "memory \<Rightarrow> u32 \<Rightarrow> SegDesc" where
  "load_desc m a = \<lparr>sd_val0 = load32 m a, sd_val1 = load32 m (a + 4)\<rparr>"

definition store_desc :: "u32 \<Rightarrow> SegDesc \<Rightarrow> memory \<Rightarrow> memory" where
  "store_desc a d m = store32 (a + 4) (sd_val1 d) (store32 a (sd_val0 d) m)"

text \<open>
  \<open>init_segment\<close>, with \<open>gdt\<close> the kernel's address of the table: its stores go through the window above
  \<open>KOFFSET\<close>, that is to \<open>va_to_pa gdt\<close>; \<open>write_gdtr\<close> loads the register from the three half-words it
  prepares.
\<close>

definition write_gdtr :: "u32 \<Rightarrow> u32 \<Rightarrow> machine \<Rightarrow> machine" where
  "write_gdtr addr sz s =
     (let d0 = (ucast (sz - 1) :: u16); d1 = (ucast addr :: u16); d2 = (ucast (drop_bit 16 addr) :: u16)
      in s\<lparr>gdtr_limit := d0, gdtr_base := ucast d1 OR push_bit 16 (ucast d2)\<rparr>)"

definition init_segment_mem :: "u32 \<Rightarrow> memory \<Rightarrow> memory" where
  "init_segment_mem gdt m =
     (let m = memset0 gdt (unat (NR_SEGMENTS * 8)) m;
          a = gdt + SEG_KERNEL_CODE * 8;
          m = store_desc a (set_segment 0 (SEG_EXECUTABLE OR SEG_READABLE) (load_desc m a)) m;
          a = gdt + SEG_KERNEL_DATA * 8
      in store_desc a (set_segment 0 SEG_WRITABLE (load_desc m a)) m)"

definition init_segment :: "u32 \<Rightarrow> machine \<Rightarrow> machine" where
  "init_segment gdt s =
     write_gdtr gdt (NR_SEGMENTS * 8) (s\<lparr>hw_mem := init_segment_mem (va_to_pa gdt) (hw_mem s)\<rparr>)"

section \<open>The user process's page directory\<close>

text \<open>
  \<open>mm.c\<close>: the program break and the value of CR3 for the user process. The kernel reaches its tables
  through the window above \<open>KOFFSET\<close> that \<open>init_page\<close> has mapped, so that its accesses go to
  \<open>va_to_pa\<close> of the variables.
\<close>

record mm_state =
  brk :: u32
  ucr3 :: u32

definition mm_brk :: "(u32 \<Rightarrow> u32 \<Rightarrow> machine \<Rightarrow> machine) \<Rightarrow> u32 \<Rightarrow> mm_state \<times> machine \<Rightarrow> mm_state \<times> machine" where
  "mm_brk mm_malloc new_brk ks =
     (let (k, s) = ks; s = (if new_brk > brk k then mm_malloc (brk k) (new_brk - brk k) s else s)
      in (k\<lparr>brk := new_brk\<rparr>, s))"

definition init_mm :: "u32 \<Rightarrow> u32 \<Rightarrow> mm_state \<times> machine \<Rightarrow> mm_state \<times> machine" where
  "init_mm updir kpdir ks =
     (let (k, s) = ks;
          m = memset0 (va_to_pa updir) (unat (NR_PDE * 4)) (hw_mem s);
          m = memcpy_mem (va_to_pa updir + KOFFSET div PT_SIZE * 4) (va_to_pa kpdir + KOFFSET div PT_SIZE * 4)
                (unat (PHY_MEM div PT_SIZE * 4)) m
      in (k\<lparr>ucr3 := va_to_pa updir AND NOT 0x3ff\<rparr>, s\<lparr>hw_mem := m\<rparr>))"

section \<open>The mapping of the video memory\<close>

definition VMEM_ADDR :: u32 where "VMEM_ADDR = 0xa0000"
definition SCR_SIZE :: u32 where "SCR_SIZE = 320 * 200"

text \<open>Assignments to the bit-fields of an entry.\<close>

definition set_present :: "bool \<Rightarrow> u32 \<Rightarrow> memory \<Rightarrow> memory" where
  "set_present b a m = store32 a (set_flag 0 b (load32 m a)) m"
definition set_page_frame :: "u32 \<Rightarrow> u32 \<Rightarrow> memory \<Rightarrow> memory" where
  "set_page_frame f a m = store32 a (bf_put 12 20 f (load32 m a)) m"

text \<open>The directory entry: a fresh table if there is none.\<close>

definition video_table :: "u32 \<Rightarrow> u32 \<Rightarrow> memory \<Rightarrow> memory option" where
  "video_table entry new_table m =
     (if pt_present (load32 m entry) then Some m
      else let m = fold (\<lambda>i. set_present False (new_table + of_nat i * 4)) [0..<unat NR_PTE] m
           in if new_table AND 0xfff \<noteq> 0 then None
              else Some (set_present True entry (set_page_frame (drop_bit 12 new_table) entry m)))"

definition map_video_page :: "u32 \<Rightarrow> u32 \<Rightarrow> nat \<Rightarrow> memory \<Rightarrow> memory option" where
  "map_video_page dir_entry tbl i m =
     (let i = of_nat i; a = tbl + i * 4
      in if i \<noteq> i AND 0x3ff then None
         else Some (set_present True a (set_page_frame (push_bit 10 dir_entry OR i) a m)))"

definition create_video_mapping :: "u32 \<Rightarrow> u32 \<Rightarrow> machine \<Rightarrow> machine option" where
  "create_video_mapping updir new_table s =
     (let start = VMEM_ADDR; stop = VMEM_ADDR + SCR_SIZE; d = la_page_directory_index start
      in if d \<noteq> la_page_directory_index stop then None
         else if d \<noteq> d AND 0x3ff then None
         else do {
           let entry = va_to_pa updir + d * 4;
           m \<leftarrow> video_table entry (va_to_pa new_table) (hw_mem s);
           let tbl = push_bit 12 (pt_page_frame (load32 m entry));
           m \<leftarrow> foldM (map_video_page d tbl)
                  [unat (la_page_entry_index start)..<Suc (unat (la_page_entry_index stop))] m;
           Some (s\<lparr>hw_mem := m\<rparr>)
         })"

text \<open>The tests and the clearing of the video memory run through the processor's own accesses.\<close>

definition video_mapping_write_test :: "machine \<Rightarrow> machine option" where
  "video_mapping_write_test =
     foldM (\<lambda>i s. vaddr_write s (VMEM_ADDR + 4 * of_nat i) SREG_DS 4 (of_nat i)) [0..<unat (SCR_SIZE div 4)]"

definition video_mapping_read_test :: "machine \<Rightarrow> machine option" where
  "video_mapping_read_test =
     foldM (\<lambda>i s. do { x \<leftarrow> vaddr_read s (VMEM_ADDR + 4 * of_nat i) SREG_DS 4;
                       if x = of_nat i then Some s else None }) [0..<unat (SCR_SIZE div 4)]"

definition video_mapping_clear :: "machine \<Rightarrow> machine option" where
  "video_mapping_clear =
     foldM (\<lambda>i s. vaddr_write s (VMEM_ADDR + of_nat i) SREG_DS 1 0) [0..<unat SCR_SIZE]"

end
