(* ===== verification/Kernel_Memory_Correct.thy ===== *)
theory Kernel_Memory_Correct
  imports Kernel_Memory
begin

text \<open>
  What the kernel's set-up code achieves on the emulator's memory path: the address space behind
  \<open>init_page\<close>, the user's one behind \<open>init_mm\<close> and \<open>create_video_mapping\<close>, and the descriptors that
  \<open>init_segment\<close> leaves for \<open>load_sreg\<close>.
\<close>

section \<open>The memory as an array of words\<close>

text \<open>The tables are aligned; \<open>cell m i\<close> is the \<open>i\<close>-th aligned word.\<close>

definition cell :: "memory \<Rightarrow> nat \<Rightarrow> u32" where "cell m i = load32 m (of_nat (4 * i))"

lemma unat_cell: "i < 0x40000000 \<Longrightarrow> k < 4 \<Longrightarrow> unat (of_nat (4 * i) + of_nat k :: u32) = 4 * i + k"
  by (simp only: of_nat_add [symmetric] unat_of_nat) (simp add: take_bit_eq_mod)

lemma bytes_apart:
  assumes "p < 0x40000000" "q < 0x40000000" "p \<noteq> q" "i < 4"
  shows "4 \<le> unat (of_nat (4 * q) + of_nat i - of_nat (4 * p) :: u32)"
  using assms unat_cell [of p 0] unat_cell [of q i]
  by (auto simp: unat_sub_if' simp del: of_nat_mult)

lemma cell_store:
  assumes "p < 0x40000000" "q < 0x40000000"
  shows "cell (store32 (of_nat (4 * p)) v m) q = (if q = p then v else cell m q)"
  using assms bytes_apart [of p q]
  by (auto simp: cell_def store32_def load32_def mem_get_mem_put_same mem_get_mem_put_disjoint
      take_bit_word_eq_self simp del: of_nat_mult)

lemma cell_memset0:
  assumes "p + n \<le> 0x40000000" "q < 0x40000000"
  shows "cell (memset0 (of_nat (4 * p)) (4 * n) m) q = (if p \<le> q \<and> q < p + n then 0 else cell m q)"
proof -
  have u: "unat (of_nat (4 * q) + of_nat i - of_nat (4 * p) :: u32) < 4 * n \<longleftrightarrow> p \<le> q \<and> q < p + n"
    if "i < 4" "n > 0" for i
    using that assms unat_cell [of p 0] unat_cell [of q i] by (auto simp: unat_sub_if' simp del: of_nat_mult)
  show ?thesis
    unfolding cell_def load32_def
    by (cases "n = 0"; rule bit_word_eqI) (auto simp: bit_mem_get memset0_def u simp del: of_nat_mult)
qed

lemma cell_memcpy:
  assumes "p + n \<le> 0x40000000" "r + n \<le> 0x40000000" "q < 0x40000000"
  shows "cell (memcpy_mem (of_nat (4 * p)) (of_nat (4 * r)) (4 * n) m) q =
     (if p \<le> q \<and> q < p + n then cell m (r + (q - p)) else cell m q)"
proof -
  have u: "unat (of_nat (4 * q) + of_nat i - of_nat (4 * p) :: u32) < 4 * n \<longleftrightarrow> p \<le> q \<and> q < p + n"
    if "i < 4" "n > 0" for i
    using that assms unat_cell [of p 0] unat_cell [of q i] by (auto simp: unat_sub_if' simp del: of_nat_mult)
  have e: "of_nat (4 * r) + (of_nat (4 * q) + of_nat i - of_nat (4 * p)) = (of_nat (4 * (r + (q - p))) + of_nat i :: u32)"
    if "p \<le> q" for i
    using that by (simp add: of_nat_diff algebra_simps)
  show ?thesis
    unfolding cell_def load32_def
    by (cases "n = 0"; rule bit_word_eqI) (auto simp: bit_mem_get memcpy_mem_def u e simp del: of_nat_mult)
qed

section \<open>The loops of \<open>init_page\<close>\<close>

lemma step_word: "of_nat (4 * p) + 4 = (of_nat (4 * Suc p) :: u32)"
  by simp

lemma cell_fill_ptable:
  assumes "p + n \<le> 0x40000000" "q < 0x40000000"
  shows "cell (fill_ptable n (of_nat (4 * p)) (of_nat k) m) q =
     (if p \<le> q \<and> q < p + n then make_pte (push_bit 12 (of_nat (k + (q - p)))) else cell m q)"
  using assms(1)
proof (induction n arbitrary: p k m)
  case (Suc n)
  have "of_nat k + 1 = (of_nat (Suc k) :: u32)" by simp
  with Suc assms(2) show ?case
    by (auto simp only: fill_ptable.simps step_word Suc.IH cell_store) (auto simp: Suc_diff_le cell_store assms(2) add_diff_eq simp del: of_nat_mult)
qed auto

lemma table_consts:
  "KOFFSET div PT_SIZE = 768" "NR_PTE = 1024" "unat NR_PTE = 1024" "unat (PHY_MEM div PT_SIZE) = 32"
  "unat (NR_PDE * 4) = 4 * 1024" "unat (PHY_MEM div PT_SIZE * 4) = 4 * 32"
  by code_simp+

text \<open>
  The tables as word indices: the directory at \<open>p\<close>, the entries from \<open>d\<close> on, the page tables from \<open>t\<close> on.
\<close>

definition apart :: "nat \<Rightarrow> nat \<Rightarrow> nat \<Rightarrow> nat \<Rightarrow> bool" where
  "apart p n t k \<longleftrightarrow> p + n \<le> t \<or> t + k \<le> p"

text \<open>One round of the loop and the rest, against the whole: only the ranges matter.\<close>

lemma pdir_step:
  fixes p d t n q :: nat
  assumes "apart p 1024 t (1024 * Suc n)" "d + Suc n \<le> 256"
    and "t + 1024 \<le> q \<Longrightarrow> A1 = A" "p + d < q \<Longrightarrow> B1 = B" "p + 768 + d < q \<Longrightarrow> C1 = C"
    and "q = p + d \<Longrightarrow> D = B" "q = p + 768 + d \<Longrightarrow> D = C"
  shows "(if t + 1024 \<le> q \<and> q < t + 1024 + 1024 * n then A1
      else if p + Suc d \<le> q \<and> q < p + Suc d + n then B1
      else if p + 768 + Suc d \<le> q \<and> q < p + 768 + Suc d + n then C1
      else if t \<le> q \<and> q < t + 1024 then A
      else if q = p + 768 + d then D else if q = p + d then D else M) =
    (if t \<le> q \<and> q < t + 1024 * Suc n then A
     else if p + d \<le> q \<and> q < p + d + Suc n then B
     else if p + 768 + d \<le> q \<and> q < p + 768 + d + Suc n then C else M)"
  using assms unfolding apart_def by auto

lemma cell_fill_pdir:
  assumes "p + 1024 \<le> 0x40000000" "t + 1024 * n \<le> 0x40000000" "q < 0x40000000"
    and "apart p 1024 t (1024 * n)" "d + n \<le> 256"
  shows "cell (fill_pdir n (of_nat (4 * p)) (of_nat d) (of_nat (4 * t)) (of_nat f) m) q =
     (if t \<le> q \<and> q < t + 1024 * n then make_pte (push_bit 12 (of_nat (f + (q - t))))
      else if p + d \<le> q \<and> q < p + d + n then make_pde (of_nat (4 * (t + 1024 * (q - (p + d)))))
      else if p + 768 + d \<le> q \<and> q < p + 768 + d + n then make_pde (of_nat (4 * (t + 1024 * (q - (p + 768 + d)))))
      else cell m q)"
  using assms(2,4,5)
proof (induction n arbitrary: t d f m)
  case (Suc n)
  have w: "of_nat (4 * p) + of_nat d * 4 = (of_nat (4 * (p + d)) :: u32)"
    "of_nat (4 * p) + (of_nat d + KOFFSET div PT_SIZE) * 4 = (of_nat (4 * (p + 768 + d)) :: u32)"
    "of_nat (4 * t) + 4 * NR_PTE = (of_nat (4 * (t + 1024)) :: u32)"
    "of_nat f + NR_PTE = (of_nat (f + 1024) :: u32)" "of_nat d + 1 = (of_nat (Suc d) :: u32)"
    by (simp_all add: table_consts algebra_simps)
  have a: "apart p 1024 (t + 1024) (1024 * n)" "t + 1024 + 1024 * n \<le> 0x40000000" "Suc d + n \<le> 256"
    using Suc.prems by (auto simp: apart_def)
  have b: "p + d < 0x40000000" "p + 768 + d < 0x40000000" "t + 1024 \<le> 0x40000000"
    using Suc.prems assms(1) by auto
  show ?case
    unfolding fill_pdir.simps Let_def table_consts(3) w Suc.IH [OF a(2,1,3)]
      cell_fill_ptable [OF b(3) assms(3)] cell_store [OF b(1) assms(3)] cell_store [OF b(2) assms(3)]
    by (rule pdir_step) (use Suc.prems in \<open>auto simp: apart_def intro!: arg_cong [where f = make_pde]
        arg_cong [where f = make_pte] arg_cong [where f = "push_bit 12"] arg_cong [where f = of_nat] simp del: of_nat_mult of_nat_add\<close>)
qed auto

section \<open>Entries and the hardware's walk\<close>

lemma entry_fields [simp]:
  "pt_present (make_pde x)" "pt_present (make_pte x)"
  "push_bit 12 (pt_page_frame (make_pde x)) = x AND 0xfffff000"
  "push_bit 12 (pt_page_frame (make_pte x)) = x AND 0xfffff000"
proof -
  have m: "(0xfffff000 :: u32) = NOT (mask 12)" "(0x7 :: u32) = mask 3" by code_simp+
  have "push_bit 12 (pt_page_frame ((x AND 0xfffff000) OR 0x7)) = x AND 0xfffff000"
    unfolding m by (rule bit_word_eqI) (auto simp: pt_page_frame_def bit_simps bf_simps)
  then show "push_bit 12 (pt_page_frame (make_pde x)) = x AND 0xfffff000"
    "push_bit 12 (pt_page_frame (make_pte x)) = x AND 0xfffff000"
    by (simp_all add: make_pde_def make_pte_def)
qed (simp_all add: pt_present_def make_pde_def make_pte_def bit_simps)

text \<open>A word of RAM without a device on it.\<close>

definition plain_word :: "machine \<Rightarrow> nat \<Rightarrow> bool" where
  "plain_word s i \<longleftrightarrow> 4 * i + 4 < 0x8000000 \<and> is_mmio (mmio s) (of_nat (4 * i)) = None"

lemma plain_word_read: "plain_word s i \<Longrightarrow> paddr_read s (of_nat (4 * i)) 4 = Some (cell (hw_mem s) i)"
  using unat_cell [of i 0]
  by (auto simp: plain_word_def cell_def load32_def paddr_ram simp del: of_nat_mult)

text \<open>The walk through a directory at word \<open>p\<close>, in terms of cells.\<close>

lemma page_translate_walk:
  assumes "push_bit 12 (cr3_pdbr (cr3 s)) = of_nat (4 * p)"
    and "plain_word s (p + unat (la_page_directory_index a))"
    and "e = cell (hw_mem s) (p + unat (la_page_directory_index a))"
  shows "page_translate s a =
     (if \<not> pt_present e then None else do {
        pte \<leftarrow> paddr_read s (push_bit 12 (pt_page_frame e) + la_page_entry_index a * 4) 4;
        if \<not> pt_present pte then None
        else Some (push_bit 12 (pt_page_frame pte) + la_offset a)
      })"
proof -
  have "of_nat (4 * p) + la_page_directory_index a * 4 = (of_nat (4 * (p + unat (la_page_directory_index a))) :: u32)"
    by (simp add: algebra_simps)
  then show ?thesis
    unfolding page_translate_def Let_def assms(1,3) by (simp only: plain_word_read [OF assms(2)] bind.bind_lunit)
qed

lemma page_translate_table:
  assumes "push_bit 12 (cr3_pdbr (cr3 s)) = of_nat (4 * p)"
    and "plain_word s (p + unat (la_page_directory_index a))"
    and "e = cell (hw_mem s) (p + unat (la_page_directory_index a))"
    and "pt_present e" "push_bit 12 (pt_page_frame e) = of_nat (4 * t)"
    and "plain_word s (t + unat (la_page_entry_index a))"
    and "pte = cell (hw_mem s) (t + unat (la_page_entry_index a))"
  shows "page_translate s a =
     (if pt_present pte then Some (push_bit 12 (pt_page_frame pte) + la_offset a) else None)"
proof -
  have e: "of_nat (4 * t) + la_page_entry_index a * 4 = (of_nat (4 * (t + unat (la_page_entry_index a))) :: u32)"
    by (simp add: algebra_simps)
  show ?thesis
    unfolding page_translate_walk [OF assms(1-3)] assms(5) e plain_word_read [OF assms(6)] assms(7) [symmetric]
    using assms(4) by simp
qed

lemma nat_parts: "x = x div 4096 div 1024 * 4194304 + x div 4096 mod 1024 * 4096 + x mod 4096" for x :: nat
  using div_mult_mod_eq [of x 4096] div_mult_mod_eq [of "x div 4096" 1024] by linarith

lemma la_parts:
  "unat a = unat (la_page_directory_index a) * 4194304 + unat (la_page_entry_index a) * 4096 + unat (la_offset a)"
  "unat (la_page_directory_index a) < 1024" "unat (la_page_entry_index a) < 1024" "unat (la_offset a) < 4096"
proof -
  have p: "unat (bf_get k n a) = unat a div 2 ^ k mod 2 ^ n" for k n
    unfolding bf_get_def unsigned_take_bit_eq unsigned_drop_bit_eq
    using unat_less_32 [of a] by (simp add: take_bit_nat_eq_self) (simp add: take_bit_eq_mod drop_bit_eq_div)
  show "unat (la_page_directory_index a) < 1024" "unat (la_page_entry_index a) < 1024" "unat (la_offset a) < 4096"
    using unat_bf_get_less [of 22 10 a] unat_bf_get_less [of 12 10 a] unat_bf_get_less [of 0 12 a]
    by (simp_all add: la_page_directory_index_def la_page_entry_index_def la_offset_def)
  have "unat a div 4194304 mod 1024 = unat a div 4194304" "unat a div 4194304 = unat a div 4096 div 1024"
    using unat_less_32 [of a] by (simp_all add: div_less_iff_less_mult div_mult2_eq [symmetric])
  then show "unat a = unat (la_page_directory_index a) * 4194304 + unat (la_page_entry_index a) * 4096 + unat (la_offset a)"
    unfolding la_page_directory_index_def la_page_entry_index_def la_offset_def p
    using nat_parts [of "unat a"] by simp
qed

lemma frame_aligned:
  assumes "i < 0x100000"
  shows "push_bit 12 (of_nat i) AND 0xfffff000 = (push_bit 12 (of_nat i) :: u32)"
    "unat (push_bit 12 (of_nat i) :: u32) = 4096 * i"
proof -
  have m: "(0xfffff000 :: u32) = NOT (mask 12)" by code_simp
  show "push_bit 12 (of_nat i) AND 0xfffff000 = (push_bit 12 (of_nat i) :: u32)"
    unfolding m by (rule bit_word_eqI) (auto simp: bit_simps)
  show "unat (push_bit 12 (of_nat i) :: u32) = 4096 * i"
    using assms by (simp add: push_bit_eq_mult unat_word_ariths unat_of_nat mod_simps)
qed

lemma frame_of_table: "of_nat (4 * (1024 * k)) = (push_bit 12 (of_nat k) :: u32)"
  by (simp add: push_bit_eq_mult)

section \<open>The address space of the kernel\<close>

definition plain_pages :: "nat \<Rightarrow> nat \<Rightarrow> machine \<Rightarrow> bool" where
  "plain_pages p n s \<longleftrightarrow> p + n < 32768 \<and> (\<forall>i < 1024 * n. plain_word s (1024 * p + i))"

text \<open>
  What the linker provides: variables of \<open>n\<close> pages that start at a page, below the end of the memory,
  apart from the devices and from each other.
\<close>

definition page_area :: "u32 \<Rightarrow> nat \<Rightarrow> machine \<Rightarrow> bool" where
  "page_area a n s \<longleftrightarrow>
     unat (va_to_pa a) mod 4096 = 0 \<and> unat (va_to_pa a) + 4096 * n < 0x8000000 \<and>
     (\<forall>x. unat (va_to_pa a) \<le> unat x \<and> unat x < unat (va_to_pa a) + 4096 * n \<longrightarrow> is_mmio (mmio s) x = None)"

definition areas_apart :: "u32 \<Rightarrow> nat \<Rightarrow> u32 \<Rightarrow> nat \<Rightarrow> bool" where
  "areas_apart a n b k \<longleftrightarrow> apart (unat (va_to_pa a)) (4096 * n) (unat (va_to_pa b)) (4096 * k)"

definition tables_ok :: "u32 \<Rightarrow> u32 \<Rightarrow> machine \<Rightarrow> bool" where
  "tables_ok kpdir kptable s \<longleftrightarrow> page_area kpdir 1 s \<and> page_area kptable 32 s \<and> areas_apart kpdir 1 kptable 32"

lemma page_areaE:
  assumes "page_area a n s"
  obtains p where "va_to_pa a = of_nat (4 * (1024 * p))" "unat (va_to_pa a) = 4 * (1024 * p)" "plain_pages p n s"
proof
  define p where "p = unat (va_to_pa a) div 4096"
  show u: "unat (va_to_pa a) = 4 * (1024 * p)" using assms by (auto simp: page_area_def p_def)
  then show "va_to_pa a = of_nat (4 * (1024 * p))" by (metis of_nat_unat ucast_id)
  have b: "p + n < 32768" using assms by (simp add: page_area_def u)
  have "plain_word s (1024 * p + i)" if "i < 1024 * n" for i
  proof -
    have w: "unat (of_nat (4 * (1024 * p + i)) :: u32) = 4 * (1024 * p + i)"
      using that b unat_cell [of "1024 * p + i" 0] by (simp del: of_nat_mult of_nat_add)
    have "\<forall>x. 4 * (1024 * p) \<le> unat x \<and> unat x < 4 * (1024 * p) + 4096 * n \<longrightarrow> is_mmio (mmio s) x = None"
      using assms unfolding page_area_def u by blast
    from this [rule_format, of "of_nat (4 * (1024 * p + i))", unfolded w]
    have "is_mmio (mmio s) (of_nat (4 * (1024 * p + i))) = None" using that by simp
    then show ?thesis using that b by (simp add: plain_word_def)
  qed
  with b show "plain_pages p n s" by (simp add: plain_pages_def)
qed

lemma tables_okE:
  assumes "tables_ok kpdir kptable s"
  obtains p t where "va_to_pa kpdir = of_nat (4 * (1024 * p))" "va_to_pa kptable = of_nat (4 * (1024 * t))"
    "unat (va_to_pa kpdir) = 4 * (1024 * p)" "unat (va_to_pa kptable) = 4 * (1024 * t)"
    "apart p 1 t 32" "plain_pages p 1 s" "plain_pages t 32 s"
proof -
  obtain p where p: "va_to_pa kpdir = of_nat (4 * (1024 * p))" "unat (va_to_pa kpdir) = 4 * (1024 * p)" "plain_pages p 1 s"
    using assms page_areaE unfolding tables_ok_def by metis
  obtain t where t: "va_to_pa kptable = of_nat (4 * (1024 * t))" "unat (va_to_pa kptable) = 4 * (1024 * t)" "plain_pages t 32 s"
    using assms page_areaE unfolding tables_ok_def by metis
  have "apart p 1 t 32" using assms by (auto simp: tables_ok_def areas_apart_def apart_def p(2) t(2))
  with p t that show ?thesis by blast
qed

lemma init_page_fields [simp]:
  "cr0_pg (cr0 (init_page kpdir kptable s))" "mmio (init_page kpdir kptable s) = mmio s"
  by (simp_all add: init_page_def Let_def cr0_pg_def)

lemma init_page_cr3:
  "va_to_pa kpdir = push_bit 12 (of_nat p) \<Longrightarrow>
     push_bit 12 (cr3_pdbr (cr3 (init_page kpdir kptable s))) = push_bit 12 (of_nat p)"
  by (rule bit_word_eqI) (auto simp: init_page_def Let_def cr3_pdbr_def bit_simps bf_simps)

lemma plain_word_init_page [simp]: "plain_word (init_page kpdir kptable s) i = plain_word s i"
  by (simp add: plain_word_def)

lemma init_page_cells:
  assumes "va_to_pa kpdir = of_nat (4 * (1024 * p))" "va_to_pa kptable = of_nat (4 * (1024 * t))"
    and "p + 1 < 32768" "t + 32 < 32768" and ap: "apart p 1 t 32"
  shows "d < 1024 \<Longrightarrow> cell (hw_mem (init_page kpdir kptable s)) (1024 * p + d) =
      (if d < 32 then make_pde (of_nat (4 * (1024 * (t + d))))
       else if 768 \<le> d \<and> d < 800 then make_pde (of_nat (4 * (1024 * (t + (d - 768))))) else 0)"
    and "i < 32768 \<Longrightarrow> cell (hw_mem (init_page kpdir kptable s)) (1024 * t + i) = make_pte (push_bit 12 (of_nat i))"
proof -
  have h: "hw_mem (init_page kpdir kptable s) =
    fill_pdir 32 (of_nat (4 * (1024 * p))) (of_nat 0) (of_nat (4 * (1024 * t))) (of_nat 0)
      (memset0 (of_nat (4 * (1024 * p))) (4 * 1024) (hw_mem s))"
    by (simp only: init_page_def Let_def assms(1,2) table_consts of_nat_0) simp
  have b: "1024 * p + 1024 \<le> 0x40000000" "1024 * t + 1024 * 32 \<le> 0x40000000"
    "apart (1024 * p) 1024 (1024 * t) (1024 * 32)" "0 + 32 \<le> (256 :: nat)"
    using assms by (auto simp: apart_def)
  note c = cell_fill_pdir [OF b(1,2) _ b(3,4)] cell_memset0 [OF b(1)]
  show "cell (hw_mem (init_page kpdir kptable s)) (1024 * p + d) =
      (if d < 32 then make_pde (of_nat (4 * (1024 * (t + d))))
       else if 768 \<le> d \<and> d < 800 then make_pde (of_nat (4 * (1024 * (t + (d - 768))))) else 0)" if "d < 1024"
  proof -
    have q: "1024 * p + d < 0x40000000" using that assms by simp
    have z: "cell (memset0 (of_nat (4 * (1024 * p))) (4 * 1024) (hw_mem s)) (1024 * p + d) = 0"
      using c(2) [OF q] that by simp
    show ?thesis unfolding h c(1) [OF q] z using that assms(3-5) [unfolded apart_def]
      by (auto simp: distrib_left add.assoc dest!: le_Suc_ex simp del: of_nat_mult of_nat_add of_nat_diff)
  qed
  show "cell (hw_mem (init_page kpdir kptable s)) (1024 * t + i) = make_pte (push_bit 12 (of_nat i))" if "i < 32768"
  proof -
    have "1024 * t + i < 0x40000000" using that assms by simp
    then show ?thesis unfolding h using that by (subst c(1)) auto
  qed
qed

text \<open>
  A machine that runs on the kernel's tables: the directory is page \<open>p\<close>, the page tables start at page
  \<open>t\<close>. The entries of a directory \<open>u\<close> for the window above \<open>KOFFSET\<close> are shared with the user's directory.
\<close>

definition window_entries :: "nat \<Rightarrow> nat \<Rightarrow> memory \<Rightarrow> bool" where
  "window_entries u t m \<longleftrightarrow>
     (\<forall>d. 768 \<le> d \<and> d < 1024 \<longrightarrow> cell m (1024 * u + d) =
        (if d < 800 then make_pde (of_nat (4 * (1024 * (t + (d - 768))))) else 0))"

definition low_entries :: "nat \<Rightarrow> nat \<Rightarrow> memory \<Rightarrow> bool" where
  "low_entries p t m \<longleftrightarrow>
     (\<forall>d < 768. cell m (1024 * p + d) = (if d < 32 then make_pde (of_nat (4 * (1024 * (t + d)))) else 0))"

definition table_entries :: "nat \<Rightarrow> memory \<Rightarrow> bool" where
  "table_entries t m \<longleftrightarrow> (\<forall>i < 32768. cell m (1024 * t + i) = make_pte (push_bit 12 (of_nat i)))"

definition runs_on :: "nat \<Rightarrow> machine \<Rightarrow> bool" where
  "runs_on u s \<longleftrightarrow> cr0_pg (cr0 s) \<and> push_bit 12 (cr3_pdbr (cr3 s)) = of_nat (4 * (1024 * u)) \<and> plain_pages u 1 s"

lemmas space_defs = window_entries_def low_entries_def table_entries_def

lemma to_paddr_runs_on: "runs_on u s \<Longrightarrow> to_paddr s a = page_translate s a"
  by (simp add: runs_on_def to_paddr_def)

lemma dir_plain: "runs_on u s \<Longrightarrow> plain_word s (1024 * u + unat (la_page_directory_index a))"
  using la_parts(2) [of a] by (simp add: runs_on_def plain_pages_def)

text \<open>An entry of the directory that points to a page of the kernel's tables maps its part of the memory.\<close>

lemma translate_through_table:
  assumes r: "runs_on u s" and t: "table_entries t (hw_mem s)" "plain_pages t 32 s"
    and e: "cell (hw_mem s) (1024 * u + unat (la_page_directory_index a)) = make_pde (of_nat (4 * (1024 * (t + d))))"
    and d: "d < 32"
  shows "page_translate s a = Some (push_bit 12 (of_nat (1024 * d + unat (la_page_entry_index a))) + la_offset a)"
proof -
  let ?pi = "unat (la_page_entry_index a)"
  note l = la_parts(2,3) [of a]
  have i: "1024 * d + ?pi < 32768" using d l by simp
  have f: "cell (hw_mem s) (1024 * (t + d) + ?pi) = make_pte (push_bit 12 (of_nat (1024 * d + ?pi)))"
    using t(1) [unfolded table_entries_def, rule_format, OF i] by (simp add: distrib_left add.assoc)
  have "page_translate s a = (if pt_present (cell (hw_mem s) (1024 * (t + d) + ?pi))
      then Some (push_bit 12 (pt_page_frame (cell (hw_mem s) (1024 * (t + d) + ?pi))) + la_offset a) else None)"
  proof (rule page_translate_table [OF _ dir_plain [OF r] e [symmetric] _ _ _ refl])
    show "push_bit 12 (cr3_pdbr (cr3 s)) = of_nat (4 * (1024 * u))" using r by (simp add: runs_on_def)
    show "push_bit 12 (pt_page_frame (make_pde (of_nat (4 * (1024 * (t + d)))))) = of_nat (4 * (1024 * (t + d)))"
      using t(2) d by (simp only: entry_fields frame_of_table) (rule frame_aligned; simp add: plain_pages_def)
    show "plain_word s (1024 * (t + d) + unat (la_page_entry_index a))"
      using t(2) i by (simp add: plain_pages_def distrib_left add.assoc)
  qed simp
  also have "\<dots> = Some (push_bit 12 (of_nat (1024 * d + ?pi)) + la_offset a)"
    unfolding f using frame_aligned(1) [of "1024 * d + ?pi"] i by (simp del: of_nat_mult of_nat_add)
  finally show ?thesis .
qed

lemma translate_absent:
  assumes r: "runs_on u s" and e: "\<not> pt_present (cell (hw_mem s) (1024 * u + unat (la_page_directory_index a)))"
  shows "page_translate s a = None"
proof -
  have "push_bit 12 (cr3_pdbr (cr3 s)) = of_nat (4 * (1024 * u))" using r by (simp add: runs_on_def)
  from page_translate_walk [OF this dir_plain [OF r] refl] e show ?thesis by simp
qed

lemma identity_address:
  "push_bit 12 (of_nat (1024 * unat (la_page_directory_index a) + unat (la_page_entry_index a))) + la_offset a = a"
  (is "?l = a")
proof (rule word_unat_eq_iff [THEN iffD2])
  let ?i = "1024 * unat (la_page_directory_index a) + unat (la_page_entry_index a)"
  have i: "?i < 0x100000" using la_parts(2,3) [of a] by simp
  have "unat ?l = (4096 * ?i + unat (la_offset a)) mod 2 ^ 32"
    by (simp only: unat_word_ariths frame_aligned(2) [OF i]) simp
  also have "\<dots> = unat a" using la_parts(1) [of a] unat_less_32 [of a] by simp
  finally show "unat ?l = unat a" .
qed

lemma window_address:
  assumes "768 \<le> unat (la_page_directory_index a)"
  shows "push_bit 12 (of_nat (1024 * (unat (la_page_directory_index a) - 768) + unat (la_page_entry_index a)))
    + la_offset a = a - KOFFSET"
  using identity_address [of a] assms
  by (auto simp: KOFFSET_def push_bit_eq_mult algebra_simps of_nat_diff)

lemma region_iff:
  "a < PHY_MEM \<longleftrightarrow> unat (la_page_directory_index a) < 32"
  "KOFFSET \<le> a \<longleftrightarrow> 768 \<le> unat (la_page_directory_index a)"
  "a < KOFFSET + PHY_MEM \<longleftrightarrow> unat (la_page_directory_index a) < 800"
  using la_parts [of a] by (auto simp: word_less_nat_alt word_le_nat_alt PHY_MEM_def KOFFSET_def)

text \<open>The window, for any directory that has its entries.\<close>

lemma translate_window:
  assumes "runs_on u s" "window_entries u t (hw_mem s)" "table_entries t (hw_mem s)" "plain_pages t 32 s" "KOFFSET \<le> a"
  shows "to_paddr s a = (if a < KOFFSET + PHY_MEM then Some (a - KOFFSET) else None)"
proof -
  let ?d = "unat (la_page_directory_index a)"
  have d: "768 \<le> ?d" "?d < 1024" using assms(5) la_parts(2) [of a] by (simp_all add: region_iff)
  have e: "cell (hw_mem s) (1024 * u + ?d) =
      (if ?d < 800 then make_pde (of_nat (4 * (1024 * (t + (?d - 768))))) else 0)"
    using assms(2) d unfolding window_entries_def by blast
  show ?thesis
  proof (cases "?d < 800")
    case True
    with e have "cell (hw_mem s) (1024 * u + ?d) = make_pde (of_nat (4 * (1024 * (t + (?d - 768)))))"
      by (simp only: if_True)
    from translate_through_table [OF assms(1,3,4) this] True window_address [OF d(1)] show ?thesis
      by (simp add: to_paddr_runs_on [OF assms(1)] region_iff del: of_nat_mult of_nat_add of_nat_diff)
  next
    case False
    with e have "\<not> pt_present (cell (hw_mem s) (1024 * u + ?d))" by (simp add: pt_present_def)
    from translate_absent [OF assms(1) this] False show ?thesis
      by (simp add: to_paddr_runs_on [OF assms(1)] region_iff)
  qed
qed

lemma translate_low:
  assumes "runs_on p s" "low_entries p t (hw_mem s)" "table_entries t (hw_mem s)" "plain_pages t 32 s" "\<not> KOFFSET \<le> a"
  shows "to_paddr s a = (if a < PHY_MEM then Some a else None)"
proof -
  let ?d = "unat (la_page_directory_index a)"
  have "?d < 768" using assms(5) by (simp add: region_iff)
  then have e: "cell (hw_mem s) (1024 * p + ?d) = (if ?d < 32 then make_pde (of_nat (4 * (1024 * (t + ?d)))) else 0)"
    using assms(2) unfolding low_entries_def by blast
  show ?thesis
  proof (cases "?d < 32")
    case True
    with e have "cell (hw_mem s) (1024 * p + ?d) = make_pde (of_nat (4 * (1024 * (t + ?d))))"
      by (simp only: if_True)
    from translate_through_table [OF assms(1,3,4) this True] True show ?thesis
      unfolding to_paddr_runs_on [OF assms(1)] region_iff identity_address by simp
  next
    case False
    with e have "\<not> pt_present (cell (hw_mem s) (1024 * p + ?d))" by (simp add: pt_present_def)
    from translate_absent [OF assms(1) this] False show ?thesis
      by (simp add: to_paddr_runs_on [OF assms(1)] region_iff)
  qed
qed

text \<open>\<open>init_page\<close> establishes all of this.\<close>

definition kernel_space :: "nat \<Rightarrow> nat \<Rightarrow> machine \<Rightarrow> bool" where
  "kernel_space p t s \<longleftrightarrow> runs_on p s \<and> plain_pages t 32 s \<and> apart p 1 t 32 \<and>
     window_entries p t (hw_mem s) \<and> low_entries p t (hw_mem s) \<and> table_entries t (hw_mem s)"

lemma init_page_kernel_space:
  assumes p: "va_to_pa kpdir = of_nat (4 * (1024 * p))" "va_to_pa kptable = of_nat (4 * (1024 * t))"
    and a: "apart p 1 t 32" and w: "plain_pages p 1 s" "plain_pages t 32 s"
  shows "kernel_space p t (init_page kpdir kptable s)"
proof -
  have b: "p + 1 < 32768" "t + 32 < 32768" using w by (simp_all add: plain_pages_def)
  note c = init_page_cells [OF p b a]
  have "push_bit 12 (cr3_pdbr (cr3 (init_page kpdir kptable s))) = of_nat (4 * (1024 * p))"
    using p by (simp only: frame_of_table init_page_cr3)
  then have "runs_on p (init_page kpdir kptable s)"
    using w by (simp add: runs_on_def plain_pages_def)
  moreover have "plain_pages t 32 (init_page kpdir kptable s)" using w by (simp add: plain_pages_def)
  moreover have "window_entries p t (hw_mem (init_page kpdir kptable s))" "low_entries p t (hw_mem (init_page kpdir kptable s))"
    unfolding window_entries_def low_entries_def by (auto simp: c(1) simp del: of_nat_mult of_nat_add of_nat_diff)
  moreover have "table_entries t (hw_mem (init_page kpdir kptable s))" by (simp add: table_entries_def c(2))
  ultimately show ?thesis using a by (simp add: kernel_space_def)
qed

lemma kernel_space_translate:
  assumes "kernel_space p t s"
  shows "to_paddr s a = (if a < PHY_MEM then Some a
     else if KOFFSET \<le> a \<and> a < KOFFSET + PHY_MEM then Some (a - KOFFSET) else None)"
proof -
  have "\<not> a < PHY_MEM" if "KOFFSET \<le> a"
    using that by (simp add: region_iff)
  then show ?thesis
    using assms translate_low [of p s t a] translate_window [of p s t a]
    by (cases "KOFFSET \<le> a") (auto simp: kernel_space_def)
qed

lemma kernel_space_frame:
  assumes "kernel_space p t s" "cr0 s' = cr0 s" "cr3 s' = cr3 s" "mmio s' = mmio s"
    and "\<And>q. 1024 * p \<le> q \<Longrightarrow> q < 1024 * p + 1024 \<Longrightarrow> cell (hw_mem s') q = cell (hw_mem s) q"
    and "\<And>q. 1024 * t \<le> q \<Longrightarrow> q < 1024 * t + 32768 \<Longrightarrow> cell (hw_mem s') q = cell (hw_mem s) q"
  shows "kernel_space p t s'"
  using assms by (simp add: kernel_space_def runs_on_def plain_pages_def plain_word_def space_defs)

lemma unat_kernel_address: "KOFFSET \<le> a \<Longrightarrow> unat a = unat (va_to_pa a) + 0xC0000000"
  by (simp add: va_to_pa_def KOFFSET_def unat_sub_if' word_le_nat_alt)

lemma aligned_rest: "4 \<le> 4096 - 4 * x mod 4096" for x :: nat
proof -
  have "4 * x mod 4096 = 4 * (x mod 1024)" using mult_mod_right [of 4 x 1024] by simp
  moreover have "x mod 1024 < 1024" by simp
  ultimately show ?thesis by linarith
qed

text \<open>An aligned word that the kernel reads through its window.\<close>

lemma kernel_read_word:
  assumes "kernel_space p t s" "KOFFSET \<le> a" "unat (va_to_pa a) = 4 * i" "plain_word s i"
  shows "laddr_read s a 4 = Some (cell (hw_mem s) i)"
proof -
  have u: "unat a = 4 * (i + 0x30000000)" using unat_kernel_address [OF assms(2)] assms(3) by simp
  have "4 \<le> page_rest a" unfolding page_rest_def u by (rule aligned_rest)
  moreover have "to_paddr s a = Some (va_to_pa a)"
    using assms(2-4) u unfolding kernel_space_translate [OF assms(1)]
    by (auto simp: plain_word_def word_less_nat_alt PHY_MEM_def KOFFSET_def va_to_pa_def)
  moreover have "va_to_pa a = of_nat (4 * i)" using assms(3) by (metis of_nat_unat ucast_id)
  ultimately show ?thesis
    using plain_word_read [OF assms(4)] by (simp add: laddr_read_page del: of_nat_mult)
qed

section \<open>The kernel's descriptors\<close>

text \<open>Every bit of a descriptor is assigned by \<open>set_segment\<close>.\<close>

lemma set_segment_eq:
  "set_segment 0 0xA d = \<lparr>sd_val0 = 0xFFFF, sd_val1 = 0xCF9A00\<rparr>"
  "set_segment 0 0x2 d = \<lparr>sd_val0 = 0xFFFF, sd_val1 = 0xCF9200\<rparr>"
proof -
  have lo: "bf_put 16 16 0 (bf_put 0 16 0xFFFF v) = (bf_put 16 16 0 (bf_put 0 16 0xFFFF 0) :: u32)" for v
    by (rule bit_word_eqI) (auto simp: bf_simps)
  have hi: "bf_put 24 8 0 (bf_put 23 1 1 (bf_put 22 1 1 (bf_put 21 1 0 (bf_put 20 1 0 (bf_put 16 4 0xF (bf_put 15 1 1
      (bf_put 13 2 pl (bf_put 12 1 1 (bf_put 8 4 ty (bf_put 0 8 0 v)))))))))) =
    (bf_put 24 8 0 (bf_put 23 1 1 (bf_put 22 1 1 (bf_put 21 1 0 (bf_put 20 1 0 (bf_put 16 4 0xF (bf_put 15 1 1
      (bf_put 13 2 pl (bf_put 12 1 1 (bf_put 8 4 ty (bf_put 0 8 0 0)))))))))) :: u32)" for pl ty v
    by (rule bit_word_eqI) (auto simp: bf_simps)
  show "set_segment 0 0xA d = \<lparr>sd_val0 = 0xFFFF, sd_val1 = 0xCF9A00\<rparr>"
    unfolding set_segment_def Let_def lo [of "sd_val0 d"] hi [where v = "sd_val1 d"] by code_simp
  show "set_segment 0 0x2 d = \<lparr>sd_val0 = 0xFFFF, sd_val1 = 0xCF9200\<rparr>"
    unfolding set_segment_def Let_def lo [of "sd_val0 d"] hi [where v = "sd_val1 d"] by code_simp
qed

lemma join_halves: "ucast (ucast x :: u16) OR push_bit 16 (ucast (ucast (drop_bit 16 x) :: u16)) = x" for x :: u32
  by (rule bit_word_eqI) (auto simp: bit_simps)

lemma init_segment_cells:
  assumes "g + 6 \<le> 0x40000000" "q < 0x40000000"
  shows "cell (init_segment_mem (of_nat (4 * g)) m) q =
    (if g \<le> q \<and> q < g + 6 then [0, 0, 0xFFFF, 0xCF9A00, 0xFFFF, 0xCF9200] ! (q - g) else cell m q)"
proof -
  have a: "of_nat (4 * g) + SEG_KERNEL_CODE * 8 = (of_nat (4 * (g + 2)) :: u32)"
    "of_nat (4 * g) + SEG_KERNEL_DATA * 8 = (of_nat (4 * (g + 4)) :: u32)"
    "of_nat (4 * (g + 2)) + 4 = (of_nat (4 * (g + 3)) :: u32)" "of_nat (4 * (g + 4)) + 4 = (of_nat (4 * (g + 5)) :: u32)"
    by (simp_all add: SEG_KERNEL_CODE_def SEG_KERNEL_DATA_def algebra_simps)
  have c: "SEG_EXECUTABLE OR SEG_READABLE = 0xA" "SEG_WRITABLE = 2" "unat (NR_SEGMENTS * 8) = 4 * 6"
    by code_simp+
  have s: "cell (store32 (of_nat (4 * (g + k))) v m) q = (if q = g + k then v else cell m q)" if "k < 6" for k v m
    using that assms by (intro cell_store) auto
  have k: "(2 :: nat) < 6" "(3 :: nat) < 6" "(4 :: nat) < 6" "(5 :: nat) < 6" by simp_all
  have e: "cell (init_segment_mem (of_nat (4 * g)) m) q =
      (if q = g + 5 then 0xCF9200 else if q = g + 4 then 0xFFFF else if q = g + 3 then 0xCF9A00
       else if q = g + 2 then 0xFFFF else if g \<le> q \<and> q < g + 6 then 0 else cell m q)"
    unfolding init_segment_mem_def Let_def a c set_segment_eq store_desc_def SegDesc.select_convs
      s [OF k(1)] s [OF k(2)] s [OF k(3)] s [OF k(4)] cell_memset0 [OF assms] by simp
  consider "q < g" | "q = g" | "q = g + 1" | "q = g + 2" | "q = g + 3" | "q = g + 4" | "q = g + 5" | "g + 6 \<le> q"
    by linarith
  then show ?thesis unfolding e by cases (simp_all add: nth_Cons' del: One_nat_def)
qed

text \<open>The same for another variable of \<open>n\<close> words.\<close>

definition kernel_var_ok :: "u32 \<Rightarrow> nat \<Rightarrow> u32 \<Rightarrow> u32 \<Rightarrow> machine \<Rightarrow> bool" where
  "kernel_var_ok a n kpdir kptable s \<longleftrightarrow>
     KOFFSET \<le> a \<and> unat (va_to_pa a) mod 4 = 0 \<and> unat (va_to_pa a) + 4 * n < 0x8000000 \<and>
     (\<forall>x. unat (va_to_pa a) \<le> unat x \<and> unat x < unat (va_to_pa a) + 4 * n \<longrightarrow> is_mmio (mmio s) x = None) \<and>
     apart (unat (va_to_pa a)) (4 * n) (unat (va_to_pa kpdir)) 4096 \<and>
     apart (unat (va_to_pa a)) (4 * n) (unat (va_to_pa kptable)) 131072"

text \<open>
  Code that runs behind \<open>init_page\<close> and stores only into such a variable leaves the address space alone,
  and reads the variable's words through the window.
\<close>

lemma kernel_var_words:
  assumes "tables_ok kpdir kptable s" and var: "kernel_var_ok a n kpdir kptable s"
    and f: "cr0 s' = cr0 (init_page kpdir kptable s)" "cr3 s' = cr3 (init_page kpdir kptable s)" "mmio s' = mmio s"
    and g: "g = unat (va_to_pa a) div 4"
    and other: "\<And>q. q < 0x40000000 \<Longrightarrow> \<not> (g \<le> q \<and> q < g + n) \<Longrightarrow> cell (hw_mem s') q = cell (hw_mem (init_page kpdir kptable s)) q"
    and j: "j < n"
  shows "laddr_read s' (a + of_nat (4 * j)) 4 = Some (cell (hw_mem s') (g + j))"
proof -
  obtain p t where pt: "va_to_pa kpdir = of_nat (4 * (1024 * p))" "va_to_pa kptable = of_nat (4 * (1024 * t))"
    "unat (va_to_pa kpdir) = 4 * (1024 * p)" "unat (va_to_pa kptable) = 4 * (1024 * t)"
    "apart p 1 t 32" "plain_pages p 1 s" "plain_pages t 32 s"
    using tables_okE [OF assms(1)] by metis
  have u: "unat (va_to_pa a) = 4 * g" using var by (auto simp: g kernel_var_ok_def)
  have k: "KOFFSET \<le> a" and b: "4 * g + 4 * n < 0x8000000"
    and ap: "apart g n (1024 * p) 1024" "apart g n (1024 * t) 32768"
    using var by (auto simp: kernel_var_ok_def u pt(3,4) apart_def)
  have ks: "kernel_space p t s'"
  proof (rule kernel_space_frame [OF init_page_kernel_space [OF pt(1,2,5-7)] f(1,2)])
    show "mmio s' = mmio (init_page kpdir kptable s)" by (simp add: f(3))
  qed (use ap pt(6,7) in \<open>auto simp: other apart_def plain_pages_def\<close>)
  have l: "va_to_pa (a + of_nat (4 * j)) = va_to_pa a + of_nat (4 * j)" by (simp add: va_to_pa_def)
  have v: "unat (va_to_pa (a + of_nat (4 * j))) = 4 * (g + j)"
    unfolding l unat_add_nat u using j b by simp
  have "unat (a + of_nat (4 * j)) = unat a + 4 * j"
    unfolding unat_add_nat unat_kernel_address [OF k] u using j b by simp
  then have kj: "KOFFSET \<le> a + of_nat (4 * j)"
    using k by (simp only: word_le_nat_alt)
  have "\<forall>x. 4 * g \<le> unat x \<and> unat x < 4 * g + 4 * n \<longrightarrow> is_mmio (mmio s) x = None"
    using var unfolding kernel_var_ok_def u by blast
  from this [rule_format, of "of_nat (4 * (g + j))"] have "plain_word s' (g + j)"
    using b unat_cell [of "g + j" 0] j by (simp add: plain_word_def f del: of_nat_mult of_nat_add)
  from kernel_read_word [OF ks kj v this] show ?thesis .
qed

lemma init_segment_words:
  assumes "tables_ok kpdir kptable s" "kernel_var_ok gdt 6 kpdir kptable s" "j < 6"
  shows "laddr_read (init_segment gdt (init_page kpdir kptable s)) (gdt + of_nat (4 * j)) 4
    = Some ([0, 0, 0xFFFF, 0xCF9A00, 0xFFFF, 0xCF9200] ! j)"
proof -
  let ?k = "init_page kpdir kptable s" and ?s = "init_segment gdt (init_page kpdir kptable s)"
  define g where "g = unat (va_to_pa gdt) div 4"
  have u: "unat (va_to_pa gdt) = 4 * g" and b: "g + 6 \<le> 0x40000000"
    using assms(2) by (auto simp: g_def kernel_var_ok_def)
  have "va_to_pa gdt = of_nat (4 * g)" using u by (metis of_nat_unat ucast_id)
  then have f: "cr0 ?s = cr0 ?k" "cr3 ?s = cr3 ?k" "mmio ?s = mmio s"
    "hw_mem ?s = init_segment_mem (of_nat (4 * g)) (hw_mem ?k)"
    by (simp_all add: init_segment_def write_gdtr_def Let_def)
  have "laddr_read ?s (gdt + of_nat (4 * j)) 4 = Some (cell (hw_mem ?s) (g + j))"
    by (rule kernel_var_words [OF assms(1,2) f(1-3) g_def _ assms(3)]) (auto simp: f(4) init_segment_cells [OF b] simp del: of_nat_mult)
  then show ?thesis
    using assms(3) b init_segment_cells [OF b, of "g + j"] by (simp add: f(4) del: of_nat_mult)
qed

section \<open>The properties\<close>

text \<open>C20: behind \<open>init_page\<close> the kernel's address space is the physical memory twice, at its own
  addresses and from \<open>KOFFSET\<close> on; every other address faults (the emulator's assertion on the
  present bits fails).\<close>

theorem init_page_maps:
  assumes "tables_ok kpdir kptable s"
  shows "to_paddr (init_page kpdir kptable s) a =
    (if a < PHY_MEM then Some a
     else if KOFFSET \<le> a \<and> a < KOFFSET + PHY_MEM then Some (a - KOFFSET) else None)"
  using tables_okE [OF assms] init_page_kernel_space kernel_space_translate by metis

theorem init_page_maps_witness:
  "to_paddr (init_page 0xC0100000 0xC0200000 machine0) 0xC0123456 = Some 0x123456 \<and>
   to_paddr (init_page 0xC0100000 0xC0200000 machine0) 0x8000000 = None"
proof -
  have "tables_ok 0xC0100000 0xC0200000 machine0"
    by (simp add: tables_ok_def page_area_def areas_apart_def apart_def va_to_pa_def KOFFSET_def machine0_def is_mmio_def)
  from init_page_maps [OF this] show ?thesis by (simp add: PHY_MEM_def KOFFSET_def)
qed

text \<open>the kernel's table of segments: whatever segment register the kernel then loads with one of its two
  selectors, \<open>load_sreg\<close> accepts the descriptor, and the segment is flat, of the kernel's privilege level
  and executable or writable as intended.\<close>

theorem init_segment_flat:
  assumes "tables_ok kpdir kptable s" "kernel_var_ok gdt 6 kpdir kptable s" "sreg \<le> 5"
    and "sel_index (sr_val (segReg s sreg)) = k" "k = SEG_KERNEL_CODE \<or> k = SEG_KERNEL_DATA"
  shows "\<exists>s'. load_sreg sreg (init_segment gdt (init_page kpdir kptable s)) = Some s' \<and>
    sr_base (segReg s' sreg) = 0 \<and> sr_limit (segReg s' sreg) = 0xFFFFF \<and>
    sr_type (segReg s' sreg) = (if k = SEG_KERNEL_CODE then 0x1A else 0x12) \<and>
    sr_privilege_level (segReg s' sreg) = 0"
proof -
  let ?s = "init_segment gdt (init_page kpdir kptable s)"
  have f: "gdtr_base ?s = gdt" "segReg ?s = segReg s"
    by (simp_all add: init_segment_def write_gdtr_def Let_def join_halves init_page_def)
  note rd = init_segment_words [OF assms(1,2)]
  have r: "laddr_read ?s (12 + gdt) 4 = Some 0xCF9A00" "laddr_read ?s (20 + gdt) 4 = Some 0xCF9200"
    using rd [of 3] rd [of 5] by (simp_all add: add.commute)
  show ?thesis
    using rd [of 2] rd [of 4] r assms(3-5)
    by (elim disjE) (simp_all add: load_sreg_def Let_def f SEG_KERNEL_CODE_def SEG_KERNEL_DATA_def flat_checks_def
        get_base_def get_limit_def get_type_def desc_type_def segment_type_def desc_privilege_level_def
        limit_15_0_def base_15_0_def base_23_16_def base_31_24_def limit_19_16_def granularity_def bf_get_def)
qed

definition selector_machine :: machine where
  "selector_machine = machine0\<lparr>segReg := (\<lambda>_. SegReg0\<lparr>sr_val := 8\<rparr>)\<rparr>"

theorem init_segment_flat_witness:
  "\<exists>s'. load_sreg SREG_CS (init_segment 0xC0300000 (init_page 0xC0100000 0xC0200000 selector_machine)) = Some s' \<and>
     sr_type (segReg s' SREG_CS) = 0x1A"
proof -
  have m: "mmio selector_machine = mmio machine0" "segReg selector_machine sreg = SegReg0\<lparr>sr_val := 8\<rparr>" for sreg
    by (simp_all add: selector_machine_def)
  have "tables_ok 0xC0100000 0xC0200000 selector_machine" "kernel_var_ok 0xC0300000 6 0xC0100000 0xC0200000 selector_machine"
    by (simp_all add: tables_ok_def kernel_var_ok_def page_area_def areas_apart_def apart_def va_to_pa_def KOFFSET_def m machine0_def is_mmio_def)
  moreover have "sel_index (sr_val (segReg selector_machine SREG_CS)) = SEG_KERNEL_CODE" "SREG_CS \<le> 5"
    by (simp_all add: m sel_index_def bf_get_def SEG_KERNEL_CODE_def)
  ultimately show ?thesis
    using init_segment_flat [of "0xC0100000" "0xC0200000" selector_machine "0xC0300000" SREG_CS SEG_KERNEL_CODE] by auto
qed

end
