(* ===== verification/Kernel_User_Space.thy ===== *)
theory Kernel_User_Space
  imports Kernel_Memory_Correct
begin

text \<open>
  The address space of the user process: \<open>init_mm\<close> of \<open>mm.c\<close> and \<open>create_video_mapping\<close> of \<open>vmem.c\<close> on
  the tables that \<open>init_page\<close> has left.
\<close>

section \<open>Assignments to entries\<close>

lemma cell_set_present:
  assumes "p < 0x40000000" "q < 0x40000000"
  shows "cell (set_present b (of_nat (4 * p)) m) q = (if q = p then set_flag 0 b (cell m p) else cell m q)"
  using cell_store [OF assms] by (simp add: set_present_def cell_def del: of_nat_mult)

lemma cell_set_page_frame:
  assumes "p < 0x40000000" "q < 0x40000000"
  shows "cell (set_page_frame f (of_nat (4 * p)) m) q = (if q = p then bf_put 12 20 f (cell m p) else cell m q)"
  using cell_store [OF assms] by (simp add: set_page_frame_def cell_def del: of_nat_mult)

lemma word_index: "of_nat (4 * v) + of_nat i * 4 = (of_nat (4 * (v + i)) :: u32)"
  by (simp add: algebra_simps)

lemma cell_clear_table:
  assumes "v + n \<le> 0x40000000" "q < 0x40000000"
  shows "cell (fold (\<lambda>i. set_present False (of_nat (4 * v) + of_nat i * 4)) [0..<n] m) q =
    (if v \<le> q \<and> q < v + n then set_flag 0 False (cell m q) else cell m q)"
  using assms(1)
proof (induction n)
  case (Suc n)
  then have "v + n < 0x40000000" by simp
  note c = cell_set_present [OF this assms(2)]
  show ?case
    using Suc by (auto simp: word_index c less_Suc_eq simp del: of_nat_mult of_nat_add distrib_left_numeral)
qed auto

lemma map_video_pages:
  assumes "i \<le> j" "j \<le> 1024" "v + 1024 \<le> 0x40000000"
  obtains m' where "foldM (map_video_page d (of_nat (4 * v))) [i..<j] m = Some m'"
    "\<And>q. q < 0x40000000 \<Longrightarrow> cell m' q =
      (if v + i \<le> q \<and> q < v + j then set_flag 0 True (bf_put 12 20 (push_bit 10 d OR of_nat (q - v)) (cell m q))
       else cell m q)"
proof -
  have "\<exists>m'. foldM (map_video_page d (of_nat (4 * v))) [i..<j] m = Some m' \<and>
    (\<forall>q < 0x40000000. cell m' q =
      (if v + i \<le> q \<and> q < v + j then set_flag 0 True (bf_put 12 20 (push_bit 10 d OR of_nat (q - v)) (cell m q))
       else cell m q))"
    using assms(1,2)
  proof (induction j rule: dec_induct)
    case (step k)
    then obtain m1 where m1: "foldM (map_video_page d (of_nat (4 * v))) [i..<k] m = Some m1"
      "\<And>q. q < 0x40000000 \<Longrightarrow> cell m1 q =
        (if v + i \<le> q \<and> q < v + k then set_flag 0 True (bf_put 12 20 (push_bit 10 d OR of_nat (q - v)) (cell m q))
         else cell m q)"
      by auto
    have b: "v + k < 0x40000000" using step assms by simp
    have "(of_nat k :: u32) = of_nat k AND 0x3ff"
    proof -
      have "(0x3ff :: u32) = mask 10" by code_simp
      moreover have "take_bit 10 (of_nat k :: u32) = of_nat k"
        using step of_nat_take_bit [of 10 k, where 'a = u32] by (simp add: take_bit_nat_eq_self)
      ultimately show ?thesis by (simp add: take_bit_eq_mask)
    qed
    then have s: "map_video_page d (of_nat (4 * v)) k m1 =
      Some (set_present True (of_nat (4 * (v + k))) (set_page_frame (push_bit 10 d OR of_nat k) (of_nat (4 * (v + k))) m1))"
      by (simp add: map_video_page_def Let_def word_index [symmetric] del: of_nat_mult of_nat_add distrib_left_numeral)
    show ?case
      using step.hyps b
      by (auto simp: foldM_append m1 s cell_set_present cell_set_page_frame less_Suc_eq simp del: of_nat_mult of_nat_add of_nat_diff distrib_left_numeral)
  qed auto
  with that show ?thesis by blast
qed

lemma video_table_fresh:
  assumes "e < 0x40000000" "1024 * w + 1024 \<le> 0x40000000" "\<not> (1024 * w \<le> e \<and> e < 1024 * w + 1024)"
    and "\<not> pt_present (cell m e)"
  obtains m' where "video_table (of_nat (4 * e)) (of_nat (4 * (1024 * w))) m = Some m'"
    "\<And>q. q < 0x40000000 \<Longrightarrow> cell m' q =
      (if q = e then set_flag 0 True (bf_put 12 20 (of_nat w) (cell m e))
       else if 1024 * w \<le> q \<and> q < 1024 * w + 1024 then set_flag 0 False (cell m q) else cell m q)"
proof
  let ?t = "of_nat (4 * (1024 * w)) :: u32"
  let ?m = "fold (\<lambda>i. set_present False (?t + of_nat i * 4)) [0..<1024] m"
  have al: "?t AND 0xfff = 0" and fr: "bf_put 12 20 (drop_bit 12 ?t) x = bf_put 12 20 (of_nat w) x" for x :: u32
  proof -
    have m: "(0xfff :: u32) = mask 12" by code_simp
    show "?t AND 0xfff = 0" unfolding frame_of_table m by (rule bit_word_eqI) (auto simp: bit_simps)
    show "bf_put 12 20 (drop_bit 12 ?t) x = bf_put 12 20 (of_nat w) x"
      unfolding frame_of_table by (rule bit_word_eqI) (auto simp: bf_simps bit_simps)
  qed
  have fr2: "bf_put 12 20 (drop_bit 12 (of_nat (4096 * w))) x = bf_put 12 20 (of_nat w) x" for x :: u32
    using fr [of x] by (simp del: of_nat_mult)
  note c = cell_clear_table [OF assms(2)]
  show "video_table (of_nat (4 * e)) ?t m = Some (set_present True (of_nat (4 * e))
      (set_page_frame (drop_bit 12 ?t) (of_nat (4 * e)) ?m))"
    using assms(4) unfolding video_table_def Let_def al by (simp add: cell_def table_consts(3) del: of_nat_mult)
  show "cell (set_present True (of_nat (4 * e)) (set_page_frame (drop_bit 12 ?t) (of_nat (4 * e)) ?m)) q =
      (if q = e then set_flag 0 True (bf_put 12 20 (of_nat w) (cell m e))
       else if 1024 * w \<le> q \<and> q < 1024 * w + 1024 then set_flag 0 False (cell m q) else cell m q)"
    if "q < 0x40000000" for q
    using that assms(1,3) c [OF assms(1), of m] c [OF that, of m]
    by (auto simp: cell_set_present cell_set_page_frame fr2 simp del: of_nat_mult)
qed

section \<open>The user's directory\<close>

lemma init_mm_cells:
  assumes "va_to_pa updir = of_nat (4 * (1024 * u))" "va_to_pa kpdir = of_nat (4 * (1024 * p))"
    and "u < 32768" "p < 32768" "apart u 1 p 1" "q < 0x40000000"
  shows "cell (hw_mem (snd (init_mm updir kpdir (k, s)))) q =
    (if 1024 * u + 768 \<le> q \<and> q < 1024 * u + 800 then cell (hw_mem s) (1024 * p + (q - 1024 * u))
     else if 1024 * u \<le> q \<and> q < 1024 * u + 1024 then 0 else cell (hw_mem s) q)"
proof -
  have w: "of_nat (4 * (1024 * i)) + KOFFSET div PT_SIZE * 4 = (of_nat (4 * (1024 * i + 768)) :: u32)" for i
    by (simp add: table_consts)
  have h: "hw_mem (snd (init_mm updir kpdir (k, s))) =
      memcpy_mem (of_nat (4 * (1024 * u + 768))) (of_nat (4 * (1024 * p + 768))) (4 * 32)
        (memset0 (of_nat (4 * (1024 * u))) (4 * 1024) (hw_mem s))"
    unfolding init_mm_def Let_def prod.case snd_conv assms(1,2) w table_consts(5,6) by simp
  have b: "1024 * u + 768 + 32 \<le> 0x40000000" "1024 * p + 768 + 32 \<le> 0x40000000" "1024 * u + 1024 \<le> 0x40000000"
    using assms by auto
  have "cell (hw_mem (snd (init_mm updir kpdir (k, s)))) q =
    (if 1024 * u + 768 \<le> q \<and> q < 1024 * u + 768 + 32
     then cell (memset0 (of_nat (4 * (1024 * u))) (4 * 1024) (hw_mem s)) (1024 * p + 768 + (q - (1024 * u + 768)))
     else cell (memset0 (of_nat (4 * (1024 * u))) (4 * 1024) (hw_mem s)) q)"
    unfolding h by (rule cell_memcpy [OF b(1,2) assms(6)])
  then show ?thesis
    using assms(4-6) cell_memset0 [OF b(3)] by (auto simp: apart_def simp del: of_nat_mult dest!: le_Suc_ex)
qed

text \<open>What the three variables of page tables need beside those of the kernel.\<close>

definition user_tables_ok :: "u32 \<Rightarrow> u32 \<Rightarrow> u32 \<Rightarrow> u32 \<Rightarrow> machine \<Rightarrow> bool" where
  "user_tables_ok kpdir kptable updir new_table s \<longleftrightarrow>
     tables_ok kpdir kptable s \<and> page_area updir 1 s \<and> page_area new_table 1 s \<and>
     areas_apart updir 1 kpdir 1 \<and> areas_apart updir 1 kptable 32 \<and> areas_apart new_table 1 kpdir 1 \<and>
     areas_apart new_table 1 kptable 32 \<and> areas_apart new_table 1 updir 1"

lemma user_tables_okE:
  assumes "user_tables_ok kpdir kptable updir new_table s"
  obtains p t u w where "va_to_pa kpdir = of_nat (4 * (1024 * p))" "va_to_pa kptable = of_nat (4 * (1024 * t))"
    "va_to_pa updir = of_nat (4 * (1024 * u))" "va_to_pa new_table = of_nat (4 * (1024 * w))"
    "plain_pages p 1 s" "plain_pages t 32 s" "plain_pages u 1 s" "plain_pages w 1 s"
    "apart p 1 t 32" "apart u 1 p 1" "apart u 1 t 32" "apart w 1 p 1" "apart w 1 t 32" "apart w 1 u 1"
proof -
  obtain p t where pt: "va_to_pa kpdir = of_nat (4 * (1024 * p))" "va_to_pa kptable = of_nat (4 * (1024 * t))"
    "unat (va_to_pa kpdir) = 4 * (1024 * p)" "unat (va_to_pa kptable) = 4 * (1024 * t)"
    "apart p 1 t 32" "plain_pages p 1 s" "plain_pages t 32 s"
    using assms tables_okE unfolding user_tables_ok_def by metis
  obtain u where u: "va_to_pa updir = of_nat (4 * (1024 * u))" "unat (va_to_pa updir) = 4 * (1024 * u)" "plain_pages u 1 s"
    using assms page_areaE unfolding user_tables_ok_def by metis
  obtain w where w: "va_to_pa new_table = of_nat (4 * (1024 * w))" "unat (va_to_pa new_table) = 4 * (1024 * w)"
    "plain_pages w 1 s"
    using assms page_areaE unfolding user_tables_ok_def by metis
  have "apart u 1 p 1" "apart u 1 t 32" "apart w 1 p 1" "apart w 1 t 32" "apart w 1 u 1"
    using assms by (auto simp: user_tables_ok_def areas_apart_def apart_def pt(3,4) u(2) w(2))
  with pt u w that show ?thesis by blast
qed

lemma entry_assigned [simp]:
  "pt_present (set_flag 0 b x) = b" "pt_page_frame (set_flag 0 b x) = pt_page_frame x"
  "pt_page_frame (bf_put 12 20 f x) = take_bit 20 f"
  by (simp_all add: pt_present_def pt_page_frame_def) (rule bit_word_eqI; simp add: bf_simps)

lemma take_bit_small: "n < 2 ^ 20 \<Longrightarrow> take_bit 20 (of_nat n) = (of_nat n :: u32)"
  by (metis of_nat_take_bit take_bit_nat_eq_self)

lemma video_indices:
  "la_page_directory_index VMEM_ADDR = 0" "la_page_directory_index (VMEM_ADDR + SCR_SIZE) = 0"
  "unat (la_page_entry_index VMEM_ADDR) = 0xa0" "Suc (unat (la_page_entry_index (VMEM_ADDR + SCR_SIZE))) = 0xb0"
  by code_simp+

text \<open>The directory and the table that the two functions build together.\<close>

lemma user_cells:
  assumes v: "va_to_pa kpdir = of_nat (4 * (1024 * p))" "va_to_pa updir = of_nat (4 * (1024 * u))"
      "va_to_pa new_table = of_nat (4 * (1024 * w))"
    and b: "p < 32768" "u < 32768" "w < 32768" and ap: "apart u 1 p 1" "apart w 1 p 1" "apart w 1 u 1"
    and win: "window_entries p t (hw_mem s)"
  obtains m where "create_video_mapping updir new_table (snd (init_mm updir kpdir (k, s))) = Some (s\<lparr>hw_mem := m\<rparr>)"
    "window_entries u t m"
    "pt_present (cell m (1024 * u))" "pt_page_frame (cell m (1024 * u)) = of_nat w"
    "\<And>d. 0 < d \<Longrightarrow> d < 768 \<Longrightarrow> cell m (1024 * u + d) = 0"
    "\<And>i. i < 1024 \<Longrightarrow> pt_present (cell m (1024 * w + i)) \<longleftrightarrow> 0xa0 \<le> i \<and> i < 0xb0"
    "\<And>i. 0xa0 \<le> i \<Longrightarrow> i < 0xb0 \<Longrightarrow> pt_page_frame (cell m (1024 * w + i)) = of_nat i"
    "\<And>q. q < 0x40000000 \<Longrightarrow> \<not> (1024 * u \<le> q \<and> q < 1024 * u + 1024) \<Longrightarrow> \<not> (1024 * w \<le> q \<and> q < 1024 * w + 1024) \<Longrightarrow>
       cell m q = cell (hw_mem s) q"
proof -
  let ?ini = "snd (init_mm updir kpdir (k, s))"
  note c0 = init_mm_cells [OF v(2,1) b(2,1) ap(1), of _ k s]
  have s0: "?ini\<lparr>hw_mem := m\<rparr> = s\<lparr>hw_mem := m\<rparr>" for m by (simp add: init_mm_def Let_def)
  have u: "1024 * u < 0x40000000" "1024 * w + 1024 \<le> 0x40000000" "\<not> (1024 * w \<le> 1024 * u \<and> 1024 * u < 1024 * w + 1024)"
    using b ap(3) by (auto simp: apart_def)
  have "\<not> pt_present (cell (hw_mem ?ini) (1024 * u))" using c0 [OF u(1)] by (simp add: pt_present_def)
  then obtain m1 where m1: "video_table (of_nat (4 * (1024 * u))) (of_nat (4 * (1024 * w))) (hw_mem ?ini) = Some m1"
    and c1: "\<And>q. q < 0x40000000 \<Longrightarrow> cell m1 q =
      (if q = 1024 * u then set_flag 0 True (bf_put 12 20 (of_nat w) (cell (hw_mem ?ini) (1024 * u)))
       else if 1024 * w \<le> q \<and> q < 1024 * w + 1024 then set_flag 0 False (cell (hw_mem ?ini) q) else cell (hw_mem ?ini) q)"
    using video_table_fresh [OF u] by metis
  have fw: "take_bit 20 (of_nat w) = (of_nat w :: u32)" by (rule take_bit_small) (use b in simp)
  have pf: "push_bit 12 (pt_page_frame (load32 m1 (of_nat (4 * (1024 * u))))) = of_nat (4 * (1024 * w))"
  proof -
    have "pt_page_frame (load32 m1 (of_nat (4 * (1024 * u)))) = of_nat w"
      unfolding cell_def [symmetric] c1 [OF u(1)] by (simp add: fw)
    then show ?thesis by (simp only: frame_of_table)
  qed
  obtain m2 where m2: "foldM (map_video_page 0 (of_nat (4 * (1024 * w)))) [0xa0..<0xb0] m1 = Some m2"
    and c2: "\<And>q. q < 0x40000000 \<Longrightarrow> cell m2 q =
      (if 1024 * w + 0xa0 \<le> q \<and> q < 1024 * w + 0xb0
       then set_flag 0 True (bf_put 12 20 (push_bit 10 0 OR of_nat (q - 1024 * w)) (cell m1 q)) else cell m1 q)"
    by (rule map_video_pages [of "0xa0" "0xb0" "1024 * w" 0 m1]) (use u(2) in auto)
  have "create_video_mapping updir new_table ?ini = Some (?ini\<lparr>hw_mem := m2\<rparr>)"
    unfolding create_video_mapping_def Let_def video_indices v(2,3)
    using m1 m2 pf by (simp del: of_nat_mult upt_rec_numeral foldM.simps)
  then have cv: "create_video_mapping updir new_table ?ini = Some (s\<lparr>hw_mem := m2\<rparr>)" by (simp only: s0)
  show ?thesis
  proof (rule that [OF cv])
    show "pt_present (cell m2 (1024 * u))" "pt_page_frame (cell m2 (1024 * u)) = of_nat w"
      using c2 [OF u(1)] c1 [OF u(1)] ap(3) by (auto simp: apart_def fw)
    have dir: "cell m2 (1024 * u + d) = cell (hw_mem ?ini) (1024 * u + d)"
      if "0 < d" "d < 1024" for d :: nat
      using that b ap(3) c2 [of "1024 * u + d"] c1 [of "1024 * u + d"] by (auto simp: apart_def)
    show "cell m2 (1024 * u + d) = 0" if "0 < d" "d < 768" for d :: nat
      using that b dir [of d] c0 [of "1024 * u + d"] by auto
    show "window_entries u t m2"
      unfolding window_entries_def
    proof (intro allI impI)
      fix d :: nat assume d: "768 \<le> d \<and> d < 1024"
      then have "cell m2 (1024 * u + d) = (if d < 800 then cell (hw_mem s) (1024 * p + d) else 0)"
        using b dir [of d] c0 [of "1024 * u + d"] by auto
      with win [unfolded window_entries_def, rule_format, OF d]
      show "cell m2 (1024 * u + d) = (if d < 800 then make_pde (of_nat (4 * (1024 * (t + (d - 768))))) else 0)"
        by (cases "d < 800") (simp_all only: if_True if_False)
    qed
    show "pt_present (cell m2 (1024 * w + i)) \<longleftrightarrow> 0xa0 \<le> i \<and> i < 0xb0" if "i < 1024" for i
      using that b ap(3) c2 [of "1024 * w + i"] c1 [of "1024 * w + i"] by (auto simp: apart_def)
    show "pt_page_frame (cell m2 (1024 * w + i)) = of_nat i" if "0xa0 \<le> i" "i < 0xb0" for i
      using that b c2 [of "1024 * w + i"] by (simp add: take_bit_small)
    show "cell m2 q = cell (hw_mem s) q"
      if "q < 0x40000000" "\<not> (1024 * u \<le> q \<and> q < 1024 * u + 1024)" "\<not> (1024 * w \<le> q \<and> q < 1024 * w + 1024)" for q
      using that c2 [of q] c1 [of q] c0 [of q] by auto
  qed
qed

lemma ucr3_directory:
  assumes "va_to_pa updir = of_nat (4 * (1024 * u))"
  shows "push_bit 12 (cr3_pdbr (ucr3 (fst (init_mm updir kpdir (k, s))))) = of_nat (4 * (1024 * u))"
proof -
  have m: "(0x3ff :: u32) = mask 10" by code_simp
  show ?thesis
    unfolding init_mm_def Let_def assms frame_of_table m
    by (rule bit_word_eqI) (auto simp: cr3_pdbr_def bit_simps bf_simps)
qed

lemma video_range:
  "i < 1024 \<Longrightarrow> k < 4096 \<Longrightarrow>
     0xa0000 \<le> d * 4194304 + i * 4096 + k \<and> d * 4194304 + i * 4096 + k < 0xb0000 \<longleftrightarrow> d = 0 \<and> 0xa0 \<le> i \<and> i < 0xb0"
  for d i k :: nat
  by (cases "d = 0") auto

lemma user_low:
  assumes r: "runs_on u s" and w: "plain_pages w 1 s" and a: "\<not> KOFFSET \<le> a"
    and e: "pt_present (cell (hw_mem s) (1024 * u))" "pt_page_frame (cell (hw_mem s) (1024 * u)) = of_nat w"
    and z: "\<And>d. 0 < d \<Longrightarrow> d < 768 \<Longrightarrow> cell (hw_mem s) (1024 * u + d) = 0"
    and pr: "\<And>i. i < 1024 \<Longrightarrow> pt_present (cell (hw_mem s) (1024 * w + i)) \<longleftrightarrow> 0xa0 \<le> i \<and> i < 0xb0"
    and fr: "\<And>i. 0xa0 \<le> i \<Longrightarrow> i < 0xb0 \<Longrightarrow> pt_page_frame (cell (hw_mem s) (1024 * w + i)) = of_nat i"
  shows "to_paddr s a = (if VMEM_ADDR \<le> a \<and> a < VMEM_ADDR + 0x10000 then Some a else None)"
proof -
  let ?d = "unat (la_page_directory_index a)" and ?i = "unat (la_page_entry_index a)"
  have rg: "VMEM_ADDR \<le> a \<and> a < VMEM_ADDR + 0x10000 \<longleftrightarrow> ?d = 0 \<and> 0xa0 \<le> ?i \<and> ?i < 0xb0"
    using video_range [of ?i "unat (la_offset a)" ?d] la_parts [of a]
    by (simp add: VMEM_ADDR_def word_less_nat_alt word_le_nat_alt)
  have d: "?d < 768" using a by (simp add: region_iff)
  show ?thesis
  proof (cases "?d = 0")
    case True
    have b: "push_bit 12 (cr3_pdbr (cr3 s)) = of_nat (4 * (1024 * u))" using r by (simp add: runs_on_def)
    have pw: "plain_word s (1024 * w + ?i)" using w la_parts(3) [of a] by (simp add: plain_pages_def)
    have c: "cell (hw_mem s) (1024 * u) = cell (hw_mem s) (1024 * u + ?d)" using True by simp
    have f: "push_bit 12 (pt_page_frame (cell (hw_mem s) (1024 * u))) = of_nat (4 * (1024 * w))"
      by (simp only: e(2) frame_of_table)
    have "?i < 1024" by (rule la_parts(3))
    note t = page_translate_table [OF b dir_plain [OF r] c e(1) f pw refl] pr [OF this]
    have "push_bit 12 (of_nat ?i) + la_offset a = a" using identity_address [of a] True by simp
    then show ?thesis unfolding to_paddr_runs_on [OF r] t rg using True fr [of ?i] by simp
  next
    case False
    then have "\<not> pt_present (cell (hw_mem s) (1024 * u + ?d))" using z [of ?d] d by (simp add: pt_present_def)
    from translate_absent [OF r this] show ?thesis unfolding to_paddr_runs_on [OF r] rg using False by simp
  qed
qed

section \<open>The property\<close>

text \<open>C21: when the kernel has built the user's directory, with nothing loaded into it, and switches to it, the
  process sees the sixteen pages of the video memory at their own addresses and the kernel's window, and
  every other address faults.\<close>

theorem user_address_space:
  assumes ok: "user_tables_ok kpdir kptable updir new_table s"
    and mm: "init_mm updir kpdir (k, init_page kpdir kptable s) = (k', s1)"
  shows "\<exists>s2. create_video_mapping updir new_table s1 = Some s2 \<and>
    (\<forall>a. to_paddr (s2\<lparr>cr3 := ucr3 k'\<rparr>) a =
      (if VMEM_ADDR \<le> a \<and> a < VMEM_ADDR + 0x10000 then Some a
       else if KOFFSET \<le> a \<and> a < KOFFSET + PHY_MEM then Some (a - KOFFSET) else None))"
proof -
  obtain p t u w where v: "va_to_pa kpdir = of_nat (4 * (1024 * p))" "va_to_pa kptable = of_nat (4 * (1024 * t))"
    "va_to_pa updir = of_nat (4 * (1024 * u))" "va_to_pa new_table = of_nat (4 * (1024 * w))"
    and pl: "plain_pages p 1 s" "plain_pages t 32 s" "plain_pages u 1 s" "plain_pages w 1 s"
    and ap: "apart p 1 t 32" "apart u 1 p 1" "apart u 1 t 32" "apart w 1 p 1" "apart w 1 t 32" "apart w 1 u 1"
    using user_tables_okE [OF ok] by metis
  let ?k = "init_page kpdir kptable s"
  have ks: "kernel_space p t ?k" by (rule init_page_kernel_space [OF v(1,2) ap(1) pl(1,2)])
  have b: "p < 32768" "u < 32768" "w < 32768" "t + 32 < 32768" using pl by (auto simp: plain_pages_def)
  have "window_entries p t (hw_mem ?k)" using ks by (simp add: kernel_space_def)
  then show ?thesis
  proof (rule user_cells [OF v(1,3,4) b(1-3) ap(2,4,6), where s = "?k" and t = t and k = k])
    fix m
    assume cv: "create_video_mapping updir new_table (snd (init_mm updir kpdir (k, ?k))) = Some (?k\<lparr>hw_mem := m\<rparr>)"
      and win: "window_entries u t m"
      and e: "pt_present (cell m (1024 * u))" "pt_page_frame (cell m (1024 * u)) = of_nat w"
        "\<And>d. 0 < d \<Longrightarrow> d < 768 \<Longrightarrow> cell m (1024 * u + d) = 0"
        "\<And>i. i < 1024 \<Longrightarrow> pt_present (cell m (1024 * w + i)) \<longleftrightarrow> 0xa0 \<le> i \<and> i < 0xb0"
        "\<And>i. 0xa0 \<le> i \<Longrightarrow> i < 0xb0 \<Longrightarrow> pt_page_frame (cell m (1024 * w + i)) = of_nat i"
      and oth: "\<And>q. q < 0x40000000 \<Longrightarrow> \<not> (1024 * u \<le> q \<and> q < 1024 * u + 1024) \<Longrightarrow>
         \<not> (1024 * w \<le> q \<and> q < 1024 * w + 1024) \<Longrightarrow> cell m q = cell (hw_mem ?k) q"
  let ?s = "?k\<lparr>hw_mem := m\<rparr>\<lparr>cr3 := ucr3 k'\<rparr>"
  have "push_bit 12 (cr3_pdbr (ucr3 k')) = of_nat (4 * (1024 * u))"
    using ucr3_directory [OF v(3), of kpdir k ?k] by (simp only: mm fst_conv)
  then have r: "runs_on u ?s" using pl(3) by (simp add: runs_on_def plain_pages_def plain_word_def)
  have pw: "plain_pages w 1 ?s" "plain_pages t 32 ?s"
    using pl(2,4) by (simp_all add: plain_pages_def plain_word_def)
  have te: "table_entries t (hw_mem ?s)"
    using ks ap(3,5) b oth by (auto simp: kernel_space_def table_entries_def apart_def)
  have "to_paddr ?s a = (if VMEM_ADDR \<le> a \<and> a < VMEM_ADDR + 0x10000 then Some a
       else if KOFFSET \<le> a \<and> a < KOFFSET + PHY_MEM then Some (a - KOFFSET) else None)" for a
  proof (cases "KOFFSET \<le> a")
    case True
    then have "\<not> a < VMEM_ADDR + 0x10000" by (simp add: KOFFSET_def VMEM_ADDR_def word_le_nat_alt word_less_nat_alt)
    then show ?thesis using translate_window [OF r _ te pw(2) True] win True by simp
  next
    case False
    then show ?thesis using user_low [OF r pw(1) False] e by simp
  qed
    then show ?thesis using cv mm by (intro exI [of _ "?k\<lparr>hw_mem := m\<rparr>"]) simp
  qed
qed

theorem user_address_space_witness:
  "\<exists>s2. create_video_mapping 0xC0300000 0xC0400000
       (snd (init_mm 0xC0300000 0xC0100000 (\<lparr>brk = 0, ucr3 = 0\<rparr>, init_page 0xC0100000 0xC0200000 machine0))) = Some s2 \<and>
     to_paddr (s2\<lparr>cr3 := ucr3 (fst (init_mm 0xC0300000 0xC0100000
       (\<lparr>brk = 0, ucr3 = 0\<rparr>, init_page 0xC0100000 0xC0200000 machine0)))\<rparr>) 0xa1234 = Some 0xa1234"
proof -
  have "user_tables_ok 0xC0100000 0xC0200000 0xC0300000 0xC0400000 machine0"
    by (simp add: user_tables_ok_def tables_ok_def page_area_def areas_apart_def apart_def va_to_pa_def KOFFSET_def
        machine0_def is_mmio_def)
  from user_address_space [OF this prod.collapse [symmetric], of "\<lparr>brk = 0, ucr3 = 0\<rparr>"]
  obtain s2 where s2: "create_video_mapping 0xC0300000 0xC0400000
       (snd (init_mm 0xC0300000 0xC0100000 (\<lparr>brk = 0, ucr3 = 0\<rparr>, init_page 0xC0100000 0xC0200000 machine0))) = Some s2"
    and t: "\<And>a. to_paddr (s2\<lparr>cr3 := ucr3 (fst (init_mm 0xC0300000 0xC0100000
       (\<lparr>brk = 0, ucr3 = 0\<rparr>, init_page 0xC0100000 0xC0200000 machine0)))\<rparr>) a =
      (if VMEM_ADDR \<le> a \<and> a < VMEM_ADDR + 0x10000 then Some a
       else if KOFFSET \<le> a \<and> a < KOFFSET + PHY_MEM then Some (a - KOFFSET) else None)"
    by blast
  show ?thesis using s2 t [of "0xa1234"] by (intro exI conjI) (auto simp: VMEM_ADDR_def)
qed

end
