(* ===== verification/Kernel_Irq.thy ===== *)
theory Kernel_Irq
  imports Kernel_Memory_Correct Instr_Control Devices
begin

text \<open>
  The kernel's interrupts: the table of gates of \<open>kernel/src/irq/idt.c\<close>, and the registration and
  dispatch of handlers in \<open>irq_handle.c\<close>. The entry points of \<open>do_irq.S\<close> are addresses that the linker
  gives and are arguments.
\<close>

section \<open>Gates\<close>

definition INTERRUPT_GATE_32 :: u32 where "INTERRUPT_GATE_32 = 0xE"
definition TRAP_GATE_32 :: u32 where "TRAP_GATE_32 = 0xF"
definition NR_IRQ :: nat where "NR_IRQ = 256"
definition DPL_KERNEL :: u32 where "DPL_KERNEL = 0"
definition DPL_USER :: u32 where "DPL_USER = 3"

text \<open>A gate is two words; both functions assign all of their bit-fields.\<close>

definition fill_gate :: "u32 \<Rightarrow> u32 \<Rightarrow> u32 \<Rightarrow> u32 \<Rightarrow> u32 \<times> u32 \<Rightarrow> u32 \<times> u32" where
  "fill_gate ty selector offset dpl g =
     (let (v0, v1) = g;
          v0 = bf_put 0 16 (offset AND 0xFFFF) v0;
          v0 = bf_put 16 16 selector v0;
          v1 = bf_put 0 8 0 v1;
          v1 = bf_put 8 4 ty v1;
          v1 = bf_put 12 1 0 v1;
          v1 = bf_put 13 2 dpl v1;
          v1 = bf_put 15 1 1 v1;
          v1 = bf_put 16 16 (drop_bit 16 offset AND 0xFFFF) v1
      in (v0, v1))"

definition set_gate :: "u32 \<Rightarrow> u32 \<Rightarrow> u32 \<Rightarrow> u32 \<Rightarrow> u32 \<Rightarrow> memory \<Rightarrow> memory" where
  "set_gate ty a selector offset dpl m =
     (let (v0, v1) = fill_gate ty selector offset dpl (load32 m a, load32 m (a + 4))
      in store32 (a + 4) v1 (store32 a v0 m))"

definition set_intr :: "u32 \<Rightarrow> u32 \<Rightarrow> u32 \<Rightarrow> u32 \<Rightarrow> memory \<Rightarrow> memory" where
  "set_intr a selector offset dpl m = set_gate INTERRUPT_GATE_32 a selector offset dpl m"

definition set_trap :: "u32 \<Rightarrow> u32 \<Rightarrow> u32 \<Rightarrow> u32 \<Rightarrow> memory \<Rightarrow> memory" where
  "set_trap a selector offset dpl m = set_gate TRAP_GATE_32 a selector offset dpl m"

text \<open>The entry points of \<open>do_irq.S\<close>; \<open>vec\<close> and \<open>irq\<close> are indexed by the numbers in their names.\<close>

record entry_points =
  irq_empty :: u32
  vec :: "nat \<Rightarrow> u32"
  vecsys :: u32
  irq_vec :: "nat \<Rightarrow> u32"

definition KERNEL_CS :: u32 where "KERNEL_CS = push_bit 3 SEG_KERNEL_CODE"

definition init_idt_mem :: "entry_points \<Rightarrow> u32 \<Rightarrow> memory \<Rightarrow> memory" where
  "init_idt_mem e idt m =
     (let gate = (\<lambda>i. idt + of_nat i * 8);
          m = fold (\<lambda>i. set_trap (gate i) KERNEL_CS (irq_empty e) DPL_KERNEL) [0..<NR_IRQ] m;
          m = fold (\<lambda>i. set_trap (gate i) KERNEL_CS (vec e i) DPL_KERNEL)
                [0, 1, 2, 3, 4, 5, 6, 7, 8, 9, 10, 11, 12, 13, 14] m;
          m = set_trap (gate 0x80) KERNEL_CS (vecsys e) DPL_USER m
      in fold (\<lambda>i. set_intr (gate (32 + i)) KERNEL_CS (irq_vec e i) DPL_KERNEL) [0, 1, 2, 14] m)"

definition write_idtr :: "u32 \<Rightarrow> u32 \<Rightarrow> machine \<Rightarrow> machine" where
  "write_idtr addr sz s =
     (let d0 = (ucast (sz - 1) :: u16); d1 = (ucast addr :: u16); d2 = (ucast (drop_bit 16 addr) :: u16)
      in s\<lparr>idtr_limit := d0, idtr_base := ucast d1 OR push_bit 16 (ucast d2)\<rparr>)"

definition init_idt :: "entry_points \<Rightarrow> u32 \<Rightarrow> machine \<Rightarrow> machine" where
  "init_idt e idt s =
     (let s = s\<lparr>hw_mem := init_idt_mem e (va_to_pa idt) (hw_mem s)\<rparr>;
          s = write_idtr idt (8 * of_nat NR_IRQ) s
      in s\<lparr>eflags := put_IF True (eflags s)\<rparr>)"

text \<open>
  \<open>init_i8259\<close> programs a pair of interrupt controllers. The kernel declares it and does not call it: the
  emulator has no device at these ports.
\<close>

definition PORT_PIC_MASTER :: u16 where "PORT_PIC_MASTER = 0x20"
definition PORT_PIC_SLAVE :: u16 where "PORT_PIC_SLAVE = 0xA0"

definition out_byte :: "u16 \<Rightarrow> u8 \<Rightarrow> machine \<Rightarrow> machine option" where
  "out_byte port data s = pio_write port 1 (ucast data) s"

definition init_i8259 :: "machine \<Rightarrow> machine option" where
  "init_i8259 = foldM (\<lambda>(port, data). out_byte port data)
     [(PORT_PIC_MASTER + 1, 0xFF), (PORT_PIC_SLAVE + 1, 0xFF),
      (PORT_PIC_MASTER, 0x11), (PORT_PIC_MASTER + 1, 32), (PORT_PIC_MASTER + 1, 4), (PORT_PIC_MASTER + 1, 0x3),
      (PORT_PIC_SLAVE, 0x11), (PORT_PIC_SLAVE + 1, 40), (PORT_PIC_SLAVE + 1, 2), (PORT_PIC_SLAVE + 1, 0x3),
      (PORT_PIC_MASTER, 0x68), (PORT_PIC_MASTER, 0x0A), (PORT_PIC_SLAVE, 0x68), (PORT_PIC_SLAVE, 0x0A)]"

section \<open>Handlers\<close>

text \<open>
  \<open>Panic\<close> is a failed \<open>assert\<close> or \<open>panic\<close>, which stops the machine; \<open>Undefined\<close> behaviour that C leaves
  undefined, such as an access out of the bounds of an array; \<open>Fault\<close> an access that the emulator refuses.
\<close>

datatype kernel_error = Panic | Undefined | Fault

type_synonym 'a kresult = "kernel_error + 'a"

definition NR_IRQ_HANDLE :: nat where "NR_IRQ_HANDLE = 32"
definition NR_HARD_INTR :: int where "NR_HARD_INTR = 16"

text \<open>A handler is the address of its code; a pointer into the pool is an index.\<close>

record IRQ_t =
  routine :: u32
  next_handler :: "nat option"

record irq_state =
  handle_pool :: "nat \<Rightarrow> IRQ_t"
  handles :: "nat \<Rightarrow> nat option"
  handle_count :: nat

definition irq_state0 :: irq_state where
  "irq_state0 = \<lparr>handle_pool = (\<lambda>_. \<lparr>routine = 0, next_handler = None\<rparr>), handles = (\<lambda>_. None), handle_count = 0\<rparr>"

definition add_irq_handle :: "int \<Rightarrow> u32 \<Rightarrow> irq_state \<Rightarrow> irq_state kresult" where
  "add_irq_handle irq func st =
     (if \<not> irq < NR_HARD_INTR then Inl Panic
      else if \<not> handle_count st \<le> NR_IRQ_HANDLE then Inl Panic
      else if \<not> handle_count st < NR_IRQ_HANDLE \<or> irq < 0 then Inl Undefined
      else let p = handle_count st
           in Inr (st\<lparr>handle_count := handle_count st + 1,
                     handle_pool := (handle_pool st)(p := \<lparr>routine = func, next_handler = handles st (nat irq)\<rparr>),
                     handles := (handles st)(nat irq := Some p)\<rparr>))"

text \<open>
  The loop over the handlers of one interrupt. A handler is run by \<open>call\<close>, which may change the whole
  state; the pointer to the next one is read after that. \<open>None\<close> is a loop that does not end.
\<close>

partial_function (option) run_handlers ::
  "(u32 \<Rightarrow> irq_state \<times> 'w \<Rightarrow> (irq_state \<times> 'w) kresult) \<Rightarrow> nat option \<Rightarrow> irq_state \<times> 'w \<Rightarrow>
   (irq_state \<times> 'w) kresult option" where
  [code]: "run_handlers call f s =
     (case f of None \<Rightarrow> Some (Inr s)
      | Some p \<Rightarrow> (case call (routine (handle_pool (fst s) p)) s of
          Inl e \<Rightarrow> Some (Inl e)
        | Inr s' \<Rightarrow> run_handlers call (next_handler (handle_pool (fst s') p)) s'))"

text \<open>\<open>irq_handle\<close>: \<open>irq\<close> is the number that the entry point has pushed; \<open>do_syscall\<close> is the branch 0x80.\<close>

definition irq_handle ::
  "(u32 \<Rightarrow> irq_state \<times> 'w \<Rightarrow> (irq_state \<times> 'w) kresult) \<Rightarrow> (irq_state \<times> 'w \<Rightarrow> (irq_state \<times> 'w) kresult) \<Rightarrow>
   int \<Rightarrow> irq_state \<times> 'w \<Rightarrow> (irq_state \<times> 'w) kresult option" where
  "irq_handle call do_syscall irq s =
     (if irq < 0 then Some (Inl Panic)
      else if irq = 0x80 then Some (do_syscall s)
      else if irq < 1000 then Some (Inl Panic)
      else let irq_id = irq - 1000
           in if \<not> irq_id < NR_HARD_INTR then Some (Inl Panic)
              else run_handlers call (handles (fst s) (nat irq_id)) s)"

end
