(* ===== verification/Kernel_Irq_Correct.thy ===== *)
theory Kernel_Irq_Correct
  imports Kernel_Irq
begin

text \<open>
  The gates that \<open>init_idt\<close> leaves, as \<open>raise_intr\<close> of the emulator reads them, and the order in which
  registered handlers run.
\<close>

section \<open>Gates\<close>

definition gate_target :: "u32 \<times> u32 \<Rightarrow> u32" where
  "gate_target g = push_bit 16 (gate_offset_31_16 (fst g) (snd g)) OR gate_offset_15_0 (fst g) (snd g)"

lemma fill_gate_fields:
  fixes g :: "u32 \<times> u32"
  assumes "g' = fill_gate ty sel off dpl g"
  shows "gate_type (fst g') (snd g') = take_bit 4 ty" "gate_selector (fst g') (snd g') = take_bit 16 sel"
    "gate_target g' = off"
proof -
  have m: "(0xFFFF :: u32) = mask 16" by code_simp
  show "gate_type (fst g') (snd g') = take_bit 4 ty" "gate_selector (fst g') (snd g') = take_bit 16 sel"
    unfolding assms by (rule bit_word_eqI; simp add: fill_gate_def Let_def split_def gate_type_def gate_selector_def bf_simps bit_simps; linarith)+
  show "gate_target g' = off"
    unfolding assms m gate_target_def fill_gate_def Let_def split_def gate_offset_31_16_def gate_offset_15_0_def
    by (rule bit_word_eqI) (auto simp: bf_simps bit_simps)
qed

lemma fill_gate_fresh: "fill_gate ty sel off dpl g = fill_gate ty sel off dpl (0, 0)"
  unfolding fill_gate_def Let_def split_def
  by (rule prod_eqI; simp; rule bit_word_eqI) (auto simp: bf_simps)

text \<open>The gate \<open>i\<close> of a table at word \<open>g\<close>.\<close>

definition gate_at :: "memory \<Rightarrow> nat \<Rightarrow> nat \<Rightarrow> u32 \<times> u32" where
  "gate_at m g i = (cell m (g + 2 * i), cell m (g + 2 * i + 1))"

lemma set_gate_cells:
  assumes "p + 2 \<le> 0x40000000" "q < 0x40000000"
  shows "cell (set_gate ty (of_nat (4 * p)) sel off dpl m) q =
    (if q = p then fst (fill_gate ty sel off dpl (0, 0)) else if q = p + 1 then snd (fill_gate ty sel off dpl (0, 0))
     else cell m q)"
proof -
  have a: "of_nat (4 * p) + 4 = (of_nat (4 * (p + 1)) :: u32)" by simp
  have b: "p < 0x40000000" "p + 1 < 0x40000000" using assms by simp_all
  obtain v0 v1 where v: "fill_gate ty sel off dpl (0, 0) = (v0, v1)" by fastforce
  show ?thesis
    unfolding set_gate_def Let_def a fill_gate_fresh [of ty sel off dpl "(load32 m (of_nat (4 * p)), _)"] v prod.case
      cell_store [OF b(2) assms(2)] cell_store [OF b(1) assms(2)] fst_conv snd_conv
    by simp
qed

text \<open>Filling the gates of a list of numbers.\<close>

lemma gate_at_set:
  assumes "x < 256" "i < 256" "g + 512 \<le> 0x40000000"
  shows "gate_at (set_gate ty (of_nat (4 * (g + 2 * x))) sel off dpl m) g i =
    (if i = x then fill_gate ty sel off dpl (0, 0) else gate_at m g i)"
proof -
  have b: "g + 2 * x + 2 \<le> 0x40000000" using assms by simp
  have n: "g + 2 * i + 1 \<noteq> g + 2 * x" "g + 2 * i \<noteq> g + 2 * x + 1" by presburger+
  show ?thesis
    unfolding gate_at_def using assms n
    by (auto simp: set_gate_cells [OF b] simp del: of_nat_mult of_nat_add distrib_left_numeral)
qed

lemma fold_set_gate:
  assumes "\<forall>i \<in> set xs. i < 256" "i < 256" "g + 512 \<le> 0x40000000"
  shows "gate_at (fold (\<lambda>i. set_gate ty (of_nat (4 * (g + 2 * i))) sel (f i) dpl) xs m) g i =
      (if i \<in> set xs then fill_gate ty sel (f i) dpl (0, 0) else gate_at m g i)"
  using assms(1)
  by (induction xs arbitrary: m)
    (auto simp: gate_at_set assms simp del: of_nat_mult of_nat_add distrib_left_numeral)

lemma fold_set_gate_other:
  assumes "\<forall>i \<in> set xs. i < 256" "q < 0x40000000" "\<not> (g \<le> q \<and> q < g + 512)" "g + 512 \<le> 0x40000000"
  shows "cell (fold (\<lambda>i. set_gate ty (of_nat (4 * (g + 2 * i))) sel (f i) dpl) xs m) q = cell m q"
  using assms(1)
proof (induction xs arbitrary: m)
  case (Cons x xs)
  then have "g + 2 * x + 2 \<le> 0x40000000" "x < 256" using assms(4) by auto
  then show ?case
    using Cons assms by (auto simp: set_gate_cells simp del: of_nat_mult of_nat_add distrib_left_numeral)
qed simp

text \<open>The whole table: which entry point each gate leads to, and of which kind it is.\<close>

definition entry_of :: "entry_points \<Rightarrow> nat \<Rightarrow> u32" where
  "entry_of e n = (if n \<in> {32, 33, 34, 46} then irq_vec e (n - 32)
     else if n = 0x80 then vecsys e else if n < 15 then vec e n else irq_empty e)"

definition hard_intr :: "nat \<Rightarrow> bool" where "hard_intr n \<longleftrightarrow> n \<in> {32, 33, 34, 46}"

definition gate_fold :: "nat \<Rightarrow> u32 \<Rightarrow> (nat \<Rightarrow> u32) \<Rightarrow> u32 \<Rightarrow> nat list \<Rightarrow> memory \<Rightarrow> memory" where
  "gate_fold g ty f dpl xs m = fold (\<lambda>i. set_gate ty (of_nat (4 * (g + 2 * i))) 8 (f i) dpl) xs m"

lemma init_idt_folds:
  "init_idt_mem e (of_nat (4 * g)) m =
     gate_fold g 0xE (\<lambda>i. irq_vec e (i - 32)) 0 [32, 33, 34, 46]
       (gate_fold g 0xF (\<lambda>_. vecsys e) 3 [128]
         (gate_fold g 0xF (vec e) 0 [0, 1, 2, 3, 4, 5, 6, 7, 8, 9, 10, 11, 12, 13, 14]
           (gate_fold g 0xF (\<lambda>_. irq_empty e) 0 [0..<256] m)))"
proof -
  have w: "of_nat (4 * g) + of_nat i * 8 = (of_nat (4 * (g + 2 * i)) :: u32)" for i by simp
  have k: "KERNEL_CS = 8" by code_simp
  have l: "[32, 33, 34, 46] = map (\<lambda>i. 32 + i) [0, 1, 2, 14 :: nat]" by simp
  show ?thesis
    unfolding init_idt_mem_def Let_def w k set_trap_def set_intr_def INTERRUPT_GATE_32_def TRAP_GATE_32_def
      NR_IRQ_def DPL_KERNEL_def DPL_USER_def gate_fold_def l fold_map comp_def diff_add_inverse
    by (simp only: fold.simps id_apply comp_apply)
qed

lemma gate_fold_at:
  "\<forall>i \<in> set xs. i < 256 \<Longrightarrow> i < 256 \<Longrightarrow> g + 512 \<le> 0x40000000 \<Longrightarrow>
     gate_at (gate_fold g ty f dpl xs m) g i = (if i \<in> set xs then fill_gate ty 8 (f i) dpl (0, 0) else gate_at m g i)"
  by (simp only: gate_fold_def fold_set_gate)

lemma gate_fold_other:
  "\<forall>i \<in> set xs. i < 256 \<Longrightarrow> q < 0x40000000 \<Longrightarrow> \<not> (g \<le> q \<and> q < g + 512) \<Longrightarrow> g + 512 \<le> 0x40000000 \<Longrightarrow>
     cell (gate_fold g ty f dpl xs m) q = cell m q"
  unfolding gate_fold_def by (rule fold_set_gate_other)

lemma init_idt_gates:
  assumes g: "g + 512 \<le> 0x40000000" and n: "n < 256"
  shows "gate_at (init_idt_mem e (of_nat (4 * g)) m) g n =
    fill_gate (if hard_intr n then 0xE else 0xF) 8 (entry_of e n) (if n = 0x80 then 3 else 0) (0, 0)"
proof -
  let ?v = "[0, 1, 2, 3, 4, 5, 6, 7, 8, 9, 10, 11, 12, 13, 14] :: nat list"
  have c: "\<forall>i \<in> set [0..<256]. i < (256 :: nat)" "\<forall>i \<in> set ?v. i < 256"
    "\<forall>i \<in> set [128]. i < (256 :: nat)" "\<forall>i \<in> set [32, 33, 34, 46]. i < (256 :: nat)" by simp_all
  have v: "n \<in> set ?v \<longleftrightarrow> n < 15" "n \<in> set [0..<256] \<longleftrightarrow> n < 256" "n \<in> set [128] \<longleftrightarrow> n = 128"
    "n \<in> set [32, 33, 34, 46] \<longleftrightarrow> hard_intr n"
    by (simp, presburger) (simp_all add: hard_intr_def)
  show ?thesis
    unfolding init_idt_folds gate_fold_at [OF c(1) n g] gate_fold_at [OF c(2) n g] gate_fold_at [OF c(3) n g]
      gate_fold_at [OF c(4) n g] v
    using n by (auto simp: hard_intr_def entry_of_def)
qed

lemma init_idt_other:
  assumes "g + 512 \<le> 0x40000000" "q < 0x40000000" "\<not> (g \<le> q \<and> q < g + 512)"
  shows "cell (init_idt_mem e (of_nat (4 * g)) m) q = cell m q"
  unfolding init_idt_folds using assms by (simp add: gate_fold_other)

section \<open>The table as the processor reads it\<close>

text \<open>Behind \<open>init_idt\<close> interrupts are on, and for every number \<open>raise_intr\<close> finds a gate of the kernel's
  code segment: the four hardware interrupts have interrupt gates, which turn interrupts off, everything
  else trap gates; each leads to its entry point, all others to \<open>irq_empty\<close>.\<close>

theorem init_idt_correct:
  assumes "tables_ok kpdir kptable s" "kernel_var_ok idt 512 kpdir kptable s" "n < 256"
    and s': "s' = init_idt e idt (init_page kpdir kptable s)"
  shows "\<exists>v0 v1. laddr_read s' (idtr_base s' + of_nat n * 8) 4 = Some v0 \<and>
    laddr_read s' (idtr_base s' + of_nat n * 8 + 4) 4 = Some v1 \<and>
    gate_type v0 v1 = (if n \<in> {32, 33, 34, 46} then 0xE else 0xF) \<and> gate_selector v0 v1 = 8 \<and>
    push_bit 16 (gate_offset_31_16 v0 v1) OR gate_offset_15_0 v0 v1 = entry_of e n \<and>
    n < unat (idtr_limit s') \<and> IF (eflags s')"
proof -
  let ?k = "init_page kpdir kptable s"
  define g where "g = unat (va_to_pa idt) div 4"
  have u: "unat (va_to_pa idt) = 4 * g" and b: "g + 512 \<le> 0x40000000"
    using assms(2) by (auto simp: g_def kernel_var_ok_def)
  have "va_to_pa idt = of_nat (4 * g)" using u by (metis of_nat_unat ucast_id)
  then have f: "cr0 s' = cr0 ?k" "cr3 s' = cr3 ?k" "mmio s' = mmio s"
    "hw_mem s' = init_idt_mem e (of_nat (4 * g)) (hw_mem ?k)" "idtr_base s' = idt" "IF (eflags s')"
    "idtr_limit s' = 2047"
    by (simp_all add: s' init_idt_def write_idtr_def Let_def join_halves NR_IRQ_def)
  have rd: "laddr_read s' (idt + of_nat (4 * j)) 4 = Some (cell (hw_mem s') (g + j))" if "j < 512" for j
    by (rule kernel_var_words [OF assms(1,2) f(1-3) g_def _ that]) (simp add: f(4) init_idt_other [OF b] del: of_nat_mult)
  let ?g = "gate_at (hw_mem s') g n"
  have "laddr_read s' (idtr_base s' + of_nat n * 8) 4 = Some (fst ?g)"
    "laddr_read s' (idtr_base s' + of_nat n * 8 + 4) 4 = Some (snd ?g)"
    using rd [of "2 * n"] rd [of "2 * n + 1"] assms(3) by (simp_all add: f(5) gate_at_def algebra_simps)
  moreover have "?g = fill_gate (if hard_intr n then 0xE else 0xF) 8 (entry_of e n) (if n = 0x80 then 3 else 0) (0, 0)"
    unfolding f(4) by (rule init_idt_gates [OF b assms(3)])
  note fill_gate_fields [OF this]
  ultimately show ?thesis
    using assms(3) f(6,7) by (intro exI [of _ "fst ?g"] exI [of _ "snd ?g"]) (simp add: gate_target_def hard_intr_def)
qed

definition entries0 :: entry_points where
  "entries0 = \<lparr>irq_empty = 0xC0030000, vec = (\<lambda>_. 0), vecsys = 0xC0030100, irq_vec = (\<lambda>i. 0xC0030200 + of_nat i)\<rparr>"

theorem init_idt_correct_witness:
  "\<exists>v0 v1. laddr_read (init_idt entries0 0xC0300000 (init_page 0xC0100000 0xC0200000 machine0)) 0xC0300100 4 = Some v0 \<and>
     laddr_read (init_idt entries0 0xC0300000 (init_page 0xC0100000 0xC0200000 machine0)) 0xC0300104 4 = Some v1 \<and>
     gate_type v0 v1 = 0xE \<and> push_bit 16 (gate_offset_31_16 v0 v1) OR gate_offset_15_0 v0 v1 = 0xC0030200"
proof -
  have "tables_ok 0xC0100000 0xC0200000 machine0" "kernel_var_ok 0xC0300000 512 0xC0100000 0xC0200000 machine0"
    by (simp_all add: tables_ok_def kernel_var_ok_def page_area_def areas_apart_def apart_def va_to_pa_def KOFFSET_def
        machine0_def is_mmio_def)
  moreover have "idtr_base (init_idt e a s) = a" for e a s
    by (simp add: init_idt_def write_idtr_def Let_def join_halves)
  moreover have "entry_of entries0 32 = 0xC0030200" by (simp add: entry_of_def entries0_def)
  ultimately show ?thesis
    using init_idt_correct [of "0xC0100000" "0xC0200000" machine0 "0xC0300000" 32 _ entries0, OF _ _ _ refl] by auto
qed

text \<open>The emulator's port bus has no handler for the ports of the interrupt controllers.\<close>

lemma init_i8259_aborts: "init_i8259 s = None"
proof -
  have "pio_handle 0x21 1 True t = None" for t
    by (simp add: pio_handle_def pio_handler_table_def IDE_PORT_BASE_def KEYBOARD_DATA_PORT_def SERIAL_PORT_def
        TIMER_PORT_def VGA_DAC_READ_INDEX_def VGA_DAC_WRITE_INDEX_def VGA_DAC_DATA_def VGA_CRTC_INDEX_def
        VGA_CRTC_DATA_def GPU_DATA_PORT_BASE_def GPU_CMD_PORT_def)
  then have "out_byte 0x21 0xFF s = None"
    by (simp add: out_byte_def pio_write_def Option.bind_eq_None_conv split: bind_splits)
  then show ?thesis by (simp add: init_i8259_def PORT_PIC_MASTER_def)
qed

section \<open>The order of the handlers\<close>

text \<open>The routines of the handlers from a pointer on: the pool entries below \<open>n\<close>, with ever smaller indices.\<close>

inductive chain :: "(nat \<Rightarrow> IRQ_t) \<Rightarrow> nat \<Rightarrow> nat option \<Rightarrow> u32 list \<Rightarrow> bool" for pool where
  chain_nil: "chain pool n None []"
| chain_cons: "p < n \<Longrightarrow> chain pool p (next_handler (pool p)) fs \<Longrightarrow> chain pool n (Some p) (routine (pool p) # fs)"

inductive_simps chain_None [simp]: "chain pool n None fs"
inductive_cases chain_SomeE: "chain pool n (Some p) fs"

lemma chain_frame: "chain pool n f fs \<Longrightarrow> (\<And>q. q < n \<Longrightarrow> pool' q = pool q) \<Longrightarrow> chain pool' n f fs"
proof (induction rule: chain.induct)
  case (chain_cons p n fs)
  then have "chain pool' p (next_handler (pool' p)) fs" by simp
  from chain.chain_cons [OF chain_cons.hyps(1) this] show ?case using chain_cons by simp
qed simp

lemma chain_mono: "chain pool n f fs \<Longrightarrow> n \<le> m \<Longrightarrow> chain pool m f fs"
  by (induction rule: chain.induct) (auto intro: chain.intros)

text \<open>Running a list of routines in turn, until one fails.\<close>

primrec run_all :: "(u32 \<Rightarrow> 's \<Rightarrow> 's kresult) \<Rightarrow> u32 list \<Rightarrow> 's \<Rightarrow> 's kresult" where
  "run_all call [] s = Inr s"
| "run_all call (f # fs) s = (case call f s of Inl e \<Rightarrow> Inl e | Inr s' \<Rightarrow> run_all call fs s')"

text \<open>Registering a list of handlers, first to last.\<close>

primrec register_all :: "(int \<times> u32) list \<Rightarrow> irq_state \<Rightarrow> irq_state kresult" where
  "register_all [] st = Inr st"
| "register_all (r # rs) st =
     (case add_irq_handle (fst r) (snd r) st of Inl e \<Rightarrow> Inl e | Inr st' \<Rightarrow> register_all rs st')"

text \<open>Routines that do not register handlers themselves leave the chains alone.\<close>

definition keeps_handlers :: "(u32 \<Rightarrow> irq_state \<times> 'w \<Rightarrow> (irq_state \<times> 'w) kresult) \<Rightarrow> bool" where
  "keeps_handlers call \<longleftrightarrow> (\<forall>f s s'. call f s = Inr s' \<longrightarrow> fst s' = fst s)"

lemma run_handlers_chain:
  assumes "chain pool n f fs" "handle_pool (fst s) = pool" "keeps_handlers call"
  shows "run_handlers call f s = Some (run_all call fs s)"
  using assms(1,2)
proof (induction n f fs arbitrary: s)
  case (chain_nil n)
  then show ?case by (simp add: run_handlers.simps)
next
  case (chain_cons p n fs)
  show ?case
  proof (cases "call (routine (pool p)) s")
    case (Inr s')
    then have "fst s' = fst s" using assms(3) unfolding keeps_handlers_def by blast
    then show ?thesis using chain_cons Inr by (subst run_handlers.simps) simp
  qed (use chain_cons in \<open>subst run_handlers.simps; simp\<close>)
qed

text \<open>
  The state behind a list of registrations: the pool is used up to the count, and each line has the
  chain of its handlers, the last one first.
\<close>

definition handlers_of :: "(int \<times> u32) list \<Rightarrow> nat \<Rightarrow> u32 list" where
  "handlers_of rs i = rev (map snd (filter (\<lambda>r. fst r = int i) rs))"

definition registered :: "(int \<times> u32) list \<Rightarrow> irq_state \<Rightarrow> bool" where
  "registered rs st \<longleftrightarrow> handle_count st = length rs \<and>
     (\<forall>i. chain (handle_pool st) (handle_count st) (handles st i) (handlers_of rs i))"

lemma registered_init: "registered [] irq_state0"
  by (simp add: registered_def irq_state0_def handlers_of_def)

lemma registered_add:
  assumes "registered rs st" "0 \<le> irq" "irq < 16" "length rs < 32"
  obtains st' where "add_irq_handle irq func st = Inr st'" "registered (rs @ [(irq, func)]) st'"
proof -
  let ?p = "handle_count st"
  let ?pool = "(handle_pool st)(?p := \<lparr>routine = func, next_handler = handles st (nat irq)\<rparr>)"
  let ?st = "st\<lparr>handle_count := ?p + 1, handle_pool := ?pool, handles := (handles st)(nat irq := Some ?p)\<rparr>"
  have ok: "add_irq_handle irq func st = Inr ?st"
    using assms by (simp add: add_irq_handle_def NR_HARD_INTR_def NR_IRQ_HANDLE_def registered_def Let_def)
  have old: "chain ?pool ?p (handles st i) (handlers_of rs i)" for i
    by (rule chain_frame [where pool = "handle_pool st"]) (use assms(1) in \<open>auto simp: registered_def\<close>)
  have "chain ?pool (?p + 1) (handles ?st i) (handlers_of (rs @ [(irq, func)]) i)" for i
  proof (cases "i = nat irq")
    case True
    have "chain ?pool (?p + 1) (Some ?p) (routine (?pool ?p) # handlers_of rs i)"
      by (rule chain_cons) (use old [of i] True in simp_all)
    then show ?thesis using True assms(2) by (simp add: handlers_of_def)
  next
    case False
    then have "irq \<noteq> int i" using assms(2) by auto
    then show ?thesis using False chain_mono [OF old [of i]] by (simp add: handlers_of_def)
  qed
  then have "\<forall>i. chain (handle_pool ?st) (handle_count ?st) (handles ?st i) (handlers_of (rs @ [(irq, func)]) i)"
    by simp
  moreover have "handle_count ?st = length (rs @ [(irq, func)])" using assms(1) by (simp add: registered_def)
  ultimately have "registered (rs @ [(irq, func)]) ?st" unfolding registered_def by blast
  with ok that show ?thesis by blast
qed

lemma register_all_registered:
  assumes "registered qs st" "\<forall>(irq, f) \<in> set rs. 0 \<le> irq \<and> irq < 16" "length qs + length rs \<le> 32"
  shows "\<exists>st'. register_all rs st = Inr st' \<and> registered (qs @ rs) st'"
  using assms
proof (induction rs arbitrary: qs st)
  case (Cons r rs)
  obtain irq f where r: "r = (irq, f)" by fastforce
  obtain st1 where "add_irq_handle irq f st = Inr st1" "registered (qs @ [(irq, f)]) st1"
    using registered_add [OF Cons.prems(1), of irq f] Cons.prems(2,3) r by auto
  with Cons.IH [of "qs @ [(irq, f)]" st1] Cons.prems r show ?case by auto
qed simp

text \<open>up to 32 handlers can be registered for the lines 0 to 15, and an interrupt on a line then runs
  exactly its handlers, the one registered last first, until one of them fails.\<close>

theorem handlers_run_in_order:
  assumes "\<forall>(irq, f) \<in> set rs. 0 \<le> irq \<and> irq < 16" "length rs \<le> 32" "keeps_handlers call" "i < 16"
  shows "\<exists>st. register_all rs irq_state0 = Inr st \<and>
    irq_handle call sys (1000 + int i) (st, w) =
      Some (run_all call (rev (map snd (filter (\<lambda>r. fst r = int i) rs))) (st, w))"
proof -
  obtain st where st: "register_all rs irq_state0 = Inr st" "registered rs st"
    using register_all_registered [OF registered_init assms(1)] assms(2) by auto
  then have "chain (handle_pool st) (handle_count st) (handles st i) (handlers_of rs i)"
    unfolding registered_def by blast
  from run_handlers_chain [OF this _ assms(3), of "(st, w)"] show ?thesis
    using st(1) assms(4) by (simp add: irq_handle_def NR_HARD_INTR_def handlers_of_def)
qed

definition log_routine :: "u32 \<Rightarrow> irq_state \<times> u32 list \<Rightarrow> (irq_state \<times> u32 list) kresult" where
  "log_routine f s = Inr (fst s, snd s @ [f])"

theorem handlers_run_in_order_witness:
  "\<exists>st. register_all [(0, 7), (14, 8), (0, 9)] irq_state0 = Inr st \<and>
     irq_handle log_routine Inr 1000 (st, []) = Some (Inr (st, [9, 7]))"
proof -
  have "keeps_handlers log_routine" by (simp add: keeps_handlers_def log_routine_def)
  from handlers_run_in_order [OF _ _ this, of "[(0, 7), (14, 8), (0, 9)]" 0 Inr "[]"]
  show ?thesis by (simp add: log_routine_def)
qed

text \<open>
  The bound of the pool is checked with \<open>\<le>\<close>: with all 32 places taken the assertion still holds, and the
  next registration stores behind the array.
\<close>

lemma register_all_append:
  "register_all (qs @ rs) st = (case register_all qs st of Inl e \<Rightarrow> Inl e | Inr st' \<Rightarrow> register_all rs st')"
  by (induction qs arbitrary: st) (simp_all split: sum.splits)

theorem add_irq_handle_overflow:
  assumes "\<forall>(irq, f) \<in> set rs. 0 \<le> irq \<and> irq < 16" "length rs = 32" "irq < 16"
  shows "register_all (rs @ [(irq, f)]) irq_state0 = Inl Undefined"
proof -
  obtain st where "register_all rs irq_state0 = Inr st" "registered rs st"
    using register_all_registered [OF registered_init assms(1)] assms(2) by auto
  then show ?thesis
    using assms(2,3) by (simp add: register_all_append add_irq_handle_def registered_def NR_HARD_INTR_def NR_IRQ_HANDLE_def)
qed

end
