(* ===== verification/Kernel_Fs.thy ===== *)
theory Kernel_Fs
  imports Kernel_Irq
begin

text \<open>
  The kernel's file system, \<open>kernel/src/fs/fs.c\<close>, on the disk window of \<open>driver/ide/ide.c\<close>
  (\<open>QUICK_DISK\<close>) and the serial line of \<open>lib/serial.c\<close>; the system calls of \<open>syscall/do_syscall.c\<close>.
  \<open>size_t\<close>, \<open>uint32_t\<close> and \<open>off_t\<close> have 32 bits; a signed value is its word.
\<close>

section \<open>The disk window\<close>

text \<open>The library's \<open>memcpy\<close>, byte by byte through the processor's accesses.\<close>

definition guest_memcpy :: "u32 \<Rightarrow> u32 \<Rightarrow> nat \<Rightarrow> machine \<Rightarrow> machine option" where
  "guest_memcpy dst src n =
     foldM (\<lambda>i s. do { b \<leftarrow> vaddr_read s (src + of_nat i) SREG_DS 1; vaddr_write s (dst + of_nat i) SREG_DS 1 b }) [0..<n]"

definition ide_read :: "u32 \<Rightarrow> u32 \<Rightarrow> u32 \<Rightarrow> machine \<Rightarrow> machine option" where
  "ide_read buf offset len = guest_memcpy buf (QDISK_BASE + offset) (unat len)"

definition ide_store :: "u32 \<Rightarrow> u32 \<Rightarrow> u32 \<Rightarrow> machine \<Rightarrow> machine option" where
  "ide_store buf offset len = guest_memcpy (QDISK_BASE + offset) buf (unat len)"

section \<open>The serial line\<close>

definition serial_idle :: "machine \<Rightarrow> (bool \<times> machine) option" where
  "serial_idle s = do { (v, s) \<leftarrow> pio_read (SERIAL_PORT + 5) 1 s; Some ((ucast v :: u8) AND 0x20 \<noteq> 0, s) }"

partial_function (option) serial_wait :: "machine \<Rightarrow> machine option" where
  [code]: "serial_wait s = do { (idle, s) \<leftarrow> serial_idle s; if idle then Some s else serial_wait s }"

definition serial_printc :: "u8 \<Rightarrow> machine \<Rightarrow> machine option" where
  "serial_printc ch s = do { s \<leftarrow> serial_wait s; out_byte SERIAL_PORT ch s }"

section \<open>Files\<close>

record file_info =
  fname :: string
  fsize :: u32
  disk_offset :: u32

definition fi :: "string \<Rightarrow> u32 \<Rightarrow> u32 \<Rightarrow> file_info" where
  "fi n sz off = \<lparr>fname = n, fsize = sz, disk_offset = off\<rparr>"

definition file_table :: "file_info list" where
  "file_table = [
     fi ''1.rpg'' 188864 1048576, fi ''2.rpg'' 188864 1237440, fi ''3.rpg'' 188864 1426304,
     fi ''4.rpg'' 188864 1615168, fi ''5.rpg'' 188864 1804032, fi ''abc.mkf'' 1022564 1992896,
     fi ''ball.mkf'' 134704 3015460, fi ''data.mkf'' 66418 3150164, fi ''desc.dat'' 16027 3216582,
     fi ''fbp.mkf'' 1128064 3232609, fi ''fire.mkf'' 834728 4360673, fi ''f.mkf'' 186966 5195401,
     fi ''gop.mkf'' 11530322 5382367, fi ''map.mkf'' 1496578 16912689, fi ''mgo.mkf'' 1577442 18409267,
     fi ''m.msg'' 188232 19986709, fi ''mus.mkf'' 331284 20174941, fi ''pat.mkf'' 8488 20506225,
     fi ''rgm.mkf'' 453202 20514713, fi ''rng.mkf'' 4546074 20967915, fi ''sss.mkf'' 557004 25513989,
     fi ''voc.mkf'' 1997044 26070993, fi ''wor16.asc'' 5374 28068037, fi ''wor16.fon'' 82306 28073411,
     fi ''word.dat'' 5650 28155717, fi ''credits_bgm.wav'' 6631340 1048576]"

definition NR_FILES :: nat where "NR_FILES = 26"

record Fstate =
  used :: bool
  findex :: nat
  foffset :: u32

type_synonym files = "nat \<Rightarrow> Fstate"

definition files0 :: files where "files0 = (\<lambda>_. \<lparr>used = False, findex = 0, foffset = 0\<rparr>)"

definition tolower :: "char \<Rightarrow> char" where
  "tolower c = (let n = of_char c :: nat in if 65 \<le> n \<and> n \<le> 90 then char_of (n + 32) else c)"

text \<open>The loops of \<open>fs_open\<close>: the first file of that name, the first free descriptor.\<close>

fun find_file :: "file_info list \<Rightarrow> nat \<Rightarrow> string \<Rightarrow> nat option" where
  "find_file [] i n = None"
| "find_file (f # fs) i n = (if fname f = n then Some i else find_file fs (Suc i) n)"

fun find_fd :: "nat list \<Rightarrow> files \<Rightarrow> nat option" where
  "find_fd [] fs = None"
| "find_fd (d # ds) fs = (if \<not> used (fs d) then Some d else find_fd ds fs)"

text \<open>The name is copied in lower case to a buffer of 100 bytes, with its terminating zero.\<close>

definition fs_open :: "string \<Rightarrow> files \<Rightarrow> (int \<times> files) kresult" where
  "fs_open pathname fs =
     (if \<not> length pathname < 100 then Inl Undefined
      else case find_file file_table 0 (map tolower pathname) of
        None \<Rightarrow> Inl Panic
      | Some i \<Rightarrow> (case find_fd [3..<NR_FILES + 3] fs of
          None \<Rightarrow> Inr (-1, fs)
        | Some fd \<Rightarrow> Inr (int fd, fs(fd := \<lparr>used = True, findex = i, foffset = 0\<rparr>))))"

definition fault :: "'a option \<Rightarrow> 'a kresult" where
  "fault r = (case r of None \<Rightarrow> Inl Fault | Some x \<Rightarrow> Inr x)"

definition bind_result :: "'a kresult \<Rightarrow> ('a \<Rightarrow> 'b kresult) \<Rightarrow> 'b kresult" where
  "bind_result r f = (case r of Inl e \<Rightarrow> Inl e | Inr x \<Rightarrow> f x)"

definition is_fd :: "int \<Rightarrow> bool" where "is_fd fd \<longleftrightarrow> fd < int NR_FILES + 3"

definition fs_read :: "int \<Rightarrow> u32 \<Rightarrow> u32 \<Rightarrow> files \<times> machine \<Rightarrow> (u32 \<times> files \<times> machine) kresult" where
  "fs_read fd buf len st =
     (if \<not> fd > 2 then Inl Panic
      else if \<not> is_fd fd then Inl Undefined
      else let (fs, s) = st; f = fs (nat fd)
           in if \<not> used f then Inr (-1, st)
              else if \<not> findex f < NR_FILES then Inl Undefined
              else let info = file_table ! findex f;
                       len = (if foffset f + len > fsize info then fsize info - foffset f else len)
                   in if len \<le> 0 then Inr (0, st)
                      else bind_result (fault (ide_read buf (disk_offset info + foffset f) len s))
                        (\<lambda>s. Inr (len, fs(nat fd := f\<lparr>foffset := foffset f + len\<rparr>), s)))"

definition fs_write :: "int \<Rightarrow> u32 \<Rightarrow> u32 \<Rightarrow> files \<times> machine \<Rightarrow> (u32 \<times> files \<times> machine) kresult" where
  "fs_write fd buf len st =
     (let (fs, s) = st
      in if fd \<le> 2 then
           bind_result (fault (foldM (\<lambda>i s. do { c \<leftarrow> vaddr_read s (buf + of_nat i) SREG_DS 1; serial_printc (ucast c) s })
               [0..<unat len] s))
             (\<lambda>s. Inr (len, fs, s))
         else if \<not> is_fd fd then Inl Undefined
         else let f = fs (nat fd)
              in if \<not> used f then Inr (-1, st)
                 else if \<not> findex f < NR_FILES then Inl Undefined
                 else let info = file_table ! findex f;
                          len = (if foffset f + len > fsize info then fsize info - foffset f else len)
                      in bind_result (fault (ide_store buf (disk_offset info + foffset f) len s))
                           (\<lambda>s. Inr (len, fs(nat fd := f\<lparr>foffset := foffset f + len\<rparr>), s)))"

text \<open>
  \<open>check_boundary\<close>: in the first comparison the signed offset is converted to unsigned.
\<close>

definition check_boundary :: "file_info \<Rightarrow> u32 \<Rightarrow> u32" where
  "check_boundary info offset =
     (if offset > disk_offset info then fsize info else if sint offset < 0 then 0 else offset)"

definition SEEK_SET :: int where "SEEK_SET = 0"
definition SEEK_CUR :: int where "SEEK_CUR = 1"
definition SEEK_END :: int where "SEEK_END = 2"

definition fs_lseek :: "int \<Rightarrow> u32 \<Rightarrow> int \<Rightarrow> files \<Rightarrow> (u32 \<times> files) kresult" where
  "fs_lseek fd offset whence fs =
     (if fd \<le> 2 then Inr (offset, fs)
      else if \<not> is_fd fd then Inl Undefined
      else let f = fs (nat fd)
           in if \<not> used f then Inr (-1, fs)
              else if \<not> findex f < NR_FILES then Inl Undefined
              else let info = file_table ! findex f
                   in bind_result
                        (if whence = SEEK_CUR then Inr (foffset f + offset)
                         else if whence = SEEK_END then Inr (fsize info + offset)
                         else if whence = SEEK_SET then Inr offset
                         else Inl Undefined)
                        (\<lambda>new_off. let new_off = check_boundary info new_off
                                   in Inr (new_off, fs(nat fd := f\<lparr>foffset := new_off\<rparr>))))"

definition fs_close :: "int \<Rightarrow> files \<Rightarrow> (int \<times> files) kresult" where
  "fs_close fd fs =
     (if fd \<le> 2 then Inr (0, fs)
      else if \<not> is_fd fd then Inl Undefined
      else if \<not> used (fs (nat fd)) then Inr (-1, fs)
      else Inr (0, fs(nat fd := (fs (nat fd))\<lparr>used := False\<rparr>)))"

section \<open>System calls\<close>

record TrapFrame =
  tf_edi :: u32
  tf_esi :: u32
  tf_ebp :: u32
  tf_xxx :: u32
  tf_ebx :: u32
  tf_edx :: u32
  tf_ecx :: u32
  tf_eax :: u32
  tf_irq :: u32
  tf_error_code :: u32
  tf_eip :: u32
  tf_cs :: u32
  tf_eflags :: u32

record kernel =
  k_irq :: irq_state
  k_files :: files
  k_mm :: mm_state
  k_machine :: machine

text \<open>The numbers of \<open>sys/syscall.h\<close> on i386 Linux.\<close>

definition SYS_read :: u32 where "SYS_read = 3"
definition SYS_write :: u32 where "SYS_write = 4"
definition SYS_open :: u32 where "SYS_open = 5"
definition SYS_close :: u32 where "SYS_close = 6"
definition SYS_lseek :: u32 where "SYS_lseek = 19"
definition SYS_brk :: u32 where "SYS_brk = 45"

text \<open>The string at an address of the process, up to its terminating zero; \<open>None\<close> also if there is none.\<close>

partial_function (option) guest_string :: "machine \<Rightarrow> u32 \<Rightarrow> string option" where
  [code]: "guest_string s a = do {
     v \<leftarrow> vaddr_read s a SREG_DS 1;
     if (ucast v :: u8) = 0 then Some [] else do { cs \<leftarrow> guest_string s (a + 1); Some (char_of (unat (ucast v :: u8)) # cs) } }"

definition sys_brk :: "(u32 \<Rightarrow> u32 \<Rightarrow> machine \<Rightarrow> machine) \<Rightarrow> TrapFrame \<Rightarrow> kernel \<Rightarrow> (TrapFrame \<times> kernel) kresult" where
  "sys_brk mm_malloc tf k =
     (let (mm, s) = mm_brk mm_malloc (tf_ebx tf) (k_mm k, k_machine k)
      in Inr (tf\<lparr>tf_eax := 0\<rparr>, k\<lparr>k_mm := mm, k_machine := s\<rparr>))"

definition sys_open :: "TrapFrame \<Rightarrow> kernel \<Rightarrow> (TrapFrame \<times> kernel) kresult" where
  "sys_open tf k =
     bind_result (fault (guest_string (k_machine k) (tf_ebx tf))) (\<lambda>path.
     bind_result (fs_open path (k_files k)) (\<lambda>(r, fs).
       Inr (tf\<lparr>tf_eax := word_of_int r\<rparr>, k\<lparr>k_files := fs\<rparr>)))"

definition sys_read :: "TrapFrame \<Rightarrow> kernel \<Rightarrow> (TrapFrame \<times> kernel) kresult" where
  "sys_read tf k =
     bind_result (fs_read (sint (tf_ebx tf)) (tf_ecx tf) (tf_edx tf) (k_files k, k_machine k)) (\<lambda>(r, fs, s).
       Inr (tf\<lparr>tf_eax := r\<rparr>, k\<lparr>k_files := fs, k_machine := s\<rparr>))"

definition sys_write :: "TrapFrame \<Rightarrow> kernel \<Rightarrow> (TrapFrame \<times> kernel) kresult" where
  "sys_write tf k =
     bind_result (fs_write (sint (tf_ebx tf)) (tf_ecx tf) (tf_edx tf) (k_files k, k_machine k)) (\<lambda>(r, fs, s).
       Inr (tf\<lparr>tf_eax := r\<rparr>, k\<lparr>k_files := fs, k_machine := s\<rparr>))"

definition sys_lseek :: "TrapFrame \<Rightarrow> kernel \<Rightarrow> (TrapFrame \<times> kernel) kresult" where
  "sys_lseek tf k =
     bind_result (fs_lseek (sint (tf_ebx tf)) (tf_ecx tf) (sint (tf_edx tf)) (k_files k)) (\<lambda>(r, fs).
       Inr (tf\<lparr>tf_eax := r\<rparr>, k\<lparr>k_files := fs\<rparr>))"

definition sys_close :: "TrapFrame \<Rightarrow> kernel \<Rightarrow> (TrapFrame \<times> kernel) kresult" where
  "sys_close tf k =
     bind_result (fs_close (sint (tf_ebx tf)) (k_files k)) (\<lambda>(r, fs).
       Inr (tf\<lparr>tf_eax := word_of_int r\<rparr>, k\<lparr>k_files := fs\<rparr>))"

text \<open>Number 0 registers a handler, with interrupts off for the time of it and on afterwards.\<close>

definition do_syscall ::
  "(u32 \<Rightarrow> u32 \<Rightarrow> machine \<Rightarrow> machine) \<Rightarrow> TrapFrame \<Rightarrow> kernel \<Rightarrow> (TrapFrame \<times> kernel) kresult" where
  "do_syscall mm_malloc tf k =
     (if tf_eax tf = 0 then
        let k = k\<lparr>k_machine := (k_machine k)\<lparr>eflags := put_IF False (eflags (k_machine k))\<rparr>\<rparr>
        in bind_result (add_irq_handle (sint (tf_ebx tf)) (tf_ecx tf) (k_irq k)) (\<lambda>st.
             let k = k\<lparr>k_irq := st\<rparr>
             in Inr (tf, k\<lparr>k_machine := (k_machine k)\<lparr>eflags := put_IF True (eflags (k_machine k))\<rparr>\<rparr>))
      else if tf_eax tf = SYS_brk then sys_brk mm_malloc tf k
      else if tf_eax tf = SYS_open then sys_open tf k
      else if tf_eax tf = SYS_read then sys_read tf k
      else if tf_eax tf = SYS_write then sys_write tf k
      else if tf_eax tf = SYS_lseek then sys_lseek tf k
      else if tf_eax tf = SYS_close then sys_close tf k
      else Inl Panic)"

end
