(* ===== verification/Kernel_Disk.thy ===== *)
theory Kernel_Disk
  imports Kernel_Fs Cpu
begin

text \<open>
  The kernel's disk driver, which the disk window of \<open>QUICK_DISK\<close> bypasses: the programmed transfer of a
  sector (\<open>kernel/src/driver/ide/disk.c\<close>, \<open>dma.c\<close>), the cache of sectors in front of it (\<open>cache.c\<close>), and
  the transfer byte by byte with the two interrupt handlers (\<open>ide.c\<close>). The ports are those of the
  emulator's disk controller. Here \<open>None\<close> joins every way not to return: the emulator stops, an assertion
  of the kernel fails, or a loop does not end.
\<close>

section \<open>Port instructions\<close>

definition in_byte :: "u16 \<Rightarrow> machine \<Rightarrow> (u8 \<times> machine) option" where
  "in_byte port s = do { (v, s) \<leftarrow> pio_read port 1 s; Some (ucast v, s) }"

definition in_long :: "u16 \<Rightarrow> machine \<Rightarrow> (u32 \<times> machine) option" where
  "in_long port s = pio_read port 4 s"

definition out_long :: "u16 \<Rightarrow> u32 \<Rightarrow> machine \<Rightarrow> machine option" where
  "out_long port data s = pio_write port 4 data s"

section \<open>A sector through the ports\<close>

text \<open>\<open>waitdisk\<close> polls the status register.\<close>

partial_function (option) waitdisk :: "machine \<Rightarrow> machine option" where
  [code]: "waitdisk s = do {
     (st, s) \<leftarrow> in_byte (IDE_PORT_BASE + 7) s;
     if st AND (0x80 OR 0x40) \<noteq> 0x40 then waitdisk s else Some s
   }"

definition ide_prepare :: "u32 \<Rightarrow> machine \<Rightarrow> machine option" where
  "ide_prepare sec s = do {
     s \<leftarrow> waitdisk s;
     s \<leftarrow> out_byte (IDE_PORT_BASE + 1) 0 s;
     s \<leftarrow> out_byte (IDE_PORT_BASE + 2) 1 s;
     s \<leftarrow> out_byte (IDE_PORT_BASE + 3) (ucast (sec AND 0xFF)) s;
     s \<leftarrow> out_byte (IDE_PORT_BASE + 4) (ucast (drop_bit 8 sec AND 0xFF)) s;
     s \<leftarrow> out_byte (IDE_PORT_BASE + 5) (ucast (drop_bit 16 sec AND 0xFF)) s;
     out_byte (IDE_PORT_BASE + 6) (ucast (0xE0 OR (drop_bit 24 sec AND 0xFF))) s
   }"

definition issue_read :: "machine \<Rightarrow> machine option" where
  "issue_read s = out_byte (IDE_PORT_BASE + 7) 0x20 s"

definition issue_write :: "machine \<Rightarrow> machine option" where
  "issue_write s = out_byte (IDE_PORT_BASE + 7) 0x30 s"

text \<open>The four bytes of a word, and the word at four bytes of a buffer, in the order of the processor.\<close>

definition word_byte :: "u32 \<Rightarrow> nat \<Rightarrow> u8" where "word_byte d i = ucast (drop_bit (8 * i) d)"

definition buf_word :: "u8 list \<Rightarrow> nat \<Rightarrow> u32" where
  "buf_word bs i = ucast (bs ! (4 * i)) OR push_bit 8 (ucast (bs ! (4 * i + 1))) OR
     push_bit 16 (ucast (bs ! (4 * i + 2))) OR push_bit 24 (ucast (bs ! (4 * i + 3)))"

text \<open>The buffer is the list of its 512 bytes.\<close>

definition disk_do_write :: "u8 list \<Rightarrow> u32 \<Rightarrow> machine \<Rightarrow> machine option" where
  "disk_do_write bs sec s = do {
     s \<leftarrow> ide_prepare sec s;
     s \<leftarrow> issue_write s;
     foldM (\<lambda>i. out_long IDE_PORT_BASE (buf_word bs i)) [0..<128] s
   }"

text \<open>
  The transfer of \<open>disk_do_read\<close>: each word is stored byte by byte and checked. The loop \<open>off\<close> is
  a \<open>fold\<close>.
\<close>

definition read_word :: "nat \<Rightarrow> u8 list \<times> machine \<Rightarrow> (u8 list \<times> machine) option" where
  "read_word i st = (case st of (bs, s) \<Rightarrow> do {
     (d, s) \<leftarrow> in_long IDE_PORT_BASE s;
     let bs = fold (\<lambda>off bs. bs[4 * i + off := word_byte d off]) [0..<4] bs;
     if buf_word bs i = d then Some (bs, s) else None
   })"

section \<open>The driver's state and its interrupts\<close>

definition NR_SEC_CACHE :: nat where "NR_SEC_CACHE = 128"

record SectorCache =
  sc_sector :: u32
  sc_used :: bool
  sc_dirty :: bool
  sc_content :: "u8 list"

record ide_driver =
  sec_cache :: "nat \<Rightarrow> SectorCache"
  has_ide_intr :: u32
  wb_counter :: u32

definition ide_driver0 :: ide_driver where
  "ide_driver0 = \<lparr>sec_cache = (\<lambda>_. \<lparr>sc_sector = 0, sc_used = False, sc_dirty = False, sc_content = replicate 512 0\<rparr>),
     has_ide_intr = 0, wb_counter = 0\<rparr>"

type_synonym drive = "ide_driver \<times> machine"
type_synonym kworld = "irq_state \<times> drive"

definition upd_cache :: "nat \<Rightarrow> (SectorCache \<Rightarrow> SectorCache) \<Rightarrow> ide_driver \<Rightarrow> ide_driver" where
  "upd_cache i f d = d\<lparr>sec_cache := (sec_cache d)(i := f (sec_cache d i))\<rparr>"

definition sc_at :: "ide_driver \<Rightarrow> nat \<Rightarrow> SectorCache" where "sc_at d i = sec_cache d i"

definition sector_cache_init :: "ide_driver \<Rightarrow> ide_driver" where
  "sector_cache_init d = fold (\<lambda>i. upd_cache i (\<lambda>c. c\<lparr>sc_used := False\<rparr>)) [0..<NR_SEC_CACHE] d"

definition writeback_one :: "nat \<Rightarrow> drive \<Rightarrow> drive option" where
  "writeback_one i st = (case st of (d, s) \<Rightarrow>
     if sc_dirty (sc_at d i) then do {
       s \<leftarrow> disk_do_write (sc_content (sc_at d i)) (sc_sector (sc_at d i)) s;
       Some (upd_cache i (\<lambda>c. c\<lparr>sc_dirty := False\<rparr>) d, s)
     }
     else Some (d, s))"

definition cache_writeback :: "drive \<Rightarrow> drive option" where
  "cache_writeback = foldM writeback_one [0..<NR_SEC_CACHE]"

definition WRITEBACK_TIME :: u32 where "WRITEBACK_TIME = 1"
definition HZ :: u32 where "HZ = 100"

definition ide_writeback :: "drive \<Rightarrow> drive option" where
  "ide_writeback st = (case st of (d, s) \<Rightarrow>
     let d = d\<lparr>wb_counter := wb_counter d + 1\<rparr>
     in if wb_counter d = WRITEBACK_TIME * HZ then do {
          (d, s) \<leftarrow> cache_writeback (d, s);
          Some (d\<lparr>wb_counter := 0\<rparr>, s)
        }
        else Some (d, s))"

definition ide_intr :: "drive \<Rightarrow> drive" where "ide_intr st = (case st of (d, s) \<Rightarrow> (d\<lparr>has_ide_intr := 1\<rparr>, s))"

definition clear_ide_intr :: "ide_driver \<Rightarrow> ide_driver" where "clear_ide_intr d = d\<lparr>has_ide_intr := 0\<rparr>"

text \<open>
  The code behind a handler's address: the driver's two, at the addresses \<open>awb\<close> and \<open>aint\<close>, and what
  the system call 0 has registered, \<open>user\<close>.
\<close>

record handler_code =
  awb :: u32
  aint :: u32
  user :: "u32 \<Rightarrow> kworld \<Rightarrow> kworld kresult"

definition call_handler :: "handler_code \<Rightarrow> u32 \<Rightarrow> kworld \<Rightarrow> kworld kresult" where
  "call_handler h f w = (case w of (st, dr) \<Rightarrow>
     if f = awb h then bind_result (fault (ide_writeback dr)) (\<lambda>dr. Inr (st, dr))
     else if f = aint h then Inr (st, ide_intr dr)
     else user h f w)"

text \<open>
  The entry points of \<open>do_irq.S\<close> push 1000 + n for the lines that have one of their own, and -1 for the others.
\<close>

definition irq_id :: "u8 \<Rightarrow> int" where
  "irq_id no = (let n = int (unat no) - 32 in if n \<in> {0, 1, 2, 14} then 1000 + n else -1)"

text \<open>
  One interrupt: the processor takes it when the request line is up and \<open>IF\<close> is set, as \<open>do_intr\<close> does. The way into \<open>irq_handle\<close> and back is that of
  \<open>raise_intr\<close> and \<open>iret\<close>, which restores the interrupted state.
\<close>

definition take_intr :: "handler_code \<Rightarrow> kworld \<Rightarrow> kworld option" where
  "take_intr h w = (case w of (st, d, s) \<Rightarrow>
     if intr s \<noteq> 0 \<and> IF (eflags s) then
       let n = i8259_query_intr_no s
       in if n = I8259_NO_INTR then None
          else (case irq_handle (call_handler h) Inr (irq_id n) (st, d, i8259_ack_intr s) of
              Some (Inr w) \<Rightarrow> Some w
            | _ \<Rightarrow> None)
     else Some w)"

text \<open>
  \<open>wait_intr\<close> halts the processor: a pending interrupt is taken at once, otherwise the devices advance.
  \<open>env\<close> gives the host's input to the devices at the \<open>k\<close>-th round.
\<close>

definition wait_intr :: "handler_code \<Rightarrow> host_input \<Rightarrow> kworld \<Rightarrow> kworld option" where
  "wait_intr h inp w = (case w of (st, d, s) \<Rightarrow>
     if intr s \<noteq> 0 \<and> IF (eflags s) then take_intr h w
     else case inp of (t1, t2, t3, events) \<Rightarrow> do {
       s \<leftarrow> do_devices t1 t2 t3 events s;
       take_intr h (st, d, s)
     })"

partial_function (option) wait_ide_intr :: "handler_code \<Rightarrow> (nat \<Rightarrow> host_input) \<Rightarrow> nat \<Rightarrow> kworld \<Rightarrow> kworld option" where
  [code]: "wait_ide_intr h env k w = (case w of (st, d, s) \<Rightarrow>
     if has_ide_intr d = 0 then do {
       w \<leftarrow> wait_intr h (env k) w;
       wait_ide_intr h env (k + 1) w
     }
     else Some (st, clear_ide_intr d, s))"

definition disk_do_read ::
  "handler_code \<Rightarrow> (nat \<Rightarrow> host_input) \<Rightarrow> u8 list \<Rightarrow> u32 \<Rightarrow> kworld \<Rightarrow> (u8 list \<times> kworld) option" where
  "disk_do_read h env bs sec w = (case w of (st, d, s) \<Rightarrow> do {
     let d = clear_ide_intr d;
     s \<leftarrow> ide_prepare sec s;
     s \<leftarrow> issue_read s;
     (st, d, s) \<leftarrow> wait_ide_intr h env 0 (st, d, s);
     (bs, s) \<leftarrow> foldM read_word [0..<128] (bs, s);
     Some (bs, st, d, s)
   })"

section \<open>The sector cache\<close>

definition slot :: "u32 \<Rightarrow> nat" where "slot sec = unat sec mod NR_SEC_CACHE"

definition cache_fetch :: "handler_code \<Rightarrow> (nat \<Rightarrow> host_input) \<Rightarrow> u32 \<Rightarrow> kworld \<Rightarrow> kworld option" where
  "cache_fetch h env sec w = (case w of (st, d, s) \<Rightarrow>
     let i = slot sec; c = sc_at d i
     in if sc_used c \<and> sc_sector c = sec then Some w
        else do {
          s \<leftarrow> (if sc_used c \<and> sc_dirty c then disk_do_write (sc_content c) (sc_sector c) s else Some s);
          (bs, st, d, s) \<leftarrow> disk_do_read h env (sc_content c) sec (st, d, s);
          Some (st, upd_cache i (\<lambda>c. c\<lparr>sc_content := bs, sc_used := True, sc_sector := sec, sc_dirty := False\<rparr>) d, s)
        })"

definition read_byte :: "handler_code \<Rightarrow> (nat \<Rightarrow> host_input) \<Rightarrow> u32 \<Rightarrow> kworld \<Rightarrow> (u8 \<times> kworld) option" where
  "read_byte h env offset w = do {
     let sec = drop_bit 9 offset;
     (st, d, s) \<leftarrow> cache_fetch h env sec w;
     Some (sc_content (sc_at d (slot sec)) ! unat (offset AND 511), st, d, s)
   }"

definition write_byte :: "handler_code \<Rightarrow> (nat \<Rightarrow> host_input) \<Rightarrow> u32 \<Rightarrow> u8 \<Rightarrow> kworld \<Rightarrow> kworld option" where
  "write_byte h env offset v w = do {
     let sec = drop_bit 9 offset;
     (st, d, s) \<leftarrow> cache_fetch h env sec w;
     Some (st, upd_cache (slot sec) (\<lambda>c. c\<lparr>sc_content := (sc_content c)[unat (offset AND 511) := v], sc_dirty := True\<rparr>) d, s)
   }"

text \<open>The transfers of \<open>ide.c\<close> without \<open>QUICK_DISK\<close>, between the cache and a buffer of the caller.\<close>

definition ide_read_bytes :: "handler_code \<Rightarrow> (nat \<Rightarrow> host_input) \<Rightarrow> u32 \<Rightarrow> u32 \<Rightarrow> u32 \<Rightarrow> kworld \<Rightarrow> kworld option" where
  "ide_read_bytes h env buf offset len = foldM (\<lambda>i w. do {
     (v, st, d, s) \<leftarrow> read_byte h env (offset + of_nat i) w;
     s \<leftarrow> vaddr_write s (buf + of_nat i) SREG_DS 1 (ucast v);
     Some (st, d, s)
   }) [0..<unat len]"

definition ide_write_bytes :: "handler_code \<Rightarrow> (nat \<Rightarrow> host_input) \<Rightarrow> u32 \<Rightarrow> u32 \<Rightarrow> u32 \<Rightarrow> kworld \<Rightarrow> kworld option" where
  "ide_write_bytes h env buf offset len = foldM (\<lambda>i w. case w of (st, d, s) \<Rightarrow> do {
     v \<leftarrow> vaddr_read s (buf + of_nat i) SREG_DS 1;
     write_byte h env (offset + of_nat i) (ucast v) w
   }) [0..<unat len]"

definition kernel_init_ide :: "handler_code \<Rightarrow> kworld \<Rightarrow> kworld kresult" where
  "kernel_init_ide h w = (case w of (st, d, s) \<Rightarrow>
     let d = sector_cache_init d
     in bind_result (add_irq_handle 0 (awb h) st) (\<lambda>st.
        bind_result (add_irq_handle 14 (aint h) st) (\<lambda>st. Inr (st, d, s))))"

section \<open>DMA\<close>

text \<open>\<open>dma.c\<close>, which the driver calls only under \<open>USE_DMA_READ\<close>: the descriptor, and its announcement.\<close>

definition BMR_PORT :: u16 where "BMR_PORT = 0xc040"

record PRD =
  prd_addr :: u32
  prd_byte_cnt :: u16
  prd_flags :: u16

definition dma_prepare :: "u32 \<Rightarrow> u32 \<Rightarrow> PRD \<Rightarrow> machine \<Rightarrow> (PRD \<times> machine) option" where
  "dma_prepare buf prd_at prd s = do {
     let prd = prd\<lparr>prd_addr := va_to_pa buf, prd_byte_cnt := 512\<rparr>;
     let prd = prd\<lparr>prd_flags := set_bit 15 (prd_flags prd)\<rparr>;
     let prd = prd\<lparr>prd_flags := prd_flags prd AND 0x8000\<rparr>;
     s \<leftarrow> out_long (BMR_PORT + 4) (va_to_pa prd_at) s;
     Some (prd, s)
   }"

definition dma_issue_read :: "machine \<Rightarrow> machine option" where
  "dma_issue_read s = do {
     (v, s) \<leftarrow> in_byte BMR_PORT s;
     out_byte BMR_PORT (v OR 0x1 OR 0x8) s
   }"

end
