(* ===== verification/Kernel_Fs_Correct.thy ===== *)
theory Kernel_Fs_Correct
  imports Kernel_Fs
begin

text \<open>
  What the file system does on the emulator: reading delivers the bytes of the disk image and advances
  the offset, the console gets the bytes written, and where the boundary check of \<open>fs_lseek\<close> goes wrong.
\<close>

section \<open>Copies from the disk window\<close>

text \<open>
  A buffer of \<open>n\<close> bytes at a virtual address, which translation places at the physical address \<open>p\<close>,
  in plain RAM, and keeps there whatever the buffer holds.
\<close>

definition buffer :: "machine \<Rightarrow> u32 \<Rightarrow> nat \<Rightarrow> u32 \<Rightarrow> bool" where
  "buffer s buf n p \<longleftrightarrow> unat p + n < 0x8000000 \<and>
     (\<forall>i < n. is_mmio (mmio s) (p + of_nat i) = None \<and> buf + of_nat i < QDISK_BASE) \<and>
     (\<forall>m. (\<forall>x. \<not> unat (x - p) < n \<longrightarrow> m x = hw_mem s x) \<longrightarrow>
        (\<forall>i < n. \<exists>l. to_laddr (s\<lparr>hw_mem := m\<rparr>) (buf + of_nat i) SREG_DS = Some l \<and>
                   to_paddr (s\<lparr>hw_mem := m\<rparr>) l = Some (p + of_nat i)))"

definition fill_buffer :: "u32 \<Rightarrow> u8 list \<Rightarrow> machine \<Rightarrow> machine" where
  "fill_buffer p bs s = s\<lparr>hw_mem := (\<lambda>x. if unat (x - p) < length bs then bs ! unat (x - p) else hw_mem s x)\<rparr>"

lemma bufferD:
  assumes "buffer s buf n p" "i < n" "\<And>x. \<not> unat (x - p) < n \<Longrightarrow> m x = hw_mem s x"
  obtains l where "to_laddr (s\<lparr>hw_mem := m\<rparr>) (buf + of_nat i) SREG_DS = Some l"
    "to_paddr (s\<lparr>hw_mem := m\<rparr>) l = Some (p + of_nat i)"
  using assms unfolding buffer_def by metis

lemma buffer_write:
  assumes b: "buffer s buf n p" and i: "i < n" and m: "\<And>x. \<not> unat (x - p) < n \<Longrightarrow> m x = hw_mem s x"
  shows "vaddr_write (s\<lparr>hw_mem := m\<rparr>) (buf + of_nat i) SREG_DS 1 d = Some (s\<lparr>hw_mem := m(p + of_nat i := ucast d)\<rparr>)"
proof -
  obtain l where l: "to_laddr (s\<lparr>hw_mem := m\<rparr>) (buf + of_nat i) SREG_DS = Some l"
    "to_paddr (s\<lparr>hw_mem := m\<rparr>) l = Some (p + of_nat i)"
    using bufferD [OF b i] m by metis
  have c: "unat (p + of_nat i) + 1 < 0x8000000" "is_mmio (mmio (s\<lparr>hw_mem := m\<rparr>)) (p + of_nat i) = None"
    "\<not> QDISK_BASE \<le> buf + of_nat i"
    using b i by (auto simp: buffer_def unat_add_nat not_le)
  have "laddr_write (s\<lparr>hw_mem := m\<rparr>) l 1 d = Some (s\<lparr>hw_mem := m(p + of_nat i := ucast d)\<rparr>)"
    using paddr_ram(2) [OF _ c(1,2)] page_rest_bounds(1) [of l] l(2) by (simp add: laddr_write_page)
  then show ?thesis using c(3) l(1) by (simp add: vaddr_write_def len_ok_def)
qed

lemma disk_byte_read:
  assumes "unat off + i < 0x31C00000"
  shows "vaddr_read s (QDISK_BASE + off + of_nat i) SREG_DS 1 = Some (disk_word s (unat off + i) 1)"
proof -
  have q: "unat QDISK_BASE = 0xCE400000" by (simp add: QDISK_BASE_def)
  have "unat (QDISK_BASE + off) = 0xCE400000 + unat off"
    using assms by (simp add: unat_word_ariths q)
  then have u: "unat (QDISK_BASE + off + of_nat i) = 0xCE400000 + (unat off + i)"
    using assms by (simp add: unat_add_nat)
  then have "QDISK_BASE \<le> QDISK_BASE + off + of_nat i" by (simp add: word_le_nat_alt q)
  moreover have "unat (QDISK_BASE + off + of_nat i - QDISK_BASE) = unat off + i"
    using assms by (simp add: unat_add_nat)
  ultimately show ?thesis by (simp add: vaddr_read_def len_ok_def)
qed

lemma disk_word_low: "pos < length (disk_data (ide s)) \<Longrightarrow> ucast (disk_word s pos 1) = disk_data (ide s) ! pos"
  by (rule bit_word_eqI) (auto simp: disk_word_def disk_byte_def bit_simps)

lemma guest_memcpy_disk:
  assumes b: "buffer s buf n p" and d: "unat off + n \<le> length (disk_data (ide s))" "unat off + n < 0x31C00000"
  shows "guest_memcpy buf (QDISK_BASE + off) n s = Some (fill_buffer p (take n (drop (unat off) (disk_data (ide s)))) s)"
proof -
  let ?d = "disk_data (ide s)"
  let ?m = "\<lambda>k x. if unat (x - p) < k then ?d ! (unat off + unat (x - p)) else hw_mem s x"
  have "foldM (\<lambda>i s. do { b \<leftarrow> vaddr_read s (QDISK_BASE + off + of_nat i) SREG_DS 1;
      vaddr_write s (buf + of_nat i) SREG_DS 1 b }) [0..<k] s = Some (s\<lparr>hw_mem := ?m k\<rparr>)" if "k \<le> n" for k
    using that
  proof (induction k)
    case (Suc k)
    have r: "vaddr_read (s\<lparr>hw_mem := ?m k\<rparr>) (QDISK_BASE + off + of_nat k) SREG_DS 1 =
        Some (disk_word (s\<lparr>hw_mem := ?m k\<rparr>) (unat off + k) 1)"
      using Suc.prems d by (intro disk_byte_read) simp
    have w: "ucast (disk_word (s\<lparr>hw_mem := ?m k\<rparr>) (unat off + k) 1) = ?d ! (unat off + k)"
      using disk_word_low [of "unat off + k" "s\<lparr>hw_mem := ?m k\<rparr>"] Suc.prems d by simp
    have k: "unat (of_nat k :: u32) = k" using Suc.prems b by (simp add: buffer_def unat_of_nat take_bit_eq_mod)
    have upd: "(?m k)(p + of_nat k := ?d ! (unat off + k)) = ?m (Suc k)"
    proof
      fix x
      have "x = p + of_nat k \<longleftrightarrow> x - p = of_nat k" by (auto simp: algebra_simps)
      then have "x = p + of_nat k \<longleftrightarrow> unat (x - p) = k" using k by (simp add: word_unat_eq_iff)
      then show "((?m k)(p + of_nat k := ?d ! (unat off + k))) x = ?m (Suc k) x"
        by (auto simp: less_Suc_eq)
    qed
    have "vaddr_write (s\<lparr>hw_mem := ?m k\<rparr>) (buf + of_nat k) SREG_DS 1 d = Some (s\<lparr>hw_mem := (?m k)(p + of_nat k := ucast d)\<rparr>)" for d
      using Suc.prems by (intro buffer_write [OF b]) auto
    then have "do { b \<leftarrow> vaddr_read (s\<lparr>hw_mem := ?m k\<rparr>) (QDISK_BASE + off + of_nat k) SREG_DS 1;
        vaddr_write (s\<lparr>hw_mem := ?m k\<rparr>) (buf + of_nat k) SREG_DS 1 b } = Some (s\<lparr>hw_mem := ?m (Suc k)\<rparr>)"
      by (simp only: r bind.bind_lunit w upd)
    then show ?case
      using Suc.IH Suc.prems by (simp only: upt_Suc foldM_append foldM.simps Suc_leD bind.bind_lunit le0 if_True)
  qed simp
  from this [of n] show ?thesis
    using d by (simp add: guest_memcpy_def fill_buffer_def cong: if_cong)
qed

section \<open>Files\<close>

definition fd_ok :: "int \<Rightarrow> files \<Rightarrow> bool" where
  "fd_ok fd fs \<longleftrightarrow> 2 < fd \<and> fd < 29 \<and> used (fs (nat fd)) \<and> findex (fs (nat fd)) < NR_FILES"

definition info_of :: "int \<Rightarrow> files \<Rightarrow> file_info" where "info_of fd fs = file_table ! findex (fs (nat fd))"

lemma file_table_bounds: "i < NR_FILES \<Longrightarrow> unat (disk_offset (file_table ! i)) + unat (fsize (file_table ! i)) < 0x2000000"
proof -
  have "\<forall>f \<in> set file_table. unat (disk_offset f) + unat (fsize f) < 0x2000000" by (simp add: file_table_def fi_def)
  moreover have "length file_table = NR_FILES" by (simp add: file_table_def NR_FILES_def)
  ultimately show "i < NR_FILES \<Longrightarrow> ?thesis" by simp
qed

text \<open>How many bytes a read of \<open>len\<close> delivers.\<close>

definition avail :: "int \<Rightarrow> files \<Rightarrow> u32 \<Rightarrow> nat" where
  "avail fd fs len = min (unat len) (unat (fsize (info_of fd fs)) - unat (foffset (fs (nat fd))))"

lemma word_of_unat: "unat w = n \<Longrightarrow> w = of_nat n" for w :: u32
  by auto

lemma clipped_len:
  fixes off sz len :: u32
  assumes "off \<le> sz" "unat off + unat len < 2 ^ 32"
  shows "unat (if off + len > sz then sz - off else len) = min (unat len) (unat sz - unat off)"
proof -
  have "unat (off + len) = unat off + unat len" using assms by (simp add: unat_word_ariths)
  moreover have "unat (sz - off) = unat sz - unat off" using assms by (simp add: unat_sub_if' word_le_nat_alt)
  ultimately show ?thesis using assms(1) by (auto simp: word_less_nat_alt word_le_nat_alt)
qed

lemma fs_read_open:
  assumes "fd_ok fd fs"
  shows "fs_read fd buf len (fs, s) =
    (let f = fs (nat fd); info = info_of fd fs;
         len = (if foffset f + len > fsize info then fsize info - foffset f else len)
     in if len \<le> 0 then Inr (0, fs, s)
        else bind_result (fault (ide_read buf (disk_offset info + foffset f) len s))
          (\<lambda>s. Inr (len, fs(nat fd := f\<lparr>foffset := foffset f + len\<rparr>), s)))"
proof -
  have "fd > 2" "is_fd fd" "used (fs (nat fd))" "findex (fs (nat fd)) < NR_FILES"
    using assms by (simp_all add: fd_ok_def is_fd_def NR_FILES_def)
  then show ?thesis by (simp only: fs_read_def Let_def prod.case info_of_def simp_thms if_False)
qed

lemma fs_read_avail:
  assumes f: "fd_ok fd fs" "foffset (fs (nat fd)) \<le> fsize (info_of fd fs)"
      "unat (foffset (fs (nat fd))) + unat len < 2 ^ 32"
    and d: "unat (disk_offset (info_of fd fs)) + unat (fsize (info_of fd fs)) \<le> length (disk_data (ide s))"
    and b: "buffer s buf (avail fd fs len) p"
  shows "fs_read fd buf len (fs, s) =
    Inr (of_nat (avail fd fs len),
         fs(nat fd := (fs (nat fd))\<lparr>foffset := foffset (fs (nat fd)) + of_nat (avail fd fs len)\<rparr>),
         fill_buffer p (take (avail fd fs len)
           (drop (unat (disk_offset (info_of fd fs)) + unat (foffset (fs (nat fd)))) (disk_data (ide s)))) s)"
proof -
  let ?f = "fs (nat fd)" and ?i = "info_of fd fs" and ?n = "avail fd fs len"
  let ?l = "if foffset ?f + len > fsize ?i then fsize ?i - foffset ?f else len"
  have l: "unat ?l = ?n" using clipped_len [OF f(2,3)] by (simp add: avail_def)
  then have lw: "?l = of_nat ?n" by (rule word_of_unat)
  have tb: "unat (disk_offset ?i) + unat (fsize ?i) < 0x2000000"
    using file_table_bounds f(1) by (simp add: info_of_def fd_ok_def)
  have le: "unat (foffset ?f) + ?n \<le> unat (fsize ?i)"
    using f(2) by (simp add: avail_def word_le_nat_alt)
  have o: "unat (disk_offset ?i + foffset ?f) = unat (disk_offset ?i) + unat (foffset ?f)"
    using tb le by (simp add: unat_word_ariths)
  show ?thesis
  proof (cases "?n = 0")
    case True
    then have "?l \<le> 0" using l by (simp add: word_le_nat_alt)
    then show ?thesis using True by (simp add: fs_read_open [OF f(1)] Let_def fill_buffer_def)
  next
    case False
    then have nz: "\<not> ?l \<le> 0" using l by (auto simp: word_le_nat_alt)
    have "ide_read buf (disk_offset ?i + foffset ?f) ?l s =
      Some (fill_buffer p (take ?n (drop (unat (disk_offset ?i) + unat (foffset ?f)) (disk_data (ide s)))) s)"
      unfolding ide_read_def l
      using guest_memcpy_disk [of s buf ?n p "disk_offset ?i + foffset ?f"] b d tb le by (simp add: o)
    then show ?thesis
      unfolding fs_read_open [OF f(1)] Let_def using nz by (simp only: lw fault_def bind_result_def) simp
  qed
qed

lemma fill_buffer_fields [simp]:
  "mmio (fill_buffer p bs s) = mmio s" "ide (fill_buffer p bs s) = ide s"
  by (simp_all add: fill_buffer_def)

lemma unat_minus_nat:
  "j < 2 ^ 32 \<Longrightarrow> unat (y - of_nat j) = (if j \<le> unat y then unat y - j else 2 ^ 32 + unat y - j)" for y :: u32
  by (simp add: unat_sub_if' unat_of_nat take_bit_eq_mod) arith

lemma min_split: "min (a + b) r = min a r + min b (r - min a r)" for a b r :: nat
  by (auto simp: min_def)

lemma range_shift:
  fixes p x :: u32
  assumes "unat p + (j + k) < 2 ^ 32"
  shows "unat (x - p) < j + k \<longleftrightarrow> unat (x - p) < j \<or> unat (x - (p + of_nat j)) < k"
    and "unat (x - (p + of_nat j)) < k \<Longrightarrow> unat (x - p) = j + unat (x - (p + of_nat j))"
proof -
  have e: "x - (p + of_nat j) = (x - p) - of_nat j" by simp
  have u: "unat (x - (p + of_nat j)) = (if j \<le> unat (x - p) then unat (x - p) - j else 2 ^ 32 + unat (x - p) - j)"
    unfolding e by (rule unat_minus_nat) (use assms in simp)
  show "unat (x - p) < j + k \<longleftrightarrow> unat (x - p) < j \<or> unat (x - (p + of_nat j)) < k"
    unfolding u using assms by auto
  show "unat (x - (p + of_nat j)) < k \<Longrightarrow> unat (x - p) = j + unat (x - (p + of_nat j))"
    using assms unfolding u by (auto split: if_splits)
qed

lemma machine_mem_twice:
  "s\<lparr>hw_mem := f\<rparr>\<lparr>hw_mem := g\<rparr> = s\<lparr>hw_mem := g\<rparr>" "hw_mem (s\<lparr>hw_mem := f\<rparr>) = f" for s :: machine
  by simp_all

lemma fill_buffer_append:
  assumes "unat p + (length as + length bs) < 2 ^ 32"
  shows "fill_buffer (p + of_nat (length as)) bs (fill_buffer p as s) = fill_buffer p (as @ bs) s"
proof -
  have "(if unat (x - (p + of_nat (length as))) < length bs then bs ! unat (x - (p + of_nat (length as)))
      else if unat (x - p) < length as then as ! unat (x - p) else hw_mem s x) =
    (if unat (x - p) < length (as @ bs) then (as @ bs) ! unat (x - p) else hw_mem s x)" for x
  proof (cases "unat (x - (p + of_nat (length as))) < length bs")
    case True
    then show ?thesis using range_shift [OF assms, of x] by (simp add: nth_append)
  next
    case False
    then show ?thesis using range_shift(1) [OF assms, of x] by (auto simp: nth_append)
  qed
  then show ?thesis unfolding fill_buffer_def machine_mem_twice by presburger
qed

lemma buffer_le: "buffer s buf (j + k) p \<Longrightarrow> buffer s buf j p"
  unfolding buffer_def by (auto intro: less_imp_le)

lemma buffer_rest:
  assumes b: "buffer s buf (j + k) p" and l: "length bs = j"
  shows "buffer (fill_buffer p bs s) (buf + of_nat j) k (p + of_nat j)"
proof -
  have r: "unat p + (j + k) < 2 ^ 32" using b by (simp add: buffer_def)
  have u: "unat (p + of_nat j) = unat p + j" using r by (simp add: unat_add_nat)
  have "\<exists>l. to_laddr (s\<lparr>hw_mem := m\<rparr>) (buf + of_nat j + of_nat i) SREG_DS = Some l \<and>
      to_paddr (s\<lparr>hw_mem := m\<rparr>) l = Some (p + of_nat j + of_nat i)"
    if "i < k" "\<forall>x. \<not> unat (x - (p + of_nat j)) < k \<longrightarrow> m x = hw_mem (fill_buffer p bs s) x" for m i
  proof -
    have "m x = hw_mem s x" if "\<not> unat (x - p) < j + k" for x
      using that \<open>\<forall>x. _ \<longrightarrow> m x = _\<close> range_shift(1) [OF r, of x] by (simp add: fill_buffer_def l)
    with b that(1) obtain l where "to_laddr (s\<lparr>hw_mem := m\<rparr>) (buf + of_nat (j + i)) SREG_DS = Some l"
      "to_paddr (s\<lparr>hw_mem := m\<rparr>) l = Some (p + of_nat (j + i))"
      using bufferD [of s buf "j + k" p "j + i" m] by auto
    then show ?thesis by (simp add: add.assoc)
  qed
  moreover have "\<forall>i < k. is_mmio (mmio s) (p + of_nat j + of_nat i) = None \<and> buf + of_nat j + of_nat i < QDISK_BASE"
  proof (intro allI impI)
    fix i assume "i < k"
    have "\<forall>i < j + k. is_mmio (mmio s) (p + of_nat i) = None \<and> buf + of_nat i < QDISK_BASE"
      using b unfolding buffer_def by blast
    from this [rule_format, of "j + i"] \<open>i < k\<close>
    show "is_mmio (mmio s) (p + of_nat j + of_nat i) = None \<and> buf + of_nat j + of_nat i < QDISK_BASE"
      by (simp add: add.assoc)
  qed
  ultimately show ?thesis using b u unfolding buffer_def by (simp add: fill_buffer_def)
qed

text \<open>The state after a first read, and what a second one does in it.\<close>

definition read_fs :: "int \<Rightarrow> u32 \<Rightarrow> files \<Rightarrow> files" where
  "read_fs fd len fs = fs(nat fd := (fs (nat fd))\<lparr>foffset := foffset (fs (nat fd)) + of_nat (avail fd fs len)\<rparr>)"

definition file_bytes :: "int \<Rightarrow> files \<Rightarrow> machine \<Rightarrow> u8 list" where
  "file_bytes fd fs s = drop (unat (disk_offset (info_of fd fs)) + unat (foffset (fs (nat fd)))) (disk_data (ide s))"

definition readable :: "int \<Rightarrow> files \<Rightarrow> machine \<Rightarrow> bool" where
  "readable fd fs s \<longleftrightarrow> fd_ok fd fs \<and> foffset (fs (nat fd)) \<le> fsize (info_of fd fs) \<and>
     unat (disk_offset (info_of fd fs)) + unat (fsize (info_of fd fs)) \<le> length (disk_data (ide s))"

lemma fs_read_readable:
  assumes "readable fd fs s" "unat (foffset (fs (nat fd))) + unat len < 2 ^ 32" "buffer s buf (avail fd fs len) p"
  shows "fs_read fd buf len (fs, s) =
    Inr (of_nat (avail fd fs len), read_fs fd len fs, fill_buffer p (take (avail fd fs len) (file_bytes fd fs s)) s)"
  using assms unfolding readable_def read_fs_def file_bytes_def by (intro fs_read_avail) auto

lemma avail_le:
  "foffset (fs (nat fd)) \<le> fsize (info_of fd fs) \<Longrightarrow> unat (foffset (fs (nat fd))) + avail fd fs len \<le> unat (fsize (info_of fd fs))"
  by (simp add: avail_def word_le_nat_alt)

lemma read_fs_fields:
  assumes "fd_ok fd fs" "foffset (fs (nat fd)) \<le> fsize (info_of fd fs)"
  shows "info_of fd (read_fs fd len fs) = info_of fd fs" "fd_ok fd (read_fs fd len fs)"
    "unat (foffset (read_fs fd len fs (nat fd))) = unat (foffset (fs (nat fd))) + avail fd fs len"
proof -
  show "unat (foffset (read_fs fd len fs (nat fd))) = unat (foffset (fs (nat fd))) + avail fd fs len"
    using avail_le [OF assms(2), of len] unat_less_32 [of "fsize (info_of fd fs)"] by (simp add: read_fs_def unat_add_nat)
qed (use assms in \<open>simp_all add: info_of_def read_fs_def fd_ok_def\<close>)

lemma readable_read:
  assumes "readable fd fs s"
  shows "readable fd (read_fs fd len fs) (fill_buffer p bs s)"
    "file_bytes fd (read_fs fd len fs) (fill_buffer p bs s) = drop (avail fd fs len) (file_bytes fd fs s)"
  using assms read_fs_fields [of fd fs len] avail_le [of fs fd len]
  by (simp_all add: readable_def file_bytes_def word_le_nat_alt ac_simps)

lemma avail_split:
  assumes "readable fd fs s" "unat len1 + unat len2 < 2 ^ 32"
  shows "avail fd fs (len1 + len2) = avail fd fs len1 + avail fd (read_fs fd len1 fs) len2"
proof -
  have l: "unat (len1 + len2) = unat len1 + unat len2" using assms(2) by (simp add: unat_word_ariths)
  have "fd_ok fd fs" "foffset (fs (nat fd)) \<le> fsize (info_of fd fs)" using assms(1) by (simp_all add: readable_def)
  note i = read_fs_fields [OF this, of len1]
  have "avail fd (read_fs fd len1 fs) len2 =
      min (unat len2) (unat (fsize (info_of fd fs)) - unat (foffset (fs (nat fd))) - avail fd fs len1)"
    by (simp only: avail_def [of fd "read_fs fd len1 fs"] i(1,3) diff_diff_left)
  then show ?thesis by (simp only: avail_def [of fd fs] l min_split)
qed

lemma length_file_bytes: "readable fd fs s \<Longrightarrow> avail fd fs len \<le> length (file_bytes fd fs s)"
  by (auto simp: readable_def file_bytes_def avail_def word_le_nat_alt)

section \<open>The console\<close>

lemma u8_via_u32 [simp]: "ucast (ucast x :: u32) = x" for x :: u8
  by (rule bit_word_eqI) (simp add: bit_simps)

definition serial_ready :: "machine \<Rightarrow> bool" where "serial_ready s \<longleftrightarrow> bit (io_port s 0x3FD) 5"

lemma serial_ports:
  "pio_handle 0x3FD 1 False s = Some s"
  "pio_handle 0x3F8 1 True s = Some (s\<lparr>serial_out := serial_out s @ [io_port s 0x3F8]\<rparr>)"
  by (simp_all add: pio_handle_def pio_handler_table_def IDE_PORT_BASE_def KEYBOARD_DATA_PORT_def SERIAL_PORT_def
      TIMER_PORT_def handler_serial_def read_io_port_def in_ports_def)

lemma serial_printc_ready:
  assumes "serial_ready s"
  shows "serial_printc ch s = Some (s\<lparr>io_port := (io_port s)(0x3F8 := ch), serial_out := serial_out s @ [ch]\<rparr>)"
proof -
  have b: "(io_port s 0x3FD) AND 0x20 \<noteq> 0"
  proof -
    have "bit (io_port s 0x3FD AND 0x20) 5" using assms by (simp add: serial_ready_def bit_simps)
    then show ?thesis by auto
  qed
  have p: "SERIAL_PORT = 0x3F8" "SERIAL_PORT + 5 = 0x3FD" by (simp_all add: SERIAL_PORT_def)
  have "pio_read 0x3FD 1 s = Some (ucast (io_port s 0x3FD), s)"
    using serial_ports(1) [of s] by (simp add: pio_read_def len_ok_def read_io_port_def in_ports_def)
  then have "serial_idle s = Some (True, s)" using b by (simp add: serial_idle_def p)
  then have "serial_wait s = Some s" by (simp add: serial_wait.simps)
  moreover have "out_byte 0x3F8 ch s = Some (s\<lparr>io_port := (io_port s)(0x3F8 := ch), serial_out := serial_out s @ [ch]\<rparr>)"
    using serial_ports(2) [of "s\<lparr>io_port := (io_port s)(0x3F8 := ch)\<rparr>"]
    by (simp add: out_byte_def pio_write_def len_ok_def write_io_port_def in_ports_def)
  ultimately show ?thesis by (simp add: serial_printc_def p)
qed

lemma ram_ports: "ram (s\<lparr>io_port := p, serial_out := x\<rparr>) sreg a n = ram s sreg a n"
  by (simp add: ram_def lram_def lin_def)

lemma print_loop:
  assumes "serial_ready s" "\<forall>i < k. ram s SREG_DS (buf + of_nat i) 1"
  shows "\<exists>p. foldM (\<lambda>i s. do { c \<leftarrow> vaddr_read s (buf + of_nat i) SREG_DS 1; serial_printc (ucast c) s }) [0..<k] s =
    Some (s\<lparr>io_port := p, serial_out := serial_out s @ map (\<lambda>i. hw_mem s (lin s SREG_DS (buf + of_nat i))) [0..<k]\<rparr>) \<and>
    p 0x3FD = io_port s 0x3FD"
  using assms(2)
proof (induction k)
  case (Suc k)
  then obtain p where IH: "foldM (\<lambda>i s. do { c \<leftarrow> vaddr_read s (buf + of_nat i) SREG_DS 1; serial_printc (ucast c) s }) [0..<k] s =
      Some (s\<lparr>io_port := p, serial_out := serial_out s @ map (\<lambda>i. hw_mem s (lin s SREG_DS (buf + of_nat i))) [0..<k]\<rparr>)"
    "p 0x3FD = io_port s 0x3FD" by auto
  let ?t = "s\<lparr>io_port := p, serial_out := serial_out s @ map (\<lambda>i. hw_mem s (lin s SREG_DS (buf + of_nat i))) [0..<k]\<rparr>"
  have "ram ?t SREG_DS (buf + of_nat k) 1" unfolding ram_ports using Suc.prems by blast
  from vaddr_read_ram [OF this]
  have r: "vaddr_read ?t (buf + of_nat k) SREG_DS 1 = Some (ucast (hw_mem s (lin s SREG_DS (buf + of_nat k))))"
    by (simp add: lin_def)
  have "serial_ready ?t" using assms(1) IH(2) by (simp add: serial_ready_def)
  note w = serial_printc_ready [OF this]
  show ?case
  proof (rule exI [of _ "p(0x3F8 := hw_mem s (lin s SREG_DS (buf + of_nat k)))"], rule conjI)
    show "foldM (\<lambda>i s. do { c \<leftarrow> vaddr_read s (buf + of_nat i) SREG_DS 1; serial_printc (ucast c) s }) [0..<Suc k] s =
      Some (s\<lparr>io_port := p(0x3F8 := hw_mem s (lin s SREG_DS (buf + of_nat k))),
        serial_out := serial_out s @ map (\<lambda>i. hw_mem s (lin s SREG_DS (buf + of_nat i))) [0..<Suc k]\<rparr>)"
      by (simp only: upt_Suc foldM_append foldM.simps IH(1) r w bind.bind_lunit le0 if_True u8_via_u32) simp
  qed (use IH(2) in simp)
qed (intro exI [of _ "io_port s"], simp)

section \<open>Names and descriptors\<close>

lemma find_file_Some: "find_file fs i n = Some k \<Longrightarrow> \<exists>j < length fs. k = i + j \<and> fname (fs ! j) = n"
proof (induction fs i n rule: find_file.induct)
  case (2 f fs i n)
  show ?case
  proof (cases "fname f = n")
    case False
    then obtain j where "j < length fs" "k = Suc i + j" "fname (fs ! j) = n" using 2 by auto
    then show ?thesis by (intro exI [of _ "Suc j"]) simp
  qed (use 2 in \<open>auto intro: exI [of _ 0]\<close>)
qed simp

lemma find_file_None: "find_file fs i n = None \<longleftrightarrow> n \<notin> fname ` set fs"
  by (induction fs i n rule: find_file.induct) auto

lemma find_fd_None: "find_fd ds fs = None \<longleftrightarrow> (\<forall>d \<in> set ds. used (fs d))"
  by (induction ds) auto

lemma find_fd_Some:
  "sorted ds \<Longrightarrow> find_fd ds fs = Some d \<Longrightarrow> d \<in> set ds \<and> \<not> used (fs d) \<and> (\<forall>c \<in> set ds. c < d \<longrightarrow> used (fs c))"
  by (induction ds) (auto split: if_splits)

section \<open>The properties\<close>

text \<open>C22: a read delivers the bytes of the file at its offset from the disk image, as many as asked for and there
  are; two reads one after the other deliver what one read of both lengths would: the same bytes, and the
  same offset.\<close>

theorem fs_read_split:
  assumes r: "readable fd fs s" and l: "unat (foffset (fs (nat fd))) + (unat len1 + unat len2) < 2 ^ 32"
    and b: "buffer s buf (avail fd fs (len1 + len2)) p"
  shows "\<exists>n1 n2 fs1 s1 fs2 s2.
    fs_read fd buf len1 (fs, s) = Inr (n1, fs1, s1) \<and>
    fs_read fd (buf + n1) len2 (fs1, s1) = Inr (n2, fs2, s2) \<and>
    fs_read fd buf (len1 + len2) (fs, s) = Inr (n1 + n2, fs2, s2) \<and>
    unat n1 = min (unat len1) (unat (fsize (info_of fd fs)) - unat (foffset (fs (nat fd)))) \<and>
    unat (n1 + n2) = min (unat len1 + unat len2) (unat (fsize (info_of fd fs)) - unat (foffset (fs (nat fd)))) \<and>
    s2 = fill_buffer p (take (unat (n1 + n2))
      (drop (unat (disk_offset (info_of fd fs)) + unat (foffset (fs (nat fd)))) (disk_data (ide s)))) s"
proof -
  let ?n = "avail fd fs (len1 + len2)" and ?n1 = "avail fd fs len1"
  let ?f1 = "read_fs fd len1 fs" and ?B = "file_bytes fd fs s"
  let ?s1 = "fill_buffer p (take ?n1 ?B) s"
  define n2 where "n2 = avail fd ?f1 len2"
  have ll: "unat len1 + unat len2 < 2 ^ 32" using l by simp
  have n: "?n = ?n1 + n2" using avail_split [OF r ll] by (simp add: n2_def)
  have bn: "buffer s buf (?n1 + n2) p" using b by (simp only: n)
  have pn: "unat p + (?n1 + n2) < 2 ^ 32" using bn by (simp add: buffer_def)
  have len: "length (take ?n1 ?B) = ?n1" "length (take n2 (drop ?n1 ?B)) = n2"
    using length_file_bytes [OF r, of "len1 + len2"] n by simp_all
  have rr: "fd_ok fd fs" "foffset (fs (nat fd)) \<le> fsize (info_of fd fs)" using r by (simp_all add: readable_def)
  have "fs_read fd buf len1 (fs, s) = Inr (of_nat ?n1, ?f1, ?s1)"
    using l by (intro fs_read_readable [OF r _ buffer_le [OF bn]]) simp
  moreover have "fs_read fd (buf + of_nat ?n1) len2 (?f1, ?s1) =
      Inr (of_nat n2, read_fs fd len2 ?f1, fill_buffer (p + of_nat ?n1) (take n2 (drop ?n1 ?B)) ?s1)"
    using fs_read_readable [OF readable_read(1) [OF r, of len1 p "take ?n1 ?B"], of len2 "buf + of_nat ?n1" "p + of_nat ?n1"]
      buffer_rest [OF bn len(1)] l
    by (simp add: n2_def readable_read(2) [OF r] read_fs_fields(3) [OF rr]) (simp add: avail_def)
  moreover have "fs_read fd buf (len1 + len2) (fs, s) =
      Inr (of_nat ?n, read_fs fd (len1 + len2) fs, fill_buffer p (take ?n ?B) s)"
    using l ll by (intro fs_read_readable [OF r _ b]) (simp add: unat_word_ariths)
  moreover have "fill_buffer (p + of_nat ?n1) (take n2 (drop ?n1 ?B)) ?s1 = fill_buffer p (take ?n ?B) s"
    unfolding n take_add using fill_buffer_append [of p "take ?n1 ?B" "take n2 (drop ?n1 ?B)" s] pn by (simp only: len)
  moreover have "read_fs fd len2 ?f1 = read_fs fd (len1 + len2) fs"
    using n by (simp add: read_fs_def [of _ len2] n2_def) (simp add: read_fs_def add.assoc n2_def)
  moreover have "(of_nat ?n1 :: u32) + of_nat n2 = of_nat ?n" by (simp add: n)
  moreover have "unat (of_nat ?n :: u32) = ?n"
    using pn unfolding n [symmetric] by (simp add: unat_of_nat take_bit_eq_mod)
  moreover have "?n = min (unat len1 + unat len2) (unat (fsize (info_of fd fs)) - unat (foffset (fs (nat fd))))"
    using ll by (simp add: avail_def unat_word_ariths)
  moreover have "unat (of_nat ?n1 :: u32) = min (unat len1) (unat (fsize (info_of fd fs)) - unat (foffset (fs (nat fd))))"
    using pn by (simp add: unat_of_nat take_bit_eq_mod avail_def)
  ultimately show ?thesis unfolding file_bytes_def by metis
qed

text \<open>A machine without segments and pages, with a disk image of ones, and the file \<open>pat.mkf\<close> open.\<close>

definition disk_machine :: machine where
  "disk_machine = machine0\<lparr>ide := (ide machine0)\<lparr>disk_data := replicate 0x2000000 1\<rparr>\<rparr>"

definition pat_files :: files where
  "pat_files = files0(3 := \<lparr>used = True, findex = 17, foffset = 8480\<rparr>)"

lemma buffer_plain:
  assumes "\<not> cr0_pe (cr0 s)" "\<not> cr0_pg (cr0 s)" "maps (mmio s) = []" "unat p + n < 0x8000000"
  shows "buffer s p n p"
proof -
  have "p + of_nat i < QDISK_BASE" if "i < n" for i
    using assms(4) that by (simp add: word_less_nat_alt unat_add_nat QDISK_BASE_def)
  then show ?thesis
    using assms by (simp add: buffer_def to_laddr_def to_paddr_def is_mmio_def)
qed

theorem fs_read_split_witness:
  "\<exists>fs1 s1 fs2 s2. fs_read 3 0x1000 5 (pat_files, disk_machine) = Inr (5, fs1, s1) \<and>
     fs_read 3 0x1005 100 (fs1, s1) = Inr (3, fs2, s2) \<and> hw_mem s2 0x1007 = 1 \<and> hw_mem s2 0x1008 = 0"
proof -
  have f: "pat_files 3 = \<lparr>used = True, findex = 17, foffset = 8480\<rparr>" by (simp add: pat_files_def)
  have i: "info_of 3 pat_files = fi ''pat.mkf'' 8488 20506225" by (simp add: info_of_def f file_table_def)
  have d: "disk_data (ide disk_machine) = replicate 0x2000000 1" by (simp add: disk_machine_def del: replicate.simps)
  have r: "readable 3 pat_files disk_machine"
    by (simp add: readable_def i fd_ok_def f d NR_FILES_def fi_def del: replicate.simps)
  have "buffer disk_machine 0x1000 (avail 3 pat_files (5 + 100)) 0x1000"
    by (rule buffer_plain) (simp_all add: disk_machine_def machine0_def cr0_pe_def cr0_pg_def avail_def i f fi_def del: replicate.simps)
  from fs_read_split [OF r _ this] obtain n1 n2 fs1 s1 fs2 s2 where
    e: "fs_read 3 0x1000 5 (pat_files, disk_machine) = Inr (n1, fs1, s1)"
      "fs_read 3 (0x1000 + n1) 100 (fs1, s1) = Inr (n2, fs2, s2)"
    and n: "unat n1 = 5" "unat (n1 + n2) = 8"
    and s2: "s2 = fill_buffer 0x1000 (take (unat (n1 + n2)) (drop 20514705 (replicate 0x2000000 1))) disk_machine"
    by (auto simp: f i fi_def d simp del: replicate.simps)
  have w: "n1 = 5" "n1 + n2 = 8" using n by (simp_all add: word_unat_eq_iff)
  then have "n2 = 3" by simp
  moreover have "hw_mem s2 0x1007 = 1" "hw_mem s2 0x1008 = 0"
    unfolding s2 w(2) by (simp_all add: fill_buffer_def disk_machine_def machine0_def del: replicate.simps)
  ultimately show ?thesis using e w by auto
qed

text \<open>C23: \<open>fs_lseek\<close> compares the target with the place of the file on the disk instead of its size, and as unsigned
  numbers: a target at or before that place is taken as it is, also when it lies behind the end of the file,
  and every other one, also a negative one, becomes the end. After a seek behind the end a read of less
  than 2 GB asks the disk for more bytes than that, whatever the caller's buffer holds.\<close>

lemma fs_lseek_set:
  assumes "fd_ok fd fs"
  shows "fs_lseek fd off SEEK_SET fs =
    (let new = check_boundary (info_of fd fs) off in Inr (new, fs(nat fd := (fs (nat fd))\<lparr>foffset := new\<rparr>)))"
proof -
  have "\<not> fd \<le> 2" "is_fd fd" "used (fs (nat fd))" "findex (fs (nat fd)) < NR_FILES"
    using assms by (simp_all add: fd_ok_def is_fd_def NR_FILES_def)
  then show ?thesis
    by (simp add: fs_lseek_def Let_def info_of_def bind_result_def SEEK_SET_def SEEK_CUR_def SEEK_END_def)
qed

lemma small_not_negative: "unat w < 2 ^ 31 \<Longrightarrow> \<not> sint w < 0" for w :: u32
proof -
  assume "unat w < 2 ^ 31"
  then have "\<not> bit (unat w) 31" by (simp add: bit_iff_odd)
  then have "\<not> bit w 31" by (simp add: bit_unsigned_iff)
  then show ?thesis using bit_last_iff [of w] by simp
qed

lemma check_boundary_eq:
  assumes "i < NR_FILES" "info = file_table ! i"
  shows "check_boundary info off = (if off \<le> disk_offset info then off else fsize info)"
proof -
  have "unat (disk_offset info) < 0x2000000" using file_table_bounds [OF assms(1)] assms(2) by simp
  then have "\<not> sint off < 0" if "off \<le> disk_offset info"
    using that by (intro small_not_negative) (simp add: word_le_nat_alt)
  then show ?thesis by (auto simp: check_boundary_def)
qed

theorem fs_lseek_past_end:
  fixes off len :: u32
  assumes "fd_ok fd fs" "info = info_of fd fs"
  shows "\<exists>pos fs'. fs_lseek fd off SEEK_SET fs = Inr (pos, fs') \<and>
    pos = (if off \<le> disk_offset info then off else fsize info) \<and>
    (fsize info < off \<and> off \<le> disk_offset info \<and> unat len < 0x80000000 \<longrightarrow>
       fs_read fd buf len (fs', s) =
         bind_result (fault (ide_read buf (disk_offset info + off) (fsize info - off) s))
           (\<lambda>s. Inr (fsize info - off, fs(nat fd := (fs (nat fd))\<lparr>foffset := fsize info\<rparr>), s)) \<and>
       0x80000000 < unat (fsize info - off))"
proof -
  let ?pos = "if off \<le> disk_offset info then off else fsize info"
  let ?fs = "fs(nat fd := (fs (nat fd))\<lparr>foffset := ?pos\<rparr>)"
  have ix: "findex (fs (nat fd)) < NR_FILES" using assms(1) by (simp add: fd_ok_def)
  note tb = file_table_bounds [OF ix]
  have sk: "fs_lseek fd off SEEK_SET fs = Inr (?pos, ?fs)"
    unfolding fs_lseek_set [OF assms(1)] Let_def
    using check_boundary_eq [OF ix, of info off] assms(2) by (simp add: info_of_def)
  have "fs_read fd buf len (?fs, s) =
       bind_result (fault (ide_read buf (disk_offset info + off) (fsize info - off) s))
         (\<lambda>s. Inr (fsize info - off, fs(nat fd := (fs (nat fd))\<lparr>foffset := fsize info\<rparr>), s)) \<and>
     0x80000000 < unat (fsize info - off)"
    if h: "fsize info < off" "off \<le> disk_offset info" "unat len < 0x80000000"
  proof -
    have i: "info_of fd ?fs = info" "fd_ok fd ?fs" "foffset (?fs (nat fd)) = off"
      using assms h(2) by (simp_all add: info_of_def fd_ok_def)
    have u: "unat off < 0x2000000" "unat (fsize info) < unat off"
      using h(1,2) tb assms(2) by (auto simp: info_of_def word_le_nat_alt word_less_nat_alt)
    then have big: "0x80000000 < unat (fsize info - off)" by (simp add: unat_sub_if')
    have "unat (off + len) = unat off + unat len" using u(1) h(3) by (simp add: unat_word_ariths)
    then have c: "off + len > fsize info" using u(2) by (simp add: word_less_nat_alt)
    have z: "\<not> fsize info - off \<le> 0" using big by (auto simp: word_le_nat_alt)
    show ?thesis
      unfolding fs_read_open [OF i(2)] Let_def i(1,3) using c z big by simp
  qed
  with sk show ?thesis by blast
qed

theorem fs_lseek_past_end_witness:
  "\<exists>pos fs'. fs_lseek 3 0x100000 SEEK_SET pat_files = Inr (pos, fs') \<and> pos = 0x100000 \<and>
     fs_read 3 0x1000 4 (fs', disk_machine) =
       bind_result (fault (ide_read 0x1000 (20506225 + 0x100000) (8488 - 0x100000) disk_machine))
         (\<lambda>s. Inr (8488 - 0x100000, pat_files(3 := (pat_files 3)\<lparr>foffset := 8488\<rparr>), s))"
proof -
  have f: "pat_files 3 = \<lparr>used = True, findex = 17, foffset = 8480\<rparr>" by (simp add: pat_files_def)
  have i: "info_of 3 pat_files = fi ''pat.mkf'' 8488 20506225" by (simp add: info_of_def f file_table_def)
  have "fd_ok 3 pat_files" by (simp add: fd_ok_def f NR_FILES_def)
  from fs_lseek_past_end [OF this refl, of "0x100000" 4 "0x1000" disk_machine] show ?thesis
    by (auto simp: i fi_def)
qed

text \<open>once the serial line is ready, writing a buffer of the process to the standard output sends exactly its
  bytes, in order, and touches nothing but the ports.\<close>

theorem console_write:
  assumes "fd \<le> 2" "serial_ready s" "\<forall>i < unat len. ram s SREG_DS (buf + of_nat i) 1"
  shows "\<exists>p. fs_write fd buf len (fs, s) = Inr (len, fs, s\<lparr>io_port := p,
    serial_out := serial_out s @ map (\<lambda>i. hw_mem s (lin s SREG_DS (buf + of_nat i))) [0..<unat len]\<rparr>)"
  using print_loop [OF assms(2,3)] assms(1) by (auto simp: fs_write_def bind_result_def fault_def)

definition console_machine :: machine where
  "console_machine = machine0\<lparr>io_port := (\<lambda>_. 0)(0x3FD := 0x20), hw_mem := (\<lambda>_. 0)(0x1000 := 72, 0x1001 := 105)\<rparr>"

theorem console_write_witness:
  "\<exists>s. fs_write 1 0x1000 2 (files0, console_machine) = Inr (2, files0, s) \<and> serial_out s = [72, 105]"
proof -
  have "serial_ready console_machine" by (simp add: serial_ready_def console_machine_def)
  moreover have "ram console_machine SREG_DS a 1" if "unat a + 1 < 0x8000000" for a
    using that by (auto simp: ram_def lram_def console_machine_def machine0_def lin_def cr0_pe_def cr0_pg_def is_mmio_def
        len_ok_def QDISK_BASE_def word_less_nat_alt)
  then have "\<forall>i < unat (2 :: u32). ram console_machine SREG_DS (0x1000 + of_nat i) 1"
    by (auto simp: unat_add_nat)
  ultimately obtain p where "fs_write 1 0x1000 2 (files0, console_machine) = Inr (2, files0, console_machine\<lparr>io_port := p,
      serial_out := serial_out console_machine @
        map (\<lambda>i. hw_mem console_machine (lin console_machine SREG_DS (0x1000 + of_nat i))) [0..<unat (2 :: u32)]\<rparr>)"
    using console_write [of 1 console_machine 2 "0x1000" files0] by auto
  moreover have "[0..<unat (2 :: u32)] = [0, 1]" by (simp add: upt_rec)
  ultimately show ?thesis
    by (auto simp: console_machine_def machine0_def lin_def cr0_pe_def)
qed

text \<open>\<open>fs_open\<close> finds a file by its name in any case, takes the lowest free descriptor and starts at offset 0;
  without a free descriptor it returns -1, for an unknown name it stops; \<open>fs_close\<close> frees the descriptor
  again. No other descriptor changes.\<close>

theorem fs_open_close:
  assumes "length path < 100" "n = map tolower path"
  shows "if n \<notin> fname ` set file_table then fs_open path fs = Inl Panic
    else if \<forall>d. 3 \<le> d \<and> d < 29 \<longrightarrow> used (fs d) then fs_open path fs = Inr (-1, fs)
    else \<exists>fd i. 3 \<le> fd \<and> fd < 29 \<and> \<not> used (fs fd) \<and> (\<forall>d. 3 \<le> d \<and> d < fd \<longrightarrow> used (fs d)) \<and>
      i < NR_FILES \<and> fname (file_table ! i) = n \<and>
      fs_open path fs = Inr (int fd, fs(fd := \<lparr>used = True, findex = i, foffset = 0\<rparr>)) \<and>
      fs_close (int fd) (fs(fd := \<lparr>used = True, findex = i, foffset = 0\<rparr>)) =
        Inr (0, fs(fd := \<lparr>used = False, findex = i, foffset = 0\<rparr>))"
proof (cases "find_file file_table 0 n")
  case None
  then show ?thesis using assms find_file_None [of file_table 0 n] by (simp add: fs_open_def)
next
  case (Some i)
  have "length file_table = NR_FILES" by (simp add: file_table_def NR_FILES_def)
  with Some have i: "i < NR_FILES" "fname (file_table ! i) = n" using find_file_Some [OF Some] by auto
  have n: "n \<in> fname ` set file_table" using Some find_file_None [of file_table 0 n] by auto
  let ?ds = "[3..<NR_FILES + 3]"
  have ds: "d \<in> set ?ds \<longleftrightarrow> 3 \<le> d \<and> d < 29" for d
    by (simp only: set_upt NR_FILES_def atLeastLessThan_iff) simp
  show ?thesis
  proof (cases "find_fd ?ds fs")
    case None
    then have "\<forall>d. 3 \<le> d \<and> d < 29 \<longrightarrow> used (fs d)" using find_fd_None [of ?ds fs] ds by blast
    then show ?thesis using None Some n assms by (simp add: fs_open_def del: upt_Suc)
  next
    case (Some fd)
    have fd: "3 \<le> fd" "fd < 29" "\<not> used (fs fd)" "\<forall>d. 3 \<le> d \<and> d < fd \<longrightarrow> used (fs d)"
      using find_fd_Some [OF sorted_upt Some] ds by (auto dest: less_trans)
    have o: "fs_open path fs = Inr (int fd, fs(fd := \<lparr>used = True, findex = i, foffset = 0\<rparr>))"
      using Some \<open>find_file file_table 0 n = Some i\<close> assms by (simp add: fs_open_def del: upt_Suc)
    have c: "fs_close (int fd) (fs(fd := \<lparr>used = True, findex = i, foffset = 0\<rparr>)) =
        Inr (0, fs(fd := \<lparr>used = False, findex = i, foffset = 0\<rparr>))"
      using fd by (simp add: fs_close_def is_fd_def NR_FILES_def)
    have "\<not> (\<forall>d. 3 \<le> d \<and> d < 29 \<longrightarrow> used (fs d))" using fd by blast
    then show ?thesis using n fd i o c by auto
  qed
qed

theorem fs_open_close_witness:
  "\<exists>fd i. fs_open ''PAT.MKF'' pat_files = Inr (int fd, pat_files(fd := \<lparr>used = True, findex = i, foffset = 0\<rparr>)) \<and> fd = 4"
proof -
  have t: "map tolower ''PAT.MKF'' = ''pat.mkf''" by code_simp
  have n: "''pat.mkf'' \<in> fname ` set file_table" by (simp add: file_table_def fi_def)
  have u: "used (pat_files d) \<longleftrightarrow> d = 3" for d by (simp add: pat_files_def files0_def)
  have e: "(\<forall>d. 3 \<le> d \<and> d < 29 \<longrightarrow> used (pat_files d)) = False" unfolding u by presburger
  have l: "length ''PAT.MKF'' < 100" by simp
  from fs_open_close [OF l t [symmetric], of pat_files] obtain fd i where
    "\<not> used (pat_files fd)" "\<forall>d. 3 \<le> d \<and> d < fd \<longrightarrow> used (pat_files d)" "3 \<le> fd"
    "fs_open ''PAT.MKF'' pat_files = Inr (int fd, pat_files(fd := \<lparr>used = True, findex = i, foffset = 0\<rparr>))"
    by (simp only: n e not_True_eq_False if_False) blast
  moreover from this have "fd = 4" unfolding u by (cases "fd \<le> 4") (auto dest: spec [of _ 4])
  ultimately show ?thesis by blast
qed

end
