(* ===== verification/Kernel_Disk_Correct.thy ===== *)
theory Kernel_Disk_Correct
  imports Kernel_Disk Kernel_Fs_Correct Interrupts
begin

text \<open>
  The driver on the emulator's disk controller: a sector read through the ports is the sector of the disk
  file, the cache of sectors returns its bytes, and reading a buffer through all of it gives what the disk
  window gives.
\<close>

section \<open>The ports of the disk\<close>

lemma ide_ports [simp]:
  "map_of pio_handler_table 0x1F0 = Some handler_ide" "map_of pio_handler_table 0x1F1 = Some handler_ide"
  "map_of pio_handler_table 0x1F2 = Some handler_ide" "map_of pio_handler_table 0x1F3 = Some handler_ide"
  "map_of pio_handler_table 0x1F4 = Some handler_ide" "map_of pio_handler_table 0x1F5 = Some handler_ide"
  "map_of pio_handler_table 0x1F6 = Some handler_ide" "map_of pio_handler_table 0x1F7 = Some handler_ide"
  by (simp_all add: pio_handler_table_def IDE_PORT_BASE_def)

lemma in_ports_ide: "n \<le> 4 \<Longrightarrow> p \<le> 0x1F7 \<Longrightarrow> in_ports p n"
  by (simp add: in_ports_def word_le_nat_alt)

lemma port_put1 [simp]: "mem_put m a (Suc 0) d = m(a := ucast d)" "mem_get m a (Suc 0) = ucast (m a)" for a :: u16
  by simp_all

lemma ide_out:
  assumes "byte_cnt (ide s) \<le> 512" "p \<in> {0x1F1, 0x1F2, 0x1F3, 0x1F4, 0x1F5, 0x1F6}"
  shows "out_byte p v s = Some (s\<lparr>io_port := (io_port s)(p := v)\<rparr>)"
  using assms
  by (auto simp: out_byte_def pio_write_def len_ok_def write_io_port_def in_ports_def pio_handle_def handler_ide_def
      IDE_PORT_BASE_def)

lemma ide_status: "byte_cnt (ide s) \<le> 512 \<Longrightarrow> in_byte 0x1F7 s = Some (io_port s 0x1F7, s)"
  by (simp add: in_byte_def pio_read_def len_ok_def read_io_port_def in_ports_def pio_handle_def handler_ide_def
      IDE_PORT_BASE_def)

definition idle :: "machine \<Rightarrow> bool" where
  "idle s \<longleftrightarrow> byte_cnt (ide s) \<le> 512 \<and> io_port s 0x1F7 = 0x40"

lemma waitdisk_idle: "idle s \<Longrightarrow> waitdisk s = Some s"
  by (subst waitdisk.simps) (simp add: idle_def IDE_PORT_BASE_def ide_status)

definition lba_ports :: "u32 \<Rightarrow> (u16 \<Rightarrow> u8) \<Rightarrow> u16 \<Rightarrow> u8" where
  "lba_ports sec q = q(0x1F1 := 0, 0x1F2 := 1, 0x1F3 := ucast (sec AND 0xFF), 0x1F4 := ucast (drop_bit 8 sec AND 0xFF),
     0x1F5 := ucast (drop_bit 16 sec AND 0xFF), 0x1F6 := ucast (0xE0 OR (drop_bit 24 sec AND 0xFF)))"

lemma ide_prepare_idle:
  "idle s \<Longrightarrow> ide_prepare sec s = Some (s\<lparr>io_port := lba_ports sec (io_port s)\<rparr>)"
  by (simp add: ide_prepare_def waitdisk_idle IDE_PORT_BASE_def ide_out idle_def lba_ports_def)

lemma lba_word:
  assumes "unat sec < 0x400000"
  shows "push_bit 24 (ucast (ucast (0xE0 OR (drop_bit 24 sec AND 0xFF)) :: u8) AND 0x1f) OR
     push_bit 16 (ucast (ucast (drop_bit 16 sec AND 0xFF) :: u8)) OR
     push_bit 8 (ucast (ucast (drop_bit 8 sec AND 0xFF) :: u8)) OR ucast (ucast (sec AND 0xFF) :: u8) = (sec :: u32)"
proof -
  have d: "drop_bit k sec = 0" if "22 \<le> k" for k
  proof -
    have "unat sec < 2 ^ k"
      using assms power_increasing [OF that, of "2::nat"] by simp
    then have "unat (drop_bit k sec) = 0" by (simp only: unat_drop_bit_eq, simp only: drop_bit_eq_div div_less)
    then show ?thesis by (simp only: unsigned_eq_0_iff)
  qed
  have t: "drop_bit 24 sec = 0" by (rule d) simp
  have b: "\<not> bit sec i" if "22 \<le> i" for i
    using d [OF that] bit_drop_bit_eq [of i sec] by (auto simp: fun_eq_iff dest: spec [of _ 0])
  have m: "(0xFF :: u32) = mask 8" by (simp add: mask_eq_exp_minus_1)
  show ?thesis
    unfolding t m
  proof (rule bit_word_eqI)
    fix i :: nat
    consider "i < 8" | "8 \<le> i" "i < 16" | "16 \<le> i" "i < 22" | "22 \<le> i" by linarith
    then show "bit (push_bit 24 (ucast (ucast (0xE0 OR (0 AND mask 8) :: u32) :: u8) AND 0x1f) OR
       push_bit 16 (ucast (ucast (drop_bit 16 sec AND mask 8) :: u8)) OR
       push_bit 8 (ucast (ucast (drop_bit 8 sec AND mask 8) :: u8)) OR ucast (ucast (sec AND mask 8) :: u8) :: u32) i = bit sec i"
      by cases (auto simp: bit_simps b)
  qed
qed

section \<open>Reading a sector\<close>

text \<open>What the driver leaves alone: everything but the ports, the controller and the interrupt lines.\<close>

definition same_mem :: "machine \<Rightarrow> machine \<Rightarrow> bool" where
  "same_mem s t \<longleftrightarrow> (\<exists>q e n b. t = s\<lparr>io_port := q, ide := e, i8259_intr_no := n, intr := b\<rparr> \<and>
     disk_data e = disk_data (ide s))"

lemma same_memI:
  "t = s\<lparr>io_port := q, ide := e, i8259_intr_no := n, intr := b\<rparr> \<Longrightarrow> disk_data e = disk_data (ide s) \<Longrightarrow> same_mem s t"
  unfolding same_mem_def by blast

lemma same_mem_refl [simp]: "same_mem s s"
  by (rule same_memI [where q = "io_port s" and e = "ide s" and n = "i8259_intr_no s" and b = "intr s"]) simp_all

lemma same_mem_trans: "same_mem s t \<Longrightarrow> same_mem t u \<Longrightarrow> same_mem s u"
  unfolding same_mem_def by force

lemma same_mem_fields:
  assumes "same_mem s t"
  shows "disk_data (ide t) = disk_data (ide s)" "eflags t = eflags s" "hw_mem t = hw_mem s" "mmio t = mmio s"
  using assms by (auto simp: same_mem_def)

text \<open>The interrupt lines of the emulator are at most 14, so a request of the disk is the one latched.\<close>

definition lines_ok :: "machine \<Rightarrow> bool" where
  "lines_ok s \<longleftrightarrow> IF (eflags s) \<and> pic_ok s \<and> (case pic_latched s of None \<Rightarrow> True | Some j \<Rightarrow> j \<le> 14)"

definition sector_pos :: "machine \<Rightarrow> u32 \<Rightarrow> nat" where "sector_pos s sec = min (512 * unat sec) (length (disk_data (ide s)))"

lemma read_port1:
  "p < 0x200 \<Longrightarrow> read_io_port s p 1 = Some (ucast (io_port s p))"
  "p < 0x200 \<Longrightarrow> write_io_port p 1 d s = Some (s\<lparr>io_port := (io_port s)(p := ucast d)\<rparr>)"
  by (simp_all add: read_io_port_def write_io_port_def in_ports_def word_less_nat_alt)

lemma ide_command_read:
  assumes c: "io_port s 0x1F7 = 0x20" and sec: "unat sec < 0x400000"
    and r: "push_bit 24 (ucast (io_port s 0x1F6) AND 0x1f) OR push_bit 16 (ucast (io_port s 0x1F5)) OR
      push_bit 8 (ucast (io_port s 0x1F4)) OR ucast (io_port s 0x1F3) = sec"
  shows "ide_command s = Some (i8259_raise_intr IDE_IRQ (s\<lparr>ide :=
      (ide s)\<lparr>sector := sec, disk_idx := push_bit 9 sec, disk_pos := 512 * unat sec, byte_cnt := 0, ide_write := False\<rparr>,
      io_port := (io_port s)(0x1F7 := 0x40)\<rparr>))"
proof -
  have p: "unat (push_bit 9 sec) = 512 * unat sec"
    using sec by (simp add: push_bit_eq_mult unat_word_ariths)
  have "unat (push_bit 9 sec) < 2 ^ 31" using sec by (simp add: p)
  then have b: "\<not> bit (push_bit 9 sec) 31"
    using bit_unsigned_iff [of "push_bit 9 sec" 31, where 'a = nat] by (auto simp: bit_iff_odd div_less)
  have ports: "(0x1F3 :: u16) < 0x200" "(0x1F4 :: u16) < 0x200" "(0x1F5 :: u16) < 0x200" "(0x1F6 :: u16) < 0x200"
    "(0x1F7 :: u16) < 0x200" by simp_all
  have ide: "IDE_PORT_BASE + 3 = 0x1F3" "IDE_PORT_BASE + 4 = 0x1F4" "IDE_PORT_BASE + 5 = 0x1F5"
    "IDE_PORT_BASE + 6 = 0x1F6" "IDE_PORT_BASE + 7 = 0x1F7" by (simp_all add: IDE_PORT_BASE_def)
  have f: "disk_fseek (push_bit 9 sec) t = t\<lparr>ide := (ide t)\<lparr>disk_pos := 512 * unat sec\<rparr>\<rparr>" for t
    by (simp only: disk_fseek_def b p if_False)
  show ?thesis
    unfolding ide_command_def ide read_port1 [OF ports(1)] read_port1 [OF ports(2)] read_port1 [OF ports(3)]
      read_port1 [OF ports(4)] read_port1 [OF ports(5)] bind.bind_lunit r Let_def c
    by (simp add: f read_port1 [OF ports(5)])
qed

lemma issue_read_idle:
  assumes i: "idle s" and sec: "unat sec < 0x400000"
  shows "ide_prepare sec s \<bind> issue_read = Some (i8259_raise_intr IDE_IRQ
    (s\<lparr>ide := (ide s)\<lparr>sector := sec, disk_idx := push_bit 9 sec, disk_pos := 512 * unat sec, byte_cnt := 0, ide_write := False\<rparr>,
       io_port := (lba_ports sec (io_port s))(0x1F7 := 0x40)\<rparr>))"
proof -
  let ?s = "s\<lparr>io_port := (lba_ports sec (io_port s))(0x1F7 := 0x20)\<rparr>"
  have "ide_prepare sec s \<bind> issue_read = ide_command ?s"
    using i by (simp add: ide_prepare_idle issue_read_def out_byte_def pio_write_def len_ok_def write_io_port_def
        in_ports_def pio_handle_def handler_ide_def IDE_PORT_BASE_def idle_def)
  also have "\<dots> = Some (i8259_raise_intr IDE_IRQ (?s\<lparr>ide :=
     (ide ?s)\<lparr>sector := sec, disk_idx := push_bit 9 sec, disk_pos := 512 * unat sec, byte_cnt := 0, ide_write := False\<rparr>,
     io_port := (io_port ?s)(0x1F7 := 0x40)\<rparr>))"
    by (rule ide_command_read [OF _ sec]) (use lba_word [OF sec] in \<open>simp_all only: lba_ports_def, simp_all\<close>)
  also have "\<dots> = Some (i8259_raise_intr IDE_IRQ
    (s\<lparr>ide := (ide s)\<lparr>sector := sec, disk_idx := push_bit 9 sec, disk_pos := 512 * unat sec, byte_cnt := 0, ide_write := False\<rparr>,
       io_port := (lba_ports sec (io_port s))(0x1F7 := 0x40)\<rparr>))"
    by simp
  finally show ?thesis .
qed

section \<open>The interrupt\<close>

definition disk_line :: "handler_code \<Rightarrow> irq_state \<Rightarrow> bool" where
  "disk_line h st \<longleftrightarrow> awb h \<noteq> aint h \<and>
     (\<exists>p. handles st 14 = Some p \<and> routine (handle_pool st p) = aint h \<and> next_handler (handle_pool st p) = None)"

lemma raise_disk:
  assumes "pic_ok s" "case pic_latched s of None \<Rightarrow> True | Some j \<Rightarrow> j \<le> 14"
  shows "i8259_intr_no (i8259_raise_intr IDE_IRQ s) = 46" "intr (i8259_raise_intr IDE_IRQ s) = 1"
proof -
  have l: "legal_irq 14" by (simp add: legal_irq_def)
  have "unat (i8259_intr_no (i8259_raise_intr (of_nat 14) s)) = 46"
    unfolding raise_intr_no(1) [OF assms(1) l] using assms(2) by (auto split: option.splits)
  then have "i8259_intr_no (i8259_raise_intr (of_nat 14) s) = 46" by (simp add: word_unat_eq_iff)
  then show "i8259_intr_no (i8259_raise_intr IDE_IRQ s) = 46" by (simp add: IDE_IRQ_def)
  show "intr (i8259_raise_intr IDE_IRQ s) = 1" by (simp add: i8259_raise_intr_def Let_def)
qed

lemma wait_disk:
  assumes h: "disk_line h st" and no: "i8259_intr_no s = 46" "intr s = 1" "IF (eflags s)" and d: "has_ide_intr d = 0"
  shows "wait_ide_intr h env k (st, d, s) = Some (st, d, i8259_ack_intr s)"
proof -
  have n: "i8259_query_intr_no s = 46" "irq_id 46 = 1014"
    by (simp_all add: i8259_query_intr_no_def no irq_id_def)
  have "irq_handle (call_handler h) Inr 1014 (st, d, i8259_ack_intr s) =
      Some (Inr (st, d\<lparr>has_ide_intr := 1\<rparr>, i8259_ack_intr s))"
    using h by (auto simp: irq_handle_def NR_HARD_INTR_def Let_def run_handlers.simps disk_line_def call_handler_def
        ide_intr_def)
  then have "wait_intr h (env k) (st, d, s) = Some (st, d\<lparr>has_ide_intr := 1\<rparr>, i8259_ack_intr s)"
    by (simp add: wait_intr_def take_intr_def no n I8259_NO_INTR_def Let_def)
  moreover have "d\<lparr>has_ide_intr := 0\<rparr> = d" using d by simp
  ultimately show ?thesis
    by (subst wait_ide_intr.simps) (simp add: d wait_ide_intr.simps [of _ _ "k + 1"] wait_ide_intr.simps [of _ _ "Suc k"]
        clear_ide_intr_def)
qed

section \<open>The transfer\<close>

text \<open>What \<open>fread\<close> delivers where the file ends is left open.\<close>

definition holds_sector :: "machine \<Rightarrow> u32 \<Rightarrow> u8 list \<Rightarrow> nat \<Rightarrow> bool" where
  "holds_sector s sec bs n \<longleftrightarrow> length bs = 512 \<and> (\<forall>j < n. 512 * unat sec + j < length (disk_data (ide s)) \<longrightarrow>
     bs ! j = disk_data (ide s) ! (512 * unat sec + j))"

lemma upt4: "[0..<4] = [0, 1, 2, 3 :: nat]"
  by (simp add: upt_rec eval_nat_numeral)

lemma word_of_bytes: "buf_word (fold (\<lambda>off bs. bs[4 * i + off := word_byte d off]) [0..<4] bs) i = d"
  if "4 * i + 3 < length bs"
proof -
  have "buf_word (fold (\<lambda>off bs. bs[4 * i + off := word_byte d off]) [0..<4] bs) i =
    ucast (word_byte d 0) OR push_bit 8 (ucast (word_byte d 1)) OR push_bit 16 (ucast (word_byte d 2)) OR
    push_bit 24 (ucast (word_byte d 3))"
    using that unfolding upt4 by (simp add: buf_word_def)
  also have "\<dots> = d"
  proof (rule bit_word_eqI)
    fix k :: nat assume "k < LENGTH(32)"
    then consider "k < 8" | "8 \<le> k" "k < 16" | "16 \<le> k" "k < 24" | "24 \<le> k" "k < 32" by fastforce
    then show "bit (ucast (word_byte d 0) OR push_bit 8 (ucast (word_byte d 1)) OR push_bit 16 (ucast (word_byte d 2)) OR
      push_bit 24 (ucast (word_byte d 3)) :: u32) k = bit d k"
      by cases (auto simp: word_byte_def bit_simps)
  qed
  finally show ?thesis .
qed

lemma word_byte_disk:
  "j < 4 \<Longrightarrow> word_byte (disk_word s pos 4) j = disk_byte s pos 4 j"
proof (rule bit_word_eqI)
  fix k :: nat assume j: "j < 4" and k: "k < LENGTH(8)"
  then consider "j = 0" | "j = 1" | "j = 2" | "j = 3" by fastforce
  then show "bit (word_byte (disk_word s pos 4) j) k = bit (disk_byte s pos 4 j) k"
    using k by cases (auto simp: word_byte_def disk_word_def bit_simps dest: bit_imp_le_length)
qed

text \<open>One word, at the \<open>i\<close>-th place of the sector.\<close>

definition reading :: "machine \<Rightarrow> u32 \<Rightarrow> nat \<Rightarrow> machine \<Rightarrow> bool" where
  "reading s sec i t \<longleftrightarrow> same_mem s t \<and> i8259_intr_no t = i8259_intr_no s \<and> intr t = intr s \<and>
     io_port t 0x1F7 = 0x40 \<and> \<not> ide_write (ide t) \<and> byte_cnt (ide t) = of_nat (4 * i) \<and>
     disk_pos (ide t) = min (512 * unat sec + 4 * i) (length (disk_data (ide s)))"

lemma in_long_ide:
  assumes w: "\<not> ide_write (ide s)" and c: "byte_cnt (ide s) = of_nat (4 * i)" "i < 128" and q: "io_port s 0x1F7 = 0x40"
  shows "\<exists>q. in_long 0x1F0 s = Some (disk_word s (disk_pos (ide s)) 4,
     s\<lparr>io_port := q, ide := (ide s)\<lparr>disk_pos := disk_pos (ide s) + min 4 (length (disk_data (ide s)) - disk_pos (ide s)),
        byte_cnt := of_nat (4 * (i + 1))\<rparr>\<rparr>) \<and> q 0x1F7 = 0x40"
proof -
  let ?d = "disk_word s (disk_pos (ide s)) 4"
  let ?e = "(ide s)\<lparr>disk_pos := disk_pos (ide s) + min 4 (length (disk_data (ide s)) - disk_pos (ide s))\<rparr>"
  let ?q = "mem_put (io_port s) 0x1F0 4 ?d"
  let ?t = "s\<lparr>ide := ?e, io_port := ?q\<rparr>"
  have q7: "?q 0x1F7 = 0x40" using q by (simp add: mem_put_apply)
  have g: "mem_get ?q 0x1F0 4 = ?d" by (simp add: mem_get_mem_put_same take_bit_word_eq_self)
  have b: "byte_cnt (ide s) \<le> 512" "byte_cnt (ide s) + 4 = of_nat (4 * (i + 1))"
    using c by (simp_all add: word_le_nat_alt unat_of_nat take_bit_eq_mod del: of_nat_mult)
  have "ide_count ?t = Some (?t\<lparr>ide := ?e\<lparr>byte_cnt := of_nat (4 * (i + 1))\<rparr>\<rparr>)"
    using q7 b(2) by (simp add: ide_count_def IDE_PORT_BASE_def read_port1 [simplified] fun_upd_idem Let_def)
  then have "in_long 0x1F0 s = Some (?d, ?t\<lparr>ide := ?e\<lparr>byte_cnt := of_nat (4 * (i + 1))\<rparr>\<rparr>)"
    using w b(1) g
    by (simp add: in_long_def pio_read_def len_ok_def pio_handle_def handler_ide_def IDE_PORT_BASE_def disk_fread4_def
        Let_def write_io_port_def read_io_port_def in_ports_def)
  then show ?thesis using q7 by (intro exI [of _ ?q]) simp
qed

lemma pos_step: "min b n + min 4 (n - min b n) = min (b + 4) n" for b n :: nat
  by (auto simp: min_def)

lemma read_word_step:
  assumes r: "reading s sec i t" and i: "i < 128" and h: "holds_sector s sec bs (4 * i)"
  shows "\<exists>bs' t'. read_word i (bs, t) = Some (bs', t') \<and> reading s sec (i + 1) t' \<and> holds_sector s sec bs' (4 * (i + 1))"
proof -
  let ?base = "512 * unat sec" and ?data = "disk_data (ide s)"
  let ?w = "disk_word t (disk_pos (ide t)) 4"
  let ?bs = "fold (\<lambda>off bs. bs[4 * i + off := word_byte ?w off]) [0..<4] bs"
  note t = r [unfolded reading_def]
  obtain q where rd: "in_long 0x1F0 t = Some (?w, t\<lparr>io_port := q, ide := (ide t)\<lparr>
      disk_pos := disk_pos (ide t) + min 4 (length (disk_data (ide t)) - disk_pos (ide t)), byte_cnt := of_nat (4 * (i + 1))\<rparr>\<rparr>)"
    (is "_ = Some (_, ?t')") and q: "q 0x1F7 = 0x40"
    using in_long_ide [of t i] t i by blast
  have dd: "disk_data (ide t) = ?data" using t same_mem_fields(1) by blast
  have len: "length bs = 512" using h by (simp add: holds_sector_def)
  have "read_word i (bs, t) = Some (?bs, ?t')"
    using word_of_bytes [of i bs ?w] len i by (simp add: read_word_def IDE_PORT_BASE_def rd Let_def del: upt.simps)
  moreover have "reading s sec (i + 1) ?t'"
  proof -
    have "same_mem t ?t'"
      by (rule same_memI [where q = q and e = "(ide t)\<lparr>disk_pos := disk_pos (ide t) +
          min 4 (length (disk_data (ide t)) - disk_pos (ide t)), byte_cnt := of_nat (4 * (i + 1))\<rparr>"
          and n = "i8259_intr_no t" and b = "intr t"]) simp_all
    then have "same_mem s ?t'" using t by (blast intro: same_mem_trans)
    moreover have "disk_pos (ide t) + min 4 (length ?data - disk_pos (ide t)) = min (?base + 4 * (i + 1)) (length ?data)"
      using t pos_step [of "?base + 4 * i" "length ?data"] by (simp add: add.assoc)
    ultimately show ?thesis using t q by (simp add: reading_def dd)
  qed
  moreover have "holds_sector s sec ?bs (4 * (i + 1))"
  proof -
    have "?bs ! j = ?data ! (?base + j)" if j: "j < 4 * (i + 1)" "?base + j < length ?data" for j
    proof (cases "j < 4 * i")
      case True
      then show ?thesis using h j i len unfolding upt4 by (simp add: holds_sector_def)
    next
      case False
      then obtain k where k: "j = 4 * i + k" "k < 4" using j(1) by (metis add_less_cancel_left distrib_left le_Suc_ex linorder_not_less mult.right_neutral)
      have "disk_pos (ide t) = ?base + 4 * i" using t j(2) k by (simp add: min_def)
      then have "disk_byte t (disk_pos (ide t)) 4 k = ?data ! (?base + j)" using k j(2) by (simp add: disk_byte_def dd add.assoc)
      moreover have "?bs ! j = word_byte ?w k"
      proof -
        consider "k = 0" | "k = 1" | "k = 2" | "k = 3" using k(2) by linarith
        then show ?thesis using k i len unfolding upt4 by cases simp_all
      qed
      ultimately show ?thesis using word_byte_disk [OF k(2)] by simp
    qed
    moreover have "length ?bs = 512" using len unfolding upt4 by simp
    ultimately show ?thesis by (simp add: holds_sector_def)
  qed
  ultimately show ?thesis by blast
qed

lemma read_words:
  assumes "reading s sec 0 t" "length bs = 512" "n \<le> 128"
  shows "\<exists>bs' t'. foldM read_word [0..<n] (bs, t) = Some (bs', t') \<and> reading s sec n t' \<and> holds_sector s sec bs' (4 * n)"
  using assms(3)
proof (induction n)
  case 0
  then show ?case using assms by (simp add: holds_sector_def)
next
  case (Suc n)
  then obtain bs1 t1 where 1: "foldM read_word [0..<n] (bs, t) = Some (bs1, t1)" "reading s sec n t1"
    "holds_sector s sec bs1 (4 * n)" by auto
  with read_word_step [of s sec n t1 bs1] Suc.prems show ?case by (auto simp: foldM_append)
qed

text \<open>
  The driver may run: the disk is idle, the interrupts are enabled and their lines consistent, the line of
  the disk is registered, and the disk file is no larger than a signed offset.
\<close>

definition ready :: "handler_code \<Rightarrow> irq_state \<Rightarrow> machine \<Rightarrow> bool" where
  "ready h st s \<longleftrightarrow> idle s \<and> lines_ok s \<and> disk_line h st \<and> length (disk_data (ide s)) \<le> 2 ^ 31"

lemma disk_do_read_sector:
  assumes r: "ready h st s" and sec: "512 * unat sec < length (disk_data (ide s))" and l: "length bs = 512"
  shows "\<exists>bs' s'. disk_do_read h env bs sec (st, d, s) = Some (bs', st, clear_ide_intr d, s') \<and>
     holds_sector s sec bs' 512 \<and> same_mem s s' \<and> ready h st s'"
proof -
  have s: "unat sec < 0x400000" using r sec by (simp add: ready_def)
  let ?e = "(ide s)\<lparr>sector := sec, disk_idx := push_bit 9 sec, disk_pos := 512 * unat sec, byte_cnt := 0, ide_write := False\<rparr>"
  let ?s0 = "s\<lparr>ide := ?e, io_port := (lba_ports sec (io_port s))(0x1F7 := 0x40)\<rparr>"
  let ?s1 = "i8259_raise_intr IDE_IRQ ?s0"
  let ?s2 = "i8259_ack_intr ?s1"
  have p: "ide_prepare sec s \<bind> issue_read = Some ?s1"
    using r s by (intro issue_read_idle) (simp_all add: ready_def)
  have pic: "pic_ok ?s0" "case pic_latched ?s0 of None \<Rightarrow> True | Some j \<Rightarrow> j \<le> 14" "IF (eflags ?s0)"
    using r by (simp_all add: ready_def lines_ok_def pic_ok_def pic_latched_def i8259_query_intr_no_def
        split: if_splits)
  have "eflags ?s1 = eflags s" by (simp add: i8259_raise_intr_def Let_def)
  then have w: "wait_ide_intr h env 0 (st, clear_ide_intr d, ?s1) = Some (st, clear_ide_intr d, ?s2)"
    using raise_disk [OF pic(1,2)] r pic(3)
    by (intro wait_disk) (simp_all add: ready_def clear_ide_intr_def)
  have s2: "?s2 = s\<lparr>ide := ?e, io_port := (lba_ports sec (io_port s))(0x1F7 := 0x40), i8259_intr_no := I8259_NO_INTR, intr := 0\<rparr>"
    by (simp add: i8259_ack_intr_def i8259_raise_intr_def Let_def)
  have m2: "same_mem s ?s2"
    unfolding s2 by (rule same_memI [where q = "(lba_ports sec (io_port s))(0x1F7 := 0x40)" and e = ?e
      and n = I8259_NO_INTR and b = 0]) simp_all
  have "reading ?s2 sec 0 ?s2" using sec unfolding s2 by (simp add: reading_def)
  from read_words [OF this l, of 128] obtain bs' s' where f: "foldM read_word [0..<128] (bs, ?s2) = Some (bs', s')"
    and rd: "reading ?s2 sec 128 s'" and h: "holds_sector ?s2 sec bs' 512" by auto
  have dd: "disk_data (ide ?s2) = disk_data (ide s)" using m2 by (rule same_mem_fields)
  have m: "same_mem s s'" using rd m2 unfolding reading_def by (blast intro: same_mem_trans)
  have "disk_do_read h env bs sec (st, d, s) = Some (bs', st, clear_ide_intr d, s')"
    using p w f by (simp add: disk_do_read_def bind_eq_Some_conv) (auto simp: Let_def)
  moreover have "ready h st s'"
    using r rd same_mem_fields [OF m]
    by (simp add: ready_def reading_def idle_def lines_ok_def pic_ok_def pic_latched_def i8259_query_intr_no_def s2
        I8259_NO_INTR_def)
  ultimately show ?thesis using h m by (auto simp: holds_sector_def dd)
qed

section \<open>The cache of sectors\<close>

text \<open>Nothing is dirty, and a slot in use holds the bytes that the disk file has in its sector.\<close>

definition cache_clean :: "ide_driver \<Rightarrow> machine \<Rightarrow> bool" where
  "cache_clean d s \<longleftrightarrow> (\<forall>i < NR_SEC_CACHE. length (sc_content (sc_at d i)) = 512 \<and>
     (sc_used (sc_at d i) \<longrightarrow> \<not> sc_dirty (sc_at d i) \<and> holds_sector s (sc_sector (sc_at d i)) (sc_content (sc_at d i)) 512))"

lemma slot_less [simp]: "slot sec < NR_SEC_CACHE"
  by (simp add: slot_def NR_SEC_CACHE_def)

lemma holds_sector_same: "same_mem s t \<Longrightarrow> holds_sector t = holds_sector s"
  by (auto simp: holds_sector_def fun_eq_iff same_mem_fields)

lemma sc_at_simps [simp]: "sc_at (upd_cache i f d) j = (if j = i then f (sc_at d i) else sc_at d j)"
  "sc_at (clear_ide_intr d) j = sc_at d j"
  by (simp_all add: upd_cache_def sc_at_def clear_ide_intr_def)

lemma cache_fetch_clean:
  assumes r: "ready h st s" and c: "cache_clean d s" and sec: "512 * unat sec < length (disk_data (ide s))"
  shows "\<exists>d' s'. cache_fetch h env sec (st, d, s) = Some (st, d', s') \<and> same_mem s s' \<and> ready h st s' \<and>
     cache_clean d' s' \<and> holds_sector s sec (sc_content (sc_at d' (slot sec))) 512"
proof (cases "sc_used (sc_at d (slot sec)) \<and> sc_sector (sc_at d (slot sec)) = sec")
  case True
  have "holds_sector s sec (sc_content (sc_at d (slot sec))) 512"
    using c [unfolded cache_clean_def, rule_format, OF slot_less [of sec]] True by simp
  moreover have "cache_fetch h env sec (st, d, s) = Some (st, d, s)"
    unfolding cache_fetch_def prod.case Let_def by (rule if_P [OF True])
  ultimately show ?thesis using r c same_mem_refl by blast
next
  case False
  let ?c = "sc_at d (slot sec)"
  have sl: "length (sc_content ?c) = 512" "sc_used ?c \<longrightarrow> \<not> sc_dirty ?c"
    using c by (simp_all add: cache_clean_def)
  obtain bs s' where rd: "disk_do_read h env (sc_content ?c) sec (st, d, s) = Some (bs, st, clear_ide_intr d, s')"
    and h: "holds_sector s sec bs 512" and m: "same_mem s s'" "ready h st s'"
    using disk_do_read_sector [OF r sec sl(1), of env d] by blast
  let ?d = "upd_cache (slot sec) (\<lambda>c. c\<lparr>sc_content := bs, sc_used := True, sc_sector := sec, sc_dirty := False\<rparr>) (clear_ide_intr d)"
  have "\<not> (sc_used ?c \<and> sc_dirty ?c)" using sl(2) by blast
  then have "cache_fetch h env sec (st, d, s) = Some (st, ?d, s')"
    using False rd by (simp only: cache_fetch_def Let_def prod.case if_False bind.bind_lunit)
  moreover have "cache_clean ?d s'"
    using c h unfolding cache_clean_def holds_sector_same [OF m(1)] by (simp add: holds_sector_def)
  moreover have "sc_content (sc_at ?d (slot sec)) = bs" by simp
  ultimately show ?thesis using m h by metis
qed

lemma read_byte_clean:
  assumes r: "ready h st s" and c: "cache_clean d s" and off: "unat off < length (disk_data (ide s))"
  shows "\<exists>d' s'. read_byte h env off (st, d, s) = Some (disk_data (ide s) ! unat off, st, d', s') \<and> same_mem s s' \<and>
     ready h st s' \<and> cache_clean d' s'"
proof -
  let ?sec = "drop_bit 9 off"
  have u: "unat ?sec = unat off div 512" by (simp only: unat_drop_bit_eq, simp add: drop_bit_eq_div)
  have "off AND 511 = take_bit 9 off" by (simp add: take_bit_eq_mask mask_eq_exp_minus_1)
  then have o: "unat (off AND 511) = unat off mod 512"
    by (simp only: unsigned_take_bit_eq) (simp add: take_bit_eq_mod)
  have "512 * unat ?sec < length (disk_data (ide s))" using off unfolding u by (rule order_le_less_trans [rotated]) simp
  from cache_fetch_clean [OF r c this, of env] obtain d' s' where f: "cache_fetch h env ?sec (st, d, s) = Some (st, d', s')"
    and m: "same_mem s s'" "ready h st s'" "cache_clean d' s'"
    and h: "holds_sector s ?sec (sc_content (sc_at d' (slot ?sec))) 512" by blast
  have "sc_content (sc_at d' (slot ?sec)) ! (unat off mod 512) = disk_data (ide s) ! unat off"
    using h off by (auto simp: holds_sector_def u dest!: spec [of _ "unat off mod 512"])
  then show ?thesis using f m by (simp add: read_byte_def Let_def o)
qed

section \<open>The transfer to a buffer\<close>

lemma to_laddr_frame: "to_laddr (s\<lparr>io_port := q, ide := e, i8259_intr_no := n, intr := b\<rparr>) = to_laddr s"
  by (simp add: fun_eq_iff to_laddr_def segment_translate_def)

lemma paddr_read_frame: "paddr_read (s\<lparr>io_port := q, ide := e, i8259_intr_no := n, intr := b\<rparr>) = paddr_read s"
  by (simp add: fun_eq_iff paddr_read_def hw_mem_read_def mmio_read_def Let_def split: option.split)

lemma to_paddr_frame: "to_paddr (s\<lparr>io_port := q, ide := e, i8259_intr_no := n, intr := b\<rparr>) = to_paddr s"
  unfolding fun_eq_iff to_paddr_def page_translate_def paddr_read_frame by simp

lemma same_mem_hw_mem: "same_mem s t \<Longrightarrow> same_mem (s\<lparr>hw_mem := m\<rparr>) (t\<lparr>hw_mem := m\<rparr>)"
proof -
  assume "same_mem s t"
  then obtain q e n b where "t = s\<lparr>io_port := q, ide := e, i8259_intr_no := n, intr := b\<rparr>" "disk_data e = disk_data (ide s)"
    by (auto simp: same_mem_def)
  then show ?thesis by (intro same_memI [where q = q and e = e and n = n and b = b]) (cases s, simp_all)
qed

lemma buffer_same_mem:
  assumes "same_mem s t"
  shows "buffer t = buffer s"
proof -
  have "to_laddr (t\<lparr>hw_mem := m\<rparr>) = to_laddr (s\<lparr>hw_mem := m\<rparr>)" "to_paddr (t\<lparr>hw_mem := m\<rparr>) = to_paddr (s\<lparr>hw_mem := m\<rparr>)" for m
    using same_mem_hw_mem [OF assms, of m] to_laddr_frame to_paddr_frame unfolding same_mem_def by metis+
  then show ?thesis using same_mem_fields [OF assms] by (simp add: fun_eq_iff buffer_def)
qed

lemma fill_one: "fill_buffer q [v] s = s\<lparr>hw_mem := (hw_mem s)(q := v)\<rparr>"
proof -
  have "unat (x - q) < 1 \<longleftrightarrow> x = q" for x :: u32 by (simp add: unsigned_eq_0_iff)
  then show ?thesis by (auto simp: fill_buffer_def fun_eq_iff)
qed

definition bytes_step :: "handler_code \<Rightarrow> (nat \<Rightarrow> host_input) \<Rightarrow> u32 \<Rightarrow> u32 \<Rightarrow> nat \<Rightarrow> kworld \<Rightarrow> kworld option" where
  "bytes_step h env buf off i w = do {
     (v, st, d, s) \<leftarrow> read_byte h env (off + of_nat i) w;
     s \<leftarrow> vaddr_write s (buf + of_nat i) SREG_DS 1 (ucast v);
     Some (st, d, s)
   }"

lemma read_bytes:
  assumes r: "ready h st s" and c: "cache_clean d s" and b: "buffer s buf n p"
    and off: "unat off + n \<le> length (disk_data (ide s))"
  shows "k \<le> n \<Longrightarrow> \<exists>d' t. foldM (bytes_step h env buf off) [0..<k] (st, d, s) = Some (st, d', t) \<and>
     same_mem (fill_buffer p (take k (drop (unat off) (disk_data (ide s)))) s) t \<and> ready h st t \<and> cache_clean d' t"
proof (induction k)
  case 0
  then show ?case using r c by (auto simp: fill_buffer_def)
next
  case (Suc k)
  let ?bs = "take k (drop (unat off) (disk_data (ide s)))" and ?v = "disk_data (ide s) ! (unat off + k)"
  obtain d1 t1 where 1: "foldM (bytes_step h env buf off) [0..<k] (st, d, s) = Some (st, d1, t1)"
      "same_mem (fill_buffer p ?bs s) t1" "ready h st t1" "cache_clean d1 t1"
    using Suc by auto
  have dd: "disk_data (ide t1) = disk_data (ide s)" using same_mem_fields(1) [OF 1(2)] by simp
  have o: "unat (off + of_nat k) = unat off + k"
    using off Suc.prems r by (simp add: unat_add_nat ready_def)
  have "unat (off + of_nat k) < length (disk_data (ide t1))" using off Suc.prems by (simp add: o dd)
  from read_byte_clean [OF 1(3,4) this, of env] obtain d2 t2
    where 2: "read_byte h env (off + of_nat k) (st, d1, t1) = Some (?v, st, d2, t2)" "same_mem t1 t2" "ready h st t2"
      "cache_clean d2 t2" by (auto simp: o dd)
  have l: "length ?bs = k" using off Suc.prems by simp
  have m2: "same_mem (fill_buffer p ?bs s) t2" using 1(2) 2(2) by (rule same_mem_trans)
  have "buffer (fill_buffer p ?bs s) (buf + of_nat k) (n - k) (p + of_nat k)"
    using b Suc.prems by (intro buffer_rest [OF _ l]) simp
  then have "buffer t2 (buf + of_nat k) (n - k) (p + of_nat k)" by (simp add: buffer_same_mem [OF m2])
  from buffer_write [OF this, of 0 "hw_mem t2" "ucast ?v"] Suc.prems
  have w: "vaddr_write t2 (buf + of_nat k) SREG_DS 1 (ucast ?v) = Some (t2\<lparr>hw_mem := (hw_mem t2)(p + of_nat k := ?v)\<rparr>)"
    by simp
  have "fill_buffer p (take (Suc k) (drop (unat off) (disk_data (ide s)))) s =
      fill_buffer (p + of_nat k) [?v] (fill_buffer p ?bs s)"
    using fill_buffer_append [of p ?bs "[?v]" s] b off Suc.prems
    by (simp add: take_Suc_conv_app_nth l buffer_def)
  then have "same_mem (fill_buffer p (take (Suc k) (drop (unat off) (disk_data (ide s)))) s)
      (t2\<lparr>hw_mem := (hw_mem t2)(p + of_nat k := ?v)\<rparr>)"
    using same_mem_hw_mem [OF m2] same_mem_fields(3) [OF m2] by (simp add: fill_one)
  moreover have "ready h st (t2\<lparr>hw_mem := m\<rparr>)" "cache_clean d2 (t2\<lparr>hw_mem := m\<rparr>)" for m
    using 2(3,4) by (simp_all add: ready_def idle_def lines_ok_def pic_ok_def pic_latched_def i8259_query_intr_no_def
        cache_clean_def holds_sector_def split: if_splits)
  moreover have "bytes_step h env buf off k (st, d1, t1) = Some (st, d2, t2\<lparr>hw_mem := (hw_mem t2)(p + of_nat k := ?v)\<rparr>)"
    using 2(1) w by (simp only: bytes_step_def bind.bind_lunit prod.case)
  ultimately show ?case using 1(1) by (auto simp: foldM_append)
qed

text \<open>Registration: \<open>init_ide\<close> makes the driver ready, when the disk and the interrupts are.\<close>

lemma sector_cache_init_fresh: "(\<forall>i. length (sc_content (sc_at d i)) = 512 \<and> \<not> sc_used (sc_at d i)) \<Longrightarrow> cache_clean (sector_cache_init d) s"
proof -
  assume a: "\<forall>i. length (sc_content (sc_at d i)) = 512 \<and> \<not> sc_used (sc_at d i)"
  have "\<forall>i. length (sc_content (sc_at (fold (\<lambda>i. upd_cache i (\<lambda>c. c\<lparr>sc_used := False\<rparr>)) is d) i)) = 512 \<and>
      \<not> sc_used (sc_at (fold (\<lambda>i. upd_cache i (\<lambda>c. c\<lparr>sc_used := False\<rparr>)) is d) i)" for "is"
    using a by (induction "is" arbitrary: d) auto
  then show ?thesis by (simp add: cache_clean_def sector_cache_init_def)
qed

lemma kernel_init_ide_ready:
  assumes "idle s" "lines_ok s" "length (disk_data (ide s)) \<le> 2 ^ 31" "awb h \<noteq> aint h"
  shows "\<exists>st d. kernel_init_ide h (irq_state0, ide_driver0, s) = Inr (st, d, s) \<and> ready h st s \<and> cache_clean d s"
proof -
  have "cache_clean (sector_cache_init ide_driver0) s"
    by (rule sector_cache_init_fresh) (simp add: ide_driver0_def sc_at_def)
  then show ?thesis
    using assms by (auto simp: kernel_init_ide_def add_irq_handle_def NR_HARD_INTR_def NR_IRQ_HANDLE_def irq_state0_def
        bind_result_def ready_def disk_line_def Let_def)
qed

section \<open>The properties\<close>

lemma ide_read_bytes_step: "ide_read_bytes h env buf off len = foldM (bytes_step h env buf off) [0..<unat len]"
  by (simp add: ide_read_bytes_def bytes_step_def [abs_def])

text \<open>C26: read through the driver - the cache of sectors, the programmed transfer over the ports, the emulated
  disk controller and the interrupt that it raises - a buffer in plain RAM gets the same bytes as through the
  window \<open>QUICK_DISK\<close>, those of the disk file; nothing else changes but the ports, the controller and the
  interrupt lines, and the driver is left ready with a cache that agrees with the disk.\<close>

theorem driver_reads_as_window:
  "ready h st s \<Longrightarrow> cache_clean d s \<Longrightarrow> buffer s buf (unat len) p \<Longrightarrow>
     unat off + unat len \<le> length (disk_data (ide s)) \<Longrightarrow> length (disk_data (ide s)) < 0x31C00000 \<Longrightarrow>
     \<exists>d' t u. ide_read_bytes h env buf off len (st, d, s) = Some (st, d', t) \<and> ide_read buf off len s = Some u \<and>
       u = fill_buffer p (take (unat len) (drop (unat off) (disk_data (ide s)))) s \<and>
       same_mem u t \<and> ready h st t \<and> cache_clean d' t"
proof -
  assume a: "ready h st s" "cache_clean d s" "buffer s buf (unat len) p"
    "unat off + unat len \<le> length (disk_data (ide s))" "length (disk_data (ide s)) < 0x31C00000"
  have "ide_read buf off len s = Some (fill_buffer p (take (unat len) (drop (unat off) (disk_data (ide s)))) s)"
    using a by (simp add: ide_read_def guest_memcpy_disk)
  with read_bytes [OF a(1-4) order_refl, of env] show ?thesis by (simp only: ide_read_bytes_step) blast
qed

definition drive_machine :: machine where
  "drive_machine = machine0\<lparr>eflags := 0x200, io_port := (\<lambda>p. if p = 0x1F7 then 0x40 else 0),
     ide := (ide machine0)\<lparr>disk_data := replicate 600 7\<rparr>\<rparr>"

theorem driver_reads_as_window_witness:
  "\<exists>st d d' t. kernel_init_ide \<lparr>awb = 1, aint = 2, user = \<lambda>_. Inr\<rparr> (irq_state0, ide_driver0, drive_machine) = Inr (st, d, drive_machine) \<and>
     ide_read_bytes \<lparr>awb = 1, aint = 2, user = \<lambda>_. Inr\<rparr> (\<lambda>_. (0, 0, 0, [])) 0x1000 510 4 (st, d, drive_machine) = Some (st, d', t) \<and>
     hw_mem t 0x1003 = 7"
proof -
  have s: "idle drive_machine" "lines_ok drive_machine" "length (disk_data (ide drive_machine)) = 600"
    by (simp_all add: idle_def drive_machine_def lines_ok_def IF_def pic_ok_def pic_latched_def i8259_query_intr_no_def
        I8259_NO_INTR_def machine0_def bit_numeral_rec del: replicate.simps)
  have b: "buffer drive_machine 0x1000 (unat (4 :: u32)) 0x1000"
    by (rule buffer_plain) (simp_all add: drive_machine_def machine0_def cr0_pe_def cr0_pg_def)
  obtain st d where i: "kernel_init_ide \<lparr>awb = 1, aint = 2, user = \<lambda>_. Inr\<rparr> (irq_state0, ide_driver0, drive_machine) = Inr (st, d, drive_machine)"
    "ready \<lparr>awb = 1, aint = 2, user = \<lambda>_. Inr\<rparr> st drive_machine" "cache_clean d drive_machine"
    using kernel_init_ide_ready [of drive_machine "\<lparr>awb = 1, aint = 2, user = \<lambda>_. Inr\<rparr>"] s by auto
  obtain d' t u where r: "ide_read_bytes \<lparr>awb = 1, aint = 2, user = \<lambda>_. Inr\<rparr> (\<lambda>_. (0, 0, 0, [])) 0x1000 510 4 (st, d, drive_machine) = Some (st, d', t)"
    "u = fill_buffer 0x1000 (take (unat (4 :: u32)) (drop (unat (510 :: u32)) (disk_data (ide drive_machine)))) drive_machine" "same_mem u t"
    using driver_reads_as_window [OF i(2,3) b, of 510 "\<lambda>_. (0, 0, 0, [])"] s(3) by auto
  have "hw_mem t 0x1003 = 7"
    using same_mem_fields(3) [OF r(3)] by (simp add: r(2) fill_buffer_def drive_machine_def del: replicate.simps)
  with i r show ?thesis by blast
qed

end
