(* ===== verification/Kernel_Loader.thy ===== *)
theory Kernel_Loader
  imports Kernel_Disk
begin

text \<open>
  The loader of user programs, \<open>kernel/src/elf/elf.c\<close>, and the order of the kernel's start,
  \<open>kernel/src/main.c\<close>. The loader reads the ELF headers from a buffer on the stack, at the address
  \<open>buf\<close>; the offsets of their fields are those of \<open>elf.h\<close>. \<open>mm_malloc\<close>, without source, is the argument
  \<open>alloc\<close>: from a virtual address and a length to the address of the memory and the machine behind.
\<close>

type_synonym allocator = "u32 \<Rightarrow> u32 \<Rightarrow> machine \<Rightarrow> (u32 \<times> machine) option"

definition ELF_OFFSET_IN_DISK :: u32 where "ELF_OFFSET_IN_DISK = 0"
definition STACK_SIZE :: u32 where "STACK_SIZE = push_bit 20 1"
definition PT_LOAD :: u32 where "PT_LOAD = 1"
definition HEADER_LEN :: u32 where "HEADER_LEN = 4096"

text \<open>Fields of \<open>Elf32_Ehdr\<close> and \<open>Elf32_Phdr\<close>, read through a pointer.\<close>

definition e_entry :: "machine \<Rightarrow> u32 \<Rightarrow> u32 option" where "e_entry s elf = vaddr_read s (elf + 24) SREG_DS 4"
definition e_phoff :: "machine \<Rightarrow> u32 \<Rightarrow> u32 option" where "e_phoff s elf = vaddr_read s (elf + 28) SREG_DS 4"
definition e_phnum :: "machine \<Rightarrow> u32 \<Rightarrow> u32 option" where "e_phnum s elf = vaddr_read s (elf + 44) SREG_DS 2"
definition p_type :: "machine \<Rightarrow> u32 \<Rightarrow> u32 option" where "p_type s ph = vaddr_read s ph SREG_DS 4"
definition p_offset :: "machine \<Rightarrow> u32 \<Rightarrow> u32 option" where "p_offset s ph = vaddr_read s (ph + 4) SREG_DS 4"
definition p_vaddr :: "machine \<Rightarrow> u32 \<Rightarrow> u32 option" where "p_vaddr s ph = vaddr_read s (ph + 8) SREG_DS 4"
definition p_filesz :: "machine \<Rightarrow> u32 \<Rightarrow> u32 option" where "p_filesz s ph = vaddr_read s (ph + 16) SREG_DS 4"
definition p_memsz :: "machine \<Rightarrow> u32 \<Rightarrow> u32 option" where "p_memsz s ph = vaddr_read s (ph + 20) SREG_DS 4"
definition PHDR_SIZE :: u32 where "PHDR_SIZE = 32"

text \<open>The loop that clears the rest of a segment; its counter and its bound are signed.\<close>

definition zero_out :: "u32 \<Rightarrow> u32 \<Rightarrow> machine \<Rightarrow> machine option" where
  "zero_out dst n = foldM (\<lambda>i s. vaddr_write s (dst + of_nat i) SREG_DS 1 0) [0..<nat (sint n)]"

definition record_brk :: "u32 \<Rightarrow> mm_state \<Rightarrow> mm_state" where
  "record_brk new_brk k = (if brk k < new_brk then k\<lparr>brk := new_brk\<rparr> else k)"

definition load_segment :: "allocator \<Rightarrow> u32 \<Rightarrow> mm_state \<times> machine \<Rightarrow> (mm_state \<times> machine) option" where
  "load_segment alloc ph ks = (case ks of (k, s) \<Rightarrow> do {
     ty \<leftarrow> p_type s ph;
     if ty \<noteq> PT_LOAD then Some (k, s)
     else do {
       va \<leftarrow> p_vaddr s ph; msz \<leftarrow> p_memsz s ph;
       (uaddr, s) \<leftarrow> alloc va msz s;
       off \<leftarrow> p_offset s ph; fsz \<leftarrow> p_filesz s ph;
       s \<leftarrow> ide_read uaddr (ELF_OFFSET_IN_DISK + off) fsz s;
       msz \<leftarrow> p_memsz s ph; fsz \<leftarrow> p_filesz s ph;
       s \<leftarrow> zero_out (uaddr + fsz) (msz - fsz) s;
       va \<leftarrow> p_vaddr s ph; msz \<leftarrow> p_memsz s ph;
       Some (record_brk (va + msz - 1) k, s)
     }
   })"

text \<open>The loop over the program headers, which must lie in the buffer.\<close>

partial_function (option) load_segments ::
  "allocator \<Rightarrow> u32 \<Rightarrow> u32 \<Rightarrow> u32 \<Rightarrow> mm_state \<times> machine \<Rightarrow> (mm_state \<times> machine) option" where
  [code]: "load_segments alloc buf ph eph ks =
     (if ph < eph then
        if \<not> ph < buf + HEADER_LEN then None
        else do {
          ks \<leftarrow> load_segment alloc ph ks;
          load_segments alloc buf (ph + PHDR_SIZE) eph ks
        }
      else Some ks)"

text \<open>
  \<open>loader\<close>: the program, the user's stack below \<open>KOFFSET\<close>, the video memory, and the user's page directory.
  \<open>updir\<close> and \<open>vtable\<close> are the addresses of the directory and of the table for the video pages.
\<close>

definition loader :: "allocator \<Rightarrow> u32 \<Rightarrow> u32 \<Rightarrow> u32 \<Rightarrow> mm_state \<times> machine \<Rightarrow> (u32 \<times> mm_state \<times> machine) option" where
  "loader alloc updir vtable buf ks = (case ks of (k, s) \<Rightarrow> do {
     s \<leftarrow> ide_read buf ELF_OFFSET_IN_DISK HEADER_LEN s;
     phoff \<leftarrow> e_phoff s buf; phnum \<leftarrow> e_phnum s buf;
     let ph = buf + phoff;
     (k, s) \<leftarrow> load_segments alloc buf ph (ph + phnum * PHDR_SIZE) (k, s);
     entry \<leftarrow> e_entry s buf;
     (_, s) \<leftarrow> alloc (KOFFSET - STACK_SIZE) STACK_SIZE s;
     s \<leftarrow> create_video_mapping updir vtable s;
     Some (entry, k, s\<lparr>cr3 := ucr3 k\<rparr>)
   })"

section \<open>The start\<close>

record kernel_symbols =
  gdt_at :: u32
  idt_at :: u32
  kpdir_at :: u32
  kptable_at :: u32
  updir_at :: u32
  vtable_at :: u32
  buf_at :: u32
  entries :: entry_points
  handlers_at :: handler_code

text \<open>
  \<open>init\<close> turns paging on and moves the stack pointer into the kernel's window; then \<open>init_cond\<close> at its
  address in the window, which ends in a jump to the program.
\<close>

definition kernel_init :: "kernel_symbols \<Rightarrow> machine \<Rightarrow> machine" where
  "kernel_init sy s =
     (let s = init_page (kpdir_at sy) (kptable_at sy) s
      in s\<lparr>gpr := (gpr s)(4 := gpr s 4 + KOFFSET)\<rparr>)"

definition init_cond ::
  "kernel_symbols \<Rightarrow> allocator \<Rightarrow> irq_state \<times> ide_driver \<times> mm_state \<times> machine \<Rightarrow>
   (u32 \<times> irq_state \<times> ide_driver \<times> mm_state \<times> machine) option" where
  "init_cond sy alloc w = (case w of (st, d, k, s) \<Rightarrow>
     let s = init_segment (gdt_at sy) s;
         s = init_idt (entries sy) (idt_at sy) s;
         s = s\<lparr>eflags := put_IF True (eflags s)\<rparr>
     in case kernel_init_ide (handlers_at sy) (st, d, s) of
          Inl e \<Rightarrow> None
        | Inr (st, d, s) \<Rightarrow> do {
            let (k, s) = init_mm (updir_at sy) (kpdir_at sy) (k, s);
            (entry, k, s) \<leftarrow> loader alloc (updir_at sy) (vtable_at sy) (buf_at sy) (k, s);
            s \<leftarrow> video_mapping_clear s;
            Some (entry, st, d, k, s\<lparr>gpr := (gpr s)(4 := KOFFSET)\<rparr>)
          })"

end
