(* ===== verification/Kernel_Loader_Correct.thy ===== *)
theory Kernel_Loader_Correct
  imports Kernel_Loader Kernel_Fs_Correct
begin

text \<open>
  The loader puts a segment where the allocator says: the bytes of the file, then zeros. The loop over the
  program headers ends, one segment after the other, when the headers lie in the buffer.
\<close>

section \<open>Clearing\<close>

lemma zero_out_buffer:
  assumes b: "buffer s dst n p" and n: "n < 2 ^ 31"
  shows "zero_out dst (of_nat n) s = Some (fill_buffer p (replicate n 0) s)"
proof -
  let ?m = "\<lambda>k x. if unat (x - p) < k then 0 else hw_mem s x"
  have "foldM (\<lambda>i s. vaddr_write s (dst + of_nat i) SREG_DS 1 0) [0..<k] s = Some (s\<lparr>hw_mem := ?m k\<rparr>)" if "k \<le> n" for k
    using that
  proof (induction k)
    case (Suc k)
    have k: "unat (of_nat k :: u32) = k" using Suc.prems n by (simp add: unat_of_nat take_bit_eq_mod)
    have "(?m k)(p + of_nat k := 0) = ?m (Suc k)"
    proof
      fix x
      have "x = p + of_nat k \<longleftrightarrow> x - p = of_nat k" by (auto simp: algebra_simps)
      then have "x = p + of_nat k \<longleftrightarrow> unat (x - p) = k" using k by (simp add: word_unat_eq_iff)
      then show "((?m k)(p + of_nat k := 0)) x = ?m (Suc k) x" by (auto simp: less_Suc_eq)
    qed
    moreover have "vaddr_write (s\<lparr>hw_mem := ?m k\<rparr>) (dst + of_nat k) SREG_DS 1 0 =
        Some (s\<lparr>hw_mem := (?m k)(p + of_nat k := ucast (0 :: u32))\<rparr>)"
      using Suc.prems by (intro buffer_write [OF b]) auto
    ultimately show ?case
      using Suc by (simp only: upt_Suc foldM_append foldM.simps Suc_leD bind.bind_lunit le0 if_True unsigned_0)
  qed simp
  moreover have "sint (of_nat n :: u32) = int n" using n by (simp add: signed_of_nat signed_take_bit_int_eq_self)
  ultimately show ?thesis by (simp add: zero_out_def fill_buffer_def cong: if_cong)
qed

section \<open>One segment\<close>

text \<open>
  The header of a segment, as it is read whatever the \<open>n\<close> bytes from the physical address \<open>p\<close> hold: the
  segment is not loaded over its own header.
\<close>

definition header_at :: "machine \<Rightarrow> u32 \<Rightarrow> u32 \<Rightarrow> nat \<Rightarrow> u32 \<Rightarrow> u32 \<Rightarrow> u32 \<Rightarrow> u32 \<Rightarrow> bool" where
  "header_at s ph p n off va fsz msz \<longleftrightarrow>
     (\<forall>m. (\<forall>x. \<not> unat (x - p) < n \<longrightarrow> m x = hw_mem s x) \<longrightarrow>
        (let s = s\<lparr>hw_mem := m\<rparr> in p_offset s ph = Some off \<and> p_vaddr s ph = Some va \<and> p_filesz s ph = Some fsz \<and>
           p_memsz s ph = Some msz))"

lemma header_fill:
  assumes "header_at s ph p n off va fsz msz" "length bs \<le> n"
  shows "p_offset (fill_buffer p bs s) ph = Some off" "p_vaddr (fill_buffer p bs s) ph = Some va"
    "p_filesz (fill_buffer p bs s) ph = Some fsz" "p_memsz (fill_buffer p bs s) ph = Some msz"
  using assms unfolding header_at_def fill_buffer_def Let_def by auto

lemma fill_nil [simp]: "fill_buffer p [] s = s"
  by (simp add: fill_buffer_def)

lemma load_segment_eq:
  assumes t: "p_type s ph = Some PT_LOAD" "p_vaddr s ph = Some va" "p_memsz s ph = Some msz" "alloc va msz s = Some (u, s1)"
    and b: "buffer s1 u (unat msz) p" and h: "header_at s1 ph p (unat msz) off va fsz msz"
    and sz: "fsz \<le> msz" "unat msz < 2 ^ 31"
    and d: "unat off + unat fsz \<le> length (disk_data (ide s1))" "unat off + unat fsz < 0x31C00000"
  shows "load_segment alloc ph (k, s) = Some (record_brk (va + msz - 1) k,
     fill_buffer p (take (unat fsz) (drop (unat off) (disk_data (ide s1))) @ replicate (unat msz - unat fsz) 0) s1)"
proof -
  let ?bs = "take (unat fsz) (drop (unat off) (disk_data (ide s1)))" and ?n = "unat msz - unat fsz"
  have u: "unat msz = unat fsz + ?n" "msz - fsz = of_nat ?n"
  proof -
    show e: "unat msz = unat fsz + ?n" using sz(1) by (simp add: word_le_nat_alt)
    have "unat (msz - fsz) = ?n" using sz(1) by (simp add: unat_sub)
    then show "msz - fsz = of_nat ?n" by (metis of_nat_unat ucast_id)
  qed
  have l: "length ?bs = unat fsz" using d(1) by simp
  have b1: "buffer s1 u (unat fsz) p" using b u(1) buffer_le [of s1 u "unat fsz" ?n p] by simp
  have b2: "buffer (fill_buffer p ?bs s1) (u + of_nat (unat fsz)) ?n (p + of_nat (unat fsz))"
    using buffer_rest [OF _ l, of s1 u ?n p] b u(1) by simp
  have 1: "ide_read u off fsz s1 = Some (fill_buffer p ?bs s1)"
    unfolding ide_read_def by (rule guest_memcpy_disk [OF b1 d])
  have 2: "zero_out (u + fsz) (msz - fsz) (fill_buffer p ?bs s1) =
      Some (fill_buffer p (?bs @ replicate ?n 0) s1)"
  proof -
    have "zero_out (u + of_nat (unat fsz)) (of_nat ?n) (fill_buffer p ?bs s1) =
        Some (fill_buffer (p + of_nat (unat fsz)) (replicate ?n 0) (fill_buffer p ?bs s1))"
      using sz(2) by (intro zero_out_buffer [OF b2]) simp
    also have "fill_buffer (p + of_nat (unat fsz)) (replicate ?n 0) (fill_buffer p ?bs s1) = fill_buffer p (?bs @ replicate ?n 0) s1"
      using fill_buffer_append [of p ?bs "replicate ?n 0" s1] b u(1) l unfolding l buffer_def by simp
    finally show ?thesis by (simp add: u(2))
  qed
  have h0: "p_offset s1 ph = Some off" "p_filesz s1 ph = Some fsz"
    using header_fill [OF h, of "[]"] by simp_all
  note h1 = header_fill [OF h, of ?bs] and h2 = header_fill [OF h, of "?bs @ replicate ?n 0"]
  have lens: "length ?bs \<le> unat msz" "length (?bs @ replicate ?n 0) \<le> unat msz" using l u(1) by simp_all
  have e: "ELF_OFFSET_IN_DISK + off = off" by (simp add: ELF_OFFSET_IN_DISK_def)
  show ?thesis
    unfolding load_segment_def prod.case t bind.bind_lunit h0 e 1 h1(3,4) [OF lens(1)] 2 h2(2,4) [OF lens(2)] by simp
qed

section \<open>The loop over the headers\<close>

lemma load_segments_foldM:
  assumes "unat ph + 32 * n < 2 ^ 32" "n = 0 \<or> unat ph + 32 * (n - 1) < unat buf + 4096" "unat buf + 4096 < 2 ^ 32"
  shows "load_segments alloc buf ph (ph + of_nat (32 * n)) ks = foldM (load_segment alloc) (map (\<lambda>i. ph + of_nat (32 * i)) [0..<n]) ks"
  using assms(1,2)
proof (induction n arbitrary: ph ks)
  case 0
  then show ?case by (subst load_segments.simps) simp
next
  case (Suc n)
  have next_ph: "ph + of_nat (32 * Suc n) = (ph + PHDR_SIZE) + of_nat (32 * n)" by (simp add: PHDR_SIZE_def)
  have u: "unat (ph + PHDR_SIZE) = unat ph + 32" using Suc.prems(1) by (simp add: PHDR_SIZE_def unat_word_ariths)
  have lt: "ph < ph + of_nat (32 * Suc n)"
    using Suc.prems(1) by (simp only: word_less_nat_alt unat_add_nat) simp
  have "unat (buf + HEADER_LEN) = unat buf + 4096" using assms(3) by (simp add: HEADER_LEN_def unat_word_ariths)
  then have in_buf: "ph < buf + HEADER_LEN" using Suc.prems(2) by (simp add: word_less_nat_alt)
  have IH: "load_segments alloc buf (ph + PHDR_SIZE) ((ph + PHDR_SIZE) + of_nat (32 * n)) ks' =
      foldM (load_segment alloc) (map (\<lambda>i. ph + PHDR_SIZE + of_nat (32 * i)) [0..<n]) ks'" for ks'
    using Suc.prems by (intro Suc.IH) (auto simp: u)
  have "map (\<lambda>i. ph + of_nat (32 * i)) [0..<Suc n] = ph # map (\<lambda>i. ph + PHDR_SIZE + of_nat (32 * i)) [0..<n]"
    by (simp add: upt_conv_Cons map_Suc_upt [symmetric] PHDR_SIZE_def del: upt_Suc)
  then show ?case
    using lt in_buf by (subst load_segments.simps) (simp only: next_ph ext [OF IH] foldM.simps if_True if_False simp_thms)
qed

section \<open>The property\<close>

text \<open>C27: when the allocator gives a segment memory in plain RAM away from the segment's own header, loading it
  puts the bytes of the file there and clears the rest up to the size in memory; nothing else of the memory
  changes, and the program break is raised to the last byte of the segment.\<close>

theorem load_segment_image:
  "p_type s ph = Some PT_LOAD \<Longrightarrow> p_vaddr s ph = Some va \<Longrightarrow> p_memsz s ph = Some msz \<Longrightarrow> alloc va msz s = Some (u, s1) \<Longrightarrow>
     buffer s1 u (unat msz) p \<Longrightarrow> header_at s1 ph p (unat msz) off va fsz msz \<Longrightarrow> fsz \<le> msz \<Longrightarrow> unat msz < 2 ^ 31 \<Longrightarrow>
     unat off + unat fsz \<le> length (disk_data (ide s1)) \<Longrightarrow> length (disk_data (ide s1)) < 0x31C00000 \<Longrightarrow>
     load_segment alloc ph (k, s) = Some (record_brk (va + msz - 1) k,
       fill_buffer p (take (unat fsz) (drop (unat off) (disk_data (ide s1))) @ replicate (unat msz - unat fsz) 0) s1)"
  by (rule load_segment_eq) auto

definition load_machine :: machine where
  "load_machine = machine0\<lparr>hw_mem := store32 0x2000 1 (store32 0x2004 16 (store32 0x2008 0x5000
     (store32 0x2010 4 (store32 0x2014 8 (\<lambda>_. 0xff))))), ide := (ide machine0)\<lparr>disk_data := replicate 32 9\<rparr>\<rparr>"

lemma load_machine_read:
  assumes "\<And>x. \<not> unat (x - 0x5000) < 8 \<Longrightarrow> m x = hw_mem load_machine x"
  shows "p_type (load_machine\<lparr>hw_mem := m\<rparr>) 0x2000 = Some 1" "p_offset (load_machine\<lparr>hw_mem := m\<rparr>) 0x2000 = Some 16"
    "p_vaddr (load_machine\<lparr>hw_mem := m\<rparr>) 0x2000 = Some 0x5000" "p_filesz (load_machine\<lparr>hw_mem := m\<rparr>) 0x2000 = Some 4"
    "p_memsz (load_machine\<lparr>hw_mem := m\<rparr>) 0x2000 = Some 8"
proof -
  have r: "vaddr_read (load_machine\<lparr>hw_mem := m\<rparr>) a SREG_DS 4 = Some (mem_get m a 4)" if "unat a < 0x7000000" for a
  proof -
    have "ram machine0 SREG_DS a 4" using that by (intro ram_machine0) (auto simp: len_ok_def)
    then have "ram (load_machine\<lparr>hw_mem := m\<rparr>) SREG_DS a 4"
      by (simp add: ram_def lram_def lin_def load_machine_def cr0_pe_def cr0_pg_def)
    then show ?thesis by (simp add: vaddr_read_ram, simp add: load_machine_def lin_def cr0_pe_def)
  qed
  have g: "mem_get m a 4 = mem_get (hw_mem load_machine) a 4" if "unat a < 0x4000" for a :: u32
  proof (rule mem_get_cong)
    fix i :: nat assume "i < 4"
    then have "\<not> unat (a + of_nat i - 0x5000) < 8" using that by (simp add: unat_sub_if' unat_add_nat)
    then show "m (a + of_nat i) = hw_mem load_machine (a + of_nat i)" by (rule assms)
  qed
  show "p_type (load_machine\<lparr>hw_mem := m\<rparr>) 0x2000 = Some 1" "p_offset (load_machine\<lparr>hw_mem := m\<rparr>) 0x2000 = Some 16"
    "p_vaddr (load_machine\<lparr>hw_mem := m\<rparr>) 0x2000 = Some 0x5000" "p_filesz (load_machine\<lparr>hw_mem := m\<rparr>) 0x2000 = Some 4"
    "p_memsz (load_machine\<lparr>hw_mem := m\<rparr>) 0x2000 = Some 8"
    unfolding p_type_def p_offset_def p_vaddr_def p_filesz_def p_memsz_def
    by (simp_all add: r g, simp_all add: load_machine_def store32_def mem_word_simps)
qed

theorem load_segment_image_witness:
  "\<exists>t. load_segment (\<lambda>va n s. Some (va, s)) 0x2000 (\<lparr>brk = 0, ucr3 = 0\<rparr>, load_machine) = Some (\<lparr>brk = 0x5007, ucr3 = 0\<rparr>, t) \<and>
     hw_mem t 0x5003 = 9 \<and> hw_mem t 0x5004 = 0 \<and> hw_mem t 0x5008 = 0xff"
proof -
  have h: "header_at load_machine 0x2000 0x5000 (unat (8 :: u32)) 16 0x5000 4 8"
    unfolding header_at_def Let_def using load_machine_read by simp
  have b: "buffer load_machine 0x5000 (unat (8 :: u32)) 0x5000"
    by (rule buffer_plain) (simp_all add: load_machine_def machine0_def cr0_pe_def cr0_pg_def)
  have d: "disk_data (ide load_machine) = replicate 32 9" by (simp add: load_machine_def)
  have r: "p_type load_machine 0x2000 = Some PT_LOAD" "p_vaddr load_machine 0x2000 = Some 0x5000" "p_memsz load_machine 0x2000 = Some 8"
    using load_machine_read [of "hw_mem load_machine"] by (simp_all add: PT_LOAD_def)
  have i: "take (unat (4 :: u32)) (drop (unat (16 :: u32)) (replicate 32 9)) @ replicate (unat (8 :: u32) - unat (4 :: u32)) 0
      = [9, 9, 9, 9, 0, 0, 0, 0 :: u8]"
    by (simp add: drop_replicate take_replicate del: replicate.simps, simp add: eval_nat_numeral)
  have k: "record_brk (0x5000 + 8 - 1) \<lparr>brk = 0, ucr3 = 0\<rparr> = \<lparr>brk = 0x5007, ucr3 = 0\<rparr>" by (simp add: record_brk_def)
  have "load_segment (\<lambda>va n s. Some (va, s)) 0x2000 (\<lparr>brk = 0, ucr3 = 0\<rparr>, load_machine) =
      Some (\<lparr>brk = 0x5007, ucr3 = 0\<rparr>, fill_buffer 0x5000 [9, 9, 9, 9, 0, 0, 0, 0] load_machine)"
    using load_segment_image [OF r, of "\<lambda>va n s. Some (va, s)" "0x5000" load_machine "0x5000" 16 4 "\<lparr>brk = 0, ucr3 = 0\<rparr>"] b h
    unfolding d i k by simp
  moreover have "hw_mem (fill_buffer 0x5000 [9, 9, 9, 9, 0, 0, 0, 0] load_machine) 0x5003 = 9"
    "hw_mem (fill_buffer 0x5000 [9, 9, 9, 9, 0, 0, 0, 0] load_machine) 0x5004 = 0"
    "hw_mem (fill_buffer 0x5000 [9, 9, 9, 9, 0, 0, 0, 0] load_machine) 0x5008 = 0xff"
    by (simp_all add: fill_buffer_def load_machine_def store32_def mem_word_simps)
  ultimately show ?thesis by blast
qed

end
