(* ===== verification/Linked_List.thy ===== *)
theory Linked_List
  imports Nemu_Prelude
begin

text \<open>
  Linked lists whose nodes are the entries of a pool: paths along the \<open>next\<close> pointers, and the contract of
  the assignment to such a pointer, on which insertion at the head and removal behind a node rest.
\<close>

primrec path :: "(nat \<Rightarrow> nat option) \<Rightarrow> nat option \<Rightarrow> nat list \<Rightarrow> bool" where
  "path nxt p [] \<longleftrightarrow> p = None"
| "path nxt p (x # xs) \<longleftrightarrow> p = Some x \<and> path nxt (nxt x) xs"

lemma path_None [simp]: "path nxt None xs \<longleftrightarrow> xs = []"
  by (cases xs) simp_all

lemma path_Some: "path nxt (Some x) xs \<longleftrightarrow> (\<exists>ys. xs = x # ys \<and> path nxt (nxt x) ys)"
  by (cases xs) auto

lemma path_frame: "(\<And>x. x \<in> set xs \<Longrightarrow> nxt' x = nxt x) \<Longrightarrow> path nxt' p xs = path nxt p xs"
  by (induction xs arbitrary: p) auto

lemma path_upd_other [simp]: "i \<notin> set xs \<Longrightarrow> path (nxt(i := q)) p xs = path nxt p xs"
  by (rule path_frame) auto

lemma path_suffix: "path nxt p (xs @ i # ys) \<Longrightarrow> path nxt (nxt i) ys"
  by (induction xs arbitrary: p) auto

locale linked_pool =
  fixes nxt :: "'s \<Rightarrow> nat \<Rightarrow> nat option"
    and set_nxt :: "nat \<Rightarrow> nat option \<Rightarrow> 's \<Rightarrow> 's"
  assumes nxt_set: "nxt (set_nxt i p s) = (nxt s)(i := p)"
begin

lemma push_path: "path (nxt s) p xs \<Longrightarrow> i \<notin> set xs \<Longrightarrow> path (nxt (set_nxt i p s)) (Some i) (i # xs)"
  by (simp add: nxt_set)

lemma other_path: "path (nxt s) p xs \<Longrightarrow> i \<notin> set xs \<Longrightarrow> path (nxt (set_nxt i q s)) p xs"
  by (simp add: nxt_set)

lemma unlink_path:
  "path (nxt s) p (xs @ j # i # ys) \<Longrightarrow> distinct (xs @ j # i # ys) \<Longrightarrow>
     path (nxt (set_nxt j (nxt s i) s)) p (xs @ j # ys)"
  by (induction xs arbitrary: p) (auto simp: nxt_set)

end

end
