(* ===== verification/Breakpoint_Correct.thy ===== *)
theory Breakpoint_Correct
  imports Breakpoint Memory_Correct Linked_List
begin

text \<open>
  The pool of breakpoints: its two lists stay disjoint and together hold every node, whatever sequence of
  operations runs, so that no assertion on a node fails and no loop over a list runs on; setting a
  breakpoint and deleting it again restores the code.
\<close>

section \<open>Nodes and lists\<close>

lemma bp_at_simps [simp]:
  "bp_at (upd_bp i f s) j = (if j = i then f (bp_at s i) else bp_at s j)"
  "bp_at (set_head p s) j = bp_at s j" "bp_at (set_free p s) j = bp_at s j"
  "head (bps (upd_bp i f s)) = head (bps s)" "free_list (bps (upd_bp i f s)) = free_list (bps s)"
  "head (bps (set_head p s)) = p" "free_list (bps (set_head p s)) = free_list (bps s)"
  "head (bps (set_free p s)) = head (bps s)" "free_list (bps (set_free p s)) = p"
  "hw_mem (upd_bp i f s) = hw_mem s" "hw_mem (set_head p s) = hw_mem s" "hw_mem (set_free p s) = hw_mem s"
  by (simp_all add: bp_at_def upd_bp_def set_head_def set_free_def)

definition links :: "machine \<Rightarrow> nat \<Rightarrow> nat option" where "links s i = bp_next (bp_at s i)"

interpretation bp: linked_pool links "\<lambda>i p. upd_bp i (\<lambda>b. b\<lparr>bp_next := p\<rparr>)"
  by unfold_locales (auto simp: links_def)

text \<open>
  The invariant, for the nodes in use \<open>us\<close> and the free ones \<open>fs\<close>, each in the order of its list.
\<close>

definition lists_ok :: "machine \<Rightarrow> nat list \<Rightarrow> nat list \<Rightarrow> bool" where
  "lists_ok s us fs \<longleftrightarrow> path (links s) (head (bps s)) us \<and> path (links s) (free_list (bps s)) fs \<and> distinct (us @ fs)"

definition nodes_ok :: "machine \<Rightarrow> nat set \<Rightarrow> bool" where
  "nodes_ok s U \<longleftrightarrow> (\<forall>i < NR_BP. NO (bp_at s i) = i \<and> (in_use (bp_at s i) \<longleftrightarrow> i \<in> U))"

definition pool_ok :: "machine \<Rightarrow> nat list \<Rightarrow> nat list \<Rightarrow> bool" where
  "pool_ok s us fs \<longleftrightarrow> lists_ok s us fs \<and> set (us @ fs) = {..<NR_BP} \<and> nodes_ok s (set us)"

text \<open>Operations that leave the structure of the pool alone.\<close>

definition same_pool :: "machine \<Rightarrow> machine \<Rightarrow> bool" where
  "same_pool s t \<longleftrightarrow> head (bps t) = head (bps s) \<and> free_list (bps t) = free_list (bps s) \<and>
     (\<forall>i. bp_next (bp_at t i) = bp_next (bp_at s i) \<and> NO (bp_at t i) = NO (bp_at s i) \<and>
          in_use (bp_at t i) = in_use (bp_at s i))"

lemma same_pool_refl [simp]: "same_pool s s"
  by (simp add: same_pool_def)

lemma same_pool_trans: "same_pool s t \<Longrightarrow> same_pool t u \<Longrightarrow> same_pool s u"
  by (simp add: same_pool_def)

lemma same_pool_bps: "bps t = bps s \<Longrightarrow> same_pool s t"
  by (simp add: same_pool_def bp_at_def)

lemma same_pool_ok: "same_pool s t \<Longrightarrow> pool_ok s us fs \<Longrightarrow> pool_ok t us fs"
  by (auto simp: pool_ok_def lists_ok_def nodes_ok_def links_def [abs_def] same_pool_def)

lemma frame_bps: "t\<lparr>hw_mem := m, mmio := x, vga := v\<rparr> = s\<lparr>hw_mem := m, mmio := x, vga := v\<rparr> \<Longrightarrow> bps t = bps s"
  by (cases s; cases t) simp

lemma vaddr_write_bps: "vaddr_write s a r n d = Some t \<Longrightarrow> bps t = bps s"
  by (rule frame_bps) (rule vaddr_write_frame)

lemma init_pool_ok: "pool_ok (init_bp_list s) [] [0..<32]"
proof -
  let ?t = "init_bp_list s"
  have l: "links ?t i = (if i = 31 then None else Some (i + 1))" if "i < 32" for i
    using that by (simp add: links_def init_bp_list_def bp_at_def NR_BP_def)
  have "path (links ?t) (Some a) [a..<32]" if "a < 32" for a
    using that
  proof (induction "31 - a" arbitrary: a)
    case 0
    then have "a = 31" by simp
    then show ?case using l [of 31] by (simp add: upt_rec)
  next
    case (Suc k)
    then have "a < 31" "31 - (a + 1) = k" by simp_all
    then show ?case using Suc(1) [of "a + 1"] l [of a] by (simp add: upt_rec [of a])
  qed
  then show ?thesis
    by (auto simp: pool_ok_def lists_ok_def nodes_ok_def init_bp_list_def bp_at_def NR_BP_def Let_def)
qed

section \<open>The operations\<close>

lemma links_simps [simp]:
  "links (set_head q s) = links s" "links (set_free q s) = links s"
  "links (link_head p s) = (links s)(p := head (bps s))"
  by (auto simp: fun_eq_iff links_def link_head_def)

lemma link_head_simps [simp]:
  "head (bps (link_head p s)) = Some p" "free_list (bps (link_head p s)) = free_list (bps s)"
  "NO (bp_at (link_head p s) j) = NO (bp_at s j)" "in_use (bp_at (link_head p s) j) = in_use (bp_at s j)"
  "hw_mem (link_head p s) = hw_mem s"
  by (simp_all add: link_head_def)

text \<open>A node taken from the free list, with its fields filled in.\<close>

lemma link_new:
  assumes ok: "pool_ok s us fs" and n: "new_BP s = Some (p, s1)" and same: "same_pool s1 s2"
  shows "\<exists>fs'. fs = p # fs' \<and> pool_ok (link_head p s2) (p # us) fs' \<and> NO (bp_at (link_head p s2) p) = p"
proof -
  obtain fs' where fs: "fs = p # fs'" and p: "free_list (bps s) = Some p"
    and s1: "s1 = upd_bp p (\<lambda>b. b\<lparr>in_use := True\<rparr>) (set_free (links s p) s)"
    using ok n by (cases fs) (auto simp: new_BP_def pool_ok_def lists_ok_def Let_def links_def split: option.splits if_splits)
  have d: "distinct (us @ p # fs')" "set (us @ p # fs') = {..<NR_BP}" using ok by (auto simp: pool_ok_def lists_ok_def fs)
  have l: "links s2 = links s" "head (bps s2) = head (bps s)" "free_list (bps s2) = links s p"
    using same by (auto simp: same_pool_def s1 links_def fun_eq_iff)
  have "path (links s) (head (bps s)) us" "path (links s) (links s p) fs'"
    using ok by (simp_all add: pool_ok_def lists_ok_def fs)
  then have "lists_ok (link_head p s2) (p # us) fs'" using d by (auto simp: lists_ok_def l)
  moreover have no: "\<forall>i < NR_BP. NO (bp_at s2 i) = i \<and> (in_use (bp_at s2 i) \<longleftrightarrow> i \<in> set (p # us))"
    using ok same by (auto simp: pool_ok_def nodes_ok_def same_pool_def s1)
  moreover have "p < NR_BP" using d(2) by auto
  ultimately show ?thesis using d(2) by (auto simp: fs pool_ok_def nodes_ok_def)
qed

lemma set_breakpoint_ok:
  assumes "pool_ok s us fs" "set_breakpoint addr s = Some (n, t)"
  shows "\<exists>fs'. fs = n # fs' \<and> pool_ok t (n # us) fs'"
proof -
  obtain p s1 v s2 where n: "new_BP s = Some (p, s1)"
    and w: "vaddr_write (upd_bp p (\<lambda>b. b\<lparr>ori_byte := v\<rparr>) (upd_bp p (\<lambda>b. b\<lparr>bp_type := BREAKPOINT, bp_addr := addr\<rparr>) s1))
        addr SREG_CS 1 INT3_CODE = Some s2"
    and t: "t = link_head p (upd_bp p (\<lambda>b. b\<lparr>bp_enable := True\<rparr>) s2)" "n = NO (bp_at t p)"
    using assms(2) by (auto simp: set_breakpoint_def Let_def split: bind_splits)
  have "same_pool s1 (upd_bp p (\<lambda>b. b\<lparr>bp_enable := True\<rparr>) s2)"
    using same_pool_bps [OF vaddr_write_bps [OF w]] by (auto simp: same_pool_def)
  from link_new [OF assms(1) n this] have "n = p" by (auto simp: t)
  with link_new [OF assms(1) n \<open>same_pool s1 _\<close>] show ?thesis by (auto simp only: t(1))
qed

lemma set_watchpoint_ok:
  assumes "pool_ok s us fs" "set_watchpoint e s = Some (n, t)"
  shows "\<exists>fs'. fs = n # fs' \<and> pool_ok t (n # us) fs'"
proof -
  obtain p s1 val where n: "new_BP s = Some (p, s1)"
    and t: "t = link_head p (upd_bp p (\<lambda>b. b\<lparr>bp_type := WATCHPOINT, bp_expr := e, old_val := val, bp_enable := True\<rparr>) s1)"
      "n = NO (bp_at t p)"
    using assms(2) by (auto simp: set_watchpoint_def Let_def split: bind_splits)
  have "same_pool s1 (upd_bp p (\<lambda>b. b\<lparr>bp_type := WATCHPOINT, bp_expr := e, old_val := val, bp_enable := True\<rparr>) s1)"
    by (auto simp: same_pool_def)
  from link_new [OF assms(1) n this] have "n = p" by (auto simp: t)
  with link_new [OF assms(1) n \<open>same_pool s1 _\<close>] show ?thesis by (auto simp only: t(1))
qed

text \<open>A node that is in no list, put into the free list.\<close>

lemma free_BP_ok:
  assumes "free_BP i s = Some t" "nodes_ok s U" "i \<in> U"
  shows "links t = (links s)(i := free_list (bps s))" "free_list (bps t) = Some i" "head (bps t) = head (bps s)"
    "nodes_ok t (U - {i})" "i < NR_BP"
proof -
  obtain s' where t: "t = set_free (Some i) (upd_bp i (\<lambda>b. b\<lparr>in_use := False, bp_next := free_list (bps s')\<rparr>) s')"
    and s': "bps s' = bps s" and "i < NR_BP"
    using assms(1) by (auto simp: free_BP_def Let_def split: if_splits bind_splits dest: vaddr_write_bps)
  then have at: "bp_at s' = bp_at s" by (simp add: bp_at_def fun_eq_iff)
  show "links t = (links s)(i := free_list (bps s))" "free_list (bps t) = Some i" "head (bps t) = head (bps s)"
    "nodes_ok t (U - {i})" "i < NR_BP"
    using assms(2,3) \<open>i < NR_BP\<close> by (auto simp: t s' at links_def fun_eq_iff nodes_ok_def)
qed

lemma find_NO_in:
  assumes "path (links s) p (xs @ i # ys)" "\<forall>j \<in> set (xs @ [i]). NO (bp_at s j) = j" "i \<notin> set xs"
  shows "find_NO s i prev p = Some (if xs = [] then prev else Some (last xs), Some i)"
  using assms
proof (induction xs arbitrary: p prev)
  case (Cons j xs)
  then have "find_NO s i (Some j) (links s j) = Some (if xs = [] then Some j else Some (last xs), Some i)" by auto
  then show ?case using Cons.prems by (subst find_NO.simps) (auto simp: links_def)
qed (subst find_NO.simps, simp)

lemma find_NO_out:
  "path (links s) p us \<Longrightarrow> \<forall>j \<in> set us. NO (bp_at s j) = j \<Longrightarrow> no \<notin> set us \<Longrightarrow> \<exists>q. find_NO s no prev p = Some (q, None)"
proof (induction us arbitrary: p prev)
  case (Cons j us)
  then have "\<exists>q. find_NO s no (Some j) (links s j) = Some (q, None)" by auto
  then show ?case using Cons.prems by (subst find_NO.simps) (auto simp: links_def)
qed (subst find_NO.simps, simp)

lemma pool_okD:
  assumes "pool_ok s us fs"
  shows "path (links s) (head (bps s)) us" "path (links s) (free_list (bps s)) fs" "distinct (us @ fs)"
    "set (us @ fs) = {..<NR_BP}" "nodes_ok s (set us)" "\<forall>i \<in> set us. NO (bp_at s i) = i \<and> in_use (bp_at s i)"
  using assms by (auto simp: pool_ok_def lists_ok_def nodes_ok_def)

lemma delete_breakpoint_out:
  assumes "pool_ok s us fs" "no \<notin> set us"
  shows "delete_breakpoint no s = Some (False, s)"
proof -
  obtain q where "find_NO s no None (head (bps s)) = Some (q, None)"
    using find_NO_out [of s "head (bps s)" us no None] pool_okD [OF assms(1)] assms(2) by auto
  then show ?thesis by (simp add: delete_breakpoint_def)
qed

lemma delete_breakpoint_in:
  assumes ok: "pool_ok s (xs @ i # ys) fs" and d: "delete_breakpoint i s = Some (b, t)"
  shows "b \<and> pool_ok t (xs @ ys) (i # fs)"
proof -
  note s = pool_okD [OF ok]
  have "find_NO s i None (head (bps s)) = Some (if xs = [] then None else Some (last xs), Some i)"
    using find_NO_in [of s "head (bps s)" xs i ys None] s by auto
  then obtain s1 where b and s1: "s1 = (if xs = [] then set_head (links s i) s
      else upd_bp (last xs) (\<lambda>b. b\<lparr>bp_next := links s i\<rparr>) s)" and t: "free_BP i s1 = Some t"
    using d by (auto simp: delete_breakpoint_def links_def Let_def split: bind_splits if_splits)
  have dst: "distinct (xs @ i # ys)" "\<forall>j \<in> set (xs @ i # ys). j \<notin> set fs" using s(3) by auto
  have "path (links s1) (head (bps s1)) (xs @ ys) \<and> path (links s1) (free_list (bps s1)) fs \<and>
      free_list (bps s1) = free_list (bps s)"
  proof (cases xs rule: rev_cases)
    case Nil
    then show ?thesis using s(1,2) by (auto simp: s1)
  next
    case (snoc zs j)
    then show ?thesis
      using s(1,2) dst bp.unlink_path [of s "head (bps s)" zs j i ys] bp.other_path [of s "free_list (bps s)" fs j]
      by (simp add: s1)
  qed
  moreover have n1: "nodes_ok s1 (set (xs @ i # ys))" using s(5) by (auto simp: nodes_ok_def s1)
  ultimately have "lists_ok t (xs @ ys) (i # fs)"
    using dst s(3) free_BP_ok [OF t n1] by (auto simp: lists_ok_def)
  moreover have "set (xs @ i # ys) - {i} = set (xs @ ys)" using dst(1) by auto
  ultimately show ?thesis
    using free_BP_ok(4) [OF t n1] s(4) \<open>b\<close> by (auto simp: pool_ok_def insert_commute)
qed

lemma delete_breakpoint_ok:
  assumes "pool_ok s us fs" "delete_breakpoint no s = Some (b, t)"
  shows "\<exists>us' fs'. pool_ok t us' fs'"
proof (cases "no \<in> set us")
  case True
  then obtain xs ys where "us = xs @ no # ys" by (auto simp: in_set_conv_decomp)
  then show ?thesis using delete_breakpoint_in [of s xs no ys fs b t] assms by auto
next
  case False
  then show ?thesis using delete_breakpoint_out [OF assms(1) False] assms by auto
qed

lemma delete_all_recursively_ok:
  assumes "path (links s) p us" "distinct (us @ fs)" "path (links s) (free_list (bps s)) fs" "nodes_ok s U" "set us \<subseteq> U"
    "delete_all_breakpoint_recursively p s = Some t"
  shows "path (links t) (free_list (bps t)) (us @ fs) \<and> nodes_ok t (U - set us)"
  using assms
proof (induction us arbitrary: p t)
  case Nil
  then show ?case by (subst (asm) delete_all_breakpoint_recursively.simps) simp
next
  case (Cons i us)
  from Cons.prems have p: "p = Some i" "path (links s) (links s i) us" by simp_all
  from Cons.prems(6) obtain s1 where s1: "delete_all_breakpoint_recursively (links s i) s = Some s1"
    and t: "free_BP i s1 = Some t"
    by (subst (asm) delete_all_breakpoint_recursively.simps)
      (auto simp: p links_def delete_all_breakpoint_recursively.simps [of None] split: bind_splits if_splits)
  have IH: "path (links s1) (free_list (bps s1)) (us @ fs) \<and> nodes_ok s1 (U - set us)"
    using Cons.prems s1 p by (intro Cons.IH) auto
  moreover have "i \<in> U - set us" using Cons.prems by auto
  ultimately have "path (links t) (free_list (bps t)) (i # us @ fs)" "nodes_ok t (U - set us - {i})"
    using free_BP_ok [OF t, of "U - set us"] Cons.prems(2) by auto
  moreover have "U - set us - {i} = U - set (i # us)" by auto
  ultimately show ?case by simp
qed

lemma delete_all_breakpoint_ok:
  assumes ok: "pool_ok s us fs" and d: "delete_all_breakpoint s = Some t"
  shows "pool_ok t [] (us @ fs)"
proof -
  obtain s1 where s1: "delete_all_breakpoint_recursively (head (bps s)) s = Some s1" and t: "t = set_head None s1"
    using d by (auto simp: delete_all_breakpoint_def split: bind_splits)
  note s = pool_okD [OF ok]
  have "path (links s1) (free_list (bps s1)) (us @ fs) \<and> nodes_ok s1 (set us - set us)"
    using s by (intro delete_all_recursively_ok [OF s(1) _ s(2) s(5) _ s1]) auto
  then show ?thesis using s(3,4) by (auto simp: pool_ok_def lists_ok_def nodes_ok_def t)
qed

section \<open>The loops\<close>

lemma same_pool_links: "same_pool s t \<Longrightarrow> links t = links s"
  by (simp add: same_pool_def links_def fun_eq_iff)

lemma bp_walk_same:
  assumes b: "\<And>i s t. body i s = Some t \<Longrightarrow> same_pool s t"
  shows "path (links s) p us \<Longrightarrow> bp_walk body p s = Some t \<Longrightarrow> same_pool s t"
proof (induction us arbitrary: p s)
  case Nil
  then show ?case by (subst (asm) bp_walk.simps) simp
next
  case (Cons i us)
  then obtain s1 where s1: "body i s = Some s1" "bp_walk body (links s1 i) s1 = Some t"
    by (subst (asm) (2) bp_walk.simps) (auto simp: links_def split: bind_splits)
  have "same_pool s1 t"
    using Cons.prems(1) same_pool_links [OF b [OF s1(1)]] by (intro Cons.IH [OF _ s1(2)]) simp
  then show ?case by (rule same_pool_trans [OF b [OF s1(1)]])
qed

lemma mask_body_same: "mask_body i s = Some t \<Longrightarrow> same_pool s t"
  by (auto simp: mask_body_def intro!: same_pool_bps vaddr_write_bps split: if_splits)

lemma resume_body_same: "resume_body i s = Some t \<Longrightarrow> same_pool s t"
proof -
  assume "resume_body i s = Some t"
  then consider "t = s" | s1 where "bps s1 = bps s" "t = upd_bp i (\<lambda>b. b\<lparr>bp_enable := True\<rparr>) s1"
    by (auto simp: resume_body_def dest: vaddr_write_bps split: if_splits bind_splits)
  then show ?thesis
    by cases (auto simp: same_pool_def bp_at_def upd_bp_def)
qed

lemma scan_from_same: "path (links s) p us \<Longrightarrow> scan_from p s = Some (q, t) \<Longrightarrow> same_pool s t"
proof (induction us arbitrary: p s)
  case Nil
  then show ?case by (subst (asm) scan_from.simps) simp
next
  case (Cons i us)
  let ?s = "\<lambda>v. upd_bp i (\<lambda>b. b\<lparr>new_val := v\<rparr>) s"
  have l: "links (?s v) = links s" "same_pool s (?s v)" for v by (auto simp: links_def fun_eq_iff same_pool_def)
  consider "t = s" | v where "t = ?s v" | "scan_from (links s i) s = Some (q, t)"
    | v where "scan_from (links s i) (?s v) = Some (q, t)"
    using Cons.prems by (subst (asm) (2) scan_from.simps) (auto simp: links_def Let_def split: if_splits bind_splits)
  then show ?case
  proof cases
    case (4 v)
    then have "same_pool (?s v) t" using Cons.prems(1) by (intro Cons.IH [of "?s v" "links s i"]) (simp_all add: l)
    then show ?thesis by (rule same_pool_trans [OF l(2)])
  qed (use Cons l in auto)
qed

lemma find_bp_from_eq:
  "path (links s) p us \<Longrightarrow> \<forall>i \<in> set us. in_use (bp_at s i) \<Longrightarrow>
     find_bp_from s addr p = Some (find (\<lambda>i. bp_type (bp_at s i) = BREAKPOINT \<and> bp_addr (bp_at s i) = addr) us)"
proof (induction us arbitrary: p)
  case (Cons i us)
  then show ?case by (subst find_bp_from.simps) (auto simp: links_def)
qed (subst find_bp_from.simps, simp)

lemma find_breakpoint_eq:
  "pool_ok s us fs \<Longrightarrow>
     find_breakpoint s addr = Some (find (\<lambda>i. bp_type (bp_at s i) = BREAKPOINT \<and> bp_addr (bp_at s i) = addr) us)"
  using pool_okD [of s us fs] by (simp add: find_breakpoint_def find_bp_from_eq)

lemma new_BP_full: "pool_ok s us fs \<Longrightarrow> new_BP s = None \<longleftrightarrow> fs = []"
  by (cases fs) (auto simp: new_BP_def pool_ok_def lists_ok_def nodes_ok_def Let_def)

lemma pool_size: "pool_ok s us fs \<Longrightarrow> length us + length fs = NR_BP"
  using distinct_card [of "us @ fs"] by (auto simp: pool_ok_def lists_ok_def)

section \<open>Sequences of operations\<close>

text \<open>
  The operations of the pool in any order, between them steps of the machine that do not touch it.
\<close>

inductive bp_op :: "machine \<Rightarrow> machine \<Rightarrow> bool" where
  op_set: "set_breakpoint addr s = Some (n, t) \<Longrightarrow> bp_op s t"
| op_watch: "set_watchpoint e s = Some (n, t) \<Longrightarrow> bp_op s t"
| op_delete: "delete_breakpoint no s = Some (b, t) \<Longrightarrow> bp_op s t"
| op_delete_all: "delete_all_breakpoint s = Some t \<Longrightarrow> bp_op s t"
| op_resume: "resume_breakpoints s = Some t \<Longrightarrow> bp_op s t"
| op_mask: "mask_breakpoints s = Some t \<Longrightarrow> bp_op s t"
| op_scan: "scan_watchpoint s = Some (q, t) \<Longrightarrow> bp_op s t"
| op_machine: "bps t = bps s \<Longrightarrow> bp_op s t"

lemma resume_ok: "pool_ok s us fs \<Longrightarrow> resume_breakpoints s = Some t \<Longrightarrow> pool_ok t us fs"
  unfolding resume_breakpoints_def
  by (rule same_pool_ok [OF bp_walk_same [OF resume_body_same pool_okD(1)]])

lemma mask_ok: "pool_ok s us fs \<Longrightarrow> mask_breakpoints s = Some t \<Longrightarrow> pool_ok t us fs"
  unfolding mask_breakpoints_def
  by (rule same_pool_ok [OF bp_walk_same [OF mask_body_same pool_okD(1)]])

lemma scan_ok: "pool_ok s us fs \<Longrightarrow> scan_watchpoint s = Some (q, t) \<Longrightarrow> pool_ok t us fs"
  unfolding scan_watchpoint_def by (rule same_pool_ok [OF scan_from_same [OF pool_okD(1)]])

lemmas op_ok = set_breakpoint_ok set_watchpoint_ok delete_breakpoint_ok delete_all_breakpoint_ok resume_ok mask_ok
  scan_ok same_pool_ok [OF same_pool_bps]

lemma bp_op_ok: "bp_op s t \<Longrightarrow> \<exists>us fs. pool_ok s us fs \<Longrightarrow> \<exists>us fs. pool_ok t us fs"
  by (induction rule: bp_op.induct) (blast dest: op_ok)+

text \<open>C24: whatever sequence of operations runs after \<open>init_bp_list\<close>, the list of the nodes in use and the
  free list are disjoint, without a cycle, and together hold the 32 nodes, each marked with its own number
  and whether it is in use; so the loop of \<open>find_breakpoint\<close> ends without a failing assertion and gives the
  first breakpoint of the list at the address, deleting a number that is not in use changes nothing, and a
  new node is refused exactly when all 32 are in use.\<close>

theorem bp_pool_invariant:
  "bp_op\<^sup>*\<^sup>* (init_bp_list s) t \<Longrightarrow> \<exists>us fs. pool_ok t us fs \<and>
     (\<forall>addr. find_breakpoint t addr =
        Some (find (\<lambda>i. bp_type (bp_at t i) = BREAKPOINT \<and> bp_addr (bp_at t i) = addr) us)) \<and>
     (\<forall>no. no \<in> set us \<or> delete_breakpoint no t = Some (False, t)) \<and>
     (new_BP t = None \<longleftrightarrow> length us = 32)"
proof -
  assume r: "bp_op\<^sup>*\<^sup>* (init_bp_list s) t"
  have "\<exists>us fs. pool_ok t us fs"
    using r by (induction rule: rtranclp_induct) (use init_pool_ok [of s] bp_op_ok in blast)+
  then obtain us fs where ok: "pool_ok t us fs" by blast
  then show ?thesis
    using find_breakpoint_eq [OF ok] delete_breakpoint_out [OF ok] new_BP_full [OF ok] pool_size [OF ok]
    by (intro exI [of _ us] exI [of _ fs]) (auto simp: NR_BP_def)
qed

theorem bp_pool_invariant_witness:
  "\<exists>t us fs. set_watchpoint ''1'' (init_bp_list machine0) = Some (0, t) \<and> pool_ok t us fs \<and>
     find_breakpoint t 1 \<noteq> None \<and> length us \<noteq> 32"
proof -
  have "\<exists>t. set_watchpoint ''1'' (init_bp_list machine0) = Some (0, t) \<and> new_BP t \<noteq> None"
    by (simp add: set_watchpoint_def expr_def new_BP_def init_bp_list_def NR_BP_def Let_def link_head_def
        bp_at_def upd_bp_def set_free_def set_head_def)
  then obtain t where t: "set_watchpoint ''1'' (init_bp_list machine0) = Some (0, t)" "new_BP t \<noteq> None" by blast
  from bp_pool_invariant [OF r_into_rtranclp [of bp_op, OF op_watch [OF t(1)]]] t show ?thesis by force
qed

section \<open>Setting and deleting a breakpoint\<close>

lemma ram_upd_bp [simp]: "ram (upd_bp i f s) r a n = ram s r a n" "lin (upd_bp i f s) r a = lin s r a"
  "ram (set_free p s) r a n = ram s r a n" "lin (set_free p s) r a = lin s r a"
  "ram (set_head p s) r a n = ram s r a n" "lin (set_head p s) r a = lin s r a"
  by (simp_all add: ram_def lram_def lin_def upd_bp_def set_free_def set_head_def)

lemma bp_at_hw_mem [simp]: "bp_at (s\<lparr>hw_mem := m\<rparr>) = bp_at s" "links (s\<lparr>hw_mem := m\<rparr>) = links s"
  by (simp_all add: bp_at_def links_def fun_eq_iff)

lemma ram_QDISK: "ram s r a 1 \<Longrightarrow> a < QDISK_BASE" by (simp add: ram_def)

lemma mem_byte [simp]: "mem_get m a (Suc 0) = ucast (m a)" "mem_put m a (Suc 0) d = m(a := ucast d)" for a :: u32
  by simp_all

lemma ucast_byte [simp]: "ucast (ucast b :: u32) = b" for b :: u8
  by (rule bit_word_eqI) (simp add: bit_simps)

lemma set_breakpoint_step:
  assumes ok: "pool_ok s us (n # fs)" and r: "ram s SREG_CS a 1"
  shows "\<exists>t. set_breakpoint a s = Some (n, t) \<and> hw_mem t = (hw_mem s)(lin s SREG_CS a := 0xf1) \<and>
     ori_byte (bp_at t n) = hw_mem s (lin s SREG_CS a) \<and> bp_addr (bp_at t n) = a \<and> bp_type (bp_at t n) = BREAKPOINT \<and>
     lin t SREG_CS a = lin s SREG_CS a \<and> ram t SREG_CS a 1"
proof -
  note p = pool_okD [OF ok]
  let ?l = "lin s SREG_CS a"
  have n: "free_list (bps s) = Some n" "n < NR_BP" "NO (bp_at s n) = n" "\<not> in_use (bp_at s n)"
    using p by (auto simp: nodes_ok_def)
  have r1: "instr_fetch u a 1 = Some (ucast (hw_mem u (lin u SREG_CS a)))"
    "vaddr_write u a SREG_CS 1 d = Some (u\<lparr>hw_mem := (hw_mem u)(lin u SREG_CS a := ucast d)\<rparr>)"
    if "ram u SREG_CS a 1" for u d
    using vaddr_read_ram [OF that] vaddr_write_ram [OF that]
    by (simp_all add: instr_fetch_def len_ok_def)
  let ?u = "upd_bp n (\<lambda>b. b\<lparr>bp_type := BREAKPOINT, bp_addr := a\<rparr>)
    (upd_bp n (\<lambda>b. b\<lparr>in_use := True\<rparr>) (set_free (bp_next (bp_at s n)) s))"
  let ?v = "upd_bp n (\<lambda>b. b\<lparr>ori_byte := hw_mem s ?l\<rparr>) ?u"
  let ?t = "link_head n (upd_bp n (\<lambda>b. b\<lparr>bp_enable := True\<rparr>) (?v\<lparr>hw_mem := (hw_mem s)(?l := 0xf1)\<rparr>))"
  have "set_breakpoint a s = Some (n, ?t)"
    using n r by (simp add: set_breakpoint_def new_BP_def Let_def r1 [simplified] INT3_CODE_def)
  then show ?thesis using r by (auto simp: link_head_def)
qed

lemma free_BP_step:
  assumes "i < NR_BP" "in_use (bp_at s i)" "bp_type (bp_at s i) = BREAKPOINT" "ram s SREG_CS (bp_addr (bp_at s i)) 1"
  shows "\<exists>t. free_BP i s = Some t \<and>
     hw_mem t = (hw_mem s)(lin s SREG_CS (bp_addr (bp_at s i)) := ori_byte (bp_at s i))"
  using assms vaddr_write_ram [OF assms(4)] by (simp add: free_BP_def Let_def)

text \<open>C25: setting a breakpoint in plain RAM while a node is free succeeds, takes the first free node, puts
  the breakpoint byte at the address and leaves every other byte of the memory alone; deleting the
  breakpoint by the number returned succeeds, restores the memory, and leaves the two lists as they were.\<close>

theorem breakpoint_set_delete:
  "pool_ok s us (n # fs) \<Longrightarrow> ram s SREG_CS a 1 \<Longrightarrow>
     \<exists>t u. set_breakpoint a s = Some (n, t) \<and> hw_mem t = (hw_mem s)(lin s SREG_CS a := 0xf1) \<and>
       find_breakpoint t a = Some (Some n) \<and>
       delete_breakpoint n t = Some (True, u) \<and> hw_mem u = hw_mem s \<and> pool_ok u us (n # fs)"
proof -
  assume ok: "pool_ok s us (n # fs)" and r: "ram s SREG_CS a 1"
  obtain t where t: "set_breakpoint a s = Some (n, t)" and m: "hw_mem t = (hw_mem s)(lin s SREG_CS a := 0xf1)"
    and at: "ori_byte (bp_at t n) = hw_mem s (lin s SREG_CS a)" "bp_addr (bp_at t n) = a" "bp_type (bp_at t n) = BREAKPOINT"
    and l: "lin t SREG_CS a = lin s SREG_CS a" "ram t SREG_CS a 1"
    using set_breakpoint_step [OF ok r] by blast
  have ok': "pool_ok t (n # us) fs" using set_breakpoint_ok [OF ok t] by simp
  note p = pool_okD [OF ok']
  have f: "find_NO t n None (head (bps t)) = Some (None, Some n)"
    using find_NO_in [of t "head (bps t)" "[]" n us None] p by auto
  let ?t = "set_head (bp_next (bp_at t n)) t"
  have "\<exists>u. free_BP n ?t = Some u \<and> hw_mem u = (hw_mem ?t)(lin ?t SREG_CS (bp_addr (bp_at ?t n)) := ori_byte (bp_at ?t n))"
    by (rule free_BP_step) (use p at l in \<open>auto simp: nodes_ok_def\<close>)
  then obtain u where u: "free_BP n ?t = Some u" "hw_mem u = hw_mem s"
    by (auto simp: at m l [simplified])
  then have d: "delete_breakpoint n t = Some (True, u)" by (simp add: delete_breakpoint_def f)
  moreover have "pool_ok u us (n # fs)" using delete_breakpoint_in [of t "[]" n us fs True u] ok' d by simp
  moreover have "find_breakpoint t a = Some (Some n)" using find_breakpoint_eq [OF ok'] at by simp
  ultimately show ?thesis using t m u(2) by blast
qed

theorem breakpoint_set_delete_witness:
  "\<exists>t u. set_breakpoint 0x1000 (init_bp_list machine0) = Some (0, t) \<and> find_breakpoint t 0x1000 = Some (Some 0) \<and>
     delete_breakpoint 0 t = Some (True, u) \<and> hw_mem u = hw_mem machine0"
proof -
  have m: "hw_mem (init_bp_list machine0) = hw_mem machine0"
    and r: "ram (init_bp_list machine0) SREG_CS 0x1000 1 = ram machine0 SREG_CS 0x1000 1"
    by (simp_all add: init_bp_list_def Let_def ram_def lram_def lin_def)
  have "[0..<32] = (0::nat) # [1..<32]" using upt_conv_Cons [of 0 32] by simp
  then have "pool_ok (init_bp_list machine0) [] (0 # [1..<32])" using init_pool_ok [of machine0] by simp
  then show ?thesis
    using breakpoint_set_delete [of "init_bp_list machine0" "[]" 0 "[1..<32]" "0x1000"] r m
      ram_machine0 [of SREG_CS 1 "0x1000"]
    by (auto simp: len_ok_def)
qed

end
