(* ===== verification/Fpu_Rounding.thy ===== *)
theory Fpu_Rounding
  imports Complex_Main Fpu
begin

text \<open>
  Correct rounding. A finite single-precision number is a multiple of \<open>2 ^ -149\<close>; \<open>pmag p\<close> counts the
  multiples for the 31 bits \<open>p\<close> of a magnitude, up to the infinity, which stands for \<open>2 ^ 128\<close>. The result
  of an operation is right when no other magnitude is nearer to the exact value and a tie goes to an even one.
\<close>

section \<open>Magnitudes\<close>

definition pmag :: "nat \<Rightarrow> nat" where
  "pmag p = (if p div 2 ^ 23 = 0 then p else (2 ^ 23 + p mod 2 ^ 23) * 2 ^ (p div 2 ^ 23 - 1))"

text \<open>The pattern of a significand \<open>F\<close> at the exponent \<open>E\<close>; a significand of \<open>2 ^ 24\<close> carries over.\<close>

definition pat :: "nat \<Rightarrow> nat \<Rightarrow> nat" where "pat E F = (E - 1) * 2 ^ 23 + F"

definition in_range :: "nat \<Rightarrow> nat \<Rightarrow> bool" where
  "in_range E F \<longleftrightarrow> 1 \<le> E \<and> F \<le> 2 ^ 24 \<and> (E = 1 \<or> 2 ^ 23 \<le> F)"

lemma pmag_low: "F < 2 ^ 24 \<Longrightarrow> pmag F = F"
proof -
  assume "F < 2 ^ 24"
  then have "F div 2 ^ 23 = 0 \<or> F div 2 ^ 23 = 1 \<and> 2 ^ 23 + F mod 2 ^ 23 = F" by (auto simp: div_if mod_if)
  then show ?thesis by (auto simp: pmag_def)
qed

lemma pmag_high: "F < 2 ^ 23 \<Longrightarrow> 1 \<le> E \<Longrightarrow> pmag (E * 2 ^ 23 + F) = (2 ^ 23 + F) * 2 ^ (E - 1)"
  by (simp add: pmag_def div_add1_eq)

lemma pmag_pat:
  assumes "in_range E F"
  shows "pmag (pat E F) = F * 2 ^ (E - 1)"
proof -
  consider "E = 1" "F < 2 ^ 24" | "2 ^ 23 \<le> F" "F < 2 ^ 24" | "F = 2 ^ 24"
    using assms by (auto simp: in_range_def le_less)
  then show ?thesis
  proof cases
    case 1
    then show ?thesis by (simp add: pat_def pmag_low)
  next
    case 2
    then have "pat E F = E * 2 ^ 23 + (F - 2 ^ 23)" using assms by (cases E) (auto simp: pat_def in_range_def)
    then show ?thesis using 2 assms pmag_high [of "F - 2 ^ 23" E] by (simp add: in_range_def)
  next
    case 3
    then have "pat E F = Suc E * 2 ^ 23 + 0" using assms by (cases E) (auto simp: pat_def in_range_def)
    then show ?thesis using 3 assms pmag_high [of 0 "Suc E"] by (cases E) (auto simp: in_range_def)
  qed
qed

lemma pmag_Suc: "pmag (Suc p) = pmag p + 2 ^ (max (p div 2 ^ 23) 1 - 1)"
proof -
  obtain d m where dm: "p = d * 2 ^ 23 + m" "m < 2 ^ 23"
    using div_mult_mod_eq [of p "2 ^ 23"] mod_less_divisor [of "2 ^ 23" p] by (metis pos2 zero_less_power)
  then have d: "p div 2 ^ 23 = d" by simp
  let ?E = "max d 1" and ?F = "(if d = 0 then 0 else 2 ^ 23) + m"
  have r: "in_range ?E ?F" "in_range ?E (Suc ?F)" using dm(2) unfolding in_range_def by auto
  have "p = pat ?E ?F" by (cases d) (simp_all add: dm(1) pat_def)
  moreover from this have "Suc p = pat ?E (Suc ?F)" by (simp add: pat_def)
  ultimately show ?thesis using pmag_pat [OF r(1)] pmag_pat [OF r(2)] d by simp
qed

lemma pmag_less: "p < q \<Longrightarrow> pmag p < pmag q"
  by (rule lift_Suc_mono_less [of pmag]) (simp_all add: pmag_Suc)

lemma pmag_le: "p \<le> q \<Longrightarrow> pmag p \<le> pmag q"
  using pmag_less [of p q] by (auto simp: le_less)

section \<open>Rounding\<close>

definition max_mag :: nat where "max_mag = 255 * 2 ^ 23"

definition nearest :: "nat \<Rightarrow> real \<Rightarrow> bool" where
  "nearest p x \<longleftrightarrow> p \<le> max_mag \<and> (\<forall>q \<le> max_mag. q \<noteq> p \<longrightarrow>
     \<bar>x - real (pmag p)\<bar> < \<bar>x - real (pmag q)\<bar> \<or> \<bar>x - real (pmag p)\<bar> = \<bar>x - real (pmag q)\<bar> \<and> even p)"

text \<open>A significand with three more bits, and the decision that the rounding has to make.\<close>

definition near :: "real \<Rightarrow> nat \<Rightarrow> bool" where
  "near y F \<longleftrightarrow> \<bar>y - 8 * real F\<bar> \<le> 4 \<and> (\<bar>y - 8 * real F\<bar> = 4 \<longrightarrow> even F)"

lemma even_pat: "even (pat E F) \<longleftrightarrow> even F"
  by (simp add: pat_def)

lemma abs_farther:
  fixes x p q u :: real
  assumes "\<bar>x - p\<bar> \<le> u / 2" "\<bar>x - p\<bar> = u / 2 \<longrightarrow> P" "p + u \<le> q \<or> q + u \<le> p"
  shows "\<bar>x - p\<bar> < \<bar>x - q\<bar> \<or> \<bar>x - p\<bar> = \<bar>x - q\<bar> \<and> P"
proof (cases "\<bar>x - p\<bar> = u / 2")
  case True
  then have "\<bar>x - p\<bar> \<le> \<bar>x - q\<bar>" using assms(3) by linarith
  then show ?thesis using True assms(2) by linarith
next
  case False
  then have "\<bar>x - p\<bar> < \<bar>x - q\<bar>" using assms(1,3) by linarith
  then show ?thesis by blast
qed

lemma nearest_pat:
  assumes r: "in_range E F" "E \<le> 254" and n: "near y F" and y: "0 \<le> y" "E = 1 \<or> 2 ^ 26 \<le> y"
  shows "nearest (pat E F) (y / 8 * 2 ^ (E - 1))"
proof -
  let ?p = "pat E F" and ?u = "(2 :: real) ^ (E - 1)" and ?x = "y / 8 * 2 ^ (E - 1)"
  have u: "?u > 0" by simp
  have P: "real (pmag ?p) = real F * ?u" using pmag_pat [OF r(1)] by simp
  have "?p \<le> max_mag" using r by (auto simp: pat_def in_range_def max_mag_def)
  moreover have "\<bar>?x - real (pmag ?p)\<bar> < \<bar>?x - real (pmag q)\<bar> \<or>
      \<bar>?x - real (pmag ?p)\<bar> = \<bar>?x - real (pmag q)\<bar> \<and> even ?p" if q: "q \<noteq> ?p" for q
  proof -
    have "?x - real (pmag ?p) = (y - 8 * real F) / 8 * ?u" by (simp add: P algebra_simps)
    then have d: "\<bar>?x - real (pmag ?p)\<bar> = \<bar>y - 8 * real F\<bar> / 8 * ?u" by (simp only: abs_mult abs_divide) simp
    have half: "\<bar>?x - real (pmag ?p)\<bar> \<le> ?u / 2" "\<bar>?x - real (pmag ?p)\<bar> = ?u / 2 \<longrightarrow> even F"
      using n u unfolding d near_def by auto
    show ?thesis
    proof (cases "?p < q")
      case True
      have "real (pmag ?p) + ?u \<le> real (pmag (Suc ?p))"
      proof -
        have "E \<le> max (?p div 2 ^ 23) 1"
          using r(1) by (auto simp: pat_def in_range_def div_add1_eq le_less)
        then have "(2 :: nat) ^ (E - 1) \<le> 2 ^ (max (?p div 2 ^ 23) 1 - 1)" by (intro power_increasing) auto
        then have "pmag ?p + 2 ^ (E - 1) \<le> pmag (Suc ?p)" unfolding pmag_Suc by simp
        from of_nat_mono [OF this, where ?'a = real] show ?thesis by simp
      qed
      also have "real (pmag (Suc ?p)) \<le> real (pmag q)" using pmag_le [of "Suc ?p" q] True by simp
      finally have "real (pmag ?p) + ?u \<le> real (pmag q)" .
      then show ?thesis unfolding even_pat by (intro abs_farther [OF half]) simp
    next
      case False
      then have less: "q < ?p" using q by simp
      then obtain p' where p': "?p = Suc p'" by (cases ?p) auto
      have qp: "real (pmag q) \<le> real (pmag p')" using pmag_le [of q p'] less p' by simp
      show ?thesis
      proof (cases "E > 1 \<and> F = 2 ^ 23")
        case True
        then have "real F * ?u \<le> ?x" using y(2) by simp
        then have "real (pmag ?p) \<le> ?x" by (simp only: P)
        moreover have "real (pmag q) < real (pmag ?p)" using pmag_less [OF less] by simp
        ultimately show ?thesis by auto
      next
        case False
        have "max (p' div 2 ^ 23) 1 = E"
        proof (cases "E = 1")
          case True
          then have "p' < 2 * 2 ^ 23" using r(1) p' by (simp add: pat_def in_range_def)
          then have "p' div 2 ^ 23 < 2" by (rule less_mult_imp_div_less)
          then show ?thesis using True by simp
        next
          case E: False
          then have "p' = E * 2 ^ 23 + (F - 1 - 2 ^ 23)" "F - 1 - 2 ^ 23 < 2 ^ 23"
            using False r(1) p' by (cases E; auto simp: pat_def in_range_def)+
          then have "p' div 2 ^ 23 = E" by simp
          then show ?thesis using r(1) by (simp add: in_range_def)
        qed
        then have "real (pmag ?p) = real (pmag p') + ?u" using pmag_Suc [of p'] p' by simp
        then show ?thesis unfolding even_pat using qp by (intro abs_farther [OF half]) simp
      qed
    qed
  qed
  ultimately show ?thesis by (simp add: nearest_def)
qed

section \<open>Shifting with a sticky bit\<close>

text \<open>The bits \<open>g\<close> stand for \<open>y\<close>: exactly, or, when the last one is set, up to a difference below one.\<close>

definition jam :: "real \<Rightarrow> nat \<Rightarrow> bool" where
  "jam y g \<longleftrightarrow> y = real g \<or> odd g \<and> real g - 1 < y \<and> y < real g + 1"

lemma jam_half: "jam y n \<Longrightarrow> jam (y / 2) (n div 2 + (if even (n div 2) then n mod 2 else 0))"
proof -
  assume j: "jam y n"
  show ?thesis
  proof (cases "even n")
    case True
    then obtain k where "n = 2 * k" by blast
    then show ?thesis using j by (simp add: jam_def)
  next
    case False
    then obtain k where k: "n = 2 * k + 1" by (blast elim: oddE)
    then have "real k < y / 2" "y / 2 < real k + 1" using j by (auto simp: jam_def)
    then show ?thesis by (cases "even k") (auto simp: jam_def k)
  qed
qed

lemma jam_shift: "jam y (unat g) \<Longrightarrow> jam (y / 2) (unat (shift_sticky g))"
  unfolding unat_shift_sticky by (rule jam_half)

lemma jam_ge: "jam y g \<Longrightarrow> 2 * k \<le> g \<Longrightarrow> real (2 * k) \<le> y"
proof -
  assume a: "jam y g" "2 * k \<le> g"
  show ?thesis
  proof (cases "y = real g")
    case False
    then have "odd g" "real g - 1 < y" using a(1) by (auto simp: jam_def)
    moreover from this have "2 * k + 1 \<le> g" using a(2) by (auto elim: oddE)
    then have "real (2 * k) + 1 \<le> real g" by linarith
    ultimately show ?thesis by linarith
  qed (use a in simp)
qed

lemma jam_0: "jam y g \<Longrightarrow> 0 \<le> y"
  using jam_ge [of y g 0] by simp

lemma norm_right_jam:
  "norm_right e g = (e', g') \<Longrightarrow> 1 \<le> e \<Longrightarrow> jam y (unat g) \<Longrightarrow> 2 ^ 26 \<le> unat g \<Longrightarrow>
   e \<le> e' \<and> e' \<le> max 255 e \<and> jam (y / 2 ^ nat (e' - e)) (unat g') \<and> 2 ^ 26 \<le> unat g'"
proof (induction e g arbitrary: y rule: norm_right.induct)
  case (1 e g)
  show ?case
  proof (cases "drop_bit 26 g > 1 \<and> e < 0xff")
    case True
    then have r: "norm_right (e + 1) (shift_sticky g) = (e', g')" using 1(2) by (subst (asm) norm_right.simps) simp
    have big: "2 ^ 27 \<le> unat g" using True drop_bit_26_1 [of g] by simp
    have "2 ^ 26 \<le> unat (shift_sticky g)" using big by (simp add: unat_shift_sticky)
    then have IH: "e + 1 \<le> e' \<and> e' \<le> max 255 (e + 1) \<and> jam (y / 2 / 2 ^ nat (e' - (e + 1))) (unat g') \<and> 2 ^ 26 \<le> unat g'"
      using True 1(3) by (intro 1(1) [OF _ r _ jam_shift [OF 1(4)]]) auto
    then have "nat (e' - e) = Suc (nat (e' - (e + 1)))" by linarith
    then have "y / 2 / 2 ^ nat (e' - (e + 1)) = y / 2 ^ nat (e' - e)" by simp
    then show ?thesis using IH True by auto
  next
    case False
    then have "e' = e" "g' = g" using 1(2,3) by (subst (asm) norm_right.simps, simp)+
    then show ?thesis using 1 by simp
  qed
qed

section \<open>Rounding the significand\<close>

definition round_ok :: "real \<Rightarrow> nat \<Rightarrow> bool" where
  "round_ok y g \<longleftrightarrow> y = real g \<or> \<not> 4 dvd g \<and> real (g - g mod 4) < y \<and> y < real (g - g mod 4) + 4"

lemma jam_round_ok: "jam y g \<Longrightarrow> round_ok y g"
proof -
  assume j: "jam y g"
  show ?thesis
  proof (cases "y = real g")
    case False
    then have o: "odd g" "real g - 1 < y" "y < real g + 1" using j by (auto simp: jam_def)
    then have m: "g mod 4 = 1 \<or> g mod 4 = 3" by presburger
    moreover have "g mod 4 \<le> g" by simp
    ultimately have "\<not> 4 dvd g" "real (g - g mod 4) = real g - real (g mod 4)" by (auto simp: of_nat_diff dvd_eq_mod_eq_0)
    then show ?thesis using o m by (auto simp: round_ok_def)
  qed (simp add: round_ok_def)
qed

lemma jam_double: "jam y g \<Longrightarrow> round_ok (2 * y) (2 * g)"
proof -
  assume j: "jam y g"
  show ?thesis
  proof (cases "y = real g")
    case False
    then have o: "odd g" "real g - 1 < y" "y < real g + 1" using j by (auto simp: jam_def)
    then have "(2 * g) mod 4 = 2" by presburger
    moreover have "2 \<le> 2 * g" using o(1) by (cases g) auto
    ultimately show ?thesis using o by (auto simp: round_ok_def dvd_eq_mod_eq_0)
  qed (simp add: round_ok_def)
qed

lemma round_phase_nat:
  assumes "unat g < 2 ^ 27"
  shows "unat (fst (round_phase g)) = (if unat g mod 8 > 4 \<or> unat g mod 8 = 4 \<and> odd (unat g div 8) then unat g div 8 + 1 else unat g div 8)"
    "snd (round_phase g) \<longleftrightarrow> unat g mod 8 > 4 \<or> unat g mod 8 = 4 \<and> odd (unat g div 8)"
proof -
  have f: "unat (drop_bit 3 g) = unat g div 8" by (simp add: unat_drop_bit)
  have "unat g div 8 < 2 ^ 24" using assms by (simp add: less_mult_imp_div_less)
  then have f1: "unat (drop_bit 3 g + 1) = unat g div 8 + 1" using f by (simp add: unat_word_ariths)
  have c: "g AND 7 < 4 \<longleftrightarrow> unat g mod 8 < 4" "g AND 7 > 4 \<longleftrightarrow> unat g mod 8 > 4"
    by (simp_all add: word_less_nat_alt unat_and_7)
  have e: "drop_bit 3 g mod 2 = 0 \<longleftrightarrow> even (unat g div 8)"
    using f by (simp add: word_unat_eq_iff unat_mod even_iff_mod_2_eq_zero del: drop_bit_eq_div)
  show "unat (fst (round_phase g)) = (if unat g mod 8 > 4 \<or> unat g mod 8 = 4 \<and> odd (unat g div 8) then unat g div 8 + 1 else unat g div 8)"
    "snd (round_phase g) \<longleftrightarrow> unat g mod 8 > 4 \<or> unat g mod 8 = 4 \<and> odd (unat g div 8)"
    unfolding round_phase_def Let_def c e using f f1 by auto
qed

lemma round_phase_near:
  assumes r: "round_ok y (unat g)" and b: "unat g < 2 ^ 27"
  shows "near y (unat (fst (round_phase g)))"
proof -
  define F where "F = unat g div 8"
  define r where "r = unat g mod 8"
  have n: "unat g = 8 * F + r" "r < 8" by (simp_all add: F_def r_def)
  have "unat g mod 4 = r mod 4" unfolding n by presburger
  moreover have "4 dvd unat g \<longleftrightarrow> r = 0 \<or> r = 4" using n by presburger
  moreover have "r - r mod 4 = (if r < 4 then 0 else 4)" using n(2) by presburger
  ultimately have y: "y = 8 * real F + real r \<or>
      r \<noteq> 0 \<and> r \<noteq> 4 \<and> 8 * real F + (if r < 4 then 0 else 4) < y \<and> y < 8 * real F + (if r < 4 then 4 else 8)"
    using r by (auto simp: round_ok_def n(1) split: if_splits)
  have "near y (if r > 4 \<or> r = 4 \<and> odd F then F + 1 else F)"
  proof (cases "r = 4")
    case True
    then show ?thesis using y by (auto simp: near_def)
  next
    case False
    have "real r \<le> 3 \<or> real r \<ge> 5" using False by linarith
    moreover have "real r < 8" using n(2) by simp
    ultimately show ?thesis using y False by (auto simp: near_def split: if_splits)
  qed
  then show ?thesis unfolding round_phase_nat [OF b] F_def r_def .
qed

section \<open>Normalisation\<close>

text \<open>The value, in units of \<open>2 ^ -149\<close>, of \<open>y\<close> at the exponent \<open>e\<close>; 0 and 1 are the same scale.\<close>

definition xval :: "int \<Rightarrow> real \<Rightarrow> real" where "xval e y = y / 8 * 2 ^ (nat e - 1)"

definition normal :: "int \<Rightarrow> nat \<Rightarrow> real \<Rightarrow> bool" where
  "normal e g y \<longleftrightarrow> round_ok y g \<and> 0 \<le> y \<and> (e = 0 \<and> g < 2 ^ 26 \<or> 1 \<le> e \<and> e \<le> 254 \<and> 2 ^ 26 \<le> g \<and> g < 2 ^ 27 \<and> 2 ^ 26 \<le> y)"

lemma norm_left_exact:
  "norm_left e g = (e', g') \<Longrightarrow> 0 \<le> e \<Longrightarrow> unat g < 2 ^ 26 \<Longrightarrow>
   0 \<le> e' \<and> e' \<le> e \<and> unat g' = unat g * 2 ^ nat (e - e') \<and> unat g' < 2 ^ 27 \<and> (e' = 0 \<or> 2 ^ 26 \<le> unat g')"
proof (induction e g rule: norm_left.induct)
  case (1 e g)
  have g2: "unat (push_bit 1 g) = 2 * unat g" using 1(4) by (simp add: unat_push_bit_1 [simplified])
  show ?case
  proof (cases "e = 0")
    case True
    then show ?thesis using 1(2,4) by (subst (asm) norm_left.simps) simp
  next
    case False
    then have c: "drop_bit 26 g = 0 \<and> e > 0" using 1(3,4) by (simp add: drop_bit_26_0)
    then have l: "norm_left (e - 1) (push_bit 1 g) = (e', g')" using 1(2) by (subst (asm) norm_left.simps) simp
    show ?thesis
    proof (cases "unat (push_bit 1 g) < 2 ^ 26")
      case True
      then have "0 \<le> e' \<and> e' \<le> e - 1 \<and> unat g' = unat (push_bit 1 g) * 2 ^ nat (e - 1 - e') \<and> unat g' < 2 ^ 27 \<and> (e' = 0 \<or> 2 ^ 26 \<le> unat g')"
        using c by (intro 1(1) [OF c l]) auto
      note IH = this [unfolded g2]
      then have "nat (e - e') = Suc (nat (e - 1 - e'))" by linarith
      with IH show ?thesis by auto
    next
      case False
      then have "e' = e - 1" "g' = push_bit 1 g"
        using l drop_bit_26_0 [of "push_bit 1 g"] by (subst (asm) norm_left.simps, simp)+
      then show ?thesis using c 1(4) False g2 by simp
    qed
  qed
qed

lemma pmag_max: "pmag max_mag = 2 ^ 23 * 2 ^ 254"
  by (simp add: pmag_def max_mag_def)

lemma norm_phase_value:
  assumes e: "0 \<le> e" "e \<le> 254" and j: "jam y (unat g)" and small: "2 ^ 25 \<le> unat g \<or> y = real (unat g)"
    and z: "e = 0 \<Longrightarrow> unat g < 2 ^ 27" and n: "norm_phase e g = (over, e', g')"
  shows "over \<and> e' = 255 \<and> g' = 0 \<and> real (pmag max_mag) \<le> xval e y \<or>
     \<not> over \<and> (\<exists>y'. normal e' (unat g') y' \<and> xval e' y' = xval e y)"
proof -
  have p_inf: "uint (f_exponent P_INF_F) = 255" "f_fraction P_INF_F = 0"
    by (simp_all add: f_exponent_def f_fraction_def P_INF_F_def bf_get_def)
  consider "2 ^ 27 \<le> unat g" "1 \<le> e" | "unat g < 2 ^ 26" "1 \<le> e" | "e = 0" "2 ^ 26 \<le> unat g" "unat g < 2 ^ 27"
    | "e = 0" "unat g < 2 ^ 26" | "1 \<le> e" "2 ^ 26 \<le> unat g" "unat g < 2 ^ 27"
    using z e(1) by linarith
  then show ?thesis
  proof cases
    case 1
    obtain e1 g1 where r: "norm_right e g = (e1, g1)" by fastforce
    have big: "drop_bit 26 g > 1" using 1 by (simp add: drop_bit_26_1)
    have j1: "e \<le> e1 \<and> e1 \<le> max 255 e \<and> jam (y / 2 ^ nat (e1 - e)) (unat g1) \<and> 2 ^ 26 \<le> unat g1"
      using 1 by (intro norm_right_jam [OF r _ j]) auto
    let ?y = "y / 2 ^ nat (e1 - e)"
    have x: "xval e1 ?y = xval e y"
    proof -
      have "nat e1 - 1 = nat (e1 - e) + (nat e - 1)" using j1 1(2) by linarith
      then show ?thesis by (simp add: xval_def power_add)
    qed
    have y26: "2 ^ 26 \<le> ?y" using jam_ge [of ?y "unat g1" "2 ^ 25"] j1 by simp
    show ?thesis
    proof (cases "e1 \<ge> 255")
      case True
      then have e1: "e1 = 255" using j1 e(2) by simp
      then have "norm_phase e g = (True, 255, 0)" using big by (simp add: norm_phase_def r p_inf)
      moreover have "real (pmag max_mag) \<le> xval e1 ?y" using y26 by (simp add: xval_def e1 pmag_max)
      ultimately show ?thesis using n x by simp
    next
      case False
      then have "norm_phase e g = (False, e1, g1)" using big j1 1(2) by (simp add: norm_phase_def r)
      moreover have "unat g1 < 2 ^ 27" using norm_right_bound [OF r] False by simp
      then have "normal e1 (unat g1) ?y" using j1 y26 1(2) False jam_round_ok jam_0 by (auto simp: normal_def)
      ultimately show ?thesis using n x by auto
    qed
  next
    case 2
    obtain e1 g1 where l: "norm_left e g = (e1, g1)" by fastforce
    have d: "drop_bit 26 g = 0" using 2 by (simp add: drop_bit_26_0)
    have p: "norm_phase e g = (False, e1, if e1 = 0 then shift_sticky g1 else g1)"
      using d 2(2) by (simp add: norm_phase_def l)
    have l1: "0 \<le> e1 \<and> e1 \<le> e \<and> unat g1 = unat g * 2 ^ nat (e - e1) \<and> unat g1 < 2 ^ 27 \<and> (e1 = 0 \<or> 2 ^ 26 \<le> unat g1)"
      using 2 by (intro norm_left_exact [OF l]) auto
    show ?thesis
    proof (cases "y = real (unat g)")
      case True
      show ?thesis
      proof (cases "e1 = 0")
        case True
        obtain k where k: "nat e = Suc k" using 2(2) by (cases "nat e") auto
        have g1: "unat g1 = 2 * (unat g * 2 ^ (nat e - 1))" using l1 True k by simp
        then have s: "unat (shift_sticky g1) = unat g * 2 ^ (nat e - 1)" by (simp add: unat_shift_sticky)
        then have "normal 0 (unat (shift_sticky g1)) (real (unat (shift_sticky g1)))"
        proof -
          have "unat g1 = 2 * unat (shift_sticky g1)" by (simp only: g1 s)
          moreover have "unat g1 < 2 * 2 ^ 26" using l1 by simp
          ultimately have "unat (shift_sticky g1) < 2 ^ 26" by linarith
          then show ?thesis unfolding normal_def round_ok_def using of_nat_0_le_iff by blast
        qed
        moreover have "xval 0 (real (unat (shift_sticky g1))) = xval e y"
          by (simp add: xval_def s \<open>y = _\<close>)
        ultimately show ?thesis using n p True by auto
      next
        case False
        have k: "nat e - 1 = nat (e - e1) + (nat e1 - 1)" using l1 False by linarith
        have "normal e1 (unat g1) (real (unat g1))"
        proof -
          have "2 ^ 26 \<le> unat g1" "unat g1 < 2 ^ 27" "1 \<le> e1" "e1 \<le> 254" using l1 False e(2) by auto
          moreover from this have "real (2 ^ 26) \<le> real (unat g1)" by (intro of_nat_mono)
          ultimately show ?thesis unfolding normal_def round_ok_def using of_nat_0_le_iff by simp
        qed
        moreover have "xval e1 (real (unat g1)) = xval e y"
        proof -
          have "(2 :: real) ^ (nat e - 1) = 2 ^ nat (e - e1) * 2 ^ (nat e1 - 1)" unfolding k by (rule power_add)
          moreover have "real (unat g1) = y * 2 ^ nat (e - e1)" using l1 \<open>y = _\<close> by simp
          ultimately show ?thesis unfolding xval_def by simp
        qed
        ultimately show ?thesis using n p False by auto
      qed
    next
      case False
      then have b: "2 ^ 25 \<le> unat g" and o: "odd (unat g)" using small j by (auto simp: jam_def)
      have g2: "unat (push_bit 1 g) = 2 * unat g" using 2 by (simp add: unat_push_bit_1 [simplified])
      have "norm_left e g = norm_left (e - 1) (push_bit 1 g)" using d 2(2) by (subst norm_left.simps) simp
      also have "\<dots> = (e - 1, push_bit 1 g)"
        using b g2 drop_bit_26_0 [of "push_bit 1 g"] by (subst norm_left.simps) simp
      finally have l': "e1 = e - 1" "g1 = push_bit 1 g" using l by simp_all
      show ?thesis
      proof (cases "e = 1")
        case True
        have "unat (shift_sticky g1) = unat g" unfolding l' unat_shift_sticky g2 by simp
        then have "normal 0 (unat (shift_sticky g1)) y" using 2(1) jam_round_ok [OF j] jam_0 [OF j] by (simp add: normal_def)
        moreover have "xval 0 y = xval e y" by (simp add: xval_def True)
        ultimately show ?thesis using n p True l'(1) by auto
      next
        case False
        have "real (2 * 2 ^ 24) \<le> y" using b by (intro jam_ge [OF j]) simp
        then have "normal e1 (unat g1) (2 * y)"
          using jam_double [OF j] 2 b e(2) False jam_0 [OF j] unfolding l' g2 by (simp add: normal_def)
        moreover have "xval e1 (2 * y) = xval e y"
        proof -
          have "nat e - 1 = Suc (nat (e - 1) - 1)" using 2(2) False by linarith
          then have "(2 :: real) ^ (nat e - 1) = 2 * 2 ^ (nat (e - 1) - 1)" by (simp only: power_Suc)
          then show ?thesis unfolding xval_def l'(1) by simp
        qed
        ultimately show ?thesis using n p False l'(1) by auto
      qed
    qed
  next
    case 3
    then have "unat (drop_bit 26 g) = 1" by (simp add: unat_drop_bit div_nat_eqI)
    then have "drop_bit 26 g = 1" by (simp only: word_unat_eq_iff unsigned_1)
    then have "norm_phase e g = (False, 1, g)" using 3 by (simp add: norm_phase_def)
    moreover have "normal 1 (unat g) y"
      using 3 j jam_ge [OF j, of "2 ^ 25"] jam_round_ok jam_0 by (auto simp: normal_def)
    ultimately show ?thesis using n 3 by (auto simp: xval_def)
  next
    case 4
    then have "norm_phase e g = (False, 0, g)" using drop_bit_26_0 [of g] by (simp add: norm_phase_def)
    moreover have "normal 0 (unat g) y" using 4 j jam_round_ok jam_0 by (auto simp: normal_def)
    ultimately show ?thesis using n 4 by auto
  next
    case 5
    then have "norm_phase e g = (False, e, g)"
      using drop_bit_26_0 [of g] drop_bit_26_1 [of g] by (auto simp: norm_phase_def)
    moreover have "normal e (unat g) y"
      using 5 e(2) j jam_ge [OF j, of "2 ^ 25"] jam_round_ok jam_0 by (auto simp: normal_def)
    ultimately show ?thesis using n by auto
  qed
qed

section \<open>The result\<close>

lemma or_eq_add: "b < 2 ^ k \<Longrightarrow> push_bit k a OR b = a * 2 ^ k + b" for a b :: nat
proof -
  assume "b < 2 ^ k"
  then have "take_bit k b = b" by (rule take_bit_nat_eq_self)
  then have b: "\<not> bit b n" if "k \<le> n" for n using that by (metis bit_take_bit_iff linorder_not_less)
  have "push_bit k a + b = push_bit k a OR b"
    by (rule disjunctive_add) (use b in \<open>auto simp: bit_push_bit_iff\<close>)
  then show ?thesis by (simp add: push_bit_eq_mult)
qed

lemma f_pack_or: "f_pack sg e f = push_bit 31 (take_bit 1 sg) OR (push_bit 23 (take_bit 8 e) OR take_bit 23 f)"
  unfolding f_pack_def by (rule bit_word_eqI) (auto simp: bf_simps bit_simps simp flip: bit_0)

lemma unat_push_small: "unat w * 2 ^ k < 2 ^ 32 \<Longrightarrow> unat (push_bit k w) = unat w * 2 ^ k" for w :: u32
  by (simp only: unsigned_push_bit_eq) (simp add: take_bit_nat_eq_self push_bit_eq_mult)

lemma f_pack_nat:
  "unat (f_pack sg e f) = (unat sg mod 2) * 2 ^ 31 + ((unat e mod 256) * 2 ^ 23 + unat f mod 2 ^ 23)"
proof -
  have s: "unat (take_bit 1 sg) = unat sg mod 2" by (simp only: unsigned_take_bit_eq) (simp add: take_bit_eq_mod)
  have e: "unat (take_bit 8 e) = unat e mod 256" by (simp only: unsigned_take_bit_eq) (simp add: take_bit_eq_mod)
  have f: "unat (take_bit 23 f) = unat f mod 2 ^ 23" by (simp only: unsigned_take_bit_eq) (simp add: take_bit_eq_mod)
  have b: "unat sg mod 2 < 2" "unat e mod 256 < 256" "unat f mod 2 ^ 23 < 2 ^ 23" by simp_all
  have p31: "unat (push_bit 31 (take_bit 1 sg)) = push_bit 31 (unat sg mod 2)"
    using b(1) by (subst unat_push_small) (simp_all only: s push_bit_eq_mult, simp)
  have p23: "unat (push_bit 23 (take_bit 8 e)) = push_bit 23 (unat e mod 256)"
    using b(2) by (subst unat_push_small) (simp_all only: e push_bit_eq_mult, simp)
  have lo: "(unat e mod 256) * 2 ^ 23 + unat f mod 2 ^ 23 < 2 ^ 31"
  proof -
    have "unat e mod 256 \<le> 255" using b(2) by linarith
    then show ?thesis using b(3) by simp
  qed
  show ?thesis
    unfolding f_pack_or unsigned_or_eq p31 p23 f or_eq_add [OF b(3)] or_eq_add [OF lo] by (rule refl)
qed

lemma f_result_nat:
  assumes "sg = 0 \<or> sg = 1" "0 \<le> e" "e \<le> 255"
  shows "unat (f_result sg e g) = unat sg * 2 ^ 31 + (nat e * 2 ^ 23 + unat g mod 2 ^ 23)"
proof -
  have u: "unat (word_of_int e :: u32) = nat e"
  proof -
    obtain n where "e = int n" using assms(2) by (metis nonneg_int_cases)
    then show ?thesis using assms(3) by (simp add: unat_of_nat take_bit_nat_eq_self)
  qed
  have "(word_of_int e :: u32) AND 0xff = take_bit 8 (word_of_int e)" by (simp add: take_bit_eq_mask mask_eq_exp_minus_1)
  then have e: "unat ((word_of_int e :: u32) AND 0xff) = nat e mod 256"
    by (simp only: unsigned_take_bit_eq u) (simp add: take_bit_eq_mod)
  have g: "unat (ucast g :: u32) mod 2 ^ 23 = unat g mod 2 ^ 23"
    by (simp add: unsigned_ucast_eq take_bit_eq_mod mod_mod_cancel)
  show ?thesis unfolding f_result_def f_pack_nat e g using assms by auto
qed

text \<open>A significand that is already rounded, of an exponent and a size that fit, is packed as it is.\<close>

definition fits :: "int \<Rightarrow> nat \<Rightarrow> bool" where
  "fits e F \<longleftrightarrow> e = 0 \<and> F \<le> 2 ^ 23 \<or> 1 \<le> e \<and> e \<le> 254 \<and> 2 ^ 23 \<le> F \<and> F \<le> 2 ^ 24"

lemma fits_range: "fits e F \<Longrightarrow> in_range (max (nat e) 1) F \<and> max (nat e) 1 \<le> 254"
  by (auto simp: fits_def in_range_def)

lemma pack_rounded:
  assumes "sg = 0 \<or> sg = 1" "fits e (unat g)" "unat g < 2 ^ 24" "e = 0 \<longrightarrow> unat g < 2 ^ 23"
  shows "unat (f_result sg e g) = unat sg * 2 ^ 31 + pat (max (nat e) 1) (unat g)"
proof (cases "e = 0")
  case False
  then have "1 \<le> e" "unat g mod 2 ^ 23 = unat g - 2 ^ 23" "2 ^ 23 \<le> unat g"
    using assms(2,3) by (auto simp: fits_def mod_if)
  then have "nat e * 2 ^ 23 + unat g mod 2 ^ 23 = pat (max (nat e) 1) (unat g)"
    by (cases "nat e") (auto simp: pat_def)
  then show ?thesis using assms(1,2) f_result_nat [OF assms(1), of e g] by (auto simp: fits_def)
qed (use assms f_result_nat [OF assms(1), of e g] in \<open>simp add: pat_def\<close>)

lemma renormalize:
  assumes s: "sg = 0 \<or> sg = 1" and f: "fits e (unat g)"
  shows "unat (internal_normalize sg e (push_bit 3 g)) = unat sg * 2 ^ 31 + pat (max (nat e) 1) (unat g)"
proof -
  have F: "unat g \<le> 2 ^ 24" using f by (auto simp: fits_def)
  then have u: "unat (push_bit 3 g) = 8 * unat g" by (simp add: push_bit_eq_mult unat_word_ariths)
  have dp: "drop_bit 3 (push_bit 3 g) = g"
    using u by (simp add: word_unat_eq_iff unat_drop_bit del: drop_bit_eq_div push_bit_numeral)
  have r: "round_phase (push_bit 3 g) = (g, False)"
    using round_phase_dvd [of "push_bit 3 g"] u dp by simp
  have step: "internal_normalize sg e (push_bit 3 g) = f_result sg e' k"
    if "norm_phase e (push_bit 3 g) = (over, e', g')" "if over then k = g' else round_phase g' = (k, False)" for e' k g' over
    using that by (subst internal_normalize.simps) (auto split: if_splits)
  consider "unat g < 2 ^ 24" "e = 0 \<longrightarrow> unat g < 2 ^ 23" | "e = 0" "unat g = 2 ^ 23" | "1 \<le> e" "e \<le> 254" "unat g = 2 ^ 24"
    using f by (fastforce simp: fits_def le_less)
  then show ?thesis
  proof cases
    case 1
    have "norm_phase e (push_bit 3 g) = (False, e, push_bit 3 g)"
    proof (cases "e = 0")
      case True
      then show ?thesis using 1 u drop_bit_26_0 [of "push_bit 3 g"] by (simp add: norm_phase_def)
    next
      case False
      then have "1 \<le> e" "2 ^ 26 \<le> unat (push_bit 3 g)" "unat (push_bit 3 g) < 2 ^ 27"
        using f 1 u by (auto simp: fits_def)
      then show ?thesis using drop_bit_26_0 [of "push_bit 3 g"] drop_bit_26_1 [of "push_bit 3 g"] by (auto simp: norm_phase_def)
    qed
    then have "internal_normalize sg e (push_bit 3 g) = f_result sg e g" using r by (intro step) auto
    then show ?thesis using pack_rounded [OF s f 1] by simp
  next
    case 2
    have "unat (drop_bit 26 (push_bit 3 g)) = 1" using u 2 by (simp add: unat_drop_bit)
    then have "drop_bit 26 (push_bit 3 g) = 1" by (simp only: word_unat_eq_iff unsigned_1)
    then have "norm_phase e (push_bit 3 g) = (False, 1, push_bit 3 g)" using 2 by (simp add: norm_phase_def)
    then have "internal_normalize sg e (push_bit 3 g) = f_result sg 1 g" using r by (intro step) auto
    then show ?thesis using f_result_nat [OF s, of 1 g] 2 by (simp add: pat_def)
  next
    case 3
    then have u27: "unat (push_bit 3 g) = 2 ^ 27" using u by simp
    note t = norm_right_top [OF u27, of e]
    have big: "1 < drop_bit 26 (push_bit 3 g)" using u27 by (simp add: drop_bit_26_1)
    show ?thesis
    proof (cases "e = 254")
      case True
      have p_inf: "uint (f_exponent P_INF_F) = 255" "f_fraction P_INF_F = 0"
        by (simp_all add: f_exponent_def f_fraction_def P_INF_F_def bf_get_def)
      have "norm_phase e (push_bit 3 g) = (True, 255, 0)" using t 3 True big by (simp add: norm_phase_def p_inf)
      then have "internal_normalize sg e (push_bit 3 g) = f_result sg 255 0" by (intro step) auto
      then show ?thesis using f_result_nat [OF s, of 255 0] 3 True by (simp add: pat_def)
    next
      case False
      then have "norm_phase e (push_bit 3 g) = (False, e + 1, shift_sticky (push_bit 3 g))"
        using t 3 big by (simp add: norm_phase_def)
      moreover have "round_phase (shift_sticky (push_bit 3 g)) = (drop_bit 3 (shift_sticky (push_bit 3 g)), False)"
        using t(2) 3 by (intro round_phase_dvd) simp
      ultimately have "internal_normalize sg e (push_bit 3 g) = f_result sg (e + 1) (drop_bit 3 (shift_sticky (push_bit 3 g)))"
        by (intro step) auto
      moreover have "unat (drop_bit 3 (shift_sticky (push_bit 3 g))) = 2 ^ 23" using t(2) 3 by (simp add: unat_drop_bit)
      moreover have "nat (e + 1) * 2 ^ 23 = pat (max (nat e) 1) (unat g)"
        using 3 by (cases "nat e") (auto simp: pat_def)
      ultimately show ?thesis using f_result_nat [OF s, of "e + 1"] 3 False by simp
    qed
  qed
qed

section \<open>Normalising rounds correctly\<close>

lemma nearest_max: "real (pmag max_mag) \<le> x \<Longrightarrow> nearest max_mag x"
proof -
  assume x: "real (pmag max_mag) \<le> x"
  have "real (pmag q) < real (pmag max_mag)" if "q \<le> max_mag" "q \<noteq> max_mag" for q
    using pmag_less [of q max_mag] that by simp
  then show ?thesis using x by (force simp: nearest_def)
qed

text \<open>
  What a normalisation must leave for the rounding to be right: an overflow, an underflow to zero, or
  a significand of the right size that stands for the same value \<open>x\<close>.
\<close>

definition normal_form :: "real \<Rightarrow> bool \<times> int \<times> u64 \<Rightarrow> bool" where
  "normal_form x r \<longleftrightarrow> (case r of (over, e, g) \<Rightarrow>
     over \<and> e = 255 \<and> g = 0 \<and> real (pmag max_mag) \<le> x
     \<or> over \<and> e = 0 \<and> g = 0 \<and> 0 \<le> x \<and> x < 1 / 2
     \<or> \<not> over \<and> (\<exists>y. normal e (unat g) y \<and> xval e y = x))"

lemma nearest_0: "0 \<le> x \<Longrightarrow> x < 1 / 2 \<Longrightarrow> nearest 0 x"
proof -
  assume x: "0 \<le> x" "x < 1 / 2"
  have z: "pmag 0 = 0" by (simp add: pmag_def)
  have "\<bar>x - real (pmag 0)\<bar> < \<bar>x - real (pmag q)\<bar>" if "q \<noteq> 0" for q
  proof -
    have "1 \<le> real (pmag q)" using pmag_less [of 0 q] that by simp
    then show ?thesis using x z by simp
  qed
  then show ?thesis unfolding nearest_def by blast
qed

lemma normal_round:
  assumes s: "sg = 0 \<or> sg = 1" and n: "norm_phase e g = (False, e', g')" and y: "normal e' (unat g') y"
  shows "\<exists>p. unat (internal_normalize sg e g) = unat sg * 2 ^ 31 + p \<and> nearest p (xval e' y)"
proof -
  obtain frac up where rp: "round_phase g' = (frac, up)" by fastforce
  note nm = y [unfolded normal_def]
  have b: "unat g' < 2 ^ 27" using nm by auto
  have F: "unat frac = (if unat g' mod 8 > 4 \<or> unat g' mod 8 = 4 \<and> odd (unat g' div 8) then unat g' div 8 + 1 else unat g' div 8)"
    "up \<longleftrightarrow> unat g' mod 8 > 4 \<or> unat g' mod 8 = 4 \<and> odd (unat g' div 8)"
    using round_phase_nat [OF b] by (simp_all add: rp)
  have near: "near y (unat frac)" using round_phase_near [of y g'] b nm by (simp add: rp)
  have d: "unat g' div 8 < 2 ^ 24" "e' = 0 \<Longrightarrow> unat g' div 8 < 2 ^ 23" "e' \<noteq> 0 \<Longrightarrow> 2 ^ 23 \<le> unat g' div 8"
    using nm by (auto simp: less_mult_imp_div_less less_eq_div_iff_mult_less_eq)
  have fits: "fits e' (unat frac)" using nm d unfolding fits_def F(1) by auto
  have "unat (internal_normalize sg e g) = unat sg * 2 ^ 31 + pat (max (nat e') 1) (unat frac)"
  proof (cases up)
    case True
    then have "internal_normalize sg e g = internal_normalize sg e' (push_bit 3 frac)"
      by (subst internal_normalize.simps) (simp add: n rp)
    then show ?thesis using renormalize [OF s fits] by simp
  next
    case False
    then have "internal_normalize sg e g = f_result sg e' frac"
      by (subst internal_normalize.simps) (simp add: n rp)
    moreover have "unat frac = unat g' div 8" using F False by simp
    ultimately show ?thesis using pack_rounded [OF s fits] d(1,2) by simp
  qed
  moreover have "nearest (pat (max (nat e') 1) (unat frac)) (y / 8 * 2 ^ (max (nat e') 1 - 1))"
    using fits_range [OF fits] near nm by (intro nearest_pat) auto
  moreover have "y / 8 * 2 ^ (max (nat e') 1 - 1) = xval e' y"
  proof -
    have "max (nat e') 1 - 1 = nat e' - 1" by simp
    then show ?thesis by (simp add: xval_def)
  qed
  ultimately show ?thesis by auto
qed

lemma normal_form_nearest:
  assumes s: "sg = 0 \<or> sg = 1" and n: "normal_form x (norm_phase e g)"
  shows "\<exists>p. unat (internal_normalize sg e g) = unat sg * 2 ^ 31 + p \<and> nearest p x"
proof -
  obtain over e' g' where np: "norm_phase e g = (over, e', g')" by (metis prod_cases3)
  from n [unfolded np normal_form_def prod.case]
  consider "over" "e' = 255" "g' = 0" "real (pmag max_mag) \<le> x" | "over" "e' = 0" "g' = 0" "0 \<le> x" "x < 1 / 2"
    | y where "\<not> over" "normal e' (unat g') y" "xval e' y = x" by blast
  then show ?thesis
  proof cases
    case 1
    then have "internal_normalize sg e g = f_result sg 255 0" by (subst internal_normalize.simps) (simp add: np)
    then have "unat (internal_normalize sg e g) = unat sg * 2 ^ 31 + max_mag"
      using f_result_nat [OF s, of 255 0] by (simp add: max_mag_def)
    then show ?thesis using nearest_max [OF 1(4)] by blast
  next
    case 2
    then have "internal_normalize sg e g = f_result sg 0 0" by (subst internal_normalize.simps) (simp add: np)
    then have "unat (internal_normalize sg e g) = unat sg * 2 ^ 31 + 0" using f_result_nat [OF s, of 0 0] by simp
    then show ?thesis using nearest_0 [OF 2(4,5)] by blast
  next
    case 3
    then show ?thesis using normal_round [OF s, of e g e' g' y] np by simp
  qed
qed

lemma normalize_nearest:
  assumes "sg = 0 \<or> sg = 1" "0 \<le> e" "e \<le> 254" "jam y (unat g)"
    "2 ^ 25 \<le> unat g \<or> y = real (unat g)" "e = 0 \<Longrightarrow> unat g < 2 ^ 27"
  shows "\<exists>p. unat (internal_normalize sg e g) = unat sg * 2 ^ 31 + p \<and> nearest p (xval e y)"
proof (rule normal_form_nearest [OF assms(1)])
  obtain over e' g' where np: "norm_phase e g = (over, e', g')" by (metis prod_cases3)
  from norm_phase_value [OF assms(2-) np] show "normal_form (xval e y) (norm_phase e g)"
    unfolding normal_form_def np prod.case by blast
qed

section \<open>Operands and results\<close>

definition finite_F :: "u32 \<Rightarrow> bool" where "finite_F v \<longleftrightarrow> f_exponent v \<noteq> 0xff"
definition mag_bits :: "u32 \<Rightarrow> nat" where "mag_bits v = unat v mod 2 ^ 31"

text \<open>The value of a finite number in units of \<open>2 ^ -149\<close>.\<close>

definition fint :: "u32 \<Rightarrow> int" where
  "fint v = (if f_sign v = 0 then int (pmag (mag_bits v)) else - int (pmag (mag_bits v)))"

lemma field_nat:
  "unat (f_fraction v) = unat v mod 2 ^ 23" "unat (f_exponent v) = unat v div 2 ^ 23 mod 256"
  "unat (f_sign v) = unat v div 2 ^ 31"
proof -
  show "unat (f_fraction v) = unat v mod 2 ^ 23"
    unfolding f_fraction_def bf_get_def by (simp only: unsigned_take_bit_eq drop_bit_0 id_apply) (simp add: take_bit_eq_mod)
  show "unat (f_exponent v) = unat v div 2 ^ 23 mod 256"
    unfolding f_exponent_def bf_get_def by (simp only: unsigned_take_bit_eq unat_drop_bit) (simp add: take_bit_eq_mod)
  have "unat v < 2 * 2 ^ 31" using unsigned_less [of v, where ?'a = nat] by simp
  then have "unat v div 2 ^ 31 < 2" by (rule less_mult_imp_div_less)
  then show "unat (f_sign v) = unat v div 2 ^ 31"
    unfolding f_sign_def bf_get_def by (simp only: unsigned_take_bit_eq unat_drop_bit) (simp add: take_bit_eq_mod)
qed

lemma significand_nat:
  "unat (significand v) = (if f_exponent v = 0 then unat v mod 2 ^ 23 else 2 ^ 23 + unat v mod 2 ^ 23)"
proof (cases "f_exponent v = 0")
  case False
  have "unat (f_fraction v OR 0x800000) = unat (f_fraction v) OR push_bit 23 1"
    by (simp add: unsigned_or_eq push_bit_eq_mult)
  also have "\<dots> = push_bit 23 1 OR unat (f_fraction v)" by (rule or.commute)
  also have "\<dots> = 1 * 2 ^ 23 + unat (f_fraction v)" by (rule or_eq_add) (simp add: field_nat)
  finally show ?thesis using False by (simp add: significand_def field_nat)
qed (simp add: significand_def field_nat)

text \<open>A magnitude is the significand at the exponent, where that of a denormal counts as 1.\<close>

lemma mag_significand: "pmag (mag_bits v) = unat (significand v) * 2 ^ (max (unat (f_exponent v)) 1 - 1)"
proof -
  let ?m = "unat v mod 2 ^ 31" and ?e = "unat (f_exponent v)"
  have "?m = unat v mod (2 ^ 23 * 256)" by simp
  then have "?m = 2 ^ 23 * ?e + unat v mod 2 ^ 23" unfolding field_nat(2) by (simp only: mod_mult2_eq)
  then have m: "?m = ?e * 2 ^ 23 + unat v mod 2 ^ 23" by simp
  have z: "f_exponent v = 0 \<longleftrightarrow> ?e = 0" by (simp add: unat_eq_zero)
  show ?thesis
  proof (cases "?e = 0")
    case True
    then show ?thesis using pmag_low [of "unat v mod 2 ^ 23"] unfolding mag_bits_def m
      by (simp add: significand_nat z)
  next
    case False
    then show ?thesis unfolding mag_bits_def m significand_nat z by (subst pmag_high) auto
  qed
qed

lemma significand_less: "unat (significand v) < 2 ^ 24"
proof -
  have "unat v mod 2 ^ 23 < 2 ^ 23" by simp
  moreover from this have "unat v mod 2 ^ 23 < 2 ^ 24" by (rule less_trans) simp
  ultimately show ?thesis unfolding significand_nat by simp
qed

text \<open>The significand as the addition holds it, with its sign, and the exponent that scales it.\<close>

abbreviation eexp :: "u32 \<Rightarrow> nat" where "eexp v \<equiv> max (unat (f_exponent v)) 1"

lemma shifted_significand: "unat (push_bit 3 (significand v)) = 8 * unat (significand v)"
  using significand_less [of v] by (subst unat_push_small) simp_all

lemma significand_ge: "f_exponent v \<noteq> 0 \<Longrightarrow> 2 ^ 23 \<le> unat (significand v)"
  by (simp add: significand_nat)

lemma unbiased_eexp: "unbiased v = int (eexp v) - 127"
proof (cases "f_exponent v = 0")
  case False
  then have "1 \<le> unat (f_exponent v)" using unat_eq_zero [of "f_exponent v"] by linarith
  moreover have "uint (f_exponent v) = int (unat (f_exponent v))" by simp
  ultimately show ?thesis using False by (simp only: unbiased_def if_False max_absorb1)
qed (simp add: unbiased_def)

lemma fint_real: "real_of_int (fint v) = (if f_sign v \<noteq> 0 then - 1 else 1) * (real (unat (significand v)) * 2 ^ (eexp v - 1))"
  unfolding fint_def mag_significand by simp

lemma finite_exponent: "finite_F v \<longleftrightarrow> unat (f_exponent v) \<le> 254"
proof -
  have "unat (f_exponent v) < 256" unfolding field_nat by simp
  moreover have "f_exponent v = 0xff \<longleftrightarrow> unat (f_exponent v) = 255" by (simp add: word_unat_eq_iff)
  ultimately show ?thesis by (auto simp: finite_F_def)
qed

lemma mag_bits_fields: "mag_bits v = unat (f_exponent v) * 2 ^ 23 + unat (f_fraction v)"
proof -
  have "unat v mod 2 ^ 31 = unat v mod (2 ^ 23 * 256)" by simp
  then show ?thesis unfolding mag_bits_def field_nat by (simp only: mod_mult2_eq) simp
qed

lemma mag_bits_finite: "finite_F v \<Longrightarrow> mag_bits v \<le> max_mag"
proof -
  assume "finite_F v"
  then have "unat (f_exponent v) \<le> 254" by (simp only: finite_exponent)
  moreover have "unat (f_fraction v) < 2 ^ 23" unfolding field_nat by simp
  ultimately show ?thesis by (simp add: mag_bits_fields max_mag_def)
qed

lemma nearest_self: "p \<le> max_mag \<Longrightarrow> nearest p (real (pmag p))"
  using pmag_less by (auto simp: nearest_def neq_iff)

lemma bits_split: "unat v = unat (f_sign v) * 2 ^ 31 + mag_bits v"
  unfolding field_nat mag_bits_def by (simp only: div_mult_mod_eq)

lemma zero_mag: "mag_bits v = 0 \<longleftrightarrow> is_zero_F v"
proof -
  have "unat (f_sign v) < 2" unfolding field_nat using unsigned_less [of v, where ?'a = nat]
    by (intro less_mult_imp_div_less) simp
  then have "unat (f_sign v) = 0 \<or> unat (f_sign v) = 1" by linarith
  then have "mag_bits v = 0 \<longleftrightarrow> unat v = 0 \<or> unat v = 2 ^ 31"
  proof
    assume "unat (f_sign v) = 0"
    then show ?thesis using bits_split [of v] by (auto simp: mag_bits_def)
  next
    assume "unat (f_sign v) = 1"
    then show ?thesis using bits_split [of v] by auto
  qed
  then show ?thesis by (simp add: is_zero_F_def P_ZERO_F_def N_ZERO_F_def word_unat_eq_iff)
qed

lemma pmag_0: "pmag p = 0 \<longleftrightarrow> p = 0"
  using pmag_less [of 0 p] by (cases "p = 0") (auto simp: pmag_def)

lemma fint_sign: "\<not> is_zero_F v \<Longrightarrow> fint v < 0 \<longleftrightarrow> f_sign v \<noteq> 0"
  unfolding zero_mag [symmetric] using pmag_0 [of "mag_bits v"] by (auto simp: fint_def)

lemma fint_zero: "is_zero_F v \<Longrightarrow> fint v = 0"
  unfolding zero_mag [symmetric] by (simp add: fint_def pmag_def)

lemma result_parts:
  assumes "unat r = (if c then 2 ^ 31 else 0) + p" "p < 2 ^ 31"
  shows "mag_bits r = p" "f_sign r \<noteq> 0 \<longleftrightarrow> c"
proof -
  show "mag_bits r = p" unfolding mag_bits_def assms(1) using assms(2) by simp
  then have "unat (f_sign r) * 2 ^ 31 = (if c then 2 ^ 31 else 0)" using bits_split [of r] assms(1) by linarith
  then have "unat (f_sign r) = 0 \<longleftrightarrow> \<not> c" by (cases c) auto
  then show "f_sign r \<noteq> 0 \<longleftrightarrow> c" by (simp add: unat_eq_zero)
qed

end
