(* ===== verification/Fpu_Add_Correct.thy ===== *)
theory Fpu_Add_Correct
  imports Fpu_Rounding
begin

text \<open>
  \<open>internal_float_add\<close> and \<open>internal_float_sub\<close> round correctly: the aligned significands differ from
  the exact ones by less than the sticky bit says, and \<open>internal_normalize\<close> rounds what they stand for.
\<close>

text \<open>The alignment loop is the sticky shift, repeated.\<close>

lemma align_step:
  fixes g :: u32
  assumes "s = 0 \<or> s = 1 \<and> odd (unat g)"
  shows "s OR (g AND 1) = (if odd (unat g) then 1 else 0)"
    "unat (drop_bit 1 g OR (s OR (g AND 1))) = unat g div 2 + (if even (unat g div 2) then unat g mod 2 else 0)"
proof -
  have "unat (g AND 1) = unat g mod 2" by (simp add: unsigned_and_eq and_one_eq unat_mod)
  then have "g AND 1 = (if odd (unat g) then 1 else 0)" by (simp add: word_unat_eq_iff odd_iff_mod_2_eq_one)
  then show s: "s OR (g AND 1) = (if odd (unat g) then 1 else 0)" using assms by auto
  have "unat (if odd (unat g) then 1 else 0 :: u32) = unat g mod 2" by (simp add: mod_2_eq_odd)
  then have "unat (drop_bit 1 g OR (s OR (g AND 1))) = (unat g div 2) OR (unat g mod 2)"
    unfolding s by (simp only: unsigned_or_eq unat_drop_bit power_one_right)
  then show "unat (drop_bit 1 g OR (s OR (g AND 1))) = unat g div 2 + (if even (unat g div 2) then unat g mod 2 else 0)"
    by (cases "even (unat g)") (auto simp: or_Suc_0_eq mod_2_eq_odd)
qed

lemma align_invariant:
  "s = 0 \<or> s = 1 \<and> odd (unat g) \<Longrightarrow>
   s OR (g AND 1) = 0 \<or> s OR (g AND 1) = 1 \<and> odd (unat (drop_bit 1 g OR (s OR (g AND 1))))"
  for g :: u32
proof (cases "odd (unat g)")
  case True
  assume s: "s = 0 \<or> s = 1 \<and> odd (unat g)"
  have "odd (unat g div 2 + (if even (unat g div 2) then unat g mod 2 else 0))" using True by (simp add: mod_2_eq_odd)
  then show ?thesis using align_step [OF s] True by metis
next
  case False
  assume "s = 0 \<or> s = 1 \<and> odd (unat g)"
  from align_step(1) [OF this] False show ?thesis by simp
qed

lemma align_jam: "s = 0 \<or> s = 1 \<and> odd (unat g) \<Longrightarrow> jam y (unat g) \<Longrightarrow> jam (y / 2 ^ k) (unat (align_loop k s g))"
proof (induction k s g arbitrary: y rule: align_loop.induct)
  case (2 k s g)
  have "jam (y / 2 / 2 ^ k) (unat (align_loop k (s OR (g AND 1)) (drop_bit 1 g OR (s OR (g AND 1)))))"
  proof (rule 2(1) [OF refl])
    show "s OR g AND 1 = 0 \<or> s OR g AND 1 = 1 \<and> odd (unat (drop_bit 1 g OR (s OR g AND 1)))"
      by (rule align_invariant [OF 2(2)])
    show "jam (y / 2) (unat (drop_bit 1 g OR (s OR g AND 1)))" unfolding align_step(2) [OF 2(2)] by (rule jam_half [OF 2(3)])
  qed
  then show ?case unfolding align_loop.simps Let_def by (simp only: power_Suc divide_divide_eq_left)
qed simp

lemma align_le: "s = 0 \<or> s = 1 \<and> odd (unat g) \<Longrightarrow> unat g \<le> 2 ^ (m + k) \<Longrightarrow> unat (align_loop k s g) \<le> 2 ^ m"
proof (induction k s g rule: align_loop.induct)
  case (2 k s g)
  have "unat (drop_bit 1 g OR (s OR (g AND 1))) \<le> 2 ^ (m + k)"
  proof -
    have "unat g \<le> 2 * 2 ^ (m + k)" using 2(3) by simp
    then show ?thesis unfolding align_step(2) [OF 2(2)] by presburger
  qed
  from 2(1) [OF refl align_invariant [OF 2(2)] this] show ?case by (simp only: align_loop.simps Let_def)
qed simp

lemma align_even: "even (unat h) \<Longrightarrow> align_loop (Suc k) 0 h = align_loop k 0 (drop_bit 1 h)"
proof -
  assume "even (unat h)"
  then have "0 OR (h AND 1) = 0" using align_step(1) [of 0 h] by simp
  then show ?thesis unfolding align_loop.simps Let_def by (simp only: or.right_neutral)
qed

lemma align_exact: "8 dvd unat g \<Longrightarrow> k \<le> 3 \<Longrightarrow> unat (align_loop k 0 g) = unat g div 2 ^ k"
proof -
  assume g: "8 dvd unat g" "k \<le> 3"
  have e: "even (unat g)" "even (unat g div 2)" "even (unat g div 2 div 2)" using g(1) by presburger+
  have d: "unat (drop_bit 1 h) = unat h div 2" for h :: u32 by (simp only: unat_drop_bit power_one_right)
  from g(2) consider "k = 0" | "k = Suc 0" | "k = Suc (Suc 0)" | "k = Suc (Suc (Suc 0))" by linarith
  then show ?thesis
    by cases (simp_all only: align_even e d align_loop.simps(1) div_mult2_eq power_Suc power_0 mult_1_right div_by_1)
qed

text \<open>Adding a signed aligned significand to a larger even one keeps the approximation and the sign.\<close>

lemma jam_sum:
  fixes B g :: nat and y :: real and sa sb :: bool
  assumes j: "jam y g" and B: "even B" "g \<le> B \<or> y = real g"
  defines "T \<equiv> (if sa then - int g else int g) + (if sb then - int B else int B)"
    and "X \<equiv> (if sa then - y else y) + (if sb then - real B else real B)"
  shows "jam \<bar>X\<bar> (nat \<bar>T\<bar>)" "X < 0 \<longleftrightarrow> T < 0"
proof -
  have "jam \<bar>X\<bar> (nat \<bar>T\<bar>) \<and> (X < 0 \<longleftrightarrow> T < 0)"
  proof (cases "y = real g")
    case True
    then have X: "X = of_int T" by (simp add: X_def T_def)
    have "\<bar>X\<bar> = real (nat \<bar>T\<bar>)" unfolding X by simp
    then show ?thesis using X by (simp add: jam_def)
  next
    case False
    then have o: "odd g" "real g - 1 < y" "y < real g + 1" using j by (auto simp: jam_def)
    then have "g < B" using B False by (cases "g = B") auto
    then obtain d where d: "B = Suc (g + d)" by (metis less_iff_Suc_add)
    have y: "y > 0 \<or> g = 0" using o by (cases g) auto
    have odd1: "odd (Suc d)" "odd (Suc (2 * g + d))" using B(1) o(1) unfolding d by presburger+
    consider "sa = sb" | "sa" "\<not> sb" | "\<not> sa" "sb" by blast
    then show ?thesis
    proof cases
      case 1
      then have "nat \<bar>T\<bar> = Suc (2 * g + d)" "\<bar>X\<bar> = y + real B" "X < 0 \<longleftrightarrow> T < 0"
        using o y unfolding T_def X_def d by (cases sb; auto)+
      then show ?thesis using o odd1 by (auto simp: jam_def d)
    next
      case 2
      then have "nat \<bar>T\<bar> = Suc d" "\<bar>X\<bar> = real B - y" "X < 0 \<longleftrightarrow> T < 0"
        using o unfolding T_def X_def d by auto
      then show ?thesis using o odd1 by (auto simp: jam_def d)
    next
      case 3
      then have "nat \<bar>T\<bar> = Suc d" "\<bar>X\<bar> = real B - y" "X < 0 \<longleftrightarrow> T < 0"
        using o unfolding T_def X_def d by auto
      then show ?thesis using o odd1 by (auto simp: jam_def d)
    qed
  qed
  then show "jam \<bar>X\<bar> (nat \<bar>T\<bar>)" "X < 0 \<longleftrightarrow> T < 0" by blast+
qed

text \<open>The sum of two's complement significands, its sign bit and its absolute value.\<close>

lemma sign_word:
  fixes T :: int
  assumes "\<bar>T\<bar> < 2 ^ 31"
  defines "w \<equiv> (word_of_int T :: u32)"
  shows "drop_bit 31 w \<noteq> 0 \<longleftrightarrow> T < 0" "T < 0 \<Longrightarrow> unat (w * (- 1)) = nat \<bar>T\<bar>" "\<not> T < 0 \<Longrightarrow> unat w = nat \<bar>T\<bar>"
proof -
  define n where "n = nat \<bar>T\<bar>"
  then have n: "T = (if T < 0 then - int n else int n)" "n = nat \<bar>T\<bar>" by auto
  have b: "n < 2 ^ 31" using n(2) assms(1) by simp
  have u: "unat (of_nat n :: u32) = n" using b by (simp add: unat_of_nat take_bit_nat_eq_self)
  have dz: "drop_bit 31 w = 0 \<longleftrightarrow> unat w < 2 ^ 31"
    by (simp add: unat_eq_zero [symmetric] unat_drop_bit div_eq_0_iff del: unat_eq_zero drop_bit_eq_div)
  have neg: "w = - of_nat n" if "T < 0" using n(1) that unfolding w_def by (metis of_int_minus of_int_of_nat_eq)
  have pos: "w = of_nat n" if "\<not> T < 0" using n(1) that unfolding w_def by (metis of_int_of_nat_eq)
  show "T < 0 \<Longrightarrow> unat (w * (- 1)) = nat \<bar>T\<bar>" using neg u n(2) by simp
  show "\<not> T < 0 \<Longrightarrow> unat w = nat \<bar>T\<bar>" using pos u n(2) by simp
  show "drop_bit 31 w \<noteq> 0 \<longleftrightarrow> T < 0"
  proof (cases "T < 0")
    case True
    then have "0 < n" using n(2) by simp
    have "(of_nat (2 ^ 32) :: u32) = 0" by simp
    moreover have "n \<le> 2 ^ 32" using b by simp
    ultimately have "(of_nat (2 ^ 32 - n) :: u32) = - of_nat n" by (simp only: of_nat_diff diff_0)
    moreover have "unat (of_nat (2 ^ 32 - n) :: u32) = 2 ^ 32 - n"
      using \<open>0 < n\<close> by (simp add: unat_of_nat take_bit_nat_eq_self)
    ultimately have "unat w = 2 ^ 32 - n" unfolding neg [OF True] by simp
    then show ?thesis using True b dz by simp
  qed (use pos u b dz in simp)
qed

lemma signed_word:
  "(if c then w * (- 1) else w) = word_of_int (if c then - int (unat w) else int (unat w))" for w :: u32
  by simp

text \<open>The aligned significand of the smaller operand: what it stands for, when it is exact, how large it is.\<close>

definition aligned :: "nat \<Rightarrow> u32 \<Rightarrow> nat" where
  "aligned k v = unat (align_loop k 0 (push_bit 3 (significand v)))"

definition aligned_value :: "nat \<Rightarrow> u32 \<Rightarrow> real" where
  "aligned_value k v = real (8 * unat (significand v)) / 2 ^ k"

lemma aligned_jam: "jam (aligned_value k v) (aligned k v)"
  unfolding aligned_value_def aligned_def by (rule align_jam) (simp_all add: jam_def shifted_significand)

lemma aligned_exact:
  assumes "k \<le> 3"
  shows "aligned_value k v = real (aligned k v)"
proof -
  have d: "8 dvd unat (push_bit 3 (significand v))" unfolding shifted_significand by simp
  have "(2 :: nat) ^ k dvd 8" using assms le_imp_power_dvd [of k 3 "2 :: nat"] by simp
  then have "2 ^ k dvd 8 * unat (significand v)" by (rule dvd_trans) simp
  then show ?thesis unfolding aligned_value_def aligned_def align_exact [OF d assms] shifted_significand
    by (simp only: real_of_nat_div of_nat_power of_nat_numeral)
qed

lemma aligned_le:
  assumes "27 \<le> m + k"
  shows "aligned k v \<le> 2 ^ m"
proof -
  have "8 * unat (significand v) \<le> 2 ^ 27" using significand_less [of v] by simp
  also have "(2 :: nat) ^ 27 \<le> 2 ^ (m + k)" using assms by (intro power_increasing) auto
  finally show ?thesis unfolding aligned_def by (intro align_le) (simp_all only: shifted_significand simp_thms)
qed

definition scaled :: "u32 \<Rightarrow> nat" where "scaled v = 8 * unat (significand v)"

lemma scaled_bounds: "scaled v < 2 ^ 27" "2 \<le> eexp v \<Longrightarrow> 2 ^ 26 \<le> scaled v" "even (scaled v)"
proof -
  show "scaled v < 2 ^ 27" using significand_less [of v] by (simp add: scaled_def)
  show "even (scaled v)" by (simp add: scaled_def)
  assume "2 \<le> eexp v"
  then have "f_exponent v \<noteq> 0" by auto
  from significand_ge [OF this] show "2 ^ 26 \<le> scaled v" by (simp add: scaled_def)
qed

lemma aligned_dominated:
  assumes "eexp fb = eexp fa + k"
  shows "aligned k fa \<le> scaled fb \<or> aligned_value k fa = real (aligned k fa)"
proof (cases "k = 0")
  case False
  then have "2 ^ 26 \<le> scaled fb" using assms by (intro scaled_bounds(2)) linarith
  then show ?thesis using aligned_le [of 26 k fa] False by simp
qed (use aligned_exact [of k fa] in simp)

text \<open>The signed sum of the code and the exact one, at the exponent of the larger operand.\<close>

definition code_sum :: "nat \<Rightarrow> u32 \<Rightarrow> u32 \<Rightarrow> int" where
  "code_sum k fa fb =
     (if f_sign fa \<noteq> 0 then - int (aligned k fa) else int (aligned k fa)) +
     (if f_sign fb \<noteq> 0 then - int (scaled fb) else int (scaled fb))"

definition real_sum :: "nat \<Rightarrow> u32 \<Rightarrow> u32 \<Rightarrow> real" where
  "real_sum k fa fb =
     (if f_sign fa \<noteq> 0 then - aligned_value k fa else aligned_value k fa) +
     (if f_sign fb \<noteq> 0 then - real (scaled fb) else real (scaled fb))"

lemma real_sum_scale:
  assumes "eexp fb = eexp fa + k"
  shows "real_of_int (fint fa + fint fb) = real_sum k fa fb / 8 * 2 ^ (eexp fb - 1)"
proof -
  have "eexp fb - 1 = (eexp fa - 1) + k" using assms by linarith
  then have "(2 :: real) ^ (eexp fb - 1) = 2 ^ (eexp fa - 1) * 2 ^ k" by (simp only: power_add)
  then show ?thesis unfolding of_int_add fint_real real_sum_def aligned_value_def scaled_def by (simp add: field_simps)
qed

lemma code_sum_jam:
  assumes "eexp fb = eexp fa + k"
  shows "jam \<bar>real_sum k fa fb\<bar> (nat \<bar>code_sum k fa fb\<bar>)" "real_sum k fa fb < 0 \<longleftrightarrow> code_sum k fa fb < 0"
  unfolding real_sum_def code_sum_def by (rule jam_sum [OF aligned_jam scaled_bounds(3) aligned_dominated [OF assms]])+

lemma code_sum_bound: "\<bar>code_sum k fa fb\<bar> < 2 ^ 31"
  using aligned_le [of 27 k fa] scaled_bounds(1) [of fb] by (auto simp: code_sum_def)

lemma code_sum_precise:
  assumes "eexp fb = eexp fa + k"
  shows "2 ^ 25 \<le> nat \<bar>code_sum k fa fb\<bar> \<or> \<bar>real_sum k fa fb\<bar> = real (nat \<bar>code_sum k fa fb\<bar>)"
proof (cases "k \<le> 3")
  case True
  then have "real_sum k fa fb = real_of_int (code_sum k fa fb)" using aligned_exact by (simp add: real_sum_def code_sum_def)
  then show ?thesis by simp
next
  case False
  then have "aligned k fa \<le> 2 ^ 23" "2 ^ 26 \<le> scaled fb"
    using aligned_le [of 23 k fa] scaled_bounds(2) [of fb] assms by auto
  then show ?thesis unfolding code_sum_def by (auto simp: nat_le_iff le_nat_iff)
qed

lemma code_sum_denormal:
  assumes "f_exponent fa = 0" "f_exponent fb = 0"
  shows "nat \<bar>code_sum 0 fa fb\<bar> < 2 ^ 27"
proof -
  have "unat (significand v) < 2 ^ 23" if "f_exponent v = 0" for v using that by (simp add: significand_nat)
  from this [OF assms(1)] this [OF assms(2)] have "scaled fa < 2 ^ 26" "scaled fb < 2 ^ 26" by (simp_all add: scaled_def)
  moreover have "aligned 0 fa = scaled fa" by (simp add: aligned_def shifted_significand scaled_def)
  ultimately show ?thesis by (auto simp: code_sum_def)
qed

text \<open>What \<open>add_sorted\<close> hands to the normalisation.\<close>

lemma add_sorted_code_sum:
  assumes "nat (unbiased fb - unbiased fa) = k"
  shows "\<exists>u. add_sorted fa fb = internal_normalize (if code_sum k fa fb < 0 then 1 else 0) (uint (f_exponent fb)) u \<and>
    unat u = nat \<bar>code_sum k fa fb\<bar>"
proof -
  let ?T = "code_sum k fa fb"
  define u :: u32 where "u = (if ?T < 0 then word_of_int ?T * (- 1) else word_of_int ?T)"
  have ws: "(if f_sign fa \<noteq> 0 then align_loop k 0 (push_bit 3 (significand fa)) * (- 1)
        else align_loop k 0 (push_bit 3 (significand fa))) +
      (if f_sign fb \<noteq> 0 then push_bit 3 (significand fb) * (- 1) else push_bit 3 (significand fb)) = word_of_int ?T"
    unfolding signed_word code_sum_def of_int_add aligned_def scaled_def shifted_significand by (rule refl)
  note sw = sign_word [OF code_sum_bound [of k fa fb]]
  have "unat (ucast u :: u64) = nat \<bar>?T\<bar>"
  proof -
    have "nat \<bar>?T\<bar> < 2 ^ 64" using code_sum_bound [of k fa fb] by simp
    moreover have "unat u = nat \<bar>?T\<bar>" using sw(2,3) unfolding u_def by presburger
    ultimately show ?thesis by (simp add: unsigned_ucast_eq take_bit_nat_eq_self)
  qed
  moreover have "add_sorted fa fb = internal_normalize (if ?T < 0 then 1 else 0) (uint (f_exponent fb)) (ucast u)"
    unfolding add_sorted_def Let_def assms ws u_def using sw(1) by simp
  ultimately show ?thesis by blast
qed

lemma add_sorted_nearest:
  assumes E: "unat (f_exponent fa) \<le> unat (f_exponent fb)" "unat (f_exponent fb) \<le> 254"
  shows "\<exists>p. unat (add_sorted fa fb) = (if fint fa + fint fb < 0 then 2 ^ 31 else 0) + p \<and>
    nearest p \<bar>real_of_int (fint fa + fint fb)\<bar>"
proof -
  define k where "k = eexp fb - eexp fa"
  let ?e = "uint (f_exponent fb)" and ?T = "code_sum k fa fb" and ?X = "real_sum k fa fb"
  have k: "nat (unbiased fb - unbiased fa) = k" "eexp fb = eexp fa + k"
    using E(1) by (simp_all only: unbiased_eexp k_def)
  have eu: "?e = int (unat (f_exponent fb))" by simp
  obtain u where res: "add_sorted fa fb = internal_normalize (if ?T < 0 then 1 else 0) ?e u"
    and u: "unat u = nat \<bar>?T\<bar>" using add_sorted_code_sum [OF k(1)] by blast
  have neg: "fint fa + fint fb < 0 \<longleftrightarrow> ?T < 0"
  proof -
    have "fint fa + fint fb < 0 \<longleftrightarrow> real_of_int (fint fa + fint fb) < 0" by (simp only: of_int_less_0_iff)
    also have "\<dots> \<longleftrightarrow> ?X < 0" unfolding real_sum_scale [OF k(2)] by (simp add: divide_less_0_iff mult_less_0_iff)
    finally show ?thesis using code_sum_jam(2) [OF k(2)] by simp
  qed
  have "unat u < 2 ^ 27" if "?e = 0"
  proof -
    have z: "f_exponent fb = 0" using that eu unat_eq_zero [of "f_exponent fb"] by linarith
    then have "f_exponent fa = 0" using E(1) by (simp add: unat_eq_zero)
    then show ?thesis using z code_sum_denormal u by (simp add: k_def)
  qed
  then have "\<exists>p. unat (add_sorted fa fb) = unat (if ?T < 0 then 1 else 0 :: u32) * 2 ^ 31 + p \<and> nearest p (xval ?e \<bar>?X\<bar>)"
    unfolding res
  proof (intro normalize_nearest)
    show "jam \<bar>?X\<bar> (unat u)" unfolding u by (rule code_sum_jam(1) [OF k(2)])
    show "2 ^ 25 \<le> unat u \<or> \<bar>?X\<bar> = real (unat u)" unfolding u by (rule code_sum_precise [OF k(2)])
    show "?e \<le> 254" using E(2) eu by linarith
  qed auto
  moreover have "xval ?e \<bar>?X\<bar> = \<bar>real_of_int (fint fa + fint fb)\<bar>"
  proof -
    have "nat ?e - 1 = eexp fb - 1" by simp
    then show ?thesis unfolding real_sum_scale [OF k(2)] xval_def by (simp only: abs_mult abs_divide) simp
  qed
  ultimately show ?thesis unfolding neg by auto
qed

text \<open>No finite operands are in the table of corner cases but the zeros.\<close>

lemma corner_add_finite:
  assumes "finite_F a" "finite_F b"
  shows "corner_lookup corner_add a b =
    (if is_zero_F a \<and> is_zero_F b then Some (if a = N_ZERO_F \<and> b = N_ZERO_F then N_ZERO_F else P_ZERO_F) else None)"
proof -
  have "\<not> finite_F P_INF_F" "\<not> finite_F N_INF_F" "\<not> finite_F P_NAN_F" "\<not> finite_F N_NAN_F"
    by (simp_all add: finite_F_def f_exponent_def bf_get_def fpu_consts)
  then have "a \<noteq> P_INF_F" "a \<noteq> N_INF_F" "a \<noteq> P_NAN_F" "a \<noteq> N_NAN_F"
    "b \<noteq> P_INF_F" "b \<noteq> N_INF_F" "b \<noteq> P_NAN_F" "b \<noteq> N_NAN_F" using assms by metis+
  moreover have "P_ZERO_F \<noteq> N_ZERO_F" by (simp add: fpu_consts)
  ultimately show ?thesis by (auto simp: corner_add_def is_zero_F_def)
qed

text \<open>The sign of a sum: of two negative zeros it is negative, of other operands it is that of the exact sum.\<close>

definition sum_negative :: "u32 \<Rightarrow> u32 \<Rightarrow> bool" where
  "sum_negative a b \<longleftrightarrow> fint a + fint b < 0 \<or> a = N_ZERO_F \<and> b = N_ZERO_F"

lemma add_nearest:
  assumes fin: "finite_F a" "finite_F b"
  shows "nearest (mag_bits (internal_float_add b a)) \<bar>real_of_int (fint a + fint b)\<bar> \<and>
    (f_sign (internal_float_add b a) \<noteq> 0 \<longleftrightarrow> sum_negative a b)"
proof -
  have self: "nearest (mag_bits v) \<bar>real_of_int (fint v)\<bar> \<and> (f_sign v \<noteq> 0 \<longleftrightarrow> fint v < 0)"
    if "finite_F v" "\<not> is_zero_F v" for v
    using nearest_self [OF mag_bits_finite [OF that(1)]] fint_sign [OF that(2)] by (simp add: fint_def)
  consider "is_zero_F a" "is_zero_F b" | "is_zero_F a" "\<not> is_zero_F b" | "\<not> is_zero_F a" "is_zero_F b"
    | "\<not> is_zero_F a" "\<not> is_zero_F b" by blast
  then show ?thesis
  proof cases
    case 1
    have z: "f_sign P_ZERO_F = 0" "f_sign N_ZERO_F \<noteq> 0" by (simp_all add: f_sign_def bf_get_def fpu_consts)
    have "internal_float_add b a = (if a = N_ZERO_F \<and> b = N_ZERO_F then N_ZERO_F else P_ZERO_F)"
      using 1 corner_add_finite [OF fin] by (simp add: internal_float_add_def)
    moreover from this have "mag_bits (internal_float_add b a) = 0" by (auto simp: zero_mag is_zero_F_def)
    ultimately show ?thesis using z nearest_self [of 0] 1 by (auto simp: fint_zero sum_negative_def pmag_def)
  next
    case 2
    then have "internal_float_add b a = b" using corner_add_finite [OF fin] by (simp add: internal_float_add_def)
    then show ?thesis using self [OF fin(2)] 2 by (auto simp: fint_zero sum_negative_def is_zero_F_def)
  next
    case 3
    then have "internal_float_add b a = a" using corner_add_finite [OF fin] by (simp add: internal_float_add_def)
    then show ?thesis using self [OF fin(1)] 3 by (auto simp: fint_zero sum_negative_def is_zero_F_def)
  next
    case 4
    note e = fin [unfolded finite_exponent]
    have "\<exists>p. unat (internal_float_add b a) = (if sum_negative a b then 2 ^ 31 else 0) + p \<and>
        nearest p \<bar>real_of_int (fint a + fint b)\<bar>"
    proof (cases "f_exponent a > f_exponent b")
      case True
      then have r: "internal_float_add b a = add_sorted b a"
        using 4 fin corner_add_finite [OF fin] by (simp add: internal_float_add_def finite_F_def)
      show ?thesis using add_sorted_nearest [of b a] True e 4 unfolding r
        by (auto simp: word_less_nat_alt sum_negative_def is_zero_F_def add.commute)
    next
      case False
      then have r: "internal_float_add b a = add_sorted a b"
        using 4 fin corner_add_finite [OF fin] by (simp add: internal_float_add_def finite_F_def)
      show ?thesis using add_sorted_nearest [of a b] False e 4 unfolding r
        by (auto simp: word_less_nat_alt sum_negative_def is_zero_F_def)
    qed
    then obtain p where p: "unat (internal_float_add b a) = (if sum_negative a b then 2 ^ 31 else 0) + p"
      "nearest p \<bar>real_of_int (fint a + fint b)\<bar>" by blast
    have "p < 2 ^ 31" using p(2) by (simp add: nearest_def max_mag_def)
    from result_parts [OF p(1) this] p(2) show ?thesis by simp
  qed
qed

text \<open>C11: Addition of finite single-precision numbers is correctly rounded: no magnitude is nearer to the exact sum, ties go to even, an overflow gives the infinity, and the sign is that of the sum.\<close>

theorem float_add_correctly_rounded:
  assumes "finite_F a" "finite_F b"
  shows "nearest (mag_bits (internal_float_add b a)) \<bar>real_of_int (fint a + fint b)\<bar> \<and>
    (f_sign (internal_float_add b a) \<noteq> 0 \<longleftrightarrow> sum_negative a b)"
  by (rule add_nearest [OF assms])

lemma float_add_correctly_rounded_witness:
  "nearest (mag_bits (internal_float_add 0xb3800000 0x3fc00001)) \<bar>real_of_int (fint 0x3fc00001 + fint 0xb3800000)\<bar> \<and>
    (f_sign (internal_float_add 0xb3800000 0x3fc00001) \<noteq> 0 \<longleftrightarrow> sum_negative 0x3fc00001 0xb3800000)"
  by (rule float_add_correctly_rounded) (simp_all add: finite_F_def f_exponent_def bf_get_def)

section \<open>Subtraction\<close>

text \<open>The subtrahend with its sign bit flipped.\<close>

definition flip_sign :: "u32 \<Rightarrow> u32" where "flip_sign v = bf_put 31 1 (NOT (f_sign v)) v"

lemma flip_sign_parts: "mag_bits (flip_sign v) = mag_bits v" "f_sign (flip_sign v) \<noteq> 0 \<longleftrightarrow> f_sign v = 0"
proof -
  have m: "mag_bits w = unat (take_bit 31 w)" for w
    unfolding mag_bits_def by (simp only: unsigned_take_bit_eq) (simp add: take_bit_eq_mod)
  have "take_bit 31 (flip_sign v) = take_bit 31 v" by (rule bit_word_eqI) (auto simp: flip_sign_def bf_simps bit_simps)
  then show "mag_bits (flip_sign v) = mag_bits v" by (simp only: m)
  have z: "f_sign w \<noteq> 0 \<longleftrightarrow> bit w 31" for w
    by (simp add: f_sign_def bf_get_def bit_iff_odd_drop_bit take_bit_eq_mod mod2_eq_if del: drop_bit_eq_div)
  show "f_sign (flip_sign v) \<noteq> 0 \<longleftrightarrow> f_sign v = 0"
  proof -
    have "bit (flip_sign v) 31 \<longleftrightarrow> \<not> bit v 31"
      using bit_iff_odd_drop_bit [of v 31]
      by (auto simp: flip_sign_def bf_simps bit_simps f_sign_def bf_get_def simp del: bit_0 drop_bit_eq_div)
    then show ?thesis using z by blast
  qed
qed

lemma flip_sign_facts:
  "fint (flip_sign v) = - fint v" "finite_F (flip_sign v) \<longleftrightarrow> finite_F v"
  "flip_sign v = N_ZERO_F \<longleftrightarrow> v = P_ZERO_F"
proof -
  show "fint (flip_sign v) = - fint v" using flip_sign_parts [of v] by (auto simp: fint_def)
  have "f_exponent (flip_sign v) = f_exponent v"
    unfolding f_exponent_def by (rule bit_word_eqI) (auto simp: flip_sign_def bf_simps bf_get_def bit_simps)
  then show "finite_F (flip_sign v) \<longleftrightarrow> finite_F v" by (simp add: finite_F_def)
  have zero: "w = N_ZERO_F \<longleftrightarrow> mag_bits w = 0 \<and> f_sign w \<noteq> 0" "w = P_ZERO_F \<longleftrightarrow> mag_bits w = 0 \<and> f_sign w = 0" for w
  proof -
    have "f_sign N_ZERO_F \<noteq> 0" "f_sign P_ZERO_F = 0" by (simp_all add: f_sign_def bf_get_def fpu_consts)
    then show "w = N_ZERO_F \<longleftrightarrow> mag_bits w = 0 \<and> f_sign w \<noteq> 0" "w = P_ZERO_F \<longleftrightarrow> mag_bits w = 0 \<and> f_sign w = 0"
      unfolding zero_mag is_zero_F_def by auto
  qed
  show "flip_sign v = N_ZERO_F \<longleftrightarrow> v = P_ZERO_F"
    unfolding zero(1) [of "flip_sign v"] zero(2) [of v] flip_sign_parts by blast
qed

lemma corner_sub_finite:
  assumes "finite_F a" "finite_F b"
  shows "corner_lookup corner_sub a b =
    (if is_zero_F a \<and> is_zero_F b then Some (if a = N_ZERO_F \<and> b = P_ZERO_F then N_ZERO_F else P_ZERO_F) else None)"
    "\<not> is_nan_F a" "\<not> is_nan_F b"
proof -
  have "\<not> finite_F P_NAN_F" "\<not> finite_F N_NAN_F" by (simp_all add: finite_F_def f_exponent_def bf_get_def fpu_consts)
  then have n: "a \<noteq> P_NAN_F" "a \<noteq> N_NAN_F" "b \<noteq> P_NAN_F" "b \<noteq> N_NAN_F" using assms by metis+
  moreover have "P_ZERO_F \<noteq> N_ZERO_F" by (simp add: fpu_consts)
  ultimately show "corner_lookup corner_sub a b =
    (if is_zero_F a \<and> is_zero_F b then Some (if a = N_ZERO_F \<and> b = P_ZERO_F then N_ZERO_F else P_ZERO_F) else None)"
    by (auto simp: corner_sub_def is_zero_F_def)
  show "\<not> is_nan_F a" "\<not> is_nan_F b" using n by (simp_all add: is_nan_F_def)
qed

definition difference_negative :: "u32 \<Rightarrow> u32 \<Rightarrow> bool" where
  "difference_negative a b \<longleftrightarrow> fint a - fint b < 0 \<or> a = N_ZERO_F \<and> b = P_ZERO_F"

text \<open>Subtraction of finite single-precision numbers is correctly rounded, with the sign of the exact difference; a zero difference is negative only for \<open>-0 - +0\<close>.\<close>

theorem float_sub_correctly_rounded:
  assumes fin: "finite_F a" "finite_F b"
  shows "nearest (mag_bits (internal_float_sub b a)) \<bar>real_of_int (fint a - fint b)\<bar> \<and>
    (f_sign (internal_float_sub b a) \<noteq> 0 \<longleftrightarrow> difference_negative a b)"
proof (cases "is_zero_F a \<and> is_zero_F b")
  case True
  have z: "f_sign P_ZERO_F = 0" "f_sign N_ZERO_F \<noteq> 0" by (simp_all add: f_sign_def bf_get_def fpu_consts)
  have r: "internal_float_sub b a = (if a = N_ZERO_F \<and> b = P_ZERO_F then N_ZERO_F else P_ZERO_F)"
    using True corner_sub_finite [OF fin] by (simp add: internal_float_sub_def)
  then have "mag_bits (internal_float_sub b a) = 0" by (auto simp: zero_mag is_zero_F_def)
  with r show ?thesis using z nearest_self [of 0] True by (auto simp: fint_zero difference_negative_def pmag_def)
next
  case False
  have "internal_float_sub b a = internal_float_add (flip_sign b) a"
    using corner_sub_finite [OF fin] unfolding internal_float_sub_def if_not_P [OF False] by (simp add: flip_sign_def)
  moreover have "sum_negative a (flip_sign b) \<longleftrightarrow> difference_negative a b"
    unfolding sum_negative_def difference_negative_def flip_sign_facts by simp
  ultimately show ?thesis using add_nearest [of a "flip_sign b"] fin by (simp add: flip_sign_facts)
qed

lemma float_sub_correctly_rounded_witness:
  "nearest (mag_bits (internal_float_sub 0x33800000 0x3fc00001)) \<bar>real_of_int (fint 0x3fc00001 - fint 0x33800000)\<bar> \<and>
    (f_sign (internal_float_sub 0x33800000 0x3fc00001) \<noteq> 0 \<longleftrightarrow> difference_negative 0x3fc00001 0x33800000)"
  by (rule float_sub_correctly_rounded) (simp_all add: finite_F_def f_exponent_def bf_get_def)

end
