(* ===== verification/Fpu_Mul_Correct.thy ===== *)
theory Fpu_Mul_Correct
  imports Fpu_Rounding
begin

text \<open>
  \<open>internal_float_mul\<close>: the 48-bit product of the significands and an exponent that may be negative.
  \<open>internal_normalize\<close> rounds it correctly, with one exception: an exponent of exactly 0 with a
  product that needs no shift is read at the scale of the exponent 1, which doubles the result.
\<close>

section \<open>Normalisation from any exponent\<close>

text \<open>The scale of an exponent as the product counts it: each step is a factor of two, also at 0.\<close>

definition lval :: "int \<Rightarrow> real \<Rightarrow> real" where "lval e y = y / 8 * 2 powi (e - 1)"

lemma lval_shift: "lval (e + int n) (y / 2 ^ n) = lval e y"
proof -
  have "(2 :: real) powi (e + int n - 1) = 2 powi (e - 1) * 2 ^ n"
    using power_int_add [of "2 :: real" "e - 1" "int n"] by (simp add: algebra_simps)
  then show ?thesis by (simp add: lval_def)
qed

lemma lval_xval: "1 \<le> e \<Longrightarrow> lval e y = xval e y"
proof -
  assume "1 \<le> e"
  then have "e - 1 = int (nat e - 1)" by linarith
  then have "(2 :: real) powi (e - 1) = 2 ^ (nat e - 1)" by (simp only: power_int_of_nat)
  then show ?thesis by (simp only: lval_def xval_def)
qed

lemma lval_0: "lval 0 y = xval 0 (y / 2)"
  by (simp add: lval_def xval_def power_int_minus)

text \<open>Where the shift to the right stops: below the denormals, at them, or with a full significand.\<close>

definition right_end :: "int \<Rightarrow> nat \<Rightarrow> bool" where
  "right_end e g \<longleftrightarrow> e < 0 \<and> g \<le> 4 \<or> e = 0 \<and> g < 2 ^ 27 \<or> 1 \<le> e \<and> 2 ^ 26 \<le> g"

lemma norm_right_lin:
  "norm_right e g = (e', g') \<Longrightarrow> e \<le> 0 \<or> 2 ^ 26 \<le> unat g \<Longrightarrow> jam y (unat g) \<Longrightarrow>
   e \<le> e' \<and> e' \<le> max 255 e \<and> jam (y / 2 ^ nat (e' - e)) (unat g') \<and> right_end e' (unat g')"
proof (induction e g arbitrary: y rule: norm_right.induct)
  case (1 e g)
  show ?case
  proof (cases "(drop_bit 26 g > 1 \<and> e < 0xff) \<or> (g > 4 \<and> e < 0)")
    case True
    then have r: "norm_right (e + 1) (shift_sticky g) = (e', g')" using 1(2) by (subst (asm) norm_right.simps) simp
    have "e + 1 \<le> 0 \<or> 2 ^ 26 \<le> unat (shift_sticky g)"
      using True drop_bit_26_1 [of g] by (cases "e < 0") (auto simp: unat_shift_sticky)
    from 1(1) [OF True r this jam_shift [OF 1(4)]]
    have IH: "e + 1 \<le> e'" "e' \<le> max 255 (e + 1)" "jam (y / 2 / 2 ^ nat (e' - (e + 1))) (unat g')"
      "right_end e' (unat g')" by blast+
    then have "nat (e' - e) = Suc (nat (e' - (e + 1)))" by linarith
    then have "y / 2 / 2 ^ nat (e' - (e + 1)) = y / 2 ^ nat (e' - e)" by simp
    then show ?thesis using IH True by auto
  next
    case False
    then have "e' = e" "g' = g" using 1(2) by (subst (asm) norm_right.simps, simp)+
    moreover have "right_end e (unat g)"
      using False 1(3) drop_bit_26_1 [of g] by (auto simp: right_end_def word_less_nat_alt)
    ultimately show ?thesis using 1(4) by simp
  qed
qed

lemma jam_le: "jam y g \<Longrightarrow> g \<le> 2 * k \<Longrightarrow> y \<le> real (2 * k)"
proof -
  assume a: "jam y g" "g \<le> 2 * k"
  show ?thesis
  proof (cases "y = real g")
    case False
    then have "odd g" "y < real g + 1" using a(1) by (auto simp: jam_def)
    moreover from this have "g + 1 \<le> 2 * k" using a(2) by (cases "g = 2 * k") auto
    then have "real g + 1 \<le> real (2 * k)" by linarith
    ultimately show ?thesis by linarith
  qed (use a in simp)
qed

lemma normal_form_right:
  assumes c: "e < 0 \<or> 2 ^ 27 \<le> unat g" and j: "jam y (unat g)"
  shows "normal_form (lval e y) (norm_phase e g)"
proof -
  have p_inf: "uint (f_exponent P_INF_F) = 255" "f_fraction P_INF_F = 0"
    by (simp_all add: f_exponent_def f_fraction_def P_INF_F_def bf_get_def)
  obtain e' g' where r: "norm_right e g = (e', g')" by fastforce
  define y' where "y' = y / 2 ^ nat (e' - e)"
  have R: "e \<le> e'" "e' \<le> max 255 e" "jam y' (unat g')" "right_end e' (unat g')"
    using norm_right_lin [OF r _ j] c unfolding y'_def by auto
  have x: "lval e' y' = lval e y" using lval_shift [of e "nat (e' - e)" y] R(1) by (simp add: y'_def)
  have enter: "drop_bit 26 g > 1 \<or> e < 0" using c drop_bit_26_1 [of g] by blast
  consider "e' \<ge> 255" | "1 \<le> e'" "e' \<le> 254" | "e' = 0" | "e' < 0" by linarith
  then show ?thesis
  proof cases
    case 1
    have np: "norm_phase e g = (True, 255, 0)"
      using enter 1 by (auto simp: norm_phase_def r p_inf)
    have y: "2 ^ 26 \<le> y'" using jam_ge [OF R(3), of "2 ^ 25"] R(4) 1 by (simp add: right_end_def)
    have "e' = int (nat (e' - 255) + 255)" using 1 by simp
    have "real (pmag max_mag) \<le> xval e' y'"
    proof -
      have "(2 :: real) ^ 254 \<le> 2 ^ (nat e' - 1)" using 1 by (intro power_increasing) auto
      then have "(2 :: real) ^ 26 / 8 * 2 ^ 254 \<le> y' / 8 * 2 ^ (nat e' - 1)" using y by (intro mult_mono) auto
      then show ?thesis by (simp add: xval_def pmag_max)
    qed
    then show ?thesis using lval_xval [of e' y'] 1 x unfolding np normal_form_def by simp
  next
    case 2
    have "norm_phase e g = (False, e', g')" using enter 2 by (auto simp: norm_phase_def r)
    moreover have "2 ^ 26 \<le> y'" using jam_ge [OF R(3), of "2 ^ 25"] R(4) 2 by (simp add: right_end_def)
    then have "normal e' (unat g') y'"
      using 2 R(3,4) norm_right_bound [OF r] jam_round_ok jam_0 by (auto simp: normal_def right_end_def)
    ultimately show ?thesis using lval_xval [of e' y'] 2 x unfolding normal_form_def by auto
  next
    case 3
    have "norm_phase e g = (False, 0, shift_sticky g')" using enter 3 by (auto simp: norm_phase_def r)
    moreover have "unat (shift_sticky g') < 2 ^ 26"
      using R(4) 3 by (simp add: right_end_def unat_shift_sticky) presburger
    then have "normal 0 (unat (shift_sticky g')) (y' / 2)"
      using jam_round_ok [OF jam_shift [OF R(3)]] jam_0 [OF R(3)] by (simp add: normal_def)
    ultimately show ?thesis using lval_0 [of y'] 3 x unfolding normal_form_def by auto
  next
    case 4
    have "norm_phase e g = (True, 0, 0)" using enter 4 by (auto simp: norm_phase_def r)
    moreover have "y' \<le> 4" using jam_le [OF R(3), of 2] R(4) 4 by (simp add: right_end_def)
    moreover have "(2 :: real) powi (e' - 1) \<le> 2 powi (- 2)" using 4 by (intro power_int_increasing) auto
    then have "(2 :: real) powi (e' - 1) \<le> 1 / 4" by (simp add: power_int_minus)
    ultimately have "lval e' y' \<le> 1 / 2 * (1 / 4)" unfolding lval_def using jam_0 [OF R(3)] by (intro mult_mono) auto
    moreover have "0 \<le> lval e' y'" unfolding lval_def using jam_0 [OF R(3)] by simp
    ultimately show ?thesis using \<open>norm_phase e g = (True, 0, 0)\<close> x unfolding normal_form_def by auto
  qed
qed

section \<open>Multiplication\<close>

lemma eff_exponent_eexp: "eff_exponent v = int (eexp v)"
  using unbiased_eexp [of v] by (auto simp: eff_exponent_def unbiased_def split: if_splits)

lemma sign_cases: "f_sign v = 0 \<or> f_sign v = 1"
proof -
  have "unat (f_sign v) < 2" unfolding field_nat using unsigned_less [of v, where ?'a = nat]
    by (intro less_mult_imp_div_less) simp
  then have "unat (f_sign v) = 0 \<or> unat (f_sign v) = 1" by linarith
  then show ?thesis by (simp add: word_unat_eq_iff)
qed

definition sig_product :: "u32 \<Rightarrow> u32 \<Rightarrow> nat" where
  "sig_product a b = unat (significand a) * unat (significand b)"

text \<open>The exact product of the magnitudes, in units of \<open>2 ^ -149\<close>.\<close>

definition exact_product :: "u32 \<Rightarrow> u32 \<Rightarrow> real" where
  "exact_product a b = real (pmag (mag_bits a)) * real (pmag (mag_bits b)) / 2 ^ 149"

text \<open>The exponent of the product, and the case that comes out doubled.\<close>

definition mul_exponent :: "u32 \<Rightarrow> u32 \<Rightarrow> int" where
  "mul_exponent a b = eff_exponent a + eff_exponent b - 147"

definition mul_doubles :: "u32 \<Rightarrow> u32 \<Rightarrow> bool" where
  "mul_doubles a b \<longleftrightarrow> mul_exponent a b = 0 \<and> sig_product a b < 2 ^ 27"

lemma product_word: "unat ((ucast (significand a) :: u64) * ucast (significand b)) = sig_product a b"
proof -
  have c: "unat (ucast (significand v) :: u64) = unat (significand v)" for v
    using significand_less [of v] by (simp add: unsigned_ucast_eq take_bit_nat_eq_self)
  have "sig_product a b < 2 ^ 24 * 2 ^ 24" unfolding sig_product_def
    using significand_less by (intro mult_strict_mono) auto
  then show ?thesis unfolding sig_product_def by (simp add: unat_word_ariths c)
qed

lemma product_value: "lval (mul_exponent a b) (real (sig_product a b)) = exact_product a b"
proof -
  have p: "(2 :: real) ^ (eexp v - 1) = 2 powi (int (eexp v) - 1)" for v
  proof -
    have "int (eexp v) - 1 = int (eexp v - 1)" by simp
    then show ?thesis by (simp only: power_int_of_nat)
  qed
  have "(2 :: real) powi (mul_exponent a b - 1) * 2 ^ 146 = 2 powi (mul_exponent a b - 1 + 146)"
    by (subst power_int_add) auto
  also have "mul_exponent a b - 1 + 146 = (int (eexp a) - 1) + (int (eexp b) - 1)"
    by (simp add: mul_exponent_def eff_exponent_eexp)
  also have "(2 :: real) powi ((int (eexp a) - 1) + (int (eexp b) - 1)) = 2 powi (int (eexp a) - 1) * 2 powi (int (eexp b) - 1)"
    by (subst power_int_add) auto
  finally have "(2 :: real) powi (mul_exponent a b - 1) * 2 ^ 146 = 2 ^ (eexp a - 1) * 2 ^ (eexp b - 1)"
    by (simp only: p)
  then show ?thesis
    unfolding lval_def exact_product_def mag_significand sig_product_def by (simp add: field_simps)
qed

lemma normalize_product:
  fixes a b :: u32
  defines "e \<equiv> mul_exponent a b" and "g \<equiv> (ucast (significand a) :: u64) * ucast (significand b)"
  assumes s: "sg = 0 \<or> sg = 1" and fin: "finite_F a" "finite_F b"
  shows "\<exists>p. unat (internal_normalize sg e g) = unat sg * 2 ^ 31 + p \<and>
    nearest p (if mul_doubles a b then 2 * exact_product a b else exact_product a b)"
proof -
  have g: "unat g = sig_product a b" unfolding g_def by (rule product_word)
  have j: "jam (real (unat g)) (unat g)" by (simp add: jam_def)
  have x: "lval e (real (unat g)) = exact_product a b" unfolding g e_def by (rule product_value)
  consider "e < 0 \<or> 2 ^ 27 \<le> unat g" | "e = 0" "unat g < 2 ^ 27" | "1 \<le> e" "unat g < 2 ^ 27" by linarith
  then show ?thesis
  proof cases
    case 1
    then have "\<not> mul_doubles a b" by (auto simp: mul_doubles_def g e_def)
    moreover have "\<exists>p. unat (internal_normalize sg e g) = unat sg * 2 ^ 31 + p \<and> nearest p (lval e (real (unat g)))"
      by (rule normal_form_nearest [OF s normal_form_right [OF 1 j]])
    ultimately show ?thesis unfolding x by simp
  next
    case 2
    then have "mul_doubles a b" by (simp add: mul_doubles_def g e_def)
    moreover have "xval e (real (unat g)) = 2 * exact_product a b"
      unfolding x [symmetric] using lval_0 [of "real (unat g)"] 2 by (simp add: xval_def)
    moreover have "\<exists>p. unat (internal_normalize sg e g) = unat sg * 2 ^ 31 + p \<and> nearest p (xval e (real (unat g)))"
      using 2 by (intro normalize_nearest [OF s _ _ j]) auto
    ultimately show ?thesis by simp
  next
    case 3
    then have d: "\<not> mul_doubles a b" by (simp add: mul_doubles_def e_def)
    have "e \<le> 254"
    proof (rule ccontr)
      assume "\<not> e \<le> 254"
      then have "402 \<le> eff_exponent a + eff_exponent b" by (simp add: e_def mul_exponent_def)
      then have "f_exponent a \<noteq> 0" "f_exponent b \<noteq> 0"
        using fin [unfolded finite_exponent] by (auto simp: eff_exponent_eexp)
      from significand_ge [OF this(1)] significand_ge [OF this(2)]
      have "2 ^ 23 * 2 ^ 23 \<le> sig_product a b" unfolding sig_product_def by (rule mult_le_mono)
      then show False using 3(2) g by simp
    qed
    then have "\<exists>p. unat (internal_normalize sg e g) = unat sg * 2 ^ 31 + p \<and> nearest p (xval e (real (unat g)))"
      using 3 by (intro normalize_nearest [OF s _ _ j]) auto
    then show ?thesis using d lval_xval [OF 3(1)] unfolding x [symmetric] by simp
  qed
qed

lemma zero_product: "is_zero_F a \<or> is_zero_F b \<Longrightarrow> exact_product a b = 0"
  unfolding zero_mag [symmetric] by (auto simp: exact_product_def pmag_def)

lemma special_not_finite: "is_nan_F v \<Longrightarrow> \<not> finite_F v" "is_inf_F v \<Longrightarrow> \<not> finite_F v"
  by (auto simp: is_nan_F_def is_inf_F_def finite_F_def f_exponent_def bf_get_def fpu_consts)

lemma mul_nearest:
  assumes fin: "finite_F a" "finite_F b"
  shows "nearest (mag_bits (internal_float_mul b a)) (if mul_doubles a b then 2 * exact_product a b else exact_product a b)
    \<and> (f_sign (internal_float_mul b a) \<noteq> 0 \<longleftrightarrow> f_sign a \<noteq> f_sign b)"
proof -
  have n: "\<not> is_nan_F a" "\<not> is_nan_F b" "\<not> is_inf_F a" "\<not> is_inf_F b" using special_not_finite fin by blast+
  then have c: "corner_lookup corner_mul a b = None" by (auto simp: is_inf_F_def corner_mul_def)
  have sx: "f_sign a XOR f_sign b = 0 \<or> f_sign a XOR f_sign b = 1" "f_sign a XOR f_sign b \<noteq> 0 \<longleftrightarrow> f_sign a \<noteq> f_sign b"
    using sign_cases [of a] sign_cases [of b] by auto
  show ?thesis
  proof (cases "is_zero_F a \<or> is_zero_F b")
    case True
    have z: "f_sign P_ZERO_F = 0" "f_sign N_ZERO_F \<noteq> 0" "is_zero_F (signed_zero a b)"
      by (simp_all add: f_sign_def bf_get_def fpu_consts signed_zero_def is_zero_F_def)
    have r: "internal_float_mul b a = signed_zero a b" using True n c by (auto simp: internal_float_mul_def)
    then have "mag_bits (internal_float_mul b a) = 0" using z(3) by (simp add: zero_mag)
    moreover have "f_sign (signed_zero a b) \<noteq> 0 \<longleftrightarrow> f_sign a \<noteq> f_sign b" using z sx(2) by (simp add: signed_zero_def)
    ultimately show ?thesis using zero_product [OF True] nearest_0 [of 0] r by simp
  next
    case False
    have "internal_float_mul b a = internal_normalize (f_sign a XOR f_sign b) (mul_exponent a b)
        (ucast (significand a) * ucast (significand b))"
      using False n c by (simp add: internal_float_mul_def mul_exponent_def)
    with normalize_product [OF sx(1) fin] obtain p where
      p: "unat (internal_float_mul b a) = unat (f_sign a XOR f_sign b) * 2 ^ 31 + p"
        "nearest p (if mul_doubles a b then 2 * exact_product a b else exact_product a b)" by auto
    have "p < 2 ^ 31" using p(2) by (simp add: nearest_def max_mag_def)
    moreover have "unat (internal_float_mul b a) = (if f_sign a \<noteq> f_sign b then 2 ^ 31 else 0) + p"
      using p(1) sx by auto
    ultimately show ?thesis using result_parts p(2) by simp
  qed
qed

text \<open>C12: Multiplication of finite single-precision numbers is correctly rounded, down to the denormals and up to the infinity, and its sign is that of the product, outside the one case of the next property.\<close>

theorem float_mul_correctly_rounded:
  assumes "finite_F a" "finite_F b" "\<not> mul_doubles a b"
  shows "nearest (mag_bits (internal_float_mul b a)) (exact_product a b) \<and>
    (f_sign (internal_float_mul b a) \<noteq> 0 \<longleftrightarrow> f_sign a \<noteq> f_sign b)"
  using mul_nearest [OF assms(1,2)] assms(3) by simp

lemma float_mul_correctly_rounded_witness:
  "nearest (mag_bits (internal_float_mul 0x3fc00001 0x00000003)) (exact_product 0x00000003 0x3fc00001) \<and>
    (f_sign (internal_float_mul 0x3fc00001 0x00000003) \<noteq> 0 \<longleftrightarrow> f_sign 0x00000003 \<noteq> f_sign 0x3fc00001)"
  by (rule float_mul_correctly_rounded)
    (simp_all add: finite_F_def mul_doubles_def mul_exponent_def eff_exponent_def f_exponent_def bf_get_def)

text \<open>C13: Where the exponent of the product is 0 and the product of the significands needs no shift to the right, multiplication returns the rounding of twice the exact product.\<close>

theorem float_mul_doubles:
  assumes "finite_F a" "finite_F b" "mul_doubles a b"
  shows "nearest (mag_bits (internal_float_mul b a)) (2 * exact_product a b)"
  using mul_nearest [OF assms(1,2)] assms(3) by simp

text \<open>\<open>2 ^ -149 * 2 ^ 19\<close> should be \<open>2 ^ 19\<close> units.\<close>

lemma float_mul_doubles_witness:
  "nearest (mag_bits (internal_float_mul 0x49000000 0x00000001)) (2 * exact_product 0x00000001 0x49000000) \<and>
    exact_product 0x00000001 0x49000000 = 2 ^ 19"
proof
  have sig: "significand 0x00000001 = 1" "significand 0x49000000 = 0x800000"
    by (simp_all add: significand_def f_exponent_def f_fraction_def bf_get_def)
  have "mul_doubles 0x00000001 0x49000000" unfolding mul_doubles_def mul_exponent_def sig_product_def sig
    by (simp add: eff_exponent_def f_exponent_def bf_get_def)
  then show "nearest (mag_bits (internal_float_mul 0x49000000 0x00000001)) (2 * exact_product 0x00000001 0x49000000)"
    by (intro float_mul_doubles) (simp_all add: finite_F_def f_exponent_def bf_get_def)
  show "exact_product 0x00000001 0x49000000 = 2 ^ 19"
    by (simp add: exact_product_def mag_bits_def pmag_def)
qed

end
