(* ===== verification/Fpu_Div_Correct.thy ===== *)
theory Fpu_Div_Correct
  imports Fpu_Mul_Correct
begin

text \<open>
  \<open>internal_float_div\<close>: its two loops end on nonzero operands, and it rounds the quotient of the
  significands cut to an integer of at least 39 bits. The remainder of that division does not reach
  the sticky bit, so the result is right when the quotient is exact and may be off otherwise.
\<close>

section \<open>The loops\<close>

lemma shift_a_returns:
  "0 < unat g \<Longrightarrow> \<exists>g' n. div_shift_a g sh = Some (g', sh + int n) \<and> unat g' = unat g * 2 ^ n \<and> 2 ^ 63 \<le> unat g'"
proof (induction "2 ^ 64 - unat g" arbitrary: g sh rule: less_induct)
  case less
  have d: "drop_bit 63 g = 0 \<longleftrightarrow> unat g < 2 ^ 63"
    by (simp add: unat_eq_zero [symmetric] unat_drop_bit div_eq_0_iff del: unat_eq_zero drop_bit_eq_div)
  show ?case
  proof (cases "unat g < 2 ^ 63")
    case True
    then have g2: "unat (push_bit 1 g) = 2 * unat g" using unat_push_bit_1 by blast
    then have "2 ^ 64 - unat (push_bit 1 g) < 2 ^ 64 - unat g" using less(2) True by simp
    from less(1) [OF this, of "sh + 1"] obtain g' n where
      "div_shift_a (push_bit 1 g) (sh + 1) = Some (g', sh + 1 + int n)"
      "unat g' = unat (push_bit 1 g) * 2 ^ n" "2 ^ 63 \<le> unat g'"
      using less(2) g2 by auto
    then have "div_shift_a g sh = Some (g', sh + int (Suc n)) \<and> unat g' = unat g * 2 ^ Suc n \<and> 2 ^ 63 \<le> unat g'"
      using True d g2 by (subst div_shift_a.simps) simp
    then show ?thesis by blast
  next
    case False
    then have "div_shift_a g sh = Some (g, sh + int 0) \<and> unat g = unat g * 2 ^ 0 \<and> 2 ^ 63 \<le> unat g"
      using d by (subst div_shift_a.simps) simp
    then show ?thesis by blast
  qed
qed

lemma shift_b_returns:
  "0 < unat g \<Longrightarrow> \<exists>g' m. div_shift_b g sh = Some (g', sh + int m) \<and> unat g = unat g' * 2 ^ m \<and> odd (unat g')"
proof (induction "unat g" arbitrary: g sh rule: less_induct)
  case less
  have e: "g AND 1 = 0 \<longleftrightarrow> even (unat g)"
    by (simp add: word_unat_eq_iff unsigned_and_eq and_one_eq even_iff_mod_2_eq_zero unat_mod)
  show ?case
  proof (cases "even (unat g)")
    case True
    have g2: "unat g = 2 * unat (drop_bit 1 g)" using True by (simp only: unat_drop_bit power_one_right) simp
    then have "unat (drop_bit 1 g) < unat g" "0 < unat (drop_bit 1 g)" using less(2) by linarith+
    from less(1) [OF this, of "sh + 1"] obtain g' m where
      "div_shift_b (drop_bit 1 g) (sh + 1) = Some (g', sh + 1 + int m)"
      "unat (drop_bit 1 g) = unat g' * 2 ^ m" "odd (unat g')" by blast
    then have "div_shift_b g sh = Some (g', sh + int (Suc m)) \<and> unat g = unat g' * 2 ^ Suc m \<and> odd (unat g')"
      using True e g2 by (subst div_shift_b.simps) simp
    then show ?thesis by blast
  next
    case False
    then have "div_shift_b g sh = Some (g, sh + int 0) \<and> unat g = unat g * 2 ^ 0 \<and> odd (unat g)"
      using e by (subst div_shift_b.simps) simp
    then show ?thesis by blast
  qed
qed

section \<open>The quotient\<close>

definition exact_quotient :: "u32 \<Rightarrow> u32 \<Rightarrow> real" where
  "exact_quotient a b = real (pmag (mag_bits a)) / real (pmag (mag_bits b)) * 2 ^ 149"

text \<open>The quotient of the significands has a finite binary expansion.\<close>

definition dyadic_quotient :: "u32 \<Rightarrow> u32 \<Rightarrow> bool" where
  "dyadic_quotient a b \<longleftrightarrow> (\<exists>j k. unat (significand a) * 2 ^ j = k * unat (significand b))"

lemma significand_pos: "\<not> is_zero_F v \<Longrightarrow> 0 < unat (significand v)"
  unfolding zero_mag [symmetric] using pmag_0 [of "mag_bits v"] mag_significand [of v] by (cases "unat (significand v)") auto

lemma quotient_value:
  assumes "\<not> is_zero_F b" "unat (significand b) = B * 2 ^ m"
  shows "lval (eff_exponent a - eff_exponent b + 127 - (int n + int m - 26)) (real (unat (significand a) * 2 ^ n) / real B)
    = exact_quotient a b"
proof -
  let ?e = "eff_exponent a - eff_exponent b + 127 - (int n + int m - 26)"
  have p: "(2 :: real) ^ (eexp v - 1) = 2 powi (int (eexp v) - 1)" for v
  proof -
    have "int (eexp v) - 1 = int (eexp v - 1)" by simp
    then show ?thesis by (simp only: power_int_of_nat)
  qed
  have B: "0 < B" using significand_pos [OF assms(1)] assms(2) by (cases B) auto
  have "(2 :: real) powi (?e - 1) * 2 ^ n * 2 ^ m * 2 ^ (eexp b - 1) = 2 powi ((?e - 1) + int n + int m + (int (eexp b) - 1))"
  proof -
    have "2 powi i * 2 powi k = (2 :: real) powi (i + k)" for i k by (simp add: power_int_add)
    moreover have "int (eexp b - 1) = int (eexp b) - 1" by simp
    ultimately show ?thesis unfolding power_int_of_nat [symmetric, of "2 :: real"] by (simp only:)
  qed
  also have "(?e - 1) + int n + int m + (int (eexp b) - 1) = (int (eexp a) - 1) + int 152"
    by (simp add: eff_exponent_eexp)
  also have "(2 :: real) powi ((int (eexp a) - 1) + int 152) = 2 ^ (eexp a - 1) * 2 ^ 152"
    unfolding p by (subst power_int_add) (simp_all only: power_int_of_nat, simp)
  finally have e: "(2 :: real) powi (?e - 1) * 2 ^ n * 2 ^ m * 2 ^ (eexp b - 1) = 2 ^ (eexp a - 1) * 2 ^ 152" .
  have "exact_quotient a b = real (unat (significand a)) * (2 ^ (eexp a - 1) * 2 ^ 149) / (real B * 2 ^ m * 2 ^ (eexp b - 1))"
    unfolding exact_quotient_def mag_significand assms(2) by simp
  also have "(2 :: real) ^ (eexp a - 1) * 2 ^ 149 = 2 powi (?e - 1) * 2 ^ n * 2 ^ m * 2 ^ (eexp b - 1) / 8"
    unfolding e by simp
  also have "real (unat (significand a)) * (2 powi (?e - 1) * 2 ^ n * 2 ^ m * 2 ^ (eexp b - 1) / 8) / (real B * 2 ^ m * 2 ^ (eexp b - 1))
      = lval ?e (real (unat (significand a) * 2 ^ n) / real B)"
    using B by (simp add: lval_def field_simps)
  finally show ?thesis by (rule sym)
qed

text \<open>The integer quotient: how large it is, and how near.\<close>

lemma quotient_bounds:
  fixes A B :: nat
  assumes "2 ^ 63 \<le> A" "0 < B" "B < 2 ^ 24"
  shows "2 ^ 39 \<le> A div B" "real (A div B) \<le> real A / real B" "real A / real B - real (A div B) \<le> real A / real B / 2 ^ 39"
proof -
  have "2 ^ 63 div 2 ^ 24 \<le> A div 2 ^ 24" using assms(1) by (rule div_le_mono)
  also have "\<dots> \<le> A div B" using assms by (intro div_le_mono2) auto
  finally have "2 ^ 63 div 2 ^ 24 \<le> A div B" .
  then show q: "2 ^ 39 \<le> A div B" by simp
  have "real A = real (A div B) * real B + real (A mod B)"
    by (simp only: of_nat_mult [symmetric] of_nat_add [symmetric] div_mult_mod_eq)
  then have r: "real A / real B = real (A div B) + real (A mod B) / real B" using assms(2) by (simp add: field_simps)
  have m: "0 \<le> real (A mod B) / real B" "real (A mod B) / real B \<le> 1"
    using assms(2) mod_less_divisor [OF assms(2), of A] by simp_all
  show le: "real (A div B) \<le> real A / real B" unfolding r using m by simp
  have "real (2 ^ 39) \<le> real (A div B)" using q by (rule of_nat_mono)
  then have "1 \<le> real A / real B / 2 ^ 39" using le by simp
  then show "real A / real B - real (A div B) \<le> real A / real B / 2 ^ 39" using m r by linarith
qed

lemma dyadic_exact:
  assumes "dyadic_quotient a b" "unat (significand b) = B * 2 ^ m" "odd B"
  shows "real (unat (significand a) * 2 ^ n div B) = real (unat (significand a) * 2 ^ n) / real B"
proof -
  obtain j k where "unat (significand a) * 2 ^ j = k * (B * 2 ^ m)"
    using assms(1,2) unfolding dyadic_quotient_def by metis
  then have "B dvd unat (significand a) * 2 ^ j" by (metis dvd_triv_left dvd_mult2 mult.commute)
  moreover have "coprime B (2 ^ j)" using assms(3) by simp
  ultimately have "B dvd unat (significand a)" by (simp add: coprime_dvd_mult_left_iff)
  then have "B dvd unat (significand a) * 2 ^ n" by (rule dvd_mult2)
  then show ?thesis by (rule real_of_nat_div)
qed

text \<open>The loops, the division and the exponent of the code, on nonzero significands.\<close>

lemma div_parts:
  assumes nz: "\<not> is_zero_F a" "\<not> is_zero_F b"
  shows "\<exists>ga gb n m. div_shift_a (ucast (significand a)) 0 = Some (ga, int n) \<and>
    div_shift_b (ucast (significand b)) (int n) = Some (gb, int n + int m) \<and>
    unat ga = unat (significand a) * 2 ^ n \<and> 2 ^ 63 \<le> unat ga \<and>
    unat (significand b) = unat gb * 2 ^ m \<and> odd (unat gb)"
proof -
  have c: "unat (ucast (significand v) :: u64) = unat (significand v)" for v
    using significand_less [of v] by (simp add: unsigned_ucast_eq take_bit_nat_eq_self)
  have "0 < unat (ucast (significand a) :: u64)" "0 < unat (ucast (significand b) :: u64)"
    unfolding c using significand_pos nz by blast+
  from shift_a_returns [OF this(1), of 0] shift_b_returns [OF this(2)] show ?thesis unfolding c by (metis add_0)
qed

lemma div_nearest:
  assumes s: "sg = 0 \<or> sg = 1" and nz: "\<not> is_zero_F a" "\<not> is_zero_F b"
    and ga: "unat ga = unat (significand a) * 2 ^ n" "2 ^ 63 \<le> unat ga"
    and gb: "unat (significand b) = unat gb * 2 ^ m" "odd (unat gb)"
  shows "\<exists>p x. unat (internal_normalize sg (eff_exponent a - eff_exponent b + 127 - (int n + int m - 26)) (ga div gb)) = unat sg * 2 ^ 31 + p \<and>
    nearest p x \<and> x \<le> exact_quotient a b \<and> exact_quotient a b - x \<le> exact_quotient a b / 2 ^ 39 \<and>
    (dyadic_quotient a b \<longrightarrow> x = exact_quotient a b)"
proof -
  let ?e = "eff_exponent a - eff_exponent b + 127 - (int n + int m - 26)" and ?q = "unat ga div unat gb"
  have q: "unat (ga div gb) = ?q" by (rule unat_div)
  have B: "0 < unat gb" using gb(2) by (cases "unat gb") auto
  have "unat gb * 1 \<le> unat gb * 2 ^ m" by (rule mult_le_mono2) simp
  then have "unat gb < 2 ^ 24" using significand_less [of b] gb(1) by linarith
  note b = quotient_bounds [OF ga(2) B this]
  define x where "x = lval ?e (real ?q)"
  have X: "lval ?e (real (unat ga) / real (unat gb)) = exact_quotient a b"
    unfolding ga(1) by (rule quotient_value [OF nz(2) gb(1)])
  have mono: "lval ?e y \<le> lval ?e z" if "y \<le> z" for y z using that unfolding lval_def by (intro mult_right_mono) auto
  have lin: "lval ?e (y - z) = lval ?e y - lval ?e z" "lval ?e (y / 2 ^ 39) = lval ?e y / 2 ^ 39" for y z
    by (simp_all add: lval_def field_simps)
  have "2 ^ 27 \<le> unat (ga div gb)" using b(1) unfolding q by simp
  then have "normal_form (lval ?e (real ?q)) (norm_phase ?e (ga div gb))"
    by (intro normal_form_right) (simp_all add: jam_def q)
  from normal_form_nearest [OF s this] obtain p where
    "unat (internal_normalize sg ?e (ga div gb)) = unat sg * 2 ^ 31 + p" "nearest p x" unfolding x_def by blast
  moreover have "x \<le> exact_quotient a b" unfolding x_def X [symmetric] by (rule mono [OF b(2)])
  moreover have "exact_quotient a b - x \<le> exact_quotient a b / 2 ^ 39"
    using mono [OF b(3)] unfolding lin X x_def [symmetric] .
  moreover have "dyadic_quotient a b \<longrightarrow> x = exact_quotient a b"
    using dyadic_exact [OF _ gb, of a n] unfolding x_def X [symmetric] ga(1) by simp
  ultimately show ?thesis by blast
qed

text \<open>C14: Division of finite nonzero numbers returns, with the sign of the quotient, the correct rounding of a number \<open>x\<close> that is below the exact quotient by at most one part in \<open>2 ^ 39\<close>, and of the quotient itself when it has a finite binary expansion.\<close>

theorem float_div_rounds_truncated:
  assumes fin: "finite_F a" "finite_F b" and nz: "\<not> is_zero_F a" "\<not> is_zero_F b"
  shows "\<exists>r x. internal_float_div b a = Some r \<and> nearest (mag_bits r) x \<and>
    (f_sign r \<noteq> 0 \<longleftrightarrow> f_sign a \<noteq> f_sign b) \<and>
    x \<le> exact_quotient a b \<and> exact_quotient a b - x \<le> exact_quotient a b / 2 ^ 39 \<and>
    (dyadic_quotient a b \<longrightarrow> x = exact_quotient a b)"
proof -
  have n: "\<not> is_nan_F a" "\<not> is_nan_F b" "\<not> is_inf_F a" "\<not> is_inf_F b" using special_not_finite fin by blast+
  then have c: "corner_lookup corner_div a b = None"
    using nz by (auto simp: corner_div_def is_zero_F_def is_inf_F_def)
  have sx: "f_sign a XOR f_sign b = 0 \<or> f_sign a XOR f_sign b = 1" "f_sign a XOR f_sign b \<noteq> 0 \<longleftrightarrow> f_sign a \<noteq> f_sign b"
    using sign_cases [of a] sign_cases [of b] by auto
  from div_parts [OF nz] obtain ga gb k m where l:
      "div_shift_a (ucast (significand a)) 0 = Some (ga, int k)"
      "div_shift_b (ucast (significand b)) (int k) = Some (gb, int k + int m)"
    and g: "unat ga = unat (significand a) * 2 ^ k" "2 ^ 63 \<le> unat ga"
      "unat (significand b) = unat gb * 2 ^ m" "odd (unat gb)" by blast
  let ?r = "internal_normalize (f_sign a XOR f_sign b) (eff_exponent a - eff_exponent b + 127 - (int k + int m - 26)) (ga div gb)"
  have r: "internal_float_div b a = Some ?r"
    using n c nz by (simp add: internal_float_div_def l Let_def algebra_simps)
  from div_nearest [OF sx(1) nz g] obtain p x where
    p: "unat ?r = unat (f_sign a XOR f_sign b) * 2 ^ 31 + p" "nearest p x" and
    x: "x \<le> exact_quotient a b" "exact_quotient a b - x \<le> exact_quotient a b / 2 ^ 39"
      "dyadic_quotient a b \<longrightarrow> x = exact_quotient a b" by blast
  have "p < 2 ^ 31" using p(2) by (simp add: nearest_def max_mag_def)
  moreover have "unat ?r = (if f_sign a \<noteq> f_sign b then 2 ^ 31 else 0) + p" using p(1) sx by auto
  ultimately have "nearest (mag_bits ?r) x" "f_sign ?r \<noteq> 0 \<longleftrightarrow> f_sign a \<noteq> f_sign b" using result_parts p(2) by auto
  with r x show ?thesis by blast
qed

lemma float_div_rounds_truncated_witness:
  "\<exists>r x. internal_float_div 0x3fb46d2e 0x40044492 = Some r \<and> nearest (mag_bits r) x \<and>
    (f_sign r \<noteq> 0 \<longleftrightarrow> f_sign 0x40044492 \<noteq> f_sign 0x3fb46d2e) \<and>
    x \<le> exact_quotient 0x40044492 0x3fb46d2e \<and>
    exact_quotient 0x40044492 0x3fb46d2e - x \<le> exact_quotient 0x40044492 0x3fb46d2e / 2 ^ 39 \<and>
    (dyadic_quotient 0x40044492 0x3fb46d2e \<longrightarrow> x = exact_quotient 0x40044492 0x3fb46d2e)"
  by (rule float_div_rounds_truncated)
    (simp_all add: finite_F_def f_exponent_def bf_get_def is_zero_F_def fpu_consts)

text \<open>
  The remainder matters: for these operands the integer quotient is exactly between two numbers, the
  even one of them is returned, and the other one is nearer.
\<close>

lemma misrounded_quotient: "internal_float_div 0x3fb46d2e 0x40044492 = Some 0x3fbbab6c"
proof -
  have sig: "significand 0x40044492 = 8668306" "significand 0x3fb46d2e = 11824430"
    by (simp_all add: significand_def f_exponent_def f_fraction_def bf_get_def)
  have eff: "eff_exponent 0x40044492 = 128" "eff_exponent 0x3fb46d2e = 127"
    "f_sign 0x40044492 = 0" "f_sign 0x3fb46d2e = 0"
    by (simp_all add: eff_exponent_def f_exponent_def f_sign_def bf_get_def)
  have a: "div_shift_a 8668306 0 = Some (9530903240120467456, 40)" by (simp add: div_shift_a.simps)
  have b: "div_shift_b 11824430 40 = Some (5912215, 41)" by (simp add: div_shift_b.simps)
  have r: "norm_right 113 1612069797888 = (127, 98392932)" by (simp add: norm_right.simps shift_sticky_def)
  have n: "internal_normalize 0 113 1612069797888 = 0x3fbbab6c"
    by (simp add: internal_normalize.simps norm_phase_def r round_phase_def f_result_def f_pack_def bf_put_def mask_eq_exp_minus_1)
  show ?thesis
    by (simp add: internal_float_div_def corner_div_def fpu_consts is_nan_F_def is_inf_F_def is_zero_F_def sig eff a b n)
qed

text \<open>Division is not correctly rounded: \<open>0x40044492 / 0x3fb46d2e\<close> gives \<open>0x3fbbab6c\<close>, and the next number is nearer to the quotient.\<close>

theorem float_div_misrounds:
  "internal_float_div 0x3fb46d2e 0x40044492 = Some 0x3fbbab6c \<and>
   \<not> nearest (mag_bits 0x3fbbab6c) (exact_quotient 0x40044492 0x3fb46d2e)"
proof
  show "internal_float_div 0x3fb46d2e 0x40044492 = Some 0x3fbbab6c" by (rule misrounded_quotient)
  have "mag_bits 0x3fbbab6c = 0x3fbbab6c" by (simp add: mag_bits_def)
  have p: "pmag 0x3fbbab6c = 12299116 * 2 ^ 126" "pmag 0x3fbbab6d = 12299117 * 2 ^ 126"
    "pmag (mag_bits 0x40044492) = 8668306 * 2 ^ 127" "pmag (mag_bits 0x3fb46d2e) = 11824430 * 2 ^ 126"
    by (simp_all add: pmag_def mag_bits_def)
  have "\<bar>exact_quotient 0x40044492 0x3fb46d2e - real (pmag 0x3fbbab6d)\<bar> < \<bar>exact_quotient 0x40044492 0x3fb46d2e - real (pmag 0x3fbbab6c)\<bar>"
    unfolding exact_quotient_def p by (simp add: field_simps)
  then show "\<not> nearest (mag_bits 0x3fbbab6c) (exact_quotient 0x40044492 0x3fb46d2e)"
    unfolding nearest_def max_mag_def \<open>mag_bits 0x3fbbab6c = _\<close>
    by (intro notI, elim conjE allE [of _ "0x3fbbab6d"]) simp
qed

end
