(* ===== verification/Exec_Correct.thy ===== *)
theory Exec_Correct
  imports Interrupts Cpu
begin

text \<open>
  The main loop \<open>exec\<close> as a whole: running \<open>m + n\<close> instructions is running \<open>m\<close> and then \<open>n\<close>, as the monitor's
  single steps do, and a halted processor with interrupts enabled is woken by the timer.
\<close>

section \<open>Splitting a run\<close>

text \<open>The inputs of the host from the iteration \<open>k\<close> on.\<close>

definition env_from :: "nat \<Rightarrow> (nat \<Rightarrow> host_input) \<Rightarrow> nat \<Rightarrow> host_input" where
  "env_from k env = (\<lambda>i. env (k + i))"

lemma watchpoint_stops: "run_instruction d hit s = Some (True, t) \<Longrightarrow> nemu_st t = NEMU_READY"
  by (auto simp: run_instruction_def check_watchpoint_def Let_def bind_eq_Some_conv split: option.splits prod.splits)

lemma exec_loop_stops: "n = 0 \<or> nemu_st s \<noteq> NEMU_RUN \<Longrightarrow> exec_loop d env k n hit s = Some (n, s)"
  by (subst exec_loop.simps) auto

lemma exec_loop_run:
  "n > 0 \<Longrightarrow> nemu_st s = NEMU_RUN \<Longrightarrow> \<not> is_nemu_hlt s \<Longrightarrow>
   exec_loop d env k n hit s = do {
     (stop, s) \<leftarrow> run_instruction d hit s;
     if stop then Some (n - 1, s)
     else do { s \<leftarrow> device_step (env k) s; exec_loop d env (k + 1) (n - 1) False s }
   }"
  by (subst exec_loop.simps) simp

lemma exec_loop_halted:
  "n > 0 \<Longrightarrow> nemu_st s = NEMU_RUN \<Longrightarrow> is_nemu_hlt s \<Longrightarrow>
   exec_loop d env k n hit s = do { s \<leftarrow> device_step (env k) s; exec_loop d env (k + 1) n hit s }"
  by (subst exec_loop.simps) simp

text \<open>Induction over the iterations of a run that returns.\<close>

lemma exec_loop_induct [consumes 1, case_names stop watch run halted]:
  assumes "exec_loop d env k n hit s = Some r"
    and stop: "\<And>k n hit s. n = 0 \<or> nemu_st s \<noteq> NEMU_RUN \<Longrightarrow> P k n hit s (n, s)"
    and watch: "\<And>k n hit s t. n > 0 \<Longrightarrow> nemu_st s = NEMU_RUN \<Longrightarrow> \<not> is_nemu_hlt s \<Longrightarrow>
      run_instruction d hit s = Some (True, t) \<Longrightarrow> P k n hit s (n - 1, t)"
    and run: "\<And>k n hit s t u r. n > 0 \<Longrightarrow> nemu_st s = NEMU_RUN \<Longrightarrow> \<not> is_nemu_hlt s \<Longrightarrow>
      run_instruction d hit s = Some (False, t) \<Longrightarrow> device_step (env k) t = Some u \<Longrightarrow>
      P (k + 1) (n - 1) False u r \<Longrightarrow> P k n hit s r"
    and halted: "\<And>k n hit s t r. n > 0 \<Longrightarrow> nemu_st s = NEMU_RUN \<Longrightarrow> is_nemu_hlt s \<Longrightarrow>
      device_step (env k) s = Some t \<Longrightarrow> P (k + 1) n hit t r \<Longrightarrow> P k n hit s r"
  shows "P k n hit s r"
proof -
  let ?P = "\<lambda>d' env' k n hit s r. d' = d \<longrightarrow> env' = env \<longrightarrow> P k n hit s r"
  have "?P d env k n hit s r"
  proof (rule exec_loop.raw_induct [where P = ?P, OF _ assms(1)])
    fix f :: "nat \<Rightarrow> (nat \<Rightarrow> host_input) \<Rightarrow> nat \<Rightarrow> u32 \<Rightarrow> bool \<Rightarrow> machine \<Rightarrow> (u32 \<times> machine) option" and d' env' k n hit s r
    assume IH: "\<And>d' env' k n hit s r. f d' env' k n hit s = Some r \<Longrightarrow> ?P d' env' k n hit s r"
      and e: "(if 0 < n \<and> nemu_st s = NEMU_RUN
        then if \<not> is_nemu_hlt s
          then run_instruction d' hit s \<bind>
            (\<lambda>(stop, s). if stop then Some (n - 1, s) else device_step (env' k) s \<bind> f d' env' (k + 1) (n - 1) False)
          else device_step (env' k) s \<bind> f d' env' (k + 1) n hit
        else Some (n, s)) = Some r"
    show "?P d' env' k n hit s r"
      using e by (auto simp: bind_eq_Some_conv word_gt_0 intro: stop watch run halted dest!: IH split: if_splits)
  qed
  then show ?thesis by simp
qed

lemma exec_loop_shift_1:
  "exec_loop d env j n hit s = Some r \<Longrightarrow> (\<And>i. env (j + i) = env' (j' + i)) \<Longrightarrow> exec_loop d env' j' n hit s = Some r"
proof (induction arbitrary: j' rule: exec_loop_induct)
  case (stop k n hit s)
  then show ?case by (simp add: exec_loop_stops)
next
  case (watch k n hit s t)
  then show ?case by (simp add: exec_loop_run)
next
  case (run k n hit s t u r)
  have "env' j' = env k" "\<And>i. env (k + 1 + i) = env' (j' + 1 + i)" using run(7) [of 0] run(7) [of "Suc _"] by simp_all
  then show ?case using run by (simp add: exec_loop_run)
next
  case (halted k n hit s t r)
  have "env' j' = env k" "\<And>i. env (k + 1 + i) = env' (j' + 1 + i)" using halted(6) [of 0] halted(6) [of "Suc _"] by simp_all
  then show ?case using halted by (simp add: exec_loop_halted)
qed

lemma exec_loop_shift: "exec_loop d env (k + j) n hit s = exec_loop d (env_from k env) j n hit s"
proof (cases "exec_loop d env (k + j) n hit s")
  case None
  then show ?thesis
    using exec_loop_shift_1 [of d "env_from k env" j n hit s _ env "k + j"]
    by (cases "exec_loop d (env_from k env) j n hit s") (auto simp: env_from_def add.assoc)
next
  case (Some r)
  then show ?thesis using exec_loop_shift_1 [OF Some, of "env_from k env" j] by (simp add: env_from_def add.assoc)
qed

text \<open>The loop with a count of the inputs that it reads: the position after them comes with the result.\<close>

partial_function (option) counted_loop ::
  "nat \<Rightarrow> (nat \<Rightarrow> host_input) \<Rightarrow> nat \<Rightarrow> u32 \<Rightarrow> bool \<Rightarrow> machine \<Rightarrow> (nat \<times> u32 \<times> machine) option" where
  [code]: "counted_loop d env k n hit s =
     (if n > 0 \<and> nemu_st s = NEMU_RUN then
        if \<not> is_nemu_hlt s then do {
          (stop, s) \<leftarrow> run_instruction d hit s;
          if stop then Some (k, n - 1, s)
          else do { s \<leftarrow> device_step (env k) s; counted_loop d env (k + 1) (n - 1) False s }
        }
        else do { s \<leftarrow> device_step (env k) s; counted_loop d env (k + 1) n hit s }
      else Some (k, n, s))"

definition inputs_read :: "nat \<Rightarrow> (nat \<Rightarrow> host_input) \<Rightarrow> u32 \<Rightarrow> machine \<Rightarrow> nat option" where
  "inputs_read d env n s = map_option fst (counted_loop d env 0 n (nemu_st s = NEMU_BREAK) (s\<lparr>nemu_st := NEMU_RUN\<rparr>))"

text \<open>It is the loop itself, and its result depends on nothing but the inputs that it counts.\<close>

lemma counted_loop_run:
  "exec_loop d env k n hit s = Some r \<Longrightarrow>
   \<exists>k'. k \<le> k' \<and> (\<forall>env'. (\<forall>i. k \<le> i \<longrightarrow> i < k' \<longrightarrow> env' i = env i) \<longrightarrow>
     counted_loop d env' k n hit s = Some (k', r) \<and> exec_loop d env' k n hit s = Some r)"
proof (induction rule: exec_loop_induct)
  case (stop k n hit s)
  then show ?case by (intro exI [of _ k]) (subst counted_loop.simps, auto simp: exec_loop_stops)
next
  case (watch k n hit s t)
  then show ?case by (intro exI [of _ k]) (subst counted_loop.simps, auto simp: exec_loop_run)
next
  case (run k n hit s t u r)
  from run(6) obtain k' where k': "k + 1 \<le> k'"
    "\<And>env'. (\<forall>i. k + 1 \<le> i \<longrightarrow> i < k' \<longrightarrow> env' i = env i) \<Longrightarrow>
       counted_loop d env' (k + 1) (n - 1) False u = Some (k', r) \<and> exec_loop d env' (k + 1) (n - 1) False u = Some r" by blast
  show ?case
  proof (intro exI [of _ k'] conjI allI impI)
    fix env' assume e: "\<forall>i. k \<le> i \<longrightarrow> i < k' \<longrightarrow> env' i = env i"
    then have "env' k = env k" using k'(1) by simp
    moreover note k'(2) [of env'] e
    ultimately show "counted_loop d env' k n hit s = Some (k', r)" "exec_loop d env' k n hit s = Some r"
      using run(1-5) by (subst counted_loop.simps, simp, simp add: exec_loop_run)
  qed (use k' in simp)
next
  case (halted k n hit s t r)
  from halted(5) obtain k' where k': "k + 1 \<le> k'"
    "\<And>env'. (\<forall>i. k + 1 \<le> i \<longrightarrow> i < k' \<longrightarrow> env' i = env i) \<Longrightarrow>
       counted_loop d env' (k + 1) n hit t = Some (k', r) \<and> exec_loop d env' (k + 1) n hit t = Some r" by blast
  show ?case
  proof (intro exI [of _ k'] conjI allI impI)
    fix env' assume e: "\<forall>i. k \<le> i \<longrightarrow> i < k' \<longrightarrow> env' i = env i"
    then have "env' k = env k" using k'(1) by simp
    moreover note k'(2) [of env'] e
    ultimately show "counted_loop d env' k n hit s = Some (k', r)" "exec_loop d env' k n hit s = Some r"
      using halted(1-4) by (subst counted_loop.simps, simp, simp add: exec_loop_halted)
  qed (use k' in simp)
qed
lemma counted_loop_unfold:
  "n > 0 \<Longrightarrow> nemu_st s = NEMU_RUN \<Longrightarrow> \<not> is_nemu_hlt s \<Longrightarrow> run_instruction d hit s = Some (False, t) \<Longrightarrow>
   device_step (env k) t = Some u \<Longrightarrow> counted_loop d env k n hit s = counted_loop d env (k + 1) (n - 1) False u"
  "n > 0 \<Longrightarrow> nemu_st s = NEMU_RUN \<Longrightarrow> is_nemu_hlt s \<Longrightarrow> device_step (env k) s = Some u \<Longrightarrow>
   counted_loop d env k n hit s = counted_loop d env (k + 1) n hit u"
  "n = 0 \<or> nemu_st s \<noteq> NEMU_RUN \<Longrightarrow> counted_loop d env k n hit s = Some (k, n, s)"
  by (subst counted_loop.simps, auto)+

lemma exec_loop_split:
  "exec_loop d env k m hit s = Some r \<Longrightarrow> r = (0, t) \<Longrightarrow> nemu_st t = NEMU_RUN \<Longrightarrow> unat m + unat n < 2 ^ 32 \<Longrightarrow>
   \<exists>k' hit'. counted_loop d env k m hit s = Some (k', r) \<and>
     exec_loop d env k (m + n) hit s = exec_loop d env k' n hit' t \<and> (hit' \<longrightarrow> hit \<and> m = 0)"
proof (induction rule: exec_loop_induct)
  case (stop k m hit s)
  then show ?case by (auto simp: counted_loop_unfold(3))
next
  case (watch k m hit s u)
  then show ?case using watchpoint_stops [of d hit s u] by auto
next
  case (run k m hit s u v r)
  have "m \<noteq> 0" using run(1) by (simp add: word_gt_0)
  then have "unat (m - 1) = unat m - 1" by (rule unat_minus_one)
  then have m: "0 < m + n" "m + n - 1 = (m - 1) + n" "unat (m - 1) + unat n < 2 ^ 32"
    using run(1,9) by (auto simp: word_less_nat_alt unat_word_ariths)
  from run(6) [OF run(7,8) m(3)] obtain k' hit' where
    "counted_loop d env (k + 1) (m - 1) False v = Some (k', r)"
    "exec_loop d env (k + 1) (m - 1 + n) False v = exec_loop d env k' n hit' t" "\<not> hit'" by blast
  moreover have "exec_loop d env k (m + n) hit s = exec_loop d env (k + 1) (m + n - 1) False v"
    using run(4,5) by (subst exec_loop_run [OF m(1) run(2,3)]) simp
  moreover note counted_loop_unfold(1) [where env = env and k = k, OF run(1-5)]
  ultimately show ?case unfolding m(2) by auto
next
  case (halted k m hit s u r)
  have m: "0 < m + n" using halted(1,8) by (auto simp: word_less_nat_alt unat_word_ariths)
  from halted(5) [OF halted(6-8)] obtain k' hit' where
    "counted_loop d env (k + 1) m hit u = Some (k', r)"
    "exec_loop d env (k + 1) (m + n) hit u = exec_loop d env k' n hit' t" "hit' \<longrightarrow> hit \<and> m = 0" by blast
  moreover have "exec_loop d env k (m + n) hit s = exec_loop d env (k + 1) (m + n) hit u"
    using halted(4) by (subst exec_loop_halted [OF m halted(2,3)]) simp
  moreover note counted_loop_unfold(2) [where env = env and k = k, OF halted(1-4)]
  ultimately show ?case by auto
qed

text \<open>C28: Single-stepping is transparent: when \<open>m\<close> instructions run without a stop and read \<open>k\<close> inputs of the host, \<open>exec\<close> of \<open>m + n\<close> is \<open>exec\<close> of \<open>m\<close> followed by \<open>exec\<close> of \<open>n\<close>, which gets the inputs from number \<open>k\<close> on; the first run depends on the inputs before \<open>k\<close> only.\<close>

theorem exec_split:
  assumes first: "exec_loop d env 0 m (nemu_st s = NEMU_BREAK) (s\<lparr>nemu_st := NEMU_RUN\<rparr>) = Some (0, t)"
    and running: "nemu_st t = NEMU_RUN" and mn: "0 < m" "unat m + unat n < 2 ^ 32"
  shows "exec d env m s = Some (t\<lparr>nemu_st := NEMU_READY\<rparr>) \<and>
    (\<exists>k. inputs_read d env m s = Some k \<and>
      exec d env (m + n) s = exec d (env_from k env) n (t\<lparr>nemu_st := NEMU_READY\<rparr>) \<and>
      (\<forall>env'. (\<forall>i<k. env' i = env i) \<longrightarrow> inputs_read d env' m s = Some k \<and> exec d env' m s = exec d env m s))"
proof (intro conjI)
  have t: "t\<lparr>nemu_st := NEMU_RUN\<rparr> = t" using running by (cases t) simp
  show e: "exec d env m s = Some (t\<lparr>nemu_st := NEMU_READY\<rparr>)" using first running by (simp add: exec_def)
  obtain k hit where k: "counted_loop d env 0 m (nemu_st s = NEMU_BREAK) (s\<lparr>nemu_st := NEMU_RUN\<rparr>) = Some (k, 0, t)"
    "exec_loop d env 0 (m + n) (nemu_st s = NEMU_BREAK) (s\<lparr>nemu_st := NEMU_RUN\<rparr>) = exec_loop d env k n hit t"
    "hit \<longrightarrow> nemu_st s = NEMU_BREAK \<and> m = 0"
    using exec_loop_split [OF first refl running mn(2)] by blast
  then have "hit = False" using mn(1) by auto
  with k(2) have "exec_loop d env 0 (m + n) (nemu_st s = NEMU_BREAK) (s\<lparr>nemu_st := NEMU_RUN\<rparr>) = exec_loop d (env_from k env) 0 n False t"
    using exec_loop_shift [of d env k 0] by simp
  then have "exec d env (m + n) s = exec d (env_from k env) n (t\<lparr>nemu_st := NEMU_READY\<rparr>)"
    unfolding exec_def Let_def by (simp add: t)
  moreover have "inputs_read d env' m s = Some k \<and> exec d env' m s = exec d env m s" if "\<forall>i<k. env' i = env i" for env'
    using counted_loop_run [OF first] k(1) that e running by (fastforce simp: inputs_read_def exec_def)
  ultimately show "\<exists>k. inputs_read d env m s = Some k \<and>
      exec d env (m + n) s = exec d (env_from k env) n (t\<lparr>nemu_st := NEMU_READY\<rparr>) \<and>
      (\<forall>env'. (\<forall>i<k. env' i = env i) \<longrightarrow> inputs_read d env' m s = Some k \<and> exec d env' m s = exec d env m s)" by blast
qed

section \<open>Waking a halted processor\<close>




















text \<open>Memory full of \<open>nop\<close>.\<close>

definition nop_machine :: machine where
  "nop_machine = machine0\<lparr>hw_mem := (\<lambda>_. 0x90), nemu_st := NEMU_READY\<rparr>"

lemma exec_split_witness:
  "inputs_read 1 (\<lambda>i. (of_nat i, 0, 0, [])) 1 nop_machine = Some 1 \<and>
   (\<exists>t. exec 1 (\<lambda>i. (of_nat i, 0, 0, [])) 1 nop_machine = Some t \<and> eip t = 1 \<and>
     exec 1 (\<lambda>i. (of_nat i, 0, 0, [])) 2 nop_machine = exec 1 (\<lambda>i. (of_nat (1 + i), 0, 0, [])) 1 t)"
proof -
  let ?s = "nop_machine\<lparr>nemu_st := NEMU_RUN\<rparr>" and ?t = "nop_machine\<lparr>nemu_st := NEMU_RUN, eip := 1\<rparr>"
    and ?env = "\<lambda>i. (of_nat i, 0, 0, []) :: host_input"
  have "instr_fetch ?s 0 1 = Some 0x90"
  proof -
    have "ram ?s SREG_CS 0 1"
      by (simp add: ram_def lram_def lin_def len_ok_def cr0_pg_def cr0_pe_def is_mmio_def QDISK_BASE_def nop_machine_def)
    then show ?thesis
      by (simp add: instr_fetch_def len_ok_def vaddr_read_ram lin_def cr0_pe_def nop_machine_def mem_word_simps)
  qed
  moreover have "head (bps machine0) = None" by (simp add: machine0_def)
  ultimately have i: "run_instruction 1 False ?s = Some (False, ?t)"
    by (simp add: run_instruction_def exec_inst_def do_intr_def opcode_entry_def nop_def check_breakpoint_def
        check_watchpoint_def scan_watchpoint_def scan_from.simps nop_machine_def)
  have dv: "device_step (?env 0) ?t = Some ?t"
    by (simp add: device_step_def do_devices_def do_timer_def do_keyboard_def do_vga_def do_intr_def nop_machine_def machine0_def)
  have n: "\<not> is_nemu_hlt ?s" "nemu_st nop_machine \<noteq> NEMU_BREAK" by (simp_all add: nop_machine_def machine0_def)
  have "exec_loop 1 ?env 0 1 False ?s = Some (0, ?t)"
    using i dv n by (subst exec_loop_run) (simp_all add: exec_loop_stops)
  then have "exec_loop 1 ?env 0 1 (nemu_st nop_machine = NEMU_BREAK) ?s = Some (0, ?t)" using n by simp
  note split = exec_split [OF this, of 1]
  have "counted_loop 1 ?env 0 1 False ?s = Some (1, 0, ?t)"
    using counted_loop_unfold(1) [where env = ?env and k = 0 and n = 1, OF _ _ n(1) i dv] by (simp add: counted_loop_unfold(3))
  then have "inputs_read 1 ?env 1 nop_machine = Some 1" using n(2) by (simp add: inputs_read_def)
  then show ?thesis using split by (auto simp: env_from_def)
qed

end
