(* ===== verification/Monitor_Elf.thy ===== *)
theory Monitor_Elf
  imports Nemu_State
begin

text \<open>
  The symbol tables of the monitor, \<open>nemu/src/monitor/elf.c\<close>. A file is the list of its bytes; a buffer that
  \<open>fread\<close> fills is the list of the bytes it got, and a read behind them, of memory that was never written, is
  \<open>None\<close>, as is a failed assertion. The offsets of the fields are those of the structures of \<open>elf.h\<close>.
\<close>

section \<open>Bytes of a buffer\<close>

type_synonym bytes = "u8 list"

definition byte_at :: "bytes \<Rightarrow> nat \<Rightarrow> nat option" where
  "byte_at xs i = (if i < length xs then Some (unat (xs ! i)) else None)"

definition half_at :: "bytes \<Rightarrow> nat \<Rightarrow> nat option" where
  "half_at xs i = do { a \<leftarrow> byte_at xs i; b \<leftarrow> byte_at xs (i + 1); Some (a + 256 * b) }"

definition word_at :: "bytes \<Rightarrow> nat \<Rightarrow> nat option" where
  "word_at xs i = do { a \<leftarrow> half_at xs i; b \<leftarrow> half_at xs (i + 2); Some (a + 65536 * b) }"

text \<open>\<open>fseek(fp, off, SEEK_SET); fread(buf, len, 1, fp)\<close>.\<close>

definition file_part :: "bytes \<Rightarrow> nat \<Rightarrow> nat \<Rightarrow> bytes" where
  "file_part file off len = take len (drop off file)"

text \<open>\<open>strcmp(p, s) == 0\<close> for the string at a pointer into a buffer.\<close>

fun strcmp_eq :: "bytes \<Rightarrow> string \<Rightarrow> bool option" where
  "strcmp_eq [] cs = None"
| "strcmp_eq (b # bs) [] = Some (b = 0)"
| "strcmp_eq (b # bs) (c # cs) = (if unat b = of_char c then strcmp_eq bs cs else Some False)"

section \<open>The tables\<close>

record elf_tables =
  strtab :: "bytes option"
  symtab :: "bytes option"
  nr_symtab_entry :: nat

definition no_tables :: elf_tables where
  "no_tables = \<lparr>strtab = None, symtab = None, nr_symtab_entry = 0\<rparr>"

definition check_byte :: "bytes \<Rightarrow> nat \<Rightarrow> nat set \<Rightarrow> unit option" where
  "check_byte buf i ok = do { b \<leftarrow> byte_at buf i; if b \<in> ok then Some () else None }"

text \<open>The assertions on the header: magic number, class, byte order, version, ABI, type and machine.\<close>

definition check_elf_header :: "bytes \<Rightarrow> unit option" where
  "check_elf_header buf = do {
     check_byte buf 0 {0x7f}; check_byte buf 1 {0x45}; check_byte buf 2 {0x4c}; check_byte buf 3 {0x46};
     check_byte buf 4 {1}; check_byte buf 5 {1}; check_byte buf 6 {1};
     check_byte buf 7 {0, 3}; check_byte buf 8 {0};
     t \<leftarrow> half_at buf 16; m \<leftarrow> half_at buf 18; v \<leftarrow> word_at buf 20;
     if t = 2 \<and> m = 3 \<and> v = 1 then Some () else None
   }"

definition SHT_SYMTAB :: nat where "SHT_SYMTAB = 2"
definition SHT_STRTAB :: nat where "SHT_STRTAB = 3"

text \<open>A step of the loop over the section headers, 40 bytes each.\<close>

definition section_named :: "bytes \<Rightarrow> bytes \<Rightarrow> nat \<Rightarrow> nat \<Rightarrow> string \<Rightarrow> bool option" where
  "section_named sh shstrtab i type nm = do {
     ty \<leftarrow> word_at sh (40 * i + 4);
     if ty = type then do { k \<leftarrow> word_at sh (40 * i); strcmp_eq (drop k shstrtab) nm } else Some False
   }"

definition section_content :: "bytes \<Rightarrow> bytes \<Rightarrow> nat \<Rightarrow> (nat \<times> bytes) option" where
  "section_content file sh i = do {
     off \<leftarrow> word_at sh (40 * i + 16);
     sz \<leftarrow> word_at sh (40 * i + 20);
     Some (sz, file_part file off sz)
   }"

definition load_section :: "bytes \<Rightarrow> bytes \<Rightarrow> bytes \<Rightarrow> nat \<Rightarrow> elf_tables \<Rightarrow> elf_tables option" where
  "load_section file sh shstrtab i t = do {
     is_symtab \<leftarrow> section_named sh shstrtab i SHT_SYMTAB ''.symtab'';
     if is_symtab then do {
       (sz, xs) \<leftarrow> section_content file sh i;
       Some (t\<lparr>symtab := Some xs, nr_symtab_entry := sz div 16\<rparr>)
     }
     else do {
       is_strtab \<leftarrow> section_named sh shstrtab i SHT_STRTAB ''.strtab'';
       if is_strtab then do { (sz, xs) \<leftarrow> section_content file sh i; Some (t\<lparr>strtab := Some xs\<rparr>) } else Some t
     }
   }"

definition load_elf_tables :: "bytes \<Rightarrow> elf_tables \<Rightarrow> elf_tables option" where
  "load_elf_tables file t = do {
     let buf = take 4096 file;
     check_elf_header buf;
     shoff \<leftarrow> word_at buf 32;
     shentsize \<leftarrow> half_at buf 46;
     shnum \<leftarrow> half_at buf 48;
     shstrndx \<leftarrow> half_at buf 50;
     let sh = file_part file shoff (shentsize * shnum);
     (sz, shstrtab) \<leftarrow> section_content file sh shstrndx;
     t \<leftarrow> foldM (load_section file sh shstrtab) [0..<shnum] t;
     if strtab t \<noteq> None \<and> symtab t \<noteq> None then Some t else None
   }"

section \<open>Look-up\<close>

definition STT_OBJECT :: nat where "STT_OBJECT = 1"
definition STT_FUNC :: nat where "STT_FUNC = 2"

text \<open>The fields of the \<open>i\<close>-th symbol; \<open>ELF32_ST_TYPE\<close> is the low half of \<open>st_info\<close>.\<close>

definition st_name :: "elf_tables \<Rightarrow> nat \<Rightarrow> nat option" where
  "st_name t i = do { xs \<leftarrow> symtab t; word_at xs (16 * i) }"

definition st_value :: "elf_tables \<Rightarrow> nat \<Rightarrow> nat option" where
  "st_value t i = do { xs \<leftarrow> symtab t; word_at xs (16 * i + 4) }"

definition st_size :: "elf_tables \<Rightarrow> nat \<Rightarrow> nat option" where
  "st_size t i = do { xs \<leftarrow> symtab t; word_at xs (16 * i + 8) }"

definition st_type :: "elf_tables \<Rightarrow> nat \<Rightarrow> nat option" where
  "st_type t i = do { xs \<leftarrow> symtab t; b \<leftarrow> byte_at xs (16 * i + 12); Some (b mod 16) }"

definition st_name_is :: "elf_tables \<Rightarrow> nat \<Rightarrow> string \<Rightarrow> bool option" where
  "st_name_is t i nm = do { xs \<leftarrow> strtab t; k \<leftarrow> st_name t i; strcmp_eq (drop k xs) nm }"

text \<open>The loops of the look-ups, over the symbols that are left; the name is compared only for the types asked for.\<close>

fun look_up_from :: "elf_tables \<Rightarrow> nat set \<Rightarrow> string \<Rightarrow> nat list \<Rightarrow> u32 option option" where
  "look_up_from t types nm [] = Some None"
| "look_up_from t types nm (i # is) = do {
     ty \<leftarrow> st_type t i;
     hit \<leftarrow> (if ty \<in> types then st_name_is t i nm else Some False);
     if hit then do { v \<leftarrow> st_value t i; Some (Some (of_nat v)) }
     else look_up_from t types nm is
   }"

definition look_up_fun_symtab :: "elf_tables \<Rightarrow> string \<Rightarrow> u32 option option" where
  "look_up_fun_symtab t nm = look_up_from t {STT_FUNC} nm [0..<nr_symtab_entry t]"

definition look_up_symtab :: "elf_tables \<Rightarrow> string \<Rightarrow> u32 option option" where
  "look_up_symtab t nm = look_up_from t {STT_FUNC, STT_OBJECT} nm [0..<nr_symtab_entry t]"

text \<open>The string at a pointer.\<close>

fun c_string :: "bytes \<Rightarrow> string option" where
  "c_string [] = None"
| "c_string (b # bs) = (if b = 0 then Some [] else do { cs \<leftarrow> c_string bs; Some (char_of (unat b) # cs) })"

fun find_fun_from :: "elf_tables \<Rightarrow> u32 \<Rightarrow> nat list \<Rightarrow> string option" where
  "find_fun_from t pc [] = Some ''???''"
| "find_fun_from t pc (i # is) = do {
     ty \<leftarrow> st_type t i;
     hit \<leftarrow> (if ty = STT_FUNC then do {
              v \<leftarrow> st_value t i;
              if pc \<ge> of_nat v then do { sz \<leftarrow> st_size t i; Some (pc < of_nat v + of_nat sz) } else Some False
            } else Some False);
     if hit then do { xs \<leftarrow> strtab t; k \<leftarrow> st_name t i; c_string (drop k xs) }
     else find_fun_from t pc is
   }"

definition find_fun_name :: "elf_tables \<Rightarrow> u32 \<Rightarrow> string option" where
  "find_fun_name t pc = find_fun_from t pc [0..<nr_symtab_entry t]"

end
