(* ===== verification/Monitor_Ui.thy ===== *)
theory Monitor_Ui
  imports Cpu Monitor_Elf
begin

text \<open>
  The command line of the monitor, \<open>nemu/src/monitor/ui.c\<close>. A command line is a buffer of characters in which
  \<open>strtok\<close> writes terminators and from which it goes on; what the commands print is a list of messages. A session is
  the list of the lines that \<open>readline\<close> returns, each with the inputs of the host for the instructions that it runs and
  the characters that \<open>scanf\<close> reads.
\<close>

section \<open>Strings in a buffer\<close>

definition NUL :: char where "NUL = CHR 0x00"

text \<open>The string at a position of a buffer, up to its terminator; the end of the list is one too.\<close>

definition c_str :: "string \<Rightarrow> nat \<Rightarrow> string" where
  "c_str buf p = takeWhile (\<lambda>c. c \<noteq> NUL) (drop p buf)"

text \<open>\<open>strspn(p, " ")\<close>\<close>

definition strspn_blank :: "string \<Rightarrow> nat \<Rightarrow> nat" where
  "strspn_blank buf p = length (takeWhile (\<lambda>c. c = CHR '' '') (drop p buf))"

text \<open>\<open>strtok(\<dots>, " ")\<close> from a position: the token, the buffer with its terminator, and where to go on.\<close>

definition strtok :: "string \<Rightarrow> nat \<Rightarrow> (nat \<times> string \<times> nat) option" where
  "strtok buf p =
     (let t = p + strspn_blank buf p
      in if c_str buf t = [] then None
         else let e = t + length (takeWhile (\<lambda>c. c \<noteq> CHR '' '') (c_str buf t))
              in if e < length buf \<and> buf ! e = CHR '' '' then Some (t, buf[e := NUL], e + 1) else Some (t, buf, e))"

text \<open>\<open>sscanf(s, "%d", &n)\<close> with a 32-bit \<open>long\<close>: blanks, a sign, and at least one digit.\<close>

definition dec_digit :: "char \<Rightarrow> nat option" where
  "dec_digit c = (let n = of_char c :: nat in if 48 \<le> n \<and> n \<le> 57 then Some (n - 48) else None)"

fun dec_value :: "nat \<Rightarrow> string \<Rightarrow> nat" where
  "dec_value acc [] = acc"
| "dec_value acc (c # cs) = (case dec_digit c of None \<Rightarrow> acc | Some d \<Rightarrow> dec_value (10 * acc + d) cs)"

definition sscanf_d :: "string \<Rightarrow> int option" where
  "sscanf_d s =
     (let s = dropWhile is_space s;
          (neg, s) = (case s of CHR ''-'' # r \<Rightarrow> (True, r) | CHR ''+'' # r \<Rightarrow> (False, r) | _ \<Rightarrow> (False, s));
          v = int (dec_value 0 s)
      in if s = [] \<or> dec_digit (hd s) = None then None
         else Some (if neg then max (- v) (- (2 ^ 31)) else min v (2 ^ 31 - 1)))"

text \<open>\<open>sscanf(s, "%80[a-zA-Z0-9_]", name)\<close>\<close>

definition name_char :: "char \<Rightarrow> bool" where
  "name_char c \<longleftrightarrow> (let n = of_char c :: nat in 48 \<le> n \<and> n \<le> 57 \<or> 65 \<le> n \<and> n \<le> 90 \<or> 97 \<le> n \<and> n \<le> 122 \<or> n = 95)"

definition sscanf_name :: "string \<Rightarrow> string option" where
  "sscanf_name s = (let nm = take 80 (takeWhile name_char s) in if nm = [] then None else Some nm)"

section \<open>The state of the command line\<close>

datatype ui_msg =
    Value u32 | Invalid_expr string | Bad_number string | Bad_info_args | Print_registers | List_breakpoints
  | Usage_p | Usage_b | Usage_w | No_function string | Breakpoint_set nat u32 | Watchpoint_set nat
  | Ask_delete_all | Answer_y_or_n | Bad_breakpoint string | Help string string | Unknown_command string
  | Unknown_user_command string

record ui =
  ui_machine :: machine
  ui_buf :: string
  ui_tok :: nat
  ui_env :: "nat \<Rightarrow> host_input"
  ui_stdin :: string
  ui_out :: "ui_msg list"

definition say :: "ui_msg \<Rightarrow> ui \<Rightarrow> ui" where "say m u = u\<lparr>ui_out := ui_out u @ [m]\<rparr>"

text \<open>\<open>strtok(NULL, " ")\<close>\<close>

definition next_tok :: "ui \<Rightarrow> string option \<times> ui" where
  "next_tok u =
     (case strtok (ui_buf u) (ui_tok u) of
        None \<Rightarrow> (None, u)
      | Some (t, buf, p) \<Rightarrow> (Some (c_str buf t), u\<lparr>ui_buf := buf, ui_tok := p\<rparr>))"

definition ui_exec :: "nat \<Rightarrow> u32 \<Rightarrow> ui \<Rightarrow> ui option" where
  "ui_exec d n u = do { s \<leftarrow> exec d (ui_env u) n (ui_machine u); Some (u\<lparr>ui_machine := s\<rparr>) }"

text \<open>
  A handler gets the position of its arguments in the buffer, if there are any, and returns whether the loop
  goes on; \<open>None\<close> where the monitor does not come back.
\<close>

type_synonym cmd_handler = "nat option \<Rightarrow> ui \<Rightarrow> (bool \<times> ui) option"

definition go_on :: "ui \<Rightarrow> (bool \<times> ui) option" where "go_on u = Some (True, u)"

section \<open>The commands\<close>

definition cmd_c :: "nat \<Rightarrow> cmd_handler" where
  "cmd_c d args u = do { u \<leftarrow> ui_exec d (- 1) u; go_on u }"

definition cmd_q :: cmd_handler where "cmd_q args u = Some (False, u)"

definition cmd_si :: "nat \<Rightarrow> cmd_handler" where
  "cmd_si d args u =
     (if args = None then do { u \<leftarrow> ui_exec d 1 u; go_on u }
      else case next_tok u of
        (None, u) \<Rightarrow> do { u \<leftarrow> ui_exec d 1 u; go_on u }
      | (Some steps, u) \<Rightarrow>
          (case sscanf_d steps of
             Some n \<Rightarrow> if n > 0 then do { u \<leftarrow> ui_exec d (word_of_int n) u; go_on u } else go_on (say (Bad_number steps) u)
           | None \<Rightarrow> go_on (say (Bad_number steps) u)))"

definition cmd_info :: cmd_handler where
  "cmd_info args u =
     (case next_tok u of
        (None, u) \<Rightarrow> go_on (say Bad_info_args u)
      | (Some arg, u) \<Rightarrow>
          if arg = ''r'' then go_on (say Print_registers u)
          else if arg = ''w'' then go_on (say List_breakpoints u)
          else go_on (say Bad_info_args u))"

definition cmd_p :: cmd_handler where
  "cmd_p args u =
     (case args of
        None \<Rightarrow> go_on (say Usage_p u)
      | Some p \<Rightarrow> do { v \<leftarrow> expr (c_str (ui_buf u) p); go_on (say (Value v) u) })"

definition ui_set_breakpoint :: "u32 \<Rightarrow> ui \<Rightarrow> (bool \<times> ui) option" where
  "ui_set_breakpoint addr u = do {
     (no, s) \<leftarrow> set_breakpoint addr (ui_machine u);
     go_on (say (Breakpoint_set no addr) (u\<lparr>ui_machine := s\<rparr>))
   }"

definition cmd_b :: "elf_tables \<Rightarrow> cmd_handler" where
  "cmd_b t args u =
     (case args of
        None \<Rightarrow> go_on (say Usage_b u)
      | Some p \<Rightarrow>
          let p = p + strspn_blank (ui_buf u) p; s = c_str (ui_buf u) p
          in if s \<noteq> [] \<and> hd s = CHR ''*'' then do { addr \<leftarrow> expr (tl s); ui_set_breakpoint addr u }
             else case sscanf_name s of
               None \<Rightarrow> go_on (say Usage_b u)
             | Some fun_name \<Rightarrow> do {
                 r \<leftarrow> look_up_fun_symtab t fun_name;
                 (case r of
                    None \<Rightarrow> go_on (say (No_function fun_name) u)
                  | Some addr \<Rightarrow> ui_set_breakpoint addr u)
               })"

definition cmd_w :: cmd_handler where
  "cmd_w args u =
     (case args of
        None \<Rightarrow> go_on (say Usage_w u)
      | Some p \<Rightarrow> do {
          let p = p + strspn_blank (ui_buf u) p;
          (no, s) \<leftarrow> set_watchpoint (c_str (ui_buf u) p) (ui_machine u);
          go_on (say (Watchpoint_set no) (u\<lparr>ui_machine := s\<rparr>))
        })"

text \<open>
  The question of \<open>cmd_d\<close>: whether all breakpoints are to be deleted, and what was printed; at the end of the input
  it is asked forever.
\<close>

fun ask_delete :: "string \<Rightarrow> ui_msg list \<Rightarrow> (bool \<times> ui_msg list \<times> string) option" where
  "ask_delete [] out = None"
| "ask_delete (c # cs) out =
     (if c = CHR ''y'' then Some (True, out @ [Ask_delete_all], cs)
      else if c = CHR ''n'' then Some (False, out @ [Ask_delete_all], cs)
      else ask_delete cs (out @ [Ask_delete_all, Answer_y_or_n]))"

text \<open>A number that no node has stands for the negative ones.\<close>

definition delete_NO :: "int \<Rightarrow> machine \<Rightarrow> machine option" where
  "delete_NO v s = map_option snd (delete_breakpoint (if v < 0 then NR_BP else nat v) s)"

text \<open>The loop over the numbers ends because every token moves the position of \<open>strtok\<close> forward.\<close>

lemma strtok_advances:
  assumes "strtok buf p = Some (t, buf', q)"
  shows "length buf' = length buf" "p \<le> t" "t < q" "p < length buf"
proof -
  let ?t = "p + strspn_blank buf p"
  let ?w = "takeWhile (\<lambda>c. c \<noteq> CHR '' '') (c_str buf ?t)"
  have ne: "c_str buf ?t \<noteq> []" using assms by (auto simp: strtok_def Let_def)
  then have "drop ?t buf \<noteq> []" by (auto simp: c_str_def)
  then show "p < length buf" by simp
  have "drop ?t buf = dropWhile (\<lambda>c. c = CHR '' '') (drop p buf)"
    by (simp add: strspn_blank_def dropWhile_eq_drop add.commute)
  then have "hd (drop ?t buf) \<noteq> CHR '' ''"
    using \<open>drop ?t buf \<noteq> []\<close> hd_dropWhile [of "\<lambda>c. c = CHR '' ''" "drop p buf"] by simp
  moreover have "hd (c_str buf ?t) = hd (drop ?t buf)"
    using ne by (cases "drop ?t buf") (auto simp: c_str_def split: if_splits)
  ultimately have "?w \<noteq> []" using ne by (cases "c_str buf ?t") auto
  then have "0 < length ?w" by simp
  then show "length buf' = length buf" "p \<le> t" "t < q"
    using assms ne by (auto simp: strtok_def Let_def split: if_splits)
qed

lemma next_tok_advances:
  "next_tok u = (Some w, v) \<Longrightarrow> length (ui_buf v) - ui_tok v < length (ui_buf u) - ui_tok u"
  using strtok_advances [of "ui_buf u" "ui_tok u"]
  by (cases "strtok (ui_buf u) (ui_tok u)") (fastforce simp: next_tok_def split: prod.splits)+

function delete_list :: "string \<Rightarrow> ui \<Rightarrow> ui option" where
  "delete_list p u =
     (case sscanf_d p of
        None \<Rightarrow> Some (say (Bad_breakpoint p) u)
      | Some v \<Rightarrow>
          (case delete_NO v (ui_machine u) of
             None \<Rightarrow> None
           | Some s \<Rightarrow>
               (case next_tok (u\<lparr>ui_machine := s\<rparr>) of
                  (None, u) \<Rightarrow> Some u
                | (Some p, u) \<Rightarrow> delete_list p u)))"
  by pat_completeness auto
termination
  by (relation "measure (\<lambda>(p, u). length (ui_buf u) - ui_tok u)")
    (auto dest!: next_tok_advances [OF sym])

declare delete_list.simps [simp del]

definition cmd_d :: cmd_handler where
  "cmd_d args u =
     (case next_tok u of
        (None, u) \<Rightarrow> do {
          (yes, out, rest) \<leftarrow> ask_delete (ui_stdin u) (ui_out u);
          let u = u\<lparr>ui_out := out, ui_stdin := rest\<rparr>;
          s \<leftarrow> (if yes then delete_all_breakpoint (ui_machine u) else Some (ui_machine u));
          go_on (u\<lparr>ui_machine := s\<rparr>)
        }
      | (Some p, u) \<Rightarrow> do { u \<leftarrow> delete_list p u; go_on u })"

definition cmd_descriptions :: "(string \<times> string) list" where
  "cmd_descriptions =
    [(''help'', ''Display informations about all supported commands''),
     (''c'', ''Continue the execution of the program''),
     (''q'', ''Exit NEMU''),
     (''p'', ''Evaluate an expression''),
     (''b'', ''Set breakpoint''),
     (''w'', ''Set watchpoint''),
     (''d'', ''Delete breakpoint(s).''),
     (''exit'', ''Exit NEMU''),
     (''si'', ''Single Step Execution''),
     (''info'', ''Print register and watch point info'')]"

definition cmd_help :: cmd_handler where
  "cmd_help args u =
     (case next_tok u of
        (None, u) \<Rightarrow> go_on (u\<lparr>ui_out := ui_out u @ map (\<lambda>(nm, desc). Help nm desc) cmd_descriptions\<rparr>)
      | (Some arg, u) \<Rightarrow>
          (case map_of cmd_descriptions arg of
             Some desc \<Rightarrow> go_on (say (Help arg desc) u)
           | None \<Rightarrow> go_on (say (Unknown_command arg) u)))"

definition cmd_table :: "nat \<Rightarrow> elf_tables \<Rightarrow> (string \<times> cmd_handler) list" where
  "cmd_table d t =
    [(''help'', cmd_help), (''c'', cmd_c d), (''q'', cmd_q), (''p'', cmd_p), (''b'', cmd_b t), (''w'', cmd_w),
     (''d'', cmd_d), (''exit'', cmd_q), (''si'', cmd_si d), (''info'', cmd_info)]"

section \<open>The main loop\<close>

text \<open>The arguments: behind the length of the command and one more character, counted from the start of the line.\<close>

definition args_of :: "string \<Rightarrow> nat \<Rightarrow> string \<Rightarrow> nat option" where
  "args_of buf len_user_cmd cmd =
     (let a = length cmd + 1; a = a + strspn_blank buf a
      in if a \<ge> len_user_cmd then None else Some a)"

text \<open>One line: whether the loop goes on.\<close>

definition ui_command :: "nat \<Rightarrow> elf_tables \<Rightarrow> string \<Rightarrow> ui \<Rightarrow> (bool \<times> ui) option" where
  "ui_command d t line u =
     (case strtok line 0 of
        None \<Rightarrow> go_on u
      | Some (start, buf, p) \<Rightarrow>
          let u = u\<lparr>ui_buf := buf, ui_tok := p\<rparr>;
              cmd = c_str buf start;
              args = args_of buf (length line) cmd
          in do {
            (more, u) \<leftarrow> (case map_of (cmd_table d t) cmd of
                            Some f \<Rightarrow> f args u
                          | None \<Rightarrow> go_on (say (Unknown_user_command (c_str buf 0)) u));
            Some (more \<and> nemu_st (ui_machine u) \<noteq> NEMU_STOP, u)
          })"

type_synonym ui_line = "string \<times> (nat \<Rightarrow> host_input) \<times> string"

text \<open>Empty lines are read again by \<open>rl_gets\<close>, which never returns at the end of the input.\<close>

fun ui_loop :: "nat \<Rightarrow> elf_tables \<Rightarrow> ui_line list \<Rightarrow> ui \<Rightarrow> ui option" where
  "ui_loop d t [] u = None"
| "ui_loop d t ((line, env, answers) # rest) u =
     (if line = [] then ui_loop d t rest u
      else do {
        (more, u) \<leftarrow> ui_command d t line (u\<lparr>ui_env := env, ui_stdin := answers\<rparr>);
        if more then ui_loop d t rest u else Some u
      })"

definition ui_mainloop :: "nat \<Rightarrow> elf_tables \<Rightarrow> bool \<Rightarrow> ui_line list \<Rightarrow> ui \<Rightarrow> ui option" where
  "ui_mainloop d t autorun lines u =
     (if autorun then do {
        u \<leftarrow> ui_exec d (- 1) u;
        if nemu_st (ui_machine u) = NEMU_STOP then Some u else ui_loop d t lines u
      }
      else ui_loop d t lines u)"

end
