(* ===== verification/Startup.thy ===== *)
theory Startup
  imports Monitor_Ui
begin

text \<open>
  The start of the emulator: its arguments (\<open>nemu/src/parse_args.c\<close>), the reset of the machine, the loading of an
  image and the choice between the built-in tests and the monitor (\<open>nemu/src/main.c\<close>), with \<open>init_sdl\<close> and
  \<open>close_sdl\<close> of \<open>device/sdl.c\<close>. Files are a map from paths to bytes; the window is assumed to open.
\<close>

section \<open>The arguments\<close>

datatype builtin = Reg_test | Alu_test string | Fpu_test string

record options =
  image_path :: string
  elf_path :: string
  image_path_score :: string
  elf_path_score :: string
  flag_autorun :: bool
  flag_reg_alu_fpu :: bool
  flag_score :: bool
  flag_score_expr :: bool
  flag_kernel :: bool
  flag_game :: bool
  flag_testcase :: bool
  builtin_func :: "builtin option"
  stu_id :: string

definition options0 :: options where
  "options0 = \<lparr>image_path = [], elf_path = [], image_path_score = [], elf_path_score = [], flag_autorun = False,
     flag_reg_alu_fpu = False, flag_score = False, flag_score_expr = False, flag_kernel = False, flag_game = False,
     flag_testcase = False, builtin_func = None, stu_id = ''031221097''\<rparr>"

text \<open>A string that is copied into an array of \<open>n\<close> characters; a longer one runs over its end.\<close>

definition fits_array :: "nat \<Rightarrow> string \<Rightarrow> string option" where
  "fits_array n s = (if length s < n then Some s else None)"

type_synonym arg_handler = "string \<Rightarrow> options \<Rightarrow> (bool \<times> options) option"

definition main_arg_expr_score :: arg_handler where
  "main_arg_expr_score a fl = Some (True, fl\<lparr>flag_score_expr := True\<rparr>)"

definition main_arg_testcase :: arg_handler where
  "main_arg_testcase testcase fl =
     (if testcase = ''no_argument'' then Some (False, fl)
      else do {
        fl \<leftarrow> (if \<not> flag_kernel fl then do {
               p \<leftarrow> fits_array 500 (''./testcase/bin/'' @ testcase @ ''.img'');
               Some (fl\<lparr>image_path := p\<rparr>)
             } else Some fl);
        p \<leftarrow> fits_array 500 (''./testcase/bin/'' @ testcase);
        let fl = fl\<lparr>elf_path := p\<rparr>;
        fl \<leftarrow> (if \<not> flag_kernel fl then do {
               p \<leftarrow> fits_array 500 (''./scripts/score_testcases/'' @ testcase @ ''.img'');
               Some (fl\<lparr>image_path_score := p\<rparr>)
             } else Some fl);
        p \<leftarrow> fits_array 500 (''./scripts/score_testcases/'' @ testcase);
        Some (True, fl\<lparr>elf_path_score := p, flag_testcase := True\<rparr>)
      })"

definition main_arg_score :: arg_handler where
  "main_arg_score a fl = Some (True, fl\<lparr>flag_score := True\<rparr>)"

definition main_arg_reg_test :: arg_handler where
  "main_arg_reg_test a fl = Some (True, fl\<lparr>builtin_func := Some Reg_test, flag_reg_alu_fpu := True\<rparr>)"

definition alu_operation_list :: "string list" where
  "alu_operation_list =
    [''add'', ''adc'', ''sub'', ''sbb'', ''and'', ''or'', ''xor'', ''shl'', ''shr'', ''sal'', ''sar'', ''mul'', ''div'',
     ''imul'', ''idiv'']"

definition main_arg_alu_test :: arg_handler where
  "main_arg_alu_test operation fl =
     (if operation \<in> set alu_operation_list
      then Some (True, fl\<lparr>builtin_func := Some (Alu_test operation), flag_reg_alu_fpu := True\<rparr>)
      else Some (False, fl))"

definition fpu_operation_list :: "string list" where
  "fpu_operation_list = [''add'', ''sub'', ''mul'', ''div'']"

definition main_arg_fpu_test :: arg_handler where
  "main_arg_fpu_test operation fl =
     (if operation \<in> set fpu_operation_list
      then Some (True, fl\<lparr>builtin_func := Some (Fpu_test operation), flag_reg_alu_fpu := True\<rparr>)
      else Some (False, fl))"

definition main_arg_game :: arg_handler where
  "main_arg_game input_stu_id fl = do {
     i \<leftarrow> fits_array 20 input_stu_id;
     Some (True, fl\<lparr>elf_path := ''./game/game'', elf_path_score := ''./scripts/score_testcases/game'', stu_id := i,
                   flag_game := True\<rparr>)
   }"

definition main_arg_kernel :: arg_handler where
  "main_arg_kernel a fl =
     Some (True, fl\<lparr>image_path := ''./kernel/kernel.img'', image_path_score := ''./kernel/kernel.img'', flag_kernel := True\<rparr>)"

definition main_arg_autorun :: arg_handler where
  "main_arg_autorun a fl = Some (True, fl\<lparr>flag_autorun := True\<rparr>)"

text \<open>The table: the handler of an argument and how many arguments it takes.\<close>

definition main_args_list :: "(string \<times> arg_handler \<times> nat) list" where
  "main_args_list =
    [(''--testcase'', main_arg_testcase, 1), (''--score'', main_arg_score, 0), (''--test-reg'', main_arg_reg_test, 0),
     (''--test-alu'', main_arg_alu_test, 1), (''--test-fpu'', main_arg_fpu_test, 1), (''--test-game'', main_arg_game, 1),
     (''--kernel'', main_arg_kernel, 0), (''--autorun'', main_arg_autorun, 0), (''--test-expr-score'', main_arg_expr_score, 0)]"

definition num_targets :: "options \<Rightarrow> nat" where
  "num_targets fl = of_bool (flag_reg_alu_fpu fl) + of_bool (flag_testcase fl) + of_bool (flag_game fl) + of_bool (flag_score_expr fl)"

definition check_for_arg_validity :: "options \<Rightarrow> bool" where
  "check_for_arg_validity fl =
     (if num_targets fl = 0 then False
      else if 1 < num_targets fl then False
      else if flag_game fl \<and> \<not> flag_kernel fl then False
      else True)"

text \<open>The loop over \<open>argv[1..]\<close>; a handler is given the next argument also when it takes none.\<close>

function parse_loop :: "string list \<Rightarrow> options \<Rightarrow> (bool \<times> options) option" where
  "parse_loop [] fl = Some (check_for_arg_validity fl, fl)"
| "parse_loop (a # rest) fl =
     (case map_of main_args_list a of
        None \<Rightarrow> Some (False, fl)
      | Some (handler, numArgs) \<Rightarrow> do {
          (ok, fl) \<leftarrow> handler (case rest of [] \<Rightarrow> ''no_argument'' | b # _ \<Rightarrow> b) fl;
          if \<not> ok then Some (False, fl) else parse_loop (drop numArgs rest) fl
        })"
  by pat_completeness auto
termination by (relation "measure (\<lambda>(args, fl). length args)") auto

definition parse_args :: "string list \<Rightarrow> (bool \<times> options) option" where
  "parse_args args = parse_loop args options0"

section \<open>The machine\<close>

definition INIT_EIP :: u32 where "INIT_EIP = 0x30000"
definition LOAD_OFF :: nat where "LOAD_OFF = 0x30000"

type_synonym files = "string \<Rightarrow> bytes option"

text \<open>\<open>load_exec\<close> reads the whole file to a place of the memory; reading nothing fails its assertion.\<close>

definition load_exec :: "files \<Rightarrow> string \<Rightarrow> nat \<Rightarrow> machine \<Rightarrow> machine option" where
  "load_exec fs image_file load_off s = do {
     file \<leftarrow> fs image_file;
     if file = [] \<or> unat MEM_SIZE_B < load_off + length file then None
     else Some (s\<lparr>hw_mem := fold (\<lambda>i m. m(of_nat (load_off + i) := file ! i)) [0..<length file] (hw_mem s)\<rparr>)
   }"

text \<open>The devices' part of \<open>init_sdl\<close>, with the three readings of the clock, and of \<open>close_sdl\<close>.\<close>

definition init_sdl :: "u64 \<times> u64 \<times> u64 \<Rightarrow> machine \<Rightarrow> machine option" where
  "init_sdl clock s = (case clock of (t1, t2, t3) \<Rightarrow> do {
     s \<leftarrow> timer_start t1 100 s;
     let s = keyboard_start t2 s;
     vga_init t3 s
   })"

definition close_sdl :: "machine \<Rightarrow> machine" where
  "close_sdl s = vga_close (keyboard_stop (timer_stop s))"

definition restart :: "u64 \<times> u64 \<times> u64 \<Rightarrow> u32 \<Rightarrow> machine \<Rightarrow> machine option" where
  "restart clock init_eip s = do {
     let s = init_cpu init_eip s;
     let s = init_mem s;
     let s = init_bp_list s;
     s \<leftarrow> init_sdl clock s;
     init_serial s
   }"

text \<open>A session of the monitor on an image and an ELF file, which is also the disk.\<close>

record host =
  host_files :: files
  host_clock :: "u64 \<times> u64 \<times> u64"
  host_env :: "nat \<Rightarrow> host_input"
  host_lines :: "ui_line list"
  host_depth :: nat

definition boot :: "host \<Rightarrow> string \<Rightarrow> string \<Rightarrow> machine \<Rightarrow> (elf_tables \<times> machine) option" where
  "boot h img_file_path elf_file_path s = do {
     s \<leftarrow> restart (host_clock h) INIT_EIP s;
     s \<leftarrow> load_exec (host_files h) img_file_path LOAD_OFF s;
     disk \<leftarrow> host_files h elf_file_path;
     s \<leftarrow> init_ide disk s;
     t \<leftarrow> load_elf_tables disk no_tables;
     Some (t, s\<lparr>nemu_st := NEMU_READY\<rparr>)
   }"

definition single_run :: "host \<Rightarrow> bool \<Rightarrow> string \<Rightarrow> string \<Rightarrow> machine \<Rightarrow> ui option" where
  "single_run h autorun img_file_path elf_file_path s = do {
     (t, s) \<leftarrow> boot h img_file_path elf_file_path s;
     ui_mainloop (host_depth h) t autorun (host_lines h)
       \<lparr>ui_machine = s, ui_buf = [], ui_tok = 0, ui_env = host_env h, ui_stdin = [], ui_out = []\<rparr>
   }"

text \<open>What \<open>main\<close> does: it reports bad arguments, hands over to the library's scoring or a built-in test, or runs the machine.\<close>

datatype main_result = Bad_arguments | Score_expr | Run_builtin builtin bool | Session ui

definition main :: "host \<Rightarrow> string list \<Rightarrow> main_result option" where
  "main h argv = do {
     (ok, fl) \<leftarrow> parse_args argv;
     if \<not> ok then Some Bad_arguments
     else if flag_score_expr fl then Some Score_expr
     else if flag_reg_alu_fpu fl then map_option (\<lambda>b. Run_builtin b (flag_score fl)) (builtin_func fl)
     else do {
       u \<leftarrow> (if flag_score fl then single_run h (flag_autorun fl) (image_path_score fl) (elf_path_score fl) machine0
             else single_run h (flag_autorun fl) (image_path fl) (elf_path fl) machine0);
       Some (Session (u\<lparr>ui_machine := close_sdl (ui_machine u)\<rparr>))
     }
   }"

end
