(* ===== verification/Monitor_Correct.thy ===== *)
theory Monitor_Correct
  imports Startup
begin

text \<open>
  The monitor: how a command line is taken apart, what the look-up finds in the symbol tables of a linked
  program, and which combinations of arguments reach a run.
\<close>

section \<open>Command lines\<close>

lemma takeWhile_all: "\<forall>c\<in>set xs. P c \<Longrightarrow> takeWhile P (xs @ y # ys) = (if P y then xs @ y # takeWhile P ys else xs)"
  by (induction xs) auto

lemma c_str_append: "NUL \<notin> set s \<Longrightarrow> c_str (pre @ s @ NUL # post) (length pre) = s" "NUL \<notin> set s \<Longrightarrow> c_str (pre @ s) (length pre) = s"
  by (induction s) (auto simp: c_str_def)

lemma strspn_blank_append:
  "c \<noteq> CHR '' '' \<Longrightarrow> strspn_blank (pre @ replicate n (CHR '' '') @ c # post) (length pre) = n"
  by (simp add: strspn_blank_def takeWhile_all)

definition word_chars :: "string \<Rightarrow> bool" where
  "word_chars w \<longleftrightarrow> w \<noteq> [] \<and> NUL \<notin> set w \<and> CHR '' '' \<notin> set w"

lemma strtok_word:
  assumes "word_chars w"
  shows "strtok (w @ CHR '' '' # rest) 0 = Some (0, w @ NUL # rest, Suc (length w))"
proof -
  obtain c cs where w: "w = c # cs" "c \<noteq> CHR '' ''" using assms by (cases w) (auto simp: word_chars_def)
  have s: "strspn_blank (w @ CHR '' '' # rest) 0 = 0" by (simp add: strspn_blank_def w)
  have n: "\<forall>c\<in>set w. c \<noteq> NUL" "\<forall>c\<in>set w. c \<noteq> CHR '' ''" using assms by (auto simp: word_chars_def)
  have "c_str (w @ CHR '' '' # rest) 0 = w @ CHR '' '' # takeWhile (\<lambda>c. c \<noteq> NUL) rest"
    using takeWhile_all [OF n(1)] by (simp add: c_str_def NUL_def)
  moreover have "takeWhile (\<lambda>c. c \<noteq> CHR '' '') (w @ CHR '' '' # takeWhile (\<lambda>c. c \<noteq> NUL) rest) = w"
    using takeWhile_all [OF n(2)] by simp
  ultimately show ?thesis by (simp add: strtok_def Let_def s list_update_append)
qed

text \<open>C32: On a command line without leading blanks, the command is the first word. When the table has it, its handler gets the position behind the blanks that follow, where exactly the rest of the line is read, for any number of blanks; otherwise the word is reported as unknown and nothing else is done. The loop goes on unless the handler or a stopped machine ends it.\<close>

theorem ui_command_dispatch:
  fixes n :: nat
  assumes cmd: "word_chars cmd"
    and args: "args \<noteq> []" "hd args \<noteq> CHR '' ''" "NUL \<notin> set args"
  defines "buf \<equiv> cmd @ NUL # replicate n (CHR '' '') @ args"
  shows "c_str buf (length cmd + 1 + n) = args \<and>
    ui_command d t (cmd @ CHR '' '' # replicate n (CHR '' '') @ args) u =
      (case map_of (cmd_table d t) cmd of
         Some f \<Rightarrow> do { (more, u) \<leftarrow> f (Some (length cmd + 1 + n)) (u\<lparr>ui_buf := buf, ui_tok := length cmd + 1\<rparr>);
                      Some (more \<and> nemu_st (ui_machine u) \<noteq> NEMU_STOP, u) }
       | None \<Rightarrow> Some (nemu_st (ui_machine u) \<noteq> NEMU_STOP,
                      u\<lparr>ui_buf := buf, ui_tok := length cmd + 1, ui_out := ui_out u @ [Unknown_user_command cmd]\<rparr>))"
proof
  obtain c cs where a: "args = c # cs" "c \<noteq> CHR '' ''" using args by (cases args) auto
  show "c_str buf (length cmd + 1 + n) = args"
    using c_str_append(2) [OF args(3), of "cmd @ NUL # replicate n (CHR '' '')"] by (simp add: buf_def)
  have tok: "strtok (cmd @ CHR '' '' # replicate n (CHR '' '') @ args) 0 = Some (0, buf, Suc (length cmd))"
    unfolding buf_def by (rule strtok_word [OF cmd(1)])
  have word: "c_str buf 0 = cmd"
    using c_str_append(1) [of cmd "[]"] cmd(1) by (simp add: buf_def word_chars_def)
  have "strspn_blank buf (Suc (length cmd)) = n"
    using strspn_blank_append [OF a(2), of "cmd @ [NUL]" n cs] by (simp add: buf_def a(1))
  then have "args_of buf (length (cmd @ CHR '' '' # replicate n (CHR '' '') @ args)) cmd = Some (length cmd + 1 + n)"
    by (simp add: args_of_def a(1))
  then show "ui_command d t (cmd @ CHR '' '' # replicate n (CHR '' '') @ args) u =
      (case map_of (cmd_table d t) cmd of
         Some f \<Rightarrow> do { (more, u) \<leftarrow> f (Some (length cmd + 1 + n)) (u\<lparr>ui_buf := buf, ui_tok := length cmd + 1\<rparr>);
                      Some (more \<and> nemu_st (ui_machine u) \<noteq> NEMU_STOP, u) }
       | None \<Rightarrow> Some (nemu_st (ui_machine u) \<noteq> NEMU_STOP,
                      u\<lparr>ui_buf := buf, ui_tok := length cmd + 1, ui_out := ui_out u @ [Unknown_user_command cmd]\<rparr>))"
    unfolding ui_command_def tok by (simp add: word Let_def go_on_def say_def split: option.splits)
qed

definition ui0 :: ui where
  "ui0 = \<lparr>ui_machine = machine0, ui_buf = [], ui_tok = 0, ui_env = (\<lambda>_. (0, 0, 0, [])), ui_stdin = [], ui_out = []\<rparr>"

lemma ui_command_dispatch_witness:
  "ui_command 0 no_tables ''p   0x10'' ui0 =
     cmd_p (Some 4) (ui0\<lparr>ui_buf := ''p'' @ NUL # ''  0x10'', ui_tok := 2\<rparr>)
       \<bind> (\<lambda>(more, u). Some (more \<and> nemu_st (ui_machine u) \<noteq> NEMU_STOP, u)) \<and>
   ui_command 0 no_tables ''x 1'' ui0 =
     Some (False, ui0\<lparr>ui_buf := ''x'' @ NUL # ''1'', ui_tok := 2, ui_out := [Unknown_user_command ''x'']\<rparr>)"
  using ui_command_dispatch [where cmd = "''p''" and args = "''0x10''" and n = 2 and d = 0 and t = no_tables and u = ui0]
    ui_command_dispatch [where cmd = "''x''" and args = "''1''" and n = 0 and d = 0 and t = no_tables and u = ui0]
  by (simp add: word_chars_def NUL_def cmd_table_def eval_nat_numeral ui0_def)

text \<open>With a blank in front of the command its arguments are looked for at the wrong place: \<open>p\<close> prints zero for every expression.\<close>

theorem leading_blank_loses_arguments:
  "ui_command d t ('' p '' @ e) u =
     Some (nemu_st (ui_machine u) \<noteq> NEMU_STOP, say (Value 0) (u\<lparr>ui_buf := '' p'' @ NUL # e, ui_tok := 3\<rparr>))"
proof -
  have tok: "strtok ('' p '' @ e) 0 = Some (1, '' p'' @ NUL # e, 3)"
    by (simp add: strtok_def strspn_blank_def c_str_def Let_def NUL_def)
  have s: "c_str ('' p'' @ NUL # e) 1 = ''p''" "c_str ('' p'' @ NUL # e) 2 = []"
    by (simp_all add: c_str_def NUL_def)
  have a: "args_of ('' p'' @ NUL # e) (length ('' p '' @ e)) ''p'' = Some 2"
    by (simp add: args_of_def strspn_blank_def NUL_def)
  have "expr [] = Some 0" by (simp add: expr_def strtol_hex_def skip_0x_def)
  then show ?thesis
    unfolding ui_command_def tok by (simp add: s [simplified] a [simplified] cmd_table_def cmd_p_def go_on_def say_def)
qed

section \<open>Symbol tables\<close>

text \<open>The tables of a linked program: a symbol has a name, a value, a size and its \<open>st_info\<close>.\<close>

type_synonym symbol = "string \<times> nat \<times> nat \<times> nat"

definition word_bytes :: "nat \<Rightarrow> bytes" where
  "word_bytes n = [of_nat n, of_nat (n div 256), of_nat (n div 65536), of_nat (n div 16777216)]"

definition name_bytes :: "string \<Rightarrow> bytes" where
  "name_bytes nm = map (\<lambda>c. of_nat (of_char c)) nm @ [0]"

definition name_offset :: "string list \<Rightarrow> nat \<Rightarrow> nat" where
  "name_offset names i = 1 + length (concat (map name_bytes (take i names)))"

definition strtab_of :: "string list \<Rightarrow> bytes" where
  "strtab_of names = 0 # concat (map name_bytes names)"

definition symbol_bytes :: "nat \<Rightarrow> symbol \<Rightarrow> bytes" where
  "symbol_bytes off sy = (case sy of (nm, val, sz, info) \<Rightarrow>
     word_bytes off @ word_bytes val @ word_bytes sz @ [of_nat info, 0, 0, 0])"

definition tables_of :: "symbol list \<Rightarrow> elf_tables" where
  "tables_of syms =
     \<lparr>strtab = Some (strtab_of (map fst syms)),
      symtab = Some (concat (map (\<lambda>i. symbol_bytes (name_offset (map fst syms) i) (syms ! i)) [0..<length syms])),
      nr_symtab_entry = length syms\<rparr>"

text \<open>The numbers fit their fields and the names are C strings.\<close>

definition symbols_ok :: "symbol list \<Rightarrow> bool" where
  "symbols_ok syms \<longleftrightarrow> length (strtab_of (map fst syms)) < 2 ^ 32 \<and>
     (\<forall>(nm, val, sz, info) \<in> set syms. NUL \<notin> set nm \<and> val < 2 ^ 32 \<and> sz < 2 ^ 32 \<and> info < 256)"

lemma unat_of_nat_byte: "unat (of_nat n :: u8) = n mod 256"
  by (simp add: unat_of_nat take_bit_eq_mod)

lemma word_at_bytes: "n < 2 ^ 32 \<Longrightarrow> word_at (pre @ word_bytes n @ post) (length pre) = Some n"
proof -
  assume n: "n < 2 ^ 32"
  have nth: "(pre @ word_bytes n @ post) ! (length pre + k) = word_bytes n ! k" if "k < 4" for k
  proof -
    have "length (word_bytes n) = 4" by (simp add: word_bytes_def)
    then show ?thesis using that by (simp add: nth_append)
  qed
  define q1 where "q1 = n div 256"
  define q2 where "q2 = q1 div 256"
  define q3 where "q3 = q2 div 256"
  have q: "n div 65536 = q2" "n div 16777216 = q3"
    using div_mult2_eq [of n 256 256] div_mult2_eq [of n 65536 256] by (simp_all add: q1_def q2_def q3_def)
  have "n div 16777216 < 256" using n by (simp add: less_mult_imp_div_less)
  then have q3: "q3 mod 256 = q3" unfolding q by (rule mod_less)
  define r0 where "r0 = n mod 256"
  define r1 where "r1 = q1 mod 256"
  define r2 where "r2 = q2 mod 256"
  have "n = 256 * q1 + r0" "q1 = 256 * q2 + r1" "q2 = 256 * q3 + r2"
    unfolding q1_def q2_def q3_def r0_def r1_def r2_def by (simp_all only: mult_div_mod_eq)
  then have "r0 + 256 * r1 + 65536 * (r2 + 256 * q3) = n" by simp
  then have "n mod 256 + 256 * (q1 mod 256) + 65536 * (q2 mod 256 + 256 * (q3 mod 256)) = n"
    unfolding q3 r0_def r1_def r2_def .
  then have "n mod 256 + 256 * (n div 256 mod 256) + 65536 * (n div 65536 mod 256 + 256 * (n div 16777216 mod 256)) = n"
    unfolding q by (simp only: q1_def)
  then show ?thesis
    using q3 [folded q(2)] nth [of 0] nth [of 1] nth [of 2] nth [of 3, unfolded numeral_3_eq_3]
    by (simp add: word_at_def half_at_def byte_at_def word_bytes_def unat_of_nat_byte add.assoc)
qed

text \<open>Entries of equal length are found by multiplication.\<close>

lemma block_at:
  assumes "\<forall>x\<in>set xs. length (f x) = m" "i < length xs"
  shows "\<exists>pre post. concat (map f xs) = pre @ f (xs ! i) @ post \<and> length pre = m * i"
proof -
  have "xs = take i xs @ xs ! i # drop (Suc i) xs" using assms(2) by (rule id_take_nth_drop)
  then have "concat (map f xs) = concat (map f (take i xs)) @ f (xs ! i) @ concat (map f (drop (Suc i) xs))"
    by (metis append_Cons concat.simps(2) concat_append list.simps(9) map_append)
  moreover have "length (concat (map f (take i xs))) = m * i"
  proof -
    have "map (length \<circ> f) (take i xs) = replicate i m"
      using assms by (intro replicate_eqI) (auto dest: in_set_takeD)
    then show ?thesis by (simp add: length_concat comp_def sum_list_replicate mult.commute)
  qed
  ultimately show ?thesis by blast
qed

lemma symbol_fields:
  assumes ok: "symbols_ok syms" and i: "i < length syms" "syms ! i = (nm, val, sz, info)"
  defines "t \<equiv> tables_of syms" and "off \<equiv> name_offset (map fst syms) i"
  shows "st_name t i = Some off" "st_value t i = Some val" "st_size t i = Some sz" "st_type t i = Some (info mod 16)"
proof -
  let ?f = "\<lambda>i. symbol_bytes (name_offset (map fst syms) i) (syms ! i)"
  have "\<forall>x\<in>set [0..<length syms]. length (?f x) = 16" by (auto simp: symbol_bytes_def word_bytes_def split: prod.splits)
  from block_at [OF this, of i] i(1) obtain pre post where
    xs: "concat (map ?f [0..<length syms]) = pre @ ?f i @ post" and l: "length pre = 16 * i" by auto
  have e: "?f i = word_bytes off @ word_bytes val @ word_bytes sz @ [of_nat info, 0, 0, 0]"
    by (simp add: symbol_bytes_def i(2) off_def)
  have w: "length (word_bytes k) = 4" for k by (simp add: word_bytes_def)
  have b: "val < 2 ^ 32" "sz < 2 ^ 32" "info < 256" using ok nth_mem [OF i(1)] by (auto simp: symbols_ok_def i(2))
  have "take i (map fst syms) @ drop i (map fst syms) = map fst syms" by (rule append_take_drop_id)
  then have "length (concat (map name_bytes (take i (map fst syms)))) \<le> length (concat (map name_bytes (map fst syms)))"
    by (metis concat_append length_append map_append le_add1)
  then have "off < 2 ^ 32" using ok by (simp add: off_def name_offset_def symbols_ok_def strtab_of_def)
  then show "st_name t i = Some off"
    using word_at_bytes [of off pre] by (simp add: st_name_def t_def tables_of_def xs e l)
  show "st_value t i = Some val"
    using word_at_bytes [OF b(1), of "pre @ word_bytes off"] by (simp add: st_value_def t_def tables_of_def xs e l w)
  show "st_size t i = Some sz"
    using word_at_bytes [OF b(2), of "pre @ word_bytes off @ word_bytes val"] by (simp add: st_size_def t_def tables_of_def xs e l w)
  show "st_type t i = Some (info mod 16)"
    using b(3) by (simp add: st_type_def t_def tables_of_def xs e l w byte_at_def nth_append unat_of_nat_byte)
qed

lemma of_char_nonzero: "c \<noteq> NUL \<Longrightarrow> of_char c \<noteq> (0 :: nat)"
  using of_char_eq_iff [of c NUL, where ?'a = nat] by (simp add: NUL_def)

lemma strcmp_name:
  "NUL \<notin> set nm \<Longrightarrow> NUL \<notin> set nm' \<Longrightarrow> strcmp_eq (name_bytes nm @ rest) nm' = Some (nm = nm')"
proof (induction nm arbitrary: nm')
  case Nil
  then show ?case
  proof (cases nm')
    case (Cons c cs)
    then have "of_char c \<noteq> (0 :: nat)" using Nil(2) by (intro of_char_nonzero) auto
    then show ?thesis by (simp add: name_bytes_def Cons)
  qed (simp add: name_bytes_def)
next
  case (Cons c nm)
  have b: "unat (of_nat (of_char c) :: u8) = of_char c" by (simp add: unat_of_nat_byte)
  have "of_char c \<noteq> (0 :: nat)" using Cons(2) by (intro of_char_nonzero) auto
  then have z: "(of_nat (of_char c) :: u8) \<noteq> 0" using b by (metis unsigned_0)
  show ?case
  proof (cases nm')
    case Nil
    then show ?thesis using z by (simp add: name_bytes_def)
  next
    case nm': (Cons c' nm'')
    then show ?thesis using Cons.IH [of nm''] Cons.prems b by (auto simp: name_bytes_def)
  qed
qed

lemma name_at:
  assumes "symbols_ok syms" "i < length syms" "NUL \<notin> set nm'"
  shows "st_name_is (tables_of syms) i nm' = Some (fst (syms ! i) = nm')"
proof -
  obtain nm val sz info where sy: "syms ! i = (nm, val, sz, info)" by (metis prod_cases4)
  let ?ns = "map fst syms"
  have "?ns = take i ?ns @ nm # drop (Suc i) ?ns"
    using id_take_nth_drop [of i ?ns] assms(2) by (simp add: sy)
  then have "concat (map name_bytes ?ns) = concat (map name_bytes (take i ?ns)) @ name_bytes nm @ concat (map name_bytes (drop (Suc i) ?ns))"
    by (metis concat.simps(2) concat_append list.simps(9) map_append)
  then have "drop (name_offset ?ns i) (strtab_of ?ns) = name_bytes nm @ concat (map name_bytes (drop (Suc i) ?ns))"
    by (simp add: name_offset_def strtab_of_def)
  moreover have "NUL \<notin> set nm" using assms(1) nth_mem [OF assms(2)] by (auto simp: symbols_ok_def sy)
  ultimately show ?thesis
    using symbol_fields(1) [OF assms(1,2) sy] strcmp_name [OF _ assms(3)]
    by (simp add: st_name_is_def tables_of_def sy)
qed

text \<open>A look-up finds the first symbol of the right type and name.\<close>

definition matching :: "nat set \<Rightarrow> string \<Rightarrow> symbol \<Rightarrow> bool" where
  "matching types nm sy \<longleftrightarrow> (case sy of (nm', val, sz, info) \<Rightarrow> info mod 16 \<in> types \<and> nm' = nm)"

lemma look_up_from_find:
  assumes "symbols_ok syms" "NUL \<notin> set nm" "k \<le> length syms"
  shows "look_up_from (tables_of syms) types nm [k..<length syms] =
    Some (map_option (\<lambda>sy. of_nat (fst (snd sy))) (find (matching types nm) (drop k syms)))"
  using assms(3)
proof (induction "length syms - k" arbitrary: k)
  case (Suc m)
  then have k: "k < length syms" by simp
  obtain nm' val sz info where sy: "syms ! k = (nm', val, sz, info)" by (metis prod_cases4)
  have IH: "look_up_from (tables_of syms) types nm [Suc k..<length syms] =
    Some (map_option (\<lambda>sy. of_nat (fst (snd sy))) (find (matching types nm) (drop (Suc k) syms)))"
    using Suc by (intro Suc(1)) auto
  have u: "[k..<length syms] = k # [Suc k..<length syms]" "drop k syms = syms ! k # drop (Suc k) syms"
    using k by (simp_all add: upt_conv_Cons Cons_nth_drop_Suc)
  show ?case
    unfolding u look_up_from.simps
    using symbol_fields [OF assms(1) k sy] name_at [OF assms(1) k assms(2)] IH
    by (simp add: sy matching_def)
qed simp

text \<open>C31: In the tables of a program, however many symbols and whatever their order, \<open>look_up_fun_symtab\<close> returns the value of the first function of the name, and nothing for a name that only other symbols or none have.\<close>

theorem look_up_fun_roundtrip:
  assumes "symbols_ok syms" "NUL \<notin> set nm"
  shows "look_up_fun_symtab (tables_of syms) nm =
    Some (map_option (\<lambda>sy. of_nat (fst (snd sy))) (find (\<lambda>(nm', val, sz, info). info mod 16 = 2 \<and> nm' = nm) syms))"
proof -
  have "matching {STT_FUNC} nm = (\<lambda>(nm', val, sz, info). info mod 16 = 2 \<and> nm' = nm)"
    by (auto simp: matching_def STT_FUNC_def fun_eq_iff)
  then show ?thesis
    using look_up_from_find [OF assms, of 0 "{STT_FUNC}"] by (simp add: look_up_fun_symtab_def tables_of_def)
qed

lemma look_up_fun_roundtrip_witness:
  "look_up_fun_symtab (tables_of [(''main'', 0x40, 4, 1), (''foo'', 0x30000, 16, 0x12), (''main'', 0x30010, 8, 0x12)]) ''main'' = Some (Some 0x30010)"
  by (subst look_up_fun_roundtrip) (simp_all add: symbols_ok_def strtab_of_def name_bytes_def NUL_def)

section \<open>Arguments\<close>

definition testcase_paths :: "string \<Rightarrow> options \<Rightarrow> bool" where
  "testcase_paths t fl \<longleftrightarrow> elf_path fl = ''./testcase/bin/'' @ t \<and> elf_path_score fl = ''./scripts/score_testcases/'' @ t \<and>
     (\<not> flag_kernel fl \<longrightarrow> image_path fl = ''./testcase/bin/'' @ t @ ''.img'' \<and>
        image_path_score fl = ''./scripts/score_testcases/'' @ t @ ''.img'')"

text \<open>Well-formed options: the paths are those of the flags, and a built-in test has its function.\<close>

definition options_ok :: "options \<Rightarrow> bool" where
  "options_ok fl \<longleftrightarrow>
     (flag_kernel fl \<longrightarrow> image_path fl = ''./kernel/kernel.img'' \<and> image_path_score fl = ''./kernel/kernel.img'') \<and>
     (flag_testcase fl \<and> \<not> flag_game fl \<longrightarrow> (\<exists>t. testcase_paths t fl)) \<and>
     (flag_game fl \<and> \<not> flag_testcase fl \<longrightarrow> elf_path fl = ''./game/game'' \<and> elf_path_score fl = ''./scripts/score_testcases/game'') \<and>
     (flag_reg_alu_fpu fl \<longrightarrow> builtin_func fl \<noteq> None)"

definition preserves :: "arg_handler \<Rightarrow> bool" where
  "preserves h \<longleftrightarrow> (\<forall>a fl fl'. options_ok fl \<longrightarrow> h a fl = Some (True, fl') \<longrightarrow> options_ok fl')"

lemma testcase_preserves: "preserves main_arg_testcase"
  unfolding preserves_def
proof (intro allI impI)
  fix a fl fl'
  assume ok: "options_ok fl" and h: "main_arg_testcase a fl = Some (True, fl')"
  have "testcase_paths a fl'" "flag_kernel fl' = flag_kernel fl" "flag_game fl' = flag_game fl" "flag_testcase fl'"
    "flag_reg_alu_fpu fl' = flag_reg_alu_fpu fl" "builtin_func fl' = builtin_func fl"
    "flag_kernel fl \<longrightarrow> image_path fl' = image_path fl \<and> image_path_score fl' = image_path_score fl"
    using h by (auto simp: main_arg_testcase_def fits_array_def testcase_paths_def Let_def bind_eq_Some_conv split: if_splits)
  then show "options_ok fl'" using ok unfolding options_ok_def by metis
qed

lemma handlers_preserve: "map_of main_args_list nm = Some (h, k) \<Longrightarrow> preserves h"
proof -
  have "preserves main_arg_score" "preserves main_arg_reg_test" "preserves main_arg_alu_test" "preserves main_arg_fpu_test"
    "preserves main_arg_autorun" "preserves main_arg_expr_score" "preserves main_arg_game" "preserves main_arg_kernel"
    by (auto simp: preserves_def options_ok_def testcase_paths_def main_arg_score_def main_arg_reg_test_def main_arg_alu_test_def
      main_arg_fpu_test_def main_arg_autorun_def main_arg_expr_score_def main_arg_game_def main_arg_kernel_def
      bind_eq_Some_conv split: if_splits)
  moreover assume "map_of main_args_list nm = Some (h, k)"
  ultimately show ?thesis using testcase_preserves by (auto simp: main_args_list_def split: if_splits)
qed

lemma parse_loop_ok:
  "parse_loop args fl = Some (True, fl') \<Longrightarrow> options_ok fl \<Longrightarrow> options_ok fl' \<and> check_for_arg_validity fl'"
proof (induction args fl rule: parse_loop.induct)
  case (2 a rest fl)
  then obtain h k fl1 where h: "map_of main_args_list a = Some (h, k)"
    "h (case rest of [] \<Rightarrow> ''no_argument'' | b # _ \<Rightarrow> b) fl = Some (True, fl1)" "parse_loop (drop k rest) fl1 = Some (True, fl')"
    by (auto simp: bind_eq_Some_conv split: option.splits if_splits prod.splits)
  then have "options_ok fl1" using handlers_preserve [OF h(1)] 2(3) unfolding preserves_def by blast
  then show ?case using 2(1) [OF h(1) refl, of "(True, fl1)" True fl1] h by simp
qed auto

text \<open>C30: The parser accepts only well-typed options: exactly one target, a game only on the kernel, an image and an ELF file that belong together whatever the order of the arguments, and a function for a built-in test.\<close>

theorem parse_args_well_formed:
  assumes "parse_args args = Some (True, fl)"
  shows "num_targets fl = 1 \<and> options_ok fl \<and> (flag_game fl \<longrightarrow> flag_kernel fl)"
proof -
  have "options_ok options0" by (simp add: options_ok_def options0_def)
  then have "options_ok fl" "check_for_arg_validity fl" using parse_loop_ok assms by (auto simp: parse_args_def)
  then show ?thesis by (auto simp: check_for_arg_validity_def split: if_splits)
qed

lemma parse_args_well_formed_witness:
  "\<exists>fl. parse_args [''--testcase'', ''add'', ''--kernel'', ''--autorun''] = Some (True, fl) \<and> num_targets fl = 1 \<and> options_ok fl \<and>
     image_path fl = ''./kernel/kernel.img''"
proof -
  obtain fl where fl: "parse_args [''--testcase'', ''add'', ''--kernel'', ''--autorun''] = Some (True, fl)" "flag_kernel fl"
    by (simp add: parse_args_def main_args_list_def main_arg_testcase_def main_arg_kernel_def main_arg_autorun_def fits_array_def
        check_for_arg_validity_def num_targets_def options0_def)
  then show ?thesis using parse_args_well_formed [OF fl(1)] by (auto simp: options_ok_def)
qed

end
