(* ===== verification/Tlb.thy ===== *)
theory Tlb
  imports Memory_Correct
begin

text \<open>
  The optional translation look-aside buffer of \<open>nemu/src/memory/mmu/tlb.c\<close> (compiled with \<open>TLB_ENABLED\<close>): 64
  keys and page table entries, searched by \<open>repne scasl\<close>. As the cache, it is a value of its own beside the machine.
  What \<open>rand\<close> returns, the contents of the blocks that \<open>malloc\<close> returns and the word behind the keys, which the search
  reaches, are arguments.
\<close>

unbundle bit_operations_syntax

definition PAGE_MASK :: u32 where "PAGE_MASK = 4096 - 1"

definition pa_pt_idx :: "u32 \<Rightarrow> u32" where "pa_pt_idx a = bf_get 12 10 a"
definition pa_pdir_idx :: "u32 \<Rightarrow> u32" where "pa_pdir_idx a = bf_get 22 10 a"

definition page_walk :: "machine \<Rightarrow> u32 \<Rightarrow> u32 option" where
  "page_walk s laddr = do {
     let pdir_base = cr3 s AND NOT PAGE_MASK;
     pde \<leftarrow> paddr_read s (pdir_base + pa_pdir_idx laddr * 4) 4;
     if \<not> pt_present pde then None else do {
     let pt_base = pde AND NOT PAGE_MASK;
     pte \<leftarrow> paddr_read s (pt_base + pa_pt_idx laddr * 4) 4;
     if \<not> pt_present pte then None else Some pte
     }
   }"

record TLB =
  tlb_size :: nat
  tlb_size_width :: nat
  tlb_key :: "u32 list"
  tlb_pte :: "u32 list"

definition mask_with_len :: "nat \<Rightarrow> u32" where "mask_with_len x = push_bit x 1 - 1"

text \<open>The value that both the search and the fill compute from an address.\<close>

definition tlb_key_of :: "u32 \<Rightarrow> u32" where
  "tlb_key_of lnaddr = (lnaddr AND NOT PAGE_MASK) OR 0x1"

text \<open>What \<open>repne scasl\<close> leaves in \<open>ecx\<close>: it counts every word that it compares, the equal one too.\<close>

fun repne_scasl :: "u32 \<Rightarrow> u32 list \<Rightarrow> nat \<Rightarrow> nat" where
  "repne_scasl key (x # xs) (Suc n) = (if x = key then n else repne_scasl key xs n)"
| "repne_scasl key _ n = n"

text \<open>The result of \<open>rand\<close> and the word behind the keys.\<close>

type_synonym tlb_host = "u32 \<times> u32"

definition tlb_query :: "tlb_host \<Rightarrow> TLB \<Rightarrow> u32 \<Rightarrow> bool \<times> nat" where
  "tlb_query h t lnaddr =
     (let key = tlb_key_of lnaddr;
          i = repne_scasl key (tlb_key t @ [snd h]) (tlb_size t + 1);
          idx = tlb_size t - i
      in if idx < tlb_size t then (True, idx)
         else (False, unat (fst h AND mask_with_len (tlb_size_width t))))"

definition tlb_fetch :: "tlb_host \<Rightarrow> machine \<Rightarrow> TLB \<Rightarrow> u32 \<Rightarrow> (nat \<times> TLB) option" where
  "tlb_fetch h s t lnaddr =
     (let (b, idx) = tlb_query h t lnaddr in
      if b then Some (idx, t)
      else do {
        let t = t\<lparr>tlb_key := (tlb_key t)[idx := tlb_key_of lnaddr]\<rparr>;
        pte \<leftarrow> page_walk s lnaddr;
        Some (idx, t\<lparr>tlb_pte := (tlb_pte t)[idx := pte]\<rparr>)
      })"

definition tlb_read :: "tlb_host \<Rightarrow> machine \<Rightarrow> TLB \<Rightarrow> u32 \<Rightarrow> (u32 \<times> TLB) option" where
  "tlb_read h s t lnaddr = do {
     (idx, t) \<leftarrow> tlb_fetch h s t lnaddr;
     Some (tlb_pte t ! idx AND NOT PAGE_MASK, t)
   }"

definition init_tlb :: "TLB \<Rightarrow> TLB" where
  "init_tlb t = t\<lparr>tlb_key := fold (\<lambda>i ks. ks[i := 0]) [0..<tlb_size t] (tlb_key t)\<rparr>"

definition make_tlb :: "nat \<Rightarrow> u32 list \<Rightarrow> u32 list \<Rightarrow> TLB" where
  "make_tlb size_width key_block pte_block =
     \<lparr>tlb_size = 2 ^ size_width, tlb_size_width = size_width, tlb_key = key_block, tlb_pte = pte_block\<rparr>"

definition make_all_tlb :: "u32 list \<Rightarrow> u32 list \<Rightarrow> TLB" where
  "make_all_tlb key_block pte_block = make_tlb 6 key_block pte_block"

definition init_all_tlb :: "TLB \<Rightarrow> TLB" where "init_all_tlb t = init_tlb t"

text \<open>\<open>page_translate\<close> of \<open>page.c\<close> under \<open>TLB_ENABLED\<close>.\<close>

definition tlb_page_translate :: "tlb_host \<Rightarrow> machine \<Rightarrow> TLB \<Rightarrow> u32 \<Rightarrow> (u32 \<times> TLB) option" where
  "tlb_page_translate h s t laddr = do {
     (frame, t) \<leftarrow> tlb_read h s t laddr;
     Some (frame OR (laddr AND PAGE_MASK), t)
   }"

end
