(* ===== verification/Tlb_Correct.thy ===== *)
theory Tlb_Correct
  imports Tlb
begin

text \<open>
  What the look-aside buffer promises: while the page tables stay as they are, translations through it are those of
  \<open>page_translate\<close>, whatever victims \<open>rand\<close> picks; after a change of the tables or of \<open>cr3\<close> it is never flushed.
\<close>

section \<open>A memoised partial function\<close>

locale memo =
  fixes base :: "'s \<Rightarrow> 'a \<Rightarrow> 'v option"
    and cached :: "'h \<Rightarrow> 's \<Rightarrow> 'c \<Rightarrow> 'a \<Rightarrow> ('v \<times> 'c) option"
    and ok :: "'s \<Rightarrow> 'c \<Rightarrow> bool"
  assumes cached_fails: "ok s c \<Longrightarrow> base s a = None \<Longrightarrow> cached h s c a = None"
    and cached_gives: "ok s c \<Longrightarrow> base s a = Some v \<Longrightarrow> \<exists>c'. cached h s c a = Some (v, c') \<and> ok s c'"
    and ok_cong: "(\<And>a. base s' a = base s a) \<Longrightarrow> ok s c \<Longrightarrow> ok s' c"
begin

fun run :: "('h \<times> 's \<times> 'a) list \<Rightarrow> 'c \<Rightarrow> ('v list \<times> 'c) option" where
  "run [] c = Some ([], c)"
| "run ((h, s, a) # rest) c = do { (v, c) \<leftarrow> cached h s c a; (vs, c) \<leftarrow> run rest c; Some (v # vs, c) }"

lemma run_transparent:
  "ok s c \<Longrightarrow> \<forall>(h, s', a) \<in> set accesses. \<forall>b. base s' b = base s b \<Longrightarrow>
   map_option fst (run accesses c) = mapM (\<lambda>(h, s', a). base s' a) accesses"
proof (induction accesses arbitrary: c)
  case (Cons acc rest)
  obtain h s' a where acc: "acc = (h, s', a)" by (cases acc)
  from Cons.prems acc have same: "\<And>b. base s' b = base s b" by auto
  from ok_cong [OF same Cons.prems(1)] have ok': "ok s' c" .
  show ?case
  proof (cases "base s' a")
    case None
    then show ?thesis using cached_fails [OF ok'] by (simp add: acc)
  next
    case (Some v)
    from cached_gives [OF ok' Some] obtain c' where c': "cached h s' c a = Some (v, c')" "ok s' c'" by blast
    have "ok s c'" using ok_cong [OF _ c'(2)] same by simp
    then have "map_option fst (run rest c') = mapM (\<lambda>(h, s', a). base s' a) rest" using Cons by simp
    then show ?thesis using Some c'(1) by (cases "run rest c'") (auto simp: acc dest: sym)
  qed
qed simp

end

section \<open>Walking and searching\<close>

lemma page_mask_bit [simp]: "bit PAGE_MASK n \<longleftrightarrow> n < 12"
proof -
  have "PAGE_MASK = mask 12" by (simp add: PAGE_MASK_def mask_eq_exp_minus_1)
  moreover have "bit (mask 12 :: u32) n \<longleftrightarrow> n < 12" by (auto simp: bit_mask_iff)
  ultimately show ?thesis by (simp only:)
qed

lemma frame_and_offset: "(pte AND NOT PAGE_MASK) OR (a AND PAGE_MASK) = push_bit 12 (pt_page_frame pte) + la_offset a"
proof -
  have "push_bit 12 (pt_page_frame pte) + la_offset a = push_bit 12 (pt_page_frame pte) OR la_offset a"
    by (rule disjunctive_add) (auto simp: la_offset_def bit_simps bf_simps)
  also have "\<dots> = (pte AND NOT PAGE_MASK) OR (a AND PAGE_MASK)"
    by (rule bit_word_eqI) (auto simp: pt_page_frame_def la_offset_def bit_simps bf_simps)
  finally show ?thesis by simp
qed

lemma base_of_entry: "e AND NOT PAGE_MASK = push_bit 12 (bf_get 12 20 e)" for e :: u32
  by (rule bit_word_eqI) (auto simp: bit_simps bf_simps)

lemma translate_by_walk:
  "page_translate s a = map_option (\<lambda>pte. (pte AND NOT PAGE_MASK) OR (a AND PAGE_MASK)) (page_walk s a)"
  unfolding page_translate_def page_walk_def Let_def frame_and_offset
  by (auto simp: base_of_entry cr3_pdbr_def pt_page_frame_def pa_pdir_idx_def pa_pt_idx_def
      la_page_directory_index_def la_page_entry_index_def split: bind_splits)

text \<open>The frame of an address or of an entry.\<close>

definition frame_of :: "u32 \<Rightarrow> u32" where "frame_of x = x AND NOT PAGE_MASK"

lemma frame_of_joined [simp]: "frame_of (frame_of x OR (a AND PAGE_MASK)) = frame_of x"
  by (rule bit_word_eqI) (auto simp: frame_of_def bit_simps)

lemma page_translate_frame:
  "page_translate s a = map_option (\<lambda>pte. frame_of pte OR (a AND PAGE_MASK)) (page_walk s a)"
  by (simp add: translate_by_walk frame_of_def)

lemma frame_of_translate: "map_option frame_of (page_translate s a) = map_option frame_of (page_walk s a)"
  by (simp add: page_translate_frame option.map_comp comp_def)

lemma page_walk_key [simp]: "page_walk s (tlb_key_of a) = page_walk s a"
proof -
  have "pa_pt_idx (tlb_key_of a) = pa_pt_idx a" "pa_pdir_idx (tlb_key_of a) = pa_pdir_idx a"
    by (rule bit_word_eqI; auto simp: pa_pt_idx_def pa_pdir_idx_def tlb_key_of_def bit_simps bf_simps)+
  then show ?thesis unfolding page_walk_def by (simp only:)
qed

lemma key_valid [simp]: "bit (tlb_key_of a) 0"
  by (simp add: tlb_key_of_def bit_simps)

lemma repne_scasl_found:
  "key \<in> set xs \<Longrightarrow> \<exists>i < length xs. xs ! i = key \<and> repne_scasl key (xs @ ys) (length xs + n) + i + 1 = length xs + n"
proof (induction xs)
  case (Cons x xs)
  show ?case
  proof (cases "x = key")
    case False
    with Cons obtain i where "i < length xs" "xs ! i = key" "repne_scasl key (xs @ ys) (length xs + n) + i + 1 = length xs + n" by auto
    with False show ?thesis by (intro exI [of _ "Suc i"]) simp
  qed (intro exI [of _ 0], simp)
qed simp

lemma repne_scasl_missing: "key \<notin> set xs \<Longrightarrow> repne_scasl key (xs @ [x]) (length xs + 1) = 0"
  by (induction xs) auto

section \<open>Coherence\<close>

definition tlb_wf :: "TLB \<Rightarrow> bool" where
  "tlb_wf t \<longleftrightarrow> tlb_size t = 2 ^ tlb_size_width t \<and> tlb_size_width t < 32 \<and>
     length (tlb_key t) = tlb_size t \<and> length (tlb_pte t) = tlb_size t"

definition tlb_ok :: "machine \<Rightarrow> TLB \<Rightarrow> bool" where
  "tlb_ok s t \<longleftrightarrow> tlb_wf t \<and>
     (\<forall>i < tlb_size t. bit (tlb_key t ! i) 0 \<longrightarrow>
        map_option frame_of (page_translate s (tlb_key t ! i)) = Some (frame_of (tlb_pte t ! i)))"

definition tlb_holds :: "TLB \<Rightarrow> u32 \<Rightarrow> bool" where "tlb_holds t a \<longleftrightarrow> tlb_key_of a \<in> set (tlb_key t)"

lemma tlb_query_hit:
  assumes "tlb_wf t" "tlb_holds t a"
  shows "\<exists>i < tlb_size t. tlb_key t ! i = tlb_key_of a \<and> tlb_query h t a = (True, i)"
proof -
  have l: "length (tlb_key t) = tlb_size t" using assms(1) by (simp add: tlb_wf_def)
  obtain i where i: "i < tlb_size t" "tlb_key t ! i = tlb_key_of a"
    "repne_scasl (tlb_key_of a) (tlb_key t @ [snd h]) (tlb_size t + 1) + i + 1 = tlb_size t + 1"
    using repne_scasl_found [of "tlb_key_of a" "tlb_key t" "[snd h]" 1] assms(2) l by (auto simp: tlb_holds_def)
  then have "tlb_size t - repne_scasl (tlb_key_of a) (tlb_key t @ [snd h]) (tlb_size t + 1) = i" by linarith
  then have "tlb_query h t a = (True, i)" using i(1) by (simp add: tlb_query_def Let_def)
  with i show ?thesis by blast
qed

lemma tlb_query_miss:
  assumes "tlb_wf t" "\<not> tlb_holds t a"
  shows "\<exists>i < tlb_size t. tlb_query h t a = (False, i)"
proof -
  have w: "length (tlb_key t) = tlb_size t" "tlb_size t = 2 ^ tlb_size_width t" using assms(1) by (simp_all add: tlb_wf_def)
  have "repne_scasl (tlb_key_of a) (tlb_key t @ [snd h]) (tlb_size t + 1) = 0"
    using repne_scasl_missing [of "tlb_key_of a" "tlb_key t" "snd h"] assms(2) w(1) by (simp add: tlb_holds_def)
  then have "tlb_query h t a = (False, unat (fst h AND mask_with_len (tlb_size_width t)))"
    by (simp add: tlb_query_def Let_def)
  moreover have "fst h AND mask_with_len (tlb_size_width t) = take_bit (tlb_size_width t) (fst h)"
    by (simp add: mask_with_len_def take_bit_eq_mask mask_eq_exp_minus_1)
  ultimately show ?thesis using w(2) by (simp add: unsigned_take_bit_eq)
qed

text \<open>One translation, in the three cases.\<close>

lemma translate_hit:
  assumes "tlb_wf t" "tlb_holds t a"
  shows "\<exists>i < tlb_size t. tlb_key t ! i = tlb_key_of a \<and>
    tlb_page_translate h s t a = Some (frame_of (tlb_pte t ! i) OR (a AND PAGE_MASK), t)"
  using tlb_query_hit [OF assms, of h] by (auto simp: tlb_page_translate_def tlb_read_def tlb_fetch_def frame_of_def)

lemma translate_miss:
  assumes "tlb_wf t" "\<not> tlb_holds t a"
  shows "\<exists>i < tlb_size t. tlb_page_translate h s t a = map_option (\<lambda>pte. (frame_of pte OR (a AND PAGE_MASK),
    t\<lparr>tlb_key := (tlb_key t)[i := tlb_key_of a], tlb_pte := (tlb_pte t)[i := pte]\<rparr>)) (page_walk s a)"
proof -
  obtain i where i: "i < tlb_size t" "tlb_query h t a = (False, i)" using tlb_query_miss [OF assms] by blast
  moreover have "length (tlb_pte t) = tlb_size t" using assms(1) by (simp add: tlb_wf_def)
  ultimately show ?thesis
    by (intro exI [of _ i]) (auto simp: tlb_page_translate_def tlb_read_def tlb_fetch_def frame_of_def Let_def split: option.splits bind_splits)
qed

lemma tlb_ok_fill:
  assumes ok: "tlb_ok s t" and pte: "page_walk s a = Some pte"
  shows "tlb_ok s (t\<lparr>tlb_key := (tlb_key t)[i := tlb_key_of a], tlb_pte := (tlb_pte t)[i := pte]\<rparr>)" (is "tlb_ok s ?t")
proof -
  have "map_option frame_of (page_translate s (tlb_key ?t ! j)) = Some (frame_of (tlb_pte ?t ! j))"
    if "j < tlb_size t" "bit (tlb_key ?t ! j) 0" for j
    using ok pte that by (cases "j = i") (auto simp: tlb_ok_def tlb_wf_def frame_of_translate)
  moreover have "tlb_wf ?t" using ok by (simp add: tlb_ok_def tlb_wf_def)
  ultimately show ?thesis by (simp add: tlb_ok_def)
qed

lemma tlb_ok_hit:
  assumes "tlb_ok s t" "i < tlb_size t" "tlb_key t ! i = tlb_key_of a"
  shows "page_translate s a = Some (frame_of (tlb_pte t ! i) OR (a AND PAGE_MASK))"
proof -
  have "map_option frame_of (page_translate s (tlb_key_of a)) = Some (frame_of (tlb_pte t ! i))"
    using assms key_valid [of a] unfolding tlb_ok_def by metis
  then have "map_option frame_of (page_walk s a) = Some (frame_of (tlb_pte t ! i))"
    unfolding frame_of_translate page_walk_key .
  then show ?thesis by (auto simp: page_translate_frame)
qed

lemma translate_ok:
  assumes "tlb_ok s t"
  shows "page_translate s a = None \<Longrightarrow> tlb_page_translate h s t a = None"
    and "page_translate s a = Some v \<Longrightarrow> \<exists>t'. tlb_page_translate h s t a = Some (v, t') \<and> tlb_ok s t' \<and> tlb_holds t' a"
proof -
  have wf: "tlb_wf t" using assms by (simp add: tlb_ok_def)
  have l: "length (tlb_key t) = tlb_size t" using wf by (simp add: tlb_wf_def)
  note cases = translate_hit [OF wf, of a h s] translate_miss [OF wf, of a h s] tlb_ok_hit [OF assms, of _ a]
  show "page_translate s a = None \<Longrightarrow> tlb_page_translate h s t a = None"
    using cases by (cases "tlb_holds t a") (fastforce simp: page_translate_frame)+
  show "\<exists>t'. tlb_page_translate h s t a = Some (v, t') \<and> tlb_ok s t' \<and> tlb_holds t' a" if v: "page_translate s a = Some v"
  proof (cases "tlb_holds t a")
    case True
    with cases v assms show ?thesis by fastforce
  next
    case False
    from v obtain pte where pte: "page_walk s a = Some pte" "v = frame_of pte OR (a AND PAGE_MASK)"
      by (auto simp: page_translate_frame)
    with cases(2) [OF False] l tlb_ok_fill [OF assms pte(1)] show ?thesis
      by (auto simp: tlb_holds_def set_update_memI)
  qed
qed

interpretation tlb: memo page_translate tlb_page_translate tlb_ok
proof unfold_locales
  show "tlb_page_translate h s t a = None" if "tlb_ok s t" "page_translate s a = None" for s t a h
    using translate_ok(1) [OF that] .
  show "\<exists>t'. tlb_page_translate h s t a = Some (v, t') \<and> tlb_ok s t'" if "tlb_ok s t" "page_translate s a = Some v" for s t a h v
    using translate_ok(2) [OF that] by blast
  show "tlb_ok s' t" if "\<And>a. page_translate s' a = page_translate s a" "tlb_ok s t" for s s' t
    using that by (simp add: tlb_ok_def)
qed

lemma fold_zero:
  "n \<le> length ks \<Longrightarrow> fold (\<lambda>i ks. ks[i := 0]) [0..<n] ks = replicate n 0 @ drop n ks"
proof (induction n)
  case (Suc n)
  then have "drop n ks = ks ! n # drop (Suc n) ks" by (simp add: Cons_nth_drop_Suc)
  with Suc show ?case by (simp add: list_update_append replicate_append_same [symmetric])
qed simp

lemma init_all_tlb_ok:
  assumes "length ks = 64" "length ps = 64"
  shows "tlb_ok s (init_all_tlb (make_all_tlb ks ps))"
  using assms by (simp add: tlb_ok_def tlb_wf_def init_all_tlb_def init_tlb_def make_all_tlb_def make_tlb_def fold_zero)

section \<open>The properties\<close>

text \<open>C33: Whatever \<open>malloc\<close> left in the tables, whatever victims \<open>rand\<close> picks and whatever word lies behind the keys: from the initialised buffer on, any sequence of translations, in machines that may differ in anything but what their page tables say, returns exactly the addresses of the two-level walk, or fails where it fails.\<close>

theorem tlb_transparent:
  assumes "length key_block = 64" "length pte_block = 64"
    and "\<forall>(h, s', a) \<in> set accesses. \<forall>b. page_translate s' b = page_translate s b"
  shows "map_option fst (tlb.run accesses (init_all_tlb (make_all_tlb key_block pte_block))) =
    mapM (\<lambda>(h, s', a). page_translate s' a) accesses"
  using tlb.run_transparent [OF init_all_tlb_ok [OF assms(1,2), of s] assms(3)] .

definition fresh_tlb :: TLB where
  "fresh_tlb = init_all_tlb (make_all_tlb (replicate 64 7) (replicate 64 9))"

lemma page_machine_translate:
  "page_translate page_machine 0x1010 = Some 0x5010" "page_translate page_machine 0x1014 = Some 0x5014"
  "page_translate (page_machine\<lparr>cr3 := 0\<rparr>) 0x1010 = None"
  by (simp_all add: page_translate_def Let_def paddr_ram is_mmio_def cr3_pdbr_def bf_get_def mem_word_simps
      la_page_directory_index_def la_page_entry_index_def la_offset_def pt_present_def pt_page_frame_def)

theorem tlb_transparent_witness:
  "map_option fst (tlb.run [((5, 0x1001), page_machine, 0x1010), ((6, 0x1001), page_machine, 0x1014)] fresh_tlb) =
     Some [0x5010, 0x5014]"
  using tlb_transparent [of "replicate 64 7" "replicate 64 9"
      "[((5, 0x1001), page_machine, 0x1010), ((6, 0x1001), page_machine, 0x1014)]" page_machine]
  by (simp add: fresh_tlb_def page_machine_translate)

text \<open>A hit consults neither \<open>cr3\<close> nor the page tables: whatever they are when it comes, the translation is that of the time of the miss.\<close>

theorem tlb_stale:
  assumes "tlb_ok s t" "tlb_page_translate h s t a = Some (v, t')"
  shows "tlb_page_translate h' s' t' a = Some (v, t')"
proof -
  have v: "page_translate s a = Some v" and t': "tlb_ok s t'" "tlb_holds t' a"
    using translate_ok [OF assms(1), where a = a and h = h] assms(2) by (cases "page_translate s a"; auto)+
  then have "tlb_wf t'" by (simp add: tlb_ok_def)
  from translate_hit [OF this t'(2), where h = h' and s = s'] tlb_ok_hit [OF t'(1), of _ a] v show ?thesis by auto
qed

theorem tlb_stale_witness:
  "\<exists>t. tlb_page_translate (5, 0) page_machine fresh_tlb 0x1010 = Some (0x5010, t) \<and>
     tlb_page_translate (6, 0) (page_machine\<lparr>cr3 := 0\<rparr>) t 0x1010 = Some (0x5010, t) \<and>
     page_translate (page_machine\<lparr>cr3 := 0\<rparr>) 0x1010 = None"
proof -
  have ok: "tlb_ok page_machine fresh_tlb" by (simp add: fresh_tlb_def init_all_tlb_ok)
  from translate_ok(2) [OF this page_machine_translate(1), of "(5, 0)"] obtain t
    where t: "tlb_page_translate (5, 0) page_machine fresh_tlb 0x1010 = Some (0x5010, t)" by blast
  from tlb_stale [OF ok t, of "(6, 0)" "page_machine\<lparr>cr3 := 0\<rparr>"] t page_machine_translate(3) show ?thesis by blast
qed

end
