(* ===== verification/Game_Letters.thy ===== *)
theory Game_Letters
  imports Nemu_Prelude Complex_Main
begin

text \<open>
  The letters and keys of the typing game, \<open>game/src/typing/effect.c\<close> and \<open>keyboard.c\<close>, on the lists of
  \<open>game/include/adt/linklist.h\<close> with its pool of 1001 nodes. A pointer is the number of a node, \<open>None\<close> the null
  pointer; \<open>None\<close> as a result is a failed assertion or a loop without end. The positions and speeds, \<open>float\<close> in the
  source, are rationals: all that occur are multiples of one half below 256 (\<open>Game_Correct\<close>), which a \<open>float\<close>
  holds exactly and which no comparison with 7.9 rounds to the other side.
\<close>

section \<open>State\<close>

record fly =
  fly_x :: rat
  fly_y :: int
  fly_text :: int
  fly_v :: rat
  prev_ptr :: "nat option"
  next_ptr :: "nat option"

text \<open>
  The points of the main loop where an interrupt may come: in \<open>hlt\<close>, before the clock is read, before the keys
  are looked at, before a tick is simulated, before the screen is drawn.
\<close>

datatype phase = Waiting | Checking | Pressing | Simulating | Drawing

record game =
  fly_pool :: "nat \<Rightarrow> fly"
  fly_free_head :: "nat option"
  fly_head :: "nat option"
  hit :: u32
  miss :: u32
  letter_pressed :: "int \<Rightarrow> bool"
  key_code :: int
  intr_on :: bool
  tick :: u32
  real_fps :: u32
  now :: u32
  target :: u32
  num_draw :: u32
  redraw :: bool
  phase :: phase
  vbuf :: "nat \<Rightarrow> u8"
  screen :: "nat \<Rightarrow> u8"

definition fly_at :: "game \<Rightarrow> nat \<Rightarrow> fly" where "fly_at g i = fly_pool g i"

definition upd_fly :: "nat \<Rightarrow> (fly \<Rightarrow> fly) \<Rightarrow> game \<Rightarrow> game" where
  "upd_fly i f g = g\<lparr>fly_pool := (fly_pool g)(i := f (fly_pool g i))\<rparr>"

definition set_next :: "nat \<Rightarrow> nat option \<Rightarrow> game \<Rightarrow> game" where
  "set_next i p = upd_fly i (\<lambda>l. l\<lparr>next_ptr := p\<rparr>)"

definition set_prev :: "nat \<Rightarrow> nat option \<Rightarrow> game \<Rightarrow> game" where
  "set_prev i p = upd_fly i (\<lambda>l. l\<lparr>prev_ptr := p\<rparr>)"

definition game_cli :: "game \<Rightarrow> game" where "game_cli g = g\<lparr>intr_on := False\<rparr>"
definition game_sti :: "game \<Rightarrow> game" where "game_sti g = g\<lparr>intr_on := True\<rparr>"

section \<open>The list\<close>

definition FLY_SIZE :: nat where "FLY_SIZE = 1000"

definition fly_init_pool :: "game \<Rightarrow> game" where
  "fly_init_pool g = fold (\<lambda>i. set_next (i - 1) (Some i)) [1..<FLY_SIZE + 1] g"

definition fly_new :: "game \<Rightarrow> (nat \<times> game) option" where
  "fly_new g =
     (let (ret, g) = (case fly_free_head g of
            None \<Rightarrow> (0, fly_init_pool g)
          | Some p \<Rightarrow> (p, g))
      in if next_ptr (fly_at g ret) = None then None
         else let g = g\<lparr>fly_free_head := next_ptr (fly_at g ret)\<rparr>
              in Some (ret, set_prev ret None (set_next ret None g)))"

definition fly_insert :: "nat option \<Rightarrow> nat option \<Rightarrow> nat \<Rightarrow> game \<Rightarrow> game option" where
  "fly_insert prev next obj g =
     (if prev = None \<and> next = None then None
      else let g = set_prev obj prev g;
               g = set_next obj next g;
               g = (case prev of Some p \<Rightarrow> set_next p (Some obj) g | None \<Rightarrow> g)
           in Some (case next of Some n \<Rightarrow> set_prev n (Some obj) g | None \<Rightarrow> g))"

definition fly_remove :: "nat \<Rightarrow> game \<Rightarrow> game" where
  "fly_remove node g =
     (let prev = prev_ptr (fly_at g node); next = next_ptr (fly_at g node);
          g = (case prev of Some p \<Rightarrow> set_next p next g | None \<Rightarrow> g)
      in (case next of Some n \<Rightarrow> set_prev n prev g | None \<Rightarrow> g))"

definition fly_free :: "nat \<Rightarrow> game \<Rightarrow> game" where
  "fly_free node g = (set_next node (fly_free_head g) g)\<lparr>fly_free_head := Some node\<rparr>"

section \<open>Keys\<close>

definition letter_code :: "int list" where
  "letter_code =
    [30, 48, 46, 32, 18, 33, 34, 35, 23, 36,
     37, 38, 50, 49, 24, 25, 16, 19, 31, 20,
     22, 47, 17, 45, 21, 44]"

definition press_key :: "int \<Rightarrow> game \<Rightarrow> game" where
  "press_key scan_code g =
     g\<lparr>letter_pressed := fold (\<lambda>i p. if letter_code ! i = scan_code then p(int i := True) else p) [0..<26] (letter_pressed g)\<rparr>"

definition release_key :: "int \<Rightarrow> game \<Rightarrow> game option" where
  "release_key index g =
     (if 0 \<le> index \<and> index < 26 then Some (g\<lparr>letter_pressed := (letter_pressed g)(index := False)\<rparr>) else None)"

definition query_key :: "int \<Rightarrow> game \<Rightarrow> bool option" where
  "query_key index g = (if 0 \<le> index \<and> index < 26 then Some (letter_pressed g index) else None)"

text \<open>The byte that \<open>in_byte(0x60)\<close> returns is the argument.\<close>

definition keyboard_event :: "u8 \<Rightarrow> game \<Rightarrow> game" where
  "keyboard_event data g = press_key (uint data) (g\<lparr>key_code := uint data\<rparr>)"

section \<open>Letters\<close>

definition SCR_WIDTH :: int where "SCR_WIDTH = 320"
definition SCR_HEIGHT :: int where "SCR_HEIGHT = 200"

text \<open>The three results of \<open>rand\<close>.\<close>

type_synonym rnd = "nat \<times> nat \<times> nat"

definition create_new_letter :: "rnd \<Rightarrow> game \<Rightarrow> game option" where
  "create_new_letter r g = (case r of (r1, r2, r3) \<Rightarrow> do {
     (h, g) \<leftarrow> fly_new g;
     g \<leftarrow> (case fly_head g of
            None \<Rightarrow> Some g
          | Some old \<Rightarrow> fly_insert None (Some old) h g);
     let g = g\<lparr>fly_head := Some h\<rparr>;
     let g = upd_fly h (\<lambda>l. l\<lparr>
       fly_x := 0,
       fly_y := int r1 mod (SCR_WIDTH div 8 - 2) * 8 + 8,
       fly_v := of_int (int r2 mod 1000 div 2000) + 1 / 2,
       fly_text := int r3 mod 26\<rparr>) g;
     release_key (fly_text (fly_at g h)) g
   })"

text \<open>\<open>it->x < 0 || it->x + 7.9 > SCR_HEIGHT\<close>\<close>

definition off_screen :: "rat \<Rightarrow> bool" where
  "off_screen x \<longleftrightarrow> x < 0 \<or> x + 79 / 10 > of_int SCR_HEIGHT"

definition drop_letter :: "nat \<Rightarrow> nat option \<Rightarrow> game \<Rightarrow> game" where
  "drop_letter i next g =
     (let g = (if fly_x (fly_at g i) < 0 then g\<lparr>hit := hit g + 1\<rparr> else g\<lparr>miss := miss g + 1\<rparr>);
          g = fly_free i (fly_remove i g)
      in if fly_head g = Some i then g\<lparr>fly_head := next\<rparr> else g)"

partial_function (option) update_from :: "nat option \<Rightarrow> game \<Rightarrow> game option" where
  "update_from it g =
     (case it of
        None \<Rightarrow> Some g
      | Some i \<Rightarrow>
          let next = next_ptr (fly_at g i);
              g = upd_fly i (\<lambda>l. l\<lparr>fly_x := fly_x l + fly_v l\<rparr>) g;
              g = (if off_screen (fly_x (fly_at g i)) then drop_letter i next g else g)
          in update_from next g)"

definition update_letter_pos :: "game \<Rightarrow> game option" where
  "update_letter_pos g = update_from (fly_head g) g"

text \<open>The search of \<open>update_keypress\<close> from a node on.\<close>

partial_function (option) find_target :: "nat option \<Rightarrow> rat \<Rightarrow> nat option \<Rightarrow> game \<Rightarrow> nat option option" where
  "find_target it lowest found g =
     (case it of
        None \<Rightarrow> Some found
      | Some i \<Rightarrow>
          let l = fly_at g i
          in if \<not> (fly_text l \<ge> 0 \<and> fly_text l < 26) then None
             else do {
               q \<leftarrow> (if fly_v l > 0 \<and> fly_x l > lowest then query_key (fly_text l) g else Some False);
               if q then find_target (next_ptr l) (fly_x l) (Some i) g
               else find_target (next_ptr l) lowest found g
             })"

definition update_keypress :: "game \<Rightarrow> (bool \<times> game) option" where
  "update_keypress g = do {
     let g = game_cli g;
     found \<leftarrow> find_target (fly_head g) (- 100) None g;
     (case found of
        Some i \<Rightarrow> do {
          g \<leftarrow> release_key (fly_text (fly_at g i)) g;
          Some (True, upd_fly i (\<lambda>l. l\<lparr>fly_v := - 3\<rparr>) g)
        }
      | None \<Rightarrow> Some (False, game_sti g))
   }"

text \<open>\<open>while (update_keypress());\<close> of the main loop, with interrupts off between the calls.\<close>

partial_function (option) keypress_loop :: "game \<Rightarrow> game option" where
  "keypress_loop g = do {
     (more, g) \<leftarrow> update_keypress g;
     if more then keypress_loop g else Some g
   }"

end
