(* ===== verification/Game_Screen.thy ===== *)
theory Game_Screen
  imports Game_Letters
begin

text \<open>
  Drawing: \<open>game/src/common/device/video.c\<close> with its font, \<open>game_draw_pixel\<close> of \<open>include/device/video.h\<close>, and
  \<open>game/src/typing/draw.c\<close>. The drawing buffer holds 64000 pixels; a store outside of it is \<open>None\<close>.
\<close>

definition GAME_SCR_SIZE :: int where "GAME_SCR_SIZE = SCR_WIDTH * SCR_HEIGHT"

definition font8x8_basic :: "u8 list list" where
  "font8x8_basic =
    [[0x0, 0x0, 0x0, 0x0, 0x0, 0x0, 0x0, 0x0],
     [0x0, 0x0, 0x0, 0x0, 0x0, 0x0, 0x0, 0x0],
     [0x0, 0x0, 0x0, 0x0, 0x0, 0x0, 0x0, 0x0],
     [0x0, 0x0, 0x0, 0x0, 0x0, 0x0, 0x0, 0x0],
     [0x0, 0x0, 0x0, 0x0, 0x0, 0x0, 0x0, 0x0],
     [0x0, 0x0, 0x0, 0x0, 0x0, 0x0, 0x0, 0x0],
     [0x0, 0x0, 0x0, 0x0, 0x0, 0x0, 0x0, 0x0],
     [0x0, 0x0, 0x0, 0x0, 0x0, 0x0, 0x0, 0x0],
     [0x0, 0x0, 0x0, 0x0, 0x0, 0x0, 0x0, 0x0],
     [0x0, 0x0, 0x0, 0x0, 0x0, 0x0, 0x0, 0x0],
     [0x0, 0x0, 0x0, 0x0, 0x0, 0x0, 0x0, 0x0],
     [0x0, 0x0, 0x0, 0x0, 0x0, 0x0, 0x0, 0x0],
     [0x0, 0x0, 0x0, 0x0, 0x0, 0x0, 0x0, 0x0],
     [0x0, 0x0, 0x0, 0x0, 0x0, 0x0, 0x0, 0x0],
     [0x0, 0x0, 0x0, 0x0, 0x0, 0x0, 0x0, 0x0],
     [0x0, 0x0, 0x0, 0x0, 0x0, 0x0, 0x0, 0x0],
     [0x0, 0x0, 0x0, 0x0, 0x0, 0x0, 0x0, 0x0],
     [0x0, 0x0, 0x0, 0x0, 0x0, 0x0, 0x0, 0x0],
     [0x0, 0x0, 0x0, 0x0, 0x0, 0x0, 0x0, 0x0],
     [0x0, 0x0, 0x0, 0x0, 0x0, 0x0, 0x0, 0x0],
     [0x0, 0x0, 0x0, 0x0, 0x0, 0x0, 0x0, 0x0],
     [0x0, 0x0, 0x0, 0x0, 0x0, 0x0, 0x0, 0x0],
     [0x0, 0x0, 0x0, 0x0, 0x0, 0x0, 0x0, 0x0],
     [0x0, 0x0, 0x0, 0x0, 0x0, 0x0, 0x0, 0x0],
     [0x0, 0x0, 0x0, 0x0, 0x0, 0x0, 0x0, 0x0],
     [0x0, 0x0, 0x0, 0x0, 0x0, 0x0, 0x0, 0x0],
     [0x0, 0x0, 0x0, 0x0, 0x0, 0x0, 0x0, 0x0],
     [0x0, 0x0, 0x0, 0x0, 0x0, 0x0, 0x0, 0x0],
     [0x0, 0x0, 0x0, 0x0, 0x0, 0x0, 0x0, 0x0],
     [0x0, 0x0, 0x0, 0x0, 0x0, 0x0, 0x0, 0x0],
     [0x0, 0x0, 0x0, 0x0, 0x0, 0x0, 0x0, 0x0],
     [0x0, 0x0, 0x0, 0x0, 0x0, 0x0, 0x0, 0x0],
     [0x0, 0x0, 0x0, 0x0, 0x0, 0x0, 0x0, 0x0],
     [0x18, 0x3c, 0x3c, 0x18, 0x18, 0x0, 0x18, 0x0],
     [0x36, 0x36, 0x0, 0x0, 0x0, 0x0, 0x0, 0x0],
     [0x36, 0x36, 0x7f, 0x36, 0x7f, 0x36, 0x36, 0x0],
     [0xc, 0x3e, 0x3, 0x1e, 0x30, 0x1f, 0xc, 0x0],
     [0x0, 0x63, 0x33, 0x18, 0xc, 0x66, 0x63, 0x0],
     [0x1c, 0x36, 0x1c, 0x6e, 0x3b, 0x33, 0x6e, 0x0],
     [0x6, 0x6, 0x3, 0x0, 0x0, 0x0, 0x0, 0x0],
     [0x18, 0xc, 0x6, 0x6, 0x6, 0xc, 0x18, 0x0],
     [0x6, 0xc, 0x18, 0x18, 0x18, 0xc, 0x6, 0x0],
     [0x0, 0x66, 0x3c, 0xff, 0x3c, 0x66, 0x0, 0x0],
     [0x0, 0xc, 0xc, 0x3f, 0xc, 0xc, 0x0, 0x0],
     [0x0, 0x0, 0x0, 0x0, 0x0, 0xc, 0xc, 0x6],
     [0x0, 0x0, 0x0, 0x3f, 0x0, 0x0, 0x0, 0x0],
     [0x0, 0x0, 0x0, 0x0, 0x0, 0xc, 0xc, 0x0],
     [0x60, 0x30, 0x18, 0xc, 0x6, 0x3, 0x1, 0x0],
     [0x3e, 0x63, 0x73, 0x7b, 0x6f, 0x67, 0x3e, 0x0],
     [0xc, 0xe, 0xc, 0xc, 0xc, 0xc, 0x3f, 0x0],
     [0x1e, 0x33, 0x30, 0x1c, 0x6, 0x33, 0x3f, 0x0],
     [0x1e, 0x33, 0x30, 0x1c, 0x30, 0x33, 0x1e, 0x0],
     [0x38, 0x3c, 0x36, 0x33, 0x7f, 0x30, 0x78, 0x0],
     [0x3f, 0x3, 0x1f, 0x30, 0x30, 0x33, 0x1e, 0x0],
     [0x1c, 0x6, 0x3, 0x1f, 0x33, 0x33, 0x1e, 0x0],
     [0x3f, 0x33, 0x30, 0x18, 0xc, 0xc, 0xc, 0x0],
     [0x1e, 0x33, 0x33, 0x1e, 0x33, 0x33, 0x1e, 0x0],
     [0x1e, 0x33, 0x33, 0x3e, 0x30, 0x18, 0xe, 0x0],
     [0x0, 0xc, 0xc, 0x0, 0x0, 0xc, 0xc, 0x0],
     [0x0, 0xc, 0xc, 0x0, 0x0, 0xc, 0xc, 0x6],
     [0x18, 0xc, 0x6, 0x3, 0x6, 0xc, 0x18, 0x0],
     [0x0, 0x0, 0x3f, 0x0, 0x0, 0x3f, 0x0, 0x0],
     [0x6, 0xc, 0x18, 0x30, 0x18, 0xc, 0x6, 0x0],
     [0x1e, 0x33, 0x30, 0x18, 0xc, 0x0, 0xc, 0x0],
     [0x3e, 0x63, 0x7b, 0x7b, 0x7b, 0x3, 0x1e, 0x0],
     [0xc, 0x1e, 0x33, 0x33, 0x3f, 0x33, 0x33, 0x0],
     [0x3f, 0x66, 0x66, 0x3e, 0x66, 0x66, 0x3f, 0x0],
     [0x3c, 0x66, 0x3, 0x3, 0x3, 0x66, 0x3c, 0x0],
     [0x1f, 0x36, 0x66, 0x66, 0x66, 0x36, 0x1f, 0x0],
     [0x7f, 0x46, 0x16, 0x1e, 0x16, 0x46, 0x7f, 0x0],
     [0x7f, 0x46, 0x16, 0x1e, 0x16, 0x6, 0xf, 0x0],
     [0x3c, 0x66, 0x3, 0x3, 0x73, 0x66, 0x7c, 0x0],
     [0x33, 0x33, 0x33, 0x3f, 0x33, 0x33, 0x33, 0x0],
     [0x1e, 0xc, 0xc, 0xc, 0xc, 0xc, 0x1e, 0x0],
     [0x78, 0x30, 0x30, 0x30, 0x33, 0x33, 0x1e, 0x0],
     [0x67, 0x66, 0x36, 0x1e, 0x36, 0x66, 0x67, 0x0],
     [0xf, 0x6, 0x6, 0x6, 0x46, 0x66, 0x7f, 0x0],
     [0x63, 0x77, 0x7f, 0x7f, 0x6b, 0x63, 0x63, 0x0],
     [0x63, 0x67, 0x6f, 0x7b, 0x73, 0x63, 0x63, 0x0],
     [0x1c, 0x36, 0x63, 0x63, 0x63, 0x36, 0x1c, 0x0],
     [0x3f, 0x66, 0x66, 0x3e, 0x6, 0x6, 0xf, 0x0],
     [0x1e, 0x33, 0x33, 0x33, 0x3b, 0x1e, 0x38, 0x0],
     [0x3f, 0x66, 0x66, 0x3e, 0x36, 0x66, 0x67, 0x0],
     [0x1e, 0x33, 0x7, 0xe, 0x38, 0x33, 0x1e, 0x0],
     [0x3f, 0x2d, 0xc, 0xc, 0xc, 0xc, 0x1e, 0x0],
     [0x33, 0x33, 0x33, 0x33, 0x33, 0x33, 0x3f, 0x0],
     [0x33, 0x33, 0x33, 0x33, 0x33, 0x1e, 0xc, 0x0],
     [0x63, 0x63, 0x63, 0x6b, 0x7f, 0x77, 0x63, 0x0],
     [0x63, 0x63, 0x36, 0x1c, 0x1c, 0x36, 0x63, 0x0],
     [0x33, 0x33, 0x33, 0x1e, 0xc, 0xc, 0x1e, 0x0],
     [0x7f, 0x63, 0x31, 0x18, 0x4c, 0x66, 0x7f, 0x0],
     [0x1e, 0x6, 0x6, 0x6, 0x6, 0x6, 0x1e, 0x0],
     [0x3, 0x6, 0xc, 0x18, 0x30, 0x60, 0x40, 0x0],
     [0x1e, 0x18, 0x18, 0x18, 0x18, 0x18, 0x1e, 0x0],
     [0x8, 0x1c, 0x36, 0x63, 0x0, 0x0, 0x0, 0x0],
     [0x0, 0x0, 0x0, 0x0, 0x0, 0x0, 0x0, 0xff],
     [0xc, 0xc, 0x18, 0x0, 0x0, 0x0, 0x0, 0x0],
     [0x0, 0x0, 0x1e, 0x30, 0x3e, 0x33, 0x6e, 0x0],
     [0x7, 0x6, 0x6, 0x3e, 0x66, 0x66, 0x3b, 0x0],
     [0x0, 0x0, 0x1e, 0x33, 0x3, 0x33, 0x1e, 0x0],
     [0x38, 0x30, 0x30, 0x3e, 0x33, 0x33, 0x6e, 0x0],
     [0x0, 0x0, 0x1e, 0x33, 0x3f, 0x3, 0x1e, 0x0],
     [0x1c, 0x36, 0x6, 0xf, 0x6, 0x6, 0xf, 0x0],
     [0x0, 0x0, 0x6e, 0x33, 0x33, 0x3e, 0x30, 0x1f],
     [0x7, 0x6, 0x36, 0x6e, 0x66, 0x66, 0x67, 0x0],
     [0xc, 0x0, 0xe, 0xc, 0xc, 0xc, 0x1e, 0x0],
     [0x30, 0x0, 0x30, 0x30, 0x30, 0x33, 0x33, 0x1e],
     [0x7, 0x6, 0x66, 0x36, 0x1e, 0x36, 0x67, 0x0],
     [0xe, 0xc, 0xc, 0xc, 0xc, 0xc, 0x1e, 0x0],
     [0x0, 0x0, 0x33, 0x7f, 0x7f, 0x6b, 0x63, 0x0],
     [0x0, 0x0, 0x1f, 0x33, 0x33, 0x33, 0x33, 0x0],
     [0x0, 0x0, 0x1e, 0x33, 0x33, 0x33, 0x1e, 0x0],
     [0x0, 0x0, 0x3b, 0x66, 0x66, 0x3e, 0x6, 0xf],
     [0x0, 0x0, 0x6e, 0x33, 0x33, 0x3e, 0x30, 0x78],
     [0x0, 0x0, 0x3b, 0x6e, 0x66, 0x6, 0xf, 0x0],
     [0x0, 0x0, 0x3e, 0x3, 0x1e, 0x30, 0x1f, 0x0],
     [0x8, 0xc, 0x3e, 0xc, 0xc, 0x2c, 0x18, 0x0],
     [0x0, 0x0, 0x33, 0x33, 0x33, 0x33, 0x6e, 0x0],
     [0x0, 0x0, 0x33, 0x33, 0x33, 0x1e, 0xc, 0x0],
     [0x0, 0x0, 0x63, 0x6b, 0x7f, 0x7f, 0x36, 0x0],
     [0x0, 0x0, 0x63, 0x36, 0x1c, 0x36, 0x63, 0x0],
     [0x0, 0x0, 0x33, 0x33, 0x33, 0x3e, 0x30, 0x1f],
     [0x0, 0x0, 0x3f, 0x19, 0xc, 0x26, 0x3f, 0x0],
     [0x38, 0xc, 0xc, 0x7, 0xc, 0xc, 0x38, 0x0],
     [0x18, 0x18, 0x18, 0x0, 0x18, 0x18, 0x18, 0x0],
     [0x7, 0xc, 0xc, 0x38, 0xc, 0xc, 0x7, 0x0],
     [0x6e, 0x3b, 0x0, 0x0, 0x0, 0x0, 0x0, 0x0],
     [0x0, 0x0, 0x0, 0x0, 0x0, 0x0, 0x0, 0x0]]"

definition game_draw_pixel :: "int \<Rightarrow> int \<Rightarrow> int \<Rightarrow> game \<Rightarrow> game option" where
  "game_draw_pixel x y color g =
     (let i = push_bit 8 x + push_bit 6 x + y
      in if 0 \<le> i \<and> i < GAME_SCR_SIZE then Some (g\<lparr>vbuf := (vbuf g)(nat i := word_of_int color)\<rparr>) else None)"

definition prepare_buffer :: "game \<Rightarrow> game" where
  "prepare_buffer g = g\<lparr>vbuf := (\<lambda>i. if int i < GAME_SCR_SIZE then 0 else vbuf g i)\<rparr>"

text \<open>\<open>rep movsl\<close> of the whole buffer to the video memory.\<close>

definition display_buffer :: "game \<Rightarrow> game" where
  "display_buffer g = g\<lparr>screen := (\<lambda>i. if int i < GAME_SCR_SIZE then vbuf g i else screen g i)\<rparr>"

definition draw_character :: "char \<Rightarrow> int \<Rightarrow> int \<Rightarrow> int \<Rightarrow> game \<Rightarrow> game option" where
  "draw_character ch x y color g =
     (if \<not> (of_char ch :: nat) < 0x80 then None
      else let p = font8x8_basic ! of_char ch in
        foldM (\<lambda>i. foldM (\<lambda>j g. if bit (p ! i) j then game_draw_pixel (x + int i) (y + int j) color g else Some g) [0..<8]) [0..<8] g)"

fun draw_string :: "string \<Rightarrow> int \<Rightarrow> int \<Rightarrow> int \<Rightarrow> game \<Rightarrow> game option" where
  "draw_string [] x y color g = Some g"
| "draw_string (c # str) x y color g = do {
     g \<leftarrow> draw_character c x y color g;
     if y + 8 \<ge> SCR_WIDTH then draw_string str (x + 8) 0 color g else draw_string str x (y + 8) color g
   }"

text \<open>\<open>snprintf\<close> with the format \<open>%d\<close>.\<close>

definition digit :: "nat \<Rightarrow> char" where "digit n = char_of (48 + n)"

fun decimal :: "nat \<Rightarrow> string" where
  "decimal n = (if n < 10 then [digit n] else decimal (n div 10) @ [digit (n mod 10)])"

declare decimal.simps [simp del]

definition itoa :: "int \<Rightarrow> string" where
  "itoa a = (if a < 0 then CHR ''-'' # decimal (nat (- a)) else decimal (nat a))"

definition last_key_code :: "game \<Rightarrow> int" where "last_key_code g = key_code g"
definition get_hit :: "game \<Rightarrow> int" where "get_hit g = sint (hit g)"
definition get_miss :: "game \<Rightarrow> int" where "get_miss g = sint (miss g)"
definition get_fps :: "game \<Rightarrow> int" where "get_fps g = sint (real_fps g)"

partial_function (option) draw_letters :: "nat option \<Rightarrow> game \<Rightarrow> game option" where
  "draw_letters it g =
     (case it of
        None \<Rightarrow> Some g
      | Some i \<Rightarrow> do {
          let l = fly_at g i;
          g \<leftarrow> draw_string [char_of (nat (fly_text l + 65))] (if fly_x l < 0 then \<lceil>fly_x l\<rceil> else \<lfloor>fly_x l\<rfloor>) (fly_y l) 15 g;
          draw_letters (next_ptr (fly_at g i)) g
        })"

definition redraw_screen :: "game \<Rightarrow> game option" where
  "redraw_screen g = do {
     let g = prepare_buffer g;
     g \<leftarrow> draw_letters (fly_head g) g;
     g \<leftarrow> draw_string (itoa (last_key_code g)) (SCR_HEIGHT - 8) 0 48 g;
     let s = itoa (get_hit g);
     g \<leftarrow> draw_string s 0 (SCR_WIDTH - int (length s) * 8) 10 g;
     let s = itoa (get_miss g);
     g \<leftarrow> draw_string s (SCR_HEIGHT - 8) (SCR_WIDTH - int (length s) * 8) 12 g;
     g \<leftarrow> draw_string (itoa (get_fps g)) 0 0 14 g;
     g \<leftarrow> draw_string ''FPS'' 0 (int (length (itoa (get_fps g))) * 8) 14 g;
     Some (display_buffer g)
   }"

end
