(* ===== verification/Game_Loop.thy ===== *)
theory Game_Loop
  imports Game_Screen
begin

text \<open>
  The main loop of the typing game, \<open>game/src/typing/game.c\<close>, and its interleaving with the interrupts of the timer and
  the keyboard. The steps of the loop are the parts between which an interrupt makes a difference: what lies between
  \<open>cli\<close> and \<open>sti\<close> is one step, and so is the simulation of a tick, which reads none of the variables that
  \<open>timer_event\<close> writes and shares a single store, the release of a key, with \<open>keyboard_event\<close>.
\<close>

definition FPS :: int where "FPS = 30"
definition CHARACTER_PER_SECOND :: int where "CHARACTER_PER_SECOND = 3"
definition UPDATE_PER_SECOND :: int where "UPDATE_PER_SECOND = 100"
definition TICK_HZ :: int where "TICK_HZ = 100"

definition timer_event :: "game \<Rightarrow> game" where
  "timer_event g = g\<lparr>tick := tick g + 1\<rparr>"

definition set_fps :: "u32 \<Rightarrow> game \<Rightarrow> game" where
  "set_fps value g = g\<lparr>real_fps := value\<rparr>"

text \<open>\<open>now % d == 0\<close>; \<open>%\<close> truncates, which makes no difference to a zero remainder.\<close>

definition every :: "int \<Rightarrow> game \<Rightarrow> bool" where
  "every d g \<longleftrightarrow> sint (now g) mod d = 0"

definition update_fps :: "game \<Rightarrow> game" where
  "update_fps g =
     (let now_fps = num_draw g * 2 + 1;
          now_fps = (if sint now_fps > FPS then word_of_int FPS else now_fps)
      in (set_fps now_fps g)\<lparr>num_draw := 0\<rparr>)"

definition simulate_tick :: "rnd \<Rightarrow> game \<Rightarrow> game option" where
  "simulate_tick r g = do {
     g \<leftarrow> (if every (TICK_HZ div CHARACTER_PER_SECOND) g then create_new_letter r g else Some g);
     g \<leftarrow> (if every (TICK_HZ div UPDATE_PER_SECOND) g then update_letter_pos g else Some g);
     let g = (if every (TICK_HZ div FPS) g then g\<lparr>redraw := True\<rparr> else g);
     let g = (if every (TICK_HZ div 2) g then update_fps g else g);
     Some (g\<lparr>now := now g + 1\<rparr>)
   }"

definition read_clock :: "game \<Rightarrow> game option" where
  "read_clock g =
     (let g = game_cli g in
      if now g = tick g then Some ((game_sti g)\<lparr>phase := Waiting\<rparr>)
      else if \<not> now g <s tick g then None
      else Some ((game_sti (g\<lparr>target := tick g\<rparr>))\<lparr>redraw := False, phase := Pressing\<rparr>))"

definition main_step :: "rnd \<Rightarrow> game \<Rightarrow> game option" where
  "main_step r g =
     (case phase g of
        Waiting \<Rightarrow> Some (g\<lparr>phase := Checking\<rparr>)
      | Checking \<Rightarrow> read_clock g
      | Pressing \<Rightarrow> do { g \<leftarrow> keypress_loop g; Some (g\<lparr>phase := Simulating\<rparr>) }
      | Simulating \<Rightarrow>
          if now g <s target g then simulate_tick r g
          else Some (g\<lparr>phase := if redraw g then Drawing else Waiting\<rparr>)
      | Drawing \<Rightarrow> do {
          g \<leftarrow> redraw_screen (g\<lparr>num_draw := num_draw g + 1\<rparr>);
          Some (g\<lparr>phase := Waiting\<rparr>)
        })"

text \<open>The static variables at the start, and interrupts enabled.\<close>

definition game0 :: game where
  "game0 = \<lparr>fly_pool = (\<lambda>_. \<lparr>fly_x = 0, fly_y = 0, fly_text = 0, fly_v = 0, prev_ptr = None, next_ptr = None\<rparr>),
     fly_free_head = None, fly_head = None, hit = 0, miss = 0, letter_pressed = (\<lambda>_. False), key_code = 0,
     intr_on = True, tick = 0, real_fps = 0, now = 0, target = 0, num_draw = 0, redraw = False, phase = Waiting,
     vbuf = (\<lambda>_. 0), screen = (\<lambda>_. 0)\<rparr>"

text \<open>The states that are reached with \<open>n\<close> interrupts of the timer, whatever keys and random numbers come.\<close>

inductive game_runs :: "nat \<Rightarrow> game \<Rightarrow> bool" where
  start: "game_runs 0 game0"
| timer: "game_runs n g \<Longrightarrow> intr_on g \<Longrightarrow> game_runs (Suc n) (timer_event g)"
| keyboard: "game_runs n g \<Longrightarrow> intr_on g \<Longrightarrow> game_runs n (keyboard_event data g)"
| main: "game_runs n g \<Longrightarrow> main_step r g = Some g' \<Longrightarrow> game_runs n g'"

inductive_cases game_runs_0E: "game_runs 0 g"

end
