(* ===== verification/Double_List.thy ===== *)
theory Double_List
  imports Linked_List
begin

text \<open>
  Doubly linked lists in a pool: the \<open>prev\<close> pointers of a path, and the contract of the two kinds of assignment, on
  which insertion at the head and removal of any node rest.
\<close>

primrec rpath :: "(nat \<Rightarrow> nat option) \<Rightarrow> nat option \<Rightarrow> nat list \<Rightarrow> bool" where
  "rpath prv p [] \<longleftrightarrow> True"
| "rpath prv p (x # xs) \<longleftrightarrow> prv x = p \<and> rpath prv (Some x) xs"

lemma rpath_frame: "(\<And>x. x \<in> set xs \<Longrightarrow> prv' x = prv x) \<Longrightarrow> rpath prv' p xs = rpath prv p xs"
  by (induction xs arbitrary: p) auto

lemma rpath_upd_other [simp]: "i \<notin> set xs \<Longrightarrow> rpath (prv(i := q)) p xs = rpath prv p xs"
  by (rule rpath_frame) auto

lemma rpath_append: "rpath prv p (xs @ ys) \<longleftrightarrow> rpath prv p xs \<and> rpath prv (if xs = [] then p else Some (last xs)) ys"
  by (induction xs arbitrary: p) auto

lemma path_head: "path nxt p (xs @ ys) \<Longrightarrow> xs = [] \<Longrightarrow> path nxt p ys"
  by simp

lemma path_next: "path nxt p (xs @ i # ys) \<Longrightarrow> nxt i = (case ys of [] \<Rightarrow> None | y # _ \<Rightarrow> Some y)"
  by (drule path_suffix) (cases ys; simp)

lemma path_first: "path nxt p xs \<Longrightarrow> p = (case xs of [] \<Rightarrow> None | x # _ \<Rightarrow> Some x)"
  by (cases xs) simp_all

lemma rpath_prev: "rpath prv None (xs @ i # ys) \<Longrightarrow> prv i = (if xs = [] then None else Some (last xs))"
  by (simp add: rpath_append)

locale double_pool = linked_pool nxt set_nxt + rev: linked_pool prv set_prv
  for nxt :: "'s \<Rightarrow> nat \<Rightarrow> nat option" and set_nxt and prv :: "'s \<Rightarrow> nat \<Rightarrow> nat option" and set_prv +
  assumes nxt_set_prv [simp]: "nxt (set_prv i p s) = nxt s"
    and prv_set_nxt [simp]: "prv (set_nxt i p s) = prv s"
begin

lemmas sets [simp] = nxt_set rev.nxt_set

lemma remove_path:
  assumes p: "path (nxt s) p (xs @ i # ys)" and b: "rpath (prv s) None (xs @ i # ys)" and d: "distinct (xs @ i # ys)"
  defines "s1 \<equiv> (case prv s i of Some j \<Rightarrow> set_nxt j (nxt s i) s | None \<Rightarrow> s)"
  defines "s2 \<equiv> (case nxt s i of Some k \<Rightarrow> set_prv k (prv s i) s1 | None \<Rightarrow> s1)"
  shows "path (nxt s2) (if xs = [] then nxt s i else p) (xs @ ys)" "rpath (prv s2) None (xs @ ys)"
proof -
  have nx: "nxt s2 = nxt s1" "nxt s i = (case ys of [] \<Rightarrow> None | y # _ \<Rightarrow> Some y)"
    using path_next [OF p] by (simp_all add: s2_def split: option.splits)
  have pv: "prv s i = (if xs = [] then None else Some (last xs))" by (rule rpath_prev [OF b])
  show "path (nxt s2) (if xs = [] then nxt s i else p) (xs @ ys)"
  proof (cases xs rule: rev_cases)
    case Nil
    then show ?thesis using p pv by (simp add: nx(1) s1_def)
  next
    case (snoc zs j)
    then show ?thesis using unlink_path [of s p zs j i ys] p d pv by (simp add: nx(1) s1_def)
  qed
  have "prv s1 = prv s" by (simp add: s1_def split: option.splits)
  then show "rpath (prv s2) None (xs @ ys)"
    using b d pv nx(2) by (cases ys) (auto simp: s2_def rpath_append)
qed

lemma push_back:
  assumes "path (nxt s) (Some k) xs" "rpath (prv s) None xs" "i \<notin> set xs" "distinct xs"
  shows "path (nxt (set_prv k (Some i) (set_nxt i (Some k) (set_prv i None s)))) (Some i) (i # xs)"
    "rpath (prv (set_prv k (Some i) (set_nxt i (Some k) (set_prv i None s)))) None (i # xs)"
  using assms by (cases xs; auto)+

end

end
