(* ===== verification/Game_Correct.thy ===== *)
theory Game_Correct
  imports Game_Loop Double_List
begin

text \<open>
  What the operations of the typing game do to the list of its letters, on the contract of doubly linked lists: a new
  node, a new letter, the movement of all letters, and the loop over the keys.
\<close>

section \<open>The lists in the pool\<close>

definition nexts :: "game \<Rightarrow> nat \<Rightarrow> nat option" where "nexts g i = next_ptr (fly_at g i)"
definition prevs :: "game \<Rightarrow> nat \<Rightarrow> nat option" where "prevs g i = prev_ptr (fly_at g i)"

lemma pool_fields [simp]:
  "fly_head (set_next i p g) = fly_head g" "fly_free_head (set_next i p g) = fly_free_head g"
  "fly_head (set_prev i p g) = fly_head g" "fly_free_head (set_prev i p g) = fly_free_head g"
  "fly_head (upd_fly i f g) = fly_head g" "fly_free_head (upd_fly i f g) = fly_free_head g"
  by (simp_all add: set_next_def set_prev_def upd_fly_def)

lemma nexts_links [simp]:
  "nexts (set_next i p g) = (nexts g)(i := p)" "nexts (set_prev i p g) = nexts g"
  "prevs (set_prev i p g) = (prevs g)(i := p)" "prevs (set_next i p g) = prevs g"
  by (auto simp: nexts_def prevs_def set_next_def set_prev_def upd_fly_def fly_at_def fun_eq_iff)

interpretation fly: double_pool nexts set_next prevs set_prev
  by unfold_locales simp_all

text \<open>What a letter is, without its links.\<close>

type_synonym letter = "rat \<times> int \<times> int \<times> rat"

definition letter :: "game \<Rightarrow> nat \<Rightarrow> letter" where
  "letter g i = (fly_x (fly_at g i), fly_y (fly_at g i), fly_text (fly_at g i), fly_v (fly_at g i))"

lemma letter_links [simp]:
  "letter (set_next i p g) = letter g" "letter (set_prev i p g) = letter g"
  by (auto simp: letter_def set_next_def set_prev_def upd_fly_def fly_at_def fun_eq_iff)

text \<open>The letters on the screen are \<open>xs\<close>, the free nodes \<open>fs\<close>; the pool is linked up by the first \<open>fly_new\<close>.\<close>

definition free_ok :: "game \<Rightarrow> nat list \<Rightarrow> bool" where
  "free_ok g fs \<longleftrightarrow> (case fly_free_head g of
      None \<Rightarrow> fs = [0..<FLY_SIZE + 1] \<and> nexts g FLY_SIZE = None
    | Some p \<Rightarrow> path (nexts g) (Some p) fs)"

definition lists_ok :: "game \<Rightarrow> nat list \<Rightarrow> nat list \<Rightarrow> bool" where
  "lists_ok g xs fs \<longleftrightarrow> path (nexts g) (fly_head g) xs \<and> rpath (prevs g) None xs \<and> free_ok g fs \<and>
     distinct (xs @ fs) \<and> set (xs @ fs) = {..FLY_SIZE}"

text \<open>The variables that the operations on letters leave alone: all but the ones that are erased here.\<close>

definition erase :: "game \<Rightarrow> game" where
  "erase g = g\<lparr>fly_pool := fly_pool game0, fly_free_head := None, fly_head := None, hit := 0, miss := 0,
     letter_pressed := letter_pressed game0\<rparr>"

lemma erase_fields:
  assumes "erase g' = erase g"
  shows "key_code g' = key_code g" "intr_on g' = intr_on g" "tick g' = tick g" "now g' = now g" "target g' = target g"
    "phase g' = phase g" "redraw g' = redraw g" "num_draw g' = num_draw g"
proof -
  have "f g' = f g" if "\<And>g. f (erase g) = f g" for f :: "game \<Rightarrow> 'b" using that [of g] that [of g'] assms by simp
  note f = this
  show "key_code g' = key_code g" "intr_on g' = intr_on g" "tick g' = tick g" "now g' = now g" "target g' = target g"
    "phase g' = phase g" "redraw g' = redraw g" "num_draw g' = num_draw g"
    by (rule f; simp add: erase_def)+
qed

lemma erase_updates [simp]:
  "erase (upd_fly i f g) = erase g" "erase (set_next i p g) = erase g" "erase (set_prev i p g) = erase g"
  "erase (g\<lparr>fly_head := h\<rparr>) = erase g" "erase (g\<lparr>fly_free_head := h\<rparr>) = erase g" "erase (g\<lparr>hit := w\<rparr>) = erase g"
  "erase (g\<lparr>miss := w\<rparr>) = erase g" "erase (g\<lparr>letter_pressed := k\<rparr>) = erase g"
  by (simp_all add: erase_def upd_fly_def set_next_def set_prev_def)

lemma links_scores [simp]:
  "hit (set_next i p g) = hit g" "miss (set_next i p g) = miss g" "letter_pressed (set_next i p g) = letter_pressed g"
  "hit (set_prev i p g) = hit g" "miss (set_prev i p g) = miss g" "letter_pressed (set_prev i p g) = letter_pressed g"
  "hit (upd_fly i f g) = hit g" "miss (upd_fly i f g) = miss g" "letter_pressed (upd_fly i f g) = letter_pressed g"
  by (simp_all add: set_next_def set_prev_def upd_fly_def)

subsection \<open>A new node\<close>

lemma init_pool_next:
  "nexts (fold (\<lambda>i. set_next (i - 1) (Some i)) [1..<Suc n] g) j = (if j < n then Some (Suc j) else nexts g j)"
  by (induction n) auto

lemma init_pool_other:
  "prevs (fold (\<lambda>i. set_next (i - 1) (Some i)) is g) = prevs g" "letter (fold (\<lambda>i. set_next (i - 1) (Some i)) is g) = letter g"
  "fly_head (fold (\<lambda>i. set_next (i - 1) (Some i)) is g) = fly_head g"
  "erase (fold (\<lambda>i. set_next (i - 1) (Some i)) is g) = erase g" "hit (fold (\<lambda>i. set_next (i - 1) (Some i)) is g) = hit g"
  "miss (fold (\<lambda>i. set_next (i - 1) (Some i)) is g) = miss g"
  "letter_pressed (fold (\<lambda>i. set_next (i - 1) (Some i)) is g) = letter_pressed g"
  by (induction "is" arbitrary: g) simp_all

lemma path_upt: "\<forall>j. m \<le> j \<and> j < n \<longrightarrow> nxt j = (if Suc j = n then None else Some (Suc j)) \<Longrightarrow> m < n \<Longrightarrow> path nxt (Some m) [m..<n]"
proof (induction "n - m" arbitrary: m)
  case (Suc k)
  then show ?case by (cases "Suc m = n") (auto simp: upt_conv_Cons [of m])
qed simp

lemma pool_vars [simp]:
  "nexts (g\<lparr>fly_head := h\<rparr>) = nexts g" "nexts (g\<lparr>fly_free_head := h\<rparr>) = nexts g" "nexts (g\<lparr>hit := w\<rparr>) = nexts g"
  "nexts (g\<lparr>miss := w\<rparr>) = nexts g" "nexts (g\<lparr>letter_pressed := k\<rparr>) = nexts g"
  "prevs (g\<lparr>fly_head := h\<rparr>) = prevs g" "prevs (g\<lparr>fly_free_head := h\<rparr>) = prevs g" "prevs (g\<lparr>hit := w\<rparr>) = prevs g"
  "prevs (g\<lparr>miss := w\<rparr>) = prevs g" "prevs (g\<lparr>letter_pressed := k\<rparr>) = prevs g"
  "letter (g\<lparr>fly_head := h\<rparr>) = letter g" "letter (g\<lparr>fly_free_head := h\<rparr>) = letter g" "letter (g\<lparr>hit := w\<rparr>) = letter g"
  "letter (g\<lparr>miss := w\<rparr>) = letter g" "letter (g\<lparr>letter_pressed := k\<rparr>) = letter g"
  by (simp_all add: nexts_def prevs_def letter_def fly_at_def fun_eq_iff)

text \<open>Everything but the pool and its lists.\<close>

definition scores :: "game \<Rightarrow> u32 \<times> u32 \<times> (int \<Rightarrow> bool)" where
  "scores g = (hit g, miss g, letter_pressed g)"

lemma scores_links [simp]:
  "scores (set_next i p g) = scores g" "scores (set_prev i p g) = scores g" "scores (upd_fly i f g) = scores g"
  "scores (g\<lparr>fly_head := h\<rparr>) = scores g" "scores (g\<lparr>fly_free_head := h\<rparr>) = scores g"
  by (simp_all add: scores_def)

lemma fly_init_pool_next: "nexts (fly_init_pool g) j = (if j < FLY_SIZE then Some (Suc j) else nexts g j)"
  unfolding fly_init_pool_def Suc_eq_plus1 [symmetric] by (rule init_pool_next)

lemma fly_init_pool_other:
  "prevs (fly_init_pool g) = prevs g" "letter (fly_init_pool g) = letter g" "fly_head (fly_init_pool g) = fly_head g"
  "scores (fly_init_pool g) = scores g" "erase (fly_init_pool g) = erase g"
  unfolding fly_init_pool_def scores_def init_pool_other by (rule refl)+

lemma fly_new_ok:
  assumes "lists_ok g xs (i # fs)" "fs \<noteq> []"
  shows "\<exists>g'. fly_new g = Some (i, g') \<and> fly_free_head g' \<noteq> None \<and> path (nexts g') (fly_free_head g') fs \<and>
    path (nexts g') (fly_head g') xs \<and> rpath (prevs g') None xs \<and> fly_head g' = fly_head g \<and> letter g' = letter g \<and>
    scores g' = scores g \<and> erase g' = erase g \<and> nexts g' i = None \<and> prevs g' i = None"
proof -
  from assms(1) have l: "path (nexts g) (fly_head g) xs" "rpath (prevs g) None xs" "i \<notin> set xs" "i \<notin> set fs" and f: "free_ok g (i # fs)"
    by (auto simp: lists_ok_def)
  define g1 where "g1 = (case fly_free_head g of None \<Rightarrow> fly_init_pool g | Some p \<Rightarrow> g)"
  have g1: "prevs g1 = prevs g" "letter g1 = letter g" "fly_head g1 = fly_head g" "scores g1 = scores g" "erase g1 = erase g"
    by (simp_all add: g1_def fly_init_pool_other split: option.splits)
  have free: "path (nexts g1) (Some i) (i # fs)" and used: "path (nexts g1) (fly_head g) xs"
    and start: "(case fly_free_head g of None \<Rightarrow> (0, fly_init_pool g) | Some p \<Rightarrow> (p, g)) = (i, g1)"
  proof (atomize (full), cases "fly_free_head g")
    case None
    then have e: "i # fs = [0..<FLY_SIZE + 1]" "nexts g FLY_SIZE = None" using f by (simp_all add: free_ok_def)
    then have i: "i = 0" by (metis list.sel(1) upt_conv_Cons zero_less_Suc Suc_eq_plus1)
    have "set (i # fs) = {..FLY_SIZE}" unfolding e(1) by auto
    moreover have "set xs \<inter> set (i # fs) = {}" "set xs \<subseteq> {..FLY_SIZE}" using assms(1) unfolding lists_ok_def by auto
    ultimately have "xs = []" by (cases xs) auto
    moreover have "nexts g1 j = (if j < FLY_SIZE then Some (Suc j) else nexts g j)" for j
      by (simp add: g1_def None fly_init_pool_next)
    then have "path (nexts g1) (Some 0) [0..<FLY_SIZE + 1]" using e(2) by (intro path_upt) (auto simp: less_Suc_eq)
    ultimately show "path (nexts g1) (Some i) (i # fs) \<and> path (nexts g1) (fly_head g) xs \<and>
        (case fly_free_head g of None \<Rightarrow> (0, fly_init_pool g) | Some p \<Rightarrow> (p, g)) = (i, g1)"
      using l(1) unfolding e(1) by (simp add: None i g1_def)
  next
    case (Some p)
    then show "path (nexts g1) (Some i) (i # fs) \<and> path (nexts g1) (fly_head g) xs \<and>
        (case fly_free_head g of None \<Rightarrow> (0, fly_init_pool g) | Some p \<Rightarrow> (p, g)) = (i, g1)"
      using f l(1) by (simp add: g1_def free_ok_def)
  qed
  have n: "nexts g1 i \<noteq> None" "path (nexts g1) (nexts g1 i) fs" using free assms(2) by (cases fs; auto)+
  define g' where "g' = set_prev i None (set_next i None (g1\<lparr>fly_free_head := nexts g1 i\<rparr>))"
  have "fly_new g = Some (i, g')" using n(1) by (simp add: fly_new_def start g'_def nexts_def)
  then show ?thesis using n l g1 used by (intro exI [of _ g']) (simp add: g'_def)
qed

subsection \<open>Removing a node\<close>

lemma fly_remove_path:
  assumes "path (nexts g) p (xs @ i # ys)" "rpath (prevs g) None (xs @ i # ys)" "distinct (xs @ i # ys)"
  shows "path (nexts (fly_remove i g)) (if xs = [] then nexts g i else p) (xs @ ys)" "rpath (prevs (fly_remove i g)) None (xs @ ys)"
  using fly.remove_path [OF assms] unfolding fly_remove_def Let_def by (simp_all only: nexts_def prevs_def)

lemma fly_remove_other:
  "letter (fly_remove i g) = letter g" "scores (fly_remove i g) = scores g" "erase (fly_remove i g) = erase g"
  "fly_head (fly_remove i g) = fly_head g" "fly_free_head (fly_remove i g) = fly_free_head g"
  "prevs g i \<noteq> Some j \<Longrightarrow> nexts (fly_remove i g) j = nexts g j"
  by (auto simp: fly_remove_def Let_def prevs_def split: option.splits)

lemma drop_letter_ok:
  assumes ok: "lists_ok g (xs @ i # ys) fs" and init: "fly_free_head g \<noteq> None" and nx: "next = nexts g i"
  defines "g' \<equiv> drop_letter i next g"
  shows "lists_ok g' (xs @ ys) (i # fs)" "fly_free_head g' \<noteq> None" "letter g' = letter g" "erase g' = erase g"
    "letter_pressed g' = letter_pressed g"
    "hit g' = hit g + (if fly_x (fly_at g i) < 0 then 1 else 0)" "miss g' = miss g + (if fly_x (fly_at g i) < 0 then 0 else 1)"
    "\<And>j. j \<in> set ys \<Longrightarrow> nexts g' j = nexts g j"
proof -
  from ok have l: "path (nexts g) (fly_head g) (xs @ i # ys)" "rpath (prevs g) None (xs @ i # ys)" "distinct (xs @ i # ys)"
    "path (nexts g) (fly_free_head g) fs" "set (xs @ i # ys) \<inter> set fs = {}" "distinct fs" "set (xs @ i # ys @ fs) = {..FLY_SIZE}"
    using init by (auto simp: lists_ok_def free_ok_def)
  define g1 where "g1 = (if fly_x (fly_at g i) < 0 then g\<lparr>hit := hit g + 1\<rparr> else g\<lparr>miss := miss g + 1\<rparr>)"
  have g1: "nexts g1 = nexts g" "prevs g1 = prevs g" "fly_head g1 = fly_head g" "fly_free_head g1 = fly_free_head g"
    "letter g1 = letter g" "erase g1 = erase g" by (simp_all add: g1_def)
  define g2 where "g2 = fly_remove i g1"
  note g2 = fly_remove_other [where i = i and g = g1, folded g2_def, unfolded g1]
  have p: "path (nexts g2) (if xs = [] then nexts g i else fly_head g) (xs @ ys)" "rpath (prevs g2) None (xs @ ys)"
    unfolding g2_def using fly_remove_path [of g1 "fly_head g" xs i ys, unfolded g1(1-3)] l(1-3) by blast+
  have pv: "prevs g i = (if xs = [] then None else Some (last xs))" by (rule rpath_prev [OF l(2)])
  have keep: "nexts g2 j = nexts g j" if "j \<notin> set xs" for j using that pv by (intro g2(6)) (auto split: if_splits)
  have f: "path (nexts g2) (fly_free_head g) fs"
    using l(4,5) keep path_frame [of fs "nexts g2" "nexts g" "fly_free_head g"] by fastforce
  have first: "fly_head g = Some i \<longleftrightarrow> xs = []" using l(1,3) by (cases xs) auto
  define g3 where "g3 = fly_free i g2"
  have g3: "nexts g3 = (nexts g2)(i := fly_free_head g)" "prevs g3 = prevs g2" "letter g3 = letter g" "scores g3 = scores g1"
    "erase g3 = erase g" "fly_head g3 = fly_head g" "fly_free_head g3 = Some i"
    by (simp_all add: g3_def fly_free_def g2)
  have g': "g' = (if xs = [] then g3\<lparr>fly_head := nexts g i\<rparr> else g3)"
    by (simp add: g'_def drop_letter_def Let_def g1_def [symmetric] g2_def [symmetric] g3_def [symmetric] first g3 nx)
  then have fields: "nexts g' = nexts g3" "prevs g' = prevs g3" "letter g' = letter g3" "scores g' = scores g3"
    "erase g' = erase g3" "fly_free_head g' = fly_free_head g3" "fly_head g' = (if xs = [] then nexts g i else fly_head g)"
    by (simp_all add: g3)
  show "lists_ok g' (xs @ ys) (i # fs)"
    using p f l(3,5,6,7) by (auto simp: lists_ok_def free_ok_def fields g3)
  show "fly_free_head g' \<noteq> None" "letter g' = letter g" "erase g' = erase g" by (simp_all add: fields g3)
  show "letter_pressed g' = letter_pressed g" "hit g' = hit g + (if fly_x (fly_at g i) < 0 then 1 else 0)"
    "miss g' = miss g + (if fly_x (fly_at g i) < 0 then 0 else 1)"
    using fields(4) g3(4) by (auto simp: scores_def g1_def)
  show "nexts g' j = nexts g j" if "j \<in> set ys" for j using that keep l(3) by (auto simp: fields g3)
qed

section \<open>Moving the letters\<close>

definition fall :: "letter \<Rightarrow> letter" where "fall l = (case l of (x, y, t, v) \<Rightarrow> (x + v, y, t, v))"
definition gone :: "letter \<Rightarrow> bool" where "gone l \<longleftrightarrow> off_screen (fst l)"
definition flew_up :: "letter \<Rightarrow> bool" where "flew_up l \<longleftrightarrow> fst l < 0"

definition move_letter :: "nat \<Rightarrow> game \<Rightarrow> game" where
  "move_letter i = upd_fly i (\<lambda>l. l\<lparr>fly_x := fly_x l + fly_v l\<rparr>)"

lemma move_letter [simp]:
  "nexts (move_letter i g) = nexts g" "prevs (move_letter i g) = prevs g" "fly_head (move_letter i g) = fly_head g"
  "fly_free_head (move_letter i g) = fly_free_head g" "letter (move_letter i g) = (letter g)(i := fall (letter g i))"
  "erase (move_letter i g) = erase g" "scores (move_letter i g) = scores g"
  by (auto simp: move_letter_def nexts_def prevs_def letter_def fall_def fly_at_def upd_fly_def erase_def scores_def fun_eq_iff)

lemma fly_x_letter: "fly_x (fly_at g i) = fst (letter g i)"
  by (simp add: letter_def)

lemma update_from_step:
  "update_from (Some i) g =
     (let g1 = move_letter i g
      in update_from (nexts g i) (if gone (letter g1 i) then drop_letter i (nexts g i) g1 else g1))"
  by (subst update_from.simps) (simp add: Let_def move_letter_def nexts_def gone_def fly_x_letter)

lemma update_from_ok:
  assumes "lists_ok g (xs @ ys) fs" "fly_free_head g \<noteq> None" "path (nexts g) it ys"
  defines "ls \<equiv> map fall (map (letter g) ys)"
  shows "\<exists>g' zs fs'. update_from it g = Some g' \<and> lists_ok g' (xs @ zs) fs' \<and> fly_free_head g' \<noteq> None \<and>
    map (letter g') xs = map (letter g) xs \<and> map (letter g') zs = filter (\<lambda>l. \<not> gone l) ls \<and>
    hit g' = hit g + of_nat (length (filter (\<lambda>l. gone l \<and> flew_up l) ls)) \<and>
    miss g' = miss g + of_nat (length (filter (\<lambda>l. gone l \<and> \<not> flew_up l) ls)) \<and>
    letter_pressed g' = letter_pressed g \<and> erase g' = erase g"
  using assms(1-3) unfolding ls_def
proof (induction ys arbitrary: xs g fs it)
  case Nil
  then show ?case by (subst update_from.simps) auto
next
  case (Cons i ys)
  define g1 where "g1 = move_letter i g"
  have ok: "lists_ok g1 (xs @ i # ys) fs" using Cons.prems(1) by (simp add: lists_ok_def free_ok_def g1_def split: option.splits)
  have it: "it = Some i" "path (nexts g) (nexts g i) ys" using Cons.prems(3) by simp_all
  have i: "i \<notin> set xs" "i \<notin> set ys" using Cons.prems(1) by (auto simp: lists_ok_def)
  have same: "map (letter g1) xs = map (letter g) xs" "map (letter g1) ys = map (letter g) ys" "letter g1 i = fall (letter g i)"
    using i by (auto simp: g1_def)
  have sc: "hit g1 = hit g" "miss g1 = miss g" "letter_pressed g1 = letter_pressed g" "erase g1 = erase g"
    by (simp_all add: g1_def move_letter_def)
  show ?case
  proof (cases "gone (letter g1 i)")
    case True
    define g2 where "g2 = drop_letter i (nexts g i) g1"
    have "nexts g i = nexts g1 i" "fly_free_head g1 \<noteq> None" using Cons.prems(2) by (simp_all add: g1_def)
    note g2 = drop_letter_ok [OF ok this(2,1), folded g2_def]
    have "path (nexts g2) (nexts g i) ys"
      using it(2) g2(8) path_frame [of ys "nexts g2" "nexts g1"] by (simp add: g1_def)
    from Cons.IH [OF g2(1,2) this] True same sc g2(3-7) fly_x_letter [of g1 i] show ?thesis
      unfolding it(1) update_from_step g1_def [symmetric] Let_def g2_def [symmetric]
      by (auto simp: flew_up_def add.commute add.left_commute) blast+
  next
    case False
    have "lists_ok g1 ((xs @ [i]) @ ys) fs" "fly_free_head g1 \<noteq> None" "path (nexts g1) (nexts g i) ys"
      using ok Cons.prems(2) it(2) by (simp_all add: g1_def)
    from Cons.IH [OF this] obtain g' zs fs' where g': "update_from (nexts g i) g1 = Some g'" "lists_ok g' ((xs @ [i]) @ zs) fs'"
      "fly_free_head g' \<noteq> None" "map (letter g') (xs @ [i]) = map (letter g1) (xs @ [i])"
      "map (letter g') zs = filter (\<lambda>l. \<not> gone l) (map fall (map (letter g1) ys))"
      "hit g' = hit g1 + of_nat (length (filter (\<lambda>l. gone l \<and> flew_up l) (map fall (map (letter g1) ys))))"
      "miss g' = miss g1 + of_nat (length (filter (\<lambda>l. gone l \<and> \<not> flew_up l) (map fall (map (letter g1) ys))))"
      "letter_pressed g' = letter_pressed g1" "erase g' = erase g1" by blast
    have "update_from it g = Some g'"
      unfolding it(1) update_from_step g1_def [symmetric] Let_def using False g'(1) by simp
    moreover have "lists_ok g' (xs @ i # zs) fs'" using g'(2) by simp
    moreover have "map (letter g') xs = map (letter g) xs \<and> map (letter g') (i # zs) = filter (\<lambda>l. \<not> gone l) (map fall (map (letter g) (i # ys)))"
      using g'(4,5) same False by (simp del: map_map)
    ultimately show ?thesis using g'(3,6-9) same False sc
      by - (rule exI [of _ g'], rule exI [of _ "i # zs"], rule exI [of _ fs'], simp del: map_map)
  qed
qed

lemma lists_length: "lists_ok g xs fs \<Longrightarrow> length xs + length fs = FLY_SIZE + 1"
  using distinct_card [of "xs @ fs"] by (simp add: lists_ok_def)

lemma update_letter_pos_ok:
  assumes "lists_ok g xs fs"
  defines "ls \<equiv> map fall (map (letter g) xs)"
  shows "\<exists>g' xs' fs'. update_letter_pos g = Some g' \<and> lists_ok g' xs' fs' \<and> map (letter g') xs' = filter (\<lambda>l. \<not> gone l) ls \<and>
    hit g' = hit g + of_nat (length (filter (\<lambda>l. gone l \<and> flew_up l) ls)) \<and>
    miss g' = miss g + of_nat (length (filter (\<lambda>l. gone l \<and> \<not> flew_up l) ls)) \<and>
    letter_pressed g' = letter_pressed g \<and> erase g' = erase g"
proof (cases "fly_free_head g")
  case None
  then have "length fs = FLY_SIZE + 1" using assms(1) by (simp add: lists_ok_def free_ok_def)
  then have "xs = []" using lists_length [OF assms(1)] by simp
  moreover from this have "fly_head g = None" using assms(1) by (simp add: lists_ok_def)
  ultimately show ?thesis using assms(1) by (auto simp: update_letter_pos_def update_from.simps [of None] ls_def)
next
  case (Some p)
  moreover have "path (nexts g) (fly_head g) xs" using assms(1) by (simp add: lists_ok_def)
  ultimately show ?thesis
    using update_from_ok [of g "[]" xs fs "fly_head g"] assms(1) unfolding ls_def update_letter_pos_def by auto
qed

section \<open>A new letter\<close>

definition new_letter :: "rnd \<Rightarrow> letter" where
  "new_letter r = (case r of (r1, r2, r3) \<Rightarrow> (0, int r1 mod 38 * 8 + 8, int r3 mod 26, 1 / 2))"

lemma slow_letter: "int r mod 1000 div 2000 = 0"
  by (simp add: div_pos_pos_trivial)

lemma create_new_letter_ok:
  assumes ok: "lists_ok g xs fs" and few: "length xs < FLY_SIZE"
  shows "\<exists>g' i fs'. create_new_letter r g = Some g' \<and> lists_ok g' (i # xs) fs' \<and>
    map (letter g') (i # xs) = new_letter r # map (letter g) xs \<and> hit g' = hit g \<and> miss g' = miss g \<and> erase g' = erase g"
proof -
  have "2 \<le> length fs" using few lists_length [OF ok] by simp
  then obtain i fs' where fs: "fs = i # fs'" "fs' \<noteq> []" by (cases fs; cases "tl fs") auto
  from ok have d: "distinct (xs @ fs)" "set (xs @ fs) = {..FLY_SIZE}" by (simp_all add: lists_ok_def)
  from fly_new_ok [OF ok [unfolded fs(1)] fs(2)] obtain g1 where g1: "fly_new g = Some (i, g1)"
    "fly_free_head g1 \<noteq> None" "path (nexts g1) (fly_free_head g1) fs'" "path (nexts g1) (fly_head g1) xs" "rpath (prevs g1) None xs"
    "fly_head g1 = fly_head g" "letter g1 = letter g" "scores g1 = scores g" "erase g1 = erase g" "nexts g1 i = None" "prevs g1 i = None"
    by blast
  obtain g2 where g2: "(case fly_head g1 of None \<Rightarrow> Some g1 | Some old \<Rightarrow> fly_insert None (Some old) i g1) = Some g2"
    "path (nexts g2) (Some i) (i # xs)" "rpath (prevs g2) None (i # xs)" "path (nexts g2) (fly_free_head g1) fs'"
    "fly_free_head g2 = fly_free_head g1" "letter g2 = letter g" "scores g2 = scores g" "erase g2 = erase g"
  proof (cases "fly_head g1")
    case None
    then have "xs = []" using g1(4) by simp
    with None g1 that [of g1] show ?thesis by simp
  next
    case (Some k)
    let ?g2 = "set_prev k (Some i) (set_next i (Some k) (set_prev i None g1))"
    have "path (nexts ?g2) (Some i) (i # xs)" "rpath (prevs ?g2) None (i # xs)"
      using fly.push_back [of g1 k xs i] g1(4,5) d fs(1) unfolding Some by auto
    moreover have "(case fly_head g1 of None \<Rightarrow> Some g1 | Some old \<Rightarrow> fly_insert None (Some old) i g1) = Some ?g2"
      by (simp add: Some fly_insert_def)
    moreover have "path (nexts ?g2) (fly_free_head g1) fs'" using g1(3) d fs(1) by simp
    ultimately show ?thesis using g1(7-9) by (intro that [of ?g2]) simp_all
  qed
  obtain r1 r2 r3 where r: "r = (r1, r2, r3)" by (cases r)
  define g3 where "g3 = upd_fly i (\<lambda>l. l\<lparr>fly_x := 0, fly_y := int r1 mod (SCR_WIDTH div 8 - 2) * 8 + 8,
       fly_v := of_int (int r2 mod 1000 div 2000) + 1 / 2, fly_text := int r3 mod 26\<rparr>) (g2\<lparr>fly_head := Some i\<rparr>)"
  have g3: "nexts g3 = nexts g2" "prevs g3 = prevs g2" "fly_free_head g3 = fly_free_head g1" "fly_head g3 = Some i"
    "scores g3 = scores g" "erase g3 = erase g" "letter g3 = (letter g)(i := new_letter r)" "fly_text (fly_at g3 i) = int r3 mod 26"
    using g2(5-8) by (auto simp: g3_def nexts_def prevs_def upd_fly_def fly_at_def fun_eq_iff letter_def new_letter_def r SCR_WIDTH_def
      slow_letter scores_def erase_def)
  have "create_new_letter r g = Some (g3\<lparr>letter_pressed := (letter_pressed g3)(int r3 mod 26 := False)\<rparr>)" (is "_ = Some ?g4")
  proof -
    have "create_new_letter r g = release_key (fly_text (fly_at g3 i)) g3"
      unfolding g3_def by (simp only: create_new_letter_def r prod.case g1(1) g2(1) Let_def Option.bind_lunit)
    then show ?thesis by (simp add: g3(8) release_key_def)
  qed
  moreover have "lists_ok ?g4 (i # xs) fs'"
    using g1(2) g2(2-4) g3(1-4) d by (auto simp: lists_ok_def free_ok_def fs(1))
  moreover have "map (letter ?g4) (i # xs) = new_letter r # map (letter g) xs" using d by (auto simp: g3(7) fs(1))
  moreover have "hit ?g4 = hit g" "miss ?g4 = miss g" "erase ?g4 = erase g" using g3(5,6) by (simp_all add: scores_def)
  ultimately show ?thesis by (intro exI conjI)
qed

section \<open>The keys\<close>

definition falling :: "letter \<Rightarrow> bool" where "falling l = (case l of (x, y, t, v) \<Rightarrow> v > 0)"
definition key_of :: "letter \<Rightarrow> int" where "key_of l = (case l of (x, y, t, v) \<Rightarrow> t)"

definition struck :: "letter \<Rightarrow> letter" where "struck l = (case l of (x, y, t, v) \<Rightarrow> (x, y, t, - 3))"

definition candidate :: "game \<Rightarrow> nat \<Rightarrow> bool" where
  "candidate g i \<longleftrightarrow> falling (letter g i) \<and> letter_pressed g (key_of (letter g i))"

text \<open>The lowest node of a kind, the first of several.\<close>

fun lowest :: "(nat \<Rightarrow> rat) \<Rightarrow> (nat \<Rightarrow> bool) \<Rightarrow> nat list \<Rightarrow> nat option" where
  "lowest pos ok [] = None"
| "lowest pos ok (i # is) = (case lowest pos ok is of
     None \<Rightarrow> if ok i then Some i else None
   | Some j \<Rightarrow> if ok i \<and> pos j \<le> pos i then Some i else Some j)"

lemma lowest_cong: "(\<And>i. i \<in> set is \<Longrightarrow> ok i = ok' i) \<Longrightarrow> lowest pos ok is = lowest pos ok' is"
  by (induction "is") (auto split: option.splits)

lemma lowest_None: "lowest pos ok is = None \<longleftrightarrow> (\<forall>i \<in> set is. \<not> ok i)"
  by (induction "is") (auto split: option.splits)

lemma lowest_Some: "lowest pos ok is = Some i \<Longrightarrow> i \<in> set is \<and> ok i \<and> (\<forall>j \<in> set is. ok j \<longrightarrow> pos j \<le> pos i)"
proof (induction "is" arbitrary: i)
  case (Cons k ks)
  show ?case
  proof (cases "lowest pos ok ks")
    case None
    then have "\<forall>j \<in> set ks. \<not> ok j" by (simp add: lowest_None)
    then show ?thesis using Cons.prems None by (auto split: if_splits)
  next
    case (Some j)
    from Cons.IH [OF this] show ?thesis using Cons.prems Some by (auto split: if_splits)
  qed
qed simp

lemma lowest_restrict:
  "lowest pos ok is = Some i \<Longrightarrow> ok' i \<Longrightarrow> (\<And>j. ok' j \<Longrightarrow> ok j) \<Longrightarrow> lowest pos ok' is = Some i"
proof (induction "is" arbitrary: i)
  case (Cons k ks)
  show ?case
  proof (cases "lowest pos ok ks")
    case None
    then have "lowest pos ok' ks = None" using Cons.prems(3) by (auto simp: lowest_None)
    then show ?thesis using Cons.prems None by (auto split: if_splits)
  next
    case (Some j)
    show ?thesis
    proof (cases "ok k \<and> pos j \<le> pos k")
      case True
      then have "i = k" using Cons.prems(1) Some by simp
      moreover have "pos j' \<le> pos k" if "lowest pos ok' ks = Some j'" for j'
        using lowest_Some [OF that] lowest_Some [OF Some] True Cons.prems(3) order_trans by blast
      ultimately show ?thesis using Cons.prems(2) by (auto split: option.splits)
    next
      case False
      then have "i = j" using Cons.prems(1) Some by auto
      then show ?thesis using Cons.IH [OF Some] Cons.prems(2,3) False by auto
    qed
  qed
qed simp

lemma lowest_above:
  assumes "low \<le> low'"
  shows "lowest pos (\<lambda>j. ok j \<and> low' < pos j) is =
    (case lowest pos (\<lambda>j. ok j \<and> low < pos j) is of None \<Rightarrow> None | Some j \<Rightarrow> if low' < pos j then Some j else None)"
proof (cases "lowest pos (\<lambda>j. ok j \<and> low < pos j) is")
  case None
  then have "lowest pos (\<lambda>j. ok j \<and> low' < pos j) is = None"
    using assms unfolding lowest_None by (meson le_less_trans)
  with None show ?thesis by simp
next
  case (Some j)
  show ?thesis
  proof (cases "low' < pos j")
    case True
    then show ?thesis
      using lowest_restrict [OF Some, of "\<lambda>j. ok j \<and> low' < pos j"] lowest_Some [OF Some] assms by (auto simp: Some)
  next
    case False
    have "lowest pos (\<lambda>j. ok j \<and> low' < pos j) is = None"
      using lowest_Some [OF Some] False assms by (force simp: lowest_None)
    then show ?thesis using False by (simp add: Some)
  qed
qed

lemma find_target_ok:
  assumes "path (nexts g) it is" "\<forall>i \<in> set is. 0 \<le> key_of (letter g i) \<and> key_of (letter g i) < 26"
  shows "find_target it low found g =
    Some (case lowest (\<lambda>i. fst (letter g i)) (\<lambda>i. candidate g i \<and> low < fst (letter g i)) is of None \<Rightarrow> found | Some i \<Rightarrow> Some i)"
  using assms
proof (induction "is" arbitrary: it low found)
  case Nil
  then show ?case by (subst find_target.simps) simp
next
  case (Cons i "is")
  have it: "it = Some i" "path (nexts g) (next_ptr (fly_at g i)) is" and t: "0 \<le> fly_text (fly_at g i)" "fly_text (fly_at g i) < 26"
    using Cons.prems nexts_def [of g i] by (simp_all add: letter_def key_of_def)
  note IH = Cons.IH [OF it(2)]
  let ?pos = "\<lambda>i. fst (letter g i)"
  have x: "fly_x (fly_at g i) = ?pos i" by (simp add: letter_def)
  have c: "fly_v (fly_at g i) > 0 \<and> letter_pressed g (fly_text (fly_at g i)) \<longleftrightarrow> candidate g i"
    by (simp add: candidate_def falling_def key_of_def letter_def)
  show ?case
  proof (cases "candidate g i \<and> low < ?pos i")
    case True
    then have "find_target it low found g = find_target (next_ptr (fly_at g i)) (?pos i) (Some i) g"
      using t c x unfolding it(1) by (subst find_target.simps) (simp add: query_key_def Let_def)
    also have "\<dots> = Some (case lowest ?pos (\<lambda>j. candidate g j \<and> ?pos i < ?pos j) is of None \<Rightarrow> Some i | Some k \<Rightarrow> Some k)"
      using Cons.prems(2) by (intro IH) simp
    also have "lowest ?pos (\<lambda>j. candidate g j \<and> ?pos i < ?pos j) is =
       (case lowest ?pos (\<lambda>j. candidate g j \<and> low < ?pos j) is of None \<Rightarrow> None | Some j \<Rightarrow> if ?pos i < ?pos j then Some j else None)"
      using True by (intro lowest_above) simp
    finally show ?thesis using True by (auto split: option.splits)
  next
    case False
    then have "find_target it low found g = find_target (next_ptr (fly_at g i)) low found g"
      using t c x unfolding it(1) by (subst find_target.simps) (auto simp: query_key_def Let_def)
    also have "\<dots> = Some (case lowest ?pos (\<lambda>j. candidate g j \<and> low < ?pos j) is of None \<Rightarrow> found | Some k \<Rightarrow> Some k)"
      using Cons.prems(2) by (intro IH) simp
    finally show ?thesis using False by (auto split: option.splits)
  qed
qed

text \<open>One call, and the whole loop.\<close>

definition strike :: "nat \<Rightarrow> game \<Rightarrow> game" where
  "strike i g = upd_fly i (\<lambda>l. l\<lparr>fly_v := - 3\<rparr>) (g\<lparr>letter_pressed := (letter_pressed g)(key_of (letter g i) := False)\<rparr>)"

lemma strike [simp]:
  "nexts (strike i g) = nexts g" "prevs (strike i g) = prevs g" "fly_head (strike i g) = fly_head g"
  "fly_free_head (strike i g) = fly_free_head g" "letter (strike i g) = (letter g)(i := struck (letter g i))"
  "erase (strike i g) = erase g" "hit (strike i g) = hit g" "miss (strike i g) = miss g"
  "letter_pressed (strike i g) = (letter_pressed g)(key_of (letter g i) := False)"
  by (auto simp: strike_def nexts_def prevs_def letter_def struck_def fly_at_def upd_fly_def erase_def fun_eq_iff)

lemma candidate_strike:
  "candidate (strike i g) j \<longleftrightarrow> candidate g j \<and> key_of (letter g j) \<noteq> key_of (letter g i)"
  by (cases "letter g i") (auto simp: candidate_def falling_def struck_def key_of_def split: prod.splits)

definition keys_ok :: "game \<Rightarrow> nat list \<Rightarrow> bool" where
  "keys_ok g xs \<longleftrightarrow> path (nexts g) (fly_head g) xs \<and>
     (\<forall>i \<in> set xs. 0 \<le> key_of (letter g i) \<and> key_of (letter g i) < 26 \<and> - 100 < fst (letter g i))"

lemma keys_ok_strike: "keys_ok g xs \<Longrightarrow> keys_ok (strike i g) xs"
  by (cases "letter g i") (auto simp: keys_ok_def struck_def key_of_def)

lemma intr_on_vars [simp]:
  "nexts (g\<lparr>intr_on := b\<rparr>) = nexts g" "prevs (g\<lparr>intr_on := b\<rparr>) = prevs g" "letter (g\<lparr>intr_on := b\<rparr>) = letter g"
  "candidate (g\<lparr>intr_on := b\<rparr>) = candidate g"
  by (simp_all add: nexts_def prevs_def letter_def candidate_def fly_at_def fun_eq_iff)

lemma keys_ok_cli: "keys_ok (g\<lparr>intr_on := b\<rparr>) xs = keys_ok g xs"
  by (simp add: keys_ok_def)

definition lowest_candidate :: "game \<Rightarrow> nat list \<Rightarrow> nat option" where
  "lowest_candidate g xs = lowest (\<lambda>i. fst (letter g i)) (candidate g) xs"

lemma update_keypress_ok:
  assumes "keys_ok g xs"
  shows "update_keypress g = Some (case lowest_candidate g xs of
    None \<Rightarrow> (False, g\<lparr>intr_on := True\<rparr>) | Some i \<Rightarrow> (True, strike i (g\<lparr>intr_on := False\<rparr>)))"
proof -
  let ?g = "g\<lparr>intr_on := False\<rparr>"
  have same: "fly_at ?g = fly_at g" by (simp add: fun_eq_iff fly_at_def)
  have "keys_ok ?g xs" using assms by (simp add: keys_ok_cli)
  then have "find_target (fly_head g) (- 100) None ?g =
    Some (lowest (\<lambda>i. fst (letter g i)) (\<lambda>i. candidate g i \<and> - 100 < fst (letter g i)) xs)"
    using find_target_ok [of ?g "fly_head g" xs "- 100" None] by (auto simp: keys_ok_def same split: option.splits)
  also have "lowest (\<lambda>i. fst (letter g i)) (\<lambda>i. candidate g i \<and> - 100 < fst (letter g i)) xs = lowest_candidate g xs"
    unfolding lowest_candidate_def using assms by (intro lowest_cong) (auto simp: keys_ok_def)
  finally have find: "find_target (fly_head g) (- 100) None ?g = Some (lowest_candidate g xs)" .
  have "0 \<le> key_of (letter g i) \<and> key_of (letter g i) < 26" if "lowest_candidate g xs = Some i" for i
    using lowest_Some [OF that [unfolded lowest_candidate_def]] assms by (simp add: keys_ok_def)
  moreover have "fly_text (fly_at g i) = key_of (letter g i)" for i by (simp add: key_of_def letter_def)
  ultimately show ?thesis
    using find by (simp add: update_keypress_def game_cli_def game_sti_def Let_def release_key_def same strike_def split: option.splits)
qed

text \<open>The letters that the loop hits.\<close>

definition is_target :: "game \<Rightarrow> nat list \<Rightarrow> nat \<Rightarrow> bool" where
  "is_target g xs j \<longleftrightarrow>
     lowest (\<lambda>i. fst (letter g i)) (\<lambda>i. candidate g i \<and> key_of (letter g i) = key_of (letter g j)) xs = Some j"

lemma is_target_candidate: "is_target g xs j \<Longrightarrow> j \<in> set xs \<and> candidate g j"
  by (auto simp: is_target_def dest: lowest_Some)

lemma key_of_struck [simp]: "key_of (struck l) = key_of l" "fst (struck l) = fst l" "\<not> falling (struck l)"
  by (cases l; simp add: key_of_def struck_def falling_def)+

lemma is_target_strike:
  assumes i: "lowest_candidate g xs = Some i" and j: "j \<in> set xs"
  shows "is_target g xs j \<longleftrightarrow> j = i \<or> is_target (strike i g) xs j" "\<not> is_target (strike i g) xs i"
proof -
  have pos: "(\<lambda>k. fst (letter (strike i g) k)) = (\<lambda>k. fst (letter g k))" by (auto simp: fun_eq_iff)
  have key: "key_of (letter (strike i g) k) = key_of (letter g k)" for k by simp
  have same_key: "\<not> is_target (strike i g) xs j" if "key_of (letter g j) = key_of (letter g i)" for j
    using that is_target_candidate [of "strike i g" xs j] by (auto simp: candidate_strike)
  then show "\<not> is_target (strike i g) xs i" by simp
  show "is_target g xs j \<longleftrightarrow> j = i \<or> is_target (strike i g) xs j"
  proof (cases "key_of (letter g j) = key_of (letter g i)")
    case True
    have "lowest (\<lambda>k. fst (letter g k)) (\<lambda>k. candidate g k \<and> key_of (letter g k) = key_of (letter g i)) xs = Some i"
      using i lowest_Some [of _ "candidate g" xs i] unfolding lowest_candidate_def by (intro lowest_restrict [OF i [unfolded lowest_candidate_def]]) auto
    then show ?thesis using same_key [OF True] by (auto simp: is_target_def True)
  next
    case False
    then have "lowest (\<lambda>k. fst (letter g k)) (\<lambda>k. candidate (strike i g) k \<and> key_of (letter g k) = key_of (letter g j)) xs =
        lowest (\<lambda>k. fst (letter g k)) (\<lambda>k. candidate g k \<and> key_of (letter g k) = key_of (letter g j)) xs"
      by (intro lowest_cong) (auto simp: candidate_strike)
    then show ?thesis using False unfolding is_target_def pos key by auto
  qed
qed

definition same_links :: "game \<Rightarrow> game \<Rightarrow> bool" where
  "same_links g g' \<longleftrightarrow> nexts g' = nexts g \<and> prevs g' = prevs g \<and> fly_head g' = fly_head g \<and>
     fly_free_head g' = fly_free_head g \<and> hit g' = hit g \<and> miss g' = miss g \<and> erase g' = (erase g)\<lparr>intr_on := True\<rparr>"

lemma same_links_strike: "same_links (strike i (g\<lparr>intr_on := b\<rparr>)) g' \<Longrightarrow> same_links g g'"
  by (simp add: same_links_def) (simp add: erase_def)

lemma keypress_loop_ok:
  assumes "keys_ok g xs"
  shows "\<exists>g'. keypress_loop g = Some g' \<and> same_links g g' \<and> intr_on g' \<and>
    (\<forall>j \<in> set xs. letter g' j = (if is_target g xs j then struck (letter g j) else letter g j)) \<and>
    (\<forall>k. letter_pressed g' k \<longleftrightarrow> letter_pressed g k \<and> (\<forall>j \<in> set xs. falling (letter g j) \<longrightarrow> key_of (letter g j) \<noteq> k))"
  using assms
proof (induction "card {key_of (letter g j) |j. j \<in> set xs \<and> candidate g j}" arbitrary: g rule: less_induct)
  case less
  show ?case
  proof (cases "lowest_candidate g xs")
    case None
    then have none: "\<not> candidate g j" if "j \<in> set xs" for j using that by (simp add: lowest_candidate_def lowest_None)
    let ?g = "g\<lparr>intr_on := True\<rparr>"
    have "keypress_loop g = Some ?g" by (subst keypress_loop.simps) (simp add: update_keypress_ok [OF less.prems] None)
    moreover have "same_links g ?g" by (simp add: same_links_def) (simp add: erase_def)
    moreover have "\<not> is_target g xs j" for j using is_target_candidate none by blast
    moreover have "\<not> letter_pressed g (key_of (letter g j))" if "j \<in> set xs" "falling (letter g j)" for j
      using none [OF that(1)] that(2) by (simp add: candidate_def)
    ultimately show ?thesis by (intro exI [of _ ?g]) auto
  next
    case (Some i)
    let ?h = "g\<lparr>intr_on := False\<rparr>"
    let ?g = "strike i ?h"
    from lowest_Some [OF Some [unfolded lowest_candidate_def]] have i: "i \<in> set xs" "candidate g i" by simp_all
    have loop: "keypress_loop g = keypress_loop ?g"
      by (subst keypress_loop.simps) (simp add: update_keypress_ok [OF less.prems] Some)
    have ok: "keys_ok ?g xs" using less.prems by (simp add: keys_ok_strike keys_ok_cli)
    let ?K = "\<lambda>g. {key_of (letter g j) |j. j \<in> set xs \<and> candidate g j}"
    have "?K ?g \<subseteq> ?K g - {key_of (letter g i)}" by (auto simp: candidate_strike split: if_splits)
    moreover have "key_of (letter g i) \<in> ?K g" using i by blast
    moreover have "finite (?K g)" by simp
    ultimately have "card (?K ?g) < card (?K g)" by (intro psubset_card_mono) blast+
    from less.hyps [OF this ok] obtain g' where g': "keypress_loop ?g = Some g'" "same_links ?g g'" "intr_on g'"
      "\<forall>j \<in> set xs. letter g' j = (if is_target ?g xs j then struck (letter ?g j) else letter ?g j)"
      "\<forall>k. letter_pressed g' k \<longleftrightarrow> letter_pressed ?g k \<and> (\<forall>j \<in> set xs. falling (letter ?g j) \<longrightarrow> key_of (letter ?g j) \<noteq> k)" by blast
    have "is_target ?h xs j = is_target g xs j" "lowest_candidate ?h xs = Some i" for j
      using Some by (simp_all add: is_target_def lowest_candidate_def)
    then have t: "is_target g xs j \<longleftrightarrow> j = i \<or> is_target ?g xs j" "\<not> is_target ?g xs i" if "j \<in> set xs" for j
      using is_target_strike [of ?h xs i j] that by simp_all
    have "letter g' j = (if is_target g xs j then struck (letter g j) else letter g j)" if "j \<in> set xs" for j
      using g'(4) t [OF that] that by auto
    moreover have "letter_pressed g' k \<longleftrightarrow> letter_pressed g k \<and> (\<forall>j \<in> set xs. falling (letter g j) \<longrightarrow> key_of (letter g j) \<noteq> k)" for k
      using g'(5) i by (auto simp: candidate_def split: if_splits)
    ultimately show ?thesis using g'(1,3) same_links_strike [OF g'(2)] by (intro exI [of _ g']) (simp add: loop)
  qed
qed

end
