(* ===== verification/Game_Screen_Correct.thy ===== *)
theory Game_Screen_Correct
  imports Game_Correct
begin

text \<open>
  Drawing stays inside the buffer: an operation that draws is one that never fails and changes only the buffer, and such
  operations compose.
\<close>

definition drawn :: "game \<Rightarrow> game \<Rightarrow> bool" where "drawn g g' \<longleftrightarrow> (\<exists>v. g' = g\<lparr>vbuf := v\<rparr>)"

lemma drawn_refl: "drawn g g"
  unfolding drawn_def by (rule exI [of _ "vbuf g"]) simp

lemma drawn_trans: "drawn g g' \<Longrightarrow> drawn g' g'' \<Longrightarrow> drawn g g''"
  by (auto simp: drawn_def)

text \<open>An operation that only draws, and never fails.\<close>

definition draws :: "(game \<Rightarrow> game option) \<Rightarrow> bool" where
  "draws f \<longleftrightarrow> (\<forall>g. \<exists>g'. f g = Some g' \<and> drawn g g')"

lemma draws_Some: "draws Some"
  by (simp add: draws_def drawn_refl)

lemma draws_bind:
  assumes "draws f" "draws h"
  shows "draws (\<lambda>g. f g \<bind> h)"
  unfolding draws_def
proof
  fix g
  obtain g1 where g1: "f g = Some g1" "drawn g g1" using assms(1) unfolding draws_def by blast
  obtain g2 where "h g1 = Some g2" "drawn g1 g2" using assms(2) unfolding draws_def by blast
  then show "\<exists>g'. f g \<bind> h = Some g' \<and> drawn g g'" using g1 drawn_trans [of g g1 g2] by simp
qed

lemma draws_foldM: "(\<And>x. x \<in> set xs \<Longrightarrow> draws (f x)) \<Longrightarrow> draws (foldM f xs)"
proof (induction xs)
  case Nil
  have "foldM f [] = Some" by (rule ext) simp
  then show ?case by (simp only: draws_Some)
next
  case (Cons x xs)
  have "foldM f (x # xs) = (\<lambda>g. f x g \<bind> foldM f xs)" by (rule ext) simp
  moreover have "draws (f x)" "draws (foldM f xs)" using Cons by simp_all
  ultimately show ?case using draws_bind by (simp only:)
qed

lemma game_draw_pixel_draws:
  assumes "0 \<le> x" "x < 200" "0 \<le> y" "y < 320"
  shows "draws (game_draw_pixel x y color)"
proof -
  have "push_bit 8 x + push_bit 6 x + y = 320 * x + y" by (simp add: push_bit_eq_mult)
  then show ?thesis
    using assms by (auto simp: draws_def game_draw_pixel_def GAME_SCR_SIZE_def SCR_WIDTH_def SCR_HEIGHT_def drawn_def)
qed

lemma draw_character_draws:
  assumes "of_char c < (128 :: nat)" "0 \<le> x" "x \<le> 192" "0 \<le> y" "y \<le> 312"
  shows "draws (draw_character c x y color)"
proof -
  have "draws (\<lambda>g. if b then game_draw_pixel (x + int i) (y + int j) color g else Some g)" if "i < 8" "j < 8" for b i j
    using game_draw_pixel_draws [of "x + int i" "y + int j" color] assms that by (cases b) (auto simp: draws_def intro: drawn_refl)
  then have "draws (\<lambda>g. foldM (\<lambda>i. foldM (\<lambda>j g. if bit (p i) j then game_draw_pixel (x + int i) (y + int j) color g else Some g) [0..<8]) [0..<8] g)" for p :: "nat \<Rightarrow> u8"
    by (intro draws_foldM) auto
  then show ?thesis using assms(1) by (simp add: draw_character_def draws_def Let_def)
qed

lemma draw_string_draws:
  "\<forall>c \<in> set str. of_char c < (128 :: nat) \<Longrightarrow> 0 \<le> x \<Longrightarrow> x \<le> 192 \<Longrightarrow> 0 \<le> y \<Longrightarrow> y + 8 * int (length str) \<le> 320 \<Longrightarrow>
   draws (draw_string str x y color)"
proof (induction str arbitrary: x y)
  case (Cons c str)
  have c: "draws (draw_character c x y color)" using Cons.prems by (intro draw_character_draws) auto
  have s: "draws (draw_string str x (y + 8) color)" using Cons.prems by (intro Cons.IH) auto
  have "draws (\<lambda>g. if y + 8 \<ge> SCR_WIDTH then draw_string str (x + 8) 0 color g else draw_string str x (y + 8) color g)"
  proof (cases "y + 8 \<ge> SCR_WIDTH")
    case True
    then have "312 \<le> y" by (simp add: SCR_WIDTH_def)
    with Cons.prems(5) have "int (length (c # str)) \<le> 1" by linarith
    then have "str = []" by simp
    then show ?thesis by (auto simp: draws_def intro: drawn_refl)
  qed (use s in simp)
  moreover have "draw_string (c # str) x y color = (\<lambda>g. draw_character c x y color g \<bind>
      (\<lambda>g. if y + 8 \<ge> SCR_WIDTH then draw_string str (x + 8) 0 color g else draw_string str x (y + 8) color g))"
    by (rule ext) (rule draw_string.simps(2))
  ultimately show ?case using draws_bind [OF c] by simp
qed (auto simp: draws_def intro: drawn_refl)

lemma decimal_length: "n < 10 ^ k \<Longrightarrow> 0 < k \<Longrightarrow> length (decimal n) \<le> k"
proof (induction k arbitrary: n)
  case (Suc k)
  show ?case
  proof (cases "n < 10")
    case False
    then have "k \<noteq> 0" using Suc.prems by (cases k) auto
    moreover have "n div 10 < 10 ^ k" using Suc.prems by (simp add: less_mult_imp_div_less mult.commute)
    ultimately have "length (decimal (n div 10)) \<le> k" using Suc.IH by simp
    then show ?thesis using False by (subst decimal.simps) simp
  qed (subst decimal.simps, simp)
qed simp

lemma decimal_ascii: "c \<in> set (decimal n) \<Longrightarrow> of_char c < (128 :: nat)"
proof (induction n rule: decimal.induct)
  case (1 n)
  have d: "of_char (digit m) < (128 :: nat)" if "m < 10" for m using that by (simp add: digit_def)
  show ?case using 1 d by (cases "n < 10") (auto simp: decimal.simps [of n])
qed

lemma itoa_ok:
  assumes "\<bar>a\<bar> \<le> 2 ^ 31"
  shows "length (itoa a) \<le> 11" "\<forall>c \<in> set (itoa a). of_char c < (128 :: nat)"
proof -
  have "length (decimal (nat \<bar>a\<bar>)) \<le> 10" using assms by (intro decimal_length) auto
  then show "length (itoa a) \<le> 11" by (auto simp: itoa_def)
  show "\<forall>c \<in> set (itoa a). of_char c < (128 :: nat)" using decimal_ascii by (auto simp: itoa_def)
qed

lemma drawn_vars [simp]:
  "nexts (g\<lparr>vbuf := v\<rparr>) = nexts g" "letter (g\<lparr>vbuf := v\<rparr>) = letter g" "fly_at (g\<lparr>vbuf := v\<rparr>) = fly_at g"
  by (simp_all add: nexts_def letter_def fly_at_def fun_eq_iff)

text \<open>A letter at a place where it is drawn.\<close>

definition on_screen :: "letter \<Rightarrow> bool" where
  "on_screen l = (case l of (x, y, t, v) \<Rightarrow> \<not> off_screen x \<and> 8 \<le> y \<and> y \<le> 304 \<and> 0 \<le> t \<and> t < 26)"

lemma draw_letters_draws:
  "path (nexts g) it xs \<Longrightarrow> \<forall>i \<in> set xs. on_screen (letter g i) \<Longrightarrow> \<exists>g'. draw_letters it g = Some g' \<and> drawn g g'"
proof (induction xs arbitrary: it g)
  case Nil
  then show ?case by (subst draw_letters.simps) (simp add: drawn_refl)
next
  case (Cons i xs)
  let ?l = "fly_at g i"
  let ?x = "if fly_x ?l < 0 then \<lceil>fly_x ?l\<rceil> else \<lfloor>fly_x ?l\<rfloor>"
  have l: "\<not> off_screen (fly_x ?l)" "8 \<le> fly_y ?l" "fly_y ?l \<le> 304" "0 \<le> fly_text ?l" "fly_text ?l < 26"
    using Cons.prems(2) by (simp_all add: on_screen_def letter_def)
  then have x: "0 \<le> ?x" "?x \<le> 192" by (simp_all add: off_screen_def SCR_HEIGHT_def)
  have "of_char (char_of (nat (fly_text ?l + 65)) :: char) < (128 :: nat)" using l(4,5) by simp
  then have "draws (draw_string [char_of (nat (fly_text ?l + 65))] ?x (fly_y ?l) 15)"
    using x l(2,3) by (intro draw_string_draws) simp_all
  then obtain g1 where g1: "draw_string [char_of (nat (fly_text ?l + 65))] ?x (fly_y ?l) 15 g = Some g1" "drawn g g1"
    unfolding draws_def by blast
  then obtain v where v: "g1 = g\<lparr>vbuf := v\<rparr>" by (auto simp: drawn_def)
  have "path (nexts g1) (next_ptr ?l) xs" "\<forall>i \<in> set xs. on_screen (letter g1 i)"
    using Cons.prems nexts_def [of g i] by (simp_all add: v)
  from Cons.IH [OF this] obtain g2 where g2: "draw_letters (next_ptr ?l) g1 = Some g2" "drawn g1 g2" by blast
  have "it = Some i" using Cons.prems(1) by simp
  then have "draw_letters it g = Some g2"
    using g1(1) g2(1) by (subst draw_letters.simps) (simp only: option.case Let_def Option.bind_lunit v drawn_vars)
  then show ?case using drawn_trans [OF g1(2) g2(2)] by blast
qed

lemma redraw_screen_ok:
  assumes "path (nexts g) (fly_head g) xs" "\<forall>i \<in> set xs. on_screen (letter g i)" "0 \<le> key_code g" "key_code g < 256"
  shows "\<exists>v w. redraw_screen g = Some (g\<lparr>vbuf := v, screen := w\<rparr>)"
proof -
  let ?g0 = "prepare_buffer g"
  have g0: "nexts ?g0 = nexts g" "letter ?g0 = letter g" "fly_head ?g0 = fly_head g" "drawn g ?g0"
    by (simp_all add: prepare_buffer_def drawn_def) blast
  obtain g1 where g1: "draw_letters (fly_head ?g0) ?g0 = Some g1" "drawn g g1"
    using draw_letters_draws [of ?g0 "fly_head g" xs] assms(1,2) drawn_trans [OF g0(4)] unfolding g0 by blast
  have fields: "key_code g' = key_code g" "hit g' = hit g" "miss g' = miss g" "real_fps g' = real_fps g" if "drawn g g'" for g'
    using that by (auto simp: drawn_def)
  have num: "draws (draw_string (itoa a) x y c)" if "\<bar>a\<bar> \<le> 2 ^ 31" "x = 0 \<or> x = 192" "0 \<le> y" "y + 8 * int (length (itoa a)) \<le> 320" for a x y c
    using that itoa_ok [OF that(1)] by (intro draw_string_draws) auto
  have s: "\<bar>sint w\<bar> \<le> 2 ^ 31" for w :: u32 using sint_ge [of w] sint_lt [of w] by simp
  have len: "8 * int (length (itoa a)) \<le> 88" if "\<bar>a\<bar> \<le> 2 ^ 31" for a using itoa_ok(1) [OF that] by simp
  have step: "\<exists>g''. f g' = Some g'' \<and> drawn g g''" if "draws f" "drawn g g'" for f g'
    using that drawn_trans unfolding draws_def by blast
  have code: "\<bar>key_code g\<bar> \<le> 2 ^ 31" using assms(3,4) by simp
  obtain g2 where g2: "draw_string (itoa (key_code g)) 192 0 48 g1 = Some g2" "drawn g g2"
    using step [OF num [OF code, of 192 0 48] g1(2)] len [OF code] by auto
  obtain g3 where g3: "draw_string (itoa (sint (hit g))) 0 (320 - int (length (itoa (sint (hit g)))) * 8) 10 g2 = Some g3" "drawn g g3"
    using step [OF num [OF s [of "hit g"], of 0 "320 - int (length (itoa (sint (hit g)))) * 8" 10] g2(2)] len [OF s [of "hit g"]] by auto
  obtain g4 where g4: "draw_string (itoa (sint (miss g))) 192 (320 - int (length (itoa (sint (miss g)))) * 8) 12 g3 = Some g4" "drawn g g4"
    using step [OF num [OF s [of "miss g"], of 192 "320 - int (length (itoa (sint (miss g)))) * 8" 12] g3(2)] len [OF s [of "miss g"]] by auto
  obtain g5 where g5: "draw_string (itoa (sint (real_fps g))) 0 0 14 g4 = Some g5" "drawn g g5"
    using step [OF num [OF s [of "real_fps g"], of 0 0 14] g4(2)] len [OF s [of "real_fps g"]] by auto
  have "draws (draw_string ''FPS'' 0 (int (length (itoa (sint (real_fps g)))) * 8) 14)"
    using len [OF s [of "real_fps g"]] by (intro draw_string_draws) auto
  from step [OF this g5(2)] obtain g6 where g6: "draw_string ''FPS'' 0 (int (length (itoa (sint (real_fps g)))) * 8) 14 g5 = Some g6" "drawn g g6"
    by blast
  have "redraw_screen g = Some (display_buffer g6)"
    unfolding redraw_screen_def Let_def last_key_code_def get_hit_def get_miss_def get_fps_def SCR_HEIGHT_def SCR_WIDTH_def
    by (simp add: g1(1) g2(1) g3(1) g4(1) g5(1) g6(1) fields [OF g1(2)] fields [OF g2(2)] fields [OF g3(2)] fields [OF g4(2)] fields [OF g5(2)] del: draw_string.simps)
  moreover obtain v where "g6 = g\<lparr>vbuf := v\<rparr>" using g6(2) by (auto simp: drawn_def)
  ultimately show ?thesis by (simp add: display_buffer_def) blast
qed

end
