(* ===== verification/Game_Invariant.thy ===== *)
theory Game_Invariant
  imports Game_Screen_Correct
begin

text \<open>
  The invariant of all runs of the typing game. A letter stays on the screen for at most 448 ticks and a new one comes
  every 33, so there are never more than 14; the pool of nodes never runs out, every letter is drawn inside the buffer
  and no assertion fails, as long as the clock does not overflow.
\<close>

section \<open>The life of a letter\<close>

text \<open>
  A letter \<open>u\<close> ticks after its creation: it fell for \<open>h\<close> ticks by one half and, once it was hit, rose for \<open>k\<close> by 3.
  All positions are multiples of one half below 193.
\<close>

definition alive :: "nat \<Rightarrow> letter \<Rightarrow> bool" where
  "alive u l \<longleftrightarrow> (case l of (x, y, t, v) \<Rightarrow>
     (\<exists>h k. u = h + k \<and> h \<le> 384 \<and> x = of_nat h / 2 - 3 * of_nat k \<and> 0 \<le> x \<and> (v = 1 / 2 \<and> k = 0 \<or> v = - 3)) \<and>
     8 \<le> y \<and> y \<le> 304 \<and> 0 \<le> t \<and> t < 26)"

lemma alive_on_screen: "alive u l \<Longrightarrow> on_screen l"
proof (cases l)
  case (fields x y t v)
  assume "alive u l"
  then obtain h k where h: "h \<le> 384" "x = of_nat h / 2 - 3 * of_nat k" "0 \<le> x" "8 \<le> y" "y \<le> 304" "0 \<le> t" "t < 26"
    by (auto simp: alive_def fields)
  have "(of_nat h :: rat) \<le> 384" using h(1) by (metis of_nat_le_iff of_nat_numeral)
  then have "x \<le> 192" using h(2) by simp
  then show ?thesis using h by (simp add: fields on_screen_def off_screen_def SCR_HEIGHT_def)
qed

lemma alive_bound: "alive u l \<Longrightarrow> u \<le> 448"
proof (cases l)
  case (fields x y t v)
  assume "alive u l"
  then obtain h k where h: "u = h + k" "h \<le> 384" "x = of_nat h / 2 - 3 * of_nat k" "0 \<le> x" by (auto simp: alive_def fields)
  then have "(of_nat (6 * k) :: rat) \<le> of_nat h" by simp
  then have "6 * k \<le> h" by (simp only: of_nat_le_iff)
  then show ?thesis using h by simp
qed

lemma alive_new: "alive 0 (new_letter r)"
proof (cases r)
  case (fields r1 r2 r3)
  have "int r1 mod 38 \<le> 37" "0 \<le> int r1 mod 38" using pos_mod_bound [of 38 "int r1"] by simp_all
  then show ?thesis by (auto simp: alive_def new_letter_def fields)
qed

lemma alive_struck: "alive u l \<Longrightarrow> alive u (struck l)"
  by (cases l) (auto simp: alive_def struck_def)

lemma alive_fall:
  assumes "alive u l" "\<not> gone (fall l)"
  shows "alive (Suc u) (fall l)"
proof (cases l)
  case (fields x y t v)
  obtain h k where h: "u = h + k" "h \<le> 384" "x = of_nat h / 2 - 3 * of_nat k" "0 \<le> x" "v = 1 / 2 \<and> k = 0 \<or> v = - 3"
    and y: "8 \<le> y" "y \<le> 304" "0 \<le> t" "t < 26" using assms(1) by (auto simp: alive_def fields)
  have g: "0 \<le> x + v" "x + v \<le> 1921 / 10"
    using assms(2) by (simp_all add: gone_def fall_def fields off_screen_def SCR_HEIGHT_def)
  have "\<exists>h' k'. Suc u = h' + k' \<and> h' \<le> 384 \<and> x + v = of_nat h' / 2 - 3 * of_nat k' \<and> (v = 1 / 2 \<and> k' = 0 \<or> v = - 3)"
    using h(5)
  proof
    assume v: "v = 1 / 2 \<and> k = 0"
    then have "(of_nat (Suc h) :: rat) \<le> 3842 / 10" using g(2) h(3) by simp
    then have "(of_nat (Suc h) :: rat) < of_nat 385" by simp
    then have "Suc h \<le> 384" by (simp only: of_nat_less_iff)
    then show ?thesis using v h by (intro exI [of _ "Suc h"] exI [of _ 0]) (simp add: add_divide_distrib)
  next
    assume "v = - 3"
    then show ?thesis using h by (intro exI [of _ h] exI [of _ "Suc k"]) (simp add: algebra_simps)
  qed
  then show ?thesis using g(1) y by (auto simp: alive_def fall_def fields)
qed

section \<open>The letters and their birthdays\<close>

text \<open>The letters at a tick, with the numbers of their births: letter \<open>q\<close> is created at tick \<open>33 q\<close>, before tick \<open>n\<close>.\<close>

definition born :: "nat \<Rightarrow> letter list \<Rightarrow> nat list \<Rightarrow> bool" where
  "born n ls qs \<longleftrightarrow> distinct qs \<and> list_all2 (\<lambda>l q. 33 * q < n \<and> alive (n - 33 * q) l) ls qs"

text \<open>The same between the creation and the movement of a tick.\<close>

definition newborn :: "nat \<Rightarrow> letter list \<Rightarrow> nat list \<Rightarrow> bool" where
  "newborn n ls qs \<longleftrightarrow> distinct qs \<and> list_all2 (\<lambda>l q. 33 * q \<le> n \<and> alive (n - 33 * q) l) ls qs"

lemma born_each:
  assumes "born n ls qs" "q \<in> set qs"
  shows "33 * q < n" "n \<le> 33 * q + 448"
proof -
  obtain i where i: "i < length qs" "q = qs ! i" using assms(2) by (auto simp: in_set_conv_nth)
  moreover have "list_all2 (\<lambda>l q. 33 * q < n \<and> alive (n - 33 * q) l) ls qs" using assms(1) by (simp add: born_def)
  ultimately have "33 * q < n" "alive (n - 33 * q) (ls ! i)" by (auto dest: list_all2_nthD2)
  then show "33 * q < n" "n \<le> 33 * q + 448" using alive_bound [of "n - 33 * q" "ls ! i"] by auto
qed

lemma born_few:
  assumes "born n ls qs"
  shows "length ls \<le> 14"
proof -
  let ?m = "(n - 1) div 33"
  have "?m - 13 \<le> q \<and> q \<le> ?m" if "q \<in> set qs" for q using born_each [OF assms that] by linarith
  then have "card (set qs) \<le> card {?m - 13..?m}" by (intro card_mono) auto
  also have "\<dots> \<le> 14" by simp
  finally show ?thesis using assms by (auto simp: born_def distinct_card dest: list_all2_lengthD)
qed

lemma born_create:
  assumes "born n ls qs" "n = 33 * q"
  shows "newborn n (new_letter r # ls) (q # qs)"
proof -
  have "q \<notin> set qs" using born_each(1) [OF assms(1), of q] assms(2) by auto
  moreover have "list_all2 (\<lambda>l q. 33 * q \<le> n \<and> alive (n - 33 * q) l) ls qs"
    using assms(1) unfolding born_def by (auto elim!: list_all2_mono)
  ultimately show ?thesis using assms alive_new [of r] by (simp add: born_def newborn_def)
qed

lemma born_newborn: "born n ls qs \<Longrightarrow> newborn n ls qs"
  unfolding born_def newborn_def by (auto elim!: list_all2_mono)

lemma list_all2_move:
  "list_all2 P ls qs \<Longrightarrow> (\<And>l q. P l q \<Longrightarrow> R (f l) \<Longrightarrow> Q (f l) q) \<Longrightarrow> distinct qs \<Longrightarrow>
   \<exists>qs'. list_all2 Q (filter R (map f ls)) qs' \<and> distinct qs' \<and> set qs' \<subseteq> set qs"
proof (induction ls qs rule: list_all2_induct)
  case (Cons l ls q qs)
  then obtain qs' where qs': "list_all2 Q (filter R (map f ls)) qs'" "distinct qs'" "set qs' \<subseteq> set qs" by auto
  show ?case
  proof (cases "R (f l)")
    case True
    then show ?thesis using qs' Cons.hyps(1) Cons.prems by (intro exI [of _ "q # qs'"]) auto
  next
    case False
    then show ?thesis using qs' by (intro exI [of _ qs']) auto
  qed
qed simp

lemma newborn_move: "newborn n ls qs \<Longrightarrow> \<exists>qs'. born (Suc n) (filter (\<lambda>l. \<not> gone l) (map fall ls)) qs'"
  unfolding newborn_def born_def
  using list_all2_move [of "\<lambda>l q. 33 * q \<le> n \<and> alive (n - 33 * q) l" ls qs "\<lambda>l. \<not> gone l" fall
      "\<lambda>l q. 33 * q < Suc n \<and> alive (Suc n - 33 * q) l"]
  by (auto simp: Suc_diff_le alive_fall)

lemma born_on_screen: "born n (map (letter g) xs) qs \<Longrightarrow> i \<in> set xs \<Longrightarrow> on_screen (letter g i)"
  by (auto simp: born_def list_all2_conv_all_nth in_set_conv_nth intro: alive_on_screen)

section \<open>The invariant\<close>

text \<open>Before tick \<open>n\<close>: every letter that was created is on the screen, was hit or was missed.\<close>

definition letters_inv :: "nat \<Rightarrow> game \<Rightarrow> bool" where
  "letters_inv n g \<longleftrightarrow> (\<exists>xs fs qs. lists_ok g xs fs \<and> born n (map (letter g) xs) qs \<and>
     hit g + miss g + of_nat (length xs) = of_nat ((n + 32) div 33))"

definition game_inv :: "nat \<Rightarrow> game \<Rightarrow> bool" where
  "game_inv n g \<longleftrightarrow> letters_inv (unat (now g)) g \<and> 0 \<le> key_code g \<and> key_code g < 256 \<and> intr_on g \<and>
     unat (now g) \<le> unat (target g) \<and> unat (target g) \<le> n \<and> unat (tick g) = n"

lemma letters_inv_cong:
  assumes "fly_pool g' = fly_pool g" "fly_head g' = fly_head g" "fly_free_head g' = fly_free_head g" "hit g' = hit g" "miss g' = miss g"
  shows "letters_inv n g' = letters_inv n g"
proof -
  have f: "nexts g' = nexts g" "prevs g' = prevs g" "letter g' = letter g"
    by (simp_all add: nexts_def prevs_def letter_def fly_at_def fun_eq_iff assms(1))
  show ?thesis unfolding letters_inv_def lists_ok_def free_ok_def f assms(2-) ..
qed

lemma sint_small:
  fixes w :: u32
  assumes "unat w < 2 ^ 31"
  shows "sint w = int (unat w)"
proof -
  have "uint w < 2 ^ 31" using assms by (metis nat_less_iff numeral_power_eq_of_nat_cancel_iff of_nat_less_iff uint_nat)
  moreover have "- (2 ^ 31) \<le> uint w" by (rule order_trans [OF _ uint_ge_0]) simp
  ultimately have "signed_take_bit 31 (uint w) = uint w" by (intro signed_take_bit_int_eq_self)
  then show ?thesis by (simp add: sint_uint)
qed

lemma sless_small: "unat w < 2 ^ 31 \<Longrightarrow> unat w' < 2 ^ 31 \<Longrightarrow> w <s w' \<longleftrightarrow> unat w < unat w'" for w w' :: u32
  by (simp only: word_sless_alt sint_small of_nat_less_iff)

lemma letters_create:
  assumes "letters_inv n g" "n mod 33 = 0"
  shows "\<exists>g' xs fs qs. create_new_letter r g = Some g' \<and> lists_ok g' xs fs \<and> newborn n (map (letter g') xs) qs \<and>
    hit g' + miss g' + of_nat (length xs) = of_nat ((n + 33) div 33) \<and> erase g' = erase g"
proof -
  obtain xs fs qs where xs: "lists_ok g xs fs" "born n (map (letter g) xs) qs"
    "hit g + miss g + of_nat (length xs) = of_nat ((n + 32) div 33)" using assms(1) unfolding letters_inv_def by blast
  have "length xs < FLY_SIZE" using born_few [OF xs(2)] by (simp add: FLY_SIZE_def)
  from create_new_letter_ok [OF xs(1) this, of r] obtain g' i fs' where g': "create_new_letter r g = Some g'" "lists_ok g' (i # xs) fs'"
    "map (letter g') (i # xs) = new_letter r # map (letter g) xs" "hit g' = hit g" "miss g' = miss g" "erase g' = erase g" by metis
  obtain q where q: "n = 33 * q" using assms(2) by (auto simp: mod_eq_0_iff_dvd)
  then have "(n + 33) div 33 = Suc ((n + 32) div 33)" by simp
  then have "hit g' + miss g' + of_nat (length (i # xs)) = of_nat ((n + 33) div 33)" using xs(3) g'(4,5) by (simp add: algebra_simps)
  moreover have "newborn n (map (letter g') (i # xs)) (q # qs)" unfolding g'(3) by (rule born_create [OF xs(2) q])
  ultimately show ?thesis using g'(1,2,6) by blast
qed

lemma letters_no_create:
  assumes "letters_inv n g" "n mod 33 \<noteq> 0"
  shows "\<exists>xs fs qs. lists_ok g xs fs \<and> newborn n (map (letter g) xs) qs \<and>
    hit g + miss g + of_nat (length xs) = of_nat ((n + 33) div 33)"
proof -
  define a b where "a = n div 33" and "b = n mod 33"
  have "n = 33 * a + b" "b \<noteq> 0" "b < 33" using assms(2) by (simp_all add: a_def b_def)
  then have "(n + 32) div 33 = a + 1" by (intro div_nat_eqI) auto
  then have "(n + 33) div 33 = (n + 32) div 33" by (simp add: a_def)
  then show ?thesis using assms(1) born_newborn unfolding letters_inv_def by metis
qed

lemma count_gone: "length (filter (\<lambda>l. \<not> gone l) ls) + (length (filter (\<lambda>l. gone l \<and> flew_up l) ls) +
    length (filter (\<lambda>l. gone l \<and> \<not> flew_up l) ls)) = length ls"
  by (induction ls) auto

lemma letters_move:
  assumes "lists_ok g xs fs" "newborn n (map (letter g) xs) qs" "hit g + miss g + of_nat (length xs) = of_nat ((n + 33) div 33)"
  shows "\<exists>g'. update_letter_pos g = Some g' \<and> letters_inv (Suc n) g' \<and> erase g' = erase g"
proof -
  let ?ls = "map fall (map (letter g) xs)"
  obtain g' xs' fs' where g': "update_letter_pos g = Some g'" "lists_ok g' xs' fs'" "map (letter g') xs' = filter (\<lambda>l. \<not> gone l) ?ls"
    "hit g' = hit g + of_nat (length (filter (\<lambda>l. gone l \<and> flew_up l) ?ls))"
    "miss g' = miss g + of_nat (length (filter (\<lambda>l. gone l \<and> \<not> flew_up l) ?ls))" "erase g' = erase g"
    using update_letter_pos_ok [OF assms(1)] by blast
  obtain qs' where "born (Suc n) (map (letter g') xs') qs'" unfolding g'(3) using newborn_move [OF assms(2)] by blast
  moreover have "hit g' + miss g' + of_nat (length xs') = of_nat ((Suc n + 32) div 33)"
  proof -
    have "length xs' = length (filter (\<lambda>l. \<not> gone l) ?ls)" using arg_cong [OF g'(3), of length] by (simp only: length_map)
    then have "hit g' + miss g' + of_nat (length xs') = hit g + miss g + of_nat (length ?ls)"
      unfolding g'(4,5) count_gone [of ?ls, symmetric] by (simp only: of_nat_add ac_simps)
    then show ?thesis using assms(3) by simp
  qed
  ultimately show ?thesis using g' unfolding letters_inv_def by blast
qed

lemma every_small: "unat (now g) < 2 ^ 31 \<Longrightarrow> every (int d) g \<longleftrightarrow> unat (now g) mod d = 0"
  unfolding every_def by (simp only: sint_small zmod_int [symmetric] of_nat_eq_0_iff)

lemma rates: "TICK_HZ div CHARACTER_PER_SECOND = int 33" "TICK_HZ div UPDATE_PER_SECOND = int 1"
  by (simp_all add: TICK_HZ_def CHARACTER_PER_SECOND_def UPDATE_PER_SECOND_def)

text \<open>The variables of the main loop that a simulated tick leaves alone.\<close>

definition loop_vars :: "game \<Rightarrow> int \<times> bool \<times> u32 \<times> u32 \<times> phase" where
  "loop_vars g = (key_code g, intr_on g, tick g, target g, phase g)"

lemma loop_vars_erase: "erase g' = erase g \<Longrightarrow> loop_vars g' = loop_vars g \<and> now g' = now g"
  using erase_fields [of g' g] by (simp add: loop_vars_def)

lemma end_of_tick:
  fixes g :: game
  defines "g1 \<equiv> (if every (TICK_HZ div FPS) g then g\<lparr>redraw := True\<rparr> else g)"
  defines "g2 \<equiv> (if every (TICK_HZ div 2) g1 then update_fps g1 else g1)"
  shows "letters_inv n (g2\<lparr>now := now g2 + 1\<rparr>) = letters_inv n g" "loop_vars (g2\<lparr>now := now g2 + 1\<rparr>) = loop_vars g" "now g2 = now g"
  by (rule letters_inv_cong) (simp_all add: g2_def g1_def update_fps_def set_fps_def Let_def loop_vars_def)

lemma simulate_tick_ok:
  assumes inv: "letters_inv n g" and n: "n = unat (now g)" "n < 2 ^ 31"
  shows "\<exists>g'. simulate_tick r g = Some g' \<and> letters_inv (Suc n) g' \<and> now g' = now g + 1 \<and> loop_vars g' = loop_vars g"
proof -
  have every33: "every (TICK_HZ div CHARACTER_PER_SECOND) g \<longleftrightarrow> n mod 33 = 0"
    unfolding rates n(1) by (rule every_small) (use n in simp)
  have "\<exists>g' xs fs qs. (if every (TICK_HZ div CHARACTER_PER_SECOND) g then create_new_letter r g else Some g) = Some g' \<and> lists_ok g' xs fs \<and>
      newborn n (map (letter g') xs) qs \<and> hit g' + miss g' + of_nat (length xs) = of_nat ((n + 33) div 33) \<and> erase g' = erase g"
  proof (cases "n mod 33 = 0")
    case True
    then show ?thesis using letters_create [OF inv True, of r] by (simp only: every33 if_True simp_thms)
  next
    case False
    then show ?thesis using letters_no_create [OF inv False] by (simp only: every33 if_False option.inject) blast
  qed
  then obtain g1 xs fs qs where g1: "(if every (TICK_HZ div CHARACTER_PER_SECOND) g then create_new_letter r g else Some g) = Some g1"
    "lists_ok g1 xs fs" "newborn n (map (letter g1) xs) qs" "hit g1 + miss g1 + of_nat (length xs) = of_nat ((n + 33) div 33)"
    "erase g1 = erase g" by metis
  have "every (TICK_HZ div UPDATE_PER_SECOND) g1"
    using loop_vars_erase [OF g1(5)] n by (simp only: rates every_small) simp
  moreover obtain g2 where g2: "update_letter_pos g1 = Some g2" "letters_inv (Suc n) g2" "erase g2 = erase g1"
    using letters_move [OF g1(2-4)] by blast
  ultimately have "simulate_tick r g = Some (let g = (if every (TICK_HZ div FPS) g2 then g2\<lparr>redraw := True\<rparr> else g2);
      g = (if every (TICK_HZ div 2) g then update_fps g else g) in g\<lparr>now := now g + 1\<rparr>)"
    unfolding simulate_tick_def g1(1) Option.bind_lunit by (simp add: Let_def)
  then show ?thesis
    using end_of_tick(1) [of "Suc n" g2] end_of_tick(2,3) [of g2] g2(2) loop_vars_erase [OF g2(3)] loop_vars_erase [OF g1(5)]
    unfolding Let_def by (simp del: ex_simps)
qed

lemma read_clock_ok:
  assumes inv: "game_inv n g" "n < 2 ^ 31"
  shows "\<exists>g'. read_clock g = Some g' \<and> game_inv n g'"
proof -
  have l: "unat (now g) \<le> unat (tick g)" "unat (tick g) = n" using inv(1) by (auto simp: game_inv_def)
  have same: "letters_inv m (g\<lparr>intr_on := True, phase := Waiting\<rparr>) = letters_inv m g"
    "letters_inv m (g\<lparr>intr_on := True, target := tick g, redraw := False, phase := Pressing\<rparr>) = letters_inv m g" for m
    by (rule letters_inv_cong; simp)+
  show ?thesis
  proof (cases "now g = tick g")
    case True
    then have "read_clock g = Some (g\<lparr>intr_on := True, phase := Waiting\<rparr>)" by (simp add: read_clock_def game_cli_def game_sti_def)
    moreover have "game_inv n (g\<lparr>intr_on := True, phase := Waiting\<rparr>)" using inv(1) by (simp add: game_inv_def same)
    ultimately show ?thesis by blast
  next
    case False
    then have "unat (now g) < unat (tick g)" using l(1) by (metis order_less_le word_unat_eq_iff)
    then have "now g <s tick g" using l inv(2) by (subst sless_small) auto
    with False have "read_clock g = Some (g\<lparr>intr_on := True, target := tick g, redraw := False, phase := Pressing\<rparr>)"
      by (simp add: read_clock_def game_cli_def game_sti_def)
    moreover have "game_inv n (g\<lparr>intr_on := True, target := tick g, redraw := False, phase := Pressing\<rparr>)"
      using inv(1) l by (simp add: game_inv_def same)
    ultimately show ?thesis by blast
  qed
qed

lemma lists_ok_links:
  "same_links g g' \<Longrightarrow> lists_ok g xs fs \<Longrightarrow> lists_ok g' xs fs"
  unfolding same_links_def lists_ok_def free_ok_def by (simp only:)

lemma born_keys: "lists_ok g xs fs \<Longrightarrow> born n (map (letter g) xs) qs \<Longrightarrow> keys_ok g xs"
  using born_on_screen [of n g xs qs]
  by (fastforce simp: keys_ok_def lists_ok_def on_screen_def off_screen_def key_of_def)

lemma born_struck:
  assumes "born n (map (letter g) xs) qs" "\<forall>j \<in> set xs. letter g' j = struck (letter g j) \<or> letter g' j = letter g j"
  shows "born n (map (letter g') xs) qs"
proof -
  have "alive u (letter g' j)" if "j \<in> set xs" "alive u (letter g j)" for u j
    using assms(2) that alive_struck [OF that(2)] by (metis (no_types))
  then show ?thesis using assms(1) by (auto simp: born_def list_all2_conv_all_nth)
qed

lemma press_ok:
  assumes inv: "game_inv n g"
  shows "\<exists>g'. keypress_loop g = Some g' \<and> letters_inv (unat (now g)) g' \<and> now g' = now g \<and> loop_vars g' = loop_vars g"
proof -
  obtain xs fs qs where xs: "lists_ok g xs fs" "born (unat (now g)) (map (letter g) xs) qs"
    "hit g + miss g + of_nat (length xs) = of_nat ((unat (now g) + 32) div 33)"
    using inv unfolding game_inv_def letters_inv_def by blast
  obtain g' where g': "keypress_loop g = Some g'" "same_links g g'"
    "\<forall>j \<in> set xs. letter g' j = (if is_target g xs j then struck (letter g j) else letter g j)"
    using keypress_loop_ok [OF born_keys [OF xs(1,2)]] by blast
  have "intr_on g" using inv by (simp add: game_inv_def)
  then have "(erase g)\<lparr>intr_on := True\<rparr> = erase g" by (simp add: erase_def)
  then have "erase g' = erase g" using g'(2) by (simp add: same_links_def)
  moreover have "born (unat (now g)) (map (letter g') xs) qs" using g'(3) by (intro born_struck [OF xs(2)]) auto
  moreover have "hit g' + miss g' + of_nat (length xs) = of_nat ((unat (now g) + 32) div 33)"
    using xs(3) g'(2) by (simp only: same_links_def)
  ultimately have "letters_inv (unat (now g)) g'" unfolding letters_inv_def using lists_ok_links [OF g'(2) xs(1)] by blast
  then show ?thesis using g'(1) loop_vars_erase [OF \<open>erase g' = erase g\<close>] by (intro exI [of _ g']) simp
qed

lemma draw_ok:
  assumes "letters_inv m g" "0 \<le> key_code g" "key_code g < 256"
  shows "\<exists>v w. redraw_screen g = Some (g\<lparr>vbuf := v, screen := w\<rparr>)"
proof -
  obtain xs fs qs where xs: "lists_ok g xs fs" "born m (map (letter g) xs) qs" using assms(1) unfolding letters_inv_def by blast
  then have "path (nexts g) (fly_head g) xs" by (simp add: lists_ok_def)
  then show ?thesis using redraw_screen_ok [OF _ _ assms(2,3)] born_on_screen [OF xs(2)] by blast
qed

lemma phase_inv: "letters_inv m (g\<lparr>phase := p\<rparr>) = letters_inv m g" "letters_inv m (g\<lparr>num_draw := w\<rparr>) = letters_inv m g"
  "letters_inv m (g\<lparr>vbuf := v, screen := z\<rparr>) = letters_inv m g" "letters_inv m (g\<lparr>tick := w\<rparr>) = letters_inv m g"
  "letters_inv m (g\<lparr>key_code := c, letter_pressed := k\<rparr>) = letters_inv m g"
  by (rule letters_inv_cong; simp)+

lemma main_step_ok:
  assumes inv: "game_inv n g" "n < 2 ^ 31"
  shows "\<exists>g'. main_step r g = Some g' \<and> game_inv n g'"
proof (cases "phase g")
  case Waiting
  then show ?thesis using inv(1) by (simp add: main_step_def game_inv_def phase_inv)
next
  case Checking
  then show ?thesis using read_clock_ok [OF inv] by (simp add: main_step_def)
next
  case Pressing
  obtain g' where g': "keypress_loop g = Some g'" "letters_inv (unat (now g)) g'" "now g' = now g" "loop_vars g' = loop_vars g"
    using press_ok [OF inv(1)] by blast
  then have "game_inv n (g'\<lparr>phase := Simulating\<rparr>)" using inv(1) by (simp add: game_inv_def phase_inv loop_vars_def)
  then show ?thesis using g'(1) Pressing by (simp add: main_step_def)
next
  case Simulating
  have l: "unat (target g) \<le> n" "unat (now g) \<le> unat (target g)" using inv(1) by (simp_all add: game_inv_def)
  show ?thesis
  proof (cases "now g <s target g")
    case True
    then have lt: "unat (now g) < unat (target g)" using l inv(2) by (subst (asm) sless_small) auto
    have "letters_inv (unat (now g)) g" using inv(1) by (simp add: game_inv_def)
    from simulate_tick_ok [OF this refl, of r] lt l inv(2) obtain g' where g': "simulate_tick r g = Some g'"
      "letters_inv (Suc (unat (now g))) g'" "now g' = now g + 1" "loop_vars g' = loop_vars g" by auto
    have "unat (now g + 1) = Suc (unat (now g))" using lt l inv(2) by (simp add: unat_word_ariths)
    then have "game_inv n g'" using g' inv(1) lt by (simp add: game_inv_def loop_vars_def)
    then show ?thesis using g'(1) Simulating True by (simp add: main_step_def)
  next
    case False
    then show ?thesis using inv(1) Simulating by (simp add: main_step_def game_inv_def phase_inv)
  qed
next
  case Drawing
  let ?g = "g\<lparr>num_draw := num_draw g + 1\<rparr>"
  have "letters_inv (unat (now g)) ?g" "0 \<le> key_code ?g" "key_code ?g < 256" using inv(1) by (simp_all add: game_inv_def phase_inv)
  from draw_ok [OF this] obtain v w where d: "redraw_screen ?g = Some (?g\<lparr>vbuf := v, screen := w\<rparr>)" by blast
  have "game_inv n (?g\<lparr>vbuf := v, screen := w, phase := Waiting\<rparr>)" using inv(1) by (simp add: game_inv_def phase_inv)
  then show ?thesis using d Drawing by (simp add: main_step_def)
qed

lemma game0_inv: "game_inv 0 game0"
proof -
  have "lists_ok game0 [] [0..<FLY_SIZE + 1]"
    by (auto simp: lists_ok_def free_ok_def game0_def nexts_def fly_at_def)
  then have "letters_inv 0 game0" unfolding letters_inv_def born_def by (intro exI [of _ "[]"] exI conjI) (auto simp: game0_def)
  then show ?thesis by (simp add: game_inv_def game0_def)
qed

lemma game_runs_inv: "game_runs n g \<Longrightarrow> n < 2 ^ 31 \<Longrightarrow> game_inv n g"
proof (induction rule: game_runs.induct)
  case start
  show ?case by (rule game0_inv)
next
  case (timer n g)
  then have "game_inv n g" "Suc n < 2 ^ 31" by simp_all
  then show ?case by (auto simp: game_inv_def timer_event_def phase_inv unat_word_ariths)
next
  case (keyboard n g data)
  have "0 \<le> uint data" "uint data < 256" using uint_lt2p [of data] by simp_all
  then show ?case using keyboard by (simp add: game_inv_def keyboard_event_def press_key_def phase_inv)
next
  case (main n g r g')
  then show ?case using main_step_ok [of n g r] by auto
qed

section \<open>The properties\<close>

text \<open>C35: In every run of the game, however the interrupts of the timer and the keyboard fall between the steps of the main loop, whatever keys are pressed and whatever \<open>rand\<close> returns, no step fails before the clock overflows: no assertion fails, the pool of letters is never empty, the loops over the list and over the keys end, and every pixel lies in the buffer. At most 14 letters are on the screen, each at a place where it is drawn, and every letter that was created, one in 33 ticks, is there, was hit or was missed.\<close>

theorem typing_game_safe:
  assumes "game_runs n g" "n < 2 ^ 31"
  shows "(\<exists>g'. main_step r g = Some g') \<and>
    (\<exists>xs. path (nexts g) (fly_head g) xs \<and> rpath (prevs g) None xs \<and> length xs \<le> 14 \<and> (\<forall>i \<in> set xs. on_screen (letter g i)) \<and>
       hit g + miss g + of_nat (length xs) = of_nat ((unat (now g) + 32) div 33))"
proof -
  have inv: "game_inv n g" by (rule game_runs_inv [OF assms])
  then obtain xs fs qs where "lists_ok g xs fs" "born (unat (now g)) (map (letter g) xs) qs"
    "hit g + miss g + of_nat (length xs) = of_nat ((unat (now g) + 32) div 33)" unfolding game_inv_def letters_inv_def by blast
  moreover from this born_few have "length xs \<le> 14" by fastforce
  ultimately show ?thesis using main_step_ok [OF inv assms(2), of r] born_on_screen unfolding lists_ok_def by metis
qed

lemma first_tick: "\<exists>g. game_runs 1 g \<and> now g = 1"
proof -
  define g1 where "g1 = (timer_event game0)\<lparr>intr_on := True, target := 1, redraw := False, phase := Simulating\<rparr>"
  have init: "phase game0 = Waiting" "intr_on game0" "now game0 = 0" "tick game0 = 0" "fly_head game0 = None" by (simp_all add: game0_def)
  have "game_runs 1 (timer_event game0)" using game_runs.timer [OF game_runs.start] init by simp
  then have "game_runs 1 ((timer_event game0)\<lparr>phase := Checking\<rparr>)"
    by (rule game_runs.main) (simp add: main_step_def timer_event_def init)
  then have "game_runs 1 ((timer_event game0)\<lparr>intr_on := True, target := 1, redraw := False, phase := Pressing\<rparr>)" (is "game_runs 1 ?g")
    by (rule game_runs.main) (simp add: main_step_def read_clock_def game_cli_def game_sti_def timer_event_def init word_sless_alt)
  moreover have "keypress_loop ?g = Some ?g"
  proof -
    have "keys_ok ?g []" by (simp add: keys_ok_def timer_event_def init)
    then have "update_keypress ?g = Some (False, ?g)" by (simp add: update_keypress_ok lowest_candidate_def)
    then show ?thesis by (subst keypress_loop.simps) simp
  qed
  then have "main_step (0, 0, 0) ?g = Some g1" by (simp add: main_step_def g1_def)
  ultimately have g1: "game_runs 1 g1" by (rule game_runs.main)
  have now1: "now g1 = 0" "phase g1 = Simulating" "target g1 = 1" by (simp_all add: g1_def timer_event_def init)
  have "letters_inv 0 g1" using game_runs_inv [OF g1] now1 by (simp add: game_inv_def)
  from simulate_tick_ok [OF this, of "(0, 0, 0)"] now1 obtain g2 where "simulate_tick (0, 0, 0) g1 = Some g2" "now g2 = 1" by auto
  moreover from this have "main_step (0, 0, 0) g1 = Some g2" by (simp add: main_step_def now1 word_sless_alt)
  ultimately show ?thesis using game_runs.main [OF g1] by blast
qed

theorem typing_game_safe_witness:
  "\<exists>g. game_runs 1 g \<and> (\<exists>g'. main_step (5, 6, 7) g = Some g') \<and>
     (\<exists>xs. path (nexts g) (fly_head g) xs \<and> hit g + miss g + of_nat (length xs) = 1)"
proof -
  obtain g where g: "game_runs 1 g" "now g = 1" using first_tick by blast
  from typing_game_safe [OF g(1), of "(5, 6, 7)"] g show ?thesis by auto
qed

definition two_letters :: game where
  "two_letters = game0\<lparr>fly_pool := (\<lambda>i.
       if i = 0 then \<lparr>fly_x = 10, fly_y = 8, fly_text = 3, fly_v = 1 / 2, prev_ptr = None, next_ptr = Some 1\<rparr>
       else if i = 1 then \<lparr>fly_x = 192, fly_y = 16, fly_text = 3, fly_v = 1 / 2, prev_ptr = Some 0, next_ptr = None\<rparr>
       else \<lparr>fly_x = 0, fly_y = 0, fly_text = 0, fly_v = 0, prev_ptr = None,
             next_ptr = if i < FLY_SIZE then Some (i + 1) else None\<rparr>),
     fly_free_head := Some 2, fly_head := Some 0, letter_pressed := (\<lambda>k. k = 3)\<rparr>"

lemma two_letters:
  "lists_ok two_letters [0, 1] [2..<FLY_SIZE + 1]" "letter two_letters 0 = (10, 8, 3, 1 / 2)"
  "letter two_letters (Suc 0) = (192, 16, 3, 1 / 2)" "letter_pressed two_letters = (\<lambda>k. k = 3)" "hit two_letters = 0" "miss two_letters = 0"
proof -
  have "path (nexts two_letters) (Some 2) [2..<FLY_SIZE + 1]"
    by (rule path_upt) (auto simp: two_letters_def nexts_def fly_at_def FLY_SIZE_def)
  then show "lists_ok two_letters [0, 1] [2..<FLY_SIZE + 1]"
    by (auto simp: lists_ok_def free_ok_def two_letters_def nexts_def prevs_def fly_at_def FLY_SIZE_def simp del: upt.simps upt_rec_numeral)
qed (simp_all add: two_letters_def letter_def fly_at_def game0_def)

text \<open>C34: The movement of the letters on their linked lists refines a map and a filter: what stays is the list of the moved letters without the ones that left the screen, the scores grow by the numbers of letters that left at the top and at the bottom, and the freed nodes go back to the pool.\<close>

theorem update_letter_pos_refines:
  assumes "lists_ok g xs fs"
  shows "\<exists>g' xs' fs'. update_letter_pos g = Some g' \<and> lists_ok g' xs' fs' \<and>
    map (letter g') xs' = filter (\<lambda>l. \<not> gone l) (map fall (map (letter g) xs)) \<and>
    hit g' = hit g + of_nat (length (filter (\<lambda>l. gone l \<and> flew_up l) (map fall (map (letter g) xs)))) \<and>
    miss g' = miss g + of_nat (length (filter (\<lambda>l. gone l \<and> \<not> flew_up l) (map fall (map (letter g) xs)))) \<and>
    letter_pressed g' = letter_pressed g \<and> erase g' = erase g"
  by (rule update_letter_pos_ok [OF assms])

theorem update_letter_pos_refines_witness:
  "\<exists>g' i. update_letter_pos two_letters = Some g' \<and> fly_head g' = Some i \<and> letter g' i = (21 / 2, 8, 3, 1 / 2) \<and> hit g' = 0 \<and> miss g' = 1"
proof -
  have ls: "map fall (map (letter two_letters) [0, 1]) = [(21 / 2, 8, 3, 1 / 2), (385 / 2, 16, 3, 1 / 2)]"
    by (simp add: two_letters fall_def)
  have g: "gone (385 / 2, 16, 3, 1 / 2)" "\<not> gone (21 / 2, 8, 3, 1 / 2)" "\<not> flew_up (385 / 2, 16, 3, 1 / 2)"
    by (simp_all add: gone_def off_screen_def SCR_HEIGHT_def flew_up_def)
  from update_letter_pos_refines [OF two_letters(1)] obtain g' xs' fs' where g': "update_letter_pos two_letters = Some g'" "lists_ok g' xs' fs'"
    "map (letter g') xs' = [(21 / 2, 8, 3, 1 / 2)]" "hit g' = 0" "miss g' = 1"
    unfolding ls using g two_letters(5,6) by auto
  then show ?thesis by (cases xs') (auto simp: lists_ok_def)
qed

text \<open>C36: The loop over the keys ends, and leaves the interrupts on: for every key that is down and that a falling letter shows, exactly the lowest such letter, the newest of several, turns upwards, and the key is released; no other letter and no other key changes.\<close>

theorem keypress_loop_hits:
  assumes "lists_ok g xs fs" "\<forall>i \<in> set xs. on_screen (letter g i)"
  shows "\<exists>g'. keypress_loop g = Some g' \<and> lists_ok g' xs fs \<and> intr_on g' \<and>
    (\<forall>j \<in> set xs. letter g' j = (if is_target g xs j then struck (letter g j) else letter g j)) \<and>
    (\<forall>k. letter_pressed g' k \<longleftrightarrow> letter_pressed g k \<and> (\<forall>j \<in> set xs. falling (letter g j) \<longrightarrow> key_of (letter g j) \<noteq> k))"
proof -
  have "keys_ok g xs"
    using assms by (fastforce simp: keys_ok_def lists_ok_def on_screen_def off_screen_def key_of_def)
  from keypress_loop_ok [OF this] lists_ok_links [OF _ assms(1)] show ?thesis by blast
qed

theorem keypress_loop_hits_witness:
  "\<exists>g'. keypress_loop two_letters = Some g' \<and> letter g' 0 = (10, 8, 3, 1 / 2) \<and> letter g' 1 = (192, 16, 3, - 3) \<and> \<not> letter_pressed g' 3"
proof -
  have "\<forall>i \<in> set [0, 1]. on_screen (letter two_letters i)"
    by (simp add: two_letters on_screen_def off_screen_def SCR_HEIGHT_def)
  moreover have "candidate two_letters 0" "candidate two_letters 1"
    by (simp_all add: candidate_def falling_def key_of_def two_letters)
  then have "\<not> is_target two_letters [0, 1] 0" "is_target two_letters [0, 1] 1"
    by (simp_all add: is_target_def two_letters key_of_def)
  ultimately show ?thesis
    using keypress_loop_hits [OF two_letters(1)] by (fastforce simp: two_letters struck_def falling_def key_of_def)
qed

end
