(* ===== verification/Pal_Gpu.thy ===== *)
theory Pal_Gpu
  imports Kernel_Disk
begin

text \<open>
  Copying a rectangle from one surface to another in the game \<open>nemu-pal\<close>: \<open>SDL_BlitSurface\<close> and \<open>gpu_blit\<close> of
  \<open>game/src/nemu-pal/hal/video.c\<close>, as compiled with \<open>HAS_DEVICE_GPU\<close>, on the modelled machine. The game's data are
  in the guest's memory, with the layout of the structures that the emulated device (\<open>gpu_cmd_handler\<close>) reads too; its
  port instructions reach the emulator's devices. A pointer is an address and \<open>NULL\<close> is 0. Where the compiler
  keeps the local variables that have an address is an argument.
\<close>

record blit_frame =
  cmd_at :: u32
  addr_at :: u32
  srcr_at :: u32
  dstr_at :: u32

definition load_s32 :: "machine \<Rightarrow> u32 \<Rightarrow> int option" where
  "load_s32 s a = map_option sint (vaddr_read s a SREG_DS 4)"

definition load_s16 :: "machine \<Rightarrow> u32 \<Rightarrow> int option" where
  "load_s16 s a = map_option (\<lambda>v. sint (ucast v :: u16)) (vaddr_read s a SREG_DS 2)"

definition load_u16 :: "machine \<Rightarrow> u32 \<Rightarrow> int option" where
  "load_u16 s a = map_option (\<lambda>v. uint (ucast v :: u16)) (vaddr_read s a SREG_DS 2)"

definition store_u32 :: "u32 \<Rightarrow> u32 \<Rightarrow> machine \<Rightarrow> machine option" where
  "store_u32 a v s = vaddr_write s a SREG_DS 4 v"

text \<open>The initialisation of an \<open>SDL_Rect\<close>, whose fields have 16 bits.\<close>

definition store_rect :: "u32 \<Rightarrow> int \<Rightarrow> int \<Rightarrow> int \<Rightarrow> int \<Rightarrow> machine \<Rightarrow> machine option" where
  "store_rect a x y w h s = do {
     s \<leftarrow> vaddr_write s a SREG_DS 2 (word_of_int x);
     s \<leftarrow> vaddr_write s (a + 2) SREG_DS 2 (word_of_int y);
     s \<leftarrow> vaddr_write s (a + 4) SREG_DS 2 (word_of_int w);
     vaddr_write s (a + 6) SREG_DS 2 (word_of_int h)
   }"

definition BLIT_CMD :: u8 where "BLIT_CMD = 0x01"

definition send_byte :: "u32 \<Rightarrow> nat \<Rightarrow> machine \<Rightarrow> machine option" where
  "send_byte a i s = do {
     r \<leftarrow> vaddr_read s (a + of_nat i) SREG_DS 1;
     out_byte (GPU_DATA_PORT_BASE + of_nat i) (ucast r) s
   }"

definition gpu_blit :: "blit_frame \<Rightarrow> u32 \<Rightarrow> u32 \<Rightarrow> u32 \<Rightarrow> u32 \<Rightarrow> machine \<Rightarrow> machine option" where
  "gpu_blit f srcs dsts srcr dstr s = do {
     s \<leftarrow> store_u32 (cmd_at f) srcs s;
     s \<leftarrow> store_u32 (cmd_at f + 4) dsts s;
     s \<leftarrow> store_u32 (cmd_at f + 8) srcr s;
     s \<leftarrow> store_u32 (cmd_at f + 12) dstr s;
     s \<leftarrow> store_u32 (addr_at f) (cmd_at f) s;
     s \<leftarrow> foldM (send_byte (addr_at f)) [0..<4] s;
     out_byte GPU_CMD_PORT BLIT_CMD s
   }"

definition source_rect :: "machine \<Rightarrow> u32 \<Rightarrow> u32 \<Rightarrow> (int \<times> int \<times> int \<times> int) option" where
  "source_rect s src srcrect =
     (if srcrect = 0 then do {
        w \<leftarrow> load_s32 s (src + 8);
        h \<leftarrow> load_s32 s (src + 12);
        Some (0, 0, w, h)
      } else do {
        x \<leftarrow> load_s16 s srcrect;
        y \<leftarrow> load_s16 s (srcrect + 2);
        w \<leftarrow> load_u16 s (srcrect + 4);
        h \<leftarrow> load_u16 s (srcrect + 6);
        Some (x, y, w, h)
      })"

definition target_pos :: "machine \<Rightarrow> u32 \<Rightarrow> (int \<times> int) option" where
  "target_pos s dstrect =
     (if dstrect = 0 then Some (0, 0)
      else do { x \<leftarrow> load_s16 s dstrect; y \<leftarrow> load_s16 s (dstrect + 2); Some (x, y) })"

definition SDL_BlitSurface :: "blit_frame \<Rightarrow> u32 \<Rightarrow> u32 \<Rightarrow> u32 \<Rightarrow> u32 \<Rightarrow> machine \<Rightarrow> machine option" where
  "SDL_BlitSurface f src srcrect dst dstrect s =
     (if dst = 0 \<or> src = 0 then None else do {
        (sx, sy, w, h) \<leftarrow> source_rect s src srcrect;
        (dx, dy) \<leftarrow> target_pos s dstrect;
        dw \<leftarrow> load_s32 s (dst + 8);
        dh \<leftarrow> load_s32 s (dst + 12);
        let w = (if dw - dx < w then dw - dx else w);
        let h = (if dh - dy < h then dh - dy else h);
        s \<leftarrow> store_rect (srcr_at f) sx sy w h s;
        s \<leftarrow> store_rect (dstr_at f) dx dy w h s;
        gpu_blit f src dst (srcr_at f) (dstr_at f) s
      })"

end
