(* ===== verification/Pal_Gpu_Correct.thy ===== *)
theory Pal_Gpu_Correct
  imports Pal_Gpu Dispatch_Correct
begin

text \<open>
  Blitting through the emulated device, from the call in the game to the pixels in the guest's memory: the
  command that \<open>gpu_blit\<close> writes, the address it sends bytewise, the structures that the device loads, and the pixels
  it copies. The guest's segments are flat and paging is off, so an address is its place in the memory.
\<close>

section \<open>Areas of the memory\<close>

definition flat_area :: "machine \<Rightarrow> u32 \<Rightarrow> nat \<Rightarrow> bool" where
  "flat_area s a n \<longleftrightarrow> ram_region s SREG_DS a n \<and> (\<forall>b. lin s SREG_DS b = b)"

definition apart_from :: "u32 \<times> nat \<Rightarrow> u32 \<times> nat \<Rightarrow> bool" where
  "apart_from p q \<longleftrightarrow> unat (fst p) + snd p \<le> unat (fst q) \<or> unat (fst q) + snd q \<le> unat (fst p)"

lemma flat_area_bound: "flat_area s a n \<Longrightarrow> unat a + n < 0x8000000"
  unfolding flat_area_def ram_region_def by metis

lemma flat_area_hw_mem [simp]: "flat_area (s\<lparr>hw_mem := m\<rparr>) = flat_area s"
  by (simp add: flat_area_def ram_region_def fun_eq_iff)

lemma flat_area_ports [simp]: "flat_area (s\<lparr>io_port := q\<rparr>) = flat_area s" "flat_area (s\<lparr>gpu_addr := g\<rparr>) = flat_area s"
  by (simp_all add: flat_area_def ram_region_def lin_def fun_eq_iff)

lemma unat_off: "unat a + k < 4294967296 \<Longrightarrow> unat (a + of_nat k) = unat a + k" for a :: u32
  by (simp add: unat_add_nat)

lemma flat_area_ram: "flat_area s a n \<Longrightarrow> k + m \<le> n \<Longrightarrow> len_ok m \<Longrightarrow> ram s SREG_DS (a + of_nat k) m"
  unfolding flat_area_def using ram_region_ram by blast

lemma flat_area_read:
  assumes "flat_area s a n" "k + m \<le> n" "len_ok m"
  shows "vaddr_read s (a + of_nat k) SREG_DS m = Some (mem_get (hw_mem s) (a + of_nat k) m)"
  using vaddr_read_ram [OF flat_area_ram [OF assms]] assms(1) by (simp add: flat_area_def)

lemma flat_area_write:
  assumes "flat_area s a n" "k + m \<le> n" "len_ok m"
  shows "vaddr_write s (a + of_nat k) SREG_DS m d = Some (s\<lparr>hw_mem := mem_put (hw_mem s) (a + of_nat k) m d\<rparr>)"
  using vaddr_write_ram [OF flat_area_ram [OF assms]] assms(1) by (simp add: flat_area_def)

lemma mem_put_away:
  fixes a b :: u32
  assumes "unat a + n \<le> unat b \<or> unat b < unat a" "unat a + n < 4294967296"
  shows "mem_put m a n d b = m b"
proof (rule mem_put_outside)
  show "n \<le> unat (b - a)"
  proof (cases "a \<le> b")
    case True
    then show ?thesis using assms by (auto simp: unat_sub word_le_nat_alt)
  next
    case False
    then have "unat b < unat a" by (simp add: word_le_nat_alt)
    then have "unat (b - a) = unat b + 4294967296 - unat a"
      using unat_less_32 [of a] by (simp add: unat_sub_if_size word_size)
    with assms(2) show ?thesis by simp
  qed
qed

lemma mem_get_away:
  fixes a b :: u32
  assumes "apart_from (a, n) (b, k)" "unat a + n < 4294967296" "unat b + k < 4294967296"
  shows "mem_get (mem_put m a n d) b k = mem_get m b k"
proof (rule mem_get_cong)
  fix i
  assume "i < k"
  with assms show "mem_put m a n d (b + of_nat i) = m (b + of_nat i)"
    by (intro mem_put_away) (auto simp: unat_off apart_from_def)
qed

section \<open>What the device loads\<close>

lemma gpu_load_area:
  assumes "flat_area s a n"
  shows "gpu_load s a n = Some (map (\<lambda>i. hw_mem s (a + of_nat i)) [0..<n])"
proof -
  have "vaddr_read s (a + of_nat i) SREG_DS 1 = Some (ucast (hw_mem s (a + of_nat i)))" if "i < n" for i
    using flat_area_read [OF assms, of i 1] that by (simp add: len_ok_def)
  then have "mapM (\<lambda>i. map_option ucast (vaddr_read s (a + of_nat i) SREG_DS 1)) xs =
      Some (map (\<lambda>i. hw_mem s (a + of_nat i)) xs)" if "set xs \<subseteq> {..<n}" for xs
    using that by (induction xs) simp_all
  then show ?thesis by (simp add: gpu_load_def atLeast0LessThan)
qed

lemma get_u16_area: "i + 2 \<le> n \<Longrightarrow> get_u16 (map (\<lambda>i. m (a + of_nat i)) [0..<n]) i = ucast (mem_get m (a + of_nat i) 2)"
  for a :: u32
  by (rule bit_word_eqI) (auto simp: get_u16_def bit_simps numeral_2_eq_2 ac_simps)

lemma mem_get_4: "mem_get m a 4 = mem_get m a 2 OR push_bit 16 (mem_get m (a + 2) 2)" for a :: u32
  by (rule bit_word_eqI) (auto simp: bit_simps numeral_2_eq_2 numeral_eq_Suc add.assoc)

lemma get_u32_area: "i + 4 \<le> n \<Longrightarrow> get_u32 (map (\<lambda>i. m (a + of_nat i)) [0..<n]) i = mem_get m (a + of_nat i) 4"
  for a :: u32
proof -
  assume i: "i + 4 \<le> n"
  have "ucast (ucast (mem_get m b 2) :: u16) = mem_get m b 2" for b :: u32
    using mem_get_bound [of m b 2] by (intro bit_word_eqI) (auto simp: bit_simps bit_mem_get)
  then show ?thesis using i by (simp add: get_u32_def get_u16_area mem_get_4 ac_simps)
qed

section \<open>Structures that the game writes\<close>

text \<open>Fields of \<open>n\<close> bytes each, written one after the other from \<open>a\<close> on.\<close>

primrec put_seq :: "nat \<Rightarrow> u32 \<Rightarrow> u32 list \<Rightarrow> (u32 \<Rightarrow> u8) \<Rightarrow> u32 \<Rightarrow> u8" where
  "put_seq n a [] m = m"
| "put_seq n a (v # vs) m = put_seq n (a + of_nat n) vs (mem_put m a n v)"

lemma put_seq_outside:
  "unat a + n * length vs < 4294967296 \<Longrightarrow> unat b < unat a \<or> unat a + n * length vs \<le> unat b \<Longrightarrow> put_seq n a vs m b = m b"
proof (induction vs arbitrary: a m)
  case (Cons v vs)
  have u: "unat (a + of_nat n) = unat a + n" using Cons.prems(1) by (simp add: unat_off)
  have "put_seq n (a + of_nat n) vs (mem_put m a n v) b = mem_put m a n v b"
    using Cons.prems by (intro Cons.IH) (auto simp: u)
  also have "\<dots> = m b" using Cons.prems by (intro mem_put_away) auto
  finally show ?case by simp
qed simp

lemma put_seq_away:
  assumes "apart_from (a, n * length vs) (b, k)" "unat a + n * length vs < 4294967296" "unat b + k < 4294967296"
  shows "mem_get (put_seq n a vs m) b k = mem_get m b k"
proof (rule mem_get_cong)
  fix i
  assume "i < k"
  with assms show "put_seq n a vs m (b + of_nat i) = m (b + of_nat i)"
    by (intro put_seq_outside) (auto simp: unat_off apart_from_def)
qed

lemma put_seq_get:
  "n \<le> 4 \<Longrightarrow> i < length vs \<Longrightarrow> unat a + n * length vs < 4294967296 \<Longrightarrow>
   mem_get (put_seq n a vs m) (a + of_nat (n * i)) n = take_bit (8 * n) (vs ! i)"
proof (induction vs arbitrary: a m i)
  case (Cons v vs)
  have u: "unat (a + of_nat n) = unat a + n" using Cons.prems(3) by (simp add: unat_off)
  show ?case
  proof (cases i)
    case 0
    have "mem_get (put_seq n (a + of_nat n) vs (mem_put m a n v)) a n = mem_get (mem_put m a n v) a n"
      using Cons.prems(3) by (intro put_seq_away) (auto simp: apart_from_def u)
    then show ?thesis using Cons.prems(1) by (simp add: 0 mem_get_mem_put_same)
  next
    case (Suc j)
    with Cons.IH [of j "a + of_nat n" "mem_put m a n v"] Cons.prems show ?thesis by (simp add: u add.assoc)
  qed
qed simp

lemma put_seq_same: "n \<le> 4 \<Longrightarrow> unat a + n < 4294967296 \<Longrightarrow> mem_get (put_seq n a [v] m) a n = take_bit (8 * n) v"
  using put_seq_get [of n 0 "[v]" a m] by simp

lemma store_rect_seq:
  assumes "flat_area s a 8"
  shows "store_rect a x y w h s =
    Some (s\<lparr>hw_mem := put_seq 2 a [word_of_int x, word_of_int y, word_of_int w, word_of_int h] (hw_mem s)\<rparr>)"
proof -
  note w = flat_area_write [where k = 0 and m = 2] flat_area_write [where k = 2 and m = 2]
    flat_area_write [where k = 4 and m = 2] flat_area_write [where k = 6 and m = 2]
  have "flat_area (s\<lparr>hw_mem := m\<rparr>) a 8" for m using assms by simp
  then show ?thesis using w [of s a 8] w [of "s\<lparr>hw_mem := _\<rparr>" a 8] assms
    by (simp add: store_rect_def len_ok_def add.assoc)
qed

section \<open>The address, sent in bytes\<close>

lemmas port_numbers = IDE_PORT_BASE_def SERIAL_PORT_def TIMER_PORT_def KEYBOARD_DATA_PORT_def VGA_DAC_READ_INDEX_def
  VGA_DAC_WRITE_INDEX_def VGA_DAC_DATA_def VGA_CRTC_INDEX_def VGA_CRTC_DATA_def GPU_DATA_PORT_BASE_def GPU_CMD_PORT_def

lemma gpu_handlers:
  "map_of pio_handler_table 0x5da = Some gpu_data_handler" "map_of pio_handler_table 0x5db = Some gpu_data_handler"
  "map_of pio_handler_table 0x5dc = Some gpu_data_handler" "map_of pio_handler_table 0x5dd = Some gpu_data_handler"
  "map_of pio_handler_table 0x5de = Some gpu_cmd_handler"
  unfolding pio_handler_table_def port_numbers by simp_all

lemma gpu_out:
  assumes "k < 4"
  shows "out_byte (GPU_DATA_PORT_BASE + of_nat k) v s =
    Some (s\<lparr>io_port := (io_port s)(GPU_DATA_PORT_BASE + of_nat k := v),
      gpu_addr := bf_put (8 * k) 8 (ucast v) (gpu_addr s)\<rparr>)"
proof -
  have "k \<in> {0, 1, 2, 3}" using assms by auto
  then show ?thesis
    by (auto simp: out_byte_def pio_write_def len_ok_def write_io_port_def read_io_port_def in_ports_def pio_handle_def
        gpu_data_handler_def GPU_DATA_PORT_BASE_def gpu_handlers)
qed

lemma octet: "8 * k \<le> i \<Longrightarrow> i < 8 * k + 8 \<Longrightarrow> i div 8 = k \<and> i mod 8 = i - 8 * k" for i k :: nat
proof -
  assume i: "8 * k \<le> i" "i < 8 * k + 8"
  then have "i div 8 = k" by (intro div_nat_eqI) simp_all
  then show ?thesis using minus_mult_div_eq_mod [of i 8] by simp
qed

lemma gpu_addr_bytes:
  "bf_put 24 8 (ucast (m (a + 3))) (bf_put 16 8 (ucast (m (a + 2))) (bf_put 8 8 (ucast (m (a + 1)))
    (bf_put 0 8 (ucast (m a)) g))) = mem_get m a 4" for a :: u32
proof (rule bit_word_eqI)
  fix i
  assume i: "i < LENGTH(32)"
  then consider "i div 8 = 0 \<and> i mod 8 = i - 8 * 0" "i < 8" | "i div 8 = 1 \<and> i mod 8 = i - 8 * 1" "8 \<le> i" "i < 16" |
    "i div 8 = 2 \<and> i mod 8 = i - 8 * 2" "16 \<le> i" "i < 24" | "i div 8 = 3 \<and> i mod 8 = i - 8 * 3" "24 \<le> i" "i < 32"
    using octet [of 0 i] octet [of 1 i] octet [of 2 i] octet [of 3 i] by (simp add: not_less) (meson not_less)
  then show "bit (bf_put 24 8 (ucast (m (a + 3))) (bf_put 16 8 (ucast (m (a + 2))) (bf_put 8 8 (ucast (m (a + 1)))
    (bf_put 0 8 (ucast (m a)) g)))) i = bit (mem_get m a 4) i"
    by cases (simp_all add: bit_mem_get bit_bf_put bit_unsigned_iff, linarith+)
qed

section \<open>The copying loops\<close>

lemma foldM_map: "foldM f (map g xs) s = foldM (\<lambda>x. f (g x)) xs s"
  by (induction xs arbitrary: s) simp_all

lemma foldM_product: "foldM (\<lambda>y. foldM (g y) xs) ys s = foldM (\<lambda>p. g (fst p) (snd p)) (List.product ys xs) s"
  by (induction ys arbitrary: s) (simp_all add: foldM_append foldM_map)

lemma copy_points:
  assumes "\<And>p m. p \<in> set ps \<Longrightarrow> g p (s\<lparr>hw_mem := m\<rparr>) = Some (s\<lparr>hw_mem := m(D p := m (S p))\<rparr>)"
    "\<And>p q. p \<in> set ps \<Longrightarrow> q \<in> set ps \<Longrightarrow> D p \<noteq> S q" "distinct (map D ps)"
  shows "\<exists>m'. foldM g ps (s\<lparr>hw_mem := m\<rparr>) = Some (s\<lparr>hw_mem := m'\<rparr>) \<and>
    (\<forall>p\<in>set ps. m' (D p) = m (S p)) \<and> (\<forall>a. a \<notin> D ` set ps \<longrightarrow> m' a = m a)"
  using assms
proof (induction ps arbitrary: m)
  case (Cons p ps)
  let ?m = "m(D p := m (S p))"
  have "\<exists>m'. foldM g ps (s\<lparr>hw_mem := ?m\<rparr>) = Some (s\<lparr>hw_mem := m'\<rparr>) \<and>
    (\<forall>q\<in>set ps. m' (D q) = ?m (S q)) \<and> (\<forall>a. a \<notin> D ` set ps \<longrightarrow> m' a = ?m a)"
    by (rule Cons.IH) (use Cons.prems in auto)
  then obtain m' where m': "foldM g ps (s\<lparr>hw_mem := ?m\<rparr>) = Some (s\<lparr>hw_mem := m'\<rparr>)"
    "\<forall>q\<in>set ps. m' (D q) = ?m (S q)" "\<forall>a. a \<notin> D ` set ps \<longrightarrow> m' a = ?m a" by blast
  have "m' (D p) = m (S p)" using m'(3) Cons.prems(3) by auto
  moreover have "\<forall>q\<in>set ps. m' (D q) = m (S q)"
  proof
    fix q
    assume "q \<in> set ps"
    then show "m' (D q) = m (S q)" using m'(2) Cons.prems(2) [of p q] by auto
  qed
  moreover have "foldM g (p # ps) (s\<lparr>hw_mem := m\<rparr>) = Some (s\<lparr>hw_mem := m'\<rparr>)"
    by (simp only: foldM.simps Cons.prems(1) [OF list.set_intros(1)] bind.bind_lunit m'(1))
  ultimately show ?case using m'(3) by (intro exI [of _ m']) simp
next
  case Nil
  show ?case by (rule exI [of _ m]) simp
qed

text \<open>The address of the pixel in column \<open>x\<close> and row \<open>y\<close> of a surface.\<close>

definition pixel_at :: "u32 \<Rightarrow> nat \<Rightarrow> nat \<Rightarrow> nat \<Rightarrow> u32" where
  "pixel_at pix w x y = pix + of_nat (y * w + x)"

lemma pixel_inside: "x < w \<Longrightarrow> y < h \<Longrightarrow> y * w + x < w * h" for x y w h :: nat
proof -
  assume a: "x < w" "y < h"
  then have "y * w + x < (y + 1) * w" by simp
  also have "\<dots> \<le> h * w" using a by (intro mult_right_mono) auto
  finally show ?thesis by (simp add: ac_simps)
qed

lemma unat_pixel:
  "flat_area s pix (w * h) \<Longrightarrow> x < w \<Longrightarrow> y < h \<Longrightarrow> unat (pixel_at pix w x y) = unat pix + (y * w + x)"
  using pixel_inside [of x w y h] flat_area_bound [of s pix "w * h"] by (simp add: pixel_at_def unat_off del: of_nat_add of_nat_mult)

lemma pixel_inj: "x < w \<Longrightarrow> x' < w \<Longrightarrow> y * w + x = y' * w + x' \<Longrightarrow> x = x' \<and> y = y'" for x y w :: nat
  by (metis add.commute div_mult_self3 div_less mod_less mod_mult_self3 less_nat_zero_code add.right_neutral)

lemma gpu_pixel_eq:
  assumes "flat_area s spix (sw * sh)" "flat_area s dpix (dw * dh)" "x < sw" "y < sh" "x < dw" "y < dh"
  shows "gpu_pixel spix (of_nat sw) dpix (of_nat dw) (of_nat y) (of_nat x) (s\<lparr>hw_mem := m\<rparr>) =
    Some (s\<lparr>hw_mem := m(pixel_at dpix dw x y := m (pixel_at spix sw x y))\<rparr>)"
proof -
  have r: "y * sw + x + 1 \<le> sw * sh" "y * dw + x + 1 \<le> dw * dh"
    using pixel_inside [of x sw y sh] pixel_inside [of x dw y dh] assms by simp_all
  have p: "pix + of_nat y * of_nat w + of_nat x = pix + (of_nat (y * w + x) :: u32)" for pix w by simp
  have "ucast (ucast (m a) AND 0xff :: u32) = m a" for a
    by (rule bit_word_eqI) (auto simp: bit_simps and_ff dest: bit_imp_le_length)
  then show ?thesis
    using flat_area_read [of "s\<lparr>hw_mem := m\<rparr>" spix "sw * sh" "y * sw + x" 1] r(1) assms(1)
      flat_area_write [of "s\<lparr>hw_mem := m\<rparr>" dpix "dw * dh" "y * dw + x" 1] r(2) assms(2)
    unfolding gpu_pixel_def p pixel_at_def by (simp add: len_ok_def del: of_nat_add of_nat_mult)
qed

lemma device_copies:
  assumes src: "flat_area s spix (sw * sh)" and dst: "flat_area s dpix (dw * dh)"
    and apart: "apart_from (spix, sw * sh) (dpix, dw * dh)"
    and fit: "sx + w \<le> sw" "sy + h \<le> sh" "sx + w \<le> dw" "sy + h \<le> dh"
  shows "\<exists>m'. foldM (\<lambda>y. foldM (\<lambda>x. gpu_pixel spix (of_nat sw) dpix (of_nat dw) (of_nat sy + of_nat y) (of_nat sx + of_nat x))
        [0..<w]) [0..<h] (s\<lparr>hw_mem := m\<rparr>) = Some (s\<lparr>hw_mem := m'\<rparr>) \<and>
      (\<forall>x<w. \<forall>y<h. m' (pixel_at dpix dw (sx + x) (sy + y)) = m (pixel_at spix sw (sx + x) (sy + y))) \<and>
      (\<forall>a. (\<forall>x<w. \<forall>y<h. a \<noteq> pixel_at dpix dw (sx + x) (sy + y)) \<longrightarrow> m' a = m a)"
proof -
  let ?D = "\<lambda>p. pixel_at dpix dw (sx + snd p) (sy + fst p)" and ?S = "\<lambda>p. pixel_at spix sw (sx + snd p) (sy + fst p)"
  let ?g = "\<lambda>y x. gpu_pixel spix (of_nat sw) dpix (of_nat dw) (of_nat sy + of_nat y) (of_nat sx + of_nat x)"
  let ?ps = "List.product [0..<h] [0..<w]"
  have D: "unat (?D p) = unat dpix + ((sy + fst p) * dw + (sx + snd p))" "(sy + fst p) * dw + (sx + snd p) < dw * dh"
    and S: "unat (?S p) = unat spix + ((sy + fst p) * sw + (sx + snd p))" "(sy + fst p) * sw + (sx + snd p) < sw * sh"
    if "p \<in> set ?ps" for p
    using that fit unat_pixel [OF dst, of "sx + snd p" "sy + fst p"] unat_pixel [OF src, of "sx + snd p" "sy + fst p"]
      pixel_inside [of "sx + snd p" dw "sy + fst p" dh] pixel_inside [of "sx + snd p" sw "sy + fst p" sh] by auto
  have "\<exists>m'. foldM (\<lambda>p. ?g (fst p) (snd p)) ?ps (s\<lparr>hw_mem := m\<rparr>) = Some (s\<lparr>hw_mem := m'\<rparr>) \<and>
    (\<forall>p\<in>set ?ps. m' (?D p) = m (?S p)) \<and> (\<forall>a. a \<notin> ?D ` set ?ps \<longrightarrow> m' a = m a)"
  proof (rule copy_points)
    fix p m
    assume "p \<in> set ?ps"
    with gpu_pixel_eq [OF src dst, of "sx + snd p" "sy + fst p" m] fit
    show "?g (fst p) (snd p) (s\<lparr>hw_mem := m\<rparr>) = Some (s\<lparr>hw_mem := m(?D p := m (?S p))\<rparr>)" by auto
  next
    fix p q
    assume "p \<in> set ?ps" "q \<in> set ?ps"
    from D [OF this(1)] S [OF this(2)] apart have "unat (?D p) \<noteq> unat (?S q)" by (auto simp: apart_from_def)
    then show "?D p \<noteq> ?S q" by metis
  next
    have "inj_on ?D (set ?ps)"
    proof (rule inj_onI)
      fix p q
      assume p: "p \<in> set ?ps" and q: "q \<in> set ?ps" and e: "?D p = ?D q"
      have "(sy + fst p) * dw + (sx + snd p) = (sy + fst q) * dw + (sx + snd q)" using D [OF p] D [OF q] e by simp
      from pixel_inj [OF _ _ this] p q fit show "p = q" by (auto simp: prod_eq_iff)
    qed
    then show "distinct (map ?D ?ps)" by (simp add: distinct_map distinct_product)
  qed
  then obtain m' where m': "foldM (\<lambda>p. ?g (fst p) (snd p)) ?ps (s\<lparr>hw_mem := m\<rparr>) = Some (s\<lparr>hw_mem := m'\<rparr>)"
    "\<And>p. p \<in> set ?ps \<Longrightarrow> m' (?D p) = m (?S p)" "\<And>a. a \<notin> ?D ` set ?ps \<Longrightarrow> m' a = m a" by blast
  show ?thesis
  proof (intro exI conjI allI impI)
    show "foldM (\<lambda>y. foldM (?g y) [0..<w]) [0..<h] (s\<lparr>hw_mem := m\<rparr>) = Some (s\<lparr>hw_mem := m'\<rparr>)"
      unfolding foldM_product by (rule m'(1))
    show "m' (pixel_at dpix dw (sx + x) (sy + y)) = m (pixel_at spix sw (sx + x) (sy + y))" if "x < w" "y < h" for x y
      using m'(2) [of "(y, x)"] that by simp
    show "m' a = m a" if "\<forall>x<w. \<forall>y<h. a \<noteq> pixel_at dpix dw (sx + x) (sy + y)" for a
      by (rule m'(3)) (use that in \<open>clarsimp, blast\<close>)
  qed
qed

section \<open>The whole call\<close>

lemma take_bit_32 [simp]: "take_bit 32 w = w" for w :: u32
  by (rule take_bit_word_eq_self) simp

lemma store_u32_area:
  "flat_area s a n \<Longrightarrow> k + 4 \<le> n \<Longrightarrow> store_u32 (a + of_nat k) v s = Some (s\<lparr>hw_mem := mem_put (hw_mem s) (a + of_nat k) 4 v\<rparr>)"
  by (simp add: store_u32_def flat_area_write len_ok_def)

lemma send_byte_area:
  assumes "flat_area s a 4" "k < 4"
  shows "\<exists>q'. send_byte a k (s\<lparr>io_port := q, gpu_addr := g\<rparr>) =
    Some (s\<lparr>io_port := q', gpu_addr := bf_put (8 * k) 8 (ucast (hw_mem s (a + of_nat k))) g\<rparr>)"
proof -
  have "vaddr_read (s\<lparr>io_port := q, gpu_addr := g\<rparr>) (a + of_nat k) SREG_DS 1 = Some (ucast (hw_mem s (a + of_nat k)))"
    using flat_area_read [of "s\<lparr>io_port := q, gpu_addr := g\<rparr>" a 4 k 1] assms by (simp add: len_ok_def)
  then show ?thesis by (simp add: send_byte_def gpu_out [OF assms(2)]) blast
qed

lemma send_address:
  assumes "flat_area s a 4"
  shows "\<exists>q. foldM (send_byte a) [0..<4] s = Some (s\<lparr>io_port := q, gpu_addr := mem_get (hw_mem s) a 4\<rparr>)"
proof -
  let ?g = "\<lambda>k g. bf_put (8 * k) 8 (ucast (hw_mem s (a + of_nat k))) g"
  note step = send_byte_area [OF assms]
  have n: "0 < (4::nat)" "1 < (4::nat)" "2 < (4::nat)" "3 < (4::nat)" by simp_all
  have e: "s = s\<lparr>io_port := io_port s, gpu_addr := gpu_addr s\<rparr>" by simp
  from step [OF n(1), where g = "gpu_addr s" and q = "io_port s", folded e]
  obtain q0 where 0: "send_byte a 0 s = Some (s\<lparr>io_port := q0, gpu_addr := ?g 0 (gpu_addr s)\<rparr>)" by (rule exE)
  from step [OF n(2), where g = "?g 0 (gpu_addr s)" and q = q0]
  obtain q1 where 1: "send_byte a 1 (s\<lparr>io_port := q0, gpu_addr := ?g 0 (gpu_addr s)\<rparr>) =
      Some (s\<lparr>io_port := q1, gpu_addr := ?g 1 (?g 0 (gpu_addr s))\<rparr>)" by (rule exE)
  from step [OF n(3), where g = "?g 1 (?g 0 (gpu_addr s))" and q = q1]
  obtain q2 where 2: "send_byte a 2 (s\<lparr>io_port := q1, gpu_addr := ?g 1 (?g 0 (gpu_addr s))\<rparr>) =
      Some (s\<lparr>io_port := q2, gpu_addr := ?g 2 (?g 1 (?g 0 (gpu_addr s)))\<rparr>)" by (rule exE)
  from step [OF n(4), where g = "?g 2 (?g 1 (?g 0 (gpu_addr s)))" and q = q2]
  obtain q3 where 3: "send_byte a 3 (s\<lparr>io_port := q2, gpu_addr := ?g 2 (?g 1 (?g 0 (gpu_addr s)))\<rparr>) =
      Some (s\<lparr>io_port := q3, gpu_addr := ?g 3 (?g 2 (?g 1 (?g 0 (gpu_addr s))))\<rparr>)" by (rule exE)
  have "foldM (send_byte a) [0, 1, 2, 3] s = Some (s\<lparr>io_port := q3, gpu_addr := ?g 3 (?g 2 (?g 1 (?g 0 (gpu_addr s))))\<rparr>)"
    unfolding foldM.simps by (simp only: 0 1 2 3 bind.bind_lunit)
  moreover have "[0..<4] = [0, 1, 2, 3 :: nat]" by (simp add: upt_rec)
  ultimately show ?thesis using gpu_addr_bytes [of "hw_mem s" a "gpu_addr s"]
    by (intro exI [of _ q3]) (simp del: foldM.simps)
qed

lemma gpu_blit_command:
  assumes "flat_area s (cmd_at f) 16" "flat_area s (addr_at f) 4"
  shows "\<exists>q. gpu_blit f a b c d s = gpu_cmd_handler GPU_CMD_PORT 1 True
    (s\<lparr>hw_mem := put_seq 4 (addr_at f) [cmd_at f] (put_seq 4 (cmd_at f) [a, b, c, d] (hw_mem s)), io_port := q, gpu_addr := cmd_at f\<rparr>)"
proof -
  let ?t = "s\<lparr>hw_mem := put_seq 4 (addr_at f) [cmd_at f] (put_seq 4 (cmd_at f) [a, b, c, d] (hw_mem s))\<rparr>"
  have st: "store_u32 (cmd_at f) v s = Some (s\<lparr>hw_mem := mem_put (hw_mem s) (cmd_at f) 4 v\<rparr>)"
    "store_u32 (cmd_at f + 4) v (s\<lparr>hw_mem := m\<rparr>) = Some (s\<lparr>hw_mem := mem_put m (cmd_at f + 4) 4 v\<rparr>)"
    "store_u32 (cmd_at f + 8) v (s\<lparr>hw_mem := m\<rparr>) = Some (s\<lparr>hw_mem := mem_put m (cmd_at f + 8) 4 v\<rparr>)"
    "store_u32 (cmd_at f + 12) v (s\<lparr>hw_mem := m\<rparr>) = Some (s\<lparr>hw_mem := mem_put m (cmd_at f + 12) 4 v\<rparr>)"
    "store_u32 (addr_at f) v (s\<lparr>hw_mem := m\<rparr>) = Some (s\<lparr>hw_mem := mem_put m (addr_at f) 4 v\<rparr>)" for v m
    using assms store_u32_area [of s "cmd_at f" 16 0 v] store_u32_area [of "s\<lparr>hw_mem := m\<rparr>" "cmd_at f" 16 4 v]
      store_u32_area [of "s\<lparr>hw_mem := m\<rparr>" "cmd_at f" 16 8 v] store_u32_area [of "s\<lparr>hw_mem := m\<rparr>" "cmd_at f" 16 12 v]
      store_u32_area [of "s\<lparr>hw_mem := m\<rparr>" "addr_at f" 4 0 v] by simp_all
  have "unat (addr_at f) + 4 < 4294967296" using flat_area_bound [OF assms(2)] by simp
  then have "mem_get (hw_mem ?t) (addr_at f) 4 = cmd_at f" using put_seq_same [of 4 "addr_at f"] by (simp del: put_seq.simps)
  moreover have "flat_area ?t (addr_at f) 4" using assms by simp
  ultimately obtain q where "foldM (send_byte (addr_at f)) [0..<4] ?t = Some (?t\<lparr>io_port := q, gpu_addr := cmd_at f\<rparr>)"
    using send_address [of ?t "addr_at f"] by auto
  moreover have "gpu_blit f a b c d s = do { s \<leftarrow> foldM (send_byte (addr_at f)) [0..<4] ?t; out_byte GPU_CMD_PORT BLIT_CMD s }"
    unfolding gpu_blit_def by (simp add: st add.assoc del: upt_rec_numeral)
  moreover have "out_byte GPU_CMD_PORT BLIT_CMD t =
      gpu_cmd_handler GPU_CMD_PORT 1 True (t\<lparr>io_port := (io_port t)(GPU_CMD_PORT := BLIT_CMD)\<rparr>)" for t
    by (simp add: out_byte_def pio_write_def len_ok_def write_io_port_def in_ports_def pio_handle_def GPU_CMD_PORT_def gpu_handlers)
  moreover have "t\<lparr>gpu_addr := g, io_port := p\<rparr> = t\<lparr>io_port := p, gpu_addr := g\<rparr>" for t :: machine and g p by simp
  ultimately show ?thesis by (simp del: put_seq.simps upt_rec_numeral) blast
qed

text \<open>
  The areas of a call: the local variables, the two structures, and the pixels of the source (\<open>sw\<close> by \<open>sh\<close> bytes
  from \<open>spix\<close>) and of the target (\<open>dw\<close> by \<open>dh\<close> bytes from \<open>dpix\<close>).
\<close>

primrec all_apart :: "(u32 \<times> nat) list \<Rightarrow> bool" where
  "all_apart [] = True"
| "all_apart (p # ps) = (list_all (apart_from p) ps \<and> all_apart ps)"

definition blit_areas :: "blit_frame \<Rightarrow> u32 \<Rightarrow> u32 \<Rightarrow> u32 \<times> nat \<Rightarrow> u32 \<times> nat \<Rightarrow> (u32 \<times> nat) list" where
  "blit_areas f src dst sarea darea =
     [(cmd_at f, 16), (addr_at f, 4), (srcr_at f, 8), (dstr_at f, 8), (src, 36), (dst, 36), sarea, darea]"

definition locals :: "blit_frame \<Rightarrow> (u32 \<times> nat) list" where
  "locals f = [(cmd_at f, 16), (addr_at f, 4), (srcr_at f, 8), (dstr_at f, 8)]"

definition areas_ok :: "machine \<Rightarrow> (u32 \<times> nat) list \<Rightarrow> bool" where
  "areas_ok s as \<longleftrightarrow> list_all (\<lambda>(a, n). flat_area s a n) as \<and> all_apart as"

text \<open>A structure \<open>SDL_Surface\<close>: its width, height and pixels.\<close>

definition surface_at :: "machine \<Rightarrow> u32 \<Rightarrow> nat \<Rightarrow> nat \<Rightarrow> u32 \<Rightarrow> bool" where
  "surface_at s a w h pix \<longleftrightarrow> w < 2 ^ 31 \<and> h < 2 ^ 31 \<and> mem_get (hw_mem s) (a + 8) 4 = of_nat w \<and>
     mem_get (hw_mem s) (a + 12) 4 = of_nat h \<and> mem_get (hw_mem s) (a + 32) 4 = pix"

definition stores :: "blit_frame \<Rightarrow> u32 \<Rightarrow> u32 \<Rightarrow> u32 list \<Rightarrow> u32 list \<Rightarrow> (u32 \<Rightarrow> u8) \<Rightarrow> u32 \<Rightarrow> u8" where
  "stores f src dst srcr dstr m = put_seq 4 (addr_at f) [cmd_at f] (put_seq 4 (cmd_at f) [src, dst, srcr_at f, dstr_at f]
     (put_seq 2 (dstr_at f) dstr (put_seq 2 (srcr_at f) srcr m)))"

lemma stores_away:
  assumes "list_all (\<lambda>p. apart_from p (b, k)) (locals f)" "length srcr = 4" "length dstr = 4"
    "areas_ok s (locals f)" "unat b + k < 4294967296"
  shows "mem_get (stores f src dst srcr dstr m) b k = mem_get m b k"
proof -
  have "unat (cmd_at f) + 16 < 4294967296" "unat (addr_at f) + 4 < 4294967296" "unat (srcr_at f) + 8 < 4294967296"
    "unat (dstr_at f) + 8 < 4294967296"
    using assms(4) by (auto simp: areas_ok_def locals_def dest!: flat_area_bound)
  with assms show ?thesis by (simp add: stores_def locals_def put_seq_away del: put_seq.simps)
qed

lemma stores_outside:
  assumes "list_all (\<lambda>(a, n). unat b < unat a \<or> unat a + n \<le> unat b) (locals f)" "length srcr = 4" "length dstr = 4"
    "areas_ok s (locals f)"
  shows "stores f src dst srcr dstr m b = m b"
proof -
  have "unat (cmd_at f) + 16 < 4294967296" "unat (addr_at f) + 4 < 4294967296" "unat (srcr_at f) + 8 < 4294967296"
    "unat (dstr_at f) + 8 < 4294967296"
    using assms(4) by (auto simp: areas_ok_def locals_def dest!: flat_area_bound)
  with assms show ?thesis by (simp add: stores_def locals_def put_seq_outside del: put_seq.simps)
qed

text \<open>The device's loops, with the fields that it loads.\<close>

lemma gpu_cmd_loads:
  assumes "flat_area u (gpu_addr u) 16" "mem_get (hw_mem u) (gpu_addr u) 4 = c0" "mem_get (hw_mem u) (gpu_addr u + 4) 4 = c1"
    "mem_get (hw_mem u) (gpu_addr u + 8) 4 = c2" "mem_get (hw_mem u) (gpu_addr u + 12) 4 = c3"
    "flat_area u c0 36" "flat_area u c1 36" "flat_area u c2 8" "flat_area u c3 8"
  shows "gpu_cmd_handler p n True u =
    foldM (\<lambda>dy. foldM (\<lambda>dx. gpu_pixel (mem_get (hw_mem u) (c0 + 32) 4) (mem_get (hw_mem u) (c0 + 8) 4)
        (mem_get (hw_mem u) (c1 + 32) 4) (mem_get (hw_mem u) (c1 + 8) 4)
        (scast (ucast (mem_get (hw_mem u) (c2 + 2) 2) :: u16) + of_nat dy) (scast (ucast (mem_get (hw_mem u) c2 2) :: u16) + of_nat dx))
      [0..<unat (ucast (mem_get (hw_mem u) (c2 + 4) 2) :: u16)]) [0..<unat (ucast (mem_get (hw_mem u) (c2 + 6) 2) :: u16)] u"
proof -
  note g = get_u32_area [where n = 16] get_u32_area [where n = 36] get_u16_area [where n = 8]
  have "get_u32 (map (\<lambda>i. m (a + of_nat i)) [0..<16]) 0 = mem_get m a 4"
    "get_u32 (map (\<lambda>i. m (a + of_nat i)) [0..<16]) 4 = mem_get m (a + 4) 4"
    "get_u32 (map (\<lambda>i. m (a + of_nat i)) [0..<16]) 8 = mem_get m (a + 8) 4"
    "get_u32 (map (\<lambda>i. m (a + of_nat i)) [0..<16]) 12 = mem_get m (a + 12) 4"
    "get_u32 (map (\<lambda>i. m (a + of_nat i)) [0..<36]) 8 = mem_get m (a + 8) 4"
    "get_u32 (map (\<lambda>i. m (a + of_nat i)) [0..<36]) 32 = mem_get m (a + 32) 4"
    "get_u16 (map (\<lambda>i. m (a + of_nat i)) [0..<8]) 0 = ucast (mem_get m a 2)"
    "get_u16 (map (\<lambda>i. m (a + of_nat i)) [0..<8]) 2 = ucast (mem_get m (a + 2) 2)"
    "get_u16 (map (\<lambda>i. m (a + of_nat i)) [0..<8]) 4 = ucast (mem_get m (a + 4) 2)"
    "get_u16 (map (\<lambda>i. m (a + of_nat i)) [0..<8]) 6 = ucast (mem_get m (a + 6) 2)" for m and a :: u32
    using g(1) [of 0 m a] g(1) [of 4 m a] g(1) [of 8 m a] g(1) [of 12 m a] g(2) [of 8 m a] g(2) [of 32 m a]
      g(3) [of 0 m a] g(3) [of 2 m a] g(3) [of 4 m a] g(3) [of 6 m a]
    by (simp_all del: upt_rec_numeral)
  note f = this
  show ?thesis
    by (simp add: gpu_cmd_handler_def gpu_load_area assms f Let_def del: upt_rec_numeral)
qed

lemma source_rect_range: "source_rect s src r = Some (x, y, w, h) \<Longrightarrow> - 32768 \<le> x \<and> x < 32768 \<and> - 32768 \<le> y \<and> y < 32768"
  using sint_ge [where 'a = 16] sint_lt [where 'a = 16]
  by (auto simp: source_rect_def load_s16_def load_s32_def load_u16_def split: if_splits bind_splits)

lemma half_word:
  "0 \<le> x \<Longrightarrow> x < 32768 \<Longrightarrow> scast (ucast (take_bit 16 (word_of_int x :: u32)) :: u16) = (of_nat (nat x) :: u32)"
  "w < 65536 \<Longrightarrow> unat (ucast (take_bit 16 (of_nat w :: u32)) :: u16) = w"
proof -
  have e: "ucast (take_bit 16 (v :: u32)) = (ucast v :: u16)" for v by (rule bit_word_eqI) (auto simp: bit_simps)
  show "unat (ucast (take_bit 16 (of_nat w :: u32)) :: u16) = w" if "w < 65536"
    unfolding e using that by (simp add: unsigned_ucast_eq unsigned_of_nat take_bit_nat_eq_self)
  show "scast (ucast (take_bit 16 (word_of_int x :: u32)) :: u16) = (of_nat (nat x) :: u32)" if "0 \<le> x" "x < 32768"
  proof -
    have "ucast (word_of_int x :: u32) = (word_of_int x :: u16)" by (rule bit_word_eqI) (auto simp: bit_simps)
    moreover have "sint (word_of_int x :: u16) = x" using that by (simp add: signed_of_int signed_take_bit_int_eq_self)
    ultimately show ?thesis using that unfolding e by (simp add: scast_eq)
  qed
qed

lemma apart_sub:
  "apart_from p (a, n) \<Longrightarrow> k + m \<le> n \<Longrightarrow> unat a + n < 4294967296 \<Longrightarrow> apart_from p (a + of_nat k, m)" for a :: u32
  by (auto simp: apart_from_def unat_off)

lemma apart_offset: "apart_from (a, n) p \<Longrightarrow> k + m \<le> n \<Longrightarrow> unat a + n < 4294967296 \<Longrightarrow> apart_from (a + of_nat k, m) p" for a :: u32
  by (auto simp: apart_from_def unat_off)

lemma locals_ok:
  assumes "areas_ok s (blit_areas f src dst sa da)"
  shows "areas_ok s (locals f)" "unat (cmd_at f) + 16 < 4294967296" "unat (addr_at f) + 4 < 4294967296"
    "unat (srcr_at f) + 8 < 4294967296" "unat (dstr_at f) + 8 < 4294967296"
  using assms by (auto simp: areas_ok_def locals_def blit_areas_def dest!: flat_area_bound)

text \<open>What the command and the source rectangle hold when the device reads them.\<close>

lemma stores_fields:
  assumes "areas_ok s (blit_areas f src dst sa da)" "length R = 4" "length D = 4"
  shows "i < 4 \<Longrightarrow> mem_get (stores f a b R D m) (cmd_at f + of_nat (4 * i)) 4 = [a, b, srcr_at f, dstr_at f] ! i"
    and "i < 4 \<Longrightarrow> mem_get (stores f a b R D m) (srcr_at f + of_nat (2 * i)) 2 = take_bit 16 (R ! i)"
proof -
  note l = locals_ok [OF assms(1)]
  have ap: "apart_from (addr_at f, 4) (cmd_at f, 16)" "apart_from (addr_at f, 4) (srcr_at f, 8)"
    "apart_from (cmd_at f, 16) (srcr_at f, 8)" "apart_from (dstr_at f, 8) (srcr_at f, 8)"
    using assms(1) by (auto simp: areas_ok_def blit_areas_def apart_from_def)
  note del = put_seq.simps of_nat_mult
  show "mem_get (stores f a b R D m) (cmd_at f + of_nat (4 * i)) 4 = [a, b, srcr_at f, dstr_at f] ! i" if i: "i < 4"
  proof -
    have "mem_get (stores f a b R D m) (cmd_at f + of_nat (4 * i)) 4 =
        mem_get (put_seq 4 (cmd_at f) [a, b, srcr_at f, dstr_at f] (put_seq 2 (dstr_at f) D (put_seq 2 (srcr_at f) R m)))
          (cmd_at f + of_nat (4 * i)) 4"
      unfolding stores_def using apart_sub [OF ap(1), of "4 * i" 4] l i
      by (intro put_seq_away) (simp_all add: unat_off del: del)
    then show ?thesis using i l by (simp add: put_seq_get del: del nth_Cons)
  qed
  show "mem_get (stores f a b R D m) (srcr_at f + of_nat (2 * i)) 2 = take_bit 16 (R ! i)" if i: "i < 4"
  proof -
    have "apart_from (addr_at f, 4) (srcr_at f + of_nat (2 * i), 2)" "apart_from (cmd_at f, 16) (srcr_at f + of_nat (2 * i), 2)"
      "apart_from (dstr_at f, 8) (srcr_at f + of_nat (2 * i), 2)" "unat (srcr_at f + of_nat (2 * i)) + 2 < 4294967296"
      using apart_sub [OF ap(2), of "2 * i" 2] apart_sub [OF ap(3), of "2 * i" 2] apart_sub [OF ap(4), of "2 * i" 2] l i
      by (simp_all add: unat_off del: del)
    then have "mem_get (stores f a b R D m) (srcr_at f + of_nat (2 * i)) 2 = mem_get (put_seq 2 (srcr_at f) R m) (srcr_at f + of_nat (2 * i)) 2"
      using l assms(2,3) by (simp add: stores_def put_seq_away del: del)
    then show ?thesis using i l assms(2) by (simp add: put_seq_get del: del)
  qed
qed

lemma stores_struct:
  assumes "areas_ok s (blit_areas f src dst sa da)" "length R = 4" "length D = 4" "k + 4 \<le> 36"
  shows "mem_get (stores f a b R D m) (src + of_nat k) 4 = mem_get m (src + of_nat k) 4"
    and "mem_get (stores f a b R D m) (dst + of_nat k) 4 = mem_get m (dst + of_nat k) 4"
proof -
  have "unat src + 36 < 4294967296" "unat dst + 36 < 4294967296"
    using assms(1) by (auto simp: areas_ok_def blit_areas_def dest!: flat_area_bound)
  moreover have "list_all (\<lambda>p. apart_from p (src, 36) \<and> apart_from p (dst, 36)) (locals f)"
    using assms(1) by (auto simp: areas_ok_def blit_areas_def locals_def)
  ultimately show "mem_get (stores f a b R D m) (src + of_nat k) 4 = mem_get m (src + of_nat k) 4"
    "mem_get (stores f a b R D m) (dst + of_nat k) 4 = mem_get m (dst + of_nat k) 4"
    using assms(2-4) locals_ok(1) [OF assms(1)]
    by (intro stores_away; auto simp: list_all_iff unat_off intro!: apart_sub [OF _ assms(4)])+
qed

text \<open>The command reaches the device with everything in place.\<close>

lemma blit_runs_device:
  assumes areas: "areas_ok s (blit_areas f src dst (spix, sn) (dpix, dn))" and null: "src \<noteq> 0" "dst \<noteq> 0"
    and surfaces: "surface_at s src sw sh spix" "surface_at s dst dw dh dpix"
    and args: "source_rect s src srcrect = Some (int sx, int sy, w0, h0)" "target_pos s dstrect = Some (dx, dy)"
    and clip: "int w = min w0 (int dw - dx)" "int h = min h0 (int dh - dy)" "w < 65536" "h < 65536"
  shows "\<exists>R D q. length R = 4 \<and> length D = 4 \<and> SDL_BlitSurface f src srcrect dst dstrect s =
    foldM (\<lambda>y. foldM (\<lambda>x. gpu_pixel spix (of_nat sw) dpix (of_nat dw) (of_nat sy + of_nat y) (of_nat sx + of_nat x)) [0..<w]) [0..<h]
      (s\<lparr>hw_mem := stores f src dst R D (hw_mem s), io_port := q, gpu_addr := cmd_at f\<rparr>)"
proof -
  let ?R = "[word_of_int (int sx), word_of_int (int sy), word_of_int (int w), word_of_int (int h)] :: u32 list"
  let ?D = "[word_of_int dx, word_of_int dy, word_of_int (int w), word_of_int (int h)] :: u32 list"
  have fl: "flat_area s (cmd_at f) 16" "flat_area s (addr_at f) 4" "flat_area s (srcr_at f) 8" "flat_area s (dstr_at f) 8"
    "flat_area s src 36" "flat_area s dst 36" using areas by (simp_all add: areas_ok_def blit_areas_def)
  have dim: "load_s32 s (dst + 8) = Some (int dw)" "load_s32 s (dst + 12) = Some (int dh)"
    using flat_area_read [OF fl(6), of 8 4] flat_area_read [OF fl(6), of 12 4] surfaces(2)
    by (simp_all add: load_s32_def len_ok_def surface_at_def signed_of_nat signed_take_bit_int_eq_self)
  have cw: "(if int dw - dx < w0 then int dw - dx else w0) = int w" "(if int dh - dy < h0 then int dh - dy else h0) = int h"
    using clip by (simp_all add: min_def)
  let ?s = "s\<lparr>hw_mem := put_seq 2 (dstr_at f) ?D (put_seq 2 (srcr_at f) ?R (hw_mem s))\<rparr>"
  have "SDL_BlitSurface f src srcrect dst dstrect s = gpu_blit f src dst (srcr_at f) (dstr_at f) ?s"
    using null by (simp add: SDL_BlitSurface_def args dim cw Let_def store_rect_seq fl del: put_seq.simps)
  moreover obtain q where "gpu_blit f src dst (srcr_at f) (dstr_at f) ?s = gpu_cmd_handler GPU_CMD_PORT 1 True
      (?s\<lparr>hw_mem := stores f src dst ?R ?D (hw_mem s), io_port := q, gpu_addr := cmd_at f\<rparr>)"
    using gpu_blit_command [of ?s f src dst "srcr_at f" "dstr_at f"] fl by (auto simp: stores_def simp del: put_seq.simps)
  moreover let ?u = "s\<lparr>hw_mem := stores f src dst ?R ?D (hw_mem s), io_port := q, gpu_addr := cmd_at f\<rparr>"
  note c = stores_fields [OF areas, of ?R ?D, where a = src and b = dst and m = "hw_mem s"]
  note st = stores_struct [OF areas, of ?R ?D, where a = src and b = dst and m = "hw_mem s"]
  have "gpu_cmd_handler GPU_CMD_PORT 1 True ?u =
      foldM (\<lambda>y. foldM (\<lambda>x. gpu_pixel spix (of_nat sw) dpix (of_nat dw) (of_nat sy + of_nat y) (of_nat sx + of_nat x)) [0..<w]) [0..<h] ?u"
  proof -
    have c': "mem_get (hw_mem ?u) (gpu_addr ?u) 4 = src" "mem_get (hw_mem ?u) (gpu_addr ?u + 4) 4 = dst"
      "mem_get (hw_mem ?u) (gpu_addr ?u + 8) 4 = srcr_at f" "mem_get (hw_mem ?u) (gpu_addr ?u + 12) 4 = dstr_at f"
      using c(1) [of 0] c(1) [of 1] c(1) [of 2] c(1) [of 3] by simp_all
    have r: "mem_get (hw_mem ?u) (srcr_at f) 2 = take_bit 16 (word_of_int (int sx))"
      "mem_get (hw_mem ?u) (srcr_at f + 2) 2 = take_bit 16 (word_of_int (int sy))"
      "mem_get (hw_mem ?u) (srcr_at f + 4) 2 = take_bit 16 (of_nat w)" "mem_get (hw_mem ?u) (srcr_at f + 6) 2 = take_bit 16 (of_nat h)"
      using c(2) [of 0] c(2) [of 1] c(2) [of 2] c(2) [of 3] by simp_all
    have t: "mem_get (hw_mem ?u) (src + 8) 4 = of_nat sw" "mem_get (hw_mem ?u) (src + 32) 4 = spix"
      "mem_get (hw_mem ?u) (dst + 8) 4 = of_nat dw" "mem_get (hw_mem ?u) (dst + 32) 4 = dpix"
      using st [of 8] st [of 32] surfaces by (simp_all add: surface_at_def)
    have u: "flat_area ?u (gpu_addr ?u) 16" "flat_area ?u src 36" "flat_area ?u dst 36" "flat_area ?u (srcr_at f) 8"
      "flat_area ?u (dstr_at f) 8" using fl by simp_all
    have x: "0 \<le> int sx" "int sx < 32768" "0 \<le> int sy" "int sy < 32768" using source_rect_range [OF args(1)] by simp_all
    show ?thesis
      unfolding gpu_cmd_loads [OF u(1) c' u(2-5)]
      by (simp only: r t half_word(1) [OF x(1,2)] half_word(1) [OF x(3,4)] half_word(2) [OF clip(3)] half_word(2) [OF clip(4)] nat_int)
  qed
  ultimately show ?thesis by (intro exI [of _ ?R] exI [of _ ?D] exI [of _ q]) (simp del: put_seq.simps)
qed

text \<open>C37: A blit in the game goes through the port bytes and the command structure to the emulated device and copies the
  rectangle of the source, clipped to what is left of the target at the wanted position, byte for byte, with
  nothing else of the memory changed outside the game's local variables. It copies to the
  place that the rectangle has in the source, not to the wanted position \<open>(dx, dy)\<close>: the device loads the target's
  rectangle and does not use it. The copy is the wanted one when both positions agree.
\<close>

theorem blit_through_gpu:
  assumes areas: "areas_ok s (blit_areas f src dst (spix, sw * sh) (dpix, dw * dh))" and null: "src \<noteq> 0" "dst \<noteq> 0"
    and surfaces: "surface_at s src sw sh spix" "surface_at s dst dw dh dpix"
    and args: "source_rect s src srcrect = Some (int sx, int sy, w0, h0)" "target_pos s dstrect = Some (dx, dy)"
    and clip: "int w = min w0 (int dw - dx)" "int h = min h0 (int dh - dy)" "w < 65536" "h < 65536"
    and fit: "sx + w \<le> sw" "sy + h \<le> sh" "sx + w \<le> dw" "sy + h \<le> dh"
  shows "\<exists>t. SDL_BlitSurface f src srcrect dst dstrect s = Some t \<and>
    (\<forall>x<w. \<forall>y<h. hw_mem t (pixel_at dpix dw (sx + x) (sy + y)) = hw_mem s (pixel_at spix sw (sx + x) (sy + y))) \<and>
    (\<forall>a. (\<forall>x<w. \<forall>y<h. a \<noteq> pixel_at dpix dw (sx + x) (sy + y)) \<longrightarrow>
      list_all (\<lambda>(b, n). unat a < unat b \<or> unat b + n \<le> unat a) (locals f) \<longrightarrow> hw_mem t a = hw_mem s a)"
proof -
  obtain R D q where run: "length R = 4" "length D = 4" "SDL_BlitSurface f src srcrect dst dstrect s =
    foldM (\<lambda>y. foldM (\<lambda>x. gpu_pixel spix (of_nat sw) dpix (of_nat dw) (of_nat sy + of_nat y) (of_nat sx + of_nat x)) [0..<w]) [0..<h]
      (s\<lparr>hw_mem := stores f src dst R D (hw_mem s), io_port := q, gpu_addr := cmd_at f\<rparr>)"
    using blit_runs_device [OF areas null surfaces args clip] by blast
  let ?t = "s\<lparr>io_port := q, gpu_addr := cmd_at f\<rparr>" and ?M = "stores f src dst R D (hw_mem s)"
  have fl: "flat_area ?t spix (sw * sh)" "flat_area ?t dpix (dw * dh)" and ap: "apart_from (spix, sw * sh) (dpix, dw * dh)"
    and lo: "list_all (\<lambda>p. apart_from p (spix, sw * sh)) (locals f)"
    using areas by (simp_all add: areas_ok_def blit_areas_def locals_def)
  obtain m' where m': "foldM (\<lambda>y. foldM (\<lambda>x. gpu_pixel spix (of_nat sw) dpix (of_nat dw) (of_nat sy + of_nat y) (of_nat sx + of_nat x)) [0..<w]) [0..<h]
      (?t\<lparr>hw_mem := ?M\<rparr>) = Some (?t\<lparr>hw_mem := m'\<rparr>)"
    "\<And>x y. x < w \<Longrightarrow> y < h \<Longrightarrow> m' (pixel_at dpix dw (sx + x) (sy + y)) = ?M (pixel_at spix sw (sx + x) (sy + y))"
    "\<And>a. \<forall>x<w. \<forall>y<h. a \<noteq> pixel_at dpix dw (sx + x) (sy + y) \<Longrightarrow> m' a = ?M a"
    using device_copies [OF fl ap fit] by blast
  have out: "?M a = hw_mem s a" if "list_all (\<lambda>(b, n). unat a < unat b \<or> unat b + n \<le> unat a) (locals f)" for a
    by (rule stores_outside [OF that run(1,2) locals_ok(1) [OF areas]])
  have src: "?M (pixel_at spix sw (sx + x) (sy + y)) = hw_mem s (pixel_at spix sw (sx + x) (sy + y))" if "x < w" "y < h" for x y
    using unat_pixel [OF fl(1), of "sx + x" "sy + y"] pixel_inside [of "sx + x" sw "sy + y" sh] that fit lo
    by (intro out) (auto simp: list_all_iff apart_from_def)
  have "SDL_BlitSurface f src srcrect dst dstrect s = Some (?t\<lparr>hw_mem := m'\<rparr>)"
  proof -
    have "s\<lparr>hw_mem := ?M, io_port := q, gpu_addr := cmd_at f\<rparr> = ?t\<lparr>hw_mem := ?M\<rparr>" by simp
    then show ?thesis using run(3) m'(1) by (simp only:)
  qed
  with m'(2,3) src out show ?thesis by auto
qed

text \<open>Two pixels copied from one surface to another, in real mode.\<close>

definition blit_machine :: machine where
  "blit_machine = machine0\<lparr>hw_mem := put_seq 4 0x108 [2, 1] (put_seq 4 0x120 [0x300] (put_seq 4 0x148 [2, 1]
     (put_seq 4 0x160 [0x310] ((\<lambda>_. 0)(0x300 := 7, 0x301 := 8)))))\<rparr>"

definition example_frame :: blit_frame where
  "example_frame = \<lparr>cmd_at = 0x200, addr_at = 0x210, srcr_at = 0x220, dstr_at = 0x230\<rparr>"

lemma blit_machine_area: "unat a + n < 0x8000000 \<Longrightarrow> flat_area blit_machine a n"
  by (simp add: flat_area_def ram_region_def blit_machine_def machine0_def lin_def cr0_pe_def cr0_pg_def is_mmio_def
      unat_QDISK_BASE)

lemma blit_machine_word: "unat a + 4 < 0x8000000 \<Longrightarrow> vaddr_read blit_machine a SREG_DS 4 = Some (mem_get (hw_mem blit_machine) a 4)"
  using flat_area_read [OF blit_machine_area, of a 4 0 4] by (simp add: len_ok_def)

theorem blit_through_gpu_witness:
  "\<exists>t. SDL_BlitSurface example_frame 0x100 0 0x140 0 blit_machine = Some t \<and> hw_mem t 0x310 = 7 \<and> hw_mem t 0x311 = 8"
proof -
  have surfaces: "surface_at blit_machine 0x100 2 1 0x300" "surface_at blit_machine 0x140 2 1 0x310"
    by (simp_all add: surface_at_def) (code_simp+)
  have areas: "areas_ok blit_machine (blit_areas example_frame 0x100 0x140 (0x300, 2 * 1) (0x310, 2 * 1))"
    by (simp add: areas_ok_def blit_areas_def example_frame_def apart_from_def blit_machine_area)
  have args: "source_rect blit_machine 0x100 0 = Some (int 0, int 0, 2, 1)" "target_pos blit_machine 0 = Some (0, 0)"
    using surfaces(1) by (simp_all add: source_rect_def target_pos_def load_s32_def blit_machine_word surface_at_def)
  have px: "hw_mem blit_machine 0x300 = 7" "hw_mem blit_machine 0x301 = 8" by code_simp+
  from blit_through_gpu [OF areas _ _ surfaces args, of 2 1]
  obtain t where t: "SDL_BlitSurface example_frame 0x100 0 0x140 0 blit_machine = Some t"
    "\<forall>x<2. \<forall>y<1. hw_mem t (pixel_at 0x310 2 (0 + x) (0 + y)) = hw_mem blit_machine (pixel_at 0x300 2 (0 + x) (0 + y))"
    by auto
  from t(2) have "hw_mem t (pixel_at 0x310 2 0 0) = hw_mem blit_machine (pixel_at 0x300 2 0 0)"
    "hw_mem t (pixel_at 0x310 2 1 0) = hw_mem blit_machine (pixel_at 0x300 2 1 0)" by simp_all
  with t(1) px show ?thesis by (simp add: pixel_at_def)
qed

end
