(* ===== verification/Pal_Image.thy ===== *)
theory Pal_Image
  imports Nemu_Prelude
begin

text \<open>
  The images of the game \<open>nemu-pal\<close>: the blitters of \<open>game/src/nemu-pal/global/palcommon.c\<close> for run-length encoded
  and plain bitmaps, and the access to the frames of a sprite. A bitmap is the list of the bytes from its
  pointer on, and \<open>NULL\<close> is \<open>None\<close>; a read behind the list or a store outside of the pixels of a surface makes the
  call \<open>None\<close>. Widths and heights have 16 bits and coordinates are those of a \<open>SHORT\<close>, so the index of a pixel and
  the counters of the loops, below \<open>2^32\<close>, are natural numbers, and \<open>x\<close> and \<open>y\<close> integers.
\<close>

unbundle bit_operations_syntax

record surface =
  sf_w :: int
  sf_h :: int
  sf_pitch :: u16
  sf_pixels :: "u8 list"

definition PAL_XY :: "int \<Rightarrow> int \<Rightarrow> u32" where
  "PAL_XY x y = push_bit 16 (ucast (word_of_int y :: u16)) OR ucast (word_of_int x :: u16)"

definition PAL_X :: "u32 \<Rightarrow> int" where "PAL_X xy = sint (ucast xy :: u16)"
definition PAL_Y :: "u32 \<Rightarrow> int" where "PAL_Y xy = sint (ucast (drop_bit 16 xy) :: u16)"

definition le16 :: "u8 list \<Rightarrow> nat \<Rightarrow> nat" where
  "le16 bs i = unat (bs ! i) + 256 * unat (bs ! (i + 1))"

definition put_pixel :: "int \<Rightarrow> int \<Rightarrow> u8 \<Rightarrow> surface \<Rightarrow> surface option" where
  "put_pixel x y b s =
     (let k = y * uint (sf_pitch s) + x
      in if 0 \<le> k \<and> k < int (length (sf_pixels s)) then Some (s\<lparr>sf_pixels := (sf_pixels s)[nat k := b]\<rparr>) else None)"

section \<open>Run-length encoded bitmaps\<close>

text \<open>The bytes behind the optional mark, and the width, the height and the runs.\<close>

definition rle_skip_mark :: "u8 list \<Rightarrow> u8 list" where
  "rle_skip_mark bm = (if bm ! 0 = 2 \<and> bm ! 1 = 0 \<and> bm ! 2 = 0 \<and> bm ! 3 = 0 then drop 4 bm else bm)"

definition rle_header :: "u8 list \<Rightarrow> (nat \<times> nat \<times> u8 list) option" where
  "rle_header bm =
     (if length bm < 4 then None
      else let bm = rle_skip_mark bm
           in if length bm < 4 then None else Some (le16 bm 0, le16 bm 2, drop 4 bm))"

text \<open>
  The loop over a run of \<open>T\<close> literal bytes \<open>src\<close>, the first of which is pixel \<open>i\<close>: \<open>f\<close> is what the blitter
  makes of a byte, and the first component of the result says that it left by \<open>goto end\<close>.
\<close>

function rle_run :: "(u8 \<Rightarrow> u8) \<Rightarrow> int \<Rightarrow> int \<Rightarrow> nat \<Rightarrow> nat \<Rightarrow> nat \<Rightarrow> u8 list \<Rightarrow> nat \<Rightarrow> surface \<Rightarrow> (bool \<times> surface) option" where
  "rle_run f dx dy W i T src j s =
     (if T \<le> j then Some (False, s)
      else let y = int ((i + j) div W) + dy;
               x = int ((i + j) mod W) + dx
           in if x < 0 then rle_run f dx dy W i T src (j + nat (- x - 1) + 1) s
              else if x \<ge> sf_w s then rle_run f dx dy W i T src (j + nat (x - sf_w s) + 1) s
              else if y < 0 then rle_run f dx dy W i T src (j + (nat (- y) * W - 1) + 1) s
              else if y \<ge> sf_h s then Some (True, s)
              else if length src \<le> j then None
              else do { s \<leftarrow> put_pixel x y (f (src ! j)) s; rle_run f dx dy W i T src (j + 1) s })"
  by pat_completeness auto
termination
  by (relation "measure (\<lambda>(f, dx, dy, W, i, T, src, j, s). T - j)") auto

declare rle_run.simps [simp del]

definition rle_is_skip :: "nat \<Rightarrow> u8 \<Rightarrow> bool" where
  "rle_is_skip W T \<longleftrightarrow> T AND 0x80 \<noteq> 0 \<and> unat T \<le> 0x80 + W"

fun rle_loop :: "(u8 \<Rightarrow> u8) \<Rightarrow> int \<Rightarrow> int \<Rightarrow> nat \<Rightarrow> nat \<Rightarrow> u8 list \<Rightarrow> nat \<Rightarrow> surface \<Rightarrow> surface option" where
  "rle_loop f dx dy W len [] i s = (if len \<le> i then Some s else None)"
| "rle_loop f dx dy W len (T # src) i s =
     (if len \<le> i then Some s
      else if rle_is_skip W T then rle_loop f dx dy W len src (i + (unat T - 0x80)) s
      else do {
        (stop, s) \<leftarrow> rle_run f dx dy W i (unat T) src 0 s;
        if stop then Some s else rle_loop f dx dy W len (drop (unat T) src) (i + unat T) s
      })"

definition rle_blit :: "(u8 \<Rightarrow> u8) \<Rightarrow> u8 list option \<Rightarrow> surface option \<Rightarrow> u32 \<Rightarrow> (int \<times> surface option) option" where
  "rle_blit f bm dst pos =
     (case (bm, dst) of
        (Some bm, Some s) \<Rightarrow> do {
          (W, H, src) \<leftarrow> rle_header bm;
          s \<leftarrow> rle_loop f (PAL_X pos) (PAL_Y pos) W (W * H) src 0 s;
          Some (0, Some s)
        }
      | _ \<Rightarrow> Some (- 1, dst))"

definition PAL_RLEBlitToSurface :: "u8 list option \<Rightarrow> surface option \<Rightarrow> u32 \<Rightarrow> (int \<times> surface option) option" where
  "PAL_RLEBlitToSurface bm dst pos = rle_blit (\<lambda>b. b) bm dst pos"

definition shift_color :: "int \<Rightarrow> u8 \<Rightarrow> u8" where
  "shift_color iColorShift b =
     (let b = b AND 0x0F
      in if uint b + iColorShift > 0x0F then 0x0F
         else if uint b + iColorShift < 0 then 0
         else b + word_of_int iColorShift)"

definition PAL_RLEBlitWithColorShift :: "u8 list option \<Rightarrow> surface option \<Rightarrow> u32 \<Rightarrow> int \<Rightarrow> (int \<times> surface option) option" where
  "PAL_RLEBlitWithColorShift bm dst pos iColorShift =
     rle_blit (\<lambda>b. shift_color iColorShift b OR (b AND 0xF0)) bm dst pos"

definition PAL_RLEBlitMonoColor :: "u8 list option \<Rightarrow> surface option \<Rightarrow> u32 \<Rightarrow> u8 \<Rightarrow> int \<Rightarrow> (int \<times> surface option) option" where
  "PAL_RLEBlitMonoColor bm dst pos bColor iColorShift =
     rle_blit (\<lambda>b. shift_color iColorShift b OR (bColor AND 0xF0)) bm dst pos"

definition PAL_RLEGetWidth :: "u8 list option \<Rightarrow> nat option" where
  "PAL_RLEGetWidth bm = (case bm of None \<Rightarrow> Some 0 | Some bm \<Rightarrow> map_option fst (rle_header bm))"

definition PAL_RLEGetHeight :: "u8 list option \<Rightarrow> nat option" where
  "PAL_RLEGetHeight bm = (case bm of None \<Rightarrow> Some 0 | Some bm \<Rightarrow> map_option (fst \<circ> snd) (rle_header bm))"

section \<open>Plain bitmaps and sprites\<close>

definition fbp_row :: "u8 list \<Rightarrow> nat \<Rightarrow> surface \<Rightarrow> surface option" where
  "fbp_row bm y = foldM (\<lambda>x s. if length bm \<le> 320 * y + x then None
                                else put_pixel (int x) (int y) (bm ! (320 * y + x)) s) [0..<320]"

definition PAL_FBPBlitToSurface :: "u8 list option \<Rightarrow> surface option \<Rightarrow> (int \<times> surface option) option" where
  "PAL_FBPBlitToSurface bm dst =
     (case (bm, dst) of
        (Some bm, Some s) \<Rightarrow>
          if sf_w s \<noteq> 320 \<or> sf_h s \<noteq> 200 then Some (- 1, dst)
          else do { s \<leftarrow> foldM (fbp_row bm) [0..<200] s; Some (0, Some s) }
      | _ \<Rightarrow> Some (- 1, dst))"

definition PAL_SpriteGetNumFrames :: "u8 list option \<Rightarrow> u16 option" where
  "PAL_SpriteGetNumFrames sp =
     (case sp of None \<Rightarrow> Some 0 | Some sp \<Rightarrow> if length sp < 2 then None else Some (of_nat (le16 sp 0) - 1))"

text \<open>The frame is returned as the bytes of the sprite from it on; \<open>Some None\<close> is the result \<open>NULL\<close>.\<close>

definition PAL_SpriteGetFrame :: "u8 list option \<Rightarrow> int \<Rightarrow> u8 list option option" where
  "PAL_SpriteGetFrame sp iFrameNum =
     (case sp of None \<Rightarrow> Some None
      | Some sp \<Rightarrow>
          if length sp < 2 then None
          else if iFrameNum < 0 \<or> iFrameNum \<ge> int (le16 sp 0) then Some None
          else let k = 2 * nat iFrameNum
               in if length sp < k + 2 then None
                  else let offset = unat (of_nat (2 * le16 sp k) :: u16)
                       in if length sp < offset then None else Some (Some (drop offset sp)))"

end
