(* ===== verification/Pal_Image_Correct.thy ===== *)
theory Pal_Image_Correct
  imports Pal_Image
begin

text \<open>
  The blitter for run-length encoded bitmaps against a reference: decode the bitmap into its pixels, then
  draw each of them that is on the surface. The blitter skips what is outside by jumps of the pixel counter
  and stops at the bottom edge.
\<close>

section \<open>The reference\<close>

fun rle_pixels :: "nat \<Rightarrow> nat \<Rightarrow> u8 list \<Rightarrow> nat \<Rightarrow> (nat \<times> u8) list option" where
  "rle_pixels W len [] i = (if len \<le> i then Some [] else None)"
| "rle_pixels W len (T # src) i =
     (if len \<le> i then Some []
      else if rle_is_skip W T then rle_pixels W len src (i + (unat T - 0x80))
      else if length src < unat T then None
      else map_option (\<lambda>ps. zip [i..<i + unat T] src @ ps) (rle_pixels W len (drop (unat T) src) (i + unat T)))"

definition plot :: "(u8 \<Rightarrow> u8) \<Rightarrow> int \<Rightarrow> int \<Rightarrow> nat \<Rightarrow> nat \<times> u8 \<Rightarrow> surface \<Rightarrow> surface" where
  "plot f dx dy W = (\<lambda>(k, b) s.
     let y = int (k div W) + dy; x = int (k mod W) + dx
     in if 0 \<le> x \<and> x < sf_w s \<and> 0 \<le> y \<and> y < sf_h s
        then s\<lparr>sf_pixels := (sf_pixels s)[nat (y * uint (sf_pitch s) + x) := f b]\<rparr> else s)"

text \<open>Every run of literal bytes stays in one row of the bitmap.\<close>

fun runs_in_rows :: "nat \<Rightarrow> nat \<Rightarrow> u8 list \<Rightarrow> nat \<Rightarrow> bool" where
  "runs_in_rows W len [] i = True"
| "runs_in_rows W len (T # src) i =
     (if len \<le> i then True
      else if rle_is_skip W T then runs_in_rows W len src (i + (unat T - 0x80))
      else i mod W + unat T \<le> W \<and> runs_in_rows W len (drop (unat T) src) (i + unat T))"

definition surface_ok :: "surface \<Rightarrow> bool" where
  "surface_ok s \<longleftrightarrow> 0 \<le> sf_w s \<and> sf_w s \<le> uint (sf_pitch s) \<and> sf_h s * uint (sf_pitch s) \<le> int (length (sf_pixels s))"

section \<open>Drawing one run\<close>

lemma plot_geometry [simp]:
  "sf_w (plot f dx dy W p s) = sf_w s" "sf_h (plot f dx dy W p s) = sf_h s" "sf_pitch (plot f dx dy W p s) = sf_pitch s"
  "length (sf_pixels (plot f dx dy W p s)) = length (sf_pixels s)" "surface_ok (plot f dx dy W p s) = surface_ok s"
  by (auto simp: plot_def Let_def surface_ok_def split: prod.split)

lemma fold_plot_geometry:
  "sf_w (fold (plot f dx dy W) ps s) = sf_w s" "sf_h (fold (plot f dx dy W) ps s) = sf_h s"
  "surface_ok (fold (plot f dx dy W) ps s) = surface_ok s"
  by (induction ps arbitrary: s) simp_all

lemma put_pixel_plot:
  assumes "surface_ok s" "0 \<le> x" "x < sf_w s" "0 \<le> y" "y < sf_h s"
    "y = int (k div W) + dy" "x = int (k mod W) + dx"
  shows "put_pixel x y (f b) s = Some (plot f dx dy W (k, b) s)"
proof -
  have "(y + 1) * uint (sf_pitch s) \<le> sf_h s * uint (sf_pitch s)"
    using assms(4,5) by (intro mult_right_mono) auto
  then have "y * uint (sf_pitch s) + x < int (length (sf_pixels s))"
    using assms(1,3) by (simp add: surface_ok_def algebra_simps)
  with assms show ?thesis by (simp add: put_pixel_def plot_def Let_def)
qed

definition hidden :: "int \<Rightarrow> int \<Rightarrow> nat \<Rightarrow> surface \<Rightarrow> nat \<Rightarrow> bool" where
  "hidden dx dy W s k \<longleftrightarrow>
     \<not> (0 \<le> int (k mod W) + dx \<and> int (k mod W) + dx < sf_w s \<and> 0 \<le> int (k div W) + dy \<and> int (k div W) + dy < sf_h s)"

lemma plot_hidden: "hidden dx dy W s (fst p) \<Longrightarrow> plot f dx dy W p s = s"
  by (cases p) (auto simp: plot_def hidden_def Let_def)

lemma fold_plot_hidden: "(\<And>p. p \<in> set ps \<Longrightarrow> hidden dx dy W s (fst p)) \<Longrightarrow> fold (plot f dx dy W) ps s = s"
  by (induction ps) (simp_all add: plot_hidden)

text \<open>The literal bytes of a run from the \<open>j\<close>-th on, with their pixels.\<close>

definition rest :: "nat \<Rightarrow> nat \<Rightarrow> u8 list \<Rightarrow> nat \<Rightarrow> (nat \<times> u8) list" where
  "rest i T src j = zip [i + j..<i + T] (drop j src)"

lemma rest_Suc: "j < T \<Longrightarrow> T \<le> length src \<Longrightarrow> rest i T src j = (i + j, src ! j) # rest i T src (Suc j)"
  by (simp add: rest_def upt_conv_Cons Cons_nth_drop_Suc [symmetric])

lemma rest_end [simp]: "T \<le> j \<Longrightarrow> rest i T src j = []"
  by (simp add: rest_def)

lemma fold_rest_skip:
  assumes "T \<le> length src" "\<And>k. j \<le> k \<Longrightarrow> k < j' \<Longrightarrow> k < T \<Longrightarrow> hidden dx dy W s (i + k)" "j \<le> j'"
  shows "fold (plot f dx dy W) (rest i T src j) s = fold (plot f dx dy W) (rest i T src j') s"
  using assms(3,2)
proof (induction rule: inc_induct)
  case (step n)
  show ?case
  proof (cases "n < T")
    case True
    with step show ?thesis by (simp add: rest_Suc assms(1) plot_hidden)
  qed (use step in auto)
qed simp

section \<open>What the jumps skip\<close>

lemma row_step: "c = k mod W \<Longrightarrow> c + n < W \<Longrightarrow> (k + n) mod W = c + n \<and> (k + n) div W = k div W" for k W :: nat
proof -
  assume c: "c = k mod W" "c + n < W"
  have "k + n = (k div W) * W + (c + n)" using c(1) div_mult_mod_eq [of k W] by simp
  with c(2) show ?thesis by (metis add.right_neutral div_less div_mult_self3 gr_implies_not0 mod_less mod_mult_self3)
qed

lemma skip_left:
  assumes "int (k mod W) + dx < 0" "n \<le> nat (- (int (k mod W) + dx) - 1)" "0 < W"
  shows "hidden dx dy W s (k + n)"
proof (cases "k mod W + n < W")
  case True
  have "int (k mod W + n) + dx < 0" using assms(1,2) by arith
  with row_step [OF refl True] show ?thesis by (simp add: hidden_def)
next
  case False
  then have "int W \<le> - dx - 1" using assms by linarith
  moreover have "(k + n) mod W < W" using assms(3) by simp
  ultimately show ?thesis unfolding hidden_def by linarith
qed

lemma skip_right:
  assumes "sf_w s \<le> int (k mod W) + dx" "k mod W + n < W"
  shows "hidden dx dy W s (k + n)"
  using assms row_step [OF refl assms(2)] by (simp add: hidden_def)

lemma skip_above:
  assumes "int (k div W) + dy < 0" "k mod W + n < W"
  shows "hidden dx dy W s (k + n)"
  using assms row_step [OF refl assms(2)] by (simp add: hidden_def)

lemma below_stays:
  assumes "sf_h s \<le> int (k div W) + dy" "k \<le> k'"
  shows "hidden dx dy W s k'"
  using assms div_le_mono [OF assms(2), of W] by (simp add: hidden_def)

text \<open>The jumps skip only hidden pixels when the run stays in its row, or the bitmap reaches over neither the right nor the top edge.\<close>

definition jumps_ok :: "int \<Rightarrow> int \<Rightarrow> nat \<Rightarrow> nat \<Rightarrow> nat \<Rightarrow> surface \<Rightarrow> bool" where
  "jumps_ok dx dy W i T s \<longleftrightarrow> i mod W + T \<le> W \<or> 0 \<le> dy \<and> int W + dx \<le> sf_w s"

lemma jumps_ok_row:
  "jumps_ok dx dy W i T s \<Longrightarrow> \<not> (0 \<le> dy \<and> int W + dx \<le> sf_w s) \<Longrightarrow> j + n < T \<Longrightarrow> (i + j) mod W + n < W"
  using row_step [of "i mod W" i W j] by (simp add: jumps_ok_def)

text \<open>What a run from pixel \<open>j\<close> on has to return.\<close>

definition run_draws :: "(u8 \<Rightarrow> u8) \<Rightarrow> int \<Rightarrow> int \<Rightarrow> nat \<Rightarrow> nat \<Rightarrow> nat \<Rightarrow> u8 list \<Rightarrow> nat \<Rightarrow> surface \<Rightarrow> bool" where
  "run_draws f dx dy W i T src j s \<longleftrightarrow>
     (\<exists>stop. rle_run f dx dy W i T src j s = Some (stop, fold (plot f dx dy W) (rest i T src j) s) \<and>
       (stop \<longrightarrow> (\<forall>k\<ge>i + T. hidden dx dy W s k)))"

lemma run_jump:
  assumes "rle_run f dx dy W i T src j s = rle_run f dx dy W i T src (j + n + 1) s"
    "\<And>m. m \<le> n \<Longrightarrow> j + m < T \<Longrightarrow> hidden dx dy W s (i + j + m)"
    "run_draws f dx dy W i T src (j + n + 1) s" "T \<le> length src"
  shows "run_draws f dx dy W i T src j s"
proof -
  have "hidden dx dy W s (i + k)" if "j \<le> k" "k < j + n + 1" "k < T" for k
    using that assms(2) [of "k - j"] by simp
  then have "fold (plot f dx dy W) (rest i T src j) s = fold (plot f dx dy W) (rest i T src (j + n + 1)) s"
    using assms(4) by (intro fold_rest_skip) auto
  with assms(1,3) show ?thesis by (simp add: run_draws_def)
qed

lemma rle_run_correct:
  assumes "0 < W" "T \<le> length src"
  shows "surface_ok s \<Longrightarrow> jumps_ok dx dy W i T s \<Longrightarrow> run_draws f dx dy W i T src j s"
  using assms
proof (induction f dx dy W i T src j s rule: rle_run.induct)
  case (1 f dx dy W i T src j s)
  define x where "x = int ((i + j) mod W) + dx"
  define y where "y = int ((i + j) div W) + dy"
  note IH = "1.IH" [OF _ y_def x_def]
  note run = rle_run.simps [of f dx dy W i T src j s, unfolded Let_def, folded x_def y_def]
  note jump = run_jump [where f = f and dx = dx and dy = dy and W = W and i = i and T = T and src = src and j = j and s = s,
      OF _ _ _ "1.prems"(4)]
  consider "T \<le> j" | "j < T" "x < 0" | "j < T" "0 \<le> x" "sf_w s \<le> x" | "j < T" "0 \<le> x" "x < sf_w s" "y < 0"
    | "j < T" "0 \<le> x" "x < sf_w s" "0 \<le> y" "sf_h s \<le> y" | "j < T" "0 \<le> x" "x < sf_w s" "0 \<le> y" "y < sf_h s"
    by linarith
  then show ?case
  proof cases
    case 1
    then show ?thesis unfolding run_draws_def by (intro exI [of _ False]) (simp add: run)
  next
    case 2
    have "hidden dx dy W s (i + j + m)" if "m \<le> nat (- x - 1)" for m
      using skip_left [of "i + j" W dx m] that 2 "1.prems" by (simp add: x_def)
    with 2 "1.prems" show ?thesis by (intro jump [of "nat (- x - 1)"] IH(1)) (simp_all add: run)
  next
    case 3
    have "(i + j) mod W < W" using "1.prems" by simp
    then have "\<not> (0 \<le> dy \<and> int W + dx \<le> sf_w s)" using 3 by (simp add: x_def)
    then have "hidden dx dy W s (i + j + m)" if "j + m < T" for m
      using that 3 jumps_ok_row [OF "1.prems"(2)] by (intro skip_right) (simp_all add: x_def)
    with 3 "1.prems" show ?thesis by (intro jump [of "nat (x - sf_w s)"] IH(2)) (simp_all add: run)
  next
    case 4
    then have "\<not> (0 \<le> dy \<and> int W + dx \<le> sf_w s)" unfolding y_def by linarith
    then have "hidden dx dy W s (i + j + m)" if "j + m < T" for m
      using that 4 jumps_ok_row [OF "1.prems"(2)] by (intro skip_above) (simp_all add: y_def)
    with 4 "1.prems" show ?thesis by (intro jump [of "nat (- y) * W - 1"] IH(3)) (simp_all add: run)
  next
    case 5
    have h: "hidden dx dy W s k" if "i + j \<le> k" for k using below_stays [of s "i + j" W dy k] 5 that by (simp add: y_def)
    then have "fold (plot f dx dy W) (rest i T src j) s = s"
      by (intro fold_plot_hidden) (auto simp: rest_def dest!: set_zip_leftD)
    with 5 h show ?thesis unfolding run_draws_def by (intro exI [of _ True]) (simp add: run)
  next
    case 6
    have p: "put_pixel x y (f (src ! j)) s = Some (plot f dx dy W (i + j, src ! j) s)"
      using 6 "1.prems" by (intro put_pixel_plot) (simp_all add: x_def y_def)
    have "hidden dx dy W (plot f dx dy W q s) = hidden dx dy W s" "jumps_ok dx dy W i T (plot f dx dy W q s)" for q
      using "1.prems"(2) by (simp_all add: hidden_def jumps_ok_def fun_eq_iff)
    with IH(4) [OF _ _ _ _ _ _ p] 6 "1.prems" show ?thesis by (simp add: run_draws_def run p rest_Suc)
  qed
qed

section \<open>Drawing the bitmap\<close>

lemma rle_pixels_from: "rle_pixels W len src i = Some ps \<Longrightarrow> p \<in> set ps \<Longrightarrow> i \<le> fst p"
proof (induction W len src i arbitrary: ps rule: rle_pixels.induct)
  case (2 W len T src i)
  show ?case
  proof (cases "len \<le> i \<or> rle_is_skip W T")
    case True
    with 2 show ?thesis by (fastforce split: if_splits)
  next
    case False
    with "2.prems" obtain qs where q: "rle_pixels W len (drop (unat T) src) (i + unat T) = Some qs"
      "ps = zip [i..<i + unat T] src @ qs" "\<not> length src < unat T" by (auto split: if_splits)
    from 2(2) [OF _ _ q(3) q(1)] False have "p \<in> set qs \<Longrightarrow> i + unat T \<le> fst p" by blast
    moreover have "p \<in> set (zip [i..<i + unat T] src) \<Longrightarrow> i \<le> fst p" by (cases p) (auto dest: set_zip_leftD)
    ultimately show ?thesis using "2.prems"(2) by (auto simp: q(2))
  qed
qed (auto split: if_splits)

lemma rle_loop_correct:
  "0 < W \<Longrightarrow> surface_ok s \<Longrightarrow> rle_pixels W len src i = Some ps \<Longrightarrow>
    0 \<le> dy \<and> int W + dx \<le> sf_w s \<or> runs_in_rows W len src i \<Longrightarrow>
    rle_loop f dx dy W len src i s = Some (fold (plot f dx dy W) ps s)"
proof (induction W len src i arbitrary: ps s rule: rle_pixels.induct)
  case (2 W len T src i)
  show ?case
  proof (cases "len \<le> i \<or> rle_is_skip W T")
    case True
    with 2 show ?thesis by (auto split: if_splits)
  next
    case False
    with "2.prems" obtain qs where q: "rle_pixels W len (drop (unat T) src) (i + unat T) = Some qs"
      "ps = zip [i..<i + unat T] src @ qs" "\<not> length src < unat T" by (auto split: if_splits)
    have j: "jumps_ok dx dy W i (unat T) s" using "2.prems"(4) False by (auto simp: jumps_ok_def)
    let ?s = "fold (plot f dx dy W) (zip [i..<i + unat T] src) s"
    note geo = fold_plot_geometry [of f dx dy W "zip [i..<i + unat T] src" s]
    from rle_run_correct [OF "2.prems"(1) _ "2.prems"(2) j, of src f 0] q(3) obtain stop where
      run: "rle_run f dx dy W i (unat T) src 0 s = Some (stop, ?s)" "stop \<Longrightarrow> \<forall>k\<ge>i + unat T. hidden dx dy W s k"
      by (auto simp: rest_def run_draws_def)
    show ?thesis
    proof (cases stop)
      case True
      have "hidden dx dy W ?s (fst p)" if "p \<in> set qs" for p
        using run(2) [OF True] rle_pixels_from [OF q(1) that] geo by (auto simp: hidden_def)
      then show ?thesis using True False run(1) by (simp add: q(2) fold_plot_hidden)
    next
      case False
      with \<open>\<not> (len \<le> i \<or> rle_is_skip W T)\<close> 2(2) [OF _ _ q(3) "2.prems"(1) _ q(1), of ?s] "2.prems" show ?thesis
        by (auto simp: q(2) run(1) geo)
    qed
  qed
qed (auto split: if_splits)

lemma rle_blit_correct:
  assumes "rle_header bm = Some (W, H, src)" "rle_pixels W (W * H) src 0 = Some ps" "surface_ok s"
    "0 \<le> PAL_Y pos \<and> int W + PAL_X pos \<le> sf_w s \<or> runs_in_rows W (W * H) src 0"
  shows "rle_blit f (Some bm) (Some s) pos = Some (0, Some (fold (plot f (PAL_X pos) (PAL_Y pos) W) ps s))"
proof (cases "W = 0")
  case True
  with assms(2) have "ps = []" by (cases src) auto
  with True assms(1) show ?thesis by (cases src) (simp_all add: rle_blit_def)
next
  case False
  then show ?thesis using assms(1) rle_loop_correct [OF _ assms(3,2,4)] by (simp add: rle_blit_def)
qed

text \<open>C38: A well-formed run-length encoded bitmap is drawn by all three blitters as the reference does: every decoded
  pixel on the surface, and no other, gets its (shifted, recoloured) byte, wherever the bitmap lies, over whichever
  edge it reaches. The jumps that skip hidden pixels are right because each run stays in its row, or because
  the bitmap reaches over neither the right nor the top edge.
\<close>

theorem rle_blit_reference:
  assumes "rle_header bm = Some (W, H, src)" "rle_pixels W (W * H) src 0 = Some ps" "surface_ok s"
    "0 \<le> PAL_Y pos \<and> int W + PAL_X pos \<le> sf_w s \<or> runs_in_rows W (W * H) src 0"
  shows "PAL_RLEBlitToSurface (Some bm) (Some s) pos =
      Some (0, Some (fold (plot (\<lambda>b. b) (PAL_X pos) (PAL_Y pos) W) ps s))
    \<and> PAL_RLEBlitWithColorShift (Some bm) (Some s) pos c =
      Some (0, Some (fold (plot (\<lambda>b. shift_color c b OR (b AND 0xF0)) (PAL_X pos) (PAL_Y pos) W) ps s))
    \<and> PAL_RLEBlitMonoColor (Some bm) (Some s) pos m c =
      Some (0, Some (fold (plot (\<lambda>b. shift_color c b OR (m AND 0xF0)) (PAL_X pos) (PAL_Y pos) W) ps s))"
  using rle_blit_correct [OF assms]
  by (simp add: PAL_RLEBlitToSurface_def PAL_RLEBlitWithColorShift_def PAL_RLEBlitMonoColor_def)

text \<open>A bitmap of 4 by 2 pixels in rows of runs, at (-1, -1) of a surface of 2 by 2 pixels.\<close>

definition small_bitmap :: "u8 list" where
  "small_bitmap = [2, 0, 0, 0, 4, 0, 2, 0, 4, 1, 2, 3, 4, 0x81, 3, 6, 7, 8]"

definition blank :: "nat \<Rightarrow> nat \<Rightarrow> surface" where
  "blank w h = \<lparr>sf_w = int w, sf_h = int h, sf_pitch = of_nat w, sf_pixels = replicate (w * h) 0\<rparr>"

theorem rle_blit_reference_witness:
  "PAL_RLEBlitToSurface (Some small_bitmap) (Some (blank 2 2)) (PAL_XY (- 1) (- 1)) =
     Some (0, Some ((blank 2 2)\<lparr>sf_pixels := [6, 7, 0, 0]\<rparr>))"
proof -
  have h: "rle_header small_bitmap = Some (4, 2, drop 8 small_bitmap)"
    and p: "rle_pixels 4 (4 * 2) (drop 8 small_bitmap) 0 = Some [(0, 1), (1, 2), (2, 3), (3, 4), (5, 6), (6, 7), (7, 8)]"
    and r: "runs_in_rows 4 (4 * 2) (drop 8 small_bitmap) 0"
    and o: "surface_ok (blank 2 2)"
    and xy: "PAL_X (PAL_XY (- 1) (- 1)) = - 1" "PAL_Y (PAL_XY (- 1) (- 1)) = - 1" by code_simp+
  have "fold (plot (\<lambda>b. b) (- 1) (- 1) 4) [(0, 1), (1, 2), (2, 3), (3, 4), (5, 6), (6, 7), (7, 8)] (blank 2 2)
      = (blank 2 2)\<lparr>sf_pixels := [6, 7, 0, 0]\<rparr>" by code_simp
  with rle_blit_reference [OF h p o disjI2 [OF r], of "PAL_XY (- 1) (- 1)", unfolded xy] show ?thesis by simp
qed

text \<open>
  A run that goes on in the next row: right of the surface the counter jumps by as many pixels as it is
  outside, past the end of the row, and the first pixel of the second row is lost.
\<close>

lemma rle_blit_over_the_edge:
  "PAL_RLEBlitToSurface (Some [4, 0, 2, 0, 8, 1, 2, 3, 4, 5, 6, 7, 8]) (Some (blank 3 2)) (PAL_XY 1 0) =
     Some (0, Some ((blank 3 2)\<lparr>sf_pixels := [0, 1, 2, 0, 0, 6]\<rparr>))"
  "rle_pixels 4 8 [8, 1, 2, 3, 4, 5, 6, 7, 8] 0 = Some [(0, 1), (1, 2), (2, 3), (3, 4), (4, 5), (5, 6), (6, 7), (7, 8)]"
  "fold (plot (\<lambda>b. b) 1 0 4) [(0, 1), (1, 2), (2, 3), (3, 4), (4, 5), (5, 6), (6, 7), (7, 8)] (blank 3 2) =
     (blank 3 2)\<lparr>sf_pixels := [0, 1, 2, 0, 5, 6]\<rparr>"
  by code_simp+

end
