(* ===== verification/Pal_Input.thy ===== *)
theory Pal_Input
  imports Nemu_Prelude
begin

text \<open>
  The keys of the game \<open>nemu-pal\<close>: the keyboard interrupt and \<open>process_keys\<close> of
  \<open>game/src/nemu-pal/hal/keyboard.c\<close>, and the handlers of \<open>device/input.c\<close> that it calls back. The byte that \<open>in_byte(0x60)\<close>
  returns is the argument of the interrupt. The callbacks are also recorded, in \<open>in_reports\<close>, a variable the
  program does not have. The screenshot that \<open>K_p\<close> asks for leaves the state alone.
\<close>

unbundle bit_operations_syntax

datatype key_status = KEY_STATE_EMPTY | KEY_STATE_WAIT_RELEASE | KEY_STATE_RELEASE | KEY_STATE_PRESS

datatype PALDIRECTION = kDirSouth | kDirWest | kDirNorth | kDirEast | kDirUnknown

datatype key_report = Pressed u8 | Released u8

record pal_input =
  in_keys :: "key_status list"
  in_dir :: PALDIRECTION
  in_prevdir :: PALDIRECTION
  in_press :: u32
  in_IF :: bool
  in_reports :: "key_report list"

section \<open>The keyboard\<close>

definition PAL_NR_KEYS :: nat where "PAL_NR_KEYS = 18"

definition K_UP :: u8 where "K_UP = 0x48"
definition K_DOWN :: u8 where "K_DOWN = 0x50"
definition K_LEFT :: u8 where "K_LEFT = 0x4b"
definition K_RIGHT :: u8 where "K_RIGHT = 0x4d"
definition K_ESCAPE :: u8 where "K_ESCAPE = 0x01"
definition K_RETURN :: u8 where "K_RETURN = 0x1c"
definition K_SPACE :: u8 where "K_SPACE = 0x39"
definition K_PAGEUP :: u8 where "K_PAGEUP = 0x49"
definition K_PAGEDOWN :: u8 where "K_PAGEDOWN = 0x51"
definition K_r :: u8 where "K_r = 0x13"
definition K_a :: u8 where "K_a = 0x1e"
definition K_d :: u8 where "K_d = 0x20"
definition K_e :: u8 where "K_e = 0x12"
definition K_w :: u8 where "K_w = 0x11"
definition K_q :: u8 where "K_q = 0x10"
definition K_s :: u8 where "K_s = 0x1f"
definition K_f :: u8 where "K_f = 0x21"
definition K_p :: u8 where "K_p = 0x19"

lemmas key_codes = K_UP_def K_DOWN_def K_LEFT_def K_RIGHT_def K_ESCAPE_def K_RETURN_def K_SPACE_def K_PAGEUP_def
  K_PAGEDOWN_def K_r_def K_a_def K_d_def K_e_def K_w_def K_q_def K_s_def K_f_def K_p_def

definition keycode_hash :: "u8 list" where
  "keycode_hash = [K_UP, K_DOWN, K_LEFT, K_RIGHT, K_ESCAPE, K_RETURN, K_SPACE, K_PAGEUP, K_PAGEDOWN, K_r,
     K_a, K_d, K_e, K_w, K_q, K_s, K_f, K_p]"

definition scan_key :: "u8 \<Rightarrow> nat \<Rightarrow> pal_input \<Rightarrow> pal_input" where
  "scan_key code i s =
     (if keycode_hash ! i = code AND 0x7f
      then if code AND 0x80 \<noteq> 0 then s\<lparr>in_keys := (in_keys s)[i := KEY_STATE_RELEASE]\<rparr>
           else if in_keys s ! i = KEY_STATE_EMPTY then s\<lparr>in_keys := (in_keys s)[i := KEY_STATE_PRESS]\<rparr>
           else s
      else s)"

definition pal_keyboard_event :: "u8 \<Rightarrow> pal_input \<Rightarrow> pal_input" where
  "pal_keyboard_event code = fold (scan_key code) [0..<PAL_NR_KEYS]"

definition get_keycode :: "int \<Rightarrow> u8 option" where
  "get_keycode index = (if 0 \<le> index \<and> index < int PAL_NR_KEYS then Some (keycode_hash ! nat index) else None)"

definition pal_query_key :: "int \<Rightarrow> pal_input \<Rightarrow> key_status option" where
  "pal_query_key index s = (if 0 \<le> index \<and> index < int PAL_NR_KEYS then Some (in_keys s ! nat index) else None)"

definition pal_release_key :: "int \<Rightarrow> pal_input \<Rightarrow> pal_input option" where
  "pal_release_key index s =
     (if 0 \<le> index \<and> index < int PAL_NR_KEYS
      then Some (s\<lparr>in_keys := (in_keys s)[nat index := KEY_STATE_WAIT_RELEASE]\<rparr>) else None)"

definition clear_key :: "int \<Rightarrow> pal_input \<Rightarrow> pal_input option" where
  "clear_key index s =
     (if 0 \<le> index \<and> index < int PAL_NR_KEYS
      then Some (s\<lparr>in_keys := (in_keys s)[nat index := KEY_STATE_EMPTY]\<rparr>) else None)"

section \<open>The handlers\<close>

definition kKeyMenu :: u32 where "kKeyMenu = push_bit 0 1"
definition kKeySearch :: u32 where "kKeySearch = push_bit 1 1"
definition kKeyDown :: u32 where "kKeyDown = push_bit 2 1"
definition kKeyLeft :: u32 where "kKeyLeft = push_bit 3 1"
definition kKeyUp :: u32 where "kKeyUp = push_bit 4 1"
definition kKeyRight :: u32 where "kKeyRight = push_bit 5 1"
definition kKeyPgUp :: u32 where "kKeyPgUp = push_bit 6 1"
definition kKeyPgDn :: u32 where "kKeyPgDn = push_bit 7 1"
definition kKeyRepeat :: u32 where "kKeyRepeat = push_bit 8 1"
definition kKeyAuto :: u32 where "kKeyAuto = push_bit 9 1"
definition kKeyDefend :: u32 where "kKeyDefend = push_bit 10 1"
definition kKeyUseItem :: u32 where "kKeyUseItem = push_bit 11 1"
definition kKeyThrowItem :: u32 where "kKeyThrowItem = push_bit 12 1"
definition kKeyFlee :: u32 where "kKeyFlee = push_bit 13 1"
definition kKeyStatus :: u32 where "kKeyStatus = push_bit 14 1"
definition kKeyForce :: u32 where "kKeyForce = push_bit 15 1"

definition press_bit :: "u32 \<Rightarrow> pal_input \<Rightarrow> pal_input" where
  "press_bit b s = s\<lparr>in_press := in_press s OR b\<rparr>"

text \<open>An arrow key; \<open>fInBattle\<close> is the global of that name.\<close>

definition press_dir :: "bool \<Rightarrow> PALDIRECTION \<Rightarrow> u32 \<Rightarrow> pal_input \<Rightarrow> pal_input" where
  "press_dir fInBattle d b s =
     press_bit b (s\<lparr>in_prevdir := (if fInBattle then kDirUnknown else in_dir s), in_dir := d\<rparr>)"

definition PAL_KeyPressHandler :: "bool \<Rightarrow> u8 \<Rightarrow> pal_input \<Rightarrow> pal_input" where
  "PAL_KeyPressHandler fInBattle keycode s =
     (if keycode = K_UP then press_dir fInBattle kDirNorth kKeyUp s
      else if keycode = K_DOWN then press_dir fInBattle kDirSouth kKeyDown s
      else if keycode = K_LEFT then press_dir fInBattle kDirWest kKeyLeft s
      else if keycode = K_RIGHT then press_dir fInBattle kDirEast kKeyRight s
      else if keycode = K_ESCAPE then press_bit kKeyMenu s
      else if keycode = K_RETURN \<or> keycode = K_SPACE then press_bit kKeySearch s
      else if keycode = K_PAGEUP then press_bit kKeyPgUp s
      else if keycode = K_PAGEDOWN then press_bit kKeyPgDn s
      else if keycode = K_r then press_bit kKeyRepeat s
      else if keycode = K_a then press_bit kKeyAuto s
      else if keycode = K_d then press_bit kKeyDefend s
      else if keycode = K_e then press_bit kKeyUseItem s
      else if keycode = K_w then press_bit kKeyThrowItem s
      else if keycode = K_q then press_bit kKeyFlee s
      else if keycode = K_s then press_bit kKeyStatus s
      else if keycode = K_f then press_bit kKeyForce s
      else s)"

definition release_dir :: "PALDIRECTION \<Rightarrow> pal_input \<Rightarrow> pal_input" where
  "release_dir d s =
     (if in_dir s = d then s\<lparr>in_dir := in_prevdir s, in_prevdir := kDirUnknown\<rparr> else s\<lparr>in_prevdir := kDirUnknown\<rparr>)"

definition PAL_KeyReleaseHandler :: "u8 \<Rightarrow> pal_input \<Rightarrow> pal_input" where
  "PAL_KeyReleaseHandler keycode s =
     (if keycode = K_UP then release_dir kDirNorth s
      else if keycode = K_DOWN then release_dir kDirSouth s
      else if keycode = K_LEFT then release_dir kDirWest s
      else if keycode = K_RIGHT then release_dir kDirEast s
      else s)"

definition PAL_ClearKeyState :: "pal_input \<Rightarrow> pal_input" where
  "PAL_ClearKeyState s = s\<lparr>in_press := 0\<rparr>"

definition PAL_InitInput :: "pal_input \<Rightarrow> pal_input" where
  "PAL_InitInput s = s\<lparr>in_press := 0, in_dir := kDirUnknown, in_prevdir := kDirUnknown\<rparr>"

section \<open>Polling\<close>

definition report :: "key_report \<Rightarrow> pal_input \<Rightarrow> pal_input" where
  "report r s = s\<lparr>in_reports := in_reports s @ [r]\<rparr>"

definition process_key :: "bool \<Rightarrow> nat \<Rightarrow> bool \<times> pal_input \<Rightarrow> (bool \<times> pal_input) option" where
  "process_key fInBattle i = (\<lambda>(have_event, s). do {
     state \<leftarrow> pal_query_key (int i) s;
     if state = KEY_STATE_PRESS then do {
       c \<leftarrow> get_keycode (int i);
       s \<leftarrow> pal_release_key (int i) (PAL_KeyPressHandler fInBattle c (report (Pressed c) s));
       Some (True, s)
     } else if state = KEY_STATE_RELEASE then do {
       c \<leftarrow> get_keycode (int i);
       s \<leftarrow> clear_key (int i) (PAL_KeyReleaseHandler c (report (Released c) s));
       Some (True, s)
     } else Some (have_event, s)
   })"

definition process_keys :: "bool \<Rightarrow> pal_input \<Rightarrow> (bool \<times> pal_input) option" where
  "process_keys fInBattle s = do {
     (have_event, s) \<leftarrow> foldM (process_key fInBattle) [0..<PAL_NR_KEYS] (False, s\<lparr>in_IF := False\<rparr>);
     Some (have_event, s\<lparr>in_IF := True\<rparr>)
   }"

definition PAL_PollEvent :: "bool \<Rightarrow> pal_input \<Rightarrow> (bool \<times> pal_input) option" where
  "PAL_PollEvent fInBattle s = process_keys fInBattle s"

text \<open>
  The loop of \<open>PAL_ProcessEvent\<close>. Between its rounds interrupts are on: the \<open>n\<close>-th round finds the effect of the
  scan codes \<open>codes n\<close> that came since the last.
\<close>

partial_function (option) process_loop :: "bool \<Rightarrow> (nat \<Rightarrow> u8 list) \<Rightarrow> nat \<Rightarrow> pal_input \<Rightarrow> pal_input option" where
  "process_loop fInBattle codes n s = do {
     (more, s) \<leftarrow> PAL_PollEvent fInBattle (fold pal_keyboard_event (codes n) s);
     if more then process_loop fInBattle codes (n + 1) s else Some s
   }"

definition PAL_ProcessEvent :: "bool \<Rightarrow> (nat \<Rightarrow> u8 list) \<Rightarrow> pal_input \<Rightarrow> pal_input option" where
  "PAL_ProcessEvent fInBattle codes s = process_loop fInBattle codes 0 s"

text \<open>The static variables at the start, with the interrupts on.\<close>

definition pal_input0 :: pal_input where
  "pal_input0 = \<lparr>in_keys = replicate PAL_NR_KEYS KEY_STATE_EMPTY, in_dir = kDirSouth, in_prevdir = kDirSouth,
     in_press = 0, in_IF = True, in_reports = []\<rparr>"

end
