(* ===== verification/Pal_Input_Correct.thy ===== *)
theory Pal_Input_Correct
  imports Pal_Input
begin

text \<open>
  What the game learns of its keys: \<open>process_keys\<close> as a map over the keys, the order of the reports about a key over all
  interleavings of interrupts and polls, and the end of the polling loop.
\<close>

section \<open>One poll\<close>

fun pending :: "key_status \<Rightarrow> bool" where
  "pending KEY_STATE_PRESS = True"
| "pending KEY_STATE_RELEASE = True"
| "pending _ = False"

fun settle :: "key_status \<Rightarrow> key_status" where
  "settle KEY_STATE_PRESS = KEY_STATE_WAIT_RELEASE"
| "settle KEY_STATE_RELEASE = KEY_STATE_EMPTY"
| "settle k = k"

fun report_of :: "u8 \<Rightarrow> key_status \<Rightarrow> key_report list" where
  "report_of c KEY_STATE_PRESS = [Pressed c]"
| "report_of c KEY_STATE_RELEASE = [Released c]"
| "report_of c _ = []"

definition reports_upto :: "nat \<Rightarrow> key_status list \<Rightarrow> key_report list" where
  "reports_upto n ks = concat (map (\<lambda>i. report_of (keycode_hash ! i) (ks ! i)) [0..<n])"

lemma settled [simp]: "\<not> pending (settle k)"
  by (cases k) simp_all

lemma settle_idle: "\<not> pending k \<Longrightarrow> settle k = k"
  by (cases k) simp_all

lemma handlers_frame [simp]:
  "in_keys (PAL_KeyPressHandler b c s) = in_keys s" "in_keys (PAL_KeyReleaseHandler c s) = in_keys s"
  "in_reports (PAL_KeyPressHandler b c s) = in_reports s" "in_reports (PAL_KeyReleaseHandler c s) = in_reports s"
  "in_IF (PAL_KeyPressHandler b c s) = in_IF s" "in_IF (PAL_KeyReleaseHandler c s) = in_IF s"
  by (simp_all add: PAL_KeyPressHandler_def PAL_KeyReleaseHandler_def press_dir_def press_bit_def release_dir_def)

lemma process_prefix:
  assumes "length (in_keys s) = PAL_NR_KEYS"
  shows "n \<le> PAL_NR_KEYS \<Longrightarrow> \<exists>t. foldM (process_key b) [0..<n] (False, s) = Some (\<exists>k\<in>set (take n (in_keys s)). pending k, t) \<and>
    in_keys t = map settle (take n (in_keys s)) @ drop n (in_keys s) \<and>
    in_reports t = in_reports s @ reports_upto n (in_keys s) \<and> in_IF t = in_IF s"
proof (induction n)
  case (Suc n)
  then obtain t where t: "foldM (process_key b) [0..<n] (False, s) = Some (\<exists>k\<in>set (take n (in_keys s)). pending k, t)"
    "in_keys t = map settle (take n (in_keys s)) @ drop n (in_keys s)"
    "in_reports t = in_reports s @ reports_upto n (in_keys s)" "in_IF t = in_IF s" by auto
  let ?k = "in_keys s ! n"
  have n: "n < PAL_NR_KEYS" "n < length (in_keys s)" using Suc.prems assms by simp_all
  have cur: "in_keys t ! n = ?k" using n by (simp add: t(2) nth_append)
  have upd: "(in_keys t)[n := settle ?k] = map settle (take (Suc n) (in_keys s)) @ drop (Suc n) (in_keys s)"
    using n by (simp add: t(2) list_update_append take_Suc_conv_app_nth Cons_nth_drop_Suc [symmetric])
  have same: "\<not> pending ?k \<Longrightarrow> (in_keys t)[n := settle ?k] = in_keys t"
    using cur settle_idle [of ?k] by (metis list_update_id)
  have more: "(\<exists>k\<in>set (take (Suc n) (in_keys s)). pending k) \<longleftrightarrow> pending ?k \<or> (\<exists>k\<in>set (take n (in_keys s)). pending k)"
    using n by (auto simp: take_Suc_conv_app_nth)
  have "\<exists>u. process_key b n (\<exists>k\<in>set (take n (in_keys s)). pending k, t) = Some (\<exists>k\<in>set (take (Suc n) (in_keys s)). pending k, u) \<and>
    in_keys u = (in_keys t)[n := settle ?k] \<and> in_reports u = in_reports t @ report_of (keycode_hash ! n) ?k \<and> in_IF u = in_IF t"
    using n cur same more
    by (cases ?k) (simp_all add: process_key_def pal_query_key_def get_keycode_def pal_release_key_def clear_key_def report_def)
  moreover have "reports_upto (Suc n) (in_keys s) = reports_upto n (in_keys s) @ report_of (keycode_hash ! n) ?k"
    by (simp add: reports_upto_def)
  ultimately show ?case using t upd by (auto simp: foldM_append)
qed (simp add: reports_upto_def)

lemma process_keys_eq:
  assumes "length (in_keys s) = PAL_NR_KEYS"
  shows "\<exists>t. PAL_PollEvent b s = Some (\<exists>k\<in>set (in_keys s). pending k, t) \<and> in_keys t = map settle (in_keys s) \<and>
    in_reports t = in_reports s @ reports_upto PAL_NR_KEYS (in_keys s) \<and> in_IF t"
  using process_prefix [of "s\<lparr>in_IF := False\<rparr>" PAL_NR_KEYS b] assms
  by (auto simp: PAL_PollEvent_def process_keys_def)

section \<open>Scan codes\<close>

text \<open>The effect of a scan code on a key, and on its key alone.\<close>

fun scanned :: "bool \<Rightarrow> key_status \<Rightarrow> key_status" where
  "scanned True k = KEY_STATE_RELEASE"
| "scanned False KEY_STATE_EMPTY = KEY_STATE_PRESS"
| "scanned False k = k"

lemma list_update_same: "xs ! n = k \<Longrightarrow> xs[n := k] = xs"
  by auto

lemma scan_keys:
  "length (in_keys s) = PAL_NR_KEYS \<Longrightarrow> n \<le> PAL_NR_KEYS \<Longrightarrow>
   in_keys (fold (scan_key code) [0..<n] s) = map (\<lambda>i. if i < n \<and> keycode_hash ! i = code AND 0x7f
      then scanned (code AND 0x80 \<noteq> 0) (in_keys s ! i) else in_keys s ! i) [0..<PAL_NR_KEYS]
   \<and> in_reports (fold (scan_key code) [0..<n] s) = in_reports s"
proof (induction n)
  case 0
  then show ?case by (auto intro: nth_equalityI)
next
  case (Suc n)
  let ?t = "fold (scan_key code) [0..<n] s"
  have IH: "in_keys ?t = map (\<lambda>i. if i < n \<and> keycode_hash ! i = code AND 0x7f
      then scanned (code AND 0x80 \<noteq> 0) (in_keys s ! i) else in_keys s ! i) [0..<PAL_NR_KEYS]" "in_reports ?t = in_reports s"
    using Suc by simp_all
  have k: "in_keys ?t ! n = in_keys s ! n" using Suc.prems by (simp add: IH(1))
  have "in_keys (scan_key code n ?t) = (if keycode_hash ! n = code AND 0x7f
      then (in_keys ?t)[n := scanned (code AND 0x80 \<noteq> 0) (in_keys s ! n)] else in_keys ?t)"
    using k by (cases "in_keys s ! n") (auto simp: scan_key_def list_update_same)
  moreover have "in_reports (scan_key code n ?t) = in_reports s" by (simp add: scan_key_def IH(2))
  ultimately show ?case using Suc.prems
    by (auto simp: IH(1) less_Suc_eq nth_list_update intro!: nth_equalityI)
qed

lemma keyboard_event_keys:
  assumes "length (in_keys s) = PAL_NR_KEYS"
  shows "in_keys (pal_keyboard_event code s) = map (\<lambda>i. if keycode_hash ! i = code AND 0x7f
      then scanned (code AND 0x80 \<noteq> 0) (in_keys s ! i) else in_keys s ! i) [0..<PAL_NR_KEYS]"
    "in_reports (pal_keyboard_event code s) = in_reports s" "length (in_keys (pal_keyboard_event code s)) = PAL_NR_KEYS"
  using scan_keys [OF assms order_refl, of code] by (simp_all add: pal_keyboard_event_def cong: map_cong)

section \<open>The order of the reports\<close>

definition about :: "u8 \<Rightarrow> key_report list \<Rightarrow> key_report list" where
  "about c = filter (\<lambda>r. r = Pressed c \<or> r = Released c)"

fun is_press :: "key_report \<Rightarrow> bool" where
  "is_press (Pressed c) = True"
| "is_press (Released c) = False"

definition no_double_press :: "key_report list \<Rightarrow> bool" where
  "no_double_press = successively (\<lambda>r q. \<not> (is_press r \<and> is_press q))"

lemma distinct_keys: "distinct keycode_hash" "length keycode_hash = PAL_NR_KEYS"
  by (simp_all add: keycode_hash_def key_codes PAL_NR_KEYS_def)

lemma about_report_of: "about c (report_of d k) = (if c = d then report_of d k else [])"
  by (cases k) (auto simp: about_def)

lemma about_append: "about c (xs @ ys) = about c xs @ about c ys"
  by (simp add: about_def)

lemma about_upto:
  "i < PAL_NR_KEYS \<Longrightarrow> n \<le> PAL_NR_KEYS \<Longrightarrow>
   about (keycode_hash ! i) (reports_upto n ks) = (if i < n then report_of (keycode_hash ! i) (ks ! i) else [])"
proof (induction n)
  case (Suc n)
  have "keycode_hash ! i = keycode_hash ! n \<longleftrightarrow> i = n"
    using Suc.prems distinct_keys by (intro nth_eq_iff_index_eq) simp_all
  with Suc show ?case by (auto simp: reports_upto_def about_append about_report_of less_Suc_eq)
qed (simp add: reports_upto_def about_def)

text \<open>The interleavings of interrupts and polls, from the start of the program.\<close>

inductive input_reach :: "bool \<Rightarrow> pal_input \<Rightarrow> bool" for b where
  start: "input_reach b pal_input0"
| init: "input_reach b s \<Longrightarrow> input_reach b (PAL_InitInput s)"
| clear: "input_reach b s \<Longrightarrow> input_reach b (PAL_ClearKeyState s)"
| scan: "input_reach b s \<Longrightarrow> input_reach b (pal_keyboard_event code s)"
| poll: "input_reach b s \<Longrightarrow> PAL_PollEvent b s = Some (e, t) \<Longrightarrow> input_reach b t"

definition key_inv :: "key_status \<Rightarrow> key_report list \<Rightarrow> bool" where
  "key_inv k rs \<longleftrightarrow> no_double_press rs \<and>
     (k = KEY_STATE_EMPTY \<or> k = KEY_STATE_PRESS \<longrightarrow> rs = [] \<or> \<not> is_press (last rs))"

definition input_inv :: "pal_input \<Rightarrow> bool" where
  "input_inv s \<longleftrightarrow> length (in_keys s) = PAL_NR_KEYS \<and>
     (\<forall>i<PAL_NR_KEYS. key_inv (in_keys s ! i) (about (keycode_hash ! i) (in_reports s)))"

lemma key_inv_scanned: "key_inv k rs \<Longrightarrow> key_inv (scanned up k) rs"
  by (cases up; cases k) (simp_all add: key_inv_def)

lemma key_inv_settle: "key_inv k rs \<Longrightarrow> key_inv (settle k) (rs @ report_of c k)"
  by (cases k) (auto simp: key_inv_def no_double_press_def successively_append_iff)

lemma input_inv_reach: "input_reach b s \<Longrightarrow> input_inv s"
proof (induction rule: input_reach.induct)
  case start
  show ?case by (simp add: input_inv_def pal_input0_def key_inv_def about_def no_double_press_def)
next
  case (scan s code)
  then have len: "length (in_keys s) = PAL_NR_KEYS" by (simp add: input_inv_def)
  have "in_keys (pal_keyboard_event code s) ! i \<in> {in_keys s ! i, scanned (code AND 0x80 \<noteq> 0) (in_keys s ! i)}"
    if "i < PAL_NR_KEYS" for i using that by (simp add: keyboard_event_keys(1) [OF len])
  with scan.IH show ?case
    unfolding input_inv_def keyboard_event_keys(2,3) [OF len] by (metis insertE singletonD key_inv_scanned)
next
  case (poll s e t)
  then have len: "length (in_keys s) = PAL_NR_KEYS" by (simp add: input_inv_def)
  from process_keys_eq [OF this, of b] poll.hyps(2)
  have "in_keys t = map settle (in_keys s)" "in_reports t = in_reports s @ reports_upto PAL_NR_KEYS (in_keys s)" by auto
  with poll.IH len show ?case by (simp add: input_inv_def about_append about_upto key_inv_settle)
qed (simp_all add: input_inv_def PAL_InitInput_def PAL_ClearKeyState_def)

text \<open>C39: However the keyboard interrupts and the polls interleave, a poll always succeeds and leaves the interrupts on,
  and for every key no two presses are reported without a release between them.
\<close>

theorem key_reports_alternate:
  assumes "input_reach b s"
  shows "(\<exists>e t. PAL_PollEvent b s = Some (e, t) \<and> in_IF t) \<and> (\<forall>c\<in>set keycode_hash. no_double_press (about c (in_reports s)))"
proof -
  have inv: "input_inv s" using input_inv_reach [OF assms] .
  have "no_double_press (about c (in_reports s))" if "c \<in> set keycode_hash" for c
  proof -
    from that obtain i where "i < PAL_NR_KEYS" "c = keycode_hash ! i" using distinct_keys by (auto simp: in_set_conv_nth)
    with inv show ?thesis by (simp add: input_inv_def key_inv_def)
  qed
  moreover have "\<exists>e t. PAL_PollEvent b s = Some (e, t) \<and> in_IF t"
    using process_keys_eq [of s b] inv by (auto simp: input_inv_def)
  ultimately show ?thesis by blast
qed

text \<open>The up key is pressed, polled, released, and pressed again before the next poll.\<close>

theorem key_reports_alternate_witness:
  "(let s = pal_keyboard_event 0x48 pal_input0;
        t = snd (the (PAL_PollEvent False s))
    in in_reports t = [Pressed K_UP] \<and> no_double_press (about K_UP (in_reports t)))"
proof -
  let ?s = "pal_keyboard_event 0x48 pal_input0"
  have "input_reach False ?s" by (intro input_reach.intros)
  moreover from key_reports_alternate [OF this] obtain e t where t: "PAL_PollEvent False ?s = Some (e, t)" by blast
  ultimately have "input_reach False t" by (rule input_reach.poll)
  from key_reports_alternate [OF this] have "no_double_press (about K_UP (in_reports t))" by (simp add: keycode_hash_def)
  moreover have "in_reports (snd (the (PAL_PollEvent False ?s))) = [Pressed K_UP]" by code_simp
  ultimately show ?thesis by (simp add: t Let_def)
qed

text \<open>A key that goes down and up between two polls is never reported as pressed: only its release is.\<close>

lemma tap_between_polls:
  "map_option (in_reports \<circ> snd) (PAL_PollEvent b (pal_keyboard_event 0xc8 (pal_keyboard_event 0x48 pal_input0))) = Some [Released K_UP]"
  by (cases b) (code_simp+)

section \<open>The polling loop\<close>

definition polled_out :: "pal_input option \<Rightarrow> bool" where
  "polled_out r \<longleftrightarrow> (\<exists>t. r = Some t \<and> (\<forall>k\<in>set (in_keys t). \<not> pending k) \<and> in_IF t)"

lemma process_loop_round:
  assumes "length (in_keys s) = PAL_NR_KEYS"
  obtains (last) "polled_out (process_loop b codes n s)"
  | (again) t where "process_loop b codes n s = process_loop b codes (n + 1) t" "length (in_keys t) = PAL_NR_KEYS"
      "\<forall>k\<in>set (in_keys t). \<not> pending k" "\<exists>k\<in>set (in_keys (fold pal_keyboard_event (codes n) s)). pending k"
proof -
  let ?u = "fold pal_keyboard_event (codes n) s"
  have "length (in_keys (fold pal_keyboard_event cs v)) = PAL_NR_KEYS" if "length (in_keys v) = PAL_NR_KEYS" for cs v
    using that by (induction cs arbitrary: v) (simp_all add: keyboard_event_keys)
  then have len: "length (in_keys ?u) = PAL_NR_KEYS" using assms by blast
  from process_keys_eq [OF this, of b] obtain t where t: "PAL_PollEvent b ?u = Some (\<exists>k\<in>set (in_keys ?u). pending k, t)"
    "in_keys t = map settle (in_keys ?u)" "in_IF t" by blast
  have settled: "\<forall>k\<in>set (in_keys t). \<not> pending k" by (simp add: t(2))
  show thesis
  proof (cases "\<exists>k\<in>set (in_keys ?u). pending k")
    case True
    then have "process_loop b codes n s = process_loop b codes (n + 1) t" by (subst process_loop.simps) (simp add: t(1))
    then show thesis using again settled True len by (simp add: t(2))
  next
    case False
    then have "process_loop b codes n s = Some t" by (subst process_loop.simps) (simp add: t(1))
    then show thesis using last settled t(3) by (simp add: polled_out_def)
  qed
qed

text \<open>
  When the keyboard interrupts cease at some time, the polling loop ends, with every press and release reported
  and the interrupts on.
\<close>

theorem process_event_drains:
  assumes "length (in_keys s) = PAL_NR_KEYS" "\<forall>m\<ge>N. codes m = []"
  shows "\<exists>t. PAL_ProcessEvent b codes s = Some t \<and> (\<forall>k\<in>set (in_keys t). \<not> pending k) \<and> in_IF t"
proof -
  have late: "polled_out (process_loop b codes n t)"
    if "N \<le> n" "length (in_keys t) = PAL_NR_KEYS" "\<forall>k\<in>set (in_keys t). \<not> pending k" for n t
    using that(2) by (cases rule: process_loop_round [where b = b and codes = codes and n = n]) (use that assms(2) in auto)
  have "polled_out (process_loop b codes n s)" if "length (in_keys s) = PAL_NR_KEYS" "d = N - n" for d n s
    using that
  proof (induction d arbitrary: n s)
    case 0
    then show ?case
      by (cases rule: process_loop_round [OF "0.prems"(1), where b = b and codes = codes and n = n]) (use 0 late in auto)
  next
    case (Suc d)
    then show ?case
      by (cases rule: process_loop_round [OF Suc.prems(1), where b = b and codes = codes and n = n]) auto
  qed
  then show ?thesis using assms(1) by (simp add: PAL_ProcessEvent_def polled_out_def)
qed

theorem process_event_drains_witness:
  "\<exists>t. PAL_ProcessEvent False (\<lambda>n. if n = 0 then [0x48, 0x4b] else if n = 1 then [0xc8] else []) pal_input0 = Some t
    \<and> (\<forall>k\<in>set (in_keys t). \<not> pending k) \<and> in_IF t"
  by (rule process_event_drains [where N = 2]) (simp_all add: pal_input0_def)

end
