(* ===== verification/Pal_Yj1.thy ===== *)
theory Pal_Yj1
  imports Nemu_Prelude
begin

text \<open>
  The decompressor of the game's data, \<open>game/src/nemu-pal/misc/yj1.c\<close> as compiled without \<open>PAL_WIN95\<close>: Huffman
  codes for literal bytes and LZSS copies. The source is the list of the bytes from a pointer on, the destination a
  buffer that is written by index. A read behind the source, a store behind the destination, a copy from before
  its start, a tree that leads out of its array and a shift by more than 16 make the result \<open>None\<close>, and so does a
  tree or a block without end. What \<open>get_bits\<close> shifts and combines are \<open>int\<close>s that hold unsigned values of at most
  32 bits.
\<close>

unbundle bit_operations_syntax

definition le_half :: "u8 list \<Rightarrow> nat \<Rightarrow> u32" where
  "le_half src i = ucast (src ! i) OR push_bit 8 (ucast (src ! (i + 1)))"

definition le_full :: "u8 list \<Rightarrow> nat \<Rightarrow> u32" where
  "le_full src i = le_half src i OR push_bit 16 (le_half src (i + 2))"

definition get_bits :: "u8 list \<Rightarrow> nat \<Rightarrow> nat \<Rightarrow> (u32 \<times> nat) option" where
  "get_bits src bitptr count =
     (let temp = 2 * (bitptr div 16);
          bptr = bitptr mod 16
      in if count > 16 - bptr
         then let c = count + bptr - 16
              in if c > 16 \<or> length src < temp + 4 then None
                 else Some (push_bit c (le_half src temp AND drop_bit bptr 0xffff) OR drop_bit (16 - c) (le_half src (temp + 2)),
                            bitptr + count)
         else if length src < temp + 2 then None
         else Some (drop_bit (16 - count) (take_bit 16 (push_bit bptr (le_half src temp))), bitptr + count))"

text \<open>The fields of \<open>YJ_1_BLOCKHEADER\<close>, 24 bytes, which the block's data follow.\<close>

definition CodeCountTable :: "u8 list \<Rightarrow> nat \<Rightarrow> u16" where "CodeCountTable h i = ucast (h ! (22 + i))"
definition CodeCountCodeLengthTable :: "u8 list \<Rightarrow> nat \<Rightarrow> nat" where "CodeCountCodeLengthTable h i = unat (h ! (19 + i))"
definition LZSSRepeatCodeLengthTable :: "u8 list \<Rightarrow> nat \<Rightarrow> nat" where "LZSSRepeatCodeLengthTable h i = unat (h ! (16 + i))"
definition LZSSOffsetCodeLengthTable :: "u8 list \<Rightarrow> nat \<Rightarrow> nat" where "LZSSOffsetCodeLengthTable h i = unat (h ! (12 + i))"
definition LZSSRepeatTable :: "u8 list \<Rightarrow> nat \<Rightarrow> u16" where "LZSSRepeatTable h i = ucast (le_half h (4 + 2 * i))"

definition get_loop :: "u8 list \<Rightarrow> nat \<Rightarrow> u8 list \<Rightarrow> (u16 \<times> nat) option" where
  "get_loop src bitptr header = do {
     (b, p) \<leftarrow> get_bits src bitptr 1;
     if b \<noteq> 0 then Some (CodeCountTable header 0, p)
     else do {
       (temp, p) \<leftarrow> get_bits src p 2;
       if temp \<noteq> 0 then do {
         (v, p) \<leftarrow> get_bits src p (CodeCountCodeLengthTable header (unat temp - 1));
         Some (ucast v, p)
       } else Some (CodeCountTable header 1, p)
     }
   }"

definition get_count :: "u8 list \<Rightarrow> nat \<Rightarrow> u8 list \<Rightarrow> (u16 \<times> nat) option" where
  "get_count src bitptr header = do {
     (temp, p) \<leftarrow> get_bits src bitptr 2;
     if temp \<noteq> 0 then do {
       (b, p) \<leftarrow> get_bits src p 1;
       if b \<noteq> 0 then do {
         (v, p) \<leftarrow> get_bits src p (LZSSRepeatCodeLengthTable header (unat temp - 1));
         Some (ucast v, p)
       } else Some (LZSSRepeatTable header (unat temp), p)
     } else Some (LZSSRepeatTable header 0, p)
   }"

section \<open>The tree\<close>

text \<open>A node, by its index: whether it is a leaf, and its value; the children of an inner node follow from the value.\<close>

record tree_node =
  leaf :: bool
  nvalue :: u8

definition left_child :: "tree_node \<Rightarrow> nat" where "left_child nd = 2 * unat (nvalue nd) + 1"
definition right_child :: "tree_node \<Rightarrow> nat" where "right_child nd = left_child nd + 1"

definition tree_flag :: "u8 list \<Rightarrow> u8 list \<Rightarrow> nat \<Rightarrow> tree_node list \<times> nat \<Rightarrow> (tree_node list \<times> nat) option" where
  "tree_flag src flag i = (\<lambda>(root, bitptr). do {
     (b, p) \<leftarrow> get_bits flag bitptr 1;
     if length src \<le> 15 + i then None
     else Some (root @ [\<lparr>leaf = (b = 0), nvalue = src ! (15 + i)\<rparr>], p)
   })"

definition build_nodes :: "u8 list \<Rightarrow> nat \<Rightarrow> tree_node list option" where
  "build_nodes src tree_len =
     map_option fst (foldM (tree_flag src (drop (16 + tree_len) src)) [1..<tree_len + 1] ([\<lparr>leaf = False, nvalue = 0\<rparr>], 0))"

partial_function (option) walk_tree :: "u8 list \<Rightarrow> tree_node list \<Rightarrow> nat \<Rightarrow> nat \<Rightarrow> (u8 \<times> nat) option" where
  "walk_tree src root node bitptr =
     (if length root \<le> node then None
      else if leaf (root ! node) then Some (nvalue (root ! node), bitptr)
      else do {
        (b, p) \<leftarrow> get_bits src bitptr 1;
        walk_tree src root (if b \<noteq> 0 then right_child (root ! node) else left_child (root ! node)) p
      })"

section \<open>A block\<close>

text \<open>The destination: the buffer and the index of the next byte.\<close>

type_synonym dest = "u8 list \<times> nat"

definition put_dest :: "u8 \<Rightarrow> dest \<Rightarrow> dest option" where
  "put_dest b = (\<lambda>(buf, k). if k < length buf then Some (buf[k := b], k + 1) else None)"

primrec literals :: "u8 list \<Rightarrow> tree_node list \<Rightarrow> nat \<Rightarrow> nat \<times> dest \<Rightarrow> (nat \<times> dest) option" where
  "literals src root 0 st = Some st"
| "literals src root (Suc n) st = do {
     (c, p) \<leftarrow> walk_tree src root 0 (fst st);
     d \<leftarrow> put_dest c (snd st);
     literals src root n (p, d)
   }"

primrec copy_back :: "nat \<Rightarrow> nat \<Rightarrow> dest \<Rightarrow> dest option" where
  "copy_back pos 0 d = Some d"
| "copy_back pos (Suc n) d =
     (if snd d < pos \<or> length (fst d) \<le> snd d - pos then None
      else do { d \<leftarrow> put_dest (fst d ! (snd d - pos)) d; copy_back pos n d })"

primrec copies :: "u8 list \<Rightarrow> u8 list \<Rightarrow> nat \<Rightarrow> nat \<times> dest \<Rightarrow> (nat \<times> dest) option" where
  "copies src header 0 st = Some st"
| "copies src header (Suc n) st = do {
     (count, p) \<leftarrow> get_count src (fst st) header;
     (pos, p) \<leftarrow> get_bits src p 2;
     (pos, p) \<leftarrow> get_bits src p (LZSSOffsetCodeLengthTable header (unat pos));
     d \<leftarrow> copy_back (unat pos) (unat count) (snd st);
     copies src header n (p, d)
   }"

partial_function (option) block_loop :: "u8 list \<Rightarrow> u8 list \<Rightarrow> tree_node list \<Rightarrow> nat \<times> dest \<Rightarrow> dest option" where
  "block_loop src header root st = do {
     (loop, p) \<leftarrow> get_loop src (fst st) header;
     if loop = 0 then Some (snd st)
     else do {
       st \<leftarrow> literals src root (unat loop) (p, snd st);
       (loop, p) \<leftarrow> get_loop src (fst st) header;
       if loop = 0 then Some (snd st)
       else do {
         st \<leftarrow> copies src header (unat loop) (p, snd st);
         block_loop src header root st
       }
     }
   }"

primrec copy_plain :: "nat \<Rightarrow> u8 list \<times> dest \<Rightarrow> (u8 list \<times> dest) option" where
  "copy_plain 0 st = Some st"
| "copy_plain (Suc n) st =
     (case fst st of [] \<Rightarrow> None | b # src \<Rightarrow> do { d \<leftarrow> put_dest b (snd st); copy_plain n (src, d) })"

text \<open>One round of the loop over the blocks, with the source that is left.\<close>

definition decode_block :: "tree_node list \<Rightarrow> u8 list \<times> dest \<Rightarrow> (u8 list \<times> dest) option" where
  "decode_block root = (\<lambda>(header, d).
     if length header < 4 then None
     else let hul = unat (le_half header 0); clen = unat (le_half header 2)
          in if clen = 0 then copy_plain hul (drop 4 header, d)
             else if length header < 24 then None
             else do {
               d \<leftarrow> block_loop (drop 24 header) (take 24 header) root (0, d);
               if length header < clen then None else Some (drop clen header, d)
             })"

text \<open>
  \<open>mem\<close> says whether \<open>malloc\<close> returns a block. The result is the returned value and the destination buffer
  of \<open>DestSize\<close> bytes.
\<close>

definition Decompress :: "bool \<Rightarrow> u8 list option \<Rightarrow> u8 list \<Rightarrow> (int \<times> u8 list) option" where
  "Decompress mem Source dst =
     (case Source of None \<Rightarrow> Some (- 1, dst)
      | Some src \<Rightarrow>
          if length src < 16 then None
          else if le_full src 0 \<noteq> 0x315f4a59 then Some (- 1, dst)
          else if length dst < unat (le_full src 4) then Some (- 1, dst)
          else if \<not> mem then Some (- 1, dst)
          else do {
            let tree_len = unat (src ! 15) * 2;
            root \<leftarrow> build_nodes src tree_len;
            let used = 16 + tree_len + 2 * (if tree_len mod 16 \<noteq> 0 then tree_len div 16 + 1 else tree_len div 16);
            if length src < used then None else do {
              (rest, d) \<leftarrow> foldM (\<lambda>_. decode_block root) [0..<unat (le_half src 12)] (drop used src, dst, 0);
              Some (sint (le_full src 4), fst d)
            }
          })"

end
