(* ===== verification/Pal_Yj1_Correct.thy ===== *)
theory Pal_Yj1_Correct
  imports Pal_Yj1
begin

text \<open>
  The decompressor against the format: \<open>block_code\<close> says which bit strings spell which sequence of literal bytes and
  copies, \<open>unpack\<close> what such a sequence means as a list of bytes, and every spelling decodes to its meaning.
\<close>

section \<open>Reading bits\<close>

text \<open>The bits of the source are those of its 16-bit words, the highest first.\<close>

definition bit_at :: "u8 list \<Rightarrow> nat \<Rightarrow> bool" where
  "bit_at src p = bit (le_half src (2 * (p div 16))) (15 - p mod 16)"

definition spells :: "u8 list \<Rightarrow> nat \<Rightarrow> bool list \<Rightarrow> bool" where
  "spells src p bs \<longleftrightarrow> p + length bs \<le> 16 * (length src div 2) \<and> (\<forall>i<length bs. bit_at src (p + i) = bs ! i)"

definition bits_word :: "bool list \<Rightarrow> u32" where
  "bits_word bs = horner_sum of_bool 2 (rev bs)"

lemma bit_bits_word: "length bs \<le> 32 \<Longrightarrow> bit (bits_word bs) j \<longleftrightarrow> j < length bs \<and> bs ! (length bs - 1 - j)"
  by (auto simp: bits_word_def bit_horner_sum_bit_word_iff rev_nth)

lemma spells_append: "spells src p (bs @ cs) \<longleftrightarrow> spells src p bs \<and> spells src (p + length bs) cs"
proof -
  have "(\<forall>i<length (bs @ cs). bit_at src (p + i) = (bs @ cs) ! i) \<longleftrightarrow>
    (\<forall>i<length bs. bit_at src (p + i) = bs ! i) \<and> (\<forall>i<length cs. bit_at src (p + length bs + i) = cs ! i)"
    (is "?a \<longleftrightarrow> ?b \<and> ?c")
  proof
    assume a: ?a
    have ?c using a by (metis add.assoc add_less_cancel_left length_append nth_append_length_plus)
    moreover have ?b using a by (metis length_append nth_append trans_less_add1)
    ultimately show "?b \<and> ?c" by blast
  next
    assume b: "?b \<and> ?c"
    show ?a
    proof (intro allI impI)
      fix i
      assume "i < length (bs @ cs)"
      then show "bit_at src (p + i) = (bs @ cs) ! i"
        using b by (cases "i < length bs") (auto simp: nth_append dest: spec [of _ "i - length bs"])
    qed
  qed
  then show ?thesis by (auto simp: spells_def)
qed

lemma spells_Cons: "spells src p (b # bs) \<longleftrightarrow> spells src p [b] \<and> spells src (p + 1) bs"
  using spells_append [of src p "[b]" bs] by simp

lemma le_half_bound: "bit (le_half src i) j \<Longrightarrow> j < 16"
  by (auto simp: le_half_def bit_simps dest: bit_imp_le_length)

lemma bit_at_off:
  "off < 16 \<Longrightarrow> bit_at src (16 * q + off) = bit (le_half src (2 * q)) (15 - off)"
  "16 \<le> off \<Longrightarrow> off < 32 \<Longrightarrow> bit_at src (16 * q + off) = bit (le_half src (2 * q + 2)) (31 - off)"
proof -
  show "off < 16 \<Longrightarrow> bit_at src (16 * q + off) = bit (le_half src (2 * q)) (15 - off)" by (simp add: bit_at_def)
  assume "16 \<le> off" "off < 32"
  then obtain r where "off = 16 + r" "r < 16" by (metis add_diff_cancel_left' le_Suc_ex less_diff_conv2 numeral_Bit0 nat_add_left_cancel_less)
  then show "bit_at src (16 * q + off) = bit (le_half src (2 * q + 2)) (31 - off)"
  proof -
    from \<open>r < 16\<close> have "(16 * q + off) div 16 = Suc q" "(16 * q + off) mod 16 = r" by (simp_all add: \<open>off = 16 + r\<close> div_nat_eqI)
    then show ?thesis by (simp add: bit_at_def \<open>off = 16 + r\<close>)
  qed
qed

text \<open>The two ways in which the bits lie in the words of the source.\<close>

lemma bits_in_two_words:
  assumes "n \<le> 16" "b < 16" "16 - b < n" "j < 32"
  shows "bit (push_bit (n + b - 16) (le_half src (2 * q) AND drop_bit b 0xffff) OR drop_bit (32 - n - b) (le_half src (2 * q + 2))) j
    \<longleftrightarrow> j < n \<and> bit_at src (16 * q + (b + (n - 1 - j)))"
proof (cases "j < n + b - 16")
  case True
  define off where "off = b + (n - 1 - j)"
  from True have "31 - off = 32 - n - b + j" "16 \<le> off" "off < 32" "j < n"
    using assms by (auto simp: off_def)
  with True assms(4) show ?thesis unfolding off_def [symmetric] by (simp add: bit_at_off bit_simps)
next
  case False
  have ff: "bit (0xffff :: u32) k \<longleftrightarrow> k < 16" if "k < 32" for k
  proof -
    have "(0xffff :: u32) = mask 16" by (simp add: mask_eq_exp_minus_1)
    then show ?thesis using that by (simp only: bit_mask_iff) simp
  qed
  have high: "\<not> bit (le_half src (2 * q + 2)) (32 - n - b + j)" using False assms by (auto dest: le_half_bound)
  show ?thesis
  proof (cases "j < n")
    case True
    define off where "off = b + (n - 1 - j)"
    from True have "15 - off = j - (n + b - 16)" "off < 16" "b + (j - (n + b - 16)) < 16" using False assms by (auto simp: off_def)
    with True False assms(4) high ff [of "b + (j - (n + b - 16))"] show ?thesis
      unfolding off_def [symmetric] by (simp add: bit_at_off bit_simps)
  next
    case n: False
    then have "\<not> b + (j - (n + b - 16)) < 16" using False assms by auto
    with n False assms(4) high ff [of "b + (j - (n + b - 16))"] show ?thesis
      by (auto simp: bit_simps dest: bit_imp_le_length)
  qed
qed

lemma bits_in_one_word:
  assumes "1 \<le> n" "n \<le> 16 - b" "b < 16"
  shows "bit (drop_bit (16 - n) (take_bit 16 (push_bit b (le_half src (2 * q))))) j
    \<longleftrightarrow> j < n \<and> bit_at src (16 * q + (b + (n - 1 - j)))"
proof (cases "j < n")
  case True
  define off where "off = b + (n - 1 - j)"
  from True have "15 - off = 16 - n + j - b" "off < 16" "b \<le> 16 - n + j" "16 - n + j < 16" using assms by (auto simp: off_def)
  with True show ?thesis unfolding off_def [symmetric] by (simp add: bit_at_off bit_simps)
qed (use assms in \<open>auto simp: bit_simps\<close>)

lemma words_needed:
  fixes p q b n l :: nat
  assumes "p = 16 * q + b" "b < 16" "p + n \<le> 16 * (l div 2)"
  shows "16 - b < n \<Longrightarrow> 2 * q + 4 \<le> l" "1 \<le> n \<Longrightarrow> 2 * q + 2 \<le> l"
proof -
  obtain h where h: "h = l div 2" "2 * h \<le> l" by simp
  have fit: "16 * q + b + n \<le> 16 * h" using assms(1,3) by (simp add: h(1))
  show "2 * q + 4 \<le> l" if "16 - b < n"
  proof -
    have "17 \<le> b + n" using that assms(2) by arith
    then have "16 * q + 17 \<le> 16 * h" using fit by simp
    then have "q + 2 \<le> h" by linarith
    then show ?thesis using h(2) by simp
  qed
  show "2 * q + 2 \<le> l" if "1 \<le> n"
  proof -
    have "16 * q + 1 \<le> 16 * h" using fit that by simp
    then have "q + 1 \<le> h" by linarith
    then show ?thesis using h(2) by simp
  qed
qed

lemma get_bits_spelled:
  assumes "spells src p bs" "1 \<le> length bs" "length bs \<le> 16"
  shows "get_bits src p (length bs) = Some (bits_word bs, p + length bs)"
proof -
  let ?q = "p div 16" and ?b = "p mod 16" and ?n = "length bs"
  have p: "p = 16 * ?q + ?b" "?b < 16" by simp_all
  have fit: "p + ?n \<le> 16 * (length src div 2)" using assms(1) by (simp add: spells_def)
  have at: "bit (bits_word bs) j \<longleftrightarrow> j < ?n \<and> bit_at src (16 * ?q + (?b + (?n - 1 - j)))" for j
  proof -
    have "bs ! (?n - 1 - j) = bit_at src (p + (?n - 1 - j))" if "j < ?n"
      using assms(1) that by (simp only: spells_def)
    moreover have "p + (?n - 1 - j) = 16 * ?q + (?b + (?n - 1 - j))" using p(1) by linarith
    ultimately show ?thesis using assms(3) by (auto simp: bit_bits_word simp del: diff_diff_left)
  qed
  show ?thesis
  proof (cases "?n > 16 - ?b")
    case True
    have "2 * ?q + 4 \<le> length src" using words_needed(1) [OF p fit True] .
    moreover have "push_bit (?n + ?b - 16) (le_half src (2 * ?q) AND drop_bit ?b 0xffff) OR
        drop_bit (32 - ?n - ?b) (le_half src (2 * ?q + 2)) = bits_word bs"
      by (rule bit_word_eqI) (use bits_in_two_words [OF assms(3) p(2) True] at in simp)
    moreover have "16 - (?n + ?b - 16) = 32 - ?n - ?b" using True by simp
    ultimately show ?thesis using True assms(3) p(2) by (simp add: get_bits_def Let_def)
  next
    case False
    have "2 * ?q + 2 \<le> length src" using words_needed(2) [OF p fit assms(2)] .
    moreover have "drop_bit (16 - ?n) (take_bit 16 (push_bit ?b (le_half src (2 * ?q)))) = bits_word bs"
      by (rule bit_word_eqI) (use bits_in_one_word [OF assms(2) _ p(2)] False at in simp)
    ultimately show ?thesis using False by (simp add: get_bits_def Let_def)
  qed
qed

section \<open>The codes\<close>

text \<open>The path from a node of the tree to the leaf of a byte.\<close>

inductive huff_code :: "tree_node list \<Rightarrow> nat \<Rightarrow> u8 \<Rightarrow> bool list \<Rightarrow> bool" for root where
  at_leaf: "i < length root \<Longrightarrow> leaf (root ! i) \<Longrightarrow> huff_code root i (nvalue (root ! i)) []"
| inner: "i < length root \<Longrightarrow> \<not> leaf (root ! i) \<Longrightarrow>
    huff_code root (if b then right_child (root ! i) else left_child (root ! i)) c bs \<Longrightarrow> huff_code root i c (b # bs)"

text \<open>A number of \<open>n\<close> bits, at least one and at most 16.\<close>

definition number :: "nat \<Rightarrow> u32 \<Rightarrow> bool list \<Rightarrow> bool" where
  "number n v bs \<longleftrightarrow> length bs = n \<and> 1 \<le> n \<and> n \<le> 16 \<and> v = bits_word bs"

inductive loop_code :: "u8 list \<Rightarrow> u16 \<Rightarrow> bool list \<Rightarrow> bool" for h where
  first: "loop_code h (CodeCountTable h 0) [True]"
| second: "loop_code h (CodeCountTable h 1) [False, False, False]"
| direct: "number 2 t ts \<Longrightarrow> t \<noteq> 0 \<Longrightarrow> number (CodeCountCodeLengthTable h (unat t - 1)) v bs \<Longrightarrow>
    loop_code h (ucast v) (False # ts @ bs)"

inductive count_code :: "u8 list \<Rightarrow> u16 \<Rightarrow> bool list \<Rightarrow> bool" for h where
  zero: "count_code h (LZSSRepeatTable h 0) [False, False]"
| table: "number 2 t ts \<Longrightarrow> t \<noteq> 0 \<Longrightarrow> count_code h (LZSSRepeatTable h (unat t)) (ts @ [False])"
| direct: "number 2 t ts \<Longrightarrow> t \<noteq> 0 \<Longrightarrow> number (LZSSRepeatCodeLengthTable h (unat t - 1)) v bs \<Longrightarrow>
    count_code h (ucast v) (ts @ True # bs)"

inductive copy_code :: "u8 list \<Rightarrow> nat \<times> nat \<Rightarrow> bool list \<Rightarrow> bool" for h where
  "count_code h n bs \<Longrightarrow> number 2 t ts \<Longrightarrow> number (LZSSOffsetCodeLengthTable h (unat t)) pos ps \<Longrightarrow>
    copy_code h (unat n, unat pos) (bs @ ts @ ps)"

text \<open>A list of items, each by its code.\<close>

inductive codes :: "('a \<Rightarrow> bool list \<Rightarrow> bool) \<Rightarrow> 'a list \<Rightarrow> bool list \<Rightarrow> bool" for code where
  none: "codes code [] []"
| more: "code x bs \<Longrightarrow> codes code xs cs \<Longrightarrow> codes code (x # xs) (bs @ cs)"

text \<open>A block: groups of literal bytes and of copies, given by count and distance, up to a group of zero.\<close>

inductive block_code :: "u8 list \<Rightarrow> tree_node list \<Rightarrow> (u8 list \<times> (nat \<times> nat) list) list \<Rightarrow> bool list \<Rightarrow> bool" for h root where
  stop: "loop_code h 0 bs \<Longrightarrow> block_code h root [] bs"
| stop_inside: "loop_code h n b1 \<Longrightarrow> n \<noteq> 0 \<Longrightarrow> unat n = length cs \<Longrightarrow> codes (huff_code root 0) cs b2 \<Longrightarrow> loop_code h 0 b3 \<Longrightarrow>
    block_code h root [(cs, [])] (b1 @ b2 @ b3)"
| group: "loop_code h n b1 \<Longrightarrow> n \<noteq> 0 \<Longrightarrow> unat n = length cs \<Longrightarrow> codes (huff_code root 0) cs b2 \<Longrightarrow>
    loop_code h m b3 \<Longrightarrow> m \<noteq> 0 \<Longrightarrow> unat m = length ms \<Longrightarrow> codes (copy_code h) ms b4 \<Longrightarrow> block_code h root gs b5 \<Longrightarrow>
    block_code h root ((cs, ms) # gs) (b1 @ b2 @ b3 @ b4 @ b5)"

section \<open>What a block means\<close>

primrec copy_out :: "nat \<Rightarrow> nat \<Rightarrow> u8 list \<Rightarrow> u8 list" where
  "copy_out pos 0 out = out"
| "copy_out pos (Suc n) out = copy_out pos n (out @ [out ! (length out - pos)])"

primrec copies_out :: "(nat \<times> nat) list \<Rightarrow> u8 list \<Rightarrow> u8 list option" where
  "copies_out [] out = Some out"
| "copies_out (m # ms) out =
     (if 1 \<le> snd m \<and> snd m \<le> length out then copies_out ms (copy_out (snd m) (fst m) out) else None)"

primrec unpack :: "(u8 list \<times> (nat \<times> nat) list) list \<Rightarrow> u8 list \<Rightarrow> u8 list option" where
  "unpack [] out = Some out"
| "unpack (g # gs) out = do { out \<leftarrow> copies_out (snd g) (out @ fst g); unpack gs out }"

section \<open>Every code decodes\<close>

lemma get_number: "number n v bs \<Longrightarrow> spells src p bs \<Longrightarrow> get_bits src p n = Some (v, p + n)"
  using get_bits_spelled [of src p bs] by (auto simp: number_def)

lemma get_bit: "spells src p [b] \<Longrightarrow> get_bits src p (Suc 0) = Some (of_bool b, Suc p)"
  using get_bits_spelled [of src p "[b]"] by (simp add: bits_word_def)

lemma get_zeros: "spells src p [False, False] \<Longrightarrow> get_bits src p 2 = Some (0, p + 2)"
  using get_bits_spelled [of src p "[False, False]"] by (simp add: bits_word_def numeral_2_eq_2)

lemma walk_code: "huff_code root i c bs \<Longrightarrow> spells src p bs \<Longrightarrow> walk_tree src root i p = Some (c, p + length bs)"
proof (induction arbitrary: p rule: huff_code.induct)
  case (at_leaf i)
  then show ?case by (subst walk_tree.simps) simp
next
  case (inner i b c bs)
  from inner.prems have "spells src p [b]" "spells src (Suc p) bs" using spells_Cons [of src p b bs] by simp_all
  with inner show ?case by (subst walk_tree.simps) (simp add: get_bit)
qed

lemma get_loop_code: "loop_code h n bs \<Longrightarrow> spells src p bs \<Longrightarrow> get_loop src p h = Some (n, p + length bs)"
proof (induction rule: loop_code.induct)
  case second
  then have "spells src p [False]" "spells src (Suc p) [False, False]"
    using spells_Cons [of src p False "[False, False]"] by simp_all
  then show ?case by (simp add: get_loop_def get_bit get_zeros)
next
  case (direct t ts v bs)
  have "spells src p [False]" "spells src (Suc p) ts" "spells src (Suc p + 2) bs"
    using direct spells_Cons [of src p False "ts @ bs"] by (simp_all add: spells_append number_def)
  with direct.hyps get_number [OF direct.hyps(1)] get_number [OF direct.hyps(3)] show ?case
    by (simp add: get_loop_def get_bit) (simp add: number_def)
qed (simp add: get_loop_def get_bit)

lemma get_count_code: "count_code h n bs \<Longrightarrow> spells src p bs \<Longrightarrow> get_count src p h = Some (n, p + length bs)"
proof (induction rule: count_code.induct)
  case (table t ts)
  then have "spells src p ts" "spells src (p + 2) [False]" by (auto simp: spells_append number_def)
  with table.hyps get_number [OF table.hyps(1)] show ?case
    by (simp add: get_count_def get_bit) (simp add: number_def)
next
  case (direct t ts v bs)
  have "spells src p ts" "spells src (p + 2) [True]" "spells src (Suc (p + 2)) bs"
    using direct spells_Cons [of src "p + 2" True bs] by (simp_all add: spells_append number_def)
  with direct.hyps get_number [OF direct.hyps(1)] get_number [OF direct.hyps(3)] show ?case
    by (simp add: get_count_def get_bit) (simp add: number_def)
qed (simp add: get_count_def get_zeros)

section \<open>Every block decodes\<close>

text \<open>The destination that holds the bytes \<open>out\<close> at its start.\<close>

definition holding :: "u8 list \<Rightarrow> u8 list \<Rightarrow> dest" where
  "holding buf out = (out @ drop (length out) buf, length out)"

lemma put_holding: "length out < length buf \<Longrightarrow> put_dest b (holding buf out) = Some (holding buf (out @ [b]))"
  by (simp add: holding_def put_dest_def list_update_append Cons_nth_drop_Suc [symmetric])

lemma length_copy_out [simp]: "length (copy_out pos n out) = length out + n"
  by (induction n arbitrary: out) simp_all

lemma copies_out_length: "copies_out ms out = Some out' \<Longrightarrow> length out \<le> length out'"
  by (induction ms arbitrary: out) (force split: if_splits)+

lemma unpack_length: "unpack gs out = Some out' \<Longrightarrow> length out \<le> length out'"
  by (induction gs arbitrary: out) (force split: bind_splits dest: copies_out_length)+

lemma copy_back_holding:
  "1 \<le> pos \<Longrightarrow> pos \<le> length out \<Longrightarrow> length out + n \<le> length buf \<Longrightarrow>
   copy_back pos n (holding buf out) = Some (holding buf (copy_out pos n out))"
proof (induction n arbitrary: out)
  case (Suc n)
  have "fst (holding buf out) ! (length out - pos) = out ! (length out - pos)"
  proof -
    have "length out - pos < length out" using Suc.prems by (intro diff_less) auto
    then show ?thesis by (simp add: holding_def nth_append)
  qed
  moreover have "snd (holding buf out) = length out" "length (fst (holding buf out)) = length buf"
    using Suc.prems by (simp_all add: holding_def)
  ultimately show ?case using Suc by (simp add: put_holding)
qed simp

lemma literals_codes:
  "codes (huff_code root 0) cs bs \<Longrightarrow> spells src p bs \<Longrightarrow> length out + length cs \<le> length buf \<Longrightarrow>
   literals src root (length cs) (p, holding buf out) = Some (p + length bs, holding buf (out @ cs))"
proof (induction arbitrary: p out rule: codes.induct)
  case (more c bs cs ds)
  then have "spells src p bs" "spells src (p + length bs) ds" by (simp_all add: spells_append)
  with more show ?case by (simp add: walk_code put_holding)
qed simp

lemma copies_codes:
  "codes (copy_code h) ms bs \<Longrightarrow> spells src p bs \<Longrightarrow> copies_out ms out = Some out' \<Longrightarrow> length out' \<le> length buf \<Longrightarrow>
   copies src h (length ms) (p, holding buf out) = Some (p + length bs, holding buf out')"
proof (induction arbitrary: p out rule: codes.induct)
  case (more m bs ms ds)
  from more.hyps(1) obtain n b1 t ts pos ps where m: "m = (unat n, unat pos)" "bs = b1 @ ts @ ps" "count_code h n b1" "number 2 t ts"
    "number (LZSSOffsetCodeLengthTable h (unat t)) pos ps" by (auto elim: copy_code.cases)
  have l: "length ts = 2" "length ps = LZSSOffsetCodeLengthTable h (unat t)" using m(4,5) by (simp_all add: number_def)
  have s: "spells src p b1" "spells src (p + length b1) ts" "spells src (p + length b1 + 2) ps"
    "spells src (p + length bs) ds" using more.prems(1) by (simp_all add: m(2) spells_append l add.assoc)
  from more.prems(2) have u: "1 \<le> unat pos" "unat pos \<le> length out"
    "copies_out ms (copy_out (unat pos) (unat n) out) = Some out'" by (simp_all add: m(1) split: if_splits)
  with copies_out_length [OF u(3)] more.prems(3) have "copy_back (unat pos) (unat n) (holding buf out) =
      Some (holding buf (copy_out (unat pos) (unat n) out))" by (intro copy_back_holding) simp_all
  with more.IH [OF s(4) u(3) more.prems(3)] show ?case
    using get_count_code [OF m(3) s(1)] get_number [OF m(4) s(2)] get_number [OF m(5) s(3)]
    by (simp add: m(2) l add.assoc)
qed simp

lemma block_decodes:
  "block_code h root gs bs \<Longrightarrow> spells src p bs \<Longrightarrow> unpack gs out = Some out' \<Longrightarrow> length out' \<le> length buf \<Longrightarrow>
   block_loop src h root (p, holding buf out) = Some (holding buf out')"
proof (induction arbitrary: p out rule: block_code.induct)
  case (stop bs)
  then show ?case by (subst block_loop.simps) (simp add: get_loop_code)
next
  case (stop_inside n b1 cs b2 b3)
  have s: "spells src p b1" "spells src (p + length b1) b2" "spells src (p + length b1 + length b2) b3"
    using stop_inside.prems(1) by (simp_all add: spells_append)
  have out: "out' = out @ cs" using stop_inside.prems(2) by simp
  show ?case
    using get_loop_code [OF stop_inside.hyps(1) s(1)] get_loop_code [OF stop_inside.hyps(5) s(3)]
      literals_codes [OF stop_inside.hyps(4) s(2), of out buf] stop_inside.hyps(2,3) stop_inside.prems(3)
    by (subst block_loop.simps) (simp add: out)
next
  case (group n b1 cs b2 m b3 ms b4 gs b5)
  have s: "spells src p b1" "spells src (p + length b1) b2" "spells src (p + length b1 + length b2) b3"
    "spells src (p + length b1 + length b2 + length b3) b4" "spells src (p + length b1 + length b2 + length b3 + length b4) b5"
    using group.prems(1) by (simp_all add: spells_append)
  from group.prems(2) obtain mid where mid: "copies_out ms (out @ cs) = Some mid" "unpack gs mid = Some out'"
    by (auto split: bind_splits)
  have len: "length mid \<le> length buf" "length out + length cs \<le> length buf"
    using copies_out_length [OF mid(1)] unpack_length [OF mid(2)] group.prems(3) by simp_all
  show ?case
    using get_loop_code [OF group.hyps(1) s(1)] get_loop_code [OF group.hyps(5) s(3)]
      literals_codes [OF group.hyps(4) s(2) len(2)] copies_codes [OF group.hyps(8) s(4) mid(1) len(1)]
      group.IH [OF s(5) mid(2) group.prems(3)] group.hyps(2,3,6,7)
    by (subst block_loop.simps) simp
qed

section \<open>Every file decodes\<close>

text \<open>The blocks of a file, plain or packed, and the bytes that they add.\<close>

inductive file_blocks :: "tree_node list \<Rightarrow> u8 list list \<Rightarrow> u8 list \<Rightarrow> u8 list \<Rightarrow> bool" for root where
  no_block: "file_blocks root [] out out"
| plain: "length h = 4 \<Longrightarrow> le_half h 2 = 0 \<Longrightarrow> unat (le_half h 0) = length bytes \<Longrightarrow>
    file_blocks root blks (out @ bytes) out' \<Longrightarrow> file_blocks root ((h @ bytes) # blks) out out'"
| packed: "24 \<le> length blk \<Longrightarrow> unat (le_half blk 2) = length blk \<Longrightarrow> block_code (take 24 blk) root gs bs \<Longrightarrow>
    spells (drop 24 blk) 0 bs \<Longrightarrow> unpack gs out = Some mid \<Longrightarrow> file_blocks root blks mid out' \<Longrightarrow>
    file_blocks root (blk # blks) out out'"

lemma file_blocks_length: "file_blocks root blks out out' \<Longrightarrow> length out \<le> length out'"
  by (induction rule: file_blocks.induct) (auto dest: unpack_length)

lemma le_half_append: "i + 2 \<le> length xs \<Longrightarrow> le_half (xs @ ys) i = le_half xs i"
  by (simp add: le_half_def nth_append)

lemma spells_prefix: "spells src p bs \<Longrightarrow> spells (src @ ys) p bs"
proof -
  assume a: "spells src p bs"
  have "bit_at (src @ ys) (p + i) = bit_at src (p + i)" if "i < length bs" for i
  proof -
    have "p + i < 16 * (length src div 2)" using a that by (simp add: spells_def)
    then have "(p + i) div 16 < length src div 2" by (simp add: less_mult_imp_div_less mult.commute)
    then have "2 * ((p + i) div 16) + 2 \<le> length src" by linarith
    then show ?thesis by (simp add: bit_at_def le_half_append)
  qed
  moreover have "16 * (length src div 2) \<le> 16 * (length (src @ ys) div 2)" by (simp add: div_le_mono)
  ultimately show ?thesis using a unfolding spells_def by force
qed

lemma copy_plain_bytes:
  "length out + length bytes \<le> length buf \<Longrightarrow>
   copy_plain (length bytes) (bytes @ ys, holding buf out) = Some (ys, holding buf (out @ bytes))"
  by (induction bytes arbitrary: out) (simp_all add: put_holding)

lemma file_decodes:
  "file_blocks root blks out out' \<Longrightarrow> length out' \<le> length buf \<Longrightarrow> length xs = length blks \<Longrightarrow>
   foldM (\<lambda>_. decode_block root) xs (concat blks @ tail, holding buf out) = Some (tail, holding buf out')"
proof (induction arbitrary: xs rule: file_blocks.induct)
  case (plain h bytes blks out out')
  from plain.prems(2) obtain x ys where xs: "xs = x # ys" "length ys = length blks" by (cases xs) auto
  have "length out + length bytes \<le> length buf" using file_blocks_length [OF plain.hyps(4)] plain.prems(1) by simp
  with plain.hyps(1-3) have "decode_block root (h @ bytes @ concat blks @ tail, holding buf out) =
      Some (concat blks @ tail, holding buf (out @ bytes))"
    by (simp add: decode_block_def le_half_append copy_plain_bytes)
  then show ?case using plain.IH [OF plain.prems(1) xs(2)] by (simp add: xs(1))
next
  case (packed blk gs bs out mid blks out')
  from packed.prems(2) obtain x ys where xs: "xs = x # ys" "length ys = length blks" by (cases xs) auto
  have len: "length mid \<le> length buf" using file_blocks_length [OF packed.hyps(6)] packed.prems(1) by simp
  have "spells (drop 24 blk @ concat blks @ tail) 0 bs" by (rule spells_prefix [OF packed.hyps(4)])
  from block_decodes [OF packed.hyps(3) this packed.hyps(5) len]
  have "decode_block root (blk @ concat blks @ tail, holding buf out) = Some (concat blks @ tail, holding buf mid)"
    using packed.hyps(1,2) by (auto simp: decode_block_def le_half_append Let_def)
  then show ?case using packed.IH [OF packed.prems(1) xs(2)] by (simp add: xs(1))
qed simp

text \<open>The flags of the tree fill whole 16-bit words.\<close>

lemma halves_needed: "(n + 15) div 16 = (if n mod 16 \<noteq> 0 then n div 16 + 1 else n div 16)" for n :: nat
proof (cases "n mod 16 = 0")
  case False
  moreover have "n mod 16 < 16" by simp
  ultimately have "(n mod 16 + 15) div 16 = 1" by (intro div_nat_eqI) simp_all
  with False show ?thesis by (simp add: div_add1_eq [of n 15])
qed (simp add: div_add1_eq [of n 15])

text \<open>C40: The decompressor decodes the format: for a file whose blocks, plain or packed, spell a sequence of literal
  bytes and copies, in whichever of their codes, it returns, with the bytes that the sequence means at the start of
  the destination, the rest of which is as before, and the length that the header declares, when those bytes fit.
\<close>

theorem decompress_decodes:
  assumes magic: "le_full src 0 = 0x315f4a59" and fits: "unat (le_full src 4) \<le> length dst"
    and tree: "build_nodes src (unat (src ! 15) * 2) = Some root"
    and used: "used = 16 + unat (src ! 15) * 2 + 2 * ((unat (src ! 15) * 2 + 15) div 16)" "used \<le> length src"
    and blocks: "drop used src = concat blks @ tail" "unat (le_half src 12) = length blks"
    and meaning: "file_blocks root blks [] out" "length out \<le> length dst"
  shows "Decompress True (Some src) dst = Some (sint (le_full src 4), out @ drop (length out) dst)"
proof -
  have "used = 16 + unat (src ! 15) * 2 + 2 * (if unat (src ! 15) * 2 mod 16 \<noteq> 0 then unat (src ! 15) * 2 div 16 + 1
      else unat (src ! 15) * 2 div 16)" using used(1) by (simp only: halves_needed)
  moreover have "16 \<le> length src" using used by simp
  moreover have "holding dst [] = (dst, 0)" by (simp add: holding_def)
  ultimately show ?thesis
    using file_decodes [OF meaning, of "[0..<unat (le_half src 12)]" tail] magic fits tree used(2) blocks
    by (simp add: Decompress_def Let_def holding_def)
qed

text \<open>A file of two blocks: two literals and a copy of four bytes from a distance of two, and two plain bytes.\<close>

definition example_block :: "u8 list" where
  "example_block = [6, 0, 26, 0, 4, 0, 0, 0, 0, 0, 0, 0, 2, 0, 0, 0, 0, 0, 0, 1, 0, 0, 2, 1, 0x22, 0xa0]"

definition example_file :: "u8 list" where
  "example_file = [0x59, 0x4a, 0x5f, 0x31, 8, 0, 0, 0, 0, 0, 0, 0, 2, 0, 0, 1, 0x41, 0x42, 0, 0]
     @ example_block @ [2, 0, 0, 0, 0x43, 0x44]"

theorem decompress_decodes_witness:
  "Decompress True (Some example_file) (replicate 9 0) =
     Some (8, [0x41, 0x42, 0x41, 0x42, 0x41, 0x42, 0x43, 0x44, 0])"
proof -
  let ?root = "[\<lparr>leaf = False, nvalue = 0\<rparr>, \<lparr>leaf = True, nvalue = 0x41\<rparr>, \<lparr>leaf = True, nvalue = 0x42\<rparr>]"
  let ?h = "take 24 example_block"
  have tree: "build_nodes example_file (unat (example_file ! 15) * 2) = Some ?root" by code_simp
  have tables: "CodeCountTable ?h 0 = 2" "CodeCountTable ?h 1 = 1" "CodeCountCodeLengthTable ?h 0 = 1" "LZSSRepeatTable ?h 0 = 4"
    "LZSSOffsetCodeLengthTable ?h 0 = 2" by code_simp+
  have a: "huff_code ?root 0 0x41 [False]" and b: "huff_code ?root 0 0x42 [True]"
    using huff_code.inner [where root = ?root and i = 0 and b = False and bs = "[]"] huff_code.at_leaf [where root = ?root and i = 1]
      huff_code.inner [where root = ?root and i = 0 and b = True and bs = "[]"] huff_code.at_leaf [where root = ?root and i = "Suc (Suc 0)"]
    by (simp_all add: left_child_def right_child_def)
  have lits: "codes (huff_code ?root 0) [0x41, 0x42] ([False] @ [True] @ [])" by (intro codes.intros a b)
  have "copy_code ?h (unat (LZSSRepeatTable ?h 0), unat (2 :: u32)) ([False, False] @ [False, False] @ [True, False])"
    by (rule copy_code.intros [where t = 0]) (auto intro: count_code.zero [of ?h, unfolded tables] simp: number_def bits_word_def tables)
  then have c: "codes (copy_code ?h) [(4, 2)] (([False, False] @ [False, False] @ [True, False]) @ [])"
    by (intro codes.intros) (simp add: tables)
  have "loop_code ?h (ucast (0 :: u32)) (False # [False, True] @ [False])"
    by (rule loop_code.direct [where t = 1]) (auto simp: number_def bits_word_def tables)
  then have z: "loop_code ?h 0 (False # [False, True] @ [False])" by simp
  have "block_code ?h ?root [([0x41, 0x42], [(4, 2)])] ([True] @ ([False] @ [True] @ []) @ [False, False, False] @
      (([False, False] @ [False, False] @ [True, False]) @ []) @ (False # [False, True] @ [False]))"
    by (rule block_code.group [OF loop_code.first [of ?h, unfolded tables] _ _ lits loop_code.second [of ?h, unfolded tables] _ _ c
          block_code.stop [OF z]]) simp_all
  then have bc: "block_code ?h ?root [([0x41, 0x42], [(4, 2)])] [True, False, True, False, False, False, False, False, False, False, True, False, False, False, True, False]"
    by simp
  have sp: "spells (drop 24 example_block) 0 [True, False, True, False, False, False, False, False, False, False, True, False, False, False, True, False]"
    unfolding spells_def by code_simp
  have un: "unpack [([0x41, 0x42], [(4, 2)])] [] = Some [0x41, 0x42, 0x41, 0x42, 0x41, 0x42]"
    and len: "24 \<le> length example_block" "unat (le_half example_block 2) = length example_block" by code_simp+
  have "file_blocks ?root [[2, 0, 0, 0] @ [0x43, 0x44]] [0x41, 0x42, 0x41, 0x42, 0x41, 0x42] [0x41, 0x42, 0x41, 0x42, 0x41, 0x42, 0x43, 0x44]"
    by (rule file_blocks.plain) (auto simp: le_half_def intro: file_blocks.no_block)
  then have "file_blocks ?root [example_block, [2, 0, 0, 0] @ [0x43, 0x44]] [] [0x41, 0x42, 0x41, 0x42, 0x41, 0x42, 0x43, 0x44]"
    by (rule file_blocks.packed [OF len bc sp un])
  moreover have "le_full example_file 0 = 0x315f4a59" "le_full example_file 4 = 8" "le_half example_file 12 = 2"
    "example_file ! 15 = 1" "length example_file = 52" by code_simp+
  moreover have "drop 20 example_file = concat [example_block, [2, 0, 0, 0] @ [0x43, 0x44]] @ []"
    by (simp add: example_file_def)
  ultimately show ?thesis
    using decompress_decodes [OF _ _ tree, where dst = "replicate 9 0" and used = 20 and blks = "[example_block, [2, 0, 0, 0] @ [0x43, 0x44]]" and tail = "[]"] by simp
qed

end
