(* ===== verification/Spec2Isabelle.thy ===== *)
theory Spec2Isabelle
  imports Interrupts Cache_Correct Dispatch_Correct Kernel_User_Space Kernel_Irq_Correct Kernel_Disk_Correct Kernel_Loader_Correct Breakpoint_Correct
    Fpu_Add_Correct Fpu_Div_Correct Exec_Correct Monitor_Correct Tlb_Correct
    Game_Invariant Pal_Gpu_Correct Pal_Image_Correct Pal_Input_Correct Pal_Yj1_Correct
begin

text \<open>
  A model of NEMU, an emulator of an IA-32 machine written in C (\<open>src/nemu\<close>), and of the small
  protected-mode kernel that runs on it (\<open>src/kernel\<close>), with the theorems that make them correct.

  \<^bold>\<open>The program.\<close> \<open>exec\<close> (\<open>cpu/cpu.c\<close>) fetches an opcode through segmentation and paging
  (\<open>memory/memory.c\<close>, \<open>mmu/*.c\<close>), looks its handler up in the table of \<open>cpu/decode/opcode.c\<close>, and the
  handler decodes its operands (\<open>decode/operand.c\<close>, \<open>modrm.c\<close>, \<open>sib.c\<close>), computes with the ALU (\<open>cpu/alu.c\<close>)
  or the software FPU (\<open>cpu/fpu.c\<close>) and writes the result back. Between instructions the devices
  (\<open>device/*.c\<close>) advance and the interrupt controller may make \<open>do_intr\<close> enter a handler of the guest. The
  monitor's breakpoints (\<open>monitor/breakpoint.c\<close>) patch the guest's code. \<open>main\<close> starts the machine as its arguments say and hands it to the monitor's command line. The kernel sets up paging and
  segments, installs the interrupt table, and serves system calls on a file system on the disk. The
  configuration is that of \<open>include/config.h\<close>: segmentation, paging, interrupts, timer, serial line, IDE, keyboard,
  VGA and \<open>QUICK_DISK\<close> on; cache, TLB and audio off.

  \<^bold>\<open>State and effects.\<close> All of the emulator's state is the record \<open>machine\<close> (\<open>Nemu_State\<close>): the globals of the C
  code are its fields, among them \<open>opr_src\<close>, \<open>opr_dest\<close> and \<open>data_size\<close>, which survive from one instruction to the
  next as in the source. An operation takes the machine and returns it changed; \<open>None\<close> means that the host process
  does not return normally: a failing assertion, an abort, undefined behaviour (an access out of the bounds of an
  array, an excessive shift) or a recursion or loop without end. Integers are words of their width in C; a union is
  one word with the accessors \<open>bf_get\<close> and \<open>bf_put\<close> for its bit-fields; a pointer into a pool is an index. The host
  is a 32-bit one (the build passes \<open>-m32\<close>), where signed arithmetic is taken to wrap. Output that only informs
  (\<open>printf\<close>, \<open>Log\<close>, the disassembly under \<open>verbose\<close>) is not modelled; what a guest prints on the serial line is.

  \<^bold>\<open>The theories of the emulator.\<close>
  \<^item> \<open>Nemu_Prelude\<close>: words, bit-fields, flags, little-endian memory access, \<open>foldM\<close>. \<open>Nemu_State\<close>: the state.
  \<^item> \<open>Alu\<close> / \<open>Alu_Correct\<close>: every function of \<open>alu.c\<close>; results and flags against integer arithmetic for the
    three operand sizes, the shift loops against one shift, division and its errors.
  \<^item> \<open>Memory\<close> / \<open>Memory_Correct\<close>: physical, linear and virtual accesses, paging, segment loading and the MMIO maps;
    bounds, round trip of a write and a read through segments and page tables, across page borders, bytewise reading,
    the flat descriptors; \<open>paddr_write_frame\<close> and its companions say what a write leaves alone.
  \<^item> \<open>Devices\<close> / \<open>Interrupts\<close>: the ports and devices. The interrupt controller is a latch (a locale), and every
    port access and device step is a run of that latch.
  \<^item> \<open>Operand\<close>, \<open>Instr_Arith\<close>, \<open>Instr_Move\<close>, \<open>Instr_Control\<close>: one function per handler of \<open>cpu/instr\<close>; the C
    macros that generate handlers are functions of their parameters. \<open>Fpu\<close>, \<open>X87\<close>: the FPU. \<open>Opcode\<close>: the tables.
    \<open>Cpu\<close>: \<open>init_cpu\<close>, \<open>exec_inst\<close>, \<open>do_intr\<close> and \<open>exec\<close>.
  \<^item> \<open>Stack\<close>: push and pop as a locale of a stack; \<open>pusha\<close>/\<open>popa\<close>, \<open>call\<close>/\<open>ret\<close> and interrupt/\<open>iret\<close>
    as round trips. \<open>Control_Correct\<close>: the sixteen conditions after a comparison, the conditional jumps,
    the defect of \<open>ret imm16\<close>. \<open>Dispatch_Correct\<close>: prefixes and string instructions.
  \<^item> \<open>Cache\<close> / \<open>Cache_Correct\<close>: the cache of \<open>mmu/cache.c\<close>, as a value beside the machine: coherence,
    transparency, and the defect of a write across two blocks.
  \<^item> \<open>Tlb\<close> / \<open>Tlb_Correct\<close>: the look-aside buffer of \<open>mmu/tlb.c\<close>, likewise: transparency (a locale of memoised
    functions), and that a hit consults neither \<open>cr3\<close> nor the tables.
  \<^item> \<open>Fpu_Rounding\<close>: what correct rounding is (the nearest of all magnitudes, ties to even) and that
    \<open>internal_normalize\<close> rounds the value its significand and sticky bit stand for. \<open>Fpu_Add_Correct\<close>,
    \<open>Fpu_Mul_Correct\<close>, \<open>Fpu_Div_Correct\<close>: the four operations, and the two places where they are not correctly rounded.
  \<^item> \<open>Breakpoint\<close> / \<open>Breakpoint_Correct\<close> on \<open>Linked_List\<close> (paths in a pool of nodes, and the locale of
    a pool with an assignable \<open>next\<close>): the pool's invariant under all operations, and the restored code.
  \<^item> \<open>Exec_Correct\<close>: runs of \<open>exec\<close> as a whole: splitting a run, and waking a halted processor, by an induction
    over the iterations of a loop that returns.
  \<^item> \<open>Monitor_Elf\<close>, \<open>Monitor_Ui\<close>, \<open>Startup\<close> / \<open>Monitor_Correct\<close>: the symbol tables of \<open>monitor/elf.c\<close>, the commands of
    \<open>monitor/ui.c\<close>, \<open>parse_args.c\<close> and \<open>main.c\<close>. A session is the list of lines that \<open>readline\<close> returns, each with the
    inputs of the host and the answers that \<open>scanf\<close> reads; what is printed is a list of messages. The \<open>C\<close> library
    functions that the commands rest on (\<open>strtok\<close>, \<open>sscanf\<close>, \<open>strcmp\<close>) are defined for the formats in use.

  \<^bold>\<open>The theories of the kernel.\<close> The kernel runs on the modelled machine: its loads and stores are the emulator's
  memory, its port instructions the emulator's devices. Addresses that the linker assigns are arguments.
  A result that may stop is \<open>kernel_error + 'a\<close> with the errors \<open>Panic\<close>, \<open>Undefined\<close> and \<open>Fault\<close>.
  \<^item> \<open>Kernel_Memory\<close>, \<open>Kernel_Memory_Correct\<close>, \<open>Kernel_User_Space\<close>: \<open>memory/kvm.c\<close>, \<open>mm.c\<close>, \<open>vmem.c\<close>;
    what the page tables and descriptors that they write mean to the emulator. Stores go to the physical addresses of
    \<open>va_to_pa\<close>; \<open>init_page_maps\<close> justifies it.
  \<^item> \<open>Kernel_Irq\<close>, \<open>Kernel_Irq_Correct\<close>: the gates that \<open>raise_intr\<close> reads, the chains of handlers.
  \<^item> \<open>Kernel_Fs\<close>, \<open>Kernel_Fs_Correct\<close>: the file system, the disk window, the serial line and the system
    calls; reading in pieces, the defect of \<open>fs_lseek\<close>, the console, descriptors.
  \<^item> \<open>Kernel_Disk\<close>, \<open>Kernel_Disk_Correct\<close>: the driver that the disk window bypasses - sector cache, programmed
    transfer, interrupt - reads through the emulated controller what the window reads. Interrupts are taken
    where the driver waits for them.
  \<^item> \<open>Kernel_Loader\<close>, \<open>Kernel_Loader_Correct\<close>: \<open>elf/elf.c\<close>, and the order of the start in \<open>main.c\<close>, up to the jump
    to the program; what a loaded segment holds (\<open>load_segment_image\<close>).


  \<^bold>\<open>The typing game.\<close> A program of the guest, \<open>game/src/typing\<close>, here with a state of its own, the record \<open>game\<close>.
  \<^item> \<open>Game_Letters\<close>: the letters on the doubly linked lists of \<open>adt/linklist.h\<close>, the keys. \<open>Game_Screen\<close>: drawing.
    \<open>Game_Loop\<close>: the main loop as steps between which the interrupts of timer and keyboard may come (\<open>game_runs\<close>).
  \<^item> \<open>Double_List\<close>, \<open>Game_Correct\<close>, \<open>Game_Screen_Correct\<close>, \<open>Game_Invariant\<close>: the lists against lists of HOL, on the
    locale \<open>double_pool\<close>; drawing inside the buffer; the invariant of all runs, by rule induction.

  \<^bold>\<open>The theories of the game nemu-pal.\<close> Of this port of a third-party engine the parts are modelled that meet
  the emulator and that decode data.
  \<^item> \<open>Pal_Gpu\<close> / \<open>Pal_Gpu_Correct\<close>: \<open>SDL_BlitSurface\<close> of \<open>hal/video.c\<close>, whose stores and port bytes run on the
    modelled machine, together with the emulated device (\<open>gpu.c\<close>) that answers them.
  \<^item> \<open>Pal_Input\<close> / \<open>Pal_Input_Correct\<close>: the key states of \<open>hal/keyboard.c\<close> and the input state of \<open>device/input.c\<close>, with
    the interrupts between the polls as events.
  \<^item> \<open>Pal_Image\<close> / \<open>Pal_Image_Correct\<close>: the run-length encoded bitmaps and the sprites of \<open>global/palcommon.c\<close>; the loop with
    its jumps against decoding and drawing pixel by pixel.
  \<^item> \<open>Pal_Yj1\<close> / \<open>Pal_Yj1_Correct\<close>: the decompressor of \<open>misc/yj1.c\<close> against the format it reads.

  \<^bold>\<open>Bounds and fuel.\<close> \<open>exec_opcode\<close> takes a fuel that stands for the nesting of prefixes on the host's stack; it is proved
  that a result, once there, does not depend on it and that every opcode but the two recursive prefixes needs
  one level. Loops that may not end are \<open>partial_function (option)\<close>; where the code is meant to end it is proved that
  they do. All other recursion is structural.

  \<^bold>\<open>Not modelled.\<close> Audio (off in the configuration), the
  window of SDL (assumed to open), the built-in tests, the scoring and the tables of the reference library,
  the printers, \<open>mm_malloc\<close> (an object file without source; a parameter), the assembly of \<open>start.S\<close> and
  \<open>do_irq.S\<close>, the C library, the set-up and system call
  stubs of the guest's programs, the credits, the engine of \<open>nemu-pal\<close> beyond the parts above (vendored), and the test programs.
\<close>

end
